(* ===== verification/Go_Prelude.thy ===== *)
theory Go_Prelude
  imports Main "HOL-Library.Word" "HOL-Library.Multiset" "HOL-Library.List_Lexorder"
    "HOL-Library.Char_ord"
begin

unbundle bit_operations_syntax

text \<open>
  The vocabulary every component theory shares: the Go integer types as words, Go errors and panics
  as values, the state-and-error monad that models a method which mutates its receiver and may
  return an error half way, little-endian integer codecs of \<^verbatim>\<open>encoding/binary\<close>, and an
  \<^verbatim>\<open>io.Reader\<close> as the list of bytes it has not delivered yet.

  The interface \<open>fixed_codec\<close> (a fixed-width binary layout that is written and read back) is stated
  here as a locale; the component theories interpret it on the layouts of the program.
\<close>

section \<open>Collections of facts\<close>

named_theorems go_simps \<open>unfolding rules of the state-and-error monad\<close>
named_theorems codec_simps \<open>widths and inverses of the binary layouts\<close>

section \<open>Go types\<close>

type_synonym u8 = "8 word"
type_synonym u16 = "16 word"
type_synonym u32 = "32 word"
type_synonym u64 = "64 word"
type_synonym i8 = "8 word"
type_synonym i32 = "32 word"
type_synonym i64 = "64 word"
type_synonym bytes = "u8 list"

text \<open>
  An \<open>error\<close> value of Go. \<open>EOF\<close> and \<open>UnexpectedEOF\<close> are the sentinels of package \<open>io\<close>;
  \<open>Failure\<close> carries the message of \<open>errors.New\<close> or \<open>fmt.Errorf\<close>; \<open>Panic\<close> marks a run-time
  panic, which no caller in the modelled code recovers from, so it travels like an error.
\<close>

datatype go_error = EOF | UnexpectedEOF | KeyNotFound | Failure string | Panic string

type_synonym 'a result = "go_error + 'a"

text \<open>\<open>[]byte(s)\<close> and \<open>string(b)\<close>: a Go string is a sequence of bytes.\<close>

definition bytes_of_string :: "string \<Rightarrow> bytes" where
  "bytes_of_string s = map of_char s"

definition string_of_bytes :: "bytes \<Rightarrow> string" where
  "string_of_bytes bs = map (\<lambda>b. char_of (unat b)) bs"

lemma string_of_bytes_of_string [simp]: "string_of_bytes (bytes_of_string s) = s"
proof -
  have "char_of (unat (of_char c :: u8)) = c" for c
  proof -
    have "unat (of_char c :: u8) = of_char c mod 2 ^ 8"
      by (simp add: of_char_def unat_of_nat flip: of_nat_of_char)
    also have "\<dots> = of_char c" using nat_of_char_less_256 [of c] by simp
    finally show ?thesis by simp
  qed
  then show ?thesis
    by (simp add: string_of_bytes_def bytes_of_string_def comp_def)
qed

lemma length_bytes_of_string [simp]: "length (bytes_of_string s) = length s"
  by (simp add: bytes_of_string_def)

text \<open>
  A value of type \<open>any\<close> (\<open>interface{}\<close>) with its dynamic type, for the types the modelled code stores
  in one. Floating-point numbers are kept as their IEEE bit patterns, a protobuf message as its name.
\<close>

datatype go_any =
    Any_nil
  | Any_bool bool
  | Any_int8 i8
  | Any_int16 u16
  | Any_int32 i32
  | Any_int64 i64
  | Any_float32 u32
  | Any_float64 u64
  | Any_string string
  | Any_bytes bytes
  | Any_float32s "u32 list"
  | Any_float16s "u16 list"
  | Any_uint64 u64
  | Any_message string

text \<open>Indexing a slice: out of range is a run-time panic.\<close>

definition go_index :: "'a list \<Rightarrow> int \<Rightarrow> 'a result" where
  "go_index xs i = (if 0 \<le> i \<and> i < int (length xs) then Inr (xs ! nat i)
     else Inl (Panic ''index out of range''))"

lemma go_index_nat [simp]: "i < length xs \<Longrightarrow> go_index xs (int i) = Inr (xs ! i)"
  by (simp add: go_index_def)

text \<open>A length kept in an \<open>int64\<close> reads back as itself below \<open>2 ^ 63\<close>.\<close>

lemma sint_of_nat_small: "n < 2 ^ 63 \<Longrightarrow> sint (of_nat n :: i64) = int n"
  by (simp add: signed_of_nat signed_take_bit_int_eq_self)

section \<open>Results\<close>

definition res_bind :: "'a result \<Rightarrow> ('a \<Rightarrow> 'b result) \<Rightarrow> 'b result" where
  "res_bind r f = (case r of Inl e \<Rightarrow> Inl e | Inr a \<Rightarrow> f a)"

lemma res_bind_simps [simp]:
  "res_bind (Inl e) f = Inl e"
  "res_bind (Inr a) f = f a"
  by (simp_all add: res_bind_def)

lemma res_bind_Inr_iff:
  "res_bind r f = Inr b \<longleftrightarrow> (\<exists>a. r = Inr a \<and> f a = Inr b)"
  by (cases r) auto

lemma go_index_map: "go_index (map f xs) i = res_bind (go_index xs i) (\<lambda>x. Inr (f x))"
  by (cases "0 \<le> i \<and> i < int (length xs)") (auto simp: go_index_def nat_less_iff)

text \<open>The loop \<open>for _, x := range xs\<close> whose body returns from the function on an error.\<close>

fun res_fold :: "('a \<Rightarrow> 'b \<Rightarrow> 'b result) \<Rightarrow> 'a list \<Rightarrow> 'b \<Rightarrow> 'b result" where
  "res_fold f [] acc = Inr acc"
| "res_fold f (x # xs) acc = res_bind (f x acc) (res_fold f xs)"

lemma res_fold_append:
  "res_fold f (xs @ ys) acc = res_bind (res_fold f xs acc) (res_fold f ys)"
  by (induction xs arbitrary: acc) (auto simp: res_bind_def split: sum.splits)

lemma res_fold_invariant:
  assumes "res_fold f xs acc = Inr acc'" and "P acc"
    and "\<And>x a a'. x \<in> set xs \<Longrightarrow> P a \<Longrightarrow> f x a = Inr a' \<Longrightarrow> P a'"
  shows "P acc'"
  using assms
proof (induction xs arbitrary: acc)
  case Nil
  then show ?case by simp
next
  case (Cons x xs)
  from Cons.prems(1) obtain a where a: "f x acc = Inr a" and rest: "res_fold f xs a = Inr acc'"
    by (auto simp: res_bind_Inr_iff)
  have "P a" using Cons.prems(2,3) a by (meson list.set_intros(1))
  with rest Cons.prems(3) show ?case
    by (intro Cons.IH) (auto intro: list.set_intros)
qed

section \<open>Methods: state, result and error\<close>

type_synonym ('s, 'a) go = "'s \<Rightarrow> 'a result \<times> 's"

definition go_return :: "'a \<Rightarrow> ('s, 'a) go" where
  "go_return a s = (Inr a, s)"

definition go_fail :: "go_error \<Rightarrow> ('s, 'a) go" where
  "go_fail e s = (Inl e, s)"

definition go_bind :: "('s, 'a) go \<Rightarrow> ('a \<Rightarrow> ('s, 'b) go) \<Rightarrow> ('s, 'b) go" where
  "go_bind m f s = (case m s of (Inl e, s') \<Rightarrow> (Inl e, s') | (Inr a, s') \<Rightarrow> f a s')"

text \<open>A pure step that may fail, run inside a method.\<close>

definition go_lift :: "'a result \<Rightarrow> ('s, 'a) go" where
  "go_lift r s = (r, s)"

lemma go_unfold [go_simps, simp]:
  "go_return a s = (Inr a, s)"
  "go_fail e s = (Inl e, s)"
  "go_lift r s = (r, s)"
  by (simp_all add: go_return_def go_fail_def go_lift_def)

lemma go_bind_Inr [go_simps]: "m s = (Inr a, s') \<Longrightarrow> go_bind m f s = f a s'"
  by (simp add: go_bind_def)

lemma go_bind_Inl [go_simps]: "m s = (Inl e, s') \<Longrightarrow> go_bind m f s = (Inl e, s')"
  by (simp add: go_bind_def)

lemma go_bind_Inr_iff:
  "go_bind m f s = (Inr b, s'') \<longleftrightarrow> (\<exists>a s'. m s = (Inr a, s') \<and> f a s' = (Inr b, s''))"
  by (auto simp: go_bind_def split: prod.splits sum.splits)

section \<open>Little-endian integers\<close>

text \<open>
  \<open>binary.LittleEndian.PutUint\<^emph>\<open>n\<close>\<close> stores the low byte first; the readers combine the bytes
  with shifts and \<open>|\<close>.
\<close>

primrec put_le :: "nat \<Rightarrow> 'a::len word \<Rightarrow> bytes" where
  "put_le 0 w = []"
| "put_le (Suc n) w = ucast w # put_le n (drop_bit 8 w)"

primrec get_le :: "bytes \<Rightarrow> 'a::len word" where
  "get_le [] = 0"
| "get_le (b # bs) = ucast b OR push_bit 8 (get_le bs)"

lemma length_put_le [simp, codec_simps]: "length (put_le n w) = n"
  by (induction n arbitrary: w) auto

lemma get_put_le: "(get_le (put_le n w) :: 'a::len word) = take_bit (8 * n) w"
proof (induction n arbitrary: w)
  case 0
  then show ?case by simp
next
  case (Suc n)
  have "bit (get_le (put_le (Suc n) w) :: 'a word) i = bit (take_bit (8 * Suc n) w) i"
    if "i < LENGTH('a)" for i
    using that
    by (cases "i < 8")
      (auto simp: Suc.IH bit_or_iff bit_push_bit_iff bit_take_bit_iff bit_drop_bit_eq
        bit_ucast_iff)
  then show ?case by (intro bit_eqI) auto
qed

lemma get_put_le_full [simp, codec_simps]:
  "LENGTH('a) \<le> 8 * n \<Longrightarrow> get_le (put_le n w) = (w :: 'a::len word)"
  by (simp add: get_put_le take_bit_word_eq_self)

text \<open>The stored bytes depend on the low bits only.\<close>

lemma put_le_cong:
  fixes u v :: "'a::len word"
  shows "\<forall>i < 8 * n. bit v i = bit u i \<Longrightarrow> put_le n v = put_le n u"
proof (induction n arbitrary: u v)
  case 0
  then show ?case by simp
next
  case (Suc n)
  have "(ucast v :: u8) = ucast u"
    by (rule bit_eqI) (use Suc.prems in \<open>auto simp: bit_ucast_iff\<close>)
  moreover have "\<forall>i < 8 * n. bit (drop_bit 8 v) i = bit (drop_bit 8 u) i"
    using Suc.prems by (auto simp: bit_drop_bit_eq)
  ultimately show ?case by (simp add: Suc.IH)
qed

lemma put_get_le:
  "8 * length bs \<le> LENGTH('a::len) \<Longrightarrow> put_le (length bs) (get_le bs :: 'a word) = bs"
proof (induction bs)
  case Nil
  then show ?case by simp
next
  case (Cons b bs)
  let ?w = "get_le bs :: 'a word"
  have "bit (ucast (ucast b OR push_bit 8 ?w) :: u8) i = bit b i" if "i < 8" for i
    using that Cons.prems by (auto simp: bit_ucast_iff bit_or_iff bit_push_bit_iff)
  then have head: "ucast (ucast b OR push_bit 8 ?w) = b"
    by (intro bit_eqI) auto
  have "\<forall>i < 8 * length bs. bit (drop_bit 8 (ucast b OR push_bit 8 ?w)) i = bit ?w i"
    using Cons.prems by (auto simp: bit_drop_bit_eq bit_or_iff bit_push_bit_iff bit_ucast_iff
        dest: bit_imp_le_length)
  then have "put_le (length bs) (drop_bit 8 (ucast b OR push_bit 8 ?w)) = put_le (length bs) ?w"
    by (rule put_le_cong)
  also have "\<dots> = bs" using Cons by simp
  finally show ?case using head by (simp del: drop_bit_or)
qed

section \<open>Readers\<close>

text \<open>
  A reader over a finished file or buffer is the list of bytes still to come; it has no errors other
  than the end of its data. \<open>io.ReadFull\<close> on an empty buffer succeeds at once; otherwise it reports
  \<open>EOF\<close> when nothing was read and \<open>UnexpectedEOF\<close> after a partial read, which consumes the rest.
\<close>

definition read_full :: "nat \<Rightarrow> (bytes, bytes) go" where
  "read_full n rd =
     (if n \<le> length rd then (Inr (take n rd), drop n rd)
      else (Inl (if rd = [] then EOF else UnexpectedEOF), []))"

text \<open>\<open>binary.Read\<close> of a fixed-size value: one \<open>ReadFull\<close> of its size, then decode.\<close>

definition binary_read :: "nat \<Rightarrow> (bytes \<Rightarrow> 'a) \<Rightarrow> (bytes, 'a) go" where
  "binary_read n dec = go_bind (read_full n) (\<lambda>bs. go_return (dec bs))"

lemma read_full_append [simp, codec_simps]:
  "length bs = n \<Longrightarrow> read_full n (bs @ rest) = (Inr bs, rest)"
  by (simp add: read_full_def)

lemma read_full_0 [simp]: "read_full 0 rd = (Inr [], rd)"
  by (simp add: read_full_def)

lemma read_full_short:
  "length rd < n \<Longrightarrow> read_full n rd = (Inl (if rd = [] then EOF else UnexpectedEOF), [])"
  by (simp add: read_full_def)

lemma read_full_Inr_iff:
  "read_full n rd = (Inr bs, rd') \<longleftrightarrow> rd = bs @ rd' \<and> length bs = n"
  by (auto simp: read_full_def)

lemma binary_read_append [simp, codec_simps]:
  "length bs = n \<Longrightarrow> binary_read n dec (bs @ rest) = (Inr (dec bs), rest)"
  by (simp add: binary_read_def go_bind_def)

lemma binary_read_short:
  "length rd < n \<Longrightarrow> binary_read n dec rd = (Inl (if rd = [] then EOF else UnexpectedEOF), [])"
  by (simp add: binary_read_def go_bind_def read_full_short)

lemma binary_read_Inr_iff:
  "binary_read n dec rd = (Inr a, rd') \<longleftrightarrow> (\<exists>bs. rd = bs @ rd' \<and> length bs = n \<and> a = dec bs)"
  by (auto simp: binary_read_def go_bind_Inr_iff read_full_Inr_iff)

section \<open>Readers that accept exactly their encoding\<close>

text \<open>
  \<open>reads m bs a\<close>: on the bytes \<open>bs\<close> followed by anything, \<open>m\<close> answers \<open>a\<close> and leaves the rest; on a
  proper prefix of \<open>bs\<close> it reports the end of the data and has consumed everything.
\<close>

definition reads :: "(bytes, 'a) go \<Rightarrow> bytes \<Rightarrow> 'a \<Rightarrow> bool" where
  "reads m bs a \<longleftrightarrow> (\<forall>rest. m (bs @ rest) = (Inr a, rest)) \<and>
     (\<forall>n < length bs. \<exists>e \<in> {EOF, UnexpectedEOF}. m (take n bs) = (Inl e, []))"

lemma readsD:
  assumes "reads m bs a"
  shows "m (bs @ rest) = (Inr a, rest)"
    and "n < length bs \<Longrightarrow> \<exists>e \<in> {EOF, UnexpectedEOF}. m (take n bs) = (Inl e, [])"
  using assms by (auto simp: reads_def)

lemma reads_return: "reads (go_return a) [] a"
  by (simp add: reads_def)

lemma reads_lift: "r = Inr a \<Longrightarrow> reads (f a) bs b \<Longrightarrow> reads (go_bind (go_lift r) f) bs b"
  by (simp add: reads_def go_bind_def)

lemma reads_bind:
  assumes m: "reads m bs a" and f: "reads (f a) cs b"
  shows "reads (go_bind m f) (bs @ cs) b"
  unfolding reads_def
proof (intro conjI allI impI)
  show "go_bind m f ((bs @ cs) @ rest) = (Inr b, rest)" for rest
    using readsD(1) [OF m] readsD(1) [OF f] by (simp add: go_bind_def)
  fix n assume n: "n < length (bs @ cs)"
  show "\<exists>e \<in> {EOF, UnexpectedEOF}. go_bind m f (take n (bs @ cs)) = (Inl e, [])"
  proof (cases "n < length bs")
    case True
    with readsD(2) [OF m True] show ?thesis by (auto simp: go_bind_def)
  next
    case False
    then have "n - length bs < length cs" using n by simp
    from readsD(2) [OF f this] readsD(1) [OF m] False show ?thesis by (auto simp: go_bind_def)
  qed
qed

lemma reads_bind_last: "reads m bs a \<Longrightarrow> reads (f a) [] b \<Longrightarrow> reads (go_bind m f) bs b"
  using reads_bind [of m bs a f "[]" b] by simp

lemma reads_full: "length bs = n \<Longrightarrow> reads (read_full n) bs bs"
  by (auto simp: reads_def read_full_def)

section \<open>The contract of a fixed-width layout\<close>

text \<open>
  What a caller of \<open>binary.Write\<close> and \<open>binary.Read\<close> on the same struct relies on: a constant width,
  a reader that undoes the writer and leaves the rest of the stream alone, and the two error cases of
  a truncated stream.
\<close>

locale fixed_codec =
  fixes width :: nat
    and enc :: "'a \<Rightarrow> bytes"
    and dec :: "(bytes, 'a) go"
  assumes enc_width: "length (enc a) = width"
    and dec_enc: "dec (enc a @ rest) = (Inr a, rest)"
    and dec_short: "length rd < width \<Longrightarrow>
      dec rd = (Inl (if rd = [] then EOF else UnexpectedEOF), [])"
    and dec_total: "width \<le> length rd \<Longrightarrow> \<exists>a. dec rd = (Inr a, drop width rd)"
    and dec_onto: "dec rd = (Inr a, rd') \<Longrightarrow> rd = enc a @ rd'"
begin

lemma reads_dec: "reads dec (enc a) a"
  unfolding reads_def using dec_enc dec_short enc_width by auto

lemma enc_inj: "enc a = enc b \<Longrightarrow> a = b"
  using dec_enc [of a "[]"] dec_enc [of b "[]"] by simp

lemma dec_consumes: "dec rd = (Inr a, rd') \<Longrightarrow> length rd = width + length rd'"
  using dec_onto enc_width by (metis length_append)

text \<open>A sequence of records is read back record by record.\<close>

fun dec_many :: "nat \<Rightarrow> (bytes, 'a list) go" where
  "dec_many 0 = go_return []"
| "dec_many (Suc n) = go_bind dec (\<lambda>a. go_bind (dec_many n) (\<lambda>as. go_return (a # as)))"

lemma dec_many_enc: "dec_many (length as) (concat (map enc as) @ rest) = (Inr as, rest)"
  by (induction as) (simp_all add: go_bind_def dec_enc)

end

end
