(* ===== verification/Go_Strings.thy ===== *)
theory Go_Strings
  imports Go_Prelude
begin

text \<open>
  What the program uses of the packages \<open>strings\<close> and \<open>strconv\<close> besides the path functions: case
  mapping (on ASCII; the program maps only ASCII names), containment, and decimal numbers with their
  round trip.
\<close>

section \<open>Case mapping\<close>

definition upper_to_lower :: "char \<Rightarrow> char" where
  "upper_to_lower c = (if CHR ''A'' \<le> c \<and> c \<le> CHR ''Z'' then char_of (of_char c + 32 :: nat) else c)"

definition lower_to_upper :: "char \<Rightarrow> char" where
  "lower_to_upper c = (if CHR ''a'' \<le> c \<and> c \<le> CHR ''z'' then char_of (of_char c - 32 :: nat) else c)"

definition ToLower :: "string \<Rightarrow> string" where
  "ToLower s = map upper_to_lower s"

definition ToUpper :: "string \<Rightarrow> string" where
  "ToUpper s = map lower_to_upper s"

section \<open>Containment\<close>

fun Contains :: "string \<Rightarrow> string \<Rightarrow> bool" where
  "Contains [] sub = (sub = [])"
| "Contains (c # s) sub = (take (length sub) (c # s) = sub \<or> Contains s sub)"

lemma Contains_iff: "Contains s sub \<longleftrightarrow> (\<exists>a b. s = a @ sub @ b)"
proof (induction s)
  case Nil
  then show ?case by auto
next
  case (Cons c s)
  show ?case
  proof
    assume "Contains (c # s) sub"
    then consider "take (length sub) (c # s) = sub" | "Contains s sub" by auto
    then show "\<exists>a b. c # s = a @ sub @ b"
    proof cases
      case 1
      then have "c # s = [] @ sub @ drop (length sub) (c # s)" by (metis append_Nil append_take_drop_id)
      then show ?thesis by blast
    next
      case 2
      with Cons.IH show ?thesis by (metis append_Cons)
    qed
  next
    assume "\<exists>a b. c # s = a @ sub @ b"
    then obtain a b where ab: "c # s = a @ sub @ b" by blast
    show "Contains (c # s) sub"
    proof (cases a)
      case Nil
      with ab have "take (length sub) (c # s) = sub" by simp
      then show ?thesis by simp
    qed (use ab Cons.IH in auto)
  qed
qed

section \<open>Splitting at a separator string\<close>

text \<open>\<open>strings.Split\<close> with a separator that is not empty, and \<open>strings.TrimPrefix\<close>.\<close>

function split_aux :: "string \<Rightarrow> string \<Rightarrow> string \<Rightarrow> string list" where
  "split_aux sep acc [] = [acc]"
| "split_aux sep acc (c # s) =
     (if sep \<noteq> [] \<and> take (length sep) (c # s) = sep
      then acc # split_aux sep [] (drop (length sep) (c # s))
      else split_aux sep (acc @ [c]) s)"
  by pat_completeness auto
termination
  by (relation "measure (\<lambda>(sep, acc, s). length s)") auto

definition Split :: "string \<Rightarrow> string \<Rightarrow> string list" where
  "Split s sep = split_aux sep [] s"

definition TrimPrefix :: "string \<Rightarrow> string \<Rightarrow> string" where
  "TrimPrefix s p = (if take (length p) s = p then drop (length p) s else s)"

text \<open>\<open>strings.TrimSpace\<close> on ASCII text.\<close>

definition is_space :: "char \<Rightarrow> bool" where
  "is_space c \<longleftrightarrow> c \<in> {CHR '' '', CHR 0x09, CHR 0x0A, CHR 0x0B, CHR 0x0C, CHR 0x0D}"

definition TrimSpace :: "string \<Rightarrow> string" where
  "TrimSpace s = rev (dropWhile is_space (rev (dropWhile is_space s)))"

section \<open>Truth values\<close>

definition ParseBool :: "string \<Rightarrow> bool result" where
  "ParseBool s =
     (if s \<in> {''1'', ''t'', ''T'', ''true'', ''TRUE'', ''True''} then Inr True
      else if s \<in> {''0'', ''f'', ''F'', ''false'', ''FALSE'', ''False''} then Inr False
      else Inl (Failure ''invalid syntax''))"

section \<open>Decimal numbers\<close>

definition digit_char :: "nat \<Rightarrow> char" where
  "digit_char d = char_of (48 + d)"

definition is_digit :: "char \<Rightarrow> bool" where
  "is_digit c \<longleftrightarrow> 48 \<le> (of_char c :: nat) \<and> (of_char c :: nat) \<le> 57"

definition digit_value :: "char \<Rightarrow> nat" where
  "digit_value c = of_char c - 48"

fun format_nat :: "nat \<Rightarrow> string" where
  "format_nat n = (if n < 10 then [digit_char n] else format_nat (n div 10) @ [digit_char (n mod 10)])"

declare format_nat.simps [simp del]

text \<open>The verb \<open>%d\<close> and \<open>strconv.FormatInt\<close> in base ten.\<close>

definition format_int :: "int \<Rightarrow> string" where
  "format_int i = (if i < 0 then CHR ''-'' # format_nat (nat (- i)) else format_nat (nat i))"

definition digits_value :: "string \<Rightarrow> nat" where
  "digits_value s = foldl (\<lambda>n c. 10 * n + digit_value c) 0 s"

text \<open>\<open>strconv.ParseInt(s, 10, bits)\<close>: an optional sign, at least one digit, and the range check.\<close>

definition ParseInt :: "nat \<Rightarrow> string \<Rightarrow> int result" where
  "ParseInt bits s =
     (let (neg, ds) = (case s of [] \<Rightarrow> (False, []) | c # cs \<Rightarrow>
            if c = CHR ''-'' then (True, cs) else if c = CHR ''+'' then (False, cs) else (False, s))
      in if ds = [] \<or> \<not> list_all is_digit ds then Inl (Failure ''invalid syntax'')
         else let v = (if neg then - int (digits_value ds) else int (digits_value ds))
              in if v < - (2 ^ (bits - 1)) \<or> 2 ^ (bits - 1) \<le> v then Inl (Failure ''value out of range'')
                 else Inr v)"

text \<open>
  The value of \<open>strconv.ParseUint(s, 10, 64)\<close> when the error is dropped: 0 for a bad string, the largest
  number for one that is out of range.
\<close>

definition ParseUint64_value :: "string \<Rightarrow> u64" where
  "ParseUint64_value s =
     (if s = [] \<or> \<not> list_all is_digit s then 0
      else if 2 ^ 64 \<le> digits_value s then - 1
      else of_nat (digits_value s))"

lemma of_digit_char: "d < 10 \<Longrightarrow> of_char (digit_char d) = 48 + d"
  by (simp add: digit_char_def)

lemma digit_char_props [simp]:
  assumes "d < 10"
  shows "is_digit (digit_char d)" and "digit_value (digit_char d) = d"
  using of_digit_char [OF assms] assms by (simp_all add: is_digit_def digit_value_def)

lemma format_nat_digits: "list_all is_digit (format_nat n) \<and> format_nat n \<noteq> []"
proof (induction n rule: format_nat.induct)
  case (1 n)
  then show ?case by (subst (1 2) format_nat.simps) (auto simp: list_all_iff)
qed

lemma digits_value_snoc: "digits_value (s @ [c]) = 10 * digits_value s + digit_value c"
  by (simp add: digits_value_def)

lemma digits_value_format_nat: "digits_value (format_nat n) = n"
proof (induction n rule: format_nat.induct)
  case (1 n)
  show ?case
  proof (cases "n < 10")
    case True
    then show ?thesis by (subst format_nat.simps) (simp add: digits_value_def)
  next
    case False
    then show ?thesis using 1 by (subst format_nat.simps) (simp add: digits_value_snoc)
  qed
qed

lemma sign_not_digit: "\<not> is_digit (CHR ''-'')" "\<not> is_digit (CHR ''+'')"
  by (simp_all add: is_digit_def)

lemma ParseInt_format_int:
  assumes "- (2 ^ (bits - 1)) \<le> i" and "i < 2 ^ (bits - 1)"
  shows "ParseInt bits (format_int i) = Inr i"
proof (cases "i < 0")
  case True
  then show ?thesis
    using assms format_nat_digits [of "nat (- i)"]
    by (simp add: ParseInt_def format_int_def digits_value_format_nat)
next
  case False
  obtain c cs where s: "format_nat (nat i) = c # cs" using format_nat_digits by (metis list.exhaust)
  then have "is_digit c" using format_nat_digits [of "nat i"] by simp
  then have "c \<noteq> CHR ''-''" "c \<noteq> CHR ''+''" using sign_not_digit by metis+
  then show ?thesis
    using False s assms format_nat_digits [of "nat i"] digits_value_format_nat [of "nat i"]
    by (simp add: ParseInt_def format_int_def)
qed

lemma format_nat_inj: "format_nat m = format_nat n \<longleftrightarrow> m = n"
  using digits_value_format_nat by metis

text \<open>No digit string has a separator in it.\<close>

lemma format_int_chars: "c \<in> set (format_int i) \<Longrightarrow> is_digit c \<or> c = CHR ''-''"
  using format_nat_digits [of "nat i"] format_nat_digits [of "nat (- i)"]
  by (auto simp: format_int_def list_all_iff split: if_splits)

lemma format_int_inj: "format_int i = format_int j \<longleftrightarrow> i = j"
proof
  assume eq: "format_int i = format_int j"
  have "ParseInt (nat (\<bar>i\<bar> + \<bar>j\<bar>) + 2) (format_int k) = Inr k" if "\<bar>k\<bar> \<le> \<bar>i\<bar> + \<bar>j\<bar>" for k
  proof (rule ParseInt_format_int)
    let ?b = "nat (\<bar>i\<bar> + \<bar>j\<bar>)"
    have "int (Suc ?b) < 2 ^ Suc ?b" using less_exp [of "Suc ?b"] by (metis of_nat_less_numeral_power_cancel_iff)
    then have "\<bar>k\<bar> < 2 ^ (?b + 1)" using that by simp
    then show "- (2 ^ (?b + 2 - 1)) \<le> k" "k < 2 ^ (?b + 2 - 1)" by simp_all
  qed
  from this [of i] this [of j] eq show "i = j" by simp
qed simp

end
