(* ===== verification/Primary_Key.thy ===== *)
theory Primary_Key
  imports Go_Prelude
begin

text \<open>
  Primary keys (\<^verbatim>\<open>storage/common/primary_key.go\<close>): the interface \<open>PrimaryKey\<close> with its two
  implementations, their comparison methods, construction from raw data, and the conversions from and
  to \<open>schemapb.IDs\<close> and \<open>schemapb.FieldData\<close>. The locale \<open>pk_order\<close> states what the users of one
  key type rely on (a total order); it is interpreted on both implementations. The JSON methods of
  the keys are not modelled here.
\<close>

section \<open>Data\<close>

text \<open>The values of \<open>schemapb.DataType\<close> that the code names (an \<open>int32\<close> enumeration).\<close>

type_synonym DataType = i32

abbreviation DataType_None :: DataType where "DataType_None \<equiv> 0"
abbreviation DataType_Bool :: DataType where "DataType_Bool \<equiv> 1"
abbreviation DataType_Int8 :: DataType where "DataType_Int8 \<equiv> 2"
abbreviation DataType_Int16 :: DataType where "DataType_Int16 \<equiv> 3"
abbreviation DataType_Int32 :: DataType where "DataType_Int32 \<equiv> 4"
abbreviation DataType_Int64 :: DataType where "DataType_Int64 \<equiv> 5"
abbreviation DataType_Float :: DataType where "DataType_Float \<equiv> 10"
abbreviation DataType_Double :: DataType where "DataType_Double \<equiv> 11"
abbreviation DataType_String :: DataType where "DataType_String \<equiv> 20"
abbreviation DataType_VarChar :: DataType where "DataType_VarChar \<equiv> 21"
abbreviation DataType_Array :: DataType where "DataType_Array \<equiv> 22"
abbreviation DataType_JSON :: DataType where "DataType_JSON \<equiv> 23"
abbreviation DataType_BinaryVector :: DataType where "DataType_BinaryVector \<equiv> 100"
abbreviation DataType_FloatVector :: DataType where "DataType_FloatVector \<equiv> 101"
abbreviation DataType_Float16Vector :: DataType where "DataType_Float16Vector \<equiv> 102"
abbreviation DataType_BFloat16Vector :: DataType where "DataType_BFloat16Vector \<equiv> 103"
abbreviation DataType_SparseFloatVector :: DataType where "DataType_SparseFloatVector \<equiv> 104"

record Int64PrimaryKey =
  int64_Value :: i64

record BaseStringPrimaryKey =
  string_Value :: string

text \<open>\<open>VarCharPrimaryKey\<close> embeds \<open>BaseStringPrimaryKey\<close> and adds no field.\<close>

type_synonym VarCharPrimaryKey = BaseStringPrimaryKey

text \<open>A value of interface type \<open>PrimaryKey\<close> holds one of the two implementations.\<close>

datatype PrimaryKey = PK_Int64 Int64PrimaryKey | PK_VarChar VarCharPrimaryKey

definition NewInt64PrimaryKey :: "i64 \<Rightarrow> Int64PrimaryKey" where
  "NewInt64PrimaryKey v = \<lparr>int64_Value = v\<rparr>"

definition NewVarCharPrimaryKey :: "string \<Rightarrow> VarCharPrimaryKey" where
  "NewVarCharPrimaryKey v = \<lparr>string_Value = v\<rparr>"

section \<open>Comparisons\<close>

subsection \<open>Int64PrimaryKey\<close>

fun Int64PrimaryKey_GT :: "Int64PrimaryKey \<Rightarrow> PrimaryKey \<Rightarrow> bool" where
  "Int64PrimaryKey_GT ip (PK_Int64 pk) = (int64_Value pk <s int64_Value ip)"
| "Int64PrimaryKey_GT ip (PK_VarChar _) = False"

fun Int64PrimaryKey_GE :: "Int64PrimaryKey \<Rightarrow> PrimaryKey \<Rightarrow> bool" where
  "Int64PrimaryKey_GE ip (PK_Int64 pk) = (int64_Value pk \<le>s int64_Value ip)"
| "Int64PrimaryKey_GE ip (PK_VarChar _) = False"

fun Int64PrimaryKey_LT :: "Int64PrimaryKey \<Rightarrow> PrimaryKey \<Rightarrow> bool" where
  "Int64PrimaryKey_LT ip (PK_Int64 pk) = (int64_Value ip <s int64_Value pk)"
| "Int64PrimaryKey_LT ip (PK_VarChar _) = False"

fun Int64PrimaryKey_LE :: "Int64PrimaryKey \<Rightarrow> PrimaryKey \<Rightarrow> bool" where
  "Int64PrimaryKey_LE ip (PK_Int64 pk) = (int64_Value ip \<le>s int64_Value pk)"
| "Int64PrimaryKey_LE ip (PK_VarChar _) = False"

fun Int64PrimaryKey_EQ :: "Int64PrimaryKey \<Rightarrow> PrimaryKey \<Rightarrow> bool" where
  "Int64PrimaryKey_EQ ip (PK_Int64 pk) = (int64_Value ip = int64_Value pk)"
| "Int64PrimaryKey_EQ ip (PK_VarChar _) = False"

text \<open>\<open>SetValue\<close> accepts an \<open>int64\<close> and leaves the key as it was otherwise.\<close>

definition Int64PrimaryKey_SetValue :: "go_any \<Rightarrow> (Int64PrimaryKey, unit) go" where
  "Int64PrimaryKey_SetValue data ip =
     (case data of
        Any_int64 v \<Rightarrow> (Inr (), ip\<lparr>int64_Value := v\<rparr>)
      | _ \<Rightarrow> (Inl (Failure ''wrong type value when setValue for Int64PrimaryKey''), ip))"

definition Int64PrimaryKey_Type :: "Int64PrimaryKey \<Rightarrow> DataType" where
  "Int64PrimaryKey_Type ip = DataType_Int64"

definition Int64PrimaryKey_GetValue :: "Int64PrimaryKey \<Rightarrow> go_any" where
  "Int64PrimaryKey_GetValue ip = Any_int64 (int64_Value ip)"

definition Int64PrimaryKey_Size :: "Int64PrimaryKey \<Rightarrow> i64" where
  "Int64PrimaryKey_Size ip = 16"

subsection \<open>BaseStringPrimaryKey\<close>

text \<open>\<open>strings.Compare\<close>: \<open>-1\<close>, \<open>0\<close> or \<open>1\<close> by lexicographic order of the bytes.\<close>

definition strings_Compare :: "string \<Rightarrow> string \<Rightarrow> int" where
  "strings_Compare a b = (if a = b then 0 else if a < b then -1 else 1)"

definition BaseStringPrimaryKey_GT :: "BaseStringPrimaryKey \<Rightarrow> BaseStringPrimaryKey \<Rightarrow> bool" where
  "BaseStringPrimaryKey_GT sp key = (strings_Compare (string_Value sp) (string_Value key) > 0)"

definition BaseStringPrimaryKey_GE :: "BaseStringPrimaryKey \<Rightarrow> BaseStringPrimaryKey \<Rightarrow> bool" where
  "BaseStringPrimaryKey_GE sp key = (strings_Compare (string_Value sp) (string_Value key) \<ge> 0)"

definition BaseStringPrimaryKey_LT :: "BaseStringPrimaryKey \<Rightarrow> BaseStringPrimaryKey \<Rightarrow> bool" where
  "BaseStringPrimaryKey_LT sp key = (strings_Compare (string_Value sp) (string_Value key) < 0)"

definition BaseStringPrimaryKey_LE :: "BaseStringPrimaryKey \<Rightarrow> BaseStringPrimaryKey \<Rightarrow> bool" where
  "BaseStringPrimaryKey_LE sp key = (strings_Compare (string_Value sp) (string_Value key) \<le> 0)"

definition BaseStringPrimaryKey_EQ :: "BaseStringPrimaryKey \<Rightarrow> BaseStringPrimaryKey \<Rightarrow> bool" where
  "BaseStringPrimaryKey_EQ sp key = (strings_Compare (string_Value sp) (string_Value key) = 0)"

definition BaseStringPrimaryKey_SetValue :: "go_any \<Rightarrow> (BaseStringPrimaryKey, unit) go" where
  "BaseStringPrimaryKey_SetValue data sp =
     (case data of
        Any_string v \<Rightarrow> (Inr (), sp\<lparr>string_Value := v\<rparr>)
      | _ \<Rightarrow> (Inl (Failure ''wrong type value when setValue for StringPrimaryKey''), sp))"

definition BaseStringPrimaryKey_GetValue :: "BaseStringPrimaryKey \<Rightarrow> go_any" where
  "BaseStringPrimaryKey_GetValue sp = Any_string (string_Value sp)"

subsection \<open>VarCharPrimaryKey\<close>

fun VarCharPrimaryKey_GT :: "VarCharPrimaryKey \<Rightarrow> PrimaryKey \<Rightarrow> bool" where
  "VarCharPrimaryKey_GT vcp (PK_VarChar pk) = BaseStringPrimaryKey_GT vcp pk"
| "VarCharPrimaryKey_GT vcp (PK_Int64 _) = False"

fun VarCharPrimaryKey_GE :: "VarCharPrimaryKey \<Rightarrow> PrimaryKey \<Rightarrow> bool" where
  "VarCharPrimaryKey_GE vcp (PK_VarChar pk) = BaseStringPrimaryKey_GE vcp pk"
| "VarCharPrimaryKey_GE vcp (PK_Int64 _) = False"

fun VarCharPrimaryKey_LT :: "VarCharPrimaryKey \<Rightarrow> PrimaryKey \<Rightarrow> bool" where
  "VarCharPrimaryKey_LT vcp (PK_VarChar pk) = BaseStringPrimaryKey_LT vcp pk"
| "VarCharPrimaryKey_LT vcp (PK_Int64 _) = False"

fun VarCharPrimaryKey_LE :: "VarCharPrimaryKey \<Rightarrow> PrimaryKey \<Rightarrow> bool" where
  "VarCharPrimaryKey_LE vcp (PK_VarChar pk) = BaseStringPrimaryKey_LE vcp pk"
| "VarCharPrimaryKey_LE vcp (PK_Int64 _) = False"

fun VarCharPrimaryKey_EQ :: "VarCharPrimaryKey \<Rightarrow> PrimaryKey \<Rightarrow> bool" where
  "VarCharPrimaryKey_EQ vcp (PK_VarChar pk) = BaseStringPrimaryKey_EQ vcp pk"
| "VarCharPrimaryKey_EQ vcp (PK_Int64 _) = False"

definition VarCharPrimaryKey_Type :: "VarCharPrimaryKey \<Rightarrow> DataType" where
  "VarCharPrimaryKey_Type vcp = DataType_VarChar"

definition VarCharPrimaryKey_Size :: "VarCharPrimaryKey \<Rightarrow> i64" where
  "VarCharPrimaryKey_Size vcp = of_nat (8 * length (string_Value vcp) + 8)"

subsection \<open>Method calls on the interface\<close>

fun PrimaryKey_GT :: "PrimaryKey \<Rightarrow> PrimaryKey \<Rightarrow> bool" where
  "PrimaryKey_GT (PK_Int64 ip) key = Int64PrimaryKey_GT ip key"
| "PrimaryKey_GT (PK_VarChar vcp) key = VarCharPrimaryKey_GT vcp key"

fun PrimaryKey_GE :: "PrimaryKey \<Rightarrow> PrimaryKey \<Rightarrow> bool" where
  "PrimaryKey_GE (PK_Int64 ip) key = Int64PrimaryKey_GE ip key"
| "PrimaryKey_GE (PK_VarChar vcp) key = VarCharPrimaryKey_GE vcp key"

fun PrimaryKey_LT :: "PrimaryKey \<Rightarrow> PrimaryKey \<Rightarrow> bool" where
  "PrimaryKey_LT (PK_Int64 ip) key = Int64PrimaryKey_LT ip key"
| "PrimaryKey_LT (PK_VarChar vcp) key = VarCharPrimaryKey_LT vcp key"

fun PrimaryKey_LE :: "PrimaryKey \<Rightarrow> PrimaryKey \<Rightarrow> bool" where
  "PrimaryKey_LE (PK_Int64 ip) key = Int64PrimaryKey_LE ip key"
| "PrimaryKey_LE (PK_VarChar vcp) key = VarCharPrimaryKey_LE vcp key"

fun PrimaryKey_EQ :: "PrimaryKey \<Rightarrow> PrimaryKey \<Rightarrow> bool" where
  "PrimaryKey_EQ (PK_Int64 ip) key = Int64PrimaryKey_EQ ip key"
| "PrimaryKey_EQ (PK_VarChar vcp) key = VarCharPrimaryKey_EQ vcp key"

fun PrimaryKey_Type :: "PrimaryKey \<Rightarrow> DataType" where
  "PrimaryKey_Type (PK_Int64 ip) = Int64PrimaryKey_Type ip"
| "PrimaryKey_Type (PK_VarChar vcp) = VarCharPrimaryKey_Type vcp"

fun PrimaryKey_GetValue :: "PrimaryKey \<Rightarrow> go_any" where
  "PrimaryKey_GetValue (PK_Int64 ip) = Int64PrimaryKey_GetValue ip"
| "PrimaryKey_GetValue (PK_VarChar vcp) = BaseStringPrimaryKey_GetValue vcp"

fun PrimaryKey_SetValue :: "go_any \<Rightarrow> (PrimaryKey, unit) go" where
  "PrimaryKey_SetValue data (PK_Int64 ip) = map_prod id PK_Int64 (Int64PrimaryKey_SetValue data ip)"
| "PrimaryKey_SetValue data (PK_VarChar vcp) =
     map_prod id PK_VarChar (BaseStringPrimaryKey_SetValue data vcp)"

section \<open>Construction and conversion\<close>

text \<open>\<open>data.(int64)\<close> without the comma-ok form panics on another dynamic type.\<close>

definition GenPrimaryKeyByRawData :: "go_any \<Rightarrow> DataType \<Rightarrow> PrimaryKey result" where
  "GenPrimaryKeyByRawData data pkType =
     (if pkType = DataType_Int64 then
        (case data of
           Any_int64 v \<Rightarrow> Inr (PK_Int64 \<lparr>int64_Value = v\<rparr>)
         | _ \<Rightarrow> Inl (Panic ''interface conversion''))
      else if pkType = DataType_VarChar then
        (case data of
           Any_string v \<Rightarrow> Inr (PK_VarChar \<lparr>string_Value = v\<rparr>)
         | _ \<Rightarrow> Inl (Panic ''interface conversion''))
      else Inl (Failure ''not supported primary data type''))"

fun GenInt64PrimaryKeys :: "i64 list \<Rightarrow> PrimaryKey list result" where
  "GenInt64PrimaryKeys [] = Inr []"
| "GenInt64PrimaryKeys (d # data) =
     res_bind (GenPrimaryKeyByRawData (Any_int64 d) DataType_Int64)
       (\<lambda>pk. res_bind (GenInt64PrimaryKeys data) (\<lambda>pks. Inr (pk # pks)))"

fun GenVarcharPrimaryKeys :: "string list \<Rightarrow> PrimaryKey list result" where
  "GenVarcharPrimaryKeys [] = Inr []"
| "GenVarcharPrimaryKeys (d # data) =
     res_bind (GenPrimaryKeyByRawData (Any_string d) DataType_VarChar)
       (\<lambda>pk. res_bind (GenVarcharPrimaryKeys data) (\<lambda>pks. Inr (pk # pks)))"

text \<open>
  The protobuf messages the conversions read: the one-of fields \<open>IDs.IdField\<close> and
  \<open>ScalarField.Data\<close>. A getter of a one-of alternative that is not set returns nil, whose data is
  empty.
\<close>

datatype IDs = IDs_unset | IDs_IntId "i64 list" | IDs_StrId "string list"

text \<open>\<open>msgpb.MsgPosition\<close>: a place in the log of a channel.\<close>

record MsgPosition =
  pos_ChannelName :: string
  pos_MsgID :: bytes
  pos_Timestamp :: u64

datatype ScalarField = Scalar_other | Scalar_LongData "i64 list" | Scalar_StringData "string list"

record FieldData =
  FieldData_Type :: DataType
  FieldData_Scalars :: "ScalarField option"

fun GetLongData :: "ScalarField \<Rightarrow> i64 list" where
  "GetLongData (Scalar_LongData xs) = xs"
| "GetLongData _ = []"

fun GetStringData :: "ScalarField \<Rightarrow> string list" where
  "GetStringData (Scalar_StringData xs) = xs"
| "GetStringData _ = []"

text \<open>
  \<open>ParseFieldData2PrimaryKeys\<close> returns the keys parsed so far beside the error; that slice is empty
  on every error path, so the model returns the error only.
\<close>

definition ParseFieldData2PrimaryKeys :: "FieldData option \<Rightarrow> PrimaryKey list result" where
  "ParseFieldData2PrimaryKeys data =
     (case data of
        None \<Rightarrow> Inl (Failure ''failed to parse pks from nil field data'')
      | Some fd \<Rightarrow>
          (case FieldData_Scalars fd of
             None \<Rightarrow> Inl (Failure ''failed to parse pks from nil scalar data'')
           | Some scalarData \<Rightarrow>
               if FieldData_Type fd = DataType_Int64 then
                 Inr (map (\<lambda>v. PK_Int64 (NewInt64PrimaryKey v)) (GetLongData scalarData))
               else if FieldData_Type fd = DataType_VarChar then
                 Inr (map (\<lambda>v. PK_VarChar (NewVarCharPrimaryKey v)) (GetStringData scalarData))
               else Inl (Failure ''not supported primary data type'')))"

fun ParseIDs2PrimaryKeys :: "IDs \<Rightarrow> PrimaryKey list" where
  "ParseIDs2PrimaryKeys (IDs_IntId data) = map (\<lambda>v. PK_Int64 (NewInt64PrimaryKey v)) data"
| "ParseIDs2PrimaryKeys (IDs_StrId data) = map (\<lambda>v. PK_VarChar (NewVarCharPrimaryKey v)) data"
| "ParseIDs2PrimaryKeys IDs_unset = []"

text \<open>The type assertions of \<open>ParsePrimaryKeys2IDs\<close>, one per key.\<close>

fun assert_Int64 :: "PrimaryKey \<Rightarrow> i64 result" where
  "assert_Int64 (PK_Int64 ip) = Inr (int64_Value ip)"
| "assert_Int64 (PK_VarChar _) = Inl (Panic ''interface conversion'')"

fun assert_VarChar :: "PrimaryKey \<Rightarrow> string result" where
  "assert_VarChar (PK_VarChar vcp) = Inr (string_Value vcp)"
| "assert_VarChar (PK_Int64 _) = Inl (Panic ''interface conversion'')"

fun res_map :: "('a \<Rightarrow> 'b result) \<Rightarrow> 'a list \<Rightarrow> 'b list result" where
  "res_map f [] = Inr []"
| "res_map f (x # xs) = res_bind (f x) (\<lambda>y. res_bind (res_map f xs) (\<lambda>ys. Inr (y # ys)))"

fun ParsePrimaryKeys2IDs :: "PrimaryKey list \<Rightarrow> IDs result" where
  "ParsePrimaryKeys2IDs [] = Inr IDs_unset"
| "ParsePrimaryKeys2IDs (pk # pks) =
     (if PrimaryKey_Type pk = DataType_Int64 then
        res_bind (res_map assert_Int64 (pk # pks)) (\<lambda>xs. Inr (IDs_IntId xs))
      else if PrimaryKey_Type pk = DataType_VarChar then
        res_bind (res_map assert_VarChar (pk # pks)) (\<lambda>xs. Inr (IDs_StrId xs))
      else Inr IDs_unset)"

section \<open>The order of one key type\<close>

lemmas BaseString_defs =
  BaseStringPrimaryKey_GT_def BaseStringPrimaryKey_GE_def BaseStringPrimaryKey_LT_def
  BaseStringPrimaryKey_LE_def BaseStringPrimaryKey_EQ_def strings_Compare_def

lemmas pk_accessors =
  Int64PrimaryKey_Type_def VarCharPrimaryKey_Type_def Int64PrimaryKey_GetValue_def
  BaseStringPrimaryKey_GetValue_def Int64PrimaryKey_SetValue_def BaseStringPrimaryKey_SetValue_def

lemmas pk_calls =
  PrimaryKey_GT.simps PrimaryKey_GE.simps PrimaryKey_LT.simps PrimaryKey_LE.simps
  PrimaryKey_EQ.simps PrimaryKey_Type.simps Int64PrimaryKey_Type_def VarCharPrimaryKey_Type_def

text \<open>
  What a user of one key type relies on: the five methods agree with a total order of the keys.
\<close>

locale pk_order =
  fixes key :: "'k \<Rightarrow> PrimaryKey"
    and ge gt le lt eq :: "'k \<Rightarrow> PrimaryKey \<Rightarrow> bool"
  assumes gt_lt: "gt a (key b) \<longleftrightarrow> lt b (key a)"
    and ge_le: "ge a (key b) \<longleftrightarrow> le b (key a)"
    and le_iff: "le a (key b) \<longleftrightarrow> lt a (key b) \<or> eq a (key b)"
    and eq_iff: "eq a (key b) \<longleftrightarrow> a = b"
    and lt_irrefl: "\<not> lt a (key a)"
    and lt_trans: "lt a (key b) \<Longrightarrow> lt b (key c) \<Longrightarrow> lt a (key c)"
    and lt_total: "a \<noteq> b \<Longrightarrow> lt a (key b) \<or> lt b (key a)"
begin

lemma trichotomy:
  "(lt a (key b) \<and> \<not> eq a (key b) \<and> \<not> gt a (key b)) \<or>
   (\<not> lt a (key b) \<and> eq a (key b) \<and> \<not> gt a (key b)) \<or>
   (\<not> lt a (key b) \<and> \<not> eq a (key b) \<and> gt a (key b))"
  using gt_lt eq_iff lt_irrefl lt_trans lt_total by metis

lemma not_lt: "\<not> lt a (key b) \<longleftrightarrow> ge a (key b)"
  using ge_le le_iff eq_iff lt_irrefl lt_trans lt_total by metis

lemma not_gt: "\<not> gt a (key b) \<longleftrightarrow> le a (key b)"
  using gt_lt le_iff eq_iff lt_irrefl lt_trans lt_total by metis

lemma comparison:
  "(eq a (key b) \<longleftrightarrow> a = b) \<and> (le a (key b) \<longleftrightarrow> \<not> gt a (key b)) \<and>
   (ge a (key b) \<longleftrightarrow> \<not> lt a (key b)) \<and> (gt a (key b) \<longleftrightarrow> lt b (key a)) \<and>
   (le a (key b) \<longleftrightarrow> lt a (key b) \<or> eq a (key b)) \<and> \<not> (lt a (key b) \<and> gt a (key b))"
  using trichotomy [of a b] eq_iff not_gt not_lt gt_lt le_iff by blast

lemma le_trans: "le a (key b) \<Longrightarrow> le b (key c) \<Longrightarrow> le a (key c)"
  using le_iff eq_iff lt_trans by metis

lemma le_antisym: "le a (key b) \<Longrightarrow> le b (key a) \<Longrightarrow> a = b"
  using le_iff eq_iff lt_trans lt_irrefl by metis

end

interpretation int64_pk: pk_order PK_Int64 Int64PrimaryKey_GE Int64PrimaryKey_GT
    Int64PrimaryKey_LE Int64PrimaryKey_LT Int64PrimaryKey_EQ
proof (unfold_locales, goal_cases)
  case (6 a b c)
  then show ?case using signed.less_trans by auto
next
  case (7 a b)
  then have "int64_Value a \<noteq> int64_Value b" by auto
  then show ?case using signed.less_linear by auto
qed (auto simp: signed.le_less)

interpretation varchar_pk: pk_order PK_VarChar VarCharPrimaryKey_GE VarCharPrimaryKey_GT
    VarCharPrimaryKey_LE VarCharPrimaryKey_LT VarCharPrimaryKey_EQ
proof (unfold_locales, goal_cases)
  case (6 a b c)
  then show ?case by (auto simp: BaseString_defs split: if_splits)
next
  case (7 a b)
  then have "string_Value a \<noteq> string_Value b" by auto
  then show ?case by (auto simp: BaseString_defs)
qed (auto simp: BaseString_defs)

section \<open>Properties\<close>


definition same_type :: "PrimaryKey list \<Rightarrow> bool" where
  "same_type pks \<longleftrightarrow> list_all (\<lambda>pk. PrimaryKey_Type pk = PrimaryKey_Type (hd pks)) pks"

lemma res_map_assert_Int64:
  "res_map assert_Int64 pks =
     (if list_all (\<lambda>pk. PrimaryKey_Type pk = DataType_Int64) pks
      then Inr (map (\<lambda>pk. case pk of PK_Int64 ip \<Rightarrow> int64_Value ip) pks)
      else Inl (Panic ''interface conversion''))"
proof (induction pks)
  case (Cons pk pks)
  then show ?case by (cases pk) (simp_all add: pk_accessors)
qed simp

lemma res_map_assert_VarChar:
  "res_map assert_VarChar pks =
     (if list_all (\<lambda>pk. PrimaryKey_Type pk = DataType_VarChar) pks
      then Inr (map (\<lambda>pk. case pk of PK_VarChar vcp \<Rightarrow> string_Value vcp) pks)
      else Inl (Panic ''interface conversion''))"
proof (induction pks)
  case (Cons pk pks)
  then show ?case by (cases pk) (simp_all add: pk_accessors)
qed simp

lemma rebuild_Int64:
  "list_all (\<lambda>pk. PrimaryKey_Type pk = DataType_Int64) pks \<Longrightarrow>
   map ((\<lambda>v. PK_Int64 (NewInt64PrimaryKey v)) \<circ>
        (\<lambda>pk. case pk of PK_Int64 ip \<Rightarrow> int64_Value ip)) pks = pks"
proof (induction pks)
  case (Cons pk pks)
  then show ?case by (cases pk) (simp_all add: pk_accessors NewInt64PrimaryKey_def)
qed simp

lemma rebuild_VarChar:
  "list_all (\<lambda>pk. PrimaryKey_Type pk = DataType_VarChar) pks \<Longrightarrow>
   map ((\<lambda>v. PK_VarChar (NewVarCharPrimaryKey v)) \<circ>
        (\<lambda>pk. case pk of PK_VarChar vcp \<Rightarrow> string_Value vcp)) pks = pks"
proof (induction pks)
  case (Cons pk pks)
  then show ?case by (cases pk) (simp_all add: pk_accessors NewVarCharPrimaryKey_def)
qed simp

text \<open>
  Keys of one type survive the trip through \<open>schemapb.IDs\<close>:
  \<open>ParsePrimaryKeys2IDs\<close> succeeds and \<open>ParseIDs2PrimaryKeys\<close> gives the same keys back in the same
  order; a slice that mixes the two key types makes \<open>ParsePrimaryKeys2IDs\<close> panic.
\<close>

theorem PrimaryKeys_IDs_roundtrip:
  "if same_type pks
   then \<exists>ids. ParsePrimaryKeys2IDs pks = Inr ids \<and> ParseIDs2PrimaryKeys ids = pks
   else ParsePrimaryKeys2IDs pks = Inl (Panic ''interface conversion'')"
proof (cases pks)
  case Nil
  then show ?thesis by (simp add: same_type_def)
next
  case (Cons pk rest)
  then show ?thesis
  proof (cases pk)
    case (PK_Int64 ip)
    then show ?thesis
      using Cons rebuild_Int64 [of pks]
      by (simp add: same_type_def pk_accessors res_map_assert_Int64 del: res_map.simps)
  next
    case (PK_VarChar vcp)
    then show ?thesis
      using Cons rebuild_VarChar [of pks]
      by (simp add: same_type_def pk_accessors res_map_assert_VarChar del: res_map.simps)
  qed
qed

end
