(* ===== verification/Delta_Data.thy ===== *)
theory Delta_Data
  imports Primary_Key
begin

text \<open>
  Columns of primary keys (\<^verbatim>\<open>storage/common/primary_keys.go\<close>) and the delete log held in memory
  (\<^verbatim>\<open>storage/delta_data.go\<close>), a column of keys beside a column of timestamps. The locale
  \<open>pk_column\<close> is the interface \<open>PrimaryKeys\<close>: what \<open>Append\<close>, \<open>Get\<close>, \<open>Len\<close> and \<open>MustMerge\<close> do to
  the sequence of keys a column stands for. It is interpreted on the two columns; \<open>DeltaData\<close> rests
  on these facts.
\<close>

section \<open>Columns of primary keys\<close>

record Int64PrimaryKeys =
  int64_values :: "i64 list"

record VarcharPrimaryKeys =
  varchar_values :: "string list"
  varchar_size :: i64

datatype PrimaryKeys = PKs_Int64 Int64PrimaryKeys | PKs_Varchar VarcharPrimaryKeys

subsection \<open>Int64PrimaryKeys\<close>

text \<open>The capacity hint of the constructors has no effect on the contents.\<close>

definition NewInt64PrimaryKeys :: "nat \<Rightarrow> Int64PrimaryKeys" where
  "NewInt64PrimaryKeys cap = \<lparr>int64_values = []\<rparr>"

definition Int64PrimaryKeys_AppendRaw :: "i64 list \<Rightarrow> Int64PrimaryKeys \<Rightarrow> Int64PrimaryKeys" where
  "Int64PrimaryKeys_AppendRaw vs pks = pks\<lparr>int64_values := int64_values pks @ vs\<rparr>"

text \<open>The collecting loop of \<open>Append\<close>: it stops at the first key of another type.\<close>

fun collect_Int64 :: "PrimaryKey list \<Rightarrow> i64 list result" where
  "collect_Int64 [] = Inr []"
| "collect_Int64 (PK_Int64 ip # pks) =
     res_bind (collect_Int64 pks) (\<lambda>vs. Inr (int64_Value ip # vs))"
| "collect_Int64 (PK_VarChar _ # pks) = Inl (Failure ''pk type not match'')"

definition Int64PrimaryKeys_Append :: "PrimaryKey list \<Rightarrow> (Int64PrimaryKeys, unit) go" where
  "Int64PrimaryKeys_Append vs pks =
     (case collect_Int64 vs of
        Inl e \<Rightarrow> (Inl e, pks)
      | Inr iValues \<Rightarrow> (Inr (), Int64PrimaryKeys_AppendRaw iValues pks))"

text \<open>\<open>MustAppend\<close> turns the error of \<open>Append\<close> into a panic.\<close>

definition must :: "('s, unit) go \<Rightarrow> ('s, unit) go" where
  "must m s = (case m s of
     (Inl (Failure msg), s') \<Rightarrow> (Inl (Panic msg), s')
   | (r, s') \<Rightarrow> (r, s'))"

definition Int64PrimaryKeys_MustAppend :: "PrimaryKey list \<Rightarrow> (Int64PrimaryKeys, unit) go" where
  "Int64PrimaryKeys_MustAppend vs = must (Int64PrimaryKeys_Append vs)"

definition Int64PrimaryKeys_Get :: "Int64PrimaryKeys \<Rightarrow> int \<Rightarrow> PrimaryKey result" where
  "Int64PrimaryKeys_Get pks idx =
     res_bind (go_index (int64_values pks) idx) (\<lambda>v. Inr (PK_Int64 (NewInt64PrimaryKey v)))"

definition Int64PrimaryKeys_Type :: "Int64PrimaryKeys \<Rightarrow> DataType" where
  "Int64PrimaryKeys_Type pks = DataType_Int64"

definition Int64PrimaryKeys_Len :: "Int64PrimaryKeys \<Rightarrow> nat" where
  "Int64PrimaryKeys_Len pks = length (int64_values pks)"

definition Int64PrimaryKeys_Size :: "Int64PrimaryKeys \<Rightarrow> i64" where
  "Int64PrimaryKeys_Size pks = of_nat (Int64PrimaryKeys_Len pks) * 8"

fun Int64PrimaryKeys_MustMerge :: "PrimaryKeys \<Rightarrow> (Int64PrimaryKeys, unit) go" where
  "Int64PrimaryKeys_MustMerge (PKs_Int64 aPks) pks =
     (Inr (), pks\<lparr>int64_values := int64_values pks @ int64_values aPks\<rparr>)"
| "Int64PrimaryKeys_MustMerge (PKs_Varchar _) pks =
     (Inl (Panic ''cannot merge different kind of pks''), pks)"

subsection \<open>VarcharPrimaryKeys\<close>

definition NewVarcharPrimaryKeys :: "nat \<Rightarrow> VarcharPrimaryKeys" where
  "NewVarcharPrimaryKeys cap = \<lparr>varchar_values = [], varchar_size = 0\<rparr>"

definition VarcharPrimaryKeys_AppendRaw :: "string list \<Rightarrow> VarcharPrimaryKeys \<Rightarrow> VarcharPrimaryKeys"
  where
  "VarcharPrimaryKeys_AppendRaw vs pks =
     (let pks = pks\<lparr>varchar_values := varchar_values pks @ vs\<rparr>
      in fold (\<lambda>str pks. pks\<lparr>varchar_size := varchar_size pks + (of_nat (length str) + 16)\<rparr>) vs pks)"

fun collect_VarChar :: "PrimaryKey list \<Rightarrow> string list result" where
  "collect_VarChar [] = Inr []"
| "collect_VarChar (PK_VarChar vcp # pks) =
     res_bind (collect_VarChar pks) (\<lambda>vs. Inr (string_Value vcp # vs))"
| "collect_VarChar (PK_Int64 _ # pks) = Inl (Failure ''pk type not match'')"

definition VarcharPrimaryKeys_Append :: "PrimaryKey list \<Rightarrow> (VarcharPrimaryKeys, unit) go" where
  "VarcharPrimaryKeys_Append vs pks =
     (case collect_VarChar vs of
        Inl e \<Rightarrow> (Inl e, pks)
      | Inr sValues \<Rightarrow> (Inr (), VarcharPrimaryKeys_AppendRaw sValues pks))"

definition VarcharPrimaryKeys_MustAppend :: "PrimaryKey list \<Rightarrow> (VarcharPrimaryKeys, unit) go" where
  "VarcharPrimaryKeys_MustAppend vs = must (VarcharPrimaryKeys_Append vs)"

definition VarcharPrimaryKeys_Get :: "VarcharPrimaryKeys \<Rightarrow> int \<Rightarrow> PrimaryKey result" where
  "VarcharPrimaryKeys_Get pks idx =
     res_bind (go_index (varchar_values pks) idx) (\<lambda>v. Inr (PK_VarChar (NewVarCharPrimaryKey v)))"

definition VarcharPrimaryKeys_Type :: "VarcharPrimaryKeys \<Rightarrow> DataType" where
  "VarcharPrimaryKeys_Type pks = DataType_VarChar"

definition VarcharPrimaryKeys_Len :: "VarcharPrimaryKeys \<Rightarrow> nat" where
  "VarcharPrimaryKeys_Len pks = length (varchar_values pks)"

definition VarcharPrimaryKeys_Size :: "VarcharPrimaryKeys \<Rightarrow> i64" where
  "VarcharPrimaryKeys_Size pks = varchar_size pks"

fun VarcharPrimaryKeys_MustMerge :: "PrimaryKeys \<Rightarrow> (VarcharPrimaryKeys, unit) go" where
  "VarcharPrimaryKeys_MustMerge (PKs_Varchar aPks) pks =
     (Inr (), pks\<lparr>varchar_values := varchar_values pks @ varchar_values aPks,
                  varchar_size := varchar_size pks + varchar_size aPks\<rparr>)"
| "VarcharPrimaryKeys_MustMerge (PKs_Int64 _) pks =
     (Inl (Panic ''cannot merge different kind of pks''), pks)"

subsection \<open>Method calls on the interface\<close>

fun PrimaryKeys_MustAppend :: "PrimaryKey list \<Rightarrow> (PrimaryKeys, unit) go" where
  "PrimaryKeys_MustAppend vs (PKs_Int64 c) = map_prod id PKs_Int64 (Int64PrimaryKeys_MustAppend vs c)"
| "PrimaryKeys_MustAppend vs (PKs_Varchar c) =
     map_prod id PKs_Varchar (VarcharPrimaryKeys_MustAppend vs c)"

fun PrimaryKeys_Get :: "PrimaryKeys \<Rightarrow> int \<Rightarrow> PrimaryKey result" where
  "PrimaryKeys_Get (PKs_Int64 c) idx = Int64PrimaryKeys_Get c idx"
| "PrimaryKeys_Get (PKs_Varchar c) idx = VarcharPrimaryKeys_Get c idx"

fun PrimaryKeys_MustMerge :: "PrimaryKeys \<Rightarrow> (PrimaryKeys, unit) go" where
  "PrimaryKeys_MustMerge another (PKs_Int64 c) =
     map_prod id PKs_Int64 (Int64PrimaryKeys_MustMerge another c)"
| "PrimaryKeys_MustMerge another (PKs_Varchar c) =
     map_prod id PKs_Varchar (VarcharPrimaryKeys_MustMerge another c)"

section \<open>DeltaData\<close>

text \<open>
  The interface value \<open>pks\<close> is nil for a data type that \<open>NewDeltaData\<close> does not support; a method
  call on it panics. The field \<open>memSize\<close> of the struct is never read or written.
\<close>

record DeltaData =
  dd_pks :: "PrimaryKeys option"
  dd_tss :: "u64 list"
  dd_dataType :: DataType
  dd_delRowCount :: i64

definition NewDeltaData :: "DataType \<Rightarrow> nat \<Rightarrow> DeltaData" where
  "NewDeltaData dataType cap =
     \<lparr>dd_pks =
        (if dataType = DataType_Int64 then Some (PKs_Int64 (NewInt64PrimaryKeys cap))
         else if dataType = DataType_VarChar then Some (PKs_Varchar (NewVarcharPrimaryKeys cap))
         else None),
      dd_tss = [], dd_dataType = dataType, dd_delRowCount = 0\<rparr>"

definition DeltaData_Append :: "PrimaryKey \<Rightarrow> u64 \<Rightarrow> (DeltaData, unit) go" where
  "DeltaData_Append pk ts dd =
     (case dd_pks dd of
        None \<Rightarrow> (Inl (Panic ''nil pointer dereference''), dd)
      | Some pks \<Rightarrow>
          (case PrimaryKeys_MustAppend [pk] pks of
             (Inl e, pks') \<Rightarrow> (Inl e, dd\<lparr>dd_pks := Some pks'\<rparr>)
           | (Inr _, pks') \<Rightarrow>
               (Inr (), dd\<lparr>dd_pks := Some pks', dd_tss := dd_tss dd @ [ts],
                  dd_delRowCount := dd_delRowCount dd + 1\<rparr>)))"

text \<open>
  The loop of \<open>Range\<close> from index \<open>i\<close>, with \<open>n\<close> iterations left. The callback \<open>f\<close> works on a state
  of its own and answers whether to go on.
\<close>

fun Range_loop :: "(PrimaryKey \<Rightarrow> u64 \<Rightarrow> 's \<Rightarrow> bool \<times> 's) \<Rightarrow> PrimaryKeys option \<Rightarrow> u64 list \<Rightarrow>
    nat \<Rightarrow> int \<Rightarrow> 's \<Rightarrow> 's result" where
  "Range_loop f pks tss 0 i s = Inr s"
| "Range_loop f pks tss (Suc n) i s =
     (case pks of
        None \<Rightarrow> Inl (Panic ''nil pointer dereference'')
      | Some c \<Rightarrow>
          res_bind (PrimaryKeys_Get c i) (\<lambda>pk.
          res_bind (go_index tss i) (\<lambda>ts.
            (case f pk ts s of
               (False, s') \<Rightarrow> Inr s'
             | (True, s') \<Rightarrow> Range_loop f pks tss n (i + 1) s'))))"

definition DeltaData_Range :: "(PrimaryKey \<Rightarrow> u64 \<Rightarrow> 's \<Rightarrow> bool \<times> 's) \<Rightarrow> DeltaData \<Rightarrow> 's \<Rightarrow> 's result"
  where
  "DeltaData_Range f dd s = Range_loop f (dd_pks dd) (dd_tss dd) (nat (sint (dd_delRowCount dd))) 0 s"

text \<open>
  \<open>Merge\<close>. A nil \<open>add.pks\<close> fails the type assertion in \<open>MustMerge\<close>, a nil \<open>dd.pks\<close> panics at the
  call.
\<close>

definition DeltaData_Merge :: "DeltaData \<Rightarrow> (DeltaData, unit) go" where
  "DeltaData_Merge add dd =
     (if dd_dataType dd \<noteq> dd_dataType add then (Inl (Failure ''data type not match''), dd)
      else
        (case (dd_pks dd, dd_pks add) of
           (None, _) \<Rightarrow> (Inl (Panic ''nil pointer dereference''), dd)
         | (Some _, None) \<Rightarrow> (Inl (Panic ''cannot merge different kind of pks''), dd)
         | (Some c, Some a) \<Rightarrow>
             (case PrimaryKeys_MustMerge a c of
                (Inl e, c') \<Rightarrow> (Inl e, dd\<lparr>dd_pks := Some c'\<rparr>)
              | (Inr _, c') \<Rightarrow>
                  (Inr (), dd\<lparr>dd_pks := Some c', dd_tss := dd_tss dd @ dd_tss add,
                     dd_delRowCount := dd_delRowCount dd + dd_delRowCount add\<rparr>))))"

section \<open>The contract of a column\<close>

text \<open>
  A column stands for a sequence of keys of one type. \<open>append\<close> extends the sequence or, for a key of
  another type, reports an error and changes nothing; \<open>get\<close> reads it by index; \<open>merge\<close> concatenates.
\<close>

locale pk_column =
  fixes wrap :: "'c \<Rightarrow> PrimaryKeys"
    and kind :: DataType
    and contents :: "'c \<Rightarrow> PrimaryKey list"
    and append :: "PrimaryKey list \<Rightarrow> ('c, unit) go"
    and get :: "'c \<Rightarrow> int \<Rightarrow> PrimaryKey result"
    and len :: "'c \<Rightarrow> nat"
    and merge :: "PrimaryKeys \<Rightarrow> ('c, unit) go"
  assumes append_ok: "list_all (\<lambda>pk. PrimaryKey_Type pk = kind) vs \<Longrightarrow>
      \<exists>c'. append vs c = (Inr (), c') \<and> contents c' = contents c @ vs"
    and append_bad: "\<not> list_all (\<lambda>pk. PrimaryKey_Type pk = kind) vs \<Longrightarrow>
      append vs c = (Inl (Failure ''pk type not match''), c)"
    and get_eq: "get c i = go_index (contents c) i"
    and len_eq: "len c = length (contents c)"
    and merge_eq: "\<exists>c'. merge (wrap a) c = (Inr (), c') \<and> contents c' = contents c @ contents a"
    and contents_kind: "pk \<in> set (contents c) \<Longrightarrow> PrimaryKey_Type pk = kind"
begin

lemma must_append_cases:
  "(list_all (\<lambda>pk. PrimaryKey_Type pk = kind) vs \<and>
      (\<exists>c'. must (append vs) c = (Inr (), c') \<and> contents c' = contents c @ vs)) \<or>
   (\<not> list_all (\<lambda>pk. PrimaryKey_Type pk = kind) vs \<and>
      must (append vs) c = (Inl (Panic ''pk type not match''), c))"
proof (cases "list_all (\<lambda>pk. PrimaryKey_Type pk = kind) vs")
  case True
  then show ?thesis using append_ok [of vs c] by (auto simp: must_def)
next
  case False
  then show ?thesis using append_bad [of vs c] by (auto simp: must_def)
qed

lemma append_then_get:
  assumes "append [pk] c = (Inr (), c')"
  shows "get c' (int (len c)) = Inr pk \<and> len c' = Suc (len c)"
proof -
  have ok: "list_all (\<lambda>pk. PrimaryKey_Type pk = kind) [pk]"
    using append_bad [of "[pk]" c] assms by fastforce
  then have "contents c' = contents c @ [pk]"
    using append_ok [OF ok, of c] assms by auto
  then show ?thesis by (simp add: get_eq len_eq go_index_def)
qed

lemma get_bounds: "(\<exists>pk. get c i = Inr pk) \<longleftrightarrow> 0 \<le> i \<and> i < int (len c)"
  by (simp add: get_eq len_eq go_index_def)

end

definition Int64_contents :: "Int64PrimaryKeys \<Rightarrow> PrimaryKey list" where
  "Int64_contents c = map (\<lambda>v. PK_Int64 (NewInt64PrimaryKey v)) (int64_values c)"

definition Varchar_contents :: "VarcharPrimaryKeys \<Rightarrow> PrimaryKey list" where
  "Varchar_contents c = map (\<lambda>v. PK_VarChar (NewVarCharPrimaryKey v)) (varchar_values c)"

lemma AppendRaw_values:
  "varchar_values (VarcharPrimaryKeys_AppendRaw vs c) = varchar_values c @ vs"
proof -
  have "varchar_values (fold (\<lambda>str c. c\<lparr>varchar_size := varchar_size c + (of_nat (length str) + 16)\<rparr>)
      vs c) = varchar_values c" for c :: VarcharPrimaryKeys
    by (induction vs arbitrary: c) simp_all
  then show ?thesis by (simp add: VarcharPrimaryKeys_AppendRaw_def)
qed

lemma collect_Int64_ok:
  "list_all (\<lambda>pk. PrimaryKey_Type pk = DataType_Int64) vs \<Longrightarrow>
   \<exists>ws. collect_Int64 vs = Inr ws \<and> map (\<lambda>v. PK_Int64 (NewInt64PrimaryKey v)) ws = vs"
  by (induction vs rule: collect_Int64.induct) (auto simp: pk_accessors NewInt64PrimaryKey_def)

lemma collect_Int64_bad:
  "\<not> list_all (\<lambda>pk. PrimaryKey_Type pk = DataType_Int64) vs \<Longrightarrow>
   collect_Int64 vs = Inl (Failure ''pk type not match'')"
  by (induction vs rule: collect_Int64.induct) (auto simp: pk_accessors)

lemma collect_VarChar_ok:
  "list_all (\<lambda>pk. PrimaryKey_Type pk = DataType_VarChar) vs \<Longrightarrow>
   \<exists>ws. collect_VarChar vs = Inr ws \<and> map (\<lambda>v. PK_VarChar (NewVarCharPrimaryKey v)) ws = vs"
  by (induction vs rule: collect_VarChar.induct) (auto simp: pk_accessors NewVarCharPrimaryKey_def)

lemma collect_VarChar_bad:
  "\<not> list_all (\<lambda>pk. PrimaryKey_Type pk = DataType_VarChar) vs \<Longrightarrow>
   collect_VarChar vs = Inl (Failure ''pk type not match'')"
  by (induction vs rule: collect_VarChar.induct) (auto simp: pk_accessors)

interpretation int64_col: pk_column PKs_Int64 DataType_Int64 Int64_contents
    Int64PrimaryKeys_Append Int64PrimaryKeys_Get Int64PrimaryKeys_Len Int64PrimaryKeys_MustMerge
proof (unfold_locales, goal_cases)
  case (1 vs c)
  then show ?case
    using collect_Int64_ok [of vs]
    by (auto simp: Int64PrimaryKeys_Append_def Int64PrimaryKeys_AppendRaw_def Int64_contents_def)
next
  case (2 vs c)
  then show ?case by (simp add: Int64PrimaryKeys_Append_def collect_Int64_bad)
next
  case (3 c i)
  then show ?case by (simp add: Int64PrimaryKeys_Get_def Int64_contents_def go_index_map)
next
  case (4 c)
  then show ?case by (simp add: Int64PrimaryKeys_Len_def Int64_contents_def)
next
  case (5 a c)
  then show ?case by (simp add: Int64_contents_def)
next
  case (6 pk c)
  then show ?case by (auto simp: Int64_contents_def pk_accessors)
qed

interpretation varchar_col: pk_column PKs_Varchar DataType_VarChar Varchar_contents
    VarcharPrimaryKeys_Append VarcharPrimaryKeys_Get VarcharPrimaryKeys_Len
    VarcharPrimaryKeys_MustMerge
proof (unfold_locales, goal_cases)
  case (1 vs c)
  then show ?case
    using collect_VarChar_ok [of vs]
    by (auto simp: VarcharPrimaryKeys_Append_def AppendRaw_values Varchar_contents_def)
next
  case (2 vs c)
  then show ?case by (simp add: VarcharPrimaryKeys_Append_def collect_VarChar_bad)
next
  case (3 c i)
  then show ?case by (simp add: VarcharPrimaryKeys_Get_def Varchar_contents_def go_index_map)
next
  case (4 c)
  then show ?case by (simp add: VarcharPrimaryKeys_Len_def Varchar_contents_def)
next
  case (5 a c)
  then show ?case by (simp add: Varchar_contents_def)
next
  case (6 pk c)
  then show ?case by (auto simp: Varchar_contents_def pk_accessors)
qed

section \<open>What a DeltaData stands for\<close>

fun column_contents :: "PrimaryKeys \<Rightarrow> PrimaryKey list" where
  "column_contents (PKs_Int64 c) = Int64_contents c"
| "column_contents (PKs_Varchar c) = Varchar_contents c"

fun column_kind :: "PrimaryKeys \<Rightarrow> DataType" where
  "column_kind (PKs_Int64 c) = DataType_Int64"
| "column_kind (PKs_Varchar c) = DataType_VarChar"

lemma PrimaryKeys_Get_eq: "PrimaryKeys_Get c i = go_index (column_contents c) i"
  by (cases c) (simp_all add: int64_col.get_eq varchar_col.get_eq)

lemma PrimaryKeys_MustAppend_one:
  "(PrimaryKey_Type pk = column_kind c \<and>
      (\<exists>c'. PrimaryKeys_MustAppend [pk] c = (Inr (), c') \<and> column_kind c' = column_kind c \<and>
            column_contents c' = column_contents c @ [pk])) \<or>
   (PrimaryKey_Type pk \<noteq> column_kind c \<and>
      PrimaryKeys_MustAppend [pk] c = (Inl (Panic ''pk type not match''), c))"
proof (cases c)
  case (PKs_Int64 d)
  then show ?thesis
    using int64_col.must_append_cases [of "[pk]" d]
    by (auto simp: Int64PrimaryKeys_MustAppend_def)
next
  case (PKs_Varchar d)
  then show ?thesis
    using varchar_col.must_append_cases [of "[pk]" d]
    by (auto simp: VarcharPrimaryKeys_MustAppend_def)
qed

lemma PrimaryKeys_MustMerge_same:
  assumes "column_kind a = column_kind c"
  shows "\<exists>c'. PrimaryKeys_MustMerge a c = (Inr (), c') \<and> column_kind c' = column_kind c \<and>
    column_contents c' = column_contents c @ column_contents a"
proof (cases c)
  case (PKs_Int64 d)
  with assms obtain b where "a = PKs_Int64 b" by (cases a) auto
  with PKs_Int64 show ?thesis using int64_col.merge_eq [of b d] by auto
next
  case (PKs_Varchar d)
  with assms obtain b where "a = PKs_Varchar b" by (cases a) auto
  with PKs_Varchar show ?thesis using varchar_col.merge_eq [of b d] by auto
qed

text \<open>The well-formedness of a delete log: its three columns run in step.\<close>

definition dd_inv :: "DeltaData \<Rightarrow> bool" where
  "dd_inv dd \<longleftrightarrow>
     (case dd_pks dd of
        None \<Rightarrow> dd_dataType dd \<noteq> DataType_Int64 \<and> dd_dataType dd \<noteq> DataType_VarChar \<and>
                dd_tss dd = [] \<and> dd_delRowCount dd = 0
      | Some c \<Rightarrow> column_kind c = dd_dataType dd \<and>
                length (column_contents c) = length (dd_tss dd) \<and>
                dd_delRowCount dd = of_nat (length (dd_tss dd)))"

definition dd_entries :: "DeltaData \<Rightarrow> (PrimaryKey \<times> u64) list" where
  "dd_entries dd = (case dd_pks dd of None \<Rightarrow> [] | Some c \<Rightarrow> zip (column_contents c) (dd_tss dd))"

lemma dd_inv_New: "dd_inv (NewDeltaData t cap)"
  by (simp add: dd_inv_def NewDeltaData_def Int64_contents_def Varchar_contents_def
      NewInt64PrimaryKeys_def NewVarcharPrimaryKeys_def)

lemma dd_entries_New: "dd_entries (NewDeltaData t cap) = []"
  by (simp add: dd_entries_def NewDeltaData_def)

lemma PrimaryKey_Type_cases:
  "PrimaryKey_Type pk = DataType_Int64 \<or> PrimaryKey_Type pk = DataType_VarChar"
  by (cases pk) (simp_all add: pk_accessors)

lemma DeltaData_Append_ok:
  assumes inv: "dd_inv dd" and ty: "PrimaryKey_Type pk = dd_dataType dd"
  shows "\<exists>dd'. DeltaData_Append pk ts dd = (Inr (), dd') \<and> dd_inv dd' \<and>
    dd_dataType dd' = dd_dataType dd \<and> dd_entries dd' = dd_entries dd @ [(pk, ts)]"
proof (cases "dd_pks dd")
  case None
  with inv ty PrimaryKey_Type_cases [of pk] show ?thesis by (simp add: dd_inv_def)
next
  case (Some c)
  with inv ty have k: "PrimaryKey_Type pk = column_kind c" by (simp add: dd_inv_def)
  with PrimaryKeys_MustAppend_one [of pk c] obtain c' where
    "PrimaryKeys_MustAppend [pk] c = (Inr (), c')" "column_kind c' = column_kind c"
    "column_contents c' = column_contents c @ [pk]" by auto
  with Some inv show ?thesis
    by (auto simp: DeltaData_Append_def dd_inv_def dd_entries_def)
qed

lemma DeltaData_Append_bad:
  assumes inv: "dd_inv dd" and ty: "PrimaryKey_Type pk \<noteq> dd_dataType dd"
  shows "\<exists>msg. DeltaData_Append pk ts dd = (Inl (Panic msg), dd)"
proof (cases "dd_pks dd")
  case None
  then show ?thesis by (simp add: DeltaData_Append_def)
next
  case (Some c)
  with inv ty have "PrimaryKey_Type pk \<noteq> column_kind c" by (simp add: dd_inv_def)
  with Some PrimaryKeys_MustAppend_one [of pk c] show ?thesis
    by (auto simp: DeltaData_Append_def)
qed

text \<open>The visits of \<open>Range\<close>, as a walk over a list of entries.\<close>

fun visit :: "(PrimaryKey \<Rightarrow> u64 \<Rightarrow> 's \<Rightarrow> bool \<times> 's) \<Rightarrow> (PrimaryKey \<times> u64) list \<Rightarrow> 's \<Rightarrow> 's" where
  "visit f [] s = s"
| "visit f ((pk, ts) # es) s =
     (case f pk ts s of (False, s') \<Rightarrow> s' | (True, s') \<Rightarrow> visit f es s')"

lemma Range_loop_visit:
  assumes "length (column_contents c) = length tss" and "i + n = length tss"
  shows "Range_loop f (Some c) tss n (int i) s =
    Inr (visit f (drop i (zip (column_contents c) tss)) s)"
  using assms(2)
proof (induction n arbitrary: i s)
  case 0
  with assms(1) show ?case by simp
next
  case (Suc n)
  then have i: "i < length tss" by simp
  with assms(1) have "drop i (zip (column_contents c) tss) =
      (column_contents c ! i, tss ! i) # drop (Suc i) (zip (column_contents c) tss)"
    by (metis Cons_nth_drop_Suc length_zip min.idem nth_zip)
  moreover have "Range_loop f (Some c) tss n (int i + 1) s' =
      Inr (visit f (drop (Suc i) (zip (column_contents c) tss)) s')" for s'
    using Suc.IH [of "Suc i" s'] Suc.prems by (simp add: add.commute)
  ultimately show ?case
    using i assms(1)
    by (auto simp: PrimaryKeys_Get_eq go_index_def split: prod.splits bool.splits)
qed

lemma DeltaData_Range_visit:
  assumes inv: "dd_inv dd" and len: "length (dd_tss dd) < 2 ^ 63"
  shows "DeltaData_Range f dd s = Inr (visit f (dd_entries dd) s)"
proof (cases "dd_pks dd")
  case None
  with inv show ?thesis by (simp add: DeltaData_Range_def dd_inv_def dd_entries_def)
next
  case (Some c)
  with inv have "length (column_contents c) = length (dd_tss dd)"
    and "nat (sint (dd_delRowCount dd)) = length (dd_tss dd)"
    using len by (simp_all add: dd_inv_def sint_of_nat_small)
  with Some show ?thesis
    using Range_loop_visit [of c "dd_tss dd" 0 "length (dd_tss dd)" f s]
    by (simp add: DeltaData_Range_def dd_entries_def)
qed

text \<open>Appending a list of entries one by one, as the readers of delete logs do.\<close>

fun append_entries :: "(PrimaryKey \<times> u64) list \<Rightarrow> (DeltaData, unit) go" where
  "append_entries [] = go_return ()"
| "append_entries ((pk, ts) # es) = go_bind (DeltaData_Append pk ts) (\<lambda>_. append_entries es)"

lemma append_entries_ok:
  assumes "dd_inv dd" and "list_all (\<lambda>(pk, ts). PrimaryKey_Type pk = dd_dataType dd) es"
  shows "\<exists>dd'. append_entries es dd = (Inr (), dd') \<and> dd_inv dd' \<and>
    dd_dataType dd' = dd_dataType dd \<and> dd_entries dd' = dd_entries dd @ es"
  using assms
proof (induction es arbitrary: dd)
  case Nil
  then show ?case by simp
next
  case (Cons e es)
  obtain pk ts where e: "e = (pk, ts)" by force
  with Cons.prems obtain d where d: "DeltaData_Append pk ts dd = (Inr (), d)" "dd_inv d"
    "dd_dataType d = dd_dataType dd" "dd_entries d = dd_entries dd @ [e]"
    using DeltaData_Append_ok [of dd pk ts] by auto
  from Cons.prems(2) d(3) have "list_all (\<lambda>(pk, ts). PrimaryKey_Type pk = dd_dataType d) es"
    by simp
  from Cons.IH [OF d(2) this] d show ?case
    by (auto simp: e go_bind_def)
qed

section \<open>Properties\<close>

text \<open>
  A delete log of a supported key type that is filled with entries of that type hands
  \<open>Range\<close> exactly these entries, in the order of their insertion and up to the first entry at which
  the callback answers false; no index is ever out of range.
\<close>

theorem DeltaData_append_range:
  assumes "list_all (\<lambda>(pk, ts). PrimaryKey_Type pk = t) es" and "length es < 2 ^ 63"
    and "t = DataType_Int64 \<or> t = DataType_VarChar"
  shows "\<exists>dd. append_entries es (NewDeltaData t cap) = (Inr (), dd) \<and>
    DeltaData_Range f dd s = Inr (visit f es s)"
proof -
  have "dd_dataType (NewDeltaData t cap) = t" by (simp add: NewDeltaData_def)
  with assms(1) obtain dd where dd: "append_entries es (NewDeltaData t cap) = (Inr (), dd)"
    "dd_inv dd" "dd_dataType dd = t" "dd_entries dd = es"
    using append_entries_ok [OF dd_inv_New [of t cap], of es] by (auto simp: dd_entries_New)
  then have "length (dd_tss dd) = length es"
    using assms(3) by (auto simp: dd_inv_def dd_entries_def split: option.splits)
  with dd assms(2) show ?thesis by (auto simp: DeltaData_Range_visit)
qed

theorem DeltaData_append_range_witness:
  "\<exists>dd. append_entries [(PK_Int64 \<lparr>int64_Value = 7\<rparr>, 100), (PK_Int64 \<lparr>int64_Value = 8\<rparr>, 101)]
      (NewDeltaData DataType_Int64 2) = (Inr (), dd) \<and>
    DeltaData_Range (\<lambda>pk ts s. (True, s @ [ts])) dd [] = Inr [100, 101]"
  using DeltaData_append_range [of DataType_Int64
      "[(PK_Int64 \<lparr>int64_Value = 7\<rparr>, 100), (PK_Int64 \<lparr>int64_Value = 8\<rparr>, 101)]" 2
      "\<lambda>pk ts s. (True, s @ [ts])" "[]"]
  by (simp add: pk_accessors)

text \<open>
  \<open>Append\<close> of a key of another type than the log's panics and leaves the log as it was;
  \<open>Merge\<close> of two well-formed logs of one supported type concatenates their entries and keeps the log
  well formed, and for logs of different types reports an error and changes nothing.
\<close>

theorem DeltaData_guards:
  assumes "dd_inv dd" and "dd_inv add"
  shows "(PrimaryKey_Type pk \<noteq> dd_dataType dd \<longrightarrow>
      (\<exists>msg. DeltaData_Append pk ts dd = (Inl (Panic msg), dd))) \<and>
    (dd_dataType dd = dd_dataType add \<and>
      (dd_dataType dd = DataType_Int64 \<or> dd_dataType dd = DataType_VarChar) \<longrightarrow>
      (\<exists>dd'. DeltaData_Merge add dd = (Inr (), dd') \<and> dd_inv dd' \<and>
        dd_entries dd' = dd_entries dd @ dd_entries add)) \<and>
    (dd_dataType dd \<noteq> dd_dataType add \<longrightarrow>
      DeltaData_Merge add dd = (Inl (Failure ''data type not match''), dd))"
proof (intro conjI impI)
  assume "PrimaryKey_Type pk \<noteq> dd_dataType dd"
  with assms(1) show "\<exists>msg. DeltaData_Append pk ts dd = (Inl (Panic msg), dd)"
    by (rule DeltaData_Append_bad)
next
  assume t: "dd_dataType dd = dd_dataType add \<and>
    (dd_dataType dd = DataType_Int64 \<or> dd_dataType dd = DataType_VarChar)"
  with assms obtain c a where c: "dd_pks dd = Some c" and a: "dd_pks add = Some a"
    and k: "column_kind a = column_kind c"
    by (auto simp: dd_inv_def split: option.splits)
  from PrimaryKeys_MustMerge_same [OF k] obtain c' where
    "PrimaryKeys_MustMerge a c = (Inr (), c')" "column_kind c' = column_kind c"
    "column_contents c' = column_contents c @ column_contents a" by blast
  with t c a assms show "\<exists>dd'. DeltaData_Merge add dd = (Inr (), dd') \<and> dd_inv dd' \<and>
      dd_entries dd' = dd_entries dd @ dd_entries add"
    by (auto simp: DeltaData_Merge_def dd_inv_def dd_entries_def)
next
  assume "dd_dataType dd \<noteq> dd_dataType add"
  then show "DeltaData_Merge add dd = (Inl (Failure ''data type not match''), dd)"
    by (simp add: DeltaData_Merge_def)
qed

theorem DeltaData_guards_witness:
  "(\<exists>msg. DeltaData_Append (PK_VarChar \<lparr>string_Value = ''a''\<rparr>) 1 (NewDeltaData DataType_Int64 0) =
      (Inl (Panic msg), NewDeltaData DataType_Int64 0)) \<and>
   DeltaData_Merge (NewDeltaData DataType_VarChar 0) (NewDeltaData DataType_Int64 0) =
      (Inl (Failure ''data type not match''), NewDeltaData DataType_Int64 0)"
  using DeltaData_guards [OF dd_inv_New [of DataType_Int64 0] dd_inv_New [of DataType_VarChar 0],
      of "PK_VarChar \<lparr>string_Value = ''a''\<rparr>" 1]
  by (simp add: pk_accessors NewDeltaData_def)

end
