(* ===== verification/Wal_Heap.thy ===== *)
theory Wal_Heap
  imports Go_Prelude
begin

text \<open>
  Messages of the write-ahead log and the priority queue the reorder buffer keeps them in
  (\<^verbatim>\<open>wal/utility/message_heap.go\<close>). The methods \<open>Len\<close>, \<open>Less\<close>, \<open>Swap\<close>, \<open>Push\<close>, \<open>Pop\<close> and
  \<open>Peek\<close> of \<open>immutableMessageHeap\<close> are driven by the sift-up and sift-down loops of the standard
  package \<open>container/heap\<close>, which are modelled as recursive functions with a termination measure.

  The generic wrapper \<open>typeutil.Heap\<close> the buffer calls is not part of the repository: it is the record
  \<open>heap_ops\<close>, an argument of the buffer, and the locale \<open>msg_heap\<close> states what the buffer relies on.
  The interpretation \<open>go_heap\<close> shows that \<open>container/heap\<close> over \<open>immutableMessageHeap\<close> keeps that
  contract.
\<close>

section \<open>Messages\<close>

text \<open>
  A message of the log is seen through its getters only: the record holds their answers.
  \<open>MessageID\<close> is the marshalled identifier, \<open>TxnContext\<close> the transaction identifier if there is one.
\<close>

datatype MessageType =
    MessageTypeTimeTick
  | MessageTypeBeginTxn
  | MessageTypeCommitTxn
  | MessageTypeRollbackTxn
  | MessageTypeOther nat

type_synonym TxnID = i64

record ImmutableMessage =
  TimeTick :: u64
  MessageID :: string
  EstimateSize :: i64
  TxnContext :: "TxnID option"
  MsgType :: MessageType
  VChannel :: string
  IsPersisted :: bool

section \<open>immutableMessageHeap\<close>

type_synonym immutableMessageHeap = "ImmutableMessage list"

definition heap_Len :: "immutableMessageHeap \<Rightarrow> nat" where
  "heap_Len h = length h"

definition heap_Less :: "immutableMessageHeap \<Rightarrow> nat \<Rightarrow> nat \<Rightarrow> bool" where
  "heap_Less h i j = (TimeTick (h ! i) < TimeTick (h ! j))"

definition heap_Swap :: "nat \<Rightarrow> nat \<Rightarrow> immutableMessageHeap \<Rightarrow> immutableMessageHeap" where
  "heap_Swap i j h = h[i := h ! j, j := h ! i]"

definition heap_Push :: "ImmutableMessage \<Rightarrow> immutableMessageHeap \<Rightarrow> immutableMessageHeap" where
  "heap_Push x h = h @ [x]"

definition heap_Pop :: "immutableMessageHeap \<Rightarrow> (ImmutableMessage \<times> immutableMessageHeap) result" where
  "heap_Pop h = res_bind (go_index h (int (length h) - 1)) (\<lambda>x. Inr (x, take (length h - 1) h))"

definition heap_Peek :: "immutableMessageHeap \<Rightarrow> ImmutableMessage result" where
  "heap_Peek h = go_index h 0"

section \<open>container/heap\<close>

text \<open>\<open>up(h, j)\<close>: the parent of position \<open>0\<close> is \<open>(0 - 1) / 2 = 0\<close> in Go.\<close>

function heap_up :: "immutableMessageHeap \<Rightarrow> nat \<Rightarrow> immutableMessageHeap" where
  "heap_up h j =
     (let i = (j - 1) div 2
      in if i = j \<or> \<not> heap_Less h j i then h else heap_up (heap_Swap i j h) i)"
  by pat_completeness auto
termination
  by (relation "measure snd") auto

text \<open>\<open>down(h, i, n)\<close>: sift position \<open>i\<close> down inside the first \<open>n\<close> positions.\<close>

definition smaller_child :: "immutableMessageHeap \<Rightarrow> nat \<Rightarrow> nat \<Rightarrow> nat" where
  "smaller_child h i n =
     (let j1 = 2 * i + 1; j2 = j1 + 1
      in if j2 < n \<and> heap_Less h j2 j1 then j2 else j1)"

function heap_down :: "immutableMessageHeap \<Rightarrow> nat \<Rightarrow> nat \<Rightarrow> immutableMessageHeap" where
  "heap_down h i n =
     (if 2 * i + 1 \<ge> n then h
      else
        let j = smaller_child h i n
        in if \<not> heap_Less h j i then h else heap_down (heap_Swap i j h) j n)"
  by pat_completeness auto
termination
  by (relation "measure (\<lambda>(h, i, n). n - i)") (auto simp: smaller_child_def Let_def)

declare heap_up.simps [simp del] heap_down.simps [simp del]

definition container_Push :: "ImmutableMessage \<Rightarrow> immutableMessageHeap \<Rightarrow> immutableMessageHeap" where
  "container_Push x h = (let h' = heap_Push x h in heap_up h' (heap_Len h' - 1))"

text \<open>On an empty heap \<open>Swap(0, -1)\<close> panics.\<close>

definition container_Pop ::
    "immutableMessageHeap \<Rightarrow> (ImmutableMessage \<times> immutableMessageHeap) result" where
  "container_Pop h =
     (if h = [] then Inl (Panic ''index out of range'')
      else let n = heap_Len h - 1 in heap_Pop (heap_down (heap_Swap 0 n h) 0 n))"

section \<open>The heap as the buffer sees it\<close>

record 'h heap_ops =
  hp_empty :: 'h
  hp_len :: "'h \<Rightarrow> nat"
  hp_peek :: "'h \<Rightarrow> ImmutableMessage result"
  hp_push :: "ImmutableMessage \<Rightarrow> 'h \<Rightarrow> 'h"
  hp_pop :: "'h \<Rightarrow> (ImmutableMessage \<times> 'h) result"

locale msg_heap =
  fixes H :: "'h heap_ops"
    and invar :: "'h \<Rightarrow> bool"
    and elems :: "'h \<Rightarrow> ImmutableMessage multiset"
  assumes invar_empty: "invar (hp_empty H)"
    and elems_empty: "elems (hp_empty H) = {#}"
    and len_elems: "invar h \<Longrightarrow> hp_len H h = size (elems h)"
    and invar_push: "invar h \<Longrightarrow> invar (hp_push H m h)"
    and elems_push: "invar h \<Longrightarrow> elems (hp_push H m h) = add_mset m (elems h)"
    and peek_min: "invar h \<Longrightarrow> elems h \<noteq> {#} \<Longrightarrow>
      \<exists>m. hp_peek H h = Inr m \<and> m \<in># elems h \<and> (\<forall>x \<in># elems h. TimeTick m \<le> TimeTick x)"
    and pop_peek: "invar h \<Longrightarrow> hp_peek H h = Inr m \<Longrightarrow> elems h \<noteq> {#} \<Longrightarrow>
      \<exists>h'. hp_pop H h = Inr (m, h') \<and> invar h' \<and> elems h = add_mset m (elems h')"

section \<open>Correctness of the sift loops\<close>

abbreviation tick :: "immutableMessageHeap \<Rightarrow> nat \<Rightarrow> u64" where
  "tick h k \<equiv> TimeTick (h ! k)"

abbreviation parent :: "nat \<Rightarrow> nat" where
  "parent k \<equiv> (k - 1) div 2"

text \<open>The first \<open>n\<close> positions are heap-ordered.\<close>

definition heap_ordered :: "immutableMessageHeap \<Rightarrow> nat \<Rightarrow> bool" where
  "heap_ordered h n \<longleftrightarrow> (\<forall>k. 0 < k \<and> k < n \<longrightarrow> tick h (parent k) \<le> tick h k)"

text \<open>Heap-ordered but for position \<open>j\<close>, which may be smaller than its parent.\<close>

definition up_inv :: "immutableMessageHeap \<Rightarrow> nat \<Rightarrow> bool" where
  "up_inv h j \<longleftrightarrow>
     (\<forall>k. 0 < k \<and> k < length h \<and> k \<noteq> j \<longrightarrow> tick h (parent k) \<le> tick h k) \<and>
     (\<forall>k. 0 < k \<and> k < length h \<and> 0 < j \<and> parent k = j \<longrightarrow> tick h (parent j) \<le> tick h k)"

text \<open>Heap-ordered but for position \<open>i\<close>, which may be larger than its children.\<close>

definition down_inv :: "immutableMessageHeap \<Rightarrow> nat \<Rightarrow> nat \<Rightarrow> bool" where
  "down_inv h i n \<longleftrightarrow>
     (\<forall>k. 0 < k \<and> k < n \<and> parent k \<noteq> i \<longrightarrow> tick h (parent k) \<le> tick h k) \<and>
     (\<forall>k. 0 < k \<and> k < n \<and> 0 < i \<and> parent k = i \<longrightarrow> tick h (parent i) \<le> tick h k)"

lemma length_heap_Swap [simp]: "length (heap_Swap i j h) = length h"
  by (simp add: heap_Swap_def)

lemma mset_heap_Swap: "i < length h \<Longrightarrow> j < length h \<Longrightarrow> mset (heap_Swap i j h) = mset h"
  by (simp add: heap_Swap_def mset_swap)

lemma nth_heap_Swap:
  "i < length h \<Longrightarrow> j < length h \<Longrightarrow> k < length h \<Longrightarrow>
   heap_Swap i j h ! k = (if k = i then h ! j else if k = j then h ! i else h ! k)"
  by (auto simp: heap_Swap_def nth_list_update)

lemma parent_less: "0 < k \<Longrightarrow> parent k < k"
  by auto

lemma up_inv_step:
  assumes inv: "up_inv h j" and j: "j < length h" "0 < j"
    and less: "tick h j < tick h (parent j)"
  shows "up_inv (heap_Swap (parent j) j h) (parent j)"
proof -
  let ?i = "parent j" and ?s = "heap_Swap (parent j) j h"
  have i: "?i < j" "?i < length h" using j by auto
  have at: "?s ! k = (if k = ?i then h ! j else if k = j then h ! ?i else h ! k)"
    if "k < length h" for k
    using nth_heap_Swap [of ?i h j k] i j that by simp
  have anti: "tick h (parent k) \<le> tick h k" if "0 < k" "k < length h" "k \<noteq> j" for k
    using inv that by (auto simp: up_inv_def)
  have grand: "tick h ?i \<le> tick h k" if "0 < k" "k < length h" "parent k = j" for k
    using inv that j by (auto simp: up_inv_def)
  show ?thesis
    unfolding up_inv_def
  proof (intro conjI allI impI)
    fix k assume k: "0 < k \<and> k < length ?s \<and> k \<noteq> ?i"
    then have kl: "k < length h" "parent k < length h" by auto
    show "tick ?s (parent k) \<le> tick ?s k"
    proof (cases "k = j")
      case True
      then show ?thesis using at [of j] at [of ?i] i j less by simp
    next
      case False
      consider "parent k = ?i" | "parent k = j" | "parent k \<noteq> ?i" "parent k \<noteq> j" by blast
      then show ?thesis
      proof cases
        case 1
        have "tick h j \<le> tick h ?i" using less by simp
        also have "\<dots> \<le> tick h k" using anti [of k] k False 1 by simp
        finally show ?thesis using at [of k] at [of ?i] kl k False 1 i by simp
      next
        case 2
        then show ?thesis using grand [of k] at [of k] at [of j] kl k False i j by simp
      next
        case 3
        then show ?thesis using anti [of k] at [of k] at [of "parent k"] kl k False by simp
      qed
    qed
  next
    fix k assume k: "0 < k \<and> k < length ?s \<and> 0 < ?i \<and> parent k = ?i"
    then have kl: "k < length h" by simp
    have "parent ?i < ?i" using k parent_less by blast
    then have pi: "?s ! parent ?i = h ! parent ?i" using at [of "parent ?i"] i by simp
    have up: "tick h (parent ?i) \<le> tick h ?i" using anti [of ?i] k i by simp
    show "tick ?s (parent ?i) \<le> tick ?s k"
    proof (cases "k = j")
      case True
      then show ?thesis using pi up at [of j] i j by simp
    next
      case False
      have "tick h ?i \<le> tick h k" using anti [of k] k False by simp
      moreover have "k \<noteq> ?i" using k parent_less [of ?i] by auto
      ultimately show ?thesis using pi up at [of k] kl False by simp
    qed
  qed
qed

lemma heap_up_correct:
  assumes "up_inv h j" and "j < length h"
  shows "heap_ordered (heap_up h j) (length h) \<and> mset (heap_up h j) = mset h \<and>
    length (heap_up h j) = length h"
  using assms
proof (induction h j rule: heap_up.induct)
  case (1 h j)
  let ?i = "parent j"
  show ?case
  proof (cases "?i = j \<or> \<not> heap_Less h j ?i")
    case True
    then have "heap_up h j = h" by (subst heap_up.simps) (auto simp: Let_def)
    moreover have "j = 0 \<or> tick h ?i \<le> tick h j"
      using True by (auto simp: heap_Less_def)
    ultimately show ?thesis using "1.prems" by (auto simp: heap_ordered_def up_inv_def)
  next
    case False
    then have j: "0 < j" and less: "tick h j < tick h ?i" by (auto simp: heap_Less_def)
    then have "up_inv (heap_Swap ?i j h) ?i" using up_inv_step "1.prems" by simp
    moreover have "heap_up h j = heap_up (heap_Swap ?i j h) ?i"
      using False by (subst heap_up.simps) (auto simp: Let_def)
    moreover have "?i < length h" using "1.prems" by auto
    ultimately show ?thesis
      using "1.IH" [OF refl False] "1.prems" by (simp add: mset_heap_Swap)
  qed
qed

lemma smaller_child_props:
  assumes "2 * i + 1 < n"
  shows "smaller_child h i n < n" and "parent (smaller_child h i n) = i"
    and "i < smaller_child h i n"
    and "\<And>k. 0 < k \<Longrightarrow> k < n \<Longrightarrow> parent k = i \<Longrightarrow> tick h (smaller_child h i n) \<le> tick h k"
proof -
  show "smaller_child h i n < n" "parent (smaller_child h i n) = i" "i < smaller_child h i n"
    using assms by (auto simp: smaller_child_def Let_def)
  fix k assume "0 < k" "k < n" "parent k = i"
  then have "k = 2 * i + 1 \<or> k = 2 * i + 2" by presburger
  with \<open>k < n\<close> show "tick h (smaller_child h i n) \<le> tick h k"
    by (auto simp: smaller_child_def Let_def heap_Less_def)
qed

lemma down_inv_step:
  assumes inv: "down_inv h i n" and n: "n \<le> length h" and c: "2 * i + 1 < n"
    and less: "tick h (smaller_child h i n) < tick h i"
  shows "down_inv (heap_Swap i (smaller_child h i n) h) (smaller_child h i n) n"
proof -
  let ?j = "smaller_child h i n" and ?s = "heap_Swap i (smaller_child h i n) h"
  note sc = smaller_child_props [OF c, where h = h]
  have at: "?s ! k = (if k = i then h ! ?j else if k = ?j then h ! i else h ! k)"
    if "k < length h" for k
    using nth_heap_Swap [of i h ?j k] sc(1,3) n that by simp
  have keep: "tick h (parent k) \<le> tick h k" if "0 < k" "k < n" "parent k \<noteq> i" for k
    using inv that by (auto simp: down_inv_def)
  have grand: "tick h (parent i) \<le> tick h k" if "0 < k" "k < n" "0 < i" "parent k = i" for k
    using inv that by (auto simp: down_inv_def)
  show ?thesis
    unfolding down_inv_def
  proof (intro conjI allI impI)
    fix k assume k: "0 < k \<and> k < n \<and> parent k \<noteq> ?j"
    then have kl: "k < length h" "parent k < length h" using n by auto
    consider "parent k = i" | "k = i" "parent k \<noteq> i" | "k \<noteq> i" "parent k \<noteq> i" by blast
    then show "tick ?s (parent k) \<le> tick ?s k"
    proof cases
      case 1
      then have "k \<noteq> i" using k by auto
      then show ?thesis
        using 1 sc(4) [of k] less at [of k] at [of i] kl k by auto
    next
      case 2
      then have "tick h (parent i) \<le> tick h ?j" using grand [of ?j] sc k by auto
      then show ?thesis using 2 at [of i] at [of "parent i"] kl k by simp
    next
      case 3
      have "k \<noteq> ?j" using 3 sc(2) by auto
      then show ?thesis using 3 keep [of k] at [of k] at [of "parent k"] kl k by simp
    qed
  next
    fix k assume k: "0 < k \<and> k < n \<and> 0 < ?j \<and> parent k = ?j"
    then have "k \<noteq> i" "k \<noteq> ?j" using sc(3) by auto
    moreover have "tick h ?j \<le> tick h k" using keep [of k] k sc(3) by auto
    ultimately show "tick ?s (parent ?j) \<le> tick ?s k"
      using at [of k] at [of i] k n sc by simp
  qed
qed

lemma heap_down_correct:
  assumes "down_inv h i n" and "n \<le> length h"
  shows "heap_ordered (heap_down h i n) n \<and> mset (heap_down h i n) = mset h \<and>
    length (heap_down h i n) = length h \<and>
    (\<forall>k. n \<le> k \<and> k < length h \<longrightarrow> heap_down h i n ! k = h ! k)"
  using assms
proof (induction h i n rule: heap_down.induct)
  case (1 h i n)
  let ?j = "smaller_child h i n"
  show ?case
  proof (cases "2 * i + 1 \<ge> n")
    case True
    then have "heap_down h i n = h" by (subst heap_down.simps) simp
    moreover have "parent k \<noteq> i" if "0 < k" "k < n" for k
      using True that by presburger
    ultimately show ?thesis using "1.prems" by (auto simp: heap_ordered_def down_inv_def)
  next
    case False
    then have c: "2 * i + 1 < n" by simp
    note sc = smaller_child_props [OF c, where h = h]
    show ?thesis
    proof (cases "heap_Less h ?j i")
      case True
      then have eq: "heap_down h i n = heap_down (heap_Swap i ?j h) ?j n"
        using c by (subst heap_down.simps) (simp add: Let_def)
      have "down_inv (heap_Swap i ?j h) ?j n"
        using down_inv_step "1.prems" c True by (simp add: heap_Less_def)
      with "1.IH" [OF False refl] True "1.prems" have
        IH: "heap_ordered (heap_down (heap_Swap i ?j h) ?j n) n"
          "mset (heap_down (heap_Swap i ?j h) ?j n) = mset (heap_Swap i ?j h)"
          "length (heap_down (heap_Swap i ?j h) ?j n) = length h"
          "\<forall>k. n \<le> k \<and> k < length h \<longrightarrow>
             heap_down (heap_Swap i ?j h) ?j n ! k = heap_Swap i ?j h ! k"
        by simp_all
      then show ?thesis
        using eq sc(1,3) "1.prems"(2) by (auto simp: mset_heap_Swap nth_heap_Swap)
    next
      case False
      then have "heap_down h i n = h" by (subst heap_down.simps) (simp add: Let_def)
      moreover have "tick h (parent k) \<le> tick h k" if "0 < k" "k < n" for k
      proof (cases "parent k = i")
        case True
        then have "tick h i \<le> tick h ?j" using False by (simp add: heap_Less_def)
        also have "\<dots> \<le> tick h k" using sc(4) that True by blast
        finally show ?thesis using True by simp
      next
        case False
        then show ?thesis using "1.prems"(1) that by (auto simp: down_inv_def)
      qed
      ultimately show ?thesis by (auto simp: heap_ordered_def)
    qed
  qed
qed

lemma heap_ordered_min:
  assumes "heap_ordered h n" and "k < n"
  shows "tick h 0 \<le> tick h k"
  using assms(2)
proof (induction k rule: less_induct)
  case (less k)
  show ?case
  proof (cases "k = 0")
    case False
    then have "parent k < k" "parent k < n" using less.prems by auto
    then have "tick h 0 \<le> tick h (parent k)" by (rule less.IH)
    also have "\<dots> \<le> tick h k" using assms(1) False less.prems by (simp add: heap_ordered_def)
    finally show ?thesis .
  qed simp
qed

section \<open>The contract kept by container/heap\<close>

definition go_heap_ops :: "immutableMessageHeap heap_ops" where
  "go_heap_ops = \<lparr>hp_empty = [], hp_len = heap_Len, hp_peek = heap_Peek,
     hp_push = container_Push, hp_pop = container_Pop\<rparr>"

lemma container_Push_correct:
  assumes "heap_ordered h (length h)"
  shows "heap_ordered (container_Push m h) (length (container_Push m h)) \<and>
    mset (container_Push m h) = add_mset m (mset h)"
proof -
  have "up_inv (h @ [m]) (length h)"
    unfolding up_inv_def
  proof (intro conjI allI impI)
    fix k assume k: "0 < k \<and> k < length (h @ [m]) \<and> k \<noteq> length h"
    then have "k < length h" "parent k < length h" by auto
    with k assms show "tick (h @ [m]) (parent k) \<le> tick (h @ [m]) k"
      by (simp add: heap_ordered_def nth_append)
  next
    fix k assume "0 < k \<and> k < length (h @ [m]) \<and> 0 < length h \<and> parent k = length h"
    then show "tick (h @ [m]) (parent (length h)) \<le> tick (h @ [m]) k" by auto
  qed
  then have "heap_ordered (heap_up (h @ [m]) (length h)) (length (h @ [m])) \<and>
      mset (heap_up (h @ [m]) (length h)) = mset (h @ [m]) \<and>
      length (heap_up (h @ [m]) (length h)) = length (h @ [m])"
    by (rule heap_up_correct) simp
  then show ?thesis by (simp add: container_Push_def heap_Push_def heap_Len_def)
qed

lemma container_Pop_correct:
  assumes ord: "heap_ordered h (length h)" and ne: "h \<noteq> []"
  shows "\<exists>h'. container_Pop h = Inr (h ! 0, h') \<and> heap_ordered h' (length h') \<and>
    mset h = add_mset (h ! 0) (mset h')"
proof -
  let ?n = "length h - 1" and ?s = "heap_Swap 0 (length h - 1) h"
  have n: "?n < length h" "0 < length h" using ne by (cases h; simp)+
  have at: "?s ! k = (if k = 0 then h ! ?n else if k = ?n then h ! 0 else h ! k)"
    if "k < length h" for k
    using nth_heap_Swap [of 0 h ?n k] n that by simp
  have "down_inv ?s 0 ?n"
    unfolding down_inv_def
  proof (intro conjI allI impI)
    fix k assume k: "0 < k \<and> k < ?n \<and> parent k \<noteq> 0"
    then have "parent k < ?n" "parent k < length h" "k < length h" by auto
    with k ord show "tick ?s (parent k) \<le> tick ?s k"
      using at [of k] at [of "parent k"] by (simp add: heap_ordered_def)
  next
    fix k :: nat assume "0 < k \<and> k < ?n \<and> (0::nat) < 0 \<and> parent k = 0"
    then show "tick ?s (parent 0) \<le> tick ?s k" by simp
  qed
  then have down: "heap_ordered (heap_down ?s 0 ?n) ?n" "mset (heap_down ?s 0 ?n) = mset ?s"
    "length (heap_down ?s 0 ?n) = length h" "heap_down ?s 0 ?n ! ?n = ?s ! ?n"
    using heap_down_correct [of ?s 0 ?n] n by auto
  let ?d = "heap_down ?s 0 ?n"
  have last: "?d ! ?n = h ! 0" using down(4) at [of ?n] n by auto
  then have pop: "container_Pop h = Inr (h ! 0, take ?n ?d)"
  proof -
    have "?d \<noteq> []" using down(3) ne by auto
    moreover have "nat (int (length h) - 1) = ?n" using n by simp
    ultimately show ?thesis
      using ne last down(3)
      by (simp add: container_Pop_def heap_Len_def heap_Pop_def go_index_def Let_def)
  qed
  have "?d = take ?n ?d @ [h ! 0]"
    using last down(3) n by (metis Suc_diff_1 lessI take_Suc_conv_app_nth take_all_iff le_refl)
  then have "mset h = add_mset (h ! 0) (mset (take ?n ?d))"
    using down(2) n mset_heap_Swap [of 0 h ?n]
    by (metis add_mset_add_single mset.simps mset_append)
  moreover have "heap_ordered (take ?n ?d) (length (take ?n ?d))"
    using down(1,3) n by (auto simp: heap_ordered_def)
  ultimately show ?thesis using pop by blast
qed

interpretation go_heap: msg_heap go_heap_ops "\<lambda>h. heap_ordered h (length h)" mset
proof (unfold_locales, goal_cases)
  case 1
  then show ?case by (simp add: go_heap_ops_def heap_ordered_def)
next
  case 2
  then show ?case by (simp add: go_heap_ops_def)
next
  case (3 h)
  then show ?case by (simp add: go_heap_ops_def heap_Len_def)
next
  case (4 h m)
  then show ?case using container_Push_correct by (simp add: go_heap_ops_def)
next
  case (5 h m)
  then show ?case using container_Push_correct by (simp add: go_heap_ops_def)
next
  case (6 h)
  then have "0 < length h" by simp
  with 6 show ?case
    by (auto simp: go_heap_ops_def heap_Peek_def go_index_def in_set_conv_nth
        intro!: exI [of _ "h ! 0"] dest: heap_ordered_min)
next
  case (7 h m)
  then have "h \<noteq> []" by simp
  moreover have "m = h ! 0"
    using 7 by (auto simp: go_heap_ops_def heap_Peek_def go_index_def split: if_splits)
  ultimately show ?case
    using container_Pop_correct [of h] 7 by (auto simp: go_heap_ops_def)
qed

end
