(* ===== verification/Wal_Reorder.thy ===== *)
theory Wal_Reorder
  imports Wal_Heap
begin

text \<open>
  The reorder buffer of the log scanner (\<^verbatim>\<open>wal/utility/reorder_buffer.go\<close>). Messages arrive in the
  order of the log and leave in the order of their time ticks once a time tick confirms them. The
  operations take the heap as an argument; their correctness is proved in the locale \<open>msg_heap\<close> and
  used at the interpretation \<open>go_heap\<close>.
\<close>

section \<open>The buffer\<close>

record 'h ReOrderByTimeTickBuffer =
  messageIDs :: "string set"
  messageHeap :: 'h
  lastPopTimeTick :: u64
  rb_bytes :: i64

definition NewReOrderBuffer :: "'h heap_ops \<Rightarrow> 'h ReOrderByTimeTickBuffer" where
  "NewReOrderBuffer H =
     \<lparr>messageIDs = {}, messageHeap = hp_empty H, lastPopTimeTick = 0, rb_bytes = 0\<rparr>"

definition Reorder_Push ::
    "'h heap_ops \<Rightarrow> ImmutableMessage \<Rightarrow> ('h ReOrderByTimeTickBuffer, unit) go" where
  "Reorder_Push H msg r =
     (if TimeTick msg < lastPopTimeTick r then
        (Inl (Failure ''time tick violation''), r)
      else
        let msgID = MessageID msg
        in if msgID \<in> messageIDs r then (Inl (Failure ''message is duplicated''), r)
           else (Inr (), r\<lparr>messageHeap := hp_push H msg (messageHeap r),
                           messageIDs := insert msgID (messageIDs r),
                           rb_bytes := rb_bytes r + EstimateSize msg\<rparr>))"

text \<open>
  The loop of \<open>PopUtilTimeTick\<close>. Every iteration pops one message, so the length of the heap bounds
  the iterations; \<open>None\<close> stands for a loop that is not finished after that many. The two reads of the
  heap inside the body panic on an empty heap, which the guard excludes.
\<close>

fun PopUtilTimeTick_loop :: "'h heap_ops \<Rightarrow> nat \<Rightarrow> u64 \<Rightarrow> 'h ReOrderByTimeTickBuffer \<Rightarrow>
    ImmutableMessage list \<Rightarrow> (ImmutableMessage list \<times> 'h ReOrderByTimeTickBuffer) result option" where
  "PopUtilTimeTick_loop H fuel timetick r res =
     (if hp_len H (messageHeap r) = 0 then Some (Inr (res, r))
      else
        (case hp_peek H (messageHeap r) of
           Inl e \<Rightarrow> Some (Inl e)
         | Inr next \<Rightarrow>
             if timetick < TimeTick next then Some (Inr (res, r))
             else
               (case fuel of
                  0 \<Rightarrow> None
                | Suc n \<Rightarrow>
                    let r1 = r\<lparr>rb_bytes := rb_bytes r - EstimateSize next\<rparr>;
                        r2 = r1\<lparr>messageIDs := messageIDs r1 - {MessageID next}\<rparr>
                    in (case hp_pop H (messageHeap r2) of
                          Inl e \<Rightarrow> Some (Inl e)
                        | Inr (m, h') \<Rightarrow>
                            PopUtilTimeTick_loop H n timetick (r2\<lparr>messageHeap := h'\<rparr>)
                              (res @ [m])))))"

declare PopUtilTimeTick_loop.simps [simp del]

definition PopUtilTimeTick :: "'h heap_ops \<Rightarrow> u64 \<Rightarrow> 'h ReOrderByTimeTickBuffer \<Rightarrow>
    (ImmutableMessage list \<times> 'h ReOrderByTimeTickBuffer) result option" where
  "PopUtilTimeTick H timetick r =
     (case PopUtilTimeTick_loop H (hp_len H (messageHeap r)) timetick r [] of
        None \<Rightarrow> None
      | Some (Inl e) \<Rightarrow> Some (Inl e)
      | Some (Inr (res, r')) \<Rightarrow> Some (Inr (res, r'\<lparr>lastPopTimeTick := timetick\<rparr>)))"

definition Reorder_Len :: "'h heap_ops \<Rightarrow> 'h ReOrderByTimeTickBuffer \<Rightarrow> nat" where
  "Reorder_Len H r = hp_len H (messageHeap r)"

definition Reorder_Bytes :: "'h ReOrderByTimeTickBuffer \<Rightarrow> i64" where
  "Reorder_Bytes r = rb_bytes r"

section \<open>Correctness over any heap that keeps the contract\<close>

abbreviation sizes :: "ImmutableMessage multiset \<Rightarrow> i64" where
  "sizes M \<equiv> \<Sum>m \<in># M. EstimateSize m"

definition ticks_sorted :: "ImmutableMessage list \<Rightarrow> bool" where
  "ticks_sorted ms \<longleftrightarrow> sorted (map TimeTick ms)"

text \<open>
  The invariant: the identifiers are those of the buffered messages, each once; the byte count is the
  sum of their sizes (modulo the width of \<open>int\<close>); none is older than the last confirmed time tick.
\<close>

definition buffer_ok :: "ImmutableMessage multiset \<Rightarrow> 'h ReOrderByTimeTickBuffer \<Rightarrow> bool" where
  "buffer_ok M r \<longleftrightarrow>
     messageIDs r = MessageID ` set_mset M \<and>
     size M = card (MessageID ` set_mset M) \<and>
     rb_bytes r = sizes M \<and>
     (\<forall>m \<in># M. lastPopTimeTick r \<le> TimeTick m)"

text \<open>Taking a message out of a buffer takes its identifier out.\<close>

lemma card_ids_le: "card (MessageID ` set_mset M) \<le> size M"
proof (induction M)
  case (add m M)
  then show ?case using card_insert_le_m1 [of "Suc (size M)" "MessageID ` set_mset M"]
    by (simp add: card_insert_if)
qed simp

lemma card_ids_remove:
  assumes "size (add_mset m M) = card (MessageID ` set_mset (add_mset m M))"
  shows "size M = card (MessageID ` set_mset M)" and "MessageID m \<notin> MessageID ` set_mset M"
  using assms card_ids_le [of M] by (auto simp: card_insert_if split: if_splits)

lemma buffer_ok_pop:
  assumes "buffer_ok (add_mset m M) r"
  shows "buffer_ok M (r\<lparr>rb_bytes := rb_bytes r - EstimateSize m,
    messageIDs := messageIDs r - {MessageID m}, messageHeap := h\<rparr>)"
proof -
  have c: "size (add_mset m M) = card (MessageID ` set_mset (add_mset m M))"
    using assms by (simp add: buffer_ok_def)
  from card_ids_remove [OF c] assms show ?thesis
    by (auto simp: buffer_ok_def)
qed

lemma buffer_ok_push:
  assumes "buffer_ok M r" and "\<not> TimeTick m < lastPopTimeTick r" and "MessageID m \<notin> messageIDs r"
  shows "buffer_ok (add_mset m M) (r\<lparr>messageHeap := h, messageIDs := insert (MessageID m) (messageIDs r),
    rb_bytes := rb_bytes r + EstimateSize m\<rparr>)"
  using assms by (auto simp: buffer_ok_def card_insert_if)

definition reorder_inv :: "('h \<Rightarrow> bool) \<Rightarrow> ('h \<Rightarrow> ImmutableMessage multiset) \<Rightarrow>
    'h ReOrderByTimeTickBuffer \<Rightarrow> bool" where
  "reorder_inv invar elems r \<longleftrightarrow>
     invar (messageHeap r) \<and> buffer_ok (elems (messageHeap r)) r"

context msg_heap
begin

lemma NewReOrderBuffer_inv: "reorder_inv invar elems (NewReOrderBuffer H)"
  by (simp add: reorder_inv_def buffer_ok_def NewReOrderBuffer_def invar_empty elems_empty)

lemma Push_cases:
  assumes inv: "reorder_inv invar elems r"
  shows "(\<exists>r'. Reorder_Push H m r = (Inr (), r') \<and> reorder_inv invar elems r' \<and>
      lastPopTimeTick r \<le> TimeTick m \<and> MessageID m \<notin> messageIDs r \<and>
      lastPopTimeTick r' = lastPopTimeTick r \<and>
      elems (messageHeap r') = add_mset m (elems (messageHeap r))) \<or>
    (\<exists>e. Reorder_Push H m r = (Inl e, r) \<and>
      (TimeTick m < lastPopTimeTick r \<or> MessageID m \<in> messageIDs r))"
proof (cases "TimeTick m < lastPopTimeTick r \<or> MessageID m \<in> messageIDs r")
  case True
  then show ?thesis by (auto simp: Reorder_Push_def)
next
  case False
  with inv show ?thesis
    by (auto simp: Reorder_Push_def reorder_inv_def invar_push elems_push intro: buffer_ok_push)
qed

text \<open>
  The loop pops exactly the confirmed messages, smallest time tick first, and the length of the heap
  is enough fuel.
\<close>

lemma pop_loop:
  assumes "reorder_inv invar elems r" and "size (elems (messageHeap r)) \<le> fuel"
  shows "\<exists>ps r'. PopUtilTimeTick_loop H fuel t r res = Some (Inr (res @ ps, r')) \<and>
    reorder_inv invar elems r' \<and> lastPopTimeTick r' = lastPopTimeTick r \<and>
    elems (messageHeap r) = mset ps + elems (messageHeap r') \<and> ticks_sorted ps \<and>
    (\<forall>m \<in> set ps. TimeTick m \<le> t) \<and> (\<forall>m \<in># elems (messageHeap r'). t < TimeTick m)"
  using assms
proof (induction fuel arbitrary: r res)
  case 0
  then have "elems (messageHeap r) = {#}" by simp
  with 0 show ?case
    by (subst PopUtilTimeTick_loop.simps)
      (auto simp: reorder_inv_def len_elems ticks_sorted_def)
next
  case (Suc fuel)
  let ?h = "messageHeap r"
  have hi: "invar ?h" and ok: "buffer_ok (elems ?h) r"
    using Suc.prems by (auto simp: reorder_inv_def)
  show ?case
  proof (cases "elems ?h = {#}")
    case True
    with Suc.prems hi show ?thesis
      by (subst PopUtilTimeTick_loop.simps) (auto simp: len_elems ticks_sorted_def)
  next
    case False
    with hi obtain m where m: "hp_peek H ?h = Inr m" "m \<in># elems ?h"
      "\<forall>x \<in># elems ?h. TimeTick m \<le> TimeTick x" using peek_min by blast
    have len: "hp_len H ?h \<noteq> 0" using False hi by (simp add: len_elems)
    show ?thesis
    proof (cases "t < TimeTick m")
      case True
      then have "PopUtilTimeTick_loop H (Suc fuel) t r res = Some (Inr (res, r))"
        using len m(1) by (subst PopUtilTimeTick_loop.simps) simp
      moreover have "\<forall>x \<in># elems ?h. t < TimeTick x"
        using m(3) True by (auto intro: less_le_trans)
      ultimately show ?thesis
        using Suc.prems(1) by (intro exI [of _ "[]"] exI [of _ r]) (simp add: ticks_sorted_def)
    next
      case t: False
      from pop_peek [OF hi m(1) False] obtain h' where h': "hp_pop H ?h = Inr (m, h')"
        "invar h'" "elems ?h = add_mset m (elems h')" by blast
      let ?r = "r\<lparr>rb_bytes := rb_bytes r - EstimateSize m,
        messageIDs := messageIDs r - {MessageID m}, messageHeap := h'\<rparr>"
      have inv': "reorder_inv invar elems ?r"
        using ok h' buffer_ok_pop [of m "elems h'" r] by (simp add: reorder_inv_def)
      have "size (elems (messageHeap ?r)) \<le> fuel" using Suc.prems(2) h'(3) by simp
      from Suc.IH [OF inv' this, of "res @ [m]"] obtain ps r' where
        IH: "PopUtilTimeTick_loop H fuel t ?r (res @ [m]) = Some (Inr (res @ m # ps, r'))"
          "reorder_inv invar elems r'" "lastPopTimeTick r' = lastPopTimeTick r"
          "elems h' = mset ps + elems (messageHeap r')" "ticks_sorted ps"
          "\<forall>m \<in> set ps. TimeTick m \<le> t" "\<forall>m \<in># elems (messageHeap r'). t < TimeTick m"
        by auto
      have "PopUtilTimeTick_loop H (Suc fuel) t r res =
          PopUtilTimeTick_loop H fuel t ?r (res @ [m])"
        using len m(1) t h'(1) by (subst PopUtilTimeTick_loop.simps) (simp add: Let_def)
      moreover have "ticks_sorted (m # ps)"
        using IH(4,5) m(3) h'(3) by (auto simp: ticks_sorted_def)
      ultimately show ?thesis
        using IH h'(3) t by (intro exI [of _ "m # ps"] exI [of _ r']) auto
    qed
  qed
qed

lemma Pop_correct:
  assumes inv: "reorder_inv invar elems r"
  shows "\<exists>ps r'. PopUtilTimeTick H t r = Some (Inr (ps, r')) \<and> reorder_inv invar elems r' \<and>
    ticks_sorted ps \<and> lastPopTimeTick r' = t \<and>
    mset ps = filter_mset (\<lambda>m. TimeTick m \<le> t) (elems (messageHeap r)) \<and>
    elems (messageHeap r') = filter_mset (\<lambda>m. t < TimeTick m) (elems (messageHeap r))"
proof -
  have "size (elems (messageHeap r)) \<le> hp_len H (messageHeap r)"
    using inv by (simp add: reorder_inv_def len_elems)
  from pop_loop [OF inv this, of t "[]"] obtain ps r' where
    p: "PopUtilTimeTick_loop H (hp_len H (messageHeap r)) t r [] = Some (Inr (ps, r'))"
      "reorder_inv invar elems r'" "elems (messageHeap r) = mset ps + elems (messageHeap r')"
      "ticks_sorted ps" "\<forall>m \<in> set ps. TimeTick m \<le> t"
      "\<forall>m \<in># elems (messageHeap r'). t < TimeTick m"
    by auto
  have "filter_mset (\<lambda>m. TimeTick m \<le> t) (elems (messageHeap r')) = {#}"
    using p(6) by (auto simp: filter_mset_eq_mempty_iff)
  moreover have "filter_mset (\<lambda>m. TimeTick m \<le> t) (mset ps) = mset ps"
    using p(5) by (simp add: filter_mset_eq_conv)
  moreover have "filter_mset (\<lambda>m. t < TimeTick m) (mset ps) = {#}"
    using p(5) by (auto simp: filter_mset_eq_mempty_iff)
  moreover have "filter_mset (\<lambda>m. t < TimeTick m) (elems (messageHeap r')) = elems (messageHeap r')"
    using p(6) by (simp add: filter_mset_eq_conv)
  moreover have "reorder_inv invar elems (r'\<lparr>lastPopTimeTick := t\<rparr>)"
    using p(2,6) by (auto simp: reorder_inv_def buffer_ok_def)
  ultimately show ?thesis
    using p by (intro exI [of _ ps] exI [of _ "r'\<lparr>lastPopTimeTick := t\<rparr>"])
      (simp add: PopUtilTimeTick_def)
qed

end

section \<open>Runs of the buffer\<close>

text \<open>
  A run interleaves pushes and pops in any order. It yields the messages popped, in order, and the
  messages accepted by \<open>Push\<close>.
\<close>

datatype reorder_op = OpPush ImmutableMessage | OpPop u64

fun reorder_run :: "'h heap_ops \<Rightarrow> reorder_op list \<Rightarrow> 'h ReOrderByTimeTickBuffer \<Rightarrow>
    (ImmutableMessage list \<times> ImmutableMessage list \<times> 'h ReOrderByTimeTickBuffer) option" where
  "reorder_run H [] r = Some ([], [], r)"
| "reorder_run H (OpPush m # ops) r =
     (case Reorder_Push H m r of
        (Inl e, r') \<Rightarrow> reorder_run H ops r'
      | (Inr _, r') \<Rightarrow>
          map_option (\<lambda>(out, acc, r''). (out, m # acc, r'')) (reorder_run H ops r'))"
| "reorder_run H (OpPop t # ops) r =
     (case PopUtilTimeTick H t r of
        Some (Inr (ps, r')) \<Rightarrow>
          map_option (\<lambda>(out, acc, r''). (ps @ out, acc, r'')) (reorder_run H ops r')
      | _ \<Rightarrow> None)"

fun pop_ticks :: "reorder_op list \<Rightarrow> u64 list" where
  "pop_ticks [] = []"
| "pop_ticks (OpPush m # ops) = pop_ticks ops"
| "pop_ticks (OpPop t # ops) = t # pop_ticks ops"

context msg_heap
begin

lemma run_correct:
  assumes "reorder_inv invar elems r" and "sorted (lastPopTimeTick r # pop_ticks ops)"
  shows "\<exists>out acc r'. reorder_run H ops r = Some (out, acc, r') \<and> reorder_inv invar elems r' \<and>
    ticks_sorted out \<and> (\<forall>m \<in> set out. lastPopTimeTick r \<le> TimeTick m) \<and>
    mset out + elems (messageHeap r') = elems (messageHeap r) + mset acc"
  using assms
proof (induction ops arbitrary: r)
  case Nil
  then show ?case by (simp add: ticks_sorted_def)
next
  case (Cons op ops)
  show ?case
  proof (cases op)
    case (OpPush m)
    from Push_cases [OF Cons.prems(1), of m] show ?thesis
    proof (elim disjE exE conjE)
      fix r' assume p: "Reorder_Push H m r = (Inr (), r')" "reorder_inv invar elems r'"
        "lastPopTimeTick r' = lastPopTimeTick r"
        "elems (messageHeap r') = add_mset m (elems (messageHeap r))"
      have "sorted (lastPopTimeTick r' # pop_ticks ops)" using Cons.prems(2) OpPush p(3) by simp
      from Cons.IH [OF p(2) this] p OpPush show ?thesis by fastforce
    qed (use Cons OpPush in simp_all)
  next
    case (OpPop t)
    from Pop_correct [OF Cons.prems(1), of t] obtain ps r' where
      p: "PopUtilTimeTick H t r = Some (Inr (ps, r'))" "reorder_inv invar elems r'"
        "ticks_sorted ps" "lastPopTimeTick r' = t"
        "mset ps = filter_mset (\<lambda>m. TimeTick m \<le> t) (elems (messageHeap r))"
        "elems (messageHeap r') = filter_mset (\<lambda>m. t < TimeTick m) (elems (messageHeap r))"
      by blast
    have "sorted (lastPopTimeTick r' # pop_ticks ops)" using Cons.prems(2) OpPop p(4) by simp
    from Cons.IH [OF p(2) this] obtain out acc r'' where
      q: "reorder_run H ops r' = Some (out, acc, r'')" "reorder_inv invar elems r''"
        "ticks_sorted out" "\<forall>m \<in> set out. t \<le> TimeTick m"
        "mset out + elems (messageHeap r'') = elems (messageHeap r') + mset acc"
      using p(4) by auto
    have "set ps = {m. m \<in># elems (messageHeap r) \<and> TimeTick m \<le> t}"
      using arg_cong [OF p(5), of set_mset] by simp
    then have set_ps: "\<forall>m \<in> set ps. m \<in># elems (messageHeap r) \<and> TimeTick m \<le> t" by blast
    have part: "elems (messageHeap r) = mset ps + elems (messageHeap r')"
      using p(5,6) multiset_partition [of "elems (messageHeap r)" "\<lambda>m. TimeTick m \<le> t"]
      by (simp add: not_le)
    have "ticks_sorted (ps @ out)"
      using p(3) q(3,4) set_ps by (fastforce simp: ticks_sorted_def sorted_append)
    moreover have "\<forall>m \<in> set (ps @ out). lastPopTimeTick r \<le> TimeTick m"
      using set_ps q(4) Cons.prems OpPop by (auto simp: reorder_inv_def buffer_ok_def)
    moreover have "mset (ps @ out) + elems (messageHeap r'') = elems (messageHeap r) + mset acc"
      using part q(5) by (simp add: ac_simps)
    ultimately show ?thesis
      using p(1) q(1,2) OpPop by (intro exI [of _ "ps @ out"] exI [of _ acc] exI [of _ r'']) simp
  qed
qed

end

section \<open>Properties\<close>

text \<open>
  Property C6. On a buffer built from \<open>container/heap\<close>, \<open>PopUtilTimeTick(t)\<close> always ends, never
  panics, returns exactly the buffered messages with a time tick of at most \<open>t\<close>, in ascending order
  of their time ticks, keeps exactly the others, and preserves the invariant of the buffer (the
  identifier set and the byte count match the buffered messages).
\<close>

theorem PopUtilTimeTick_correct:
  assumes "reorder_inv (\<lambda>h. heap_ordered h (length h)) mset r"
  shows "\<exists>ps r'. PopUtilTimeTick go_heap_ops t r = Some (Inr (ps, r')) \<and>
    reorder_inv (\<lambda>h. heap_ordered h (length h)) mset r' \<and> ticks_sorted ps \<and>
    lastPopTimeTick r' = t \<and>
    mset ps = filter_mset (\<lambda>m. TimeTick m \<le> t) (mset (messageHeap r)) \<and>
    mset (messageHeap r') = filter_mset (\<lambda>m. t < TimeTick m) (mset (messageHeap r))"
  using assms by (rule go_heap.Pop_correct)

definition example_msg :: "string \<Rightarrow> u64 \<Rightarrow> ImmutableMessage" where
  "example_msg ident t = \<lparr>TimeTick = t, MessageID = ident, EstimateSize = 10, TxnContext = None,
     MsgType = MessageTypeOther 1, VChannel = [], IsPersisted = False\<rparr>"

theorem PopUtilTimeTick_correct_witness:
  "\<exists>ps r'. PopUtilTimeTick go_heap_ops 5
      (snd (Reorder_Push go_heap_ops (example_msg ''a'' 3) (NewReOrderBuffer go_heap_ops))) =
        Some (Inr (ps, r')) \<and>
    ticks_sorted ps \<and> lastPopTimeTick r' = 5 \<and> mset ps = {#example_msg ''a'' 3#}"
proof -
  let ?r = "snd (Reorder_Push go_heap_ops (example_msg ''a'' 3) (NewReOrderBuffer go_heap_ops))"
  have r: "?r = \<lparr>messageIDs = {''a''}, messageHeap = [example_msg ''a'' 3], lastPopTimeTick = 0,
      rb_bytes = 10\<rparr>"
    by (simp add: Reorder_Push_def NewReOrderBuffer_def go_heap_ops_def container_Push_def
        heap_Push_def heap_Len_def heap_up.simps example_msg_def)
  have "reorder_inv (\<lambda>h. heap_ordered h (length h)) mset ?r"
    unfolding r by (simp add: reorder_inv_def buffer_ok_def heap_ordered_def example_msg_def)
  from PopUtilTimeTick_correct [OF this, of 5] show ?thesis
    unfolding r by (auto simp: example_msg_def)
qed

text \<open>
  Property C5. Over any interleaving of pushes and pops whose pop ticks ascend, the messages that
  leave the buffer are in ascending time-tick order across all pops; together with the messages still
  buffered they are exactly the messages \<open>Push\<close> accepted: none is lost, none is delivered twice.
\<close>

theorem reorder_run_sorted:
  assumes "sorted (pop_ticks ops)"
  shows "\<exists>out acc r'. reorder_run go_heap_ops ops (NewReOrderBuffer go_heap_ops) = Some (out, acc, r') \<and>
    ticks_sorted out \<and> mset out + mset (messageHeap r') = mset acc"
proof -
  have "sorted (lastPopTimeTick (NewReOrderBuffer go_heap_ops) # pop_ticks ops)"
    using assms by (simp add: NewReOrderBuffer_def)
  from go_heap.run_correct [OF go_heap.NewReOrderBuffer_inv this] show ?thesis
    by (auto simp: NewReOrderBuffer_def go_heap_ops_def)
qed

theorem reorder_run_sorted_witness:
  "\<exists>out acc r'. reorder_run go_heap_ops
      [OpPush (example_msg ''a'' 3), OpPush (example_msg ''b'' 1), OpPop 2, OpPop 4]
      (NewReOrderBuffer go_heap_ops) = Some (out, acc, r') \<and>
    ticks_sorted out \<and> mset out + mset (messageHeap r') = mset acc"
  using reorder_run_sorted
    [of "[OpPush (example_msg ''a'' 3), OpPush (example_msg ''b'' 1), OpPop 2, OpPop 4]"]
  by simp

end
