(* ===== verification/Wal_Txn.thy ===== *)
theory Wal_Txn
  imports Wal_Heap "HOL-Library.AList"
begin

text \<open>
  The transaction buffer of the log scanner (\<^verbatim>\<open>wal/utility/txn_buffer.go\<close>): it holds the messages of
  a transaction back until its commit arrives, drops them on a rollback or on expiry, and lets
  messages outside any transaction pass. The builder of a transaction message and the conversions
  \<open>AsImmutable...TxnMessageV2\<close> are code of another repository: they are the record \<open>txn_ops\<close>, an
  argument of every operation.
\<close>

section \<open>The code the buffer calls\<close>

record 'b txn_ops =
  tb_new :: "ImmutableMessage \<Rightarrow> 'b"
  tb_add :: "ImmutableMessage \<Rightarrow> 'b \<Rightarrow> 'b"
  tb_size :: "'b \<Rightarrow> i64"
  tb_expired :: "'b \<Rightarrow> u64"
  tb_build :: "ImmutableMessage \<Rightarrow> 'b \<Rightarrow> ImmutableMessage result"
  as_begin :: "ImmutableMessage \<Rightarrow> ImmutableMessage result"
  as_commit :: "ImmutableMessage \<Rightarrow> ImmutableMessage result"
  as_rollback :: "ImmutableMessage \<Rightarrow> ImmutableMessage result"

text \<open>
  What the buffer relies on. \<open>builder_ok\<close>: a builder's estimated size is that of its messages.
  \<open>conv_ok\<close>: a conversion of a message of the right type succeeds and is a view of that message.
\<close>

definition builder_ok :: "'b txn_ops \<Rightarrow> bool" where
  "builder_ok B \<longleftrightarrow>
     (\<forall>m. tb_size B (tb_new B m) = EstimateSize m) \<and>
     (\<forall>m b. tb_size B (tb_add B m b) = tb_size B b + EstimateSize m)"

definition conv_ok :: "'b txn_ops \<Rightarrow> bool" where
  "conv_ok B \<longleftrightarrow>
     (\<forall>m. MsgType m = MessageTypeBeginTxn \<longrightarrow> as_begin B m = Inr m) \<and>
     (\<forall>m. MsgType m = MessageTypeCommitTxn \<longrightarrow> as_commit B m = Inr m) \<and>
     (\<forall>m. MsgType m = MessageTypeRollbackTxn \<longrightarrow> as_rollback B m = Inr m)"

section \<open>The buffer\<close>

text \<open>The Go map of builders is an association list whose order is the (unspecified) iteration order.\<close>

record 'b TxnBuffer =
  builders :: "(TxnID \<times> 'b) list"
  tx_bytes :: i64

definition NewTxnBuffer :: "'b TxnBuffer" where
  "NewTxnBuffer = \<lparr>builders = [], tx_bytes = 0\<rparr>"

definition TxnBuffer_Bytes :: "'b TxnBuffer \<Rightarrow> i64" where
  "TxnBuffer_Bytes b = tx_bytes b"

definition GetUncommittedMessageBuilder :: "'b TxnBuffer \<Rightarrow> (TxnID \<times> 'b) list" where
  "GetUncommittedMessageBuilder b = builders b"

text \<open>
  When a conversion fails, the log statement reads the transaction of the nil result, which panics;
  so does reading the transaction of a message that has none.
\<close>

definition nil_panic :: go_error where
  "nil_panic = Panic ''invalid memory address or nil pointer dereference''"

definition handleBeginTxn :: "'b txn_ops \<Rightarrow> ImmutableMessage \<Rightarrow> ('b TxnBuffer, unit) go" where
  "handleBeginTxn B msg b =
     (case as_begin B msg of
        Inl e \<Rightarrow> (Inl nil_panic, b)
      | Inr beginMsg \<Rightarrow>
          (case TxnContext beginMsg of
             None \<Rightarrow> (Inl nil_panic, b)
           | Some t \<Rightarrow>
               (case map_of (builders b) t of
                  Some _ \<Rightarrow> (Inr (), b)
                | None \<Rightarrow>
                    (Inr (), b\<lparr>builders := AList.update t (tb_new B beginMsg) (builders b),
                               tx_bytes := tx_bytes b + EstimateSize beginMsg\<rparr>))))"

definition handleCommitTxn ::
    "'b txn_ops \<Rightarrow> ImmutableMessage \<Rightarrow> ('b TxnBuffer, ImmutableMessage option) go" where
  "handleCommitTxn B msg b =
     (case as_commit B msg of
        Inl e \<Rightarrow> (Inl nil_panic, b)
      | Inr commitMsg \<Rightarrow>
          (case TxnContext commitMsg of
             None \<Rightarrow> (Inl nil_panic, b)
           | Some t \<Rightarrow>
               (case map_of (builders b) t of
                  None \<Rightarrow> (Inr None, b)
                | Some builder \<Rightarrow>
                    let b1 = b\<lparr>tx_bytes := tx_bytes b - tb_size B builder\<rparr>;
                        built = tb_build B commitMsg builder;
                        b2 = b1\<lparr>builders := AList.delete t (builders b1)\<rparr>
                    in (case built of
                          Inl e \<Rightarrow> (Inr None, b2)
                        | Inr txnMsg \<Rightarrow> (Inr (Some txnMsg), b2)))))"

definition handleRollbackTxn :: "'b txn_ops \<Rightarrow> ImmutableMessage \<Rightarrow> ('b TxnBuffer, unit) go" where
  "handleRollbackTxn B msg b =
     (case as_rollback B msg of
        Inl e \<Rightarrow> (Inl nil_panic, b)
      | Inr rollbackMsg \<Rightarrow>
          (case TxnContext rollbackMsg of
             None \<Rightarrow> (Inl nil_panic, b)
           | Some t \<Rightarrow>
               (case map_of (builders b) t of
                  None \<Rightarrow> (Inr (), b)
                | Some builder \<Rightarrow>
                    (Inr (), b\<lparr>builders := AList.delete t (builders b),
                               tx_bytes := tx_bytes b - tb_size B builder\<rparr>))))"

definition handleTxnBodyMessage :: "'b txn_ops \<Rightarrow> ImmutableMessage \<Rightarrow> ('b TxnBuffer, unit) go" where
  "handleTxnBodyMessage B msg b =
     (case TxnContext msg of
        None \<Rightarrow> (Inl nil_panic, b)
      | Some t \<Rightarrow>
          (case map_of (builders b) t of
             None \<Rightarrow> (Inr (), b)
           | Some builder \<Rightarrow>
               (Inr (), b\<lparr>builders := AList.update t (tb_add B msg builder) (builders b),
                          tx_bytes := tx_bytes b + EstimateSize msg\<rparr>)))"

text \<open>The range loop deletes from the map it iterates over, which Go allows.\<close>

definition clearExpiredTxn :: "'b txn_ops \<Rightarrow> u64 \<Rightarrow> 'b TxnBuffer \<Rightarrow> 'b TxnBuffer" where
  "clearExpiredTxn B ts b =
     fold (\<lambda>(txnID, builder) b.
       if tb_expired B builder \<le> ts
       then b\<lparr>builders := AList.delete txnID (builders b), tx_bytes := tx_bytes b - tb_size B builder\<rparr>
       else b) (builders b) b"

text \<open>The body of the loop of \<open>HandleImmutableMessages\<close>: the messages it appends to the result.\<close>

definition handle_one :: "'b txn_ops \<Rightarrow> ImmutableMessage \<Rightarrow> ('b TxnBuffer, ImmutableMessage list) go"
  where
  "handle_one B msg =
     (if TxnContext msg = None then go_return [msg]
      else
        (case MsgType msg of
           MessageTypeBeginTxn \<Rightarrow> go_bind (handleBeginTxn B msg) (\<lambda>_. go_return [])
         | MessageTypeCommitTxn \<Rightarrow>
             go_bind (handleCommitTxn B msg) (\<lambda>newTxnMsg.
               go_return (case newTxnMsg of None \<Rightarrow> [] | Some m \<Rightarrow> [m]))
         | MessageTypeRollbackTxn \<Rightarrow> go_bind (handleRollbackTxn B msg) (\<lambda>_. go_return [])
         | _ \<Rightarrow> go_bind (handleTxnBodyMessage B msg) (\<lambda>_. go_return [])))"

fun handle_loop :: "'b txn_ops \<Rightarrow> ImmutableMessage list \<Rightarrow> ('b TxnBuffer, ImmutableMessage list) go"
  where
  "handle_loop B [] = go_return []"
| "handle_loop B (msg # msgs) =
     go_bind (handle_one B msg) (\<lambda>out. go_bind (handle_loop B msgs) (\<lambda>outs. go_return (out @ outs)))"

definition HandleImmutableMessages ::
    "'b txn_ops \<Rightarrow> ImmutableMessage list \<Rightarrow> u64 \<Rightarrow> ('b TxnBuffer, ImmutableMessage list) go" where
  "HandleImmutableMessages B msgs ts b =
     (case handle_loop B msgs b of
        (Inl e, b') \<Rightarrow> (Inl e, b')
      | (Inr result, b') \<Rightarrow> (Inr result, clearExpiredTxn B ts b'))"

section \<open>Byte accounting\<close>

definition total :: "'b txn_ops \<Rightarrow> (TxnID \<times> 'b) list \<Rightarrow> i64" where
  "total B bs = (\<Sum>(t, b) \<leftarrow> bs. tb_size B b)"

definition txn_inv :: "'b txn_ops \<Rightarrow> 'b TxnBuffer \<Rightarrow> bool" where
  "txn_inv B b \<longleftrightarrow> distinct (map fst (builders b)) \<and> tx_bytes b = total B (builders b)"

lemma total_simps [simp]:
  "total B [] = 0"
  "total B ((t, b) # bs) = tb_size B b + total B bs"
  by (simp_all add: total_def)

lemma delete_absent: "t \<notin> fst ` set bs \<Longrightarrow> AList.delete t bs = bs"
  by (induction bs) (auto simp: AList.delete_eq)

lemma total_delete:
  "distinct (map fst bs) \<Longrightarrow> map_of bs t = Some b \<Longrightarrow> total B (AList.delete t bs) = total B bs - tb_size B b"
proof (induction bs)
  case (Cons x bs)
  then show ?case by (cases x) (auto simp: delete_absent)
qed simp

lemma total_update_new:
  "map_of bs t = None \<Longrightarrow> total B (AList.update t b bs) = total B bs + tb_size B b"
proof (induction bs)
  case (Cons x bs)
  then show ?case by (cases x) (auto split: if_splits)
qed simp

lemma total_update_old:
  "map_of bs t = Some b \<Longrightarrow>
   total B (AList.update t b' bs) = total B bs - tb_size B b + tb_size B b'"
proof (induction bs)
  case (Cons x bs)
  then show ?case by (cases x) (auto split: if_splits)
qed simp

lemmas handler_defs =
  handleBeginTxn_def handleCommitTxn_def handleRollbackTxn_def handleTxnBodyMessage_def

lemma handle_one_inv:
  assumes B: "builder_ok B" and inv: "txn_inv B b" and h: "handle_one B msg b = (Inr out, b')"
  shows "txn_inv B b'"
  using h inv B
  by (auto simp: handle_one_def handler_defs go_bind_def txn_inv_def builder_ok_def Let_def
      total_delete total_update_new total_update_old distinct_update distinct_delete
      split: if_splits MessageType.splits sum.splits option.splits prod.splits)

lemma handle_loop_inv:
  assumes "builder_ok B" and "txn_inv B b" and "handle_loop B msgs b = (Inr out, b')"
  shows "txn_inv B b'"
  using assms(2,3)
proof (induction msgs arbitrary: b out)
  case Nil
  then show ?case by simp
next
  case (Cons msg msgs)
  then obtain o1 b1 o2 where "handle_one B msg b = (Inr o1, b1)" "handle_loop B msgs b1 = (Inr o2, b')"
    by (auto simp: go_bind_Inr_iff)
  with Cons assms(1) show ?case using handle_one_inv by blast
qed

text \<open>Expiry removes exactly the expired builders, in whatever order the map is walked.\<close>

lemma clearExpired_fold:
  assumes "distinct (map fst bs)" and "distinct (map fst (xs @ bs))"
    and "\<forall>(t, b) \<in> set xs. ts < tb_expired B b"
    and "builders s = xs @ bs" and "tx_bytes s = total B (builders s)"
  shows "fold (\<lambda>(txnID, builder) b.
       if tb_expired B builder \<le> ts
       then b\<lparr>builders := AList.delete txnID (builders b), tx_bytes := tx_bytes b - tb_size B builder\<rparr>
       else b) bs s =
     s\<lparr>builders := xs @ filter (\<lambda>(t, b). ts < tb_expired B b) bs,
       tx_bytes := total B (xs @ filter (\<lambda>(t, b). ts < tb_expired B b) bs)\<rparr>"
  using assms
proof (induction bs arbitrary: xs s)
  case Nil
  then show ?case by simp
next
  case (Cons x bs)
  obtain t c where x: "x = (t, c)" by force
  show ?case
  proof (cases "tb_expired B c \<le> ts")
    case True
    have del: "AList.delete t (builders s) = xs @ bs"
      using Cons.prems(2,4) x delete_absent [of t xs] delete_absent [of t bs]
      by (auto simp: AList.delete_eq)
    have "map_of (builders s) t = Some c"
      using Cons.prems(2,4) x map_of_eq_Some_iff [of "builders s" t c] by simp
    then have "tx_bytes s - tb_size B c = total B (xs @ bs)"
      using total_delete [of "builders s" t c B] Cons.prems(2,4,5) x del by simp
    with del True x Cons.prems Cons.IH [of xs "s\<lparr>builders := xs @ bs, tx_bytes := total B (xs @ bs)\<rparr>"]
    show ?thesis by simp
  next
    case False
    with x Cons.prems Cons.IH [of "xs @ [x]" s] show ?thesis by (simp add: not_le)
  qed
qed

lemma clearExpiredTxn_eq:
  assumes "txn_inv B b"
  shows "clearExpiredTxn B ts b =
    b\<lparr>builders := filter (\<lambda>(t, c). ts < tb_expired B c) (builders b),
      tx_bytes := total B (filter (\<lambda>(t, c). ts < tb_expired B c) (builders b))\<rparr>"
  using clearExpired_fold [of "builders b" "[]" ts B b] assms
  by (simp add: clearExpiredTxn_def txn_inv_def)

text \<open>
  Property C7. Handling a batch keeps the buffer consistent and expires by time tick: one builder
  per transaction, the byte count equal to the sum of the builders' sizes (modulo the 64 bits of the
  counter), and no builder left whose transaction expired at or before the batch's time tick, while
  every other builder of the batch's end state survives.
\<close>

theorem HandleImmutableMessages_inv:
  assumes "builder_ok B" and "txn_inv B b"
    and "HandleImmutableMessages B msgs ts b = (Inr out, b')"
  shows "txn_inv B b' \<and> (\<forall>(t, c) \<in> set (builders b'). ts < tb_expired B c) \<and>
    (\<exists>b1. handle_loop B msgs b = (Inr out, b1) \<and>
      (\<forall>t c. map_of (builders b') t = Some c \<longleftrightarrow>
        map_of (builders b1) t = Some c \<and> ts < tb_expired B c))"
proof -
  obtain b1 where b1: "handle_loop B msgs b = (Inr out, b1)" and b': "b' = clearExpiredTxn B ts b1"
    using assms(3) by (auto simp: HandleImmutableMessages_def split: prod.splits sum.splits)
  have inv1: "txn_inv B b1" using assms(1,2) b1 by (rule handle_loop_inv)
  have eq: "builders b' = filter (\<lambda>(t, c). ts < tb_expired B c) (builders b1)"
    and "tx_bytes b' = total B (builders b')"
    using b' inv1 by (simp_all add: clearExpiredTxn_eq)
  moreover have d: "distinct (map fst (builders b'))"
    using inv1 by (simp add: eq txn_inv_def distinct_map_filter)
  ultimately have "txn_inv B b'" by (simp add: txn_inv_def)
  moreover have "\<forall>(t, c) \<in> set (builders b'). ts < tb_expired B c" by (auto simp: eq)
  moreover have "map_of (builders b') t = Some c \<longleftrightarrow>
      map_of (builders b1) t = Some c \<and> ts < tb_expired B c" for t c
    using inv1 d by (auto simp: map_of_eq_Some_iff eq txn_inv_def)
  ultimately show ?thesis using b1 by blast
qed

section \<open>Atomic delivery\<close>

text \<open>The state of the other transactions, and what the messages of one transaction do to it.\<close>

definition is_body :: "ImmutableMessage \<Rightarrow> bool" where
  "is_body m \<longleftrightarrow> MsgType m \<noteq> MessageTypeBeginTxn \<and> MsgType m \<noteq> MessageTypeCommitTxn \<and>
     MsgType m \<noteq> MessageTypeRollbackTxn"

definition others :: "TxnID \<Rightarrow> ImmutableMessage list \<Rightarrow> ImmutableMessage list" where
  "others t us = filter (\<lambda>m. TxnContext m \<noteq> Some t) us"

definition bodies :: "TxnID \<Rightarrow> ImmutableMessage list \<Rightarrow> ImmutableMessage list" where
  "bodies t us = filter (\<lambda>m. TxnContext m = Some t) us"

lemma delete_update_other: "k \<noteq> t \<Longrightarrow>
   AList.delete t (AList.update k v xs) = AList.update k v (AList.delete t xs)"
  by (induction xs) (auto simp: AList.delete_eq)

lemma delete_update_same: "AList.delete t (AList.update t v xs) = AList.delete t xs"
  by (induction xs) (auto simp: AList.delete_eq)

lemma delete_swap: "AList.delete t (AList.delete k xs) = AList.delete k (AList.delete t xs)"
  by (simp add: AList.delete_eq conj_commute)

lemma handle_one_other:
  assumes "conv_ok B" and "TxnContext m \<noteq> Some t" and "builders c = AList.delete t (builders b)"
  shows "\<exists>o1 b' c'. handle_one B m b = (Inr o1, b') \<and> handle_one B m c = (Inr o1, c') \<and>
    builders c' = AList.delete t (builders b') \<and>
    map_of (builders b') t = map_of (builders b) t"
proof (cases "TxnContext m")
  case None
  with assms show ?thesis by (simp add: handle_one_def)
next
  case (Some k)
  then have k: "k \<noteq> t" using assms(2) by auto
  then have look: "map_of (AList.delete t (builders b)) k = map_of (builders b) k"
    by (simp add: AList.delete_conv')
  have conv: "MsgType m = MessageTypeBeginTxn \<Longrightarrow> as_begin B m = Inr m"
    "MsgType m = MessageTypeCommitTxn \<Longrightarrow> as_commit B m = Inr m"
    "MsgType m = MessageTypeRollbackTxn \<Longrightarrow> as_rollback B m = Inr m"
    using assms(1) by (auto simp: conv_ok_def)
  show ?thesis
  proof (cases "map_of (builders b) k")
    case None
    show ?thesis
      using Some k look conv assms(3) None
      by (cases "MsgType m")
        (simp_all add: handle_one_def handler_defs go_bind_def delete_update_other update_conv')
  next
    case (Some x)
    show ?thesis
      using \<open>TxnContext m = Some k\<close> k look conv assms(3) Some
      by (cases "MsgType m"; cases "tb_build B m x")
        (simp_all add: handle_one_def handler_defs go_bind_def Let_def delete_update_other
          update_conv' delete_conv' delete_swap)
  qed
qed

lemma handle_one_body:
  assumes "TxnContext m = Some t" and "is_body m"
  shows "\<exists>b'. handle_one B m b = (Inr [], b') \<and>
    AList.delete t (builders b') = AList.delete t (builders b) \<and>
    map_of (builders b') t = map_option (tb_add B m) (map_of (builders b) t)"
  using assms
  by (cases "MsgType m"; cases "map_of (builders b) t")
    (simp_all add: is_body_def handle_one_def handleTxnBodyMessage_def go_bind_def update_conv'
      delete_update_same)

lemma handle_loop_split:
  assumes "conv_ok B" and "\<forall>m \<in> set us. TxnContext m = Some t \<longrightarrow> is_body m"
    and "builders c = AList.delete t (builders b)"
  shows "\<exists>out b' c'. handle_loop B us b = (Inr out, b') \<and>
    handle_loop B (others t us) c = (Inr out, c') \<and>
    builders c' = AList.delete t (builders b') \<and>
    map_of (builders b') t = map_option (fold (tb_add B) (bodies t us)) (map_of (builders b) t)"
  using assms(2,3)
proof (induction us arbitrary: b c)
  case Nil
  then show ?case by (cases "map_of (builders b) t") (simp_all add: others_def bodies_def)
next
  case (Cons m us)
  show ?case
  proof (cases "TxnContext m = Some t")
    case True
    with Cons.prems(1) have "is_body m" by simp
    then obtain b1 where b1: "handle_one B m b = (Inr [], b1)"
      "AList.delete t (builders b1) = AList.delete t (builders b)"
      "map_of (builders b1) t = map_option (tb_add B m) (map_of (builders b) t)"
      using handle_one_body [OF True] by blast
    have "builders c = AList.delete t (builders b1)" using b1(2) Cons.prems(2) by simp
    from Cons.IH [OF _ this] Cons.prems(1) b1 True show ?thesis
      by (auto simp: go_bind_def others_def bodies_def option.map_comp comp_def)
  next
    case False
    obtain o1 b1 c1 where 1: "handle_one B m b = (Inr o1, b1)" "handle_one B m c = (Inr o1, c1)"
      "builders c1 = AList.delete t (builders b1)"
      "map_of (builders b1) t = map_of (builders b) t"
      using handle_one_other [OF assms(1) False Cons.prems(2)] by blast
    from Cons.IH [OF _ 1(3)] Cons.prems(1) 1 False show ?thesis
      by (fastforce simp: go_bind_def others_def bodies_def)
  qed
qed

lemma handle_loop_append:
  "handle_loop B (us @ vs) b =
     go_bind (handle_loop B us) (\<lambda>o1. go_bind (handle_loop B vs) (\<lambda>o2. go_return (o1 @ o2))) b"
proof (induction us arbitrary: b)
  case Nil
  then show ?case by (cases "handle_loop B vs b") (auto simp: go_bind_def split: sum.splits)
next
  case (Cons m us)
  then show ?case by (auto simp: go_bind_def split: prod.splits sum.splits)
qed

text \<open>The builders after expiry depend on the builders only.\<close>

lemma clearExpired_cong:
  assumes "builders b = builders c"
  shows "builders (clearExpiredTxn B ts b) = builders (clearExpiredTxn B ts c)"
proof -
  let ?f = "\<lambda>(txnID, builder) b.
       if tb_expired B builder \<le> ts
       then b\<lparr>builders := AList.delete txnID (builders b), tx_bytes := tx_bytes b - tb_size B builder\<rparr>
       else b"
  have step: "builders (?f x b) = builders (?f x c)" if "builders b = builders c"
    for x and b c :: "'a TxnBuffer"
    using that by (cases x) simp
  have "builders (fold ?f xs b) = builders (fold ?f xs c)" for xs
    using assms
  proof (induction xs arbitrary: b c)
    case (Cons x xs)
    from Cons.IH [OF step [OF Cons.prems, of x]] show ?case by simp
  qed simp
  then show ?thesis using assms by (simp add: clearExpiredTxn_def)
qed

text \<open>
  Property C1. Transactions are delivered atomically and in isolation. When a transaction's begin,
  its body messages interleaved with any other traffic, and its commit go through the buffer, the
  output is exactly the output the other traffic has on its own, followed by the one message the
  builder makes of the begin, the bodies in their order and the commit; when it ends with a rollback
  the output is the other traffic's alone. Either way the buffer holds the builders it would hold
  had the transaction never been sent.
\<close>

theorem txn_atomic_delivery:
  assumes "conv_ok B"
    and "MsgType bg = MessageTypeBeginTxn" and "TxnContext bg = Some t"
    and "MsgType cm = MessageTypeCommitTxn" and "TxnContext cm = Some t"
    and "MsgType rb = MessageTypeRollbackTxn" and "TxnContext rb = Some t"
    and "\<forall>m \<in> set us. TxnContext m = Some t \<longrightarrow> is_body m"
    and "map_of (builders b) t = None"
    and "tb_build B cm (fold (tb_add B) (bodies t us) (tb_new B bg)) = Inr x"
  shows "\<exists>out c b1 b2.
    HandleImmutableMessages B (others t us) ts b = (Inr out, c) \<and>
    HandleImmutableMessages B (bg # us @ [cm]) ts b = (Inr (out @ [x]), b1) \<and>
    HandleImmutableMessages B (bg # us @ [rb]) ts b = (Inr out, b2) \<and>
    builders b1 = builders c \<and> builders b2 = builders c"
proof -
  have conv: "as_begin B bg = Inr bg" "as_commit B cm = Inr cm" "as_rollback B rb = Inr rb"
    using assms(1,2,4,6) by (simp_all add: conv_ok_def)
  define b0 where "b0 = b\<lparr>builders := AList.update t (tb_new B bg) (builders b),
    tx_bytes := tx_bytes b + EstimateSize bg\<rparr>"
  have bgn: "handle_one B bg b = (Inr [], b0)"
    using assms(2,3,9) conv by (simp add: handle_one_def handleBeginTxn_def go_bind_def b0_def)
  have "builders b = AList.delete t (builders b0)"
    using assms(9) by (simp add: b0_def delete_update_same delete_absent map_of_eq_None_iff)
  moreover have "map_of (builders b0) t = Some (tb_new B bg)"
    by (simp add: b0_def update_conv')
  ultimately obtain out b' c' where loop: "handle_loop B us b0 = (Inr out, b')"
    "handle_loop B (others t us) b = (Inr out, c')" "builders c' = AList.delete t (builders b')"
    "map_of (builders b') t = Some (fold (tb_add B) (bodies t us) (tb_new B bg))"
    using handle_loop_split [OF assms(1,8), of b b0] by (metis option.simps(9))
  define e1 where "e1 = snd (handle_one B cm b')"
  define e2 where "e2 = snd (handle_one B rb b')"
  have e1: "handle_one B cm b' = (Inr [x], e1)" "builders e1 = builders c'"
    using assms(4,5,10) conv loop(3,4)
    by (simp_all add: handle_one_def handleCommitTxn_def go_bind_def Let_def e1_def)
  have e2: "handle_one B rb b' = (Inr [], e2)" "builders e2 = builders c'"
    using assms(6,7) conv loop(3,4)
    by (simp_all add: handle_one_def handleRollbackTxn_def go_bind_def e2_def)
  have "handle_loop B (bg # us @ [cm]) b = (Inr (out @ [x]), e1)"
    "handle_loop B (bg # us @ [rb]) b = (Inr out, e2)"
    using bgn loop(1) e1 e2 by (simp_all add: handle_loop_append go_bind_def)
  then show ?thesis
    using loop(2) clearExpired_cong [OF e1(2)] clearExpired_cong [OF e2(2)]
    by (simp add: HandleImmutableMessages_def)
qed

text \<open>
  A builder that satisfies the contracts: it keeps its messages, adds up their sizes, expires at the
  time tick of its begin message plus 100, and builds a message at the commit's place.
\<close>

definition list_builder :: "ImmutableMessage list txn_ops" where
  "list_builder = \<lparr>tb_new = (\<lambda>m. [m]), tb_add = (\<lambda>m b. b @ [m]),
     tb_size = (\<lambda>b. sum_list (map EstimateSize b)), tb_expired = (\<lambda>b. TimeTick (hd b) + 100),
     tb_build = (\<lambda>m b. Inr (m\<lparr>EstimateSize := sum_list (map EstimateSize b)\<rparr>)),
     as_begin = Inr, as_commit = Inr, as_rollback = Inr\<rparr>"

definition txn_msg :: "u64 \<Rightarrow> MessageType \<Rightarrow> TxnID option \<Rightarrow> ImmutableMessage" where
  "txn_msg tt ty t = \<lparr>TimeTick = tt, MessageID = ''m'', EstimateSize = 8, TxnContext = t,
     MsgType = ty, VChannel = ''v'', IsPersisted = True\<rparr>"

lemma list_builder_ok: "builder_ok list_builder" "conv_ok list_builder"
  by (simp_all add: builder_ok_def conv_ok_def list_builder_def)

definition txn_traffic :: "ImmutableMessage list" where
  "txn_traffic = [txn_msg 11 (MessageTypeOther 1) (Some 7), txn_msg 12 (MessageTypeOther 1) None,
     txn_msg 13 (MessageTypeOther 1) (Some 7)]"

theorem HandleImmutableMessages_inv_witness:
  "HandleImmutableMessages list_builder (txn_msg 10 MessageTypeBeginTxn (Some 7) # txn_traffic) 20 NewTxnBuffer
     = (Inr [txn_msg 12 (MessageTypeOther 1) None],
        \<lparr>builders = [(7, [txn_msg 10 MessageTypeBeginTxn (Some 7), txn_msg 11 (MessageTypeOther 1) (Some 7),
           txn_msg 13 (MessageTypeOther 1) (Some 7)])], tx_bytes = 24\<rparr>) \<and>
   txn_inv list_builder (snd (HandleImmutableMessages list_builder
     (txn_msg 10 MessageTypeBeginTxn (Some 7) # txn_traffic) 20 NewTxnBuffer))"
proof -
  have run: "HandleImmutableMessages list_builder (txn_msg 10 MessageTypeBeginTxn (Some 7) # txn_traffic) 20 NewTxnBuffer
     = (Inr [txn_msg 12 (MessageTypeOther 1) None],
        \<lparr>builders = [(7, [txn_msg 10 MessageTypeBeginTxn (Some 7), txn_msg 11 (MessageTypeOther 1) (Some 7),
           txn_msg 13 (MessageTypeOther 1) (Some 7)])], tx_bytes = 24\<rparr>)"
    by code_simp
  have "txn_inv list_builder NewTxnBuffer" by (simp add: txn_inv_def NewTxnBuffer_def)
  from HandleImmutableMessages_inv [OF list_builder_ok(1) this run] run show ?thesis by simp
qed

theorem txn_atomic_delivery_witness:
  "\<exists>out c b1 b2.
    HandleImmutableMessages list_builder (others 7 txn_traffic) 20 NewTxnBuffer = (Inr out, c) \<and>
    HandleImmutableMessages list_builder
      (txn_msg 10 MessageTypeBeginTxn (Some 7) # txn_traffic @ [txn_msg 14 MessageTypeCommitTxn (Some 7)])
      20 NewTxnBuffer =
      (Inr (out @ [(txn_msg 14 MessageTypeCommitTxn (Some 7))\<lparr>EstimateSize := 24\<rparr>]), b1) \<and>
    HandleImmutableMessages list_builder
      (txn_msg 10 MessageTypeBeginTxn (Some 7) # txn_traffic @ [txn_msg 15 MessageTypeRollbackTxn (Some 7)])
      20 NewTxnBuffer = (Inr out, b2) \<and>
    builders b1 = builders c \<and> builders b2 = builders c"
  by (rule txn_atomic_delivery [OF list_builder_ok(2)])
    (simp_all add: txn_msg_def txn_traffic_def is_body_def NewTxnBuffer_def list_builder_def bodies_def)

end
