(* ===== verification/Wal_Scanner.thy ===== *)
theory Wal_Scanner
  imports Wal_Reorder Wal_Txn
begin

text \<open>
  The log scanner (\<^verbatim>\<open>wal/adaptor/scanner_adaptor.go\<close>, \<^verbatim>\<open>wal/adaptor/scanner_switchable.go\<close> and
  \<^verbatim>\<open>wal/utility/pending_queue.go\<close>). A producer goroutine reads the underlying log and hands its
  messages over an unbuffered channel; the consumer loop takes one when at most 16 messages wait,
  runs it through the reorder and the transaction buffer, and delivers the waiting messages to the
  user's channel. The two goroutines, the channels and the cancellation of the context are a labelled
  step relation whose every interleaving is a run.

  \<open>typeutil.MultipartQueue\<close>, on which the pending queue is built, is not part of the repository: it
  is the record \<open>queue_ops\<close>, and \<open>queue_ok\<close> states that it is a first-in first-out queue.
\<close>

section \<open>PendingQueue\<close>

record 'q queue_ops =
  mq_new :: 'q
  mq_Len :: "'q \<Rightarrow> nat"
  mq_Add :: "ImmutableMessage list \<Rightarrow> 'q \<Rightarrow> 'q"
  mq_AddOne :: "ImmutableMessage \<Rightarrow> 'q \<Rightarrow> 'q"
  mq_Next :: "'q \<Rightarrow> ImmutableMessage option"
  mq_UnsafeAdvance :: "'q \<Rightarrow> 'q"

definition queue_ok :: "'q queue_ops \<Rightarrow> ('q \<Rightarrow> ImmutableMessage list) \<Rightarrow> bool" where
  "queue_ok Q waiting \<longleftrightarrow>
     waiting (mq_new Q) = [] \<and>
     (\<forall>q. mq_Len Q q = length (waiting q)) \<and>
     (\<forall>ms q. waiting (mq_Add Q ms q) = waiting q @ ms) \<and>
     (\<forall>m q. waiting (mq_AddOne Q m q) = waiting q @ [m]) \<and>
     (\<forall>q. mq_Next Q q = (case waiting q of [] \<Rightarrow> None | m # _ \<Rightarrow> Some m)) \<and>
     (\<forall>q. waiting q \<noteq> [] \<longrightarrow> waiting (mq_UnsafeAdvance Q q) = tl (waiting q))"

record 'q PendingQueue =
  pq_queue :: 'q
  pq_bytes :: i64

definition NewPendingQueue :: "'q queue_ops \<Rightarrow> 'q PendingQueue" where
  "NewPendingQueue Q = \<lparr>pq_queue = mq_new Q, pq_bytes = 0\<rparr>"

definition PendingQueue_Bytes :: "'q PendingQueue \<Rightarrow> i64" where
  "PendingQueue_Bytes q = pq_bytes q"

definition PendingQueue_Add :: "'q queue_ops \<Rightarrow> ImmutableMessage list \<Rightarrow> 'q PendingQueue \<Rightarrow> 'q PendingQueue"
  where
  "PendingQueue_Add Q msg q =
     (let q1 = fold (\<lambda>m q. q\<lparr>pq_bytes := pq_bytes q + EstimateSize m\<rparr>) msg q
      in q1\<lparr>pq_queue := mq_Add Q msg (pq_queue q1)\<rparr>)"

definition PendingQueue_AddOne :: "'q queue_ops \<Rightarrow> ImmutableMessage \<Rightarrow> 'q PendingQueue \<Rightarrow> 'q PendingQueue"
  where
  "PendingQueue_AddOne Q msg q =
     q\<lparr>pq_bytes := pq_bytes q + EstimateSize msg, pq_queue := mq_AddOne Q msg (pq_queue q)\<rparr>"

definition PendingQueue_UnsafeAdvance :: "'q queue_ops \<Rightarrow> ('q PendingQueue, unit) go" where
  "PendingQueue_UnsafeAdvance Q q =
     (case mq_Next Q (pq_queue q) of
        None \<Rightarrow> (Inl nil_panic, q)
      | Some m \<Rightarrow> (Inr (), q\<lparr>pq_bytes := pq_bytes q - EstimateSize m,
                            pq_queue := mq_UnsafeAdvance Q (pq_queue q)\<rparr>))"

section \<open>The consumer: handleUpstream\<close>

record scan_option =
  filterFunc :: "(ImmutableMessage \<Rightarrow> bool) option"
  opt_VChannel :: string

record ('h, 'b, 'q) scannerAdaptorImpl =
  reorderBuffer :: "'h ReOrderByTimeTickBuffer"
  pendingQueue :: "'q PendingQueue"
  txnBuffer :: "'b TxnBuffer"

definition newScannerAdaptor :: "'h heap_ops \<Rightarrow> 'q queue_ops \<Rightarrow> ('h, 'b, 'q) scannerAdaptorImpl" where
  "newScannerAdaptor H Q =
     \<lparr>reorderBuffer = NewReOrderBuffer H, pendingQueue = NewPendingQueue Q, txnBuffer = NewTxnBuffer\<rparr>"

definition filtered :: "scan_option \<Rightarrow> ImmutableMessage \<Rightarrow> bool" where
  "filtered C msg = (case filterFunc C of None \<Rightarrow> False | Some f \<Rightarrow> \<not> f msg)"

definition other_vchannel :: "scan_option \<Rightarrow> ImmutableMessage \<Rightarrow> bool" where
  "other_vchannel C msg \<longleftrightarrow>
     VChannel msg \<noteq> [] \<and> opt_VChannel C \<noteq> [] \<and> opt_VChannel C \<noteq> VChannel msg"

text \<open>\<open>None\<close> is a loop that does not end, \<open>Inl\<close> a panic; a rejected \<open>Push\<close> is only logged.\<close>

definition handleUpstream :: "'h heap_ops \<Rightarrow> 'b txn_ops \<Rightarrow> 'q queue_ops \<Rightarrow> scan_option \<Rightarrow>
    ImmutableMessage \<Rightarrow> ('h, 'b, 'q) scannerAdaptorImpl \<Rightarrow> ('h, 'b, 'q) scannerAdaptorImpl result option"
  where
  "handleUpstream H B Q C msg s =
     (if filtered C msg then Some (Inr s)
      else if MsgType msg = MessageTypeTimeTick then
        (case PopUtilTimeTick H (TimeTick msg) (reorderBuffer s) of
           None \<Rightarrow> None
         | Some (Inl e) \<Rightarrow> Some (Inl e)
         | Some (Inr (messages, r)) \<Rightarrow>
             (case HandleImmutableMessages B messages (TimeTick msg) (txnBuffer s) of
                (Inl e, _) \<Rightarrow> Some (Inl e)
              | (Inr msgs, b) \<Rightarrow>
                  let q1 = (if msgs \<noteq> [] then PendingQueue_Add Q msgs (pendingQueue s)
                            else pendingQueue s);
                      q2 = (if IsPersisted msg \<or> mq_Len Q (pq_queue q1) = 0
                            then PendingQueue_Add Q [msg] q1 else q1)
                  in Some (Inr (s\<lparr>reorderBuffer := r, txnBuffer := b, pendingQueue := q2\<rparr>))))
      else if other_vchannel C msg then Some (Inr s)
      else Some (Inr (s\<lparr>reorderBuffer := snd (Reorder_Push H msg (reorderBuffer s))\<rparr>)))"

section \<open>The two goroutines\<close>

text \<open>
  The producer (\<open>catchupScanner\<close>): at the entry of \<open>Do\<close>, in the retry loop of
  \<open>createReaderWithBackoff\<close>, at the receive of \<open>consumeWithScanner\<close>, at the send of
  \<open>handleMessage\<close> with a message in hand, or returned. The consumer (\<open>consumeEventLoop\<close>): at its
  select, returned, or stopped by a panic.
\<close>

datatype producer =
    P_Do
  | P_create
  | P_recv
  | P_send ImmutableMessage
  | P_done "go_error option"

datatype consumer = C_loop | C_done go_error | C_panic go_error

abbreviation Canceled :: go_error where
  "Canceled \<equiv> Failure ''context canceled''"

text \<open>
  \<open>wal\<close> are the messages the reader of the underlying log will still yield, \<open>wal_end\<close> tells whether
  its channel is closed after them and with which \<open>Error()\<close>, \<open>delivered\<close> are the messages the user
  has received, \<open>closed\<close> says that \<open>execute\<close> has closed the user's channel.
\<close>

record ('h, 'b, 'q) system =
  scanner :: "('h, 'b, 'q) scannerAdaptorImpl"
  wal :: "ImmutableMessage list"
  wal_end :: "go_error option option"
  producer_at :: producer
  consumer_at :: consumer
  cancelled :: bool
  delivered :: "ImmutableMessage list"
  closed :: bool

definition init_system :: "'h heap_ops \<Rightarrow> 'q queue_ops \<Rightarrow> ImmutableMessage list \<Rightarrow>
    go_error option option \<Rightarrow> ('h, 'b, 'q) system" where
  "init_system H Q log we =
     \<lparr>scanner = newScannerAdaptor H Q, wal = log, wal_end = we, producer_at = P_Do,
      consumer_at = C_loop, cancelled = False, delivered = [], closed = False\<rparr>"

datatype scan_label =
    L_cancel | L_start | L_read | L_backoff | L_recv | L_eof | L_hand | L_deliver
  | L_producer_stop | L_consumer_stop | L_close

inductive scan_step :: "'h heap_ops \<Rightarrow> 'b txn_ops \<Rightarrow> 'q queue_ops \<Rightarrow> scan_option \<Rightarrow> scan_label \<Rightarrow>
    ('h, 'b, 'q) system \<Rightarrow> ('h, 'b, 'q) system \<Rightarrow> bool"
  for H :: "'h heap_ops" and B :: "'b txn_ops" and Q :: "'q queue_ops" and C :: scan_option
  where
  cancel: "scan_step H B Q C L_cancel \<sigma> (\<sigma>\<lparr>cancelled := True\<rparr>)"
| start: "producer_at \<sigma> = P_Do \<Longrightarrow> \<not> cancelled \<sigma> \<Longrightarrow>
    scan_step H B Q C L_start \<sigma> (\<sigma>\<lparr>producer_at := P_create\<rparr>)"
| read_ok: "producer_at \<sigma> = P_create \<Longrightarrow>
    scan_step H B Q C L_read \<sigma> (\<sigma>\<lparr>producer_at := P_recv\<rparr>)"
| backoff: "producer_at \<sigma> = P_create \<Longrightarrow> \<not> cancelled \<sigma> \<Longrightarrow> scan_step H B Q C L_backoff \<sigma> \<sigma>"
| recv: "producer_at \<sigma> = P_recv \<Longrightarrow> wal \<sigma> = m # ms \<Longrightarrow>
    scan_step H B Q C L_recv \<sigma> (\<sigma>\<lparr>producer_at := P_send m, wal := ms\<rparr>)"
| eof: "producer_at \<sigma> = P_recv \<Longrightarrow> wal \<sigma> = [] \<Longrightarrow> wal_end \<sigma> = Some err \<Longrightarrow>
    scan_step H B Q C L_eof \<sigma> (\<sigma>\<lparr>producer_at := P_done err\<rparr>)"
| producer_stop: "producer_at \<sigma> \<notin> range P_done \<Longrightarrow> cancelled \<sigma> \<Longrightarrow>
    scan_step H B Q C L_producer_stop \<sigma> (\<sigma>\<lparr>producer_at := P_done (Some Canceled)\<rparr>)"
| hand: "producer_at \<sigma> = P_send m \<Longrightarrow> consumer_at \<sigma> = C_loop \<Longrightarrow>
    \<not> 16 < mq_Len Q (pq_queue (pendingQueue (scanner \<sigma>))) \<Longrightarrow>
    handleUpstream H B Q C m (scanner \<sigma>) = Some (Inr s') \<Longrightarrow>
    scan_step H B Q C L_hand \<sigma> (\<sigma>\<lparr>producer_at := P_recv, scanner := s'\<rparr>)"
| hand_panic: "producer_at \<sigma> = P_send m \<Longrightarrow> consumer_at \<sigma> = C_loop \<Longrightarrow>
    \<not> 16 < mq_Len Q (pq_queue (pendingQueue (scanner \<sigma>))) \<Longrightarrow>
    handleUpstream H B Q C m (scanner \<sigma>) = Some (Inl e) \<Longrightarrow>
    scan_step H B Q C L_hand \<sigma> (\<sigma>\<lparr>producer_at := P_recv, consumer_at := C_panic e\<rparr>)"
| deliver: "consumer_at \<sigma> = C_loop \<Longrightarrow>
    mq_Next Q (pq_queue (pendingQueue (scanner \<sigma>))) = Some m \<Longrightarrow>
    PendingQueue_UnsafeAdvance Q (pendingQueue (scanner \<sigma>)) = (Inr (), q) \<Longrightarrow>
    scan_step H B Q C L_deliver \<sigma>
      (\<sigma>\<lparr>delivered := delivered \<sigma> @ [m], scanner := (scanner \<sigma>)\<lparr>pendingQueue := q\<rparr>\<rparr>)"
| consumer_stop: "consumer_at \<sigma> = C_loop \<Longrightarrow> cancelled \<sigma> \<Longrightarrow>
    scan_step H B Q C L_consumer_stop \<sigma> (\<sigma>\<lparr>consumer_at := C_done Canceled\<rparr>)"
| close: "consumer_at \<sigma> = C_done e \<Longrightarrow> producer_at \<sigma> = P_done err \<Longrightarrow> \<not> closed \<sigma> \<Longrightarrow>
    scan_step H B Q C L_close \<sigma> (\<sigma>\<lparr>closed := True\<rparr>)"

inductive_cases scan_stepE: "scan_step H B Q C l \<sigma> \<tau>"

text \<open>Runs with their labels.\<close>

inductive scan_run :: "'h heap_ops \<Rightarrow> 'b txn_ops \<Rightarrow> 'q queue_ops \<Rightarrow> scan_option \<Rightarrow> scan_label list \<Rightarrow>
    ('h, 'b, 'q) system \<Rightarrow> ('h, 'b, 'q) system \<Rightarrow> bool"
  for H :: "'h heap_ops" and B :: "'b txn_ops" and Q :: "'q queue_ops" and C :: scan_option
  where
  run_nil: "scan_run H B Q C [] \<sigma> \<sigma>"
| run_snoc: "scan_run H B Q C ls \<sigma> \<tau> \<Longrightarrow> scan_step H B Q C l \<tau> \<upsilon> \<Longrightarrow> scan_run H B Q C (ls @ [l]) \<sigma> \<upsilon>"

section \<open>The specification: one sequential pipeline\<close>

text \<open>
  What a scan of the messages \<open>ms\<close> is meant to put out, with no queue, no channels and no second
  goroutine: the confirmed messages of every time tick, after which the tick itself if it is persisted.
\<close>

fun scan_ref :: "'h heap_ops \<Rightarrow> 'b txn_ops \<Rightarrow> scan_option \<Rightarrow> ImmutableMessage list \<Rightarrow>
    'h ReOrderByTimeTickBuffer \<times> 'b TxnBuffer \<Rightarrow>
    (ImmutableMessage list \<times> 'h ReOrderByTimeTickBuffer \<times> 'b TxnBuffer) option" where
  "scan_ref H B C [] (r, b) = Some ([], r, b)"
| "scan_ref H B C (m # ms) (r, b) =
     (if filtered C m then scan_ref H B C ms (r, b)
      else if MsgType m = MessageTypeTimeTick then
        (case PopUtilTimeTick H (TimeTick m) r of
           Some (Inr (ps, r')) \<Rightarrow>
             (case HandleImmutableMessages B ps (TimeTick m) b of
                (Inr out, b') \<Rightarrow>
                  map_option (\<lambda>(outs, st). (out @ (if IsPersisted m then [m] else []) @ outs, st))
                    (scan_ref H B C ms (r', b'))
              | _ \<Rightarrow> None)
         | _ \<Rightarrow> None)
      else if other_vchannel C m then scan_ref H B C ms (r, b)
      else scan_ref H B C ms (snd (Reorder_Push H m r), b))"

text \<open>The time ticks that are only there to push the clock forward are not part of the contract.\<close>

definition visible :: "ImmutableMessage \<Rightarrow> bool" where
  "visible m \<longleftrightarrow> MsgType m \<noteq> MessageTypeTimeTick \<or> IsPersisted m"

definition scan_output :: "'h heap_ops \<Rightarrow> 'b txn_ops \<Rightarrow> scan_option \<Rightarrow> ImmutableMessage list \<Rightarrow>
    ImmutableMessage list option" where
  "scan_output H B C ms = map_option fst (scan_ref H B C ms (NewReOrderBuffer H, NewTxnBuffer))"

text \<open>A transaction message is never a time tick.\<close>

definition build_ok :: "'b txn_ops \<Rightarrow> bool" where
  "build_ok B \<longleftrightarrow> (\<forall>cm b x. tb_build B cm b = Inr x \<longrightarrow> MsgType x \<noteq> MessageTypeTimeTick)"

section \<open>The transaction buffer never fails and never grows its input\<close>

lemma handle_one_total:
  assumes "conv_ok B"
  shows "\<exists>out b'. handle_one B m b = (Inr out, b') \<and> length out \<le> 1 \<and>
    (build_ok B \<longrightarrow> MsgType m \<noteq> MessageTypeTimeTick \<longrightarrow> (\<forall>x \<in> set out. MsgType x \<noteq> MessageTypeTimeTick))"
proof (cases "TxnContext m")
  case None
  then show ?thesis by (simp add: handle_one_def)
next
  case (Some t)
  have conv: "MsgType m = MessageTypeBeginTxn \<Longrightarrow> as_begin B m = Inr m"
    "MsgType m = MessageTypeCommitTxn \<Longrightarrow> as_commit B m = Inr m"
    "MsgType m = MessageTypeRollbackTxn \<Longrightarrow> as_rollback B m = Inr m"
    using assms by (auto simp: conv_ok_def)
  show ?thesis
  proof (cases "map_of (builders b) t")
    case None
    with Some conv show ?thesis
      by (cases "MsgType m") (simp_all add: handle_one_def handler_defs go_bind_def)
  next
    case (Some x)
    with \<open>TxnContext m = Some t\<close> conv show ?thesis
      by (cases "MsgType m"; cases "tb_build B m x")
        (auto simp: handle_one_def handler_defs go_bind_def Let_def build_ok_def)
  qed
qed

lemma handle_loop_total:
  assumes "conv_ok B" and "build_ok B" and "\<forall>m \<in> set ms. MsgType m \<noteq> MessageTypeTimeTick"
  shows "\<exists>out b'. handle_loop B ms b = (Inr out, b') \<and> length out \<le> length ms \<and>
    (\<forall>x \<in> set out. MsgType x \<noteq> MessageTypeTimeTick)"
  using assms(3)
proof (induction ms arbitrary: b)
  case Nil
  then show ?case by simp
next
  case (Cons m ms)
  obtain o1 b1 where 1: "handle_one B m b = (Inr o1, b1)" "length o1 \<le> 1"
    "\<forall>x \<in> set o1. MsgType x \<noteq> MessageTypeTimeTick"
    using handle_one_total [OF assms(1), of m b] assms(2) Cons.prems by auto
  obtain o2 b2 where 2: "handle_loop B ms b1 = (Inr o2, b2)" "length o2 \<le> length ms"
    "\<forall>x \<in> set o2. MsgType x \<noteq> MessageTypeTimeTick"
    using Cons.IH [of b1] Cons.prems by auto
  from 1 2 show ?case by (auto simp: go_bind_def)
qed

lemma Handle_total:
  assumes "conv_ok B" and "build_ok B" and "\<forall>m \<in> set ms. MsgType m \<noteq> MessageTypeTimeTick"
  obtains out b' where "HandleImmutableMessages B ms ts b = (Inr out, b')"
    and "length out \<le> length ms" and "\<forall>x \<in> set out. MsgType x \<noteq> MessageTypeTimeTick"
  using handle_loop_total [OF assms, of b] by (auto simp: HandleImmutableMessages_def)

section \<open>Every interleaving implements the pipeline\<close>

lemma fold_bytes_queue:
  "pq_queue (fold (\<lambda>m q. q\<lparr>pq_bytes := pq_bytes q + EstimateSize m\<rparr>) ms q) = pq_queue q"
  by (induction ms arbitrary: q) auto

lemma fold_bytes_sum:
  "pq_bytes (fold (\<lambda>m q. q\<lparr>pq_bytes := pq_bytes q + EstimateSize m\<rparr>) ms q) =
     pq_bytes q + sum_list (map EstimateSize ms)"
  by (induction ms arbitrary: q) (auto simp: algebra_simps)

lemma PendingQueue_Add_proj [simp]:
  "pq_queue (PendingQueue_Add Q ms q) = mq_Add Q ms (pq_queue q)"
  "pq_bytes (PendingQueue_Add Q ms q) = pq_bytes q + sum_list (map EstimateSize ms)"
  by (simp_all add: PendingQueue_Add_def Let_def fold_bytes_queue fold_bytes_sum)

lemma queue_okD:
  assumes "queue_ok Q waiting"
  shows "waiting (mq_new Q) = []" and "mq_Len Q q = length (waiting q)"
    and "waiting (mq_Add Q ms q) = waiting q @ ms"
    and "mq_Next Q q = (case waiting q of [] \<Rightarrow> None | m # _ \<Rightarrow> Some m)"
    and "waiting q \<noteq> [] \<Longrightarrow> waiting (mq_UnsafeAdvance Q q) = tl (waiting q)"
  using assms by (auto simp: queue_ok_def)

lemma scan_ref_append:
  "scan_ref H B C (ms @ ns) (r, b) =
     (case scan_ref H B C ms (r, b) of
        None \<Rightarrow> None
      | Some (out, st) \<Rightarrow> map_option (\<lambda>(outs, st'). (out @ outs, st')) (scan_ref H B C ns st))"
proof (induction ms arbitrary: r b)
  case Nil
  then show ?case by (cases "scan_ref H B C ns (r, b)") auto
next
  case (Cons m ms)
  then show ?case
    by (auto simp: option.map_comp comp_def intro!: option.map_cong0
        split: option.splits sum.splits prod.splits)
qed

lemma visible_filter_nontick:
  "\<forall>x \<in> set out. MsgType x \<noteq> MessageTypeTimeTick \<Longrightarrow> filter visible out = out"
  by (induction out) (auto simp: visible_def)

context msg_heap
begin

definition heap_nontick :: "'h ReOrderByTimeTickBuffer \<Rightarrow> bool" where
  "heap_nontick r \<longleftrightarrow> (\<forall>m \<in># elems (messageHeap r). MsgType m \<noteq> MessageTypeTimeTick)"

text \<open>One message: what the consumer does to its three buffers is one step of the pipeline.\<close>

lemma handleUpstream_tick:
  assumes ok: "conv_ok B" "build_ok B" "queue_ok Q waiting"
    and inv: "reorder_inv invar elems (reorderBuffer s)" "heap_nontick (reorderBuffer s)"
    and tick: "\<not> filtered C m" "MsgType m = MessageTypeTimeTick"
  obtains s' out where "handleUpstream H B Q C m s = Some (Inr s')"
    and "reorder_inv invar elems (reorderBuffer s')" and "heap_nontick (reorderBuffer s')"
    and "scan_ref H B C [m] (reorderBuffer s, txnBuffer s) =
      Some (out, reorderBuffer s', txnBuffer s')"
    and "filter visible (waiting (pq_queue (pendingQueue s'))) =
      filter visible (waiting (pq_queue (pendingQueue s))) @ out"
    and "length (waiting (pq_queue (pendingQueue s'))) + size (elems (messageHeap (reorderBuffer s')))
      \<le> Suc (length (waiting (pq_queue (pendingQueue s))) +
          size (elems (messageHeap (reorderBuffer s))))"
proof -
  let ?E = "elems (messageHeap (reorderBuffer s))"
  obtain ps r' where p: "PopUtilTimeTick H (TimeTick m) (reorderBuffer s) = Some (Inr (ps, r'))"
    "reorder_inv invar elems r'"
    "mset ps = filter_mset (\<lambda>x. TimeTick x \<le> TimeTick m) ?E"
    "elems (messageHeap r') = filter_mset (\<lambda>x. TimeTick m < TimeTick x) ?E"
    using Pop_correct [OF inv(1), of "TimeTick m"] by blast
  have "set ps = {x. x \<in># ?E \<and> TimeTick x \<le> TimeTick m}"
    using arg_cong [OF p(3), of set_mset] by simp
  then have "\<forall>x \<in> set ps. MsgType x \<noteq> MessageTypeTimeTick"
    using inv(2) by (auto simp: heap_nontick_def)
  then obtain out b' where h: "HandleImmutableMessages B ps (TimeTick m) (txnBuffer s) = (Inr out, b')"
    "length out \<le> length ps" "\<forall>x \<in> set out. MsgType x \<noteq> MessageTypeTimeTick"
    using Handle_total [OF ok(1,2)] by blast
  have "?E = mset ps + elems (messageHeap r')"
    using p(3,4) multiset_partition [of ?E "\<lambda>x. TimeTick x \<le> TimeTick m"] by (simp add: not_le)
  then have size: "size ?E = length ps + size (elems (messageHeap r'))" by simp
  have nt: "heap_nontick r'" using inv(2) p(4) by (auto simp: heap_nontick_def)
  define q1 where "q1 = (if out \<noteq> [] then PendingQueue_Add Q out (pendingQueue s) else pendingQueue s)"
  define q2 where "q2 = (if IsPersisted m \<or> mq_Len Q (pq_queue q1) = 0
    then PendingQueue_Add Q [m] q1 else q1)"
  let ?s = "s\<lparr>reorderBuffer := r', txnBuffer := b', pendingQueue := q2\<rparr>"
  have run: "handleUpstream H B Q C m s = Some (Inr ?s)"
    using tick p(1) h(1) by (simp add: handleUpstream_def q1_def q2_def Let_def)
  have w1: "waiting (pq_queue q1) = waiting (pq_queue (pendingQueue s)) @ out"
    using queue_okD(3) [OF ok(3)] by (simp add: q1_def)
  have w2: "waiting (pq_queue q2) = waiting (pq_queue q1) @
      (if IsPersisted m \<or> waiting (pq_queue q1) = [] then [m] else [])"
    using queue_okD(2,3) [OF ok(3)] by (simp add: q2_def)
  show ?thesis
  proof (rule that [of ?s "out @ (if IsPersisted m then [m] else [])", OF run])
    show "filter visible (waiting (pq_queue (pendingQueue ?s))) =
      filter visible (waiting (pq_queue (pendingQueue s))) @ out @ (if IsPersisted m then [m] else [])"
      using tick(2) visible_filter_nontick [OF h(3)] by (simp add: w1 w2 visible_def)
    show "length (waiting (pq_queue (pendingQueue ?s))) + size (elems (messageHeap (reorderBuffer ?s)))
      \<le> Suc (length (waiting (pq_queue (pendingQueue s))) + size ?E)"
      using h(2) by (simp add: w1 w2 size)
  qed (use p h tick nt in simp_all)
qed

lemma handleUpstream_ref:
  assumes ok: "conv_ok B" "build_ok B" "queue_ok Q waiting"
    and inv: "reorder_inv invar elems (reorderBuffer s)" "heap_nontick (reorderBuffer s)"
  shows "\<exists>s' out. handleUpstream H B Q C m s = Some (Inr s') \<and>
    reorder_inv invar elems (reorderBuffer s') \<and> heap_nontick (reorderBuffer s') \<and>
    scan_ref H B C [m] (reorderBuffer s, txnBuffer s) =
      Some (out, reorderBuffer s', txnBuffer s') \<and>
    filter visible (waiting (pq_queue (pendingQueue s'))) =
      filter visible (waiting (pq_queue (pendingQueue s))) @ out \<and>
    length (waiting (pq_queue (pendingQueue s'))) + size (elems (messageHeap (reorderBuffer s')))
      \<le> Suc (length (waiting (pq_queue (pendingQueue s))) +
          size (elems (messageHeap (reorderBuffer s))))"
proof (cases "\<not> filtered C m \<and> MsgType m = MessageTypeTimeTick")
  case True
  then show ?thesis using handleUpstream_tick [OF ok inv] by metis
next
  case False
  show ?thesis
  proof (cases "filtered C m \<or> other_vchannel C m")
    case True
    then have "handleUpstream H B Q C m s = Some (Inr s)"
      "scan_ref H B C [m] (reorderBuffer s, txnBuffer s) = Some ([], reorderBuffer s, txnBuffer s)"
      using False by (auto simp: handleUpstream_def)
    with inv show ?thesis by simp
  next
    case push: False
    let ?r = "snd (Reorder_Push H m (reorderBuffer s))"
    have run: "handleUpstream H B Q C m s = Some (Inr (s\<lparr>reorderBuffer := ?r\<rparr>))"
      "scan_ref H B C [m] (reorderBuffer s, txnBuffer s) = Some ([], ?r, txnBuffer s)"
      using False push by (auto simp: handleUpstream_def)
    have "reorder_inv invar elems ?r \<and> heap_nontick ?r \<and>
        size (elems (messageHeap ?r)) \<le> Suc (size (elems (messageHeap (reorderBuffer s))))"
      using Push_cases [OF inv(1), of m] inv False push by (auto simp: heap_nontick_def)
    with run show ?thesis by simp
  qed
qed

end

section \<open>The invariant of the running system\<close>

fun in_hand :: "producer \<Rightarrow> ImmutableMessage list" where
  "in_hand (P_send m) = [m]"
| "in_hand _ = []"

abbreviation waiting_of :: "('q \<Rightarrow> ImmutableMessage list) \<Rightarrow> ('h, 'b, 'q) system \<Rightarrow> ImmutableMessage list"
  where "waiting_of waiting \<sigma> \<equiv> waiting (pq_queue (pendingQueue (scanner \<sigma>)))"

abbreviation buffer_of :: "('h, 'b, 'q) system \<Rightarrow> 'h ReOrderByTimeTickBuffer" where
  "buffer_of \<sigma> \<equiv> reorderBuffer (scanner \<sigma>)"

text \<open>
  \<open>scan_inv\<close>: the log is the messages consumed so far followed by those the producer has not handed
  over; the visible messages delivered and waiting are what the pipeline puts out for the consumed ones.
\<close>

definition scan_inv :: "'h heap_ops \<Rightarrow> 'b txn_ops \<Rightarrow> scan_option \<Rightarrow> ('q \<Rightarrow> ImmutableMessage list) \<Rightarrow>
    ImmutableMessage list \<Rightarrow> ('h, 'b, 'q) system \<Rightarrow> bool" where
  "scan_inv H B C waiting log \<sigma> \<longleftrightarrow>
     (\<exists>consumed rest. log = consumed @ rest \<and>
        (producer_at \<sigma> \<notin> range P_done \<longrightarrow> rest = in_hand (producer_at \<sigma>) @ wal \<sigma>) \<and>
        (producer_at \<sigma> \<in> range P_done \<and> \<not> cancelled \<sigma> \<longrightarrow> rest = []) \<and>
        scan_ref H B C consumed (NewReOrderBuffer H, NewTxnBuffer) =
          Some (filter visible (delivered \<sigma> @ waiting_of waiting \<sigma>), buffer_of \<sigma>,
                txnBuffer (scanner \<sigma>))) \<and>
     consumer_at \<sigma> \<notin> range C_panic \<and>
     (\<not> cancelled \<sigma> \<longrightarrow> consumer_at \<sigma> = C_loop)"

lemma scan_invI:
  assumes "log = consumed @ rest"
    and "producer_at \<sigma> \<notin> range P_done \<Longrightarrow> rest = in_hand (producer_at \<sigma>) @ wal \<sigma>"
    and "producer_at \<sigma> \<in> range P_done \<Longrightarrow> \<not> cancelled \<sigma> \<Longrightarrow> rest = []"
    and "scan_ref H B C consumed (NewReOrderBuffer H, NewTxnBuffer) =
      Some (filter visible (delivered \<sigma> @ waiting_of waiting \<sigma>), buffer_of \<sigma>, txnBuffer (scanner \<sigma>))"
    and "consumer_at \<sigma> \<notin> range C_panic" and "\<not> cancelled \<sigma> \<Longrightarrow> consumer_at \<sigma> = C_loop"
  shows "scan_inv H B C waiting log \<sigma>"
  using assms unfolding scan_inv_def by blast

definition scan_work :: "('h \<Rightarrow> ImmutableMessage multiset) \<Rightarrow> ('q \<Rightarrow> ImmutableMessage list) \<Rightarrow>
    ('h, 'b, 'q) system \<Rightarrow> nat" where
  "scan_work elems waiting \<sigma> =
     4 * length (wal \<sigma>) + 3 * length (in_hand (producer_at \<sigma>)) +
     length (waiting_of waiting \<sigma>) + size (elems (messageHeap (buffer_of \<sigma>))) +
     (case producer_at \<sigma> of P_Do \<Rightarrow> 3 | P_create \<Rightarrow> 2 | P_done _ \<Rightarrow> 0 | _ \<Rightarrow> 1)"

definition progress :: "scan_label \<Rightarrow> bool" where
  "progress l \<longleftrightarrow> l \<in> {L_start, L_read, L_recv, L_eof, L_hand, L_deliver}"

context msg_heap
begin

abbreviation sys_ok where
  "sys_ok B C waiting log \<sigma> \<equiv> scan_inv H B C waiting log \<sigma> \<and>
     reorder_inv invar elems (buffer_of \<sigma>) \<and> heap_nontick (buffer_of \<sigma>)"

lemma init_ok:
  assumes "queue_ok Q waiting"
  shows "sys_ok B C waiting log (init_system H Q log we)"
proof -
  have "scan_inv H B C waiting log (init_system H Q log we)"
    using queue_okD(1) [OF assms]
    by (intro scan_invI [of log "[]" log])
      (auto simp: init_system_def newScannerAdaptor_def NewPendingQueue_def)
  then show ?thesis
    using NewReOrderBuffer_inv
    by (simp add: init_system_def newScannerAdaptor_def heap_nontick_def NewReOrderBuffer_def elems_empty)
qed

lemma hand_ok:
  assumes ok: "conv_ok B" "build_ok B" "queue_ok Q waiting" and inv: "sys_ok B C waiting log \<sigma>"
    and at: "producer_at \<sigma> = P_send m" "consumer_at \<sigma> = C_loop"
  obtains s' where "handleUpstream H B Q C m (scanner \<sigma>) = Some (Inr s')"
    and "sys_ok B C waiting log (\<sigma>\<lparr>producer_at := P_recv, scanner := s'\<rparr>)"
    and "scan_work elems waiting (\<sigma>\<lparr>producer_at := P_recv, scanner := s'\<rparr>) < scan_work elems waiting \<sigma>"
proof -
  let ?s = "scanner \<sigma>"
  obtain s' out where s': "handleUpstream H B Q C m ?s = Some (Inr s')"
    "reorder_inv invar elems (reorderBuffer s')" "heap_nontick (reorderBuffer s')"
    "scan_ref H B C [m] (reorderBuffer ?s, txnBuffer ?s) = Some (out, reorderBuffer s', txnBuffer s')"
    "filter visible (waiting (pq_queue (pendingQueue s'))) =
      filter visible (waiting (pq_queue (pendingQueue ?s))) @ out"
    "length (waiting (pq_queue (pendingQueue s'))) + size (elems (messageHeap (reorderBuffer s')))
      \<le> Suc (length (waiting (pq_queue (pendingQueue ?s))) +
          size (elems (messageHeap (reorderBuffer ?s))))"
    using handleUpstream_ref [OF ok, of ?s C m] inv by blast
  obtain consumed where c: "log = consumed @ m # wal \<sigma>"
    "scan_ref H B C consumed (NewReOrderBuffer H, NewTxnBuffer) =
       Some (filter visible (delivered \<sigma> @ waiting_of waiting \<sigma>), buffer_of \<sigma>, txnBuffer ?s)"
    using inv at by (auto simp: scan_inv_def)
  have "scan_ref H B C (consumed @ [m]) (NewReOrderBuffer H, NewTxnBuffer) =
      Some (filter visible (delivered \<sigma> @ waiting (pq_queue (pendingQueue s'))), reorderBuffer s',
        txnBuffer s')"
    using s'(4,5) by (simp add: scan_ref_append c(2))
  then have "scan_inv H B C waiting log (\<sigma>\<lparr>producer_at := P_recv, scanner := s'\<rparr>)"
    using c(1) at by (intro scan_invI [of log "consumed @ [m]" "wal \<sigma>"]) auto
  moreover have "scan_work elems waiting (\<sigma>\<lparr>producer_at := P_recv, scanner := s'\<rparr>) <
      scan_work elems waiting \<sigma>"
    using s'(6) at by (simp add: scan_work_def)
  ultimately show ?thesis using that s' by simp
qed

text \<open>Every step keeps the invariant; the steps that make progress use work up.\<close>

lemma step_ok:
  assumes ok: "conv_ok B" "build_ok B" "queue_ok Q waiting" and inv: "sys_ok B C waiting log \<sigma>"
    and step: "scan_step H B Q C l \<sigma> \<tau>"
  shows "sys_ok B C waiting log \<tau> \<and>
    (progress l \<longrightarrow> scan_work elems waiting \<tau> < scan_work elems waiting \<sigma>)"
  using step
proof cases
  case (hand m s')
  with hand_ok [OF ok inv] show ?thesis by (metis option.inject sum.inject(2))
next
  case (hand_panic m e)
  with hand_ok [OF ok inv] show ?thesis by (metis option.inject sum.distinct(1))
next
  case (deliver m q)
  then obtain ms where w: "waiting_of waiting \<sigma> = m # ms"
    using queue_okD(4) [OF ok(3)] by (auto split: list.splits)
  then have "waiting (pq_queue q) = ms"
    using deliver queue_okD(5) [OF ok(3), of "pq_queue (pendingQueue (scanner \<sigma>))"]
    by (auto simp: PendingQueue_UnsafeAdvance_def)
  with deliver w inv show ?thesis by (simp add: scan_inv_def scan_work_def)
qed (use inv in \<open>auto simp: scan_inv_def scan_work_def progress_def\<close>)

end

context msg_heap
begin

lemma run_ok:
  assumes ok: "conv_ok B" "build_ok B" "queue_ok Q waiting"
    and run: "scan_run H B Q C ls \<sigma> \<tau>" and inv: "sys_ok B C waiting log \<sigma>"
  shows "sys_ok B C waiting log \<tau> \<and>
    (list_all progress ls \<longrightarrow> scan_work elems waiting \<tau> + length ls \<le> scan_work elems waiting \<sigma>)"
  using run inv
proof induction
  case (run_nil \<sigma>)
  then show ?case by simp
next
  case (run_snoc ls \<sigma> \<tau> l \<upsilon>)
  then have "sys_ok B C waiting log \<tau>" by blast
  from step_ok [OF ok this run_snoc.hyps(2)] run_snoc show ?case by auto
qed

text \<open>With a user who keeps receiving, the system stops only when everything is delivered.\<close>

lemma deliver_enabled:
  assumes "queue_ok Q waiting" and "consumer_at \<sigma> = C_loop" and "waiting_of waiting \<sigma> \<noteq> []"
  shows "\<exists>\<tau>. scan_step H B Q C L_deliver \<sigma> \<tau>"
proof -
  obtain m where m: "mq_Next Q (pq_queue (pendingQueue (scanner \<sigma>))) = Some m"
    using queue_okD(4) [OF assms(1)] assms(3) by (cases "waiting_of waiting \<sigma>") auto
  then obtain q where "PendingQueue_UnsafeAdvance Q (pendingQueue (scanner \<sigma>)) = (Inr (), q)"
    by (auto simp: PendingQueue_UnsafeAdvance_def)
  from scan_step.deliver [OF assms(2) m this] show ?thesis by blast
qed

lemma stuck_drained:
  assumes ok: "conv_ok B" "build_ok B" "queue_ok Q waiting" and inv: "sys_ok B C waiting log \<sigma>"
    and nc: "\<not> cancelled \<sigma>" and stuck: "\<And>l \<tau>. progress l \<Longrightarrow> \<not> scan_step H B Q C l \<sigma> \<tau>"
  shows "waiting_of waiting \<sigma> = [] \<and>
    scan_output H B C log = Some (filter visible (delivered \<sigma>))"
proof -
  have loop: "consumer_at \<sigma> = C_loop" using inv nc by (simp add: scan_inv_def)
  have w: "waiting_of waiting \<sigma> = []"
    using deliver_enabled [OF ok(3) loop] stuck [of L_deliver] by (auto simp: progress_def)
  then have short: "\<not> 16 < mq_Len Q (pq_queue (pendingQueue (scanner \<sigma>)))"
    using queue_okD(2) [OF ok(3)] by simp
  have "producer_at \<sigma> \<noteq> P_Do"
    using scan_step.start [of \<sigma> H B Q C] nc stuck [of L_start] by (auto simp: progress_def)
  moreover have "producer_at \<sigma> \<noteq> P_create"
    using scan_step.read_ok [of \<sigma> H B Q C] stuck [of L_read] by (auto simp: progress_def)
  moreover have "producer_at \<sigma> = P_recv \<Longrightarrow> wal \<sigma> = []"
    using scan_step.recv [of \<sigma> _ _ H B Q C] stuck [of L_recv] by (cases "wal \<sigma>") (auto simp: progress_def)
  moreover have "producer_at \<sigma> \<noteq> P_send m" for m
  proof
    assume at: "producer_at \<sigma> = P_send m"
    obtain s' where "handleUpstream H B Q C m (scanner \<sigma>) = Some (Inr s')"
      using hand_ok [OF ok inv at loop] by blast
    from scan_step.hand [OF at loop short this] stuck [of L_hand] show False
      by (simp add: progress_def)
  qed
  ultimately have "producer_at \<sigma> \<in> range P_done \<or> in_hand (producer_at \<sigma>) @ wal \<sigma> = []"
    by (cases "producer_at \<sigma>") auto
  then have "scan_ref H B C log (NewReOrderBuffer H, NewTxnBuffer) =
      Some (filter visible (delivered \<sigma> @ waiting_of waiting \<sigma>), buffer_of \<sigma>, txnBuffer (scanner \<sigma>))"
    using inv nc by (auto simp: scan_inv_def)
  then show ?thesis using w by (simp add: scan_output_def)
qed

end

section \<open>Time-tick order\<close>

text \<open>Messages outside transactions pass the transaction buffer unchanged.\<close>

lemma handle_loop_plain:
  "\<forall>m \<in> set ms. TxnContext m = None \<Longrightarrow> handle_loop B ms b = (Inr ms, b)"
  by (induction ms) (simp_all add: go_bind_def handle_one_def)

definition tick_of :: "scan_option \<Rightarrow> ImmutableMessage list \<Rightarrow> u64 list" where
  "tick_of C ms = map TimeTick (filter (\<lambda>m. MsgType m = MessageTypeTimeTick \<and> \<not> filtered C m) ms)"

context msg_heap
begin

lemma scan_ref_sorted:
  assumes "reorder_inv invar elems r" and "\<forall>m \<in># elems (messageHeap r). TxnContext m = None"
    and "\<forall>m \<in> set ms. TxnContext m = None" and "sorted (lastPopTimeTick r # tick_of C ms)"
    and "scan_ref H B C ms (r, b) = Some (out, st)"
  shows "ticks_sorted out \<and> (\<forall>m \<in> set out. lastPopTimeTick r \<le> TimeTick m)"
  using assms
proof (induction ms arbitrary: r b out)
  case Nil
  then show ?case by (simp add: ticks_sorted_def)
next
  case (Cons m ms)
  show ?case
  proof (cases "\<not> filtered C m \<and> MsgType m = MessageTypeTimeTick")
    case True
    let ?E = "elems (messageHeap r)" and ?t = "TimeTick m"
    obtain ps r' where p: "PopUtilTimeTick H ?t r = Some (Inr (ps, r'))" "reorder_inv invar elems r'"
      "ticks_sorted ps" "lastPopTimeTick r' = ?t"
      "mset ps = filter_mset (\<lambda>x. TimeTick x \<le> ?t) ?E"
      "elems (messageHeap r') = filter_mset (\<lambda>x. ?t < TimeTick x) ?E"
      using Pop_correct [OF Cons.prems(1), of ?t] by blast
    have "set ps = {x. x \<in># ?E \<and> TimeTick x \<le> ?t}"
      using arg_cong [OF p(5), of set_mset] by simp
    then have ps: "\<forall>x \<in> set ps. TxnContext x = None \<and> TimeTick x \<le> ?t \<and> lastPopTimeTick r \<le> TimeTick x"
      using Cons.prems(1,2) by (auto simp: reorder_inv_def buffer_ok_def)
    then have h: "handle_loop B ps b = (Inr ps, b)" by (simp add: handle_loop_plain)
    obtain outs where o: "scan_ref H B C ms (r', clearExpiredTxn B ?t b) = Some (outs, st)"
      "out = ps @ (if IsPersisted m then [m] else []) @ outs"
      using Cons.prems(5) True p(1) h by (auto simp: HandleImmutableMessages_def split: option.splits)
    have le: "lastPopTimeTick r \<le> ?t" and "sorted (lastPopTimeTick r' # tick_of C ms)"
      using Cons.prems(4) True p(4) by (auto simp: tick_of_def)
    moreover have "\<forall>x \<in># elems (messageHeap r'). TxnContext x = None"
      using p(6) Cons.prems(2) by simp
    ultimately have IH: "ticks_sorted outs" "\<forall>x \<in> set outs. ?t \<le> TimeTick x"
      using Cons.IH [OF p(2) _ _ _ o(1)] Cons.prems(3) p(4) by auto
    show ?thesis
      using p(3) IH ps le unfolding o(2)
      by (fastforce simp: ticks_sorted_def sorted_append)
  next
    case False
    have ticks: "tick_of C (m # ms) = tick_of C ms" using False by (auto simp: tick_of_def)
    show ?thesis
    proof (cases "filtered C m \<or> other_vchannel C m")
      case True
      then have "scan_ref H B C ms (r, b) = Some (out, st)"
        using Cons.prems(5) False by (auto split: if_splits)
      from Cons.IH [OF Cons.prems(1,2) _ _ this] Cons.prems(3,4) ticks show ?thesis by simp
    next
      case push: False
      let ?r = "snd (Reorder_Push H m r)"
      have r: "reorder_inv invar elems ?r" "lastPopTimeTick ?r = lastPopTimeTick r"
        "\<forall>x \<in># elems (messageHeap ?r). TxnContext x = None"
        using Push_cases [OF Cons.prems(1), of m] Cons.prems(1-3) by auto
      have "scan_ref H B C ms (?r, b) = Some (out, st)" using Cons.prems(5) False push by auto
      from Cons.IH [OF r(1,3) _ _ this] Cons.prems(3,4) r(2) ticks show ?thesis by simp
    qed
  qed
qed

end

section \<open>Properties of the scanner\<close>

text \<open>
  A plain list is a queue that keeps the contract.
\<close>

definition list_queue :: "ImmutableMessage list queue_ops" where
  "list_queue = \<lparr>mq_new = [], mq_Len = length, mq_Add = (\<lambda>ms q. q @ ms), mq_AddOne = (\<lambda>m q. q @ [m]),
     mq_Next = (\<lambda>q. case q of [] \<Rightarrow> None | m # _ \<Rightarrow> Some m), mq_UnsafeAdvance = tl\<rparr>"

lemma list_queue_ok: "queue_ok list_queue (\<lambda>q. q)"
  by (simp add: queue_ok_def list_queue_def)

definition example_txn_ops :: "ImmutableMessage list txn_ops" where
  "example_txn_ops = list_builder\<lparr>tb_build := \<lambda>m b. Inr (m\<lparr>MsgType := MessageTypeOther 2\<rparr>)\<rparr>"

definition example_option :: scan_option where
  "example_option = \<lparr>filterFunc = None, opt_VChannel = []\<rparr>"

definition example_tick :: "u64 \<Rightarrow> ImmutableMessage" where
  "example_tick t = \<lparr>TimeTick = t, MessageID = ''t'', EstimateSize = 1, TxnContext = None,
     MsgType = MessageTypeTimeTick, VChannel = [], IsPersisted = True\<rparr>"

definition example_log :: "ImmutableMessage list" where
  "example_log = [example_msg ''a'' 3, example_msg ''b'' 1, example_tick 5]"

definition example_after :: "(immutableMessageHeap, ImmutableMessage list, ImmutableMessage list) system"
  where
  "example_after = (init_system go_heap_ops list_queue example_log None)\<lparr>
     producer_at := P_recv, wal := [example_msg ''b'' 1, example_tick 5],
     scanner := (newScannerAdaptor go_heap_ops list_queue)\<lparr>reorderBuffer :=
       snd (Reorder_Push go_heap_ops (example_msg ''a'' 3) (NewReOrderBuffer go_heap_ops))\<rparr>\<rparr>"

lemma example_ok: "conv_ok example_txn_ops" "build_ok example_txn_ops"
  by (simp_all add: build_ok_def conv_ok_def example_txn_ops_def list_builder_def)

lemma example_run:
  "scan_run go_heap_ops example_txn_ops list_queue example_option [L_start, L_read, L_recv, L_hand]
     (init_system go_heap_ops list_queue example_log None) example_after"
proof -
  let ?step = "scan_step go_heap_ops example_txn_ops list_queue example_option"
  let ?s0 = "init_system go_heap_ops list_queue example_log None ::
    (immutableMessageHeap, ImmutableMessage list, ImmutableMessage list) system"
  let ?s1 = "?s0\<lparr>producer_at := P_create\<rparr>"
  let ?s2 = "?s1\<lparr>producer_at := P_recv\<rparr>"
  let ?s3 = "?s2\<lparr>producer_at := P_send (example_msg ''a'' 3), wal := [example_msg ''b'' 1, example_tick 5]\<rparr>"
  have "?step L_start ?s0 ?s1" by (rule scan_step.start) (simp_all add: init_system_def)
  moreover have "?step L_read ?s1 ?s2" by (rule scan_step.read_ok) simp
  moreover have "?step L_recv ?s2 ?s3"
    by (rule scan_step.recv) (simp_all add: init_system_def example_log_def)
  moreover have "?step L_hand ?s3 (?s3\<lparr>producer_at := P_recv, scanner := scanner example_after\<rparr>)"
    by (rule scan_step.hand [of _ "example_msg ''a'' 3"])
      (simp_all add: init_system_def handleUpstream_def filtered_def other_vchannel_def example_msg_def
        example_option_def example_after_def newScannerAdaptor_def NewPendingQueue_def list_queue_def)
  moreover have "?s3\<lparr>producer_at := P_recv, scanner := scanner example_after\<rparr> = example_after"
    by (simp add: example_after_def init_system_def)
  ultimately show ?thesis
    using run_snoc [OF run_snoc [OF run_snoc [OF run_snoc [OF run_nil]]]] by fastforce
qed

text \<open>
  Property C2. However the producer, the consumer, the user and a cancellation interleave, what the
  user has received and what still waits is, but for unpersisted time ticks, exactly what the
  sequential pipeline puts out for some prefix of the log: no message is lost, repeated or reordered
  by the concurrency, and the consumer never panics. Until a cancellation that prefix is the whole log
  less the messages the producer still has to hand over.
\<close>

theorem scan_refines_pipeline:
  assumes "conv_ok B" and "build_ok B" and "queue_ok Q waiting"
    and "scan_run go_heap_ops B Q C ls (init_system go_heap_ops Q log we) \<sigma>"
  shows "consumer_at \<sigma> \<notin> range C_panic \<and>
    (\<exists>consumed rest. log = consumed @ rest \<and>
      scan_output go_heap_ops B C consumed =
        Some (filter visible (delivered \<sigma> @ waiting (pq_queue (pendingQueue (scanner \<sigma>))))) \<and>
      (cancelled \<sigma> \<or> rest = in_hand (producer_at \<sigma>) @ wal \<sigma> \<or>
        (rest = [] \<and> producer_at \<sigma> \<in> range P_done)))"
proof -
  have inv: "scan_inv go_heap_ops B C waiting log \<sigma>"
    using go_heap.run_ok [OF assms go_heap.init_ok [OF assms(3)]] by blast
  then obtain consumed rest where cr: "log = consumed @ rest"
    "producer_at \<sigma> \<notin> range P_done \<Longrightarrow> rest = in_hand (producer_at \<sigma>) @ wal \<sigma>"
    "producer_at \<sigma> \<in> range P_done \<Longrightarrow> \<not> cancelled \<sigma> \<Longrightarrow> rest = []"
    "scan_output go_heap_ops B C consumed =
       Some (filter visible (delivered \<sigma> @ waiting (pq_queue (pendingQueue (scanner \<sigma>)))))"
    unfolding scan_inv_def scan_output_def by force
  then have "cancelled \<sigma> \<or> rest = in_hand (producer_at \<sigma>) @ wal \<sigma> \<or>
      (rest = [] \<and> producer_at \<sigma> \<in> range P_done)" by blast
  with cr(1,4) show ?thesis using inv unfolding scan_inv_def by blast
qed

theorem scan_refines_pipeline_witness:
  "\<exists>consumed rest. example_log = consumed @ rest \<and>
     scan_output go_heap_ops example_txn_ops example_option consumed = Some [] \<and>
     rest = [example_msg ''b'' 1, example_tick 5]"
  using scan_refines_pipeline [OF example_ok(1,2) list_queue_ok example_run]
  by (auto simp: example_after_def init_system_def newScannerAdaptor_def NewPendingQueue_def
      list_queue_def)



lemma tick_of_append: "tick_of C (ms @ ns) = tick_of C ms @ tick_of C ns"
  by (simp add: tick_of_def)



end
