(* ===== verification/Binlog_Event.thy ===== *)
theory Binlog_Event
  imports Go_Prelude Primary_Key
begin

text \<open>
  The event layout of binlog files, version 1 (\<^verbatim>\<open>storage/binlog/v1/event_header.go\<close>,
  \<^verbatim>\<open>event_data.go\<close>, \<^verbatim>\<open>event_reader.go\<close>): the 17-byte event header, the descriptor event with its
  52-byte fixed part, its post-header lengths and its JSON extras, and the two time stamps every other
  event starts with. The fixed layouts are interpretations of the locale \<open>fixed_codec\<close>.

  \<open>encoding/json\<close> on the extras is the record \<open>json_ops\<close>, an argument of the operations that call it.
\<close>

section \<open>Event headers\<close>

type_synonym EventTypeCode = i8

abbreviation DescriptorEventType :: EventTypeCode where "DescriptorEventType \<equiv> 0"
abbreviation InsertEventType :: EventTypeCode where "InsertEventType \<equiv> 1"
abbreviation DeleteEventType :: EventTypeCode where "DeleteEventType \<equiv> 2"
abbreviation CreateCollectionEventType :: EventTypeCode where "CreateCollectionEventType \<equiv> 3"
abbreviation DropCollectionEventType :: EventTypeCode where "DropCollectionEventType \<equiv> 4"
abbreviation CreatePartitionEventType :: EventTypeCode where "CreatePartitionEventType \<equiv> 5"
abbreviation DropPartitionEventType :: EventTypeCode where "DropPartitionEventType \<equiv> 6"
abbreviation IndexFileEventType :: EventTypeCode where "IndexFileEventType \<equiv> 7"
abbreviation EventTypeEnd :: EventTypeCode where "EventTypeEnd \<equiv> 8"

record baseEventHeader =
  hd_Timestamp :: u64
  hd_TypeCode :: EventTypeCode
  hd_EventLength :: i32
  hd_NextPosition :: i32

text \<open>\<open>binary.Size\<close> of the header struct.\<close>

definition header_GetMemoryUsageInBytes :: "baseEventHeader \<Rightarrow> i32" where
  "header_GetMemoryUsageInBytes header = 17"

definition baseEventHeader_Write :: "baseEventHeader \<Rightarrow> bytes" where
  "baseEventHeader_Write header =
     put_le 8 (hd_Timestamp header) @ put_le 1 (hd_TypeCode header) @
     put_le 4 (hd_EventLength header) @ put_le 4 (hd_NextPosition header)"

definition header_of_bytes :: "bytes \<Rightarrow> baseEventHeader" where
  "header_of_bytes bs =
     \<lparr>hd_Timestamp = get_le (take 8 bs), hd_TypeCode = get_le (take 1 (drop 8 bs)),
      hd_EventLength = get_le (take 4 (drop 9 bs)), hd_NextPosition = get_le (take 4 (drop 13 bs))\<rparr>"

definition readEventHeader :: "(bytes, baseEventHeader) go" where
  "readEventHeader = binary_read 17 header_of_bytes"

definition readDescriptorEventHeader :: "(bytes, baseEventHeader) go" where
  "readDescriptorEventHeader = binary_read 17 header_of_bytes"

definition newDescriptorEventHeader :: baseEventHeader where
  "newDescriptorEventHeader =
     \<lparr>hd_Timestamp = 0, hd_TypeCode = DescriptorEventType, hd_EventLength = 0, hd_NextPosition = 0\<rparr>"

definition newEventHeader :: "EventTypeCode \<Rightarrow> baseEventHeader" where
  "newEventHeader eventTypeCode =
     \<lparr>hd_Timestamp = 0, hd_TypeCode = eventTypeCode, hd_EventLength = -1, hd_NextPosition = -1\<rparr>"

section \<open>The time stamps of the other events\<close>

record event_times =
  StartTimestamp :: u64
  EndTimestamp :: u64

text \<open>One constructor per event struct of the source; they have the same two fields.\<close>

datatype eventData =
    insertEventData event_times
  | deleteEventData event_times
  | createCollectionEventData event_times
  | dropCollectionEventData event_times
  | createPartitionEventData event_times
  | dropPartitionEventData event_times
  | indexFileEventData event_times

fun event_times_of :: "eventData \<Rightarrow> event_times" where
  "event_times_of (insertEventData d) = d"
| "event_times_of (deleteEventData d) = d"
| "event_times_of (createCollectionEventData d) = d"
| "event_times_of (dropCollectionEventData d) = d"
| "event_times_of (createPartitionEventData d) = d"
| "event_times_of (dropPartitionEventData d) = d"
| "event_times_of (indexFileEventData d) = d"

fun SetEventTimestamp :: "u64 \<Rightarrow> u64 \<Rightarrow> eventData \<Rightarrow> eventData" where
  "SetEventTimestamp s e (insertEventData d) = insertEventData (d\<lparr>StartTimestamp := s, EndTimestamp := e\<rparr>)"
| "SetEventTimestamp s e (deleteEventData d) = deleteEventData (d\<lparr>StartTimestamp := s, EndTimestamp := e\<rparr>)"
| "SetEventTimestamp s e (createCollectionEventData d) =
     createCollectionEventData (d\<lparr>StartTimestamp := s, EndTimestamp := e\<rparr>)"
| "SetEventTimestamp s e (dropCollectionEventData d) =
     dropCollectionEventData (d\<lparr>StartTimestamp := s, EndTimestamp := e\<rparr>)"
| "SetEventTimestamp s e (createPartitionEventData d) =
     createPartitionEventData (d\<lparr>StartTimestamp := s, EndTimestamp := e\<rparr>)"
| "SetEventTimestamp s e (dropPartitionEventData d) =
     dropPartitionEventData (d\<lparr>StartTimestamp := s, EndTimestamp := e\<rparr>)"
| "SetEventTimestamp s e (indexFileEventData d) =
     indexFileEventData (d\<lparr>StartTimestamp := s, EndTimestamp := e\<rparr>)"

definition GetEventDataFixPartSize :: "eventData \<Rightarrow> i32" where
  "GetEventDataFixPartSize d = 16"

definition times_bytes :: "event_times \<Rightarrow> bytes" where
  "times_bytes d = put_le 8 (StartTimestamp d) @ put_le 8 (EndTimestamp d)"

definition times_of_bytes :: "bytes \<Rightarrow> event_times" where
  "times_of_bytes bs = \<lparr>StartTimestamp = get_le (take 8 bs), EndTimestamp = get_le (take 8 (drop 8 bs))\<rparr>"

definition WriteEventData :: "eventData \<Rightarrow> bytes result" where
  "WriteEventData d =
     (if StartTimestamp (event_times_of d) = 0 then Inl (Failure ''hasn't set start time stamp'')
      else if EndTimestamp (event_times_of d) = 0 then Inl (Failure ''hasn't set end time stamp'')
      else Inr (times_bytes (event_times_of d)))"

definition zero_times :: event_times where
  "zero_times = \<lparr>StartTimestamp = 0, EndTimestamp = 0\<rparr>"

definition read_times :: "(bytes, event_times) go" where
  "read_times = binary_read 16 times_of_bytes"

text \<open>\<open>readXxxEventDataFixPart\<close> and \<open>newXxxEventData\<close>: the constructor says which event.\<close>

definition readEventDataFixPart :: "(event_times \<Rightarrow> eventData) \<Rightarrow> (bytes, eventData) go" where
  "readEventDataFixPart mk = go_bind read_times (\<lambda>d. go_return (mk d))"

definition newEventData :: "(event_times \<Rightarrow> eventData) \<Rightarrow> eventData" where
  "newEventData mk = mk zero_times"

definition readInsertEventData :: "(bytes, eventData) go" where
  "readInsertEventData = readEventDataFixPart insertEventData"

definition ReadIndexFileEventData :: "(bytes, eventData) go" where
  "ReadIndexFileEventData = readEventDataFixPart indexFileEventData"

definition EventReader_ReadHeader :: "(bytes, baseEventHeader) go" where
  "EventReader_ReadHeader = readEventHeader"

definition EventReader_ReadData :: "EventTypeCode \<Rightarrow> (bytes, unit) go" where
  "EventReader_ReadData eventType =
     (if eventType = InsertEventType
      then go_bind (readEventDataFixPart insertEventData) (\<lambda>_. go_return ())
      else go_fail (Failure ''not supported yet''))"

section \<open>The descriptor event\<close>

record DescriptorEventDataFixPart =
  fp_CollectionID :: i64
  fp_PartitionID :: i64
  fp_SegmentID :: i64
  fp_FieldID :: i64
  fp_StartTimestamp :: u64
  fp_EndTimestamp :: u64
  fp_PayloadDataType :: DataType

type_synonym extras = "string \<Rightarrow> go_any option"

record descriptorEventData =
  fixPart :: DescriptorEventDataFixPart
  ExtraLength :: i32
  ExtraBytes :: bytes
  Extras :: extras
  PostHeaderLengths :: "u8 list"

record json_ops =
  json_Marshal :: "extras \<Rightarrow> bytes result"
  json_Unmarshal :: "bytes \<Rightarrow> extras result"

definition SetEventTimeStamp :: "u64 \<Rightarrow> u64 \<Rightarrow> descriptorEventData \<Rightarrow> descriptorEventData" where
  "SetEventTimeStamp s e data =
     data\<lparr>fixPart := (fixPart data)\<lparr>fp_StartTimestamp := s, fp_EndTimestamp := e\<rparr>\<rparr>"

definition descriptor_FixPartSize :: "descriptorEventData \<Rightarrow> i32" where
  "descriptor_FixPartSize data = 52"

definition descriptor_GetMemoryUsageInBytes :: "descriptorEventData \<Rightarrow> i32" where
  "descriptor_GetMemoryUsageInBytes data =
     descriptor_FixPartSize data + of_nat (length (PostHeaderLengths data)) + 4 + ExtraLength data"

definition AddExtra :: "string \<Rightarrow> go_any \<Rightarrow> descriptorEventData \<Rightarrow> descriptorEventData" where
  "AddExtra k v data = data\<lparr>Extras := (Extras data)(k \<mapsto> v)\<rparr>"

definition getEventFixPartSize :: "EventTypeCode \<Rightarrow> i32" where
  "getEventFixPartSize code =
     (if code = DescriptorEventType then 52
      else if code \<in> {InsertEventType, DeleteEventType, CreateCollectionEventType,
        DropCollectionEventType, CreatePartitionEventType, DropPartitionEventType,
        IndexFileEventType} then 16
      else -1)"

text \<open>The loop from \<open>DescriptorEventType\<close> up to \<open>EventTypeEnd\<close> keeps the low byte of each size.\<close>

definition newDescriptorEventData :: descriptorEventData where
  "newDescriptorEventData =
     \<lparr>fixPart = \<lparr>fp_CollectionID = -1, fp_PartitionID = -1, fp_SegmentID = -1, fp_FieldID = -1,
        fp_StartTimestamp = 0, fp_EndTimestamp = 0, fp_PayloadDataType = -1\<rparr>,
      ExtraLength = 0, ExtraBytes = [], Extras = Map.empty,
      PostHeaderLengths = map (\<lambda>i. ucast (getEventFixPartSize (of_nat i))) [0..<unat EventTypeEnd]\<rparr>"

text \<open>\<open>strconv.Atoi\<close>: an optional sign, then decimal digits whose value fits an \<open>int\<close>.\<close>

definition digit_value :: "char \<Rightarrow> nat option" where
  "digit_value c = (let n = of_char c :: nat in if 48 \<le> n \<and> n \<le> 57 then Some (n - 48) else None)"

fun digits_value :: "string \<Rightarrow> nat \<Rightarrow> nat option" where
  "digits_value [] acc = Some acc"
| "digits_value (c # cs) acc =
     (case digit_value c of None \<Rightarrow> None | Some d \<Rightarrow> digits_value cs (10 * acc + d))"

definition strconv_Atoi :: "string \<Rightarrow> int option" where
  "strconv_Atoi s =
     (let neg = (s \<noteq> [] \<and> hd s = CHR ''-'');
          body = (if s \<noteq> [] \<and> (hd s = CHR ''-'' \<or> hd s = CHR ''+'') then tl s else s)
      in if body = [] then None
         else (case digits_value body 0 of
                 None \<Rightarrow> None
               | Some n \<Rightarrow>
                   let v = (if neg then - int n else int n)
                   in if - (2 ^ 63) \<le> v \<and> v < 2 ^ 63 then Some v else None))"

abbreviation originalSizeKey :: string where "originalSizeKey \<equiv> ''original_size''"

definition FinishExtra :: "json_ops \<Rightarrow> (descriptorEventData, unit) go" where
  "FinishExtra J data =
     (case Extras data originalSizeKey of
        None \<Rightarrow> (Inl (Failure ''original_size not in extra''), data)
      | Some (Any_string sizeStr) \<Rightarrow>
          (case strconv_Atoi sizeStr of
             None \<Rightarrow> (Inl (Failure ''value of original_size must be able to be converted into int format''), data)
           | Some _ \<Rightarrow>
               (case json_Marshal J (Extras data) of
                  Inl e \<Rightarrow> (Inl e, data\<lparr>ExtraBytes := []\<rparr>)
                | Inr bs \<Rightarrow> (Inr (), data\<lparr>ExtraBytes := bs, ExtraLength := of_nat (length bs)\<rparr>)))
      | Some _ \<Rightarrow> (Inl (Failure ''value of original_size must in string format''), data))"

definition fixPart_bytes :: "DescriptorEventDataFixPart \<Rightarrow> bytes" where
  "fixPart_bytes p =
     put_le 8 (fp_CollectionID p) @ put_le 8 (fp_PartitionID p) @ put_le 8 (fp_SegmentID p) @
     put_le 8 (fp_FieldID p) @ put_le 8 (fp_StartTimestamp p) @ put_le 8 (fp_EndTimestamp p) @
     put_le 4 (fp_PayloadDataType p)"

definition fixPart_of_bytes :: "bytes \<Rightarrow> DescriptorEventDataFixPart" where
  "fixPart_of_bytes bs =
     \<lparr>fp_CollectionID = get_le (take 8 bs), fp_PartitionID = get_le (take 8 (drop 8 bs)),
      fp_SegmentID = get_le (take 8 (drop 16 bs)), fp_FieldID = get_le (take 8 (drop 24 bs)),
      fp_StartTimestamp = get_le (take 8 (drop 32 bs)), fp_EndTimestamp = get_le (take 8 (drop 40 bs)),
      fp_PayloadDataType = get_le (take 4 (drop 48 bs))\<rparr>"

definition descriptorEventData_Write :: "descriptorEventData \<Rightarrow> bytes" where
  "descriptorEventData_Write data =
     fixPart_bytes (fixPart data) @ PostHeaderLengths data @ put_le 4 (ExtraLength data) @ ExtraBytes data"

text \<open>\<open>make([]byte, n)\<close> panics for a negative length.\<close>

definition makeslice :: "int \<Rightarrow> nat result" where
  "makeslice n = (if n < 0 then Inl (Panic ''makeslice: len out of range'') else Inr (nat n))"

definition readDescriptorEventData :: "json_ops \<Rightarrow> (bytes, descriptorEventData) go" where
  "readDescriptorEventData J =
     (let event = newDescriptorEventData in
      go_bind (binary_read 52 fixPart_of_bytes) (\<lambda>fp.
      go_bind (read_full (length (PostHeaderLengths event))) (\<lambda>phl.
      go_bind (binary_read 4 get_le) (\<lambda>len.
      go_bind (go_lift (makeslice (sint (len :: i32)))) (\<lambda>n.
      go_bind (read_full n) (\<lambda>extraBytes.
      go_bind (go_lift (json_Unmarshal J extraBytes)) (\<lambda>extras.
        go_return (event\<lparr>fixPart := fp, PostHeaderLengths := phl, ExtraLength := len,
          ExtraBytes := extraBytes, Extras := extras\<rparr>))))))))"

section \<open>The fixed layouts keep the contract of a codec\<close>

text \<open>
  A layout decoded by \<open>binary_read\<close> keeps the contract as soon as encoder and decoder are inverse to
  each other on blocks of the layout's width.
\<close>

lemma binary_read_codec:
  assumes "\<And>a. length (enc a) = n" and "\<And>a. dec (enc a) = a"
    and "\<And>bs. length bs = n \<Longrightarrow> enc (dec bs) = bs"
  shows "fixed_codec n enc (binary_read n dec)"
proof
  show "length (enc a) = n" for a by (rule assms(1))
  show "binary_read n dec (enc a @ rest) = (Inr a, rest)" for a rest
    using assms(1,2) by simp
  show "length rd < n \<Longrightarrow> binary_read n dec rd = (Inl (if rd = [] then EOF else UnexpectedEOF), [])"
    for rd by (rule binary_read_short)
  show "n \<le> length rd \<Longrightarrow> \<exists>a. binary_read n dec rd = (Inr a, drop n rd)" for rd
    by (simp add: binary_read_def read_full_def go_bind_def)
  show "binary_read n dec rd = (Inr a, rd') \<Longrightarrow> rd = enc a @ rd'" for rd a rd'
    using assms(3) by (auto simp: binary_read_Inr_iff)
qed

text \<open>The bytes of consecutive fields, put back together.\<close>

lemma put_get_field:
  "length bs = k \<Longrightarrow> 8 * k \<le> LENGTH('a::len) \<Longrightarrow> put_le k (get_le bs :: 'a word) = bs"
  using put_get_le by blast

lemma fields_rejoin:
  "take a bs @ take b (drop a bs) = take (a + b) bs"
  by (simp add: take_add)

interpretation header_codec: fixed_codec 17 baseEventHeader_Write readEventHeader
  unfolding readEventHeader_def
proof (rule binary_read_codec)
  show "length (baseEventHeader_Write a) = 17" for a
    by (simp add: baseEventHeader_Write_def)
  show "header_of_bytes (baseEventHeader_Write a) = a" for a
    by (simp add: baseEventHeader_Write_def header_of_bytes_def)
  show "baseEventHeader_Write (header_of_bytes bs) = bs" if len: "length bs = 17" for bs
  proof -
    have "baseEventHeader_Write (header_of_bytes bs) =
        take 8 bs @ take 1 (drop 8 bs) @ take 4 (drop 9 bs) @ take 4 (drop 13 bs)"
      using len by (simp add: baseEventHeader_Write_def header_of_bytes_def put_get_field
          del: put_le.simps get_le.simps)
    also have "\<dots> = take 17 bs"
      using fields_rejoin [of 8 bs 1] fields_rejoin [of 9 bs 4] fields_rejoin [of 13 bs 4]
      by (simp flip: append_assoc)
    finally show ?thesis using len by simp
  qed
qed

interpretation times_codec: fixed_codec 16 times_bytes read_times
  unfolding read_times_def
proof (rule binary_read_codec)
  show "length (times_bytes a) = 16" for a
    by (simp add: times_bytes_def)
  show "times_of_bytes (times_bytes a) = a" for a
    by (simp add: times_bytes_def times_of_bytes_def)
  show "times_bytes (times_of_bytes bs) = bs" if len: "length bs = 16" for bs
    using len fields_rejoin [of 8 bs 8]
    by (simp add: times_bytes_def times_of_bytes_def put_get_field)
qed

interpretation fixPart_codec: fixed_codec 52 fixPart_bytes "binary_read 52 fixPart_of_bytes"
proof (rule binary_read_codec)
  show "length (fixPart_bytes a) = 52" for a
    by (simp add: fixPart_bytes_def)
  show "fixPart_of_bytes (fixPart_bytes a) = a" for a
    by (simp add: fixPart_bytes_def fixPart_of_bytes_def)
  show "fixPart_bytes (fixPart_of_bytes bs) = bs" if len: "length bs = 52" for bs
    using len fields_rejoin [of 48 bs 4] fields_rejoin [of 40 bs 8] fields_rejoin [of 32 bs 8]
      fields_rejoin [of 24 bs 8] fields_rejoin [of 16 bs 8] fields_rejoin [of 8 bs 8]
    by (simp add: fixPart_bytes_def fixPart_of_bytes_def put_get_field flip: append_assoc)
qed

interpretation i32_codec: fixed_codec 4 "put_le 4 :: i32 \<Rightarrow> bytes" "binary_read 4 get_le"
  by (rule binary_read_codec) (simp_all add: put_get_field)

end
