(* ===== verification/Binlog_Reader.thy ===== *)
theory Binlog_Reader
  imports Binlog_Event
begin

text \<open>
  Reading binlog files of version 1: the file header and the events behind it
  (\<^verbatim>\<open>storage/binlog/v1/binlog_reader.go\<close>, \<^verbatim>\<open>index_reader.go\<close>), and the columns of an event's Parquet
  payload (\<^verbatim>\<open>payload_reader.go\<close>). The Parquet library is the record \<open>pq_ops\<close>.
\<close>

section \<open>The file header\<close>

definition MagicNumberV1 :: i32 where
  "MagicNumberV1 = 0xfffabc"

record DescriptorEvent =
  de_header :: baseEventHeader
  de_data :: descriptorEventData

definition ReadDescriptorEvent :: "json_ops \<Rightarrow> (bytes, DescriptorEvent) go" where
  "ReadDescriptorEvent J =
     go_bind readDescriptorEventHeader (\<lambda>header.
     go_bind (readDescriptorEventData J) (\<lambda>data.
       go_return \<lparr>de_header = header, de_data = data\<rparr>))"

definition ReadMagicNumber :: "(bytes, i32) go" where
  "ReadMagicNumber =
     go_bind (binary_read 4 get_le) (\<lambda>magicNumber.
       if magicNumber \<noteq> MagicNumberV1 then go_fail (Failure ''parse magic number failed'')
       else go_return magicNumber)"

text \<open>The reader holds the descriptor event; the unread bytes are the state it works on.\<close>

definition NewBinlogReader :: "json_ops \<Rightarrow> (bytes, DescriptorEvent) go" where
  "NewBinlogReader J = go_bind ReadMagicNumber (\<lambda>_. ReadDescriptorEvent J)"

definition NewIndexReader :: "json_ops \<Rightarrow> (bytes, DescriptorEvent) go" where
  "NewIndexReader J = go_bind ReadMagicNumber (\<lambda>_. ReadDescriptorEvent J)"

definition GetMapping :: "DescriptorEvent \<Rightarrow> i64 \<Rightarrow> nat option" where
  "GetMapping de = [fp_FieldID (fixPart (de_data de)) \<mapsto> 0]"

section \<open>Parquet payloads\<close>

text \<open>
  What the readers use of the Parquet library: opening a buffer, the row groups, their row counts,
  the column chunk of a group, and \<open>ReadBatch\<close>, which is \<open>None\<close> when the chunk has another physical
  type than the caller asks for, and otherwise answers the total count and the values it stored at the
  front of the buffer it was given (at most as many as fit).
\<close>

record ('f, 'g, 'c, 'v) pq_ops =
  pq_open :: "bytes \<Rightarrow> 'f result"
  pq_groups :: "'f \<Rightarrow> 'g list"
  pq_NumRows :: "'g \<Rightarrow> i64"
  pq_Column :: "'g \<Rightarrow> nat \<Rightarrow> 'c result"
  pq_ReadBatch :: "'c \<Rightarrow> (i64 \<Rightarrow> nat \<Rightarrow> (i64 \<times> 'v list) result) option"

text \<open>Storing values at the front of a slice.\<close>

definition overlay :: "'v list \<Rightarrow> 'v list \<Rightarrow> 'v list" where
  "overlay vs buf = take (length buf) vs @ drop (length vs) buf"

text \<open>
  The loop over the row groups. The slice handed to \<open>ReadBatch\<close> is \<open>result[offset:rowCount]\<close> with an
  \<open>offset\<close> that stays zero, so every group is stored at the front.
\<close>

definition read_group :: "('f, 'g, 'c, 'v) pq_ops \<Rightarrow> nat \<Rightarrow> 'g \<Rightarrow> 'v list \<Rightarrow> 'v list result" where
  "read_group Pq colIdx rowGroup buf =
     res_bind (pq_Column Pq rowGroup colIdx) (\<lambda>cc.
       (case pq_ReadBatch Pq cc of
          None \<Rightarrow> Inl (Failure ''column chunk reader conversion failed'')
        | Some readBatch \<Rightarrow>
            res_bind (readBatch (pq_NumRows Pq rowGroup) (length buf)) (\<lambda>(total, vs).
              if total \<noteq> pq_NumRows Pq rowGroup \<or> of_nat (length vs) \<noteq> pq_NumRows Pq rowGroup
              then Inl (Failure ''row count not matched'')
              else Inr (overlay vs buf))))"

definition readPayloadAll :: "('f, 'g, 'c, 'v) pq_ops \<Rightarrow> 'v \<Rightarrow> nat \<Rightarrow> 'f \<Rightarrow> 'v list result" where
  "readPayloadAll Pq zero colIdx r =
     (let rowCount = sum_list (map (pq_NumRows Pq) (pq_groups Pq r))
      in res_bind (makeslice (sint rowCount)) (\<lambda>n.
           res_fold (read_group Pq colIdx) (pq_groups Pq r) (replicate n zero)))"

text \<open>
  The body of an event: \<open>EventLength\<close> less the two fixed parts, computed in \<open>int32\<close>. The readers of
  insert and index events ignore a short read and go on with a buffer that is zero where the file ended.
\<close>

definition payload_len :: "baseEventHeader \<Rightarrow> eventData \<Rightarrow> i32" where
  "payload_len header d = hd_EventLength header - header_GetMemoryUsageInBytes header - GetEventDataFixPartSize d"

definition read_padded :: "nat \<Rightarrow> (bytes, bytes) go" where
  "read_padded n rd = (Inr (take n rd @ replicate (n - length rd) 0), drop n rd)"

definition read_event_body :: "(bytes, eventData) go \<Rightarrow> (bytes, bytes) go" where
  "read_event_body readEventData =
     go_bind EventReader_ReadHeader (\<lambda>header.
     go_bind readEventData (\<lambda>d.
     go_bind (go_lift (makeslice (sint (payload_len header d)))) read_padded))"

definition readData :: "('f, 'g, 'c, 'v) pq_ops \<Rightarrow> 'v \<Rightarrow> nat \<Rightarrow> (bytes, 'v list) go" where
  "readData Pq zero colIdx =
     go_bind (read_event_body readInsertEventData) (\<lambda>data.
     go_bind (go_lift (pq_open Pq data)) (\<lambda>pqReader.
       go_lift (readPayloadAll Pq zero colIdx pqReader)))"

definition readDataTrans :: "('f, 'g, 'c, 'v) pq_ops \<Rightarrow> 'v \<Rightarrow> nat \<Rightarrow> ('v \<Rightarrow> 'u) \<Rightarrow> (bytes, 'u list) go" where
  "readDataTrans Pq zero colIdx tr =
     go_bind (readData Pq zero colIdx) (\<lambda>data. go_return (map tr data))"

definition NextInt64EventReader :: "('f, 'g, 'c, i64) pq_ops \<Rightarrow> (bytes, i64 list) go" where
  "NextInt64EventReader Pq = readData Pq 0 0"

definition NextInt32EventReader :: "('f, 'g, 'c, i32) pq_ops \<Rightarrow> (bytes, i32 list) go" where
  "NextInt32EventReader Pq = readData Pq 0 0"

definition NextInt8EventReader :: "('f, 'g, 'c, i32) pq_ops \<Rightarrow> (bytes, i8 list) go" where
  "NextInt8EventReader Pq = readDataTrans Pq 0 0 ucast"

definition NextInt16EventReader :: "('f, 'g, 'c, i32) pq_ops \<Rightarrow> (bytes, u16 list) go" where
  "NextInt16EventReader Pq = readDataTrans Pq 0 0 ucast"

definition NextBoolEventReader :: "('f, 'g, 'c, bool) pq_ops \<Rightarrow> (bytes, bool list) go" where
  "NextBoolEventReader Pq = readData Pq False 0"

definition NextVarcharEventReader :: "('f, 'g, 'c, bytes) pq_ops \<Rightarrow> (bytes, string list) go" where
  "NextVarcharEventReader Pq = readDataTrans Pq [] 0 string_of_bytes"

definition NextByteSliceEventReader :: "('f, 'g, 'c, bytes) pq_ops \<Rightarrow> (bytes, bytes list) go" where
  "NextByteSliceEventReader Pq = readDataTrans Pq [] 0 (\<lambda>v. v)"

definition NextBinaryVectorEventReader :: "('f, 'g, 'c, bytes) pq_ops \<Rightarrow> (bytes, bytes list) go" where
  "NextBinaryVectorEventReader Pq = readDataTrans Pq [] 0 (\<lambda>v. v)"

text \<open>Reinterpreting the bytes of a vector as 32-bit floats (kept as their bit patterns).\<close>

fun floats_of_bytes :: "nat \<Rightarrow> bytes \<Rightarrow> u32 list" where
  "floats_of_bytes 0 bs = []"
| "floats_of_bytes (Suc n) bs = get_le (take 4 bs) # floats_of_bytes n (drop 4 bs)"

definition bytes_to_vector :: "bytes \<Rightarrow> u32 list" where
  "bytes_to_vector v = (let dim = length v div 4 in floats_of_bytes dim (take (4 * dim) v))"

definition NextFloatVectorEventReader :: "('f, 'g, 'c, bytes) pq_ops \<Rightarrow> (bytes, u32 list list) go" where
  "NextFloatVectorEventReader Pq = readDataTrans Pq [] 0 bytes_to_vector"

definition NextRecordReader :: "(bytes \<Rightarrow> 'r result) \<Rightarrow> (bytes, 'r) go" where
  "NextRecordReader openRecords =
     go_bind (read_event_body readInsertEventData) (\<lambda>data. go_lift (openRecords data))"

section \<open>ParquetPayloadReader and the index reader\<close>

definition NewParquetPayloadReader :: "('f, 'g, 'c, 'v) pq_ops \<Rightarrow> bytes \<Rightarrow> 'f result" where
  "NewParquetPayloadReader Pq buf =
     (if buf = [] then Inl (Failure ''create PayloadReader with empty buf'') else pq_open Pq buf)"

definition GetStringFromPayload :: "('f, 'g, 'c, bytes) pq_ops \<Rightarrow> nat \<Rightarrow> 'f \<Rightarrow> string list result" where
  "GetStringFromPayload Pq colIdx r =
     res_bind (readPayloadAll Pq [] colIdx r) (\<lambda>byteArr. Inr (map string_of_bytes byteArr))"

definition GetBytesFromPayload :: "('f, 'g, 'c, i32) pq_ops \<Rightarrow> nat \<Rightarrow> 'f \<Rightarrow> bytes result" where
  "GetBytesFromPayload Pq colIdx r =
     res_bind (readPayloadAll Pq 0 colIdx r) (\<lambda>data. Inr (map ucast data))"

definition GetInt8FromPayLoad :: "('f, 'g, 'c, i32) pq_ops \<Rightarrow> nat \<Rightarrow> 'f \<Rightarrow> i8 list result" where
  "GetInt8FromPayLoad Pq colIdx r =
     res_bind (readPayloadAll Pq 0 colIdx r) (\<lambda>data. Inr (map ucast data))"

definition GetInt16FromPayLoad :: "('f, 'g, 'c, i32) pq_ops \<Rightarrow> nat \<Rightarrow> 'f \<Rightarrow> u16 list result" where
  "GetInt16FromPayLoad Pq colIdx r =
     res_bind (readPayloadAll Pq 0 colIdx r) (\<lambda>data. Inr (map ucast data))"

definition GetInt32FromPayLoad :: "('f, 'g, 'c, i32) pq_ops \<Rightarrow> nat \<Rightarrow> 'f \<Rightarrow> i32 list result" where
  "GetInt32FromPayLoad Pq colIdx r = readPayloadAll Pq 0 colIdx r"

definition GetInt64sFromPayload :: "('f, 'g, 'c, i64) pq_ops \<Rightarrow> nat \<Rightarrow> 'f \<Rightarrow> i64 list result" where
  "GetInt64sFromPayload Pq colIdx r = readPayloadAll Pq 0 colIdx r"

definition GetBytesSliceFromPayload :: "('f, 'g, 'c, bytes) pq_ops \<Rightarrow> nat \<Rightarrow> 'f \<Rightarrow> bytes list result" where
  "GetBytesSliceFromPayload Pq colIdx r = readPayloadAll Pq [] colIdx r"

definition GetFloatVectorFromPayload :: "('f, 'g, 'c, bytes) pq_ops \<Rightarrow> nat \<Rightarrow> 'f \<Rightarrow> u32 list list result" where
  "GetFloatVectorFromPayload Pq colIdx r =
     res_bind (readPayloadAll Pq [] colIdx r) (\<lambda>data. Inr (map bytes_to_vector data))"

text \<open>
  One Parquet file is opened with the value type its column is read at; both views share the library.
\<close>

definition IndexReader_NextEventReader :: "('f, 'g, 'c, bytes) pq_ops \<Rightarrow> ('f, 'g, 'c, i32) pq_ops \<Rightarrow>
    DataType \<Rightarrow> (bytes, bytes list) go" where
  "IndexReader_NextEventReader PqB PqI dataType =
     go_bind (read_event_body ReadIndexFileEventData) (\<lambda>data.
     go_bind (go_lift (NewParquetPayloadReader PqB data)) (\<lambda>pr.
       go_lift
         (if dataType = DataType_String then
            res_bind (GetStringFromPayload PqB 0 pr) (\<lambda>result. Inr (map bytes_of_string result))
          else if dataType = DataType_Int8 then
            res_bind (GetBytesFromPayload PqI 0 pr) (\<lambda>result. Inr [result])
          else Inl (Failure ''unexpected data type''))))"

section \<open>Reading back what was written\<close>

text \<open>The bytes of a file up to its first event, and when a descriptor event is ready to be written.\<close>

definition file_header_bytes :: "DescriptorEvent \<Rightarrow> bytes" where
  "file_header_bytes e =
     put_le 4 MagicNumberV1 @ baseEventHeader_Write (de_header e) @ descriptorEventData_Write (de_data e)"

definition descriptor_ok :: "json_ops \<Rightarrow> descriptorEventData \<Rightarrow> bool" where
  "descriptor_ok J d \<longleftrightarrow>
     length (PostHeaderLengths d) = 8 \<and> length (ExtraBytes d) < 2 ^ 31 \<and>
     ExtraLength d = of_nat (length (ExtraBytes d)) \<and> json_Unmarshal J (ExtraBytes d) = Inr (Extras d)"

lemma sint_of_nat_i32: "n < 2 ^ 31 \<Longrightarrow> sint (of_nat n :: i32) = int n"
  by (simp add: signed_of_nat signed_take_bit_int_eq_self)

lemma length_new_PostHeaderLengths: "length (PostHeaderLengths newDescriptorEventData) = 8"
  by (simp add: newDescriptorEventData_def)

lemma reads_descriptor_data:
  assumes "descriptor_ok J d"
  shows "reads (readDescriptorEventData J) (descriptorEventData_Write d) d"
proof -
  have eq: "newDescriptorEventData\<lparr>fixPart := fixPart d, PostHeaderLengths := PostHeaderLengths d,
      ExtraLength := ExtraLength d, ExtraBytes := ExtraBytes d, Extras := Extras d\<rparr> = d"
    by (simp add: newDescriptorEventData_def)
  show ?thesis
    unfolding readDescriptorEventData_def descriptorEventData_Write_def Let_def
  proof (rule reads_bind [OF fixPart_codec.reads_dec], rule reads_bind [OF reads_full],
      goal_cases)
    case 1
    then show ?case using assms by (simp add: descriptor_ok_def length_new_PostHeaderLengths)
  next
    case 2
    show ?case
    proof (rule reads_bind [OF i32_codec.reads_dec], rule reads_lift [of _ "length (ExtraBytes d)"], goal_cases)
      case 1
      then show ?case using assms by (simp add: descriptor_ok_def makeslice_def sint_of_nat_i32)
    next
      case 2
      show ?case
      proof (rule reads_bind_last [OF reads_full], goal_cases)
        case 1
        then show ?case using assms by (simp add: descriptor_ok_def sint_of_nat_i32)
      next
        case 2
        show ?case
        proof (rule reads_lift [of _ "Extras d"])
          show "json_Unmarshal J (ExtraBytes d) = Inr (Extras d)"
            using assms by (simp add: descriptor_ok_def)
        qed (use eq reads_return [of d] in \<open>simp only:\<close>)
      qed
    qed
  qed
qed

lemma reads_magic: "reads ReadMagicNumber (put_le 4 MagicNumberV1) MagicNumberV1"
  unfolding ReadMagicNumber_def
  by (rule reads_bind_last [OF i32_codec.reads_dec]) (simp add: reads_return)

lemma reads_descriptor_event:
  assumes "descriptor_ok J (de_data e)"
  shows "reads (ReadDescriptorEvent J)
    (baseEventHeader_Write (de_header e) @ descriptorEventData_Write (de_data e)) e"
proof -
  have hdr: "readDescriptorEventHeader = readEventHeader"
    by (simp add: readDescriptorEventHeader_def readEventHeader_def)
  have "reads (go_return \<lparr>de_header = de_header e, de_data = de_data e\<rparr>) [] e"
    using reads_return [of e] by (cases e) simp
  then show ?thesis
    unfolding ReadDescriptorEvent_def hdr
    by (intro reads_bind [OF header_codec.reads_dec] reads_bind_last [OF reads_descriptor_data [OF assms]])
qed

lemma reads_binlog_header:
  assumes "descriptor_ok J (de_data e)"
  shows "reads (NewBinlogReader J) (file_header_bytes e) e"
  unfolding NewBinlogReader_def file_header_bytes_def
  by (rule reads_bind [OF reads_magic]) (rule reads_descriptor_event [OF assms])

lemma FinishExtra_ok:
  assumes "FinishExtra J d0 = (Inr (), d)" and "length (PostHeaderLengths d0) = 8"
    and "json_Unmarshal J (ExtraBytes d) = Inr (Extras d)" and "length (ExtraBytes d) < 2 ^ 31"
  shows "descriptor_ok J d"
  using assms
  by (auto simp: FinishExtra_def descriptor_ok_def split: option.splits go_any.splits sum.splits)

section \<open>Properties of the readers\<close>

text \<open>
  Property C9. A file header is read back as it was written: with the extras finished by
  \<open>FinishExtra\<close>, \<open>NewBinlogReader\<close> on the magic number, the descriptor header and the descriptor data
  returns exactly that event and leaves the reader at the first byte behind it, whatever follows; on
  every proper prefix of these bytes it reports the end of the file, never a half-read event.
\<close>

theorem NewBinlogReader_roundtrip:
  assumes "FinishExtra J d0 = (Inr (), d)" and "length (PostHeaderLengths d0) = 8"
    and "json_Unmarshal J (ExtraBytes d) = Inr (Extras d)" and "length (ExtraBytes d) < 2 ^ 31"
    and "e = \<lparr>de_header = h, de_data = d\<rparr>"
  shows "NewBinlogReader J (file_header_bytes e @ rest) = (Inr e, rest) \<and>
    (\<forall>n < length (file_header_bytes e).
      \<exists>err \<in> {EOF, UnexpectedEOF}. NewBinlogReader J (take n (file_header_bytes e)) = (Inl err, []))"
proof -
  have "descriptor_ok J (de_data e)"
    using FinishExtra_ok [OF assms(1-4)] assms(5) by simp
  from readsD [OF reads_binlog_header [OF this]] show ?thesis by blast
qed

text \<open>A codec for the one extra every file has.\<close>

definition size_json :: json_ops where
  "size_json = \<lparr>
     json_Marshal = (\<lambda>x. case x originalSizeKey of Some (Any_string s) \<Rightarrow> Inr (bytes_of_string s)
        | _ \<Rightarrow> Inl (Failure ''unsupported'')),
     json_Unmarshal = (\<lambda>bs. Inr [originalSizeKey \<mapsto> Any_string (string_of_bytes bs)])\<rparr>"

theorem NewBinlogReader_roundtrip_witness:
  "\<exists>d. NewBinlogReader size_json
      (file_header_bytes \<lparr>de_header = newDescriptorEventHeader, de_data = d\<rparr> @ [1, 2]) =
        (Inr \<lparr>de_header = newDescriptorEventHeader, de_data = d\<rparr>, [1, 2])"
proof -
  let ?d0 = "AddExtra originalSizeKey (Any_string ''42'') newDescriptorEventData"
  let ?d = "?d0\<lparr>ExtraBytes := bytes_of_string ''42'', ExtraLength := 2\<rparr>"
  have "FinishExtra size_json ?d0 = (Inr (), ?d)"
    by (simp add: FinishExtra_def AddExtra_def newDescriptorEventData_def size_json_def strconv_Atoi_def
        digit_value_def Let_def)
  from NewBinlogReader_roundtrip [OF this, of _ newDescriptorEventHeader "[1, 2]"] show ?thesis
    by (auto simp: AddExtra_def newDescriptorEventData_def size_json_def intro!: exI [of _ ?d])
qed

lemma read_event_body_exact:
  assumes mk: "rd = readEventDataFixPart mk" and len: "33 + length payload < 2 ^ 31"
    and h: "hd_EventLength h = of_nat (33 + length payload)"
  shows "read_event_body rd (baseEventHeader_Write h @ times_bytes t @ payload @ rest) =
    (Inr payload, rest)"
proof -
  have "payload_len h (mk t) = of_nat (length payload)"
    using h by (simp add: payload_len_def header_GetMemoryUsageInBytes_def GetEventDataFixPartSize_def)
  then have "makeslice (sint (payload_len h (mk t))) = Inr (length payload)"
    using len by (simp add: makeslice_def sint_of_nat_i32)
  then show ?thesis
    by (simp add: read_event_body_def EventReader_ReadHeader_def mk readEventDataFixPart_def go_bind_def
        header_codec.dec_enc times_codec.dec_enc read_padded_def)
qed

text \<open>
  Property C10. \<open>readData\<close> consumes exactly one insert event: of an event whose length field counts the
  header, the time stamps and the payload, it hands the payload, and nothing else, to the Parquet
  library and leaves the reader at the next event, so consecutive calls read consecutive events. A
  length field below the 33 bytes of the two fixed parts makes it panic.
\<close>

theorem readData_one_event:
  assumes "33 + length payload < 2 ^ 31" and "hd_EventLength h = of_nat (33 + length payload)"
    and "0 \<le> sint (hd_EventLength bad)" and "sint (hd_EventLength bad) < 33"
  shows "readData Pq z c (baseEventHeader_Write h @ times_bytes t @ payload @ rest) =
      (res_bind (pq_open Pq payload) (readPayloadAll Pq z c), rest) \<and>
    readData Pq z c (baseEventHeader_Write bad @ times_bytes t @ rest) =
      (Inl (Panic ''makeslice: len out of range''), rest)"
proof
  show "readData Pq z c (baseEventHeader_Write h @ times_bytes t @ payload @ rest) =
      (res_bind (pq_open Pq payload) (readPayloadAll Pq z c), rest)"
    using read_event_body_exact [OF readInsertEventData_def assms(1,2), of t rest]
    by (cases "pq_open Pq payload") (simp_all add: readData_def go_bind_def)
  have sub: "sint (w - 33) = sint w - 33" if "0 \<le> sint w" for w :: i32
  proof -
    have "sint w < 2 ^ 31" using sint_lt [of w] by simp
    then show ?thesis
      using that by (simp add: sint_word_ariths signed_take_bit_int_eq_self)
  qed
  have "payload_len bad (insertEventData t) = hd_EventLength bad - 33"
    by (simp add: payload_len_def header_GetMemoryUsageInBytes_def GetEventDataFixPartSize_def)
  then have "sint (payload_len bad (insertEventData t)) < 0"
    using sub [OF assms(3)] assms(4) by simp
  then show "readData Pq z c (baseEventHeader_Write bad @ times_bytes t @ rest) =
      (Inl (Panic ''makeslice: len out of range''), rest)"
    by (simp add: readData_def read_event_body_def EventReader_ReadHeader_def readInsertEventData_def
        readEventDataFixPart_def go_bind_def header_codec.dec_enc times_codec.dec_enc makeslice_def)
qed

text \<open>A Parquet library of files with one column of one type, given by the values of its row groups.\<close>

definition simple_pq :: "('v list list, 'v list, 'v list, 'v) pq_ops" where
  "simple_pq = \<lparr>pq_open = (\<lambda>_. Inr []), pq_groups = (\<lambda>f. f), pq_NumRows = (\<lambda>g. of_nat (length g)),
     pq_Column = (\<lambda>g i. if i = 0 then Inr g else Inl (Failure ''no such column'')),
     pq_ReadBatch = (\<lambda>c. Some (\<lambda>n cap. Inr (of_nat (length c), take cap c)))\<rparr>"

theorem readData_one_event_witness:
  "readData simple_pq (0 :: i64) 0
     (baseEventHeader_Write ((newEventHeader InsertEventType)\<lparr>hd_EventLength := 35\<rparr>) @
      times_bytes zero_times @ [7, 8] @ [9]) = (Inr [], [9]) \<and>
   readData simple_pq (0 :: i64) 0
     (baseEventHeader_Write ((newEventHeader InsertEventType)\<lparr>hd_EventLength := 32\<rparr>) @
      times_bytes zero_times @ [9]) = (Inl (Panic ''makeslice: len out of range''), [9])"
  using readData_one_event [of "[7, 8]" "(newEventHeader InsertEventType)\<lparr>hd_EventLength := 35\<rparr>"
      "(newEventHeader InsertEventType)\<lparr>hd_EventLength := 32\<rparr>"
      "simple_pq :: (i64 list list, i64 list, i64 list, i64) pq_ops" 0 0 zero_times "[9]"]
  by (simp add: newEventHeader_def simple_pq_def readPayloadAll_def makeslice_def)

text \<open>
  What the loop over the row groups computes: every group's values are stored at the front of the
  result, over those of the groups before it.
\<close>

definition group_values :: "('f, 'g, 'c, 'v) pq_ops \<Rightarrow> nat \<Rightarrow> 'g \<Rightarrow> 'v list \<Rightarrow> bool" where
  "group_values Pq colIdx g vs \<longleftrightarrow>
     pq_NumRows Pq g = of_nat (length vs) \<and>
     (\<exists>cc rb. pq_Column Pq g colIdx = Inr cc \<and> pq_ReadBatch Pq cc = Some rb \<and>
        (\<forall>cap \<ge> length vs. rb (of_nat (length vs)) cap = Inr (of_nat (length vs), vs)))"

lemma length_overlay [simp]: "length vs \<le> length buf \<Longrightarrow> length (overlay vs buf) = length buf"
  by (simp add: overlay_def)

lemma read_group_values:
  "group_values Pq c g vs \<Longrightarrow> length vs \<le> length buf \<Longrightarrow> read_group Pq c g buf = Inr (overlay vs buf)"
  by (auto simp: group_values_def read_group_def)

lemma read_groups:
  assumes "list_all2 (group_values Pq c) gs vss" and "\<forall>vs \<in> set vss. length vs \<le> length buf"
  shows "res_fold (read_group Pq c) gs buf = Inr (fold overlay vss buf)"
  using assms
proof (induction gs vss arbitrary: buf rule: list_all2_induct)
  case Nil
  then show ?case by simp
next
  case (Cons g gs vs vss)
  then show ?case by (simp add: read_group_values)
qed

lemma sum_NumRows:
  "list_all2 (group_values Pq c) gs vss \<Longrightarrow>
   sum_list (map (pq_NumRows Pq) gs) = of_nat (sum_list (map length vss))"
  by (induction rule: list_all2_induct) (simp_all add: group_values_def)

lemma readPayloadAll_groups:
  assumes g: "list_all2 (group_values Pq c) (pq_groups Pq r) vss"
    and small: "sum_list (map length vss) < 2 ^ 63"
  shows "readPayloadAll Pq z c r =
    Inr (fold overlay vss (replicate (sum_list (map length vss)) z))"
proof -
  have "length vs \<le> sum_list (map length vss)" if "vs \<in> set vss" for vs
    using that member_le_sum_list [of "length vs" "map length vss"] by simp
  with read_groups [OF g, of "replicate (sum_list (map length vss)) z"] show ?thesis
    using sum_NumRows [OF g] small by (simp add: readPayloadAll_def makeslice_def sint_of_nat_small)
qed

text \<open>
  \<open>readPayloadAll\<close> returns the column of a file with a single row group as it is. Of a
  file with two row groups it returns as many rows, but stores the second group over the first: the
  result starts with the second group's values and ends in a zero value.
\<close>

theorem readPayloadAll_row_groups:
  assumes "pq_groups Pq r1 = [g]" and "group_values Pq c g vs" and "length vs < 2 ^ 63"
    and "pq_groups Pq r2 = [g, g']" and "group_values Pq c g' vs'" and "length vs + length vs' < 2 ^ 63"
  shows "readPayloadAll Pq z c r1 = Inr vs \<and>
    (\<exists>tail. readPayloadAll Pq z c r2 = Inr (vs' @ tail) \<and> length tail = length vs \<and>
      (vs \<noteq> [] \<and> vs' \<noteq> [] \<longrightarrow> last tail = z))"
proof
  show "readPayloadAll Pq z c r1 = Inr vs"
    using readPayloadAll_groups [of Pq c r1 "[vs]" z] assms by (simp add: overlay_def)
  have "readPayloadAll Pq z c r2 =
      Inr (overlay vs' (overlay vs (replicate (length vs + length vs') z)))"
    using readPayloadAll_groups [of Pq c r2 "[vs, vs']" z] assms by simp
  moreover have "overlay vs' (overlay vs (replicate (length vs + length vs') z)) =
      vs' @ drop (length vs') (vs @ replicate (length vs') z)"
    by (simp add: overlay_def)
  moreover have "last (drop (length vs') (vs @ replicate (length vs') z)) = z" if "vs \<noteq> []" "vs' \<noteq> []"
  proof -
    have "last (vs @ replicate (length vs') z) = z" using that by (simp add: last_replicate)
    then show ?thesis using that by (subst last_drop) auto
  qed
  ultimately show "\<exists>tail. readPayloadAll Pq z c r2 = Inr (vs' @ tail) \<and> length tail = length vs \<and>
      (vs \<noteq> [] \<and> vs' \<noteq> [] \<longrightarrow> last tail = z)"
    by (intro exI [of _ "drop (length vs') (vs @ replicate (length vs') z)"]) simp
qed

theorem readPayloadAll_row_groups_witness:
  "readPayloadAll simple_pq (0 :: i64) 0 [[1, 2]] = Inr [1, 2] \<and>
   (\<exists>tail. readPayloadAll simple_pq (0 :: i64) 0 [[1, 2], [3]] = Inr ([3] @ tail) \<and> last tail = 0)"
proof -
  have "group_values simple_pq 0 [1, 2 :: i64] [1, 2]" "group_values simple_pq 0 [3 :: i64] [3]"
    by (simp_all add: group_values_def simple_pq_def)
  from readPayloadAll_row_groups [where ?r1.0 = "[[1, 2]]" and ?r2.0 = "[[1, 2], [3]]" and z = 0,
      OF _ this(1) _ _ this(2)]
  show ?thesis by (auto simp: simple_pq_def)
qed

end
