(* ===== verification/Storage_Select.thy ===== *)
theory Storage_Select
  imports Go_Prelude Primary_Key "HOL-Library.AList"
begin

text \<open>
  Which binlog files of a segment are read together (\<^verbatim>\<open>storage/common/binlog_selector.go\<close>,
  \<^verbatim>\<open>batch_iterator.go\<close>): the three selectors and the iterator over the batches of a segment. The
  function that opens a path (\<open>translator\<close>) is an argument, as in the code.

  The contract the iterator relies on is the locale \<open>binlog_selector\<close>; the selectors are its
  interpretations.
\<close>

section \<open>Segments\<close>

record Binlog =
  bl_EntriesNum :: i64
  bl_TimestampFrom :: u64
  bl_TimestampTo :: u64
  bl_LogPath :: string
  bl_LogSize :: i64
  bl_LogID :: i64
  bl_MemSize :: i64

record FieldBinlog =
  fb_FieldID :: i64
  fb_Binlogs :: "Binlog list"
  fb_ChildFields :: "i64 list"

text \<open>The part of a segment the readers use.\<close>

record Segment =
  seg_ID :: i64
  seg_StorageVersion :: i64
  seg_Binlogs :: "FieldBinlog list"

section \<open>Selectors\<close>

text \<open>A Go map is an association list in its (unspecified) iteration order.\<close>

type_synonym selection = "(i64 \<times> string) list"

text \<open>The loop all selectors share: the end of any column ends the batch.\<close>

fun select_loop :: "(i64 \<Rightarrow> bool) \<Rightarrow> FieldBinlog list \<Rightarrow> nat \<Rightarrow> selection \<Rightarrow> selection result" where
  "select_loop sel [] batchIdx result = Inr result"
| "select_loop sel (binlog # binlogs) batchIdx result =
     (if length (fb_Binlogs binlog) \<le> batchIdx then Inl EOF
      else if \<not> sel (fb_FieldID binlog) then select_loop sel binlogs batchIdx result
      else select_loop sel binlogs batchIdx
             (AList.update (fb_FieldID binlog) (bl_LogPath (fb_Binlogs binlog ! batchIdx)) result))"

definition FieldIDSelector_SelectBinlogs :: "i64 list \<Rightarrow> FieldBinlog list \<Rightarrow> nat \<Rightarrow> selection result" where
  "FieldIDSelector_SelectBinlogs selectedFields binlogs batchIdx =
     (if binlogs = [] then Inl EOF
      else select_loop (\<lambda>f. f \<in> set selectedFields) binlogs batchIdx [])"

definition AllSelector_SelectBinlogs :: "FieldBinlog list \<Rightarrow> nat \<Rightarrow> selection result" where
  "AllSelector_SelectBinlogs binlogs batchIdx = select_loop (\<lambda>_. True) binlogs batchIdx []"

definition MatchingWideColumnSelector_SelectBinlogs ::
    "i64 list \<Rightarrow> FieldBinlog list \<Rightarrow> nat \<Rightarrow> selection result" where
  "MatchingWideColumnSelector_SelectBinlogs selectedFields binlogs batchIdx =
     (if binlogs = [] then Inl EOF
      else select_loop (\<lambda>f. \<not> (100 \<le> sint f \<and> f \<notin> set selectedFields)) binlogs batchIdx [])"

section \<open>The batch iterator\<close>

record 'rs BatchInfo =
  bi_SegmentID :: i64
  bi_BatchIdx :: nat
  bi_Output :: "(i64 \<times> 'rs) list"
  bi_TargetBinlogs :: selection

record SegmentBatchIterator =
  sbi_segment :: Segment
  currentBatch :: nat

type_synonym selector = "FieldBinlog list \<Rightarrow> nat \<Rightarrow> selection result"

definition NewSegmentBatchIterator :: "Segment \<Rightarrow> SegmentBatchIterator" where
  "NewSegmentBatchIterator segment = \<lparr>sbi_segment = segment, currentBatch = 0\<rparr>"

definition open_one :: "(string \<Rightarrow> 'rs result) \<Rightarrow> i64 \<times> string \<Rightarrow>
    (i64 \<times> 'rs) list \<times> selection \<Rightarrow> ((i64 \<times> 'rs) list \<times> selection) result" where
  "open_one translator fp acc =
     (case fp of (fieldID, binlogPath) \<Rightarrow>
        res_bind (translator binlogPath) (\<lambda>rs.
          Inr (AList.update fieldID rs (fst acc), AList.update fieldID binlogPath (snd acc))))"

definition NextBatch :: "selector \<Rightarrow> (string \<Rightarrow> 'rs result) \<Rightarrow> (SegmentBatchIterator, 'rs BatchInfo) go" where
  "NextBatch select translator sbi =
     (case select (seg_Binlogs (sbi_segment sbi)) (currentBatch sbi) of
        Inl e \<Rightarrow> (Inl e, sbi)
      | Inr targetFields \<Rightarrow>
          (case res_fold (open_one translator) targetFields ([], []) of
             Inl e \<Rightarrow> (Inl e, sbi)
           | Inr (out, targets) \<Rightarrow>
               (Inr \<lparr>bi_SegmentID = seg_ID (sbi_segment sbi), bi_BatchIdx = currentBatch sbi,
                     bi_Output = out, bi_TargetBinlogs = targets\<rparr>,
                sbi\<lparr>currentBatch := currentBatch sbi + 1\<rparr>)))"

section \<open>What a selector promises\<close>

definition batches :: "FieldBinlog list \<Rightarrow> nat" where
  "batches bs = (if bs = [] then 0 else Min ((length \<circ> fb_Binlogs) ` set bs))"

definition wanted :: "(i64 \<Rightarrow> bool) \<Rightarrow> FieldBinlog list \<Rightarrow> nat \<Rightarrow> selection" where
  "wanted sel bs i =
     map (\<lambda>b. (fb_FieldID b, bl_LogPath (fb_Binlogs b ! i))) (filter (\<lambda>b. sel (fb_FieldID b)) bs)"

text \<open>
  The contract: the batches of a segment with columns are those all its columns have; each holds
  exactly the wanted columns' files of that index, and behind them there is the end of the data.
\<close>

locale binlog_selector =
  fixes select :: selector
    and sel :: "i64 \<Rightarrow> bool"
  assumes select_batch: "bs \<noteq> [] \<Longrightarrow> distinct (map fb_FieldID bs) \<Longrightarrow> i < batches bs \<Longrightarrow>
      select bs i = Inr (wanted sel bs i)"
    and select_end: "bs \<noteq> [] \<Longrightarrow> batches bs \<le> i \<Longrightarrow> select bs i = Inl EOF"

lemma select_loop_end:
  "b \<in> set bs \<Longrightarrow> length (fb_Binlogs b) \<le> i \<Longrightarrow> select_loop sel bs i acc = Inl EOF"
  by (induction bs arbitrary: acc) auto

lemma update_fresh: "k \<notin> fst ` set al \<Longrightarrow> AList.update k v al = al @ [(k, v)]"
  by (induction al) auto

lemma select_loop_wanted:
  assumes "\<forall>b \<in> set bs. i < length (fb_Binlogs b)" and "distinct (map fb_FieldID bs)"
    and "fst ` set acc \<inter> fb_FieldID ` set bs = {}"
  shows "select_loop sel bs i acc = Inr (acc @ wanted sel bs i)"
  using assms
proof (induction bs arbitrary: acc)
  case Nil
  then show ?case by (simp add: wanted_def)
next
  case (Cons b bs)
  have "fb_FieldID b \<notin> fst ` set acc" using Cons.prems(3) by auto
  then have upd: "AList.update (fb_FieldID b) p acc = acc @ [(fb_FieldID b, p)]" for p
    by (rule update_fresh)
  have "fst ` set (acc @ [(fb_FieldID b, p)]) \<inter> fb_FieldID ` set bs = {}" for p
    using Cons.prems(2,3) by auto
  with Cons show ?case by (auto simp: upd wanted_def simp del: AList.update.simps)
qed

lemma batches_less: "bs \<noteq> [] \<Longrightarrow> i < batches bs \<longleftrightarrow> (\<forall>b \<in> set bs. i < length (fb_Binlogs b))"
  by (auto simp: batches_def)

lemma select_loop_batch:
  assumes "bs \<noteq> []" and "distinct (map fb_FieldID bs)" and "i < batches bs"
  shows "select_loop sel bs i [] = Inr (wanted sel bs i)"
  using assms select_loop_wanted [of bs i "[]" sel] by (simp add: batches_less)

lemma select_loop_no_batch:
  assumes "bs \<noteq> []" and "batches bs \<le> i"
  shows "select_loop sel bs i acc = Inl EOF"
  using assms batches_less [of bs i] select_loop_end by (metis not_le)

interpretation field_selector: binlog_selector "FieldIDSelector_SelectBinlogs fs" "\<lambda>f. f \<in> set fs"
  for fs
  by unfold_locales
    (simp_all add: FieldIDSelector_SelectBinlogs_def select_loop_batch select_loop_no_batch)

interpretation all_selector: binlog_selector AllSelector_SelectBinlogs "\<lambda>_. True"
  by unfold_locales (simp_all add: AllSelector_SelectBinlogs_def select_loop_batch select_loop_no_batch)

interpretation wide_selector: binlog_selector "MatchingWideColumnSelector_SelectBinlogs fs"
    "\<lambda>f. \<not> (100 \<le> sint f \<and> f \<notin> set fs)"
  for fs
  by unfold_locales
    (simp_all add: MatchingWideColumnSelector_SelectBinlogs_def select_loop_batch select_loop_no_batch)

section \<open>Walking a segment\<close>

text \<open>A caller that asks for batches until an error, at most \<open>fuel\<close> times.\<close>

fun walk :: "nat \<Rightarrow> selector \<Rightarrow> (string \<Rightarrow> 'rs result) \<Rightarrow> SegmentBatchIterator \<Rightarrow>
    ('rs BatchInfo list \<times> go_error) option" where
  "walk 0 select translator sbi = None"
| "walk (Suc fuel) select translator sbi =
     (case NextBatch select translator sbi of
        (Inl e, _) \<Rightarrow> Some ([], e)
      | (Inr info, sbi') \<Rightarrow> map_option (\<lambda>(infos, e). (info # infos, e)) (walk fuel select translator sbi'))"

definition batch_of :: "(i64 \<Rightarrow> bool) \<Rightarrow> (string \<Rightarrow> 'rs) \<Rightarrow> Segment \<Rightarrow> nat \<Rightarrow> 'rs BatchInfo" where
  "batch_of sel rs s i = \<lparr>bi_SegmentID = seg_ID s, bi_BatchIdx = i,
     bi_Output = map (\<lambda>(f, p). (f, rs p)) (wanted sel (seg_Binlogs s) i),
     bi_TargetBinlogs = wanted sel (seg_Binlogs s) i\<rparr>"

lemma open_all:
  assumes "\<And>p. translator p = Inr (rs p)" and "distinct (map fst fps)"
    and "fst ` set out \<inter> fst ` set fps = {}" and "fst ` set tgt \<inter> fst ` set fps = {}"
  shows "res_fold (open_one translator) fps (out, tgt) =
    Inr (out @ map (\<lambda>(f, p). (f, rs p)) fps, tgt @ fps)"
  using assms(2-4)
proof (induction fps arbitrary: out tgt)
  case Nil
  then show ?case by simp
next
  case (Cons fp fps)
  obtain f p where fp: "fp = (f, p)" by force
  have "open_one translator fp (out, tgt) = Inr (out @ [(f, rs p)], tgt @ [(f, p)])"
    using Cons.prems fp by (simp add: open_one_def assms(1) update_fresh)
  with Cons fp show ?case by auto
qed

context binlog_selector
begin

lemma NextBatch_batch:
  assumes "\<And>p. translator p = Inr (rs p)" and "seg_Binlogs (sbi_segment sbi) \<noteq> []"
    and "distinct (map fb_FieldID (seg_Binlogs (sbi_segment sbi)))"
    and "currentBatch sbi < batches (seg_Binlogs (sbi_segment sbi))"
  shows "NextBatch select translator sbi =
    (Inr (batch_of sel rs (sbi_segment sbi) (currentBatch sbi)), sbi\<lparr>currentBatch := currentBatch sbi + 1\<rparr>)"
proof -
  let ?w = "wanted sel (seg_Binlogs (sbi_segment sbi)) (currentBatch sbi)"
  have "distinct (map fst ?w)"
    using assms(3) by (simp add: wanted_def comp_def distinct_map_filter)
  from open_all [OF assms(1) this, of "[]" "[]"] show ?thesis
    using select_batch [OF assms(2-4)] by (simp add: NextBatch_def batch_of_def)
qed

lemma walk_all:
  assumes t: "\<And>p. translator p = Inr (rs p)" and "seg_Binlogs s \<noteq> []"
    and "distinct (map fb_FieldID (seg_Binlogs s))"
    and "i \<le> batches (seg_Binlogs s)" and "batches (seg_Binlogs s) - i < fuel"
  shows "walk fuel select translator \<lparr>sbi_segment = s, currentBatch = i\<rparr> =
    Some (map (batch_of sel rs s) [i..<batches (seg_Binlogs s)], EOF)"
  using assms(4,5)
proof (induction fuel arbitrary: i)
  case 0
  then show ?case by simp
next
  case (Suc fuel)
  let ?n = "batches (seg_Binlogs s)"
  show ?case
  proof (cases "i < ?n")
    case True
    then have "walk fuel select translator \<lparr>sbi_segment = s, currentBatch = i + 1\<rparr> =
        Some (map (batch_of sel rs s) [i + 1..<?n], EOF)"
      using Suc by (intro Suc.IH) auto
    then show ?thesis
      using NextBatch_batch [OF t, of "\<lparr>sbi_segment = s, currentBatch = i\<rparr>"] True assms(2,3)
      by (simp add: upt_conv_Cons)
  next
    case False
    then show ?thesis
      using select_end [of "seg_Binlogs s" i] assms(2) by (simp add: NextBatch_def)
  qed
qed

end

section \<open>Properties\<close>

text \<open>
  Property C11. Walking a segment that has columns visits its batches once each, in order, and then
  reports the end of the data: for storage versions 0 and 1 every batch opens exactly the selected
  fields' files of that index, for version 2 also every column group that is not a single wide field.
  The number of batches is the length of the shortest column, and one call more than that is enough.
\<close>

theorem segment_walk_complete:
  assumes "\<And>p. translator p = Inr (rs p)" and "seg_Binlogs s \<noteq> []"
    and "distinct (map fb_FieldID (seg_Binlogs s))" and "batches (seg_Binlogs s) < fuel"
  shows "walk fuel (FieldIDSelector_SelectBinlogs fs) translator (NewSegmentBatchIterator s) =
      Some (map (batch_of (\<lambda>f. f \<in> set fs) rs s) [0..<batches (seg_Binlogs s)], EOF) \<and>
    walk fuel (MatchingWideColumnSelector_SelectBinlogs fs) translator (NewSegmentBatchIterator s) =
      Some (map (batch_of (\<lambda>f. sint f < 100 \<or> f \<in> set fs) rs s) [0..<batches (seg_Binlogs s)], EOF)"
proof -
  have "(\<lambda>f :: i64. \<not> (100 \<le> sint f \<and> f \<notin> set fs)) = (\<lambda>f. sint f < 100 \<or> f \<in> set fs)"
    by auto
  moreover have "walk fuel (FieldIDSelector_SelectBinlogs fs) translator \<lparr>sbi_segment = s, currentBatch = 0\<rparr> =
      Some (map (batch_of (\<lambda>f. f \<in> set fs) rs s) [0..<batches (seg_Binlogs s)], EOF)"
    by (rule field_selector.walk_all) (use assms in simp_all)
  moreover have "walk fuel (MatchingWideColumnSelector_SelectBinlogs fs) translator
        \<lparr>sbi_segment = s, currentBatch = 0\<rparr> =
      Some (map (batch_of (\<lambda>f. \<not> (100 \<le> sint f \<and> f \<notin> set fs)) rs s) [0..<batches (seg_Binlogs s)], EOF)"
    by (rule wide_selector.walk_all) (use assms in simp_all)
  ultimately show ?thesis by (simp only: NewSegmentBatchIterator_def)
qed

definition example_binlog :: "string \<Rightarrow> Binlog" where
  "example_binlog p = \<lparr>bl_EntriesNum = 1, bl_TimestampFrom = 0, bl_TimestampTo = 0, bl_LogPath = p,
     bl_LogSize = 0, bl_LogID = 0, bl_MemSize = 0\<rparr>"

definition example_segment :: Segment where
  "example_segment = \<lparr>seg_ID = 7, seg_StorageVersion = 1, seg_Binlogs =
     [\<lparr>fb_FieldID = 100, fb_Binlogs = [example_binlog ''a0'', example_binlog ''a1''], fb_ChildFields = []\<rparr>,
      \<lparr>fb_FieldID = 101, fb_Binlogs = [example_binlog ''b0'', example_binlog ''b1''], fb_ChildFields = []\<rparr>]\<rparr>"

theorem segment_walk_complete_witness:
  "walk 3 (FieldIDSelector_SelectBinlogs [101]) Inr (NewSegmentBatchIterator example_segment) =
     Some ([\<lparr>bi_SegmentID = 7, bi_BatchIdx = 0, bi_Output = [(101, ''b0'')], bi_TargetBinlogs = [(101, ''b0'')]\<rparr>,
            \<lparr>bi_SegmentID = 7, bi_BatchIdx = 1, bi_Output = [(101, ''b1'')], bi_TargetBinlogs = [(101, ''b1'')]\<rparr>],
           EOF)"
  using segment_walk_complete [of Inr "\<lambda>p. p" example_segment 3 "[101]"]
  by (simp add: example_segment_def example_binlog_def batches_def wanted_def batch_of_def upt_conv_Cons)

text \<open>
  For a segment without any binlog the two selectors that look at field identifiers end
  the walk at once, but with \<open>AllSelector\<close> the iterator never reports the end: it hands out empty
  batches for as long as it is asked.
\<close>

theorem empty_segment_walk:
  assumes "seg_Binlogs s = []"
  shows "walk (Suc n) (FieldIDSelector_SelectBinlogs fs) translator (NewSegmentBatchIterator s) = Some ([], EOF) \<and>
    walk (Suc n) (MatchingWideColumnSelector_SelectBinlogs fs) translator (NewSegmentBatchIterator s) =
      Some ([], EOF) \<and>
    walk fuel AllSelector_SelectBinlogs translator (NewSegmentBatchIterator s) = None"
proof -
  have "walk fuel AllSelector_SelectBinlogs translator \<lparr>sbi_segment = s, currentBatch = i\<rparr> = None" for i
    using assms
    by (induction fuel arbitrary: i) (simp_all add: NextBatch_def AllSelector_SelectBinlogs_def)
  with assms show ?thesis
    by (simp add: NewSegmentBatchIterator_def NextBatch_def FieldIDSelector_SelectBinlogs_def
        MatchingWideColumnSelector_SelectBinlogs_def)
qed

theorem empty_segment_walk_witness:
  "walk 5 AllSelector_SelectBinlogs Inr
     (NewSegmentBatchIterator \<lparr>seg_ID = 1, seg_StorageVersion = 1, seg_Binlogs = []\<rparr>) = None"
  using empty_segment_walk [of "\<lparr>seg_ID = 1, seg_StorageVersion = 1, seg_Binlogs = []\<rparr>" 0 "[]" Inr 5]
  by simp

end
