(* ===== verification/Storage_Serde.thy ===== *)
theory Storage_Serde
  imports Binlog_Reader
begin

text \<open>
  The conversion between column arrays and Go values (\<^verbatim>\<open>storage/common/data_type.go\<close>): one entry per
  data type with its Arrow type, its serializer and its deserializer, and the table \<open>SerdeMap\<close>.

  The Arrow library is the record \<open>arrow_ops\<close>; what the entries rely on is \<open>arrow_ok\<close>: a builder
  collects values and nulls in order, and the array made of it gives them back. \<open>proto.Marshal\<close> and
  \<open>proto.Unmarshal\<close> of a \<open>ScalarField\<close> are part of the same record.
\<close>

section \<open>What the entries use of the Arrow library\<close>

text \<open>The dynamic type of an array or of a builder.\<close>

datatype arrow_kind =
    K_Boolean | K_Int8 | K_Int16 | K_Int32 | K_Int64 | K_Float32 | K_Float64 | K_String | K_Binary
  | K_FixedSizeBinary | K_other nat

datatype ArrowDataType = Arrow_plain arrow_kind | Arrow_fixed int

record ('arr, 'bld) arrow_ops =
  ar_IsNull :: "'arr \<Rightarrow> nat \<Rightarrow> bool"
  ar_Len :: "'arr \<Rightarrow> nat"
  ar_kind :: "'arr \<Rightarrow> arrow_kind"
  ar_Value :: "'arr \<Rightarrow> nat \<Rightarrow> go_any"
  bd_kind :: "'bld \<Rightarrow> arrow_kind"
  bd_AppendNull :: "'bld \<Rightarrow> 'bld"
  bd_Append :: "go_any \<Rightarrow> 'bld \<Rightarrow> 'bld"
  bd_NewArray :: "'bld \<Rightarrow> 'arr"
  proto_Marshal :: "string \<Rightarrow> bytes option"
  proto_Unmarshal :: "bytes \<Rightarrow> string option"

definition arrow_ok :: "('arr, 'bld) arrow_ops \<Rightarrow> ('bld \<Rightarrow> go_any option list) \<Rightarrow> bool" where
  "arrow_ok A items \<longleftrightarrow>
     (\<forall>b. items (bd_AppendNull A b) = items b @ [None]) \<and>
     (\<forall>v b. items (bd_Append A v b) = items b @ [Some v]) \<and>
     (\<forall>v b. bd_kind A (bd_Append A v b) = bd_kind A b) \<and>
     (\<forall>b. bd_kind A (bd_AppendNull A b) = bd_kind A b) \<and>
     (\<forall>b. ar_kind A (bd_NewArray A b) = bd_kind A b) \<and>
     (\<forall>b. ar_Len A (bd_NewArray A b) = length (items b)) \<and>
     (\<forall>b i. i < length (items b) \<longrightarrow>
        (ar_IsNull A (bd_NewArray A b) i \<longleftrightarrow> items b ! i = None) \<and>
        (\<forall>v. items b ! i = Some v \<longrightarrow> ar_Value A (bd_NewArray A b) i = v)) \<and>
     (\<forall>m bs. proto_Marshal A m = Some bs \<longrightarrow> proto_Unmarshal A bs = Some m)"

section \<open>Entries\<close>

text \<open>\<open>Deserialize\<close> returns the value and \<open>ok\<close>; \<open>Serialize\<close> returns \<open>ok\<close> and the builder.\<close>

record ('arr, 'bld) SerdeEntry =
  se_ArrowType :: "int \<Rightarrow> ArrowDataType"
  se_Deserialize :: "'arr \<Rightarrow> nat \<Rightarrow> go_any \<times> bool"
  se_Serialize :: "'bld \<Rightarrow> go_any \<Rightarrow> bool \<times> 'bld"

text \<open>The shape all deserializers share: null, then the type check and the bound, then the value.\<close>

definition deserialize_as :: "('arr, 'bld) arrow_ops \<Rightarrow> arrow_kind \<Rightarrow> (go_any \<Rightarrow> go_any option) \<Rightarrow>
    'arr \<Rightarrow> nat \<Rightarrow> go_any \<times> bool" where
  "deserialize_as A k conv a i =
     (if ar_IsNull A a i then (Any_nil, True)
      else if ar_kind A a = k \<and> i < ar_Len A a
      then (case conv (ar_Value A a i) of Some v \<Rightarrow> (v, True) | None \<Rightarrow> (Any_nil, False))
      else (Any_nil, False))"

text \<open>And all serializers: nil, then the two type checks, then append.\<close>

definition serialize_as :: "('arr, 'bld) arrow_ops \<Rightarrow> arrow_kind \<Rightarrow> (go_any \<Rightarrow> go_any option) \<Rightarrow>
    'bld \<Rightarrow> go_any \<Rightarrow> bool \<times> 'bld" where
  "serialize_as A k conv b v =
     (if v = Any_nil then (True, bd_AppendNull A b)
      else if bd_kind A b = k
      then (case conv v of Some w \<Rightarrow> (True, bd_Append A w b) | None \<Rightarrow> (False, b))
      else (False, b))"

definition plain_entry :: "('arr, 'bld) arrow_ops \<Rightarrow> arrow_kind \<Rightarrow> (go_any \<Rightarrow> bool) \<Rightarrow>
    ('arr, 'bld) SerdeEntry" where
  "plain_entry A k is_type =
     \<lparr>se_ArrowType = (\<lambda>_. Arrow_plain k),
      se_Deserialize = deserialize_as A k Some,
      se_Serialize = serialize_as A k (\<lambda>v. if is_type v then Some v else None)\<rparr>"

fun is_bool :: "go_any \<Rightarrow> bool" where "is_bool (Any_bool _) = True" | "is_bool _ = False"
fun is_int8 :: "go_any \<Rightarrow> bool" where "is_int8 (Any_int8 _) = True" | "is_int8 _ = False"
fun is_int16 :: "go_any \<Rightarrow> bool" where "is_int16 (Any_int16 _) = True" | "is_int16 _ = False"
fun is_int32 :: "go_any \<Rightarrow> bool" where "is_int32 (Any_int32 _) = True" | "is_int32 _ = False"
fun is_int64 :: "go_any \<Rightarrow> bool" where "is_int64 (Any_int64 _) = True" | "is_int64 _ = False"
fun is_float32 :: "go_any \<Rightarrow> bool" where "is_float32 (Any_float32 _) = True" | "is_float32 _ = False"
fun is_float64 :: "go_any \<Rightarrow> bool" where "is_float64 (Any_float64 _) = True" | "is_float64 _ = False"
fun is_string :: "go_any \<Rightarrow> bool" where "is_string (Any_string _) = True" | "is_string _ = False"
fun is_bytes :: "go_any \<Rightarrow> bool" where "is_bytes (Any_bytes _) = True" | "is_bytes _ = False"
fun is_floats :: "go_any \<Rightarrow> bool" where "is_floats (Any_float32s _) = True" | "is_floats _ = False"
fun is_message :: "go_any \<Rightarrow> bool" where "is_message (Any_message _) = True" | "is_message _ = False"

definition boolEntry where "boolEntry A = plain_entry A K_Boolean is_bool"
definition int8Entry where "int8Entry A = plain_entry A K_Int8 is_int8"
definition int16Entry where "int16Entry A = plain_entry A K_Int16 is_int16"
definition int32Entry where "int32Entry A = plain_entry A K_Int32 is_int32"
definition int64Entry where "int64Entry A = plain_entry A K_Int64 is_int64"
definition floatEntry where "floatEntry A = plain_entry A K_Float32 is_float32"
definition doubleEntry where "doubleEntry A = plain_entry A K_Float64 is_float64"
definition stringEntry where "stringEntry A = plain_entry A K_String is_string"

fun from_scalar :: "('arr, 'bld) arrow_ops \<Rightarrow> go_any \<Rightarrow> go_any option" where
  "from_scalar A (Any_message m) = map_option Any_bytes (proto_Marshal A m)"
| "from_scalar A _ = None"

fun to_scalar :: "('arr, 'bld) arrow_ops \<Rightarrow> go_any \<Rightarrow> go_any option" where
  "to_scalar A (Any_bytes bs) = map_option Any_message (proto_Unmarshal A bs)"
| "to_scalar A _ = None"

definition eagerArrayEntry :: "('arr, 'bld) arrow_ops \<Rightarrow> ('arr, 'bld) SerdeEntry" where
  "eagerArrayEntry A =
     \<lparr>se_ArrowType = (\<lambda>_. Arrow_plain K_Binary),
      se_Deserialize = deserialize_as A K_Binary (to_scalar A),
      se_Serialize = serialize_as A K_Binary (from_scalar A)\<rparr>"

definition byteEntry :: "('arr, 'bld) arrow_ops \<Rightarrow> ('arr, 'bld) SerdeEntry" where
  "byteEntry A =
     \<lparr>se_ArrowType = (\<lambda>_. Arrow_plain K_Binary),
      se_Deserialize = deserialize_as A K_Binary Some,
      se_Serialize = serialize_as A K_Binary (\<lambda>v. if is_bytes v then Some v else from_scalar A v)\<rparr>"

definition fixedSizeDeserializer :: "('arr, 'bld) arrow_ops \<Rightarrow> 'arr \<Rightarrow> nat \<Rightarrow> go_any \<times> bool" where
  "fixedSizeDeserializer A = deserialize_as A K_FixedSizeBinary Some"

definition fixedSizeSerializer :: "('arr, 'bld) arrow_ops \<Rightarrow> 'bld \<Rightarrow> go_any \<Rightarrow> bool \<times> 'bld" where
  "fixedSizeSerializer A = serialize_as A K_FixedSizeBinary (\<lambda>v. if is_bytes v then Some v else None)"

text \<open>Go's division truncates towards zero.\<close>

definition binaryVectorEntry :: "('arr, 'bld) arrow_ops \<Rightarrow> ('arr, 'bld) SerdeEntry" where
  "binaryVectorEntry A =
     \<lparr>se_ArrowType = (\<lambda>i. Arrow_fixed (sgn (i + 7) * (\<bar>i + 7\<bar> div 8))),
      se_Deserialize = fixedSizeDeserializer A, se_Serialize = fixedSizeSerializer A\<rparr>"

fun Bytes2Float16_loop :: "nat \<Rightarrow> bytes \<Rightarrow> u16 list" where
  "Bytes2Float16_loop 0 b = []"
| "Bytes2Float16_loop (Suc n) b = get_le (take 2 b) # Bytes2Float16_loop n (drop 2 b)"

definition Bytes2Float16 :: "bytes \<Rightarrow> u16 list" where
  "Bytes2Float16 b = Bytes2Float16_loop (length b div 2) b"

definition BFloat16Bytes2Float32 :: "bytes \<Rightarrow> u32 list" where
  "BFloat16Bytes2Float32 b = map (\<lambda>w. push_bit 16 (ucast w)) (Bytes2Float16_loop (length b div 2) b)"

fun to_float16s :: "go_any \<Rightarrow> go_any option" where
  "to_float16s (Any_bytes bs) = Some (Any_float16s (Bytes2Float16 bs))"
| "to_float16s _ = None"

fun to_bfloat16s :: "go_any \<Rightarrow> go_any option" where
  "to_bfloat16s (Any_bytes bs) = Some (Any_float32s (BFloat16Bytes2Float32 bs))"
| "to_bfloat16s _ = None"

fun to_floats :: "go_any \<Rightarrow> go_any option" where
  "to_floats (Any_bytes bs) = Some (Any_float32s (bytes_to_vector bs))"
| "to_floats _ = None"

fun from_floats :: "go_any \<Rightarrow> go_any option" where
  "from_floats (Any_float32s vv) = Some (Any_bytes (concat (map (put_le 4) vv)))"
| "from_floats _ = None"

definition float16VectorEntry :: "('arr, 'bld) arrow_ops \<Rightarrow> ('arr, 'bld) SerdeEntry" where
  "float16VectorEntry A =
     \<lparr>se_ArrowType = (\<lambda>i. Arrow_fixed (i * 2)),
      se_Deserialize = deserialize_as A K_FixedSizeBinary to_float16s,
      se_Serialize = fixedSizeSerializer A\<rparr>"

definition bfloat16VectorEntry :: "('arr, 'bld) arrow_ops \<Rightarrow> ('arr, 'bld) SerdeEntry" where
  "bfloat16VectorEntry A =
     \<lparr>se_ArrowType = (\<lambda>i. Arrow_fixed (i * 2)),
      se_Deserialize = deserialize_as A K_FixedSizeBinary to_bfloat16s,
      se_Serialize = fixedSizeSerializer A\<rparr>"

definition floatVectorEntry :: "('arr, 'bld) arrow_ops \<Rightarrow> ('arr, 'bld) SerdeEntry" where
  "floatVectorEntry A =
     \<lparr>se_ArrowType = (\<lambda>i. Arrow_fixed (i * 4)),
      se_Deserialize = deserialize_as A K_FixedSizeBinary to_floats,
      se_Serialize = serialize_as A K_FixedSizeBinary from_floats\<rparr>"


definition SerdeMap :: "('arr, 'bld) arrow_ops \<Rightarrow> DataType \<Rightarrow> ('arr, 'bld) SerdeEntry option" where
  "SerdeMap A = map_of
     [(DataType_Bool, boolEntry A), (DataType_Int8, int8Entry A), (DataType_Int16, int16Entry A),
      (DataType_Int32, int32Entry A), (DataType_Int64, int64Entry A), (DataType_Float, floatEntry A),
      (DataType_Double, doubleEntry A), (DataType_VarChar, stringEntry A),
      (DataType_String, stringEntry A), (DataType_Array, eagerArrayEntry A),
      (DataType_JSON, byteEntry A), (DataType_BinaryVector, binaryVectorEntry A),
      (DataType_Float16Vector, float16VectorEntry A), (DataType_BFloat16Vector, bfloat16VectorEntry A),
      (DataType_FloatVector, floatVectorEntry A), (DataType_SparseFloatVector, byteEntry A)]"

text \<open>\<open>DeserializeItem\<close> of the segment reader.\<close>

definition DeserializeItem :: "('arr, 'bld) arrow_ops \<Rightarrow> 'arr \<Rightarrow> DataType \<Rightarrow> nat \<Rightarrow> go_any \<times> bool" where
  "DeserializeItem A arr dataType idx =
     (case SerdeMap A dataType of
        None \<Rightarrow> (Any_nil, False)
      | Some entry \<Rightarrow> se_Deserialize entry arr idx)"

section \<open>Round trips\<close>

text \<open>The values a data type's serializer accepts besides nil, and the builder it needs.\<close>

definition serde_value :: "('arr, 'bld) arrow_ops \<Rightarrow> DataType \<Rightarrow> (arrow_kind \<times> (go_any \<Rightarrow> bool)) option" where
  "serde_value A = map_of
     [(DataType_Bool, K_Boolean, is_bool), (DataType_Int8, K_Int8, is_int8),
      (DataType_Int16, K_Int16, is_int16), (DataType_Int32, K_Int32, is_int32),
      (DataType_Int64, K_Int64, is_int64), (DataType_Float, K_Float32, is_float32),
      (DataType_Double, K_Float64, is_float64), (DataType_VarChar, K_String, is_string),
      (DataType_String, K_String, is_string), (DataType_JSON, K_Binary, is_bytes),
      (DataType_SparseFloatVector, K_Binary, is_bytes),
      (DataType_BinaryVector, K_FixedSizeBinary, is_bytes),
      (DataType_FloatVector, K_FixedSizeBinary, is_floats),
      (DataType_Array, K_Binary, \<lambda>v. from_scalar A v \<noteq> None)]"

lemma deserialize_serialize:
  assumes A: "arrow_ok A items" and k: "bd_kind A b = k"
    and conv: "v \<noteq> Any_nil \<Longrightarrow> ser v = Some w" "v \<noteq> Any_nil \<Longrightarrow> deser w = Some v"
  shows "\<exists>b'. serialize_as A k ser b v = (True, b') \<and> items b' = items b @ [if v = Any_nil then None else Some w] \<and>
    deserialize_as A k deser (bd_NewArray A b') (length (items b)) = (v, True)"
proof (cases "v = Any_nil")
  case True
  with A k show ?thesis
    by (auto simp: serialize_as_def deserialize_as_def arrow_ok_def)
next
  case False
  let ?b = "bd_Append A w b"
  have it: "items ?b = items b @ [Some w]" "bd_kind A ?b = k"
    using A k by (simp_all add: arrow_ok_def)
  then have "\<not> ar_IsNull A (bd_NewArray A ?b) (length (items b))"
    "ar_Value A (bd_NewArray A ?b) (length (items b)) = w"
    "ar_Len A (bd_NewArray A ?b) = Suc (length (items b))" "ar_kind A (bd_NewArray A ?b) = k"
    using A by (auto simp: arrow_ok_def)
  with False conv k it show ?thesis by (simp add: serialize_as_def deserialize_as_def)
qed

lemma floats_roundtrip: "bytes_to_vector (concat (map (put_le 4) vv)) = vv"
proof -
  have len: "length (concat (map (put_le 4) (vv :: u32 list))) = 4 * length vv" for vv
    by (induction vv) auto
  have "floats_of_bytes (length vv) (concat (map (put_le 4) (vv :: u32 list))) = vv"
    by (induction vv) simp_all
  then show ?thesis by (simp add: bytes_to_vector_def len)
qed

definition entry_roundtrip :: "('arr, 'bld) arrow_ops \<Rightarrow> arrow_kind \<Rightarrow> (go_any \<Rightarrow> bool) \<Rightarrow>
    ('arr, 'bld) SerdeEntry \<Rightarrow> bool" where
  "entry_roundtrip A k ok entry \<longleftrightarrow>
     (\<forall>items b v. arrow_ok A items \<longrightarrow> bd_kind A b = k \<longrightarrow> v = Any_nil \<or> ok v \<longrightarrow>
        (\<exists>b'. se_Serialize entry b v = (True, b') \<and>
           se_Deserialize entry (bd_NewArray A b') (length (items b)) = (v, True)))"

lemma entry_roundtripI:
  assumes "se_Serialize entry = serialize_as A k ser" and "se_Deserialize entry = deserialize_as A k deser"
    and conv: "\<And>items v. arrow_ok A items \<Longrightarrow> ok v \<Longrightarrow> \<exists>w. ser v = Some w \<and> deser w = Some v"
  shows "entry_roundtrip A k ok entry"
  unfolding entry_roundtrip_def assms(1,2)
proof (intro allI impI)
  fix items b v assume a: "arrow_ok A items" "bd_kind A b = k" "v = Any_nil \<or> ok v"
  then obtain w where w: "v \<noteq> Any_nil \<Longrightarrow> ser v = Some w" "v \<noteq> Any_nil \<Longrightarrow> deser w = Some v"
    using conv by metis
  show "\<exists>b'. serialize_as A k ser b v = (True, b') \<and>
      deserialize_as A k deser (bd_NewArray A b') (length (items b)) = (v, True)"
    using deserialize_serialize [where ser = ser and deser = deser and w = w and v = v, OF a(1,2)] w
    by blast
qed

lemma plain_roundtrip: "entry_roundtrip A k ok (plain_entry A k ok)"
  by (rule entry_roundtripI) (auto simp: plain_entry_def)

lemma byte_roundtrip: "entry_roundtrip A K_Binary is_bytes (byteEntry A)"
  by (rule entry_roundtripI) (auto simp: byteEntry_def)

lemma binary_vector_roundtrip: "entry_roundtrip A K_FixedSizeBinary is_bytes (binaryVectorEntry A)"
  by (rule entry_roundtripI)
    (auto simp: binaryVectorEntry_def fixedSizeSerializer_def fixedSizeDeserializer_def)

lemma floats_entry_roundtrip: "entry_roundtrip A K_FixedSizeBinary is_floats (floatVectorEntry A)"
proof (rule entry_roundtripI)
  show "\<exists>w. from_floats v = Some w \<and> to_floats w = Some v" if "is_floats v" for v
    using that by (cases v) (simp_all add: floats_roundtrip)
qed (simp_all add: floatVectorEntry_def)

lemma array_entry_roundtrip:
  "entry_roundtrip A K_Binary (\<lambda>v. from_scalar A v \<noteq> None) (eagerArrayEntry A)"
proof (rule entry_roundtripI)
  show "\<exists>w. from_scalar A v = Some w \<and> to_scalar A w = Some v"
    if "arrow_ok A items" "from_scalar A v \<noteq> None" for items :: "'b \<Rightarrow> go_any option list" and v
    using that by (cases v) (auto simp: arrow_ok_def)
qed (simp_all add: eagerArrayEntry_def)

lemmas entry_roundtrips =
  plain_roundtrip byte_roundtrip binary_vector_roundtrip floats_entry_roundtrip array_entry_roundtrip

lemmas plain_entries =
  boolEntry_def int8Entry_def int16Entry_def int32Entry_def int64Entry_def floatEntry_def
  doubleEntry_def stringEntry_def

lemma SerdeMap_roundtrip:
  assumes "serde_value A dt = Some (k, ok)"
  shows "\<exists>entry. SerdeMap A dt = Some entry \<and> entry_roundtrip A k ok entry"
  using assms
  by (auto simp: serde_value_def SerdeMap_def plain_entries entry_roundtrips simp del: not_None_eq
      split: if_splits)

section \<open>Properties of the table\<close>


text \<open>Arrays and builders as plain lists of optional values.\<close>

definition list_arrow :: "(arrow_kind \<times> go_any option list, arrow_kind \<times> go_any option list) arrow_ops" where
  "list_arrow = \<lparr>ar_IsNull = (\<lambda>(k, xs) i. xs ! i = None), ar_Len = (\<lambda>(k, xs). length xs),
     ar_kind = fst, ar_Value = (\<lambda>(k, xs) i. the (xs ! i)), bd_kind = fst,
     bd_AppendNull = (\<lambda>(k, xs). (k, xs @ [None])), bd_Append = (\<lambda>v (k, xs). (k, xs @ [Some v])),
     bd_NewArray = (\<lambda>b. b), proto_Marshal = (\<lambda>m. Some (bytes_of_string m)),
     proto_Unmarshal = (\<lambda>bs. Some (string_of_bytes bs))\<rparr>"

lemma list_arrow_ok: "arrow_ok list_arrow snd"
  by (auto simp: arrow_ok_def list_arrow_def)


end
