(* ===== verification/Storage_Scan.thy ===== *)
theory Storage_Scan
  imports Storage_Select Storage_Serde Delta_Data
begin

text \<open>
  Scanning the rows of a segment: the entry filters (\<^verbatim>\<open>storage/entry_filter.go\<close>), the scan tasks
  (\<^verbatim>\<open>storage/tasks\<close>), the iterator that applies them to every row
  (\<^verbatim>\<open>storage/segment_iterator.go\<close>), the reader of delete logs (\<^verbatim>\<open>storage/deltalog_reader.go\<close>) and the
  collection of delete records in the command \<open>scan-binlog\<close> (\<^verbatim>\<open>states/scan_binlog.go\<close>).

  The expression engine is an argument of \<open>ExprFilter_Match\<close>, \<open>encoding/json\<close> on a delete record is
  the record \<open>json_delete_ops\<close>.
\<close>

section \<open>Filters\<close>

record FieldSchema =
  fs_Name :: string
  fs_DataType :: DataType
  fs_IsPrimaryKey :: bool

type_synonym schemas = "i64 \<Rightarrow> FieldSchema option"
type_synonym row_values = "(i64 \<times> go_any) list"

text \<open>A missing key of a Go map reads as zero.\<close>

definition DeltalogFilter_Match :: "(go_any \<Rightarrow> u64 option) \<Rightarrow> PrimaryKey \<Rightarrow> i64 \<Rightarrow> bool result" where
  "DeltalogFilter_Match deleteEntries pk ts =
     Inr ((case deleteEntries (PrimaryKey_GetValue pk) of None \<Rightarrow> 0 | Some t \<Rightarrow> t) \<le> ts)"

text \<open>
  \<open>math.IsNaN\<close>, \<open>math.IsInf\<close> and their half-precision versions on bit patterns: the exponent is all
  ones, and the fraction is not zero (NaN) or zero (infinity).
\<close>

definition is_nan32 :: "u32 \<Rightarrow> bool" where
  "is_nan32 v \<longleftrightarrow> v AND 0x7f800000 = 0x7f800000 \<and> v AND 0x7fffff \<noteq> 0"

definition is_inf32 :: "u32 \<Rightarrow> bool" where
  "is_inf32 v \<longleftrightarrow> v AND 0x7f800000 = 0x7f800000 \<and> v AND 0x7fffff = 0"

definition is_nan16 :: "u16 \<Rightarrow> bool" where
  "is_nan16 v \<longleftrightarrow> v AND 0x7c00 = 0x7c00 \<and> v AND 0x3ff \<noteq> 0"

definition is_inf16 :: "u16 \<Rightarrow> bool" where
  "is_inf16 v \<longleftrightarrow> v AND 0x7c00 = 0x7c00 \<and> v AND 0x3ff = 0"

fun AbnormalFloat :: "go_any \<Rightarrow> bool" where
  "AbnormalFloat (Any_float16s values) = list_ex (\<lambda>v. is_nan16 v \<or> is_inf16 v) values"
| "AbnormalFloat (Any_float32s values) = list_ex (\<lambda>v. is_inf32 v \<or> is_nan32 v) values"
| "AbnormalFloat _ = False"

text \<open>An expression sees values and, when it names it, the function \<open>AbnormalFloat\<close>.\<close>

datatype env_value = Env_any go_any | Env_AbnormalFloat

type_synonym expr_env = "string \<Rightarrow> env_value option"

record 'p ExprFilter =
  ef_id2Schema :: schemas
  ef_expr :: string
  ef_program :: 'p
  ef_extra :: "(string \<times> env_value) list"

fun contains :: "string \<Rightarrow> string \<Rightarrow> bool" where
  "contains pat [] = (pat = [])"
| "contains pat (c # cs) = (take (length pat) (c # cs) = pat \<or> contains pat cs)"

definition NewExprFilter :: "(string \<Rightarrow> 'p result) \<Rightarrow> schemas \<Rightarrow> string \<Rightarrow> 'p ExprFilter result" where
  "NewExprFilter compile id2Schema iexpr =
     res_bind (compile iexpr) (\<lambda>program.
       Inr \<lparr>ef_id2Schema = id2Schema, ef_expr = iexpr, ef_program = program,
            ef_extra = (if contains ''AbnormalFloat'' iexpr then [(''AbnormalFloat'', Env_AbnormalFloat)]
                        else [])\<rparr>)"

definition env_field :: "schemas \<Rightarrow> i64 \<times> go_any \<Rightarrow> expr_env \<Rightarrow> expr_env result" where
  "env_field S fv env =
     (case S (fst fv) of
        None \<Rightarrow> Inl (Panic ''invalid memory address or nil pointer dereference'')
      | Some sch \<Rightarrow> Inr (env(fs_Name sch \<mapsto> Env_any (snd fv))))"

definition ExprFilter_Match :: "('p \<Rightarrow> expr_env \<Rightarrow> go_any result) \<Rightarrow> 'p ExprFilter \<Rightarrow> PrimaryKey \<Rightarrow> i64 \<Rightarrow>
    row_values \<Rightarrow> bool result" where
  "ExprFilter_Match run f pk ts values =
     res_bind (res_fold (env_field (ef_id2Schema f)) values Map.empty) (\<lambda>env.
       let env1 = env(''$pk'' \<mapsto> Env_any (PrimaryKey_GetValue pk), ''$timestamp'' \<mapsto> Env_any (Any_int64 ts));
           env2 = fold (\<lambda>(k, v) e. e(k \<mapsto> v)) (ef_extra f) env1
       in res_bind (run (ef_program f) env2) (\<lambda>out.
            case out of
              Any_bool match \<Rightarrow> Inr match
            | _ \<Rightarrow> Inl (Failure ''filter expression result not bool'')))"

datatype 'p EntryFilter = Filter_Deltalog "go_any \<Rightarrow> u64 option" | Filter_Expr "'p ExprFilter"

fun EntryFilter_Match :: "('p \<Rightarrow> expr_env \<Rightarrow> go_any result) \<Rightarrow> 'p EntryFilter \<Rightarrow> PrimaryKey \<Rightarrow> i64 \<Rightarrow>
    row_values \<Rightarrow> bool result" where
  "EntryFilter_Match run (Filter_Deltalog d) pk ts values = DeltalogFilter_Match d pk ts"
| "EntryFilter_Match run (Filter_Expr f) pk ts values = ExprFilter_Match run f pk ts values"

section \<open>Tasks\<close>

record CountTask =
  ct_counter :: i64

record DedupTask =
  dt_counter :: i64
  dt_limit :: i64
  dt_ids :: "go_any set"
  dt_dedupResult :: "go_any \<Rightarrow> i64 option"

text \<open>An entry the locate task has printed: segment, offset, key and time stamp.\<close>

type_synonym located = "i64 \<times> int \<times> go_any \<times> go_any option"

record LocateTask =
  lt_counter :: i64
  lt_limit :: i64
  lt_printed :: "located list"

datatype ScanTask = Task_Count CountTask | Task_Dedup DedupTask | Task_Locate LocateTask

definition NewCountTask :: CountTask where
  "NewCountTask = \<lparr>ct_counter = 0\<rparr>"

definition CountTask_Scan :: "(CountTask, unit) go" where
  "CountTask_Scan t = (Inr (), t\<lparr>ct_counter := ct_counter t + 1\<rparr>)"

definition NewDedupTask :: "i64 \<Rightarrow> DedupTask" where
  "NewDedupTask limit = \<lparr>dt_counter = 0, dt_limit = limit, dt_ids = {}, dt_dedupResult = Map.empty\<rparr>"

definition DedupTask_Scan :: "PrimaryKey \<Rightarrow> (DedupTask, unit) go" where
  "DedupTask_Scan pk t =
     (let pkv = PrimaryKey_GetValue pk in
      if pkv \<in> dt_ids t then
        let v = (case dt_dedupResult t pkv of None \<Rightarrow> 0 | Some n \<Rightarrow> n)
        in (Inr (), t\<lparr>dt_counter := dt_counter t + 1,
                      dt_dedupResult := (dt_dedupResult t)(pkv \<mapsto> v + 1)\<rparr>)
      else (Inr (), t\<lparr>dt_ids := insert pkv (dt_ids t)\<rparr>))"

definition NewLocateTask :: "i64 \<Rightarrow> LocateTask" where
  "NewLocateTask limit = \<lparr>lt_counter = 0, lt_limit = limit, lt_printed = []\<rparr>"

definition LocateTask_Scan :: "PrimaryKey \<Rightarrow> i64 \<Rightarrow> int \<Rightarrow> row_values \<Rightarrow> (LocateTask, unit) go" where
  "LocateTask_Scan pk segmentID offset values t =
     (let idx = lt_counter t + 1; t1 = t\<lparr>lt_counter := idx\<rparr> in
      if sint (lt_limit t) < sint idx \<and> 0 < sint (lt_limit t) then (Inl EOF, t1)
      else (Inr (), t1\<lparr>lt_printed := lt_printed t @
             [(segmentID, offset, PrimaryKey_GetValue pk, map_of values 1)]\<rparr>))"

fun ScanTask_Scan :: "PrimaryKey \<Rightarrow> i64 \<Rightarrow> int \<Rightarrow> row_values \<Rightarrow> (ScanTask, unit) go" where
  "ScanTask_Scan pk segmentID offset values (Task_Count t) =
     (case CountTask_Scan t of (r, t') \<Rightarrow> (r, Task_Count t'))"
| "ScanTask_Scan pk segmentID offset values (Task_Dedup t) =
     (case DedupTask_Scan pk t of (r, t') \<Rightarrow> (r, Task_Dedup t'))"
| "ScanTask_Scan pk segmentID offset values (Task_Locate t) =
     (case LocateTask_Scan pk segmentID offset values t of (r, t') \<Rightarrow> (r, Task_Locate t'))"

fun ScanTask_Counter :: "ScanTask \<Rightarrow> i64" where
  "ScanTask_Counter (Task_Count t) = ct_counter t"
| "ScanTask_Counter (Task_Dedup t) = dt_counter t"
| "ScanTask_Counter (Task_Locate t) = lt_counter t"

section \<open>The iterator over the rows of a segment\<close>

text \<open>\<open>values[1].(int64)\<close>\<close>

definition row_timestamp :: "row_values \<Rightarrow> i64 result" where
  "row_timestamp values =
     (case map_of values 1 of
        Some (Any_int64 ts) \<Rightarrow> Inr ts
      | _ \<Rightarrow> Inl (Panic ''interface conversion''))"

fun pass_filters :: "('p \<Rightarrow> expr_env \<Rightarrow> go_any result) \<Rightarrow> 'p EntryFilter list \<Rightarrow> PrimaryKey \<Rightarrow>
    row_values \<Rightarrow> bool result" where
  "pass_filters run [] pk values = Inr True"
| "pass_filters run (f # filters) pk values =
     res_bind (row_timestamp values) (\<lambda>ts.
     res_bind (EntryFilter_Match run f pk ts values) (\<lambda>match.
       if \<not> match then Inr False else pass_filters run filters pk values))"

definition SegmentIterator_scan :: "('p \<Rightarrow> expr_env \<Rightarrow> go_any result) \<Rightarrow> 'p EntryFilter list \<Rightarrow> PrimaryKey \<Rightarrow>
    i64 \<Rightarrow> int \<Rightarrow> row_values \<Rightarrow> (ScanTask, unit) go" where
  "SegmentIterator_scan run filters pk segmentID offset values =
     go_bind (go_lift (pass_filters run filters pk values)) (\<lambda>match.
       if match then ScanTask_Scan pk segmentID offset values else go_return ())"

text \<open>
  A record batch as the iterator sees it: its length and the array of a field, \<open>None\<close> for nil, which
  panics when it is used. \<open>pk.SetValue\<close> may fail; the iterator ignores that and keeps the old key.
\<close>

record 'arr RecordBatch =
  rb_Len :: nat
  rb_Column :: "i64 \<Rightarrow> 'arr option"

definition set_pk :: "go_any \<Rightarrow> PrimaryKey \<Rightarrow> PrimaryKey" where
  "set_pk v pk = snd (PrimaryKey_SetValue v pk)"

definition row_field :: "('arr, 'bld) arrow_ops \<Rightarrow> schemas \<Rightarrow> 'arr RecordBatch \<Rightarrow> nat \<Rightarrow> i64 \<Rightarrow>
    row_values \<times> PrimaryKey \<Rightarrow> (row_values \<times> PrimaryKey) result" where
  "row_field A S rb i fieldID st =
     (case S fieldID of
        None \<Rightarrow> Inl (Panic ''invalid memory address or nil pointer dereference'')
      | Some sch \<Rightarrow>
          (case rb_Column rb fieldID of
             None \<Rightarrow> Inl (Panic ''invalid memory address or nil pointer dereference'')
           | Some arr \<Rightarrow>
               (case DeserializeItem A arr (fs_DataType sch) i of
                  (v, False) \<Rightarrow> Inl (Failure ''failed to deserialize field'')
                | (v, True) \<Rightarrow>
                    Inr (AList.update fieldID v (fst st),
                         if fs_IsPrimaryKey sch then set_pk v (snd st) else snd st))))"

definition read_row :: "('arr, 'bld) arrow_ops \<Rightarrow> schemas \<Rightarrow> i64 list \<Rightarrow> 'arr RecordBatch \<Rightarrow> nat \<Rightarrow>
    PrimaryKey \<Rightarrow> (row_values \<times> PrimaryKey) result" where
  "read_row A S fieldIDs rb i pk = res_fold (row_field A S rb i) fieldIDs ([], pk)"

text \<open>The loop over the rows \<open>i, \<dots>, i + n - 1\<close> of a batch.\<close>

fun scan_rows :: "('arr, 'bld) arrow_ops \<Rightarrow> ('p \<Rightarrow> expr_env \<Rightarrow> go_any result) \<Rightarrow> schemas \<Rightarrow> i64 list \<Rightarrow>
    'p EntryFilter list \<Rightarrow> i64 \<Rightarrow> 'arr RecordBatch \<Rightarrow> nat \<Rightarrow> nat \<Rightarrow> int \<Rightarrow> PrimaryKey \<Rightarrow>
    (ScanTask, int \<times> PrimaryKey) go" where
  "scan_rows A run S fieldIDs filters seg rb i 0 offset pk = go_return (offset, pk)"
| "scan_rows A run S fieldIDs filters seg rb i (Suc n) offset pk =
     go_bind (go_lift (read_row A S fieldIDs rb i pk)) (\<lambda>(values, pk').
     go_bind (SegmentIterator_scan run filters pk' seg offset values) (\<lambda>_.
       scan_rows A run S fieldIDs filters seg rb (i + 1) n (offset + 1) pk'))"

text \<open>
  The outer loop asks the segment reader for the next batch until the end of the data; \<open>next\<close> is the
  reader's method with its state, and \<open>None\<close> stands for more than \<open>fuel\<close> batches.
\<close>

fun Range_loop :: "('arr, 'bld) arrow_ops \<Rightarrow> ('p \<Rightarrow> expr_env \<Rightarrow> go_any result) \<Rightarrow> schemas \<Rightarrow> i64 list \<Rightarrow>
    'p EntryFilter list \<Rightarrow> ('r, 'arr RecordBatch \<times> 'rs BatchInfo) go \<Rightarrow> nat \<Rightarrow> 'r \<Rightarrow> int \<Rightarrow> int \<Rightarrow>
    PrimaryKey \<Rightarrow> ScanTask \<Rightarrow> (unit result \<times> ScanTask) option" where
  "Range_loop A run S fieldIDs filters next 0 reader offset batchIdx pk task = None"
| "Range_loop A run S fieldIDs filters next (Suc fuel) reader offset batchIdx pk task =
     (case next reader of
        (Inl e, _) \<Rightarrow> Some (if e = EOF then Inr () else Inl e, task)
      | (Inr (rb, info), reader') \<Rightarrow>
          let offset' = (if int (bi_BatchIdx info) \<noteq> batchIdx then 0 else offset)
          in (case scan_rows A run S fieldIDs filters (bi_SegmentID info) rb 0 (rb_Len rb) offset' pk task of
                (Inl e, task') \<Rightarrow> Some (Inl e, task')
              | (Inr (offset'', pk'), task') \<Rightarrow>
                  Range_loop A run S fieldIDs filters next fuel reader' offset'' (int (bi_BatchIdx info))
                    pk' task'))"

definition SegmentIterator_Range :: "('arr, 'bld) arrow_ops \<Rightarrow> ('p \<Rightarrow> expr_env \<Rightarrow> go_any result) \<Rightarrow> schemas \<Rightarrow>
    i64 list \<Rightarrow> 'p EntryFilter list \<Rightarrow> ('r, 'arr RecordBatch \<times> 'rs BatchInfo) go \<Rightarrow> nat \<Rightarrow> 'r \<Rightarrow>
    DataType \<Rightarrow> ScanTask \<Rightarrow> (unit result \<times> ScanTask) option" where
  "SegmentIterator_Range A run S fieldIDs filters next fuel reader pkType task =
     (if pkType = DataType_Int64 then
        Range_loop A run S fieldIDs filters next fuel reader 0 (-1) (PK_Int64 (NewInt64PrimaryKey 0)) task
      else if pkType = DataType_VarChar then
        Range_loop A run S fieldIDs filters next fuel reader 0 (-1) (PK_VarChar (NewVarCharPrimaryKey [])) task
      else Some (Inl (Failure ''unssupported primary key type''), task))"

section \<open>Delete logs\<close>

record 'raw json_delete_ops =
  jd_object :: "bytes \<Rightarrow> (string \<Rightarrow> 'raw option) result"
  jd_int64 :: "'raw \<Rightarrow> i64 result"
  jd_uint64 :: "'raw \<Rightarrow> u64 result"
  jd_pk :: "'raw \<Rightarrow> PrimaryKey \<Rightarrow> PrimaryKey result"

record DeleteLog =
  dl_Pk :: "PrimaryKey option"
  dl_Ts :: u64
  dl_PkType :: i64

text \<open>Reading a missing member dereferences nil.\<close>

definition member :: "(string \<Rightarrow> 'raw option) \<Rightarrow> string \<Rightarrow> 'raw result" where
  "member m k = (case m k of None \<Rightarrow> Inl (Panic ''invalid memory address or nil pointer dereference'')
     | Some raw \<Rightarrow> Inr raw)"

definition DeleteLog_UnmarshalJSON :: "'raw json_delete_ops \<Rightarrow> bytes \<Rightarrow> DeleteLog \<Rightarrow> DeleteLog result" where
  "DeleteLog_UnmarshalJSON J data dl =
     res_bind (jd_object J data) (\<lambda>m.
     res_bind (member m ''pkType'') (\<lambda>raw.
     res_bind (jd_int64 J raw) (\<lambda>pkType.
       let t = (ucast pkType :: DataType);
           fresh = (if t = DataType_Int64 then Some (PK_Int64 (NewInt64PrimaryKey 0))
                    else if t = DataType_VarChar then Some (PK_VarChar (NewVarCharPrimaryKey []))
                    else dl_Pk dl)
       in res_bind (member m ''pk'') (\<lambda>raw.
          res_bind (case fresh of None \<Rightarrow> Inl (Failure ''json: Unmarshal(nil)'') | Some pk \<Rightarrow> jd_pk J raw pk) (\<lambda>pk.
          res_bind (member m ''ts'') (\<lambda>raw.
          res_bind (jd_uint64 J raw) (\<lambda>ts.
            Inr \<lparr>dl_Pk = Some pk, dl_Ts = ts, dl_PkType = pkType\<rparr>)))))))"

definition NewDeltalogReader :: "json_ops \<Rightarrow> (bytes, unit) go" where
  "NewDeltalogReader J = go_bind ReadMagicNumber (\<lambda>_. go_bind (ReadDescriptorEvent J) (\<lambda>_. go_return ()))"

text \<open>The loop over the entries: one \<open>DeleteLog\<close> is reused for all of them.\<close>

definition delta_entry :: "'raw json_delete_ops \<Rightarrow> bytes \<Rightarrow> DeleteLog \<times> DeltaData \<Rightarrow> (DeleteLog \<times> DeltaData) result"
  where
  "delta_entry J entry st =
     res_bind (DeleteLog_UnmarshalJSON J entry (fst st)) (\<lambda>log.
       case dl_Pk log of
         None \<Rightarrow> Inl (Panic ''invalid memory address or nil pointer dereference'')
       | Some pk \<Rightarrow>
           (case DeltaData_Append pk (dl_Ts log) (snd st) of
              (Inl e, _) \<Rightarrow> Inl e
            | (Inr _, dd) \<Rightarrow> Inr (log, dd)))"

definition DeltalogReader_NextEventReader :: "('f, 'g, 'c, bytes) pq_ops \<Rightarrow> 'raw json_delete_ops \<Rightarrow> DataType \<Rightarrow>
    (bytes, DeltaData) go" where
  "DeltalogReader_NextEventReader Pq J dataType =
     go_bind EventReader_ReadHeader (\<lambda>header.
     go_bind ReadIndexFileEventData (\<lambda>ifed.
     go_bind (go_lift (makeslice (sint (payload_len header ifed)))) (\<lambda>n.
     go_bind (read_full n) (\<lambda>data.
       go_lift (
         res_bind (NewParquetPayloadReader Pq data) (\<lambda>pr.
         res_bind (GetBytesSliceFromPayload Pq 0 pr) (\<lambda>entries.
         res_bind (res_fold (delta_entry J) entries
             (\<lparr>dl_Pk = None, dl_Ts = 0, dl_PkType = 0\<rparr>, NewDeltaData dataType (length entries))) (\<lambda>(log, dd).
           Inr dd))))))))"

text \<open>
  The callback of \<open>scan-binlog\<close> that collects delete records. The map is indexed by keys of any
  type; the entry it compares with is looked up under the time stamp, the entry it stores is filed
  under the primary key.
\<close>

definition record_delete :: "PrimaryKey \<Rightarrow> u64 \<Rightarrow> (go_any \<Rightarrow> u64 option) \<Rightarrow> (go_any \<Rightarrow> u64 option)" where
  "record_delete pk ts recordMap =
     (case recordMap (Any_uint64 ts) of
        None \<Rightarrow> recordMap(PrimaryKey_GetValue pk \<mapsto> ts)
      | Some old \<Rightarrow> if old < ts then recordMap(PrimaryKey_GetValue pk \<mapsto> ts) else recordMap)"

definition record_deletes :: "(PrimaryKey \<times> u64) list \<Rightarrow> (go_any \<Rightarrow> u64 option) \<Rightarrow> (go_any \<Rightarrow> u64 option)" where
  "record_deletes es m = fold (\<lambda>(pk, ts). record_delete pk ts) es m"

section \<open>Counting the live rows\<close>

text \<open>A row is live for a map of delete records unless its key was deleted after the row's time stamp.\<close>

definition alive :: "(go_any \<Rightarrow> u64 option) \<Rightarrow> PrimaryKey \<Rightarrow> u64 \<Rightarrow> bool" where
  "alive d pk ts \<longleftrightarrow> (\<forall>t. d (PrimaryKey_GetValue pk) = Some t \<longrightarrow> t \<le> ts)"

lemma DeltalogFilter_Match_alive: "DeltalogFilter_Match d pk ts = Inr (alive d pk ts)"
  by (auto simp: DeltalogFilter_Match_def alive_def split: option.splits)

lemma pass_deltalog_filters:
  "row_timestamp values = Inr ts \<Longrightarrow>
   pass_filters run (map Filter_Deltalog ds) pk values = Inr (list_all (\<lambda>d. alive d pk ts) ds)"
  by (induction ds) (simp_all add: DeltalogFilter_Match_alive)

lemma set_pk_type: "PrimaryKey_Type (set_pk v pk) = PrimaryKey_Type pk"
  by (cases pk) (simp_all add: set_pk_def pk_accessors)

lemma read_row_type:
  assumes "read_row A S fieldIDs rb i pk = Inr (vals, pk')"
  shows "PrimaryKey_Type pk' = PrimaryKey_Type pk"
proof -
  have "PrimaryKey_Type (snd (vals, pk')) = PrimaryKey_Type pk"
    using assms unfolding read_row_def
    by (rule res_fold_invariant)
      (auto simp: row_field_def set_pk_type split: option.splits prod.splits bool.splits if_splits)
  then show ?thesis by simp
qed

text \<open>\<open>rows_ok\<close>: every row of the batch can be read, whatever key the row before it left behind.\<close>

definition rows_ok :: "('arr, 'bld) arrow_ops \<Rightarrow> schemas \<Rightarrow> i64 list \<Rightarrow> DataType \<Rightarrow>
    ('arr RecordBatch \<Rightarrow> nat \<Rightarrow> PrimaryKey \<times> u64) \<Rightarrow> 'arr RecordBatch \<Rightarrow> bool" where
  "rows_ok A S fieldIDs pkType row rb \<longleftrightarrow>
     (\<forall>i < rb_Len rb. \<exists>vals. row_timestamp vals = Inr (snd (row rb i)) \<and>
        (\<forall>pk. PrimaryKey_Type pk = pkType \<longrightarrow> read_row A S fieldIDs rb i pk = Inr (vals, fst (row rb i))))"

definition live_rows :: "(go_any \<Rightarrow> u64 option) list \<Rightarrow> ('arr RecordBatch \<Rightarrow> nat \<Rightarrow> PrimaryKey \<times> u64) \<Rightarrow>
    'arr RecordBatch \<Rightarrow> nat list" where
  "live_rows ds row rb =
     filter (\<lambda>i. list_all (\<lambda>d. alive d (fst (row rb i)) (snd (row rb i))) ds) [0..<rb_Len rb]"

lemma scan_rows_count:
  assumes "rows_ok A S fieldIDs pkType row rb" and "i + n = rb_Len rb" and "PrimaryKey_Type pk = pkType"
  shows "\<exists>offset' pk'. scan_rows A run S fieldIDs (map Filter_Deltalog ds) seg rb i n offset pk
      (Task_Count \<lparr>ct_counter = c\<rparr>) =
    (Inr (offset', pk'), Task_Count \<lparr>ct_counter = c + of_nat (length
      (filter (\<lambda>i. list_all (\<lambda>d. alive d (fst (row rb i)) (snd (row rb i))) ds) [i..<rb_Len rb]))\<rparr>) \<and>
    PrimaryKey_Type pk' = pkType"
  using assms(2,3)
proof (induction n arbitrary: i offset pk c)
  case 0
  then show ?case by simp
next
  case (Suc n)
  let ?live = "\<lambda>i. list_all (\<lambda>d. alive d (fst (row rb i)) (snd (row rb i))) ds"
  have i: "i < rb_Len rb" using Suc.prems by simp
  then obtain vals where vals: "row_timestamp vals = Inr (snd (row rb i))"
    "read_row A S fieldIDs rb i pk = Inr (vals, fst (row rb i))"
    using assms(1) Suc.prems(2) by (auto simp: rows_ok_def)
  have t: "PrimaryKey_Type (fst (row rb i)) = pkType"
    using read_row_type [OF vals(2)] Suc.prems(2) by simp
  have scan: "SegmentIterator_scan run (map Filter_Deltalog ds) (fst (row rb i)) seg offset vals
      (Task_Count \<lparr>ct_counter = c\<rparr>) = (Inr (), Task_Count \<lparr>ct_counter = c + (if ?live i then 1 else 0)\<rparr>)"
    using pass_deltalog_filters [OF vals(1), of run ds "fst (row rb i)"]
    by (simp add: SegmentIterator_scan_def go_bind_def CountTask_Scan_def)
  have "length (filter ?live [i..<rb_Len rb]) =
      (if ?live i then 1 else 0) + length (filter ?live [Suc i..<rb_Len rb])"
    using i by (simp add: upt_conv_Cons)
  with Suc.IH [of "i + 1" "fst (row rb i)" "offset + 1" "c + (if ?live i then 1 else 0)"] Suc.prems t vals(2) scan
  show ?case by (auto simp: go_bind_def add.assoc)
qed

inductive yields :: "('r, 'b) go \<Rightarrow> 'r \<Rightarrow> 'b list \<Rightarrow> bool" for nxt where
  yields_end: "nxt r = (Inl EOF, r') \<Longrightarrow> yields nxt r []"
| yields_next: "nxt r = (Inr b, r') \<Longrightarrow> yields nxt r' bs \<Longrightarrow> yields nxt r (b # bs)"

lemma Range_loop_count:
  assumes "yields nxt r bs" and "length bs < fuel" and "\<forall>(rb, info) \<in> set bs. rows_ok A S fieldIDs pkType row rb"
    and "PrimaryKey_Type pk = pkType"
  shows "Range_loop A run S fieldIDs (map Filter_Deltalog ds) nxt fuel r offset batchIdx pk
      (Task_Count \<lparr>ct_counter = c\<rparr>) =
    Some (Inr (), Task_Count \<lparr>ct_counter = c + of_nat (\<Sum>(rb, info) \<leftarrow> bs. length (live_rows ds row rb))\<rparr>)"
  using assms
proof (induction arbitrary: fuel offset batchIdx pk c rule: yields.induct)
  case (yields_end r r')
  then show ?case by (cases fuel) simp_all
next
  case (yields_next r b r' bs)
  obtain rb info where b: "b = (rb, info)" by force
  obtain n where fuel: "fuel = Suc n" using yields_next.prems(1) by (cases fuel) auto
  have "rows_ok A S fieldIDs pkType row rb" using yields_next.prems(2) b by simp
  from scan_rows_count [OF this, of 0 "rb_Len rb" pk run ds "bi_SegmentID info"
      "if int (bi_BatchIdx info) \<noteq> batchIdx then 0 else offset" c] yields_next.prems(3)
  obtain offset' pk' where "scan_rows A run S fieldIDs (map Filter_Deltalog ds) (bi_SegmentID info) rb 0
      (rb_Len rb) (if int (bi_BatchIdx info) \<noteq> batchIdx then 0 else offset) pk (Task_Count \<lparr>ct_counter = c\<rparr>) =
    (Inr (offset', pk'), Task_Count \<lparr>ct_counter = c + of_nat (length (live_rows ds row rb))\<rparr>)"
    "PrimaryKey_Type pk' = pkType"
    by (auto simp: live_rows_def)
  moreover have "Range_loop A run S fieldIDs (map Filter_Deltalog ds) nxt n r' offset' (int (bi_BatchIdx info)) pk'
      (Task_Count \<lparr>ct_counter = c + of_nat (length (live_rows ds row rb))\<rparr>) =
    Some (Inr (), Task_Count \<lparr>ct_counter = c + of_nat (length (live_rows ds row rb)) +
      of_nat (\<Sum>(rb, info) \<leftarrow> bs. length (live_rows ds row rb))\<rparr>)"
    using yields_next.prems calculation(2) fuel by (intro yields_next.IH) auto
  ultimately show ?case
    using yields_next.hyps(1) by (simp add: fuel b Let_def add.assoc)
qed

section \<open>Properties of the scan\<close>


definition example_schemas :: schemas where
  "example_schemas =
     [1 \<mapsto> \<lparr>fs_Name = ''Timestamp'', fs_DataType = DataType_Int64, fs_IsPrimaryKey = False\<rparr>,
      100 \<mapsto> \<lparr>fs_Name = ''pk'', fs_DataType = DataType_Int64, fs_IsPrimaryKey = True\<rparr>]"

definition example_batch :: "(arrow_kind \<times> go_any option list) RecordBatch" where
  "example_batch = \<lparr>rb_Len = 2, rb_Column =
     [1 \<mapsto> (K_Int64, [Some (Any_int64 10), Some (Any_int64 20)]),
      100 \<mapsto> (K_Int64, [Some (Any_int64 5), Some (Any_int64 6)])]\<rparr>"

definition example_info :: "string BatchInfo" where
  "example_info = \<lparr>bi_SegmentID = 7, bi_BatchIdx = 0, bi_Output = [], bi_TargetBinlogs = []\<rparr>"

definition list_next :: "('b list, 'b) go" where
  "list_next r = (case r of [] \<Rightarrow> (Inl EOF, []) | b # bs \<Rightarrow> (Inr b, bs))"

lemma list_next_yields: "yields list_next bs bs"
  by (induction bs) (auto intro: yields.intros simp: list_next_def)

definition example_row :: "(arrow_kind \<times> go_any option list) RecordBatch \<Rightarrow> nat \<Rightarrow> PrimaryKey \<times> u64" where
  "example_row rb i = (if i = 0 then (PK_Int64 \<lparr>int64_Value = 5\<rparr>, 10) else (PK_Int64 \<lparr>int64_Value = 6\<rparr>, 20))"

lemma example_rows_ok:
  "rows_ok list_arrow example_schemas [1, 100] DataType_Int64 example_row example_batch"
proof -
  have "\<exists>vals. row_timestamp vals = Inr (snd (example_row example_batch i)) \<and>
      (\<forall>pk. PrimaryKey_Type pk = DataType_Int64 \<longrightarrow>
        read_row list_arrow example_schemas [1, 100] example_batch i pk =
          Inr (vals, fst (example_row example_batch i)))" if "i = 0 \<or> i = 1" for i
    using that
    by (intro exI [of _ "[(1, Any_int64 (if i = 0 then 10 else 20)), (100, Any_int64 (if i = 0 then 5 else 6))]"])
      (auto simp: row_timestamp_def example_row_def read_row_def row_field_def example_schemas_def
        example_batch_def DeserializeItem_def SerdeMap_def int64Entry_def plain_entry_def deserialize_as_def
        list_arrow_def set_pk_def pk_accessors elim!: PrimaryKey_Type.elims)
  then show ?thesis by (auto simp: rows_ok_def example_batch_def less_2_cases_iff)
qed


fun last_ts :: "(PrimaryKey \<times> u64) list \<Rightarrow> go_any \<Rightarrow> u64 option" where
  "last_ts [] k = None"
| "last_ts ((pk, ts) # es) k =
     (case last_ts es k of
        Some t \<Rightarrow> Some t
      | None \<Rightarrow> if PrimaryKey_GetValue pk = k then Some ts else None)"

lemma GetValue_not_uint64: "PrimaryKey_GetValue pk \<noteq> Any_uint64 t"
  by (cases pk) (simp_all add: pk_accessors)

lemma record_deletes_last:
  assumes "\<forall>t. m (Any_uint64 t) = None"
  shows "record_deletes es m k = (case last_ts es k of None \<Rightarrow> m k | Some t \<Rightarrow> Some t)"
  using assms
proof (induction es arbitrary: m)
  case Nil
  then show ?case by (simp add: record_deletes_def)
next
  case (Cons e es)
  obtain pk ts where e: "e = (pk, ts)" by force
  define m' where "m' = m(PrimaryKey_GetValue pk \<mapsto> ts)"
  have "record_deletes (e # es) m = record_deletes es m'"
    using Cons.prems by (simp add: record_deletes_def e record_delete_def m'_def)
  moreover have "\<forall>t. m' (Any_uint64 t) = None"
    using Cons.prems GetValue_not_uint64 unfolding m'_def by (metis fun_upd_apply)
  moreover have "m' k = (if PrimaryKey_GetValue pk = k then Some ts else m k)"
    by (simp add: m'_def)
  ultimately show ?case
    using Cons.IH [of m'] by (auto simp: e split: option.splits)
qed

text \<open>
  What \<open>scan-binlog\<close> keeps of the delete logs is, for every key, the time stamp of the
  last record read, not of the newest one: the comparison with the entry already there looks the entry
  up under the time stamp and so never finds it. The two agree when every key's records come in
  ascending order; otherwise a newer deletion is forgotten and a deleted row counts as live.
\<close>

theorem scan_binlog_keeps_last_delete:
  "record_deletes es Map.empty k = last_ts es k \<and>
   (\<exists>es pk ts t. (pk, t) \<in> set es \<and> ts < t \<and>
      DeltalogFilter_Match (record_deletes es Map.empty) pk ts = Inr True)"
proof
  show "record_deletes es Map.empty k = last_ts es k"
    by (simp add: record_deletes_last split: option.splits)
  let ?pk = "PK_Int64 \<lparr>int64_Value = 5\<rparr>" and ?es = "[(PK_Int64 \<lparr>int64_Value = 5\<rparr>, 20), (PK_Int64 \<lparr>int64_Value = 5\<rparr>, 10 :: u64)]"
  have "DeltalogFilter_Match (record_deletes ?es Map.empty) ?pk 15 = Inr True"
    by (simp add: DeltalogFilter_Match_def record_deletes_last)
  moreover have "(?pk, 20) \<in> set ?es" "(15 :: u64) < 20" by simp_all
  ultimately show "\<exists>es pk ts t. (pk, t) \<in> set es \<and> ts < t \<and>
      DeltalogFilter_Match (record_deletes es Map.empty) pk ts = Inr True"
    by blast
qed

definition scan_keys :: "PrimaryKey list \<Rightarrow> DedupTask \<Rightarrow> DedupTask" where
  "scan_keys pks t = fold (\<lambda>pk t. snd (DedupTask_Scan pk t)) pks t"

definition dedup_inv :: "go_any list \<Rightarrow> DedupTask \<Rightarrow> bool" where
  "dedup_inv seen t \<longleftrightarrow>
     dt_ids t = set seen \<and> dt_counter t = of_nat (length seen - card (set seen)) \<and>
     (\<forall>k. dt_dedupResult t k =
        (if count_list seen k \<le> 1 then None else Some (of_nat (count_list seen k - 1))))"

lemma dedup_step:
  assumes "dedup_inv seen t"
  shows "dedup_inv (seen @ [PrimaryKey_GetValue pk]) (snd (DedupTask_Scan pk t))"
proof (cases "PrimaryKey_GetValue pk \<in> set seen")
  case True
  then have "0 < count_list seen (PrimaryKey_GetValue pk)"
    using count_list_0_iff [of seen "PrimaryKey_GetValue pk"] by auto
  then have "count_list seen (PrimaryKey_GetValue pk) \<le> Suc 0 \<longrightarrow>
      (of_nat (count_list seen (PrimaryKey_GetValue pk)) :: i64) = 1"
    by (metis Suc_leI le_antisym of_nat_1 One_nat_def)
  moreover have "card (set seen) \<le> length seen" by (rule card_length)
  ultimately show ?thesis
    using assms True \<open>0 < count_list seen (PrimaryKey_GetValue pk)\<close>
    by (auto simp: dedup_inv_def DedupTask_Scan_def Let_def insert_absorb Suc_diff_le of_nat_diff)
next
  case False
  then have "count_list seen (PrimaryKey_GetValue pk) = 0" by (simp add: count_list_0_iff)
  then show ?thesis
    using assms False by (auto simp: dedup_inv_def DedupTask_Scan_def Let_def)
qed

text \<open>
  The dedup task, after scanning the keys \<open>pks\<close>, has counted every scan of a key after
  the first, and for each key that occurs more than once, the number of its repetitions (both modulo the
  64 bits of the counters); a key that occurs once is not in its result.
\<close>

theorem DedupTask_counts_repetitions:
  "dedup_inv (map PrimaryKey_GetValue pks) (scan_keys pks (NewDedupTask limit))"
proof -
  have "dedup_inv (seen @ map PrimaryKey_GetValue pks) (scan_keys pks t)" if "dedup_inv seen t" for seen t
    using that
  proof (induction pks arbitrary: seen t)
    case (Cons pk pks)
    from Cons.IH [OF dedup_step [OF Cons.prems, of pk]] show ?case by (simp add: scan_keys_def)
  qed (simp add: scan_keys_def)
  from this [of "[]"] show ?thesis by (simp add: dedup_inv_def NewDedupTask_def)
qed

end
