(* ===== verification/Kv_Path.thy ===== *)
theory Kv_Path
  imports Go_Prelude "HOL-Library.Sublist"
begin

text \<open>
  Key paths (\<^verbatim>\<open>states/kv/utils.go\<close>) and the functions of the standard packages \<open>strings\<close> and
  \<open>path\<close> they are made with: \<open>Split\<close>, \<open>HasPrefix\<close>, \<open>HasSuffix\<close>, \<open>Clean\<close> and \<open>Join\<close>.
\<close>

section \<open>Package strings\<close>

abbreviation slash :: char where "slash \<equiv> CHR ''/''"

text \<open>\<open>strings.Split(s, "/")\<close>: the parts between the slashes, at least one.\<close>

fun split_on :: "char \<Rightarrow> string \<Rightarrow> string list" where
  "split_on d [] = [[]]"
| "split_on d (c # cs) =
     (if c = d then [] # split_on d cs
      else (case split_on d cs of [] \<Rightarrow> [[c]] | p # ps \<Rightarrow> (c # p) # ps))"

fun join_with :: "char \<Rightarrow> string list \<Rightarrow> string" where
  "join_with d [] = []"
| "join_with d [p] = p"
| "join_with d (p # q # ps) = p @ [d] @ join_with d (q # ps)"

definition HasPrefix :: "string \<Rightarrow> string \<Rightarrow> bool" where
  "HasPrefix s p = (take (length p) s = p)"

definition HasSuffix :: "string \<Rightarrow> string \<Rightarrow> bool" where
  "HasSuffix s p = (length p \<le> length s \<and> drop (length s - length p) s = p)"

lemma HasPrefix_prefix [simp]: "HasPrefix s p \<longleftrightarrow> prefix p s"
  by (auto simp: HasPrefix_def prefix_def) (metis append_take_drop_id)

lemma split_on_not_Nil [simp]: "split_on d s \<noteq> []"
  by (induction s) (auto split: list.splits)

lemma join_split [simp]: "join_with d (split_on d s) = s"
proof (induction s)
  case (Cons c s)
  obtain p ps where "split_on d s = p # ps" using split_on_not_Nil by (metis list.exhaust)
  with Cons show ?case by (cases ps) auto
qed simp

lemma split_no_delim: "p \<in> set (split_on d s) \<Longrightarrow> d \<notin> set p"
proof (induction s arbitrary: p)
  case (Cons c s)
  obtain q qs where q: "split_on d s = q # qs" using split_on_not_Nil by (metis list.exhaust)
  from Cons.prems Cons.IH show ?case by (auto simp: q split: if_splits)
qed simp

lemma split_append_delim:
  "d \<notin> set p \<Longrightarrow> split_on d (p @ d # s) = p # split_on d s"
  by (induction p) auto

lemma split_single: "d \<notin> set p \<Longrightarrow> split_on d p = [p]"
  by (induction p) auto

lemma split_join:
  "ps \<noteq> [] \<Longrightarrow> \<forall>p \<in> set ps. d \<notin> set p \<Longrightarrow> split_on d (join_with d ps) = ps"
  by (induction d ps rule: join_with.induct) (auto simp: split_single split_append_delim)

section \<open>Package path\<close>

text \<open>
  \<open>path.Clean\<close> by its documented rules: empty and \<open>.\<close> elements go, an inner \<open>..\<close> goes with the
  element before it, a \<open>..\<close> that begins a rooted path goes. The stack is the output so far, last first.
\<close>

fun clean_parts :: "bool \<Rightarrow> string list \<Rightarrow> string list \<Rightarrow> string list" where
  "clean_parts rooted st [] = rev st"
| "clean_parts rooted st (p # ps) =
     (if p = [] \<or> p = ''.'' then clean_parts rooted st ps
      else if p = ''..'' then
        (case st of
           [] \<Rightarrow> clean_parts rooted (if rooted then [] else [p]) ps
         | q # qs \<Rightarrow> clean_parts rooted (if q = ''..'' then p # st else qs) ps)
      else clean_parts rooted (p # st) ps)"

definition path_Clean :: "string \<Rightarrow> string" where
  "path_Clean s =
     (if s = [] then ''.''
      else let rooted = (hd s = slash);
               body = join_with slash (clean_parts rooted [] (split_on slash s))
           in if rooted then slash # body else if body = [] then ''.'' else body)"

text \<open>\<open>path.Join\<close>: nothing but empty elements join to the empty string; leading empty ones are skipped.\<close>

definition path_Join :: "string list \<Rightarrow> string" where
  "path_Join elem =
     (if list_all (\<lambda>e. e = []) elem then []
      else path_Clean (join_with slash (dropWhile (\<lambda>e. e = []) elem)))"

text \<open>\<open>path.Base\<close>: the last element, without trailing slashes.\<close>

definition path_Base :: "string \<Rightarrow> string" where
  "path_Base p =
     (if p = [] then ''.''
      else let q = rev (dropWhile (\<lambda>c. c = slash) (rev p))
           in if q = [] then ''/'' else last (split_on slash q))"

definition joinPath :: "string list \<Rightarrow> string" where
  "joinPath parts =
     (let r = path_Join parts
      in if parts \<noteq> [] \<and> HasSuffix (last parts) ''/'' then r @ ''/'' else r)"

section \<open>Cleaning twice\<close>

text \<open>What \<open>clean_parts\<close> puts out: plain elements, after a run of \<open>..\<close> when the path is not rooted.\<close>

definition plain_part :: "string \<Rightarrow> bool" where
  "plain_part p \<longleftrightarrow> p \<noteq> [] \<and> p \<noteq> ''.'' \<and> p \<noteq> ''..'' \<and> slash \<notin> set p"

definition clean_form :: "bool \<Rightarrow> string list \<Rightarrow> bool" where
  "clean_form rooted ps \<longleftrightarrow>
     (\<exists>n qs. ps = replicate n ''..'' @ qs \<and> list_all plain_part qs \<and> (rooted \<longrightarrow> n = 0))"

lemma clean_form_snoc: "clean_form r ps \<Longrightarrow> plain_part p \<Longrightarrow> clean_form r (ps @ [p])"
proof -
  assume "clean_form r ps" and p: "plain_part p"
  then obtain n qs where "ps = replicate n ''..'' @ qs" "list_all plain_part qs" "r \<longrightarrow> n = 0"
    by (auto simp: clean_form_def)
  with p show ?thesis
    unfolding clean_form_def by (intro exI [of _ n] exI [of _ "qs @ [p]"]) simp
qed

lemma clean_form_butlast:
  assumes "clean_form r (ps @ [q])" and "q \<noteq> ''..''"
  shows "clean_form r ps"
proof -
  obtain n qs where n: "ps @ [q] = replicate n ''..'' @ qs" "list_all plain_part qs" "r \<longrightarrow> n = 0"
    using assms(1) by (auto simp: clean_form_def)
  have "qs \<noteq> []"
  proof
    assume "qs = []"
    then have "q \<in> set (replicate n ''..'')" using n(1) by (metis append_Nil2 last_in_set last_snoc snoc_eq_iff_butlast)
    with assms(2) show False by auto
  qed
  then have "ps = replicate n ''..'' @ butlast qs"
    using n(1) by (metis butlast_append butlast_snoc)
  moreover have "list_all plain_part (butlast qs)"
    using n(2) by (auto simp: list_all_iff dest: in_set_butlastD)
  ultimately show ?thesis using n(3) by (auto simp: clean_form_def)
qed

lemma clean_form_dots:
  assumes "clean_form r (ps @ [''..''])"
  shows "clean_form r (ps @ [''..'', ''..''])"
proof -
  obtain n qs where n: "ps @ [''..''] = replicate n ''..'' @ qs" "list_all plain_part qs" "r \<longrightarrow> n = 0"
    using assms by (auto simp: clean_form_def)
  have "qs = []"
  proof (rule ccontr)
    assume "qs \<noteq> []"
    then have "last qs = ''..''" using n(1) by (metis last_append last_snoc)
    with \<open>qs \<noteq> []\<close> n(2) show False by (auto simp: list_all_iff plain_part_def)
  qed
  then have "ps @ [''..''] = replicate n ''..''" using n(1) by simp
  then have "ps @ [''..'', ''..''] = replicate (Suc n) ''..''"
    by (metis append.assoc append_Cons append_Nil replicate_append_same replicate_Suc)
  moreover have "\<not> r" using n(3) \<open>ps @ [''..''] = replicate n ''..''\<close> by auto
  ultimately show ?thesis unfolding clean_form_def by (metis append_Nil2 list.pred_inject(1))
qed

lemma clean_parts_form:
  assumes "clean_form r (rev st)" and "\<forall>p \<in> set ps. slash \<notin> set p"
  shows "clean_form r (clean_parts r st ps)"
  using assms
proof (induction r st ps rule: clean_parts.induct)
  case (1 r st)
  then show ?case by simp
next
  case (2 r st p ps)
  have dot: "clean_form r []" "\<not> r \<Longrightarrow> clean_form r [''..'']"
    unfolding clean_form_def by (rule exI [of _ 0]) (auto intro: exI [of _ 1])
  show ?case
  proof (cases "p = [] \<or> p = ''.'' \<or> p \<noteq> ''..''")
    case True
    show ?thesis
    proof (cases "p = [] \<or> p = ''.''")
      case False
      then have "clean_form r (rev (p # st))"
        using True 2 clean_form_snoc [of r "rev st" p] by (simp add: plain_part_def)
      with 2 False True show ?thesis by auto
    qed (use 2 in auto)
  next
    case False
    then show ?thesis
    proof (cases st)
      case Nil
      with 2 False dot show ?thesis by auto
    next
      case (Cons q qs)
      with 2 False show ?thesis
        by (cases "q = ''..''") (auto dest: clean_form_dots clean_form_butlast)
    qed
  qed
qed

lemma clean_parts_plain:
  "list_all plain_part qs \<Longrightarrow> clean_parts r st qs = rev st @ qs"
  by (induction qs arbitrary: st) (auto simp: plain_part_def)

lemma clean_parts_dots:
  "clean_parts False (replicate m ''..'') (replicate n ''..'' @ qs) =
     clean_parts False (replicate (n + m) ''..'') qs"
proof (induction n arbitrary: m)
  case (Suc n)
  have step: "clean_parts False (replicate m ''..'') (''..'' # ps) =
      clean_parts False (replicate (Suc m) ''..'') ps" for ps
    by (cases m) simp_all
  show ?case using Suc.IH [of "Suc m"] by (simp add: step del: clean_parts.simps replicate_Suc
        add: replicate_Suc [of n])
qed simp

lemma clean_parts_fixed:
  assumes "clean_form r ps"
  shows "clean_parts r [] ps = ps"
proof -
  obtain n qs where n: "ps = replicate n ''..'' @ qs" "list_all plain_part qs" "r \<longrightarrow> n = 0"
    using assms by (auto simp: clean_form_def)
  show ?thesis
  proof (cases r)
    case True
    with n show ?thesis by (simp add: clean_parts_plain)
  next
    case False
    with n clean_parts_dots [of 0 n qs] show ?thesis by (simp add: clean_parts_plain)
  qed
qed

lemma join_not_rooted:
  assumes "ps \<noteq> []" and "\<forall>p \<in> set ps. p \<noteq> [] \<and> slash \<notin> set p"
  shows "join_with slash ps \<noteq> [] \<and> hd (join_with slash ps) \<noteq> slash"
proof -
  obtain p qs where ps: "ps = p # qs" using assms(1) by (cases ps) auto
  with assms(2) have "p \<noteq> []" "hd p \<noteq> slash" by (auto dest: hd_in_set)
  with ps show ?thesis by (cases qs) auto
qed

lemma clean_form_parts: "clean_form r ps \<Longrightarrow> \<forall>p \<in> set ps. p \<noteq> [] \<and> slash \<notin> set p"
proof -
  assume "clean_form r ps"
  then obtain n qs where ps: "ps = replicate n ''..'' @ qs" "list_all plain_part qs"
    by (auto simp: clean_form_def)
  have "p \<noteq> [] \<and> slash \<notin> set p" if "p \<in> set ps" for p
  proof -
    from that ps(1) consider "p = ''..''" | "p \<in> set qs" by (auto simp: set_replicate_conv_if split: if_splits)
    then show ?thesis using ps(2) by cases (simp_all add: list_all_iff plain_part_def)
  qed
  then show ?thesis by blast
qed

lemma path_Clean_join:
  assumes "clean_form False ps" and "ps \<noteq> []"
  shows "path_Clean (join_with slash ps) = join_with slash ps"
proof -
  note parts = clean_form_parts [OF assms(1)]
  have "split_on slash (join_with slash ps) = ps"
    using assms(2) parts by (intro split_join) auto
  then show ?thesis
    using join_not_rooted [OF assms(2) parts] clean_parts_fixed [OF assms(1)]
    by (simp add: path_Clean_def Let_def)
qed

lemma path_Clean_idem: "path_Clean (path_Clean s) = path_Clean s"
proof (cases "s = []")
  case True
  then show ?thesis by (simp add: path_Clean_def)
next
  case False
  let ?r = "hd s = slash"
  let ?ps = "clean_parts ?r [] (split_on slash s)"
  have form: "clean_form ?r ?ps"
    using split_no_delim [of _ slash s] by (intro clean_parts_form) (auto simp: clean_form_def)
  note parts = clean_form_parts [OF form]
  have again: "?ps \<noteq> [] \<Longrightarrow> split_on slash (join_with slash ?ps) = ?ps"
    using parts by (intro split_join) auto
  show ?thesis
  proof (cases ?r)
    case True
    have "clean_parts True [] (split_on slash (slash # join_with slash ?ps)) = ?ps"
    proof (cases "?ps = []")
      case True
      then show ?thesis by simp
    next
      case False
      then show ?thesis using again clean_parts_fixed [OF form] \<open>?r\<close> by simp
    qed
    with True False show ?thesis by (simp add: path_Clean_def Let_def)
  next
    case nr: False
    show ?thesis
    proof (cases "?ps = []")
      case True
      with nr False show ?thesis by (simp add: path_Clean_def Let_def)
    next
      case ne: False
      have "path_Clean s = join_with slash ?ps"
        using nr False join_not_rooted [OF ne parts] by (simp add: path_Clean_def Let_def)
      moreover have "path_Clean (join_with slash ?ps) = join_with slash ?ps"
        using form nr by (intro path_Clean_join [OF _ ne]) simp
      ultimately show ?thesis by simp
    qed
  qed
qed

lemma path_Clean_not_Nil: "path_Clean s \<noteq> []"
  by (simp add: path_Clean_def Let_def)

text \<open>A key joined to an empty root, as both stores do it.\<close>

lemma path_Join_root: "path_Join [[], k] = (if k = [] then [] else path_Clean k)"
  by (simp add: path_Join_def)

lemma joinPath_root:
  "joinPath [[], k] =
     (if k = [] then [] else if HasSuffix k ''/'' then path_Clean k @ ''/'' else path_Clean k)"
  by (auto simp: joinPath_def Let_def path_Join_root HasSuffix_def)

lemma HasSuffix_char: "HasSuffix k [c] \<longleftrightarrow> k \<noteq> [] \<and> last k = c"
  by (cases k rule: rev_cases) (auto simp: HasSuffix_def)

lemmas HasSuffix_slash = HasSuffix_char [of _ slash]

text \<open>A trailing slash does not change what a path cleans to.\<close>

lemma split_snoc_delim: "split_on d (s @ [d]) = split_on d s @ [[]]"
proof (induction s)
  case (Cons c s)
  obtain p ps where "split_on d s = p # ps" using split_on_not_Nil by (metis list.exhaust)
  with Cons show ?case by auto
qed simp

lemma clean_parts_snoc_empty: "clean_parts r st (ps @ [[]]) = clean_parts r st ps"
  by (induction r st ps rule: clean_parts.induct) (auto split: list.splits)

lemma path_Clean_trailing: "k \<noteq> [] \<Longrightarrow> path_Clean (k @ ''/'') = path_Clean k"
  by (simp add: path_Clean_def split_snoc_delim clean_parts_snoc_empty)

lemma last_join:
  assumes "ps \<noteq> []" and "\<forall>p \<in> set ps. p \<noteq> [] \<and> slash \<notin> set p"
  shows "join_with slash ps \<noteq> [] \<and> last (join_with slash ps) \<noteq> slash"
  using assms
proof (induction slash ps rule: join_with.induct)
  case (2 p)
  then show ?case by (metis join_with.simps(2) last_in_set list.set_intros(1))
qed auto

lemma path_Clean_last:
  assumes "path_Clean s \<noteq> ''/''"
  shows "last (path_Clean s) \<noteq> slash"
proof (cases "s = []")
  case True
  then show ?thesis by (simp add: path_Clean_def)
next
  case False
  let ?ps = "clean_parts (hd s = slash) [] (split_on slash s)"
  have "clean_form (hd s = slash) ?ps"
    using split_no_delim [of _ slash s] by (intro clean_parts_form) (auto simp: clean_form_def)
  note parts = clean_form_parts [OF this]
  show ?thesis
  proof (cases "?ps = []")
    case True
    with False assms show ?thesis by (auto simp: path_Clean_def Let_def)
  next
    case ne: False
    from last_join [OF ne parts] False show ?thesis
      by (cases "hd s = slash") (simp_all add: path_Clean_def Let_def)
  qed
qed

section \<open>Plain paths\<close>

text \<open>
  A relative path of ordinary elements, which is what the program composes its keys of: joining such
  paths puts slashes between them and changes nothing else.
\<close>

definition plain_path :: "string \<Rightarrow> bool" where
  "plain_path p \<longleftrightarrow> list_all plain_part (split_on slash p)"

lemma split_append:
  "split_on d (s @ d # t) = split_on d s @ split_on d t"
proof (induction s)
  case (Cons c s)
  obtain p ps where "split_on d s = p # ps" using split_on_not_Nil by (metis list.exhaust)
  with Cons show ?case by auto
qed simp

lemma split_join_concat:
  "ps \<noteq> [] \<Longrightarrow> split_on d (join_with d ps) = concat (map (split_on d) ps)"
  by (induction d ps rule: join_with.induct) (auto simp: split_append)

lemma plain_path_not_Nil: "plain_path p \<Longrightarrow> p \<noteq> []"
  by (auto simp: plain_path_def plain_part_def)

lemma plain_path_join: "ps \<noteq> [] \<Longrightarrow> \<forall>p \<in> set ps. plain_path p \<Longrightarrow> plain_path (join_with slash ps)"
  by (auto simp: plain_path_def split_join_concat list_all_iff)

lemma plain_path_slash [simp]: "plain_path (p @ slash # q) \<longleftrightarrow> plain_path p \<and> plain_path q"
  by (simp add: plain_path_def split_append)

lemma plain_pathI: "plain_part p \<Longrightarrow> plain_path p"
  by (simp add: plain_path_def plain_part_def split_single)

lemma path_Clean_plain:
  assumes "plain_path p"
  shows "path_Clean p = p"
proof -
  have "clean_form False (split_on slash p)"
    using assms unfolding clean_form_def plain_path_def by (intro exI [of _ 0]) simp
  from path_Clean_join [OF this] show ?thesis by simp
qed

lemma path_Join_plain:
  assumes "ps \<noteq> []" and "\<forall>p \<in> set ps. plain_path p"
  shows "path_Join ps = join_with slash ps"
proof -
  have ne: "\<forall>p \<in> set ps. p \<noteq> []" using assms(2) plain_path_not_Nil by blast
  then have "dropWhile (\<lambda>e. e = []) ps = ps" by (cases ps) auto
  moreover have "\<not> list_all (\<lambda>e. e = []) ps" using ne assms(1) by (cases ps) auto
  ultimately show ?thesis
    using path_Clean_plain [OF plain_path_join [OF assms]] by (simp add: path_Join_def)
qed

lemma plain_path_last: "plain_path p \<Longrightarrow> last p \<noteq> slash"
proof -
  assume p: "plain_path p"
  have "last (join_with slash (split_on slash p)) \<noteq> slash"
    using p by (intro last_join [THEN conjunct2]) (auto simp: plain_path_def plain_part_def list_all_iff)
  then show ?thesis by simp
qed

lemma joinPath_plain:
  assumes "plain_path p"
  shows "joinPath [[], p] = p" and "joinPath [[], p @ ''/''] = p @ ''/''" and "path_Join [[], p @ ''/''] = p"
    and "path_Join [[], p] = p"
  using path_Clean_plain [OF assms] plain_path_not_Nil [OF assms] plain_path_last [OF assms]
    path_Clean_trailing [of p]
  by (simp_all add: joinPath_root path_Join_root HasSuffix_slash)

text \<open>
  Joining a key to the (empty) root path is idempotent, so a key that a prefix scan
  returned addresses the same entry when it is passed to the store again; the one exception is a key
  that cleans to the root directory itself.
\<close>

theorem joinPath_idempotent:
  assumes "path_Clean k \<noteq> ''/''"
  shows "joinPath [[], joinPath [[], k]] = joinPath [[], k]"
proof (cases "k = []")
  case True
  then show ?thesis by (simp add: joinPath_root)
next
  case False
  have "\<not> HasSuffix (path_Clean k) ''/''"
    using path_Clean_last [OF assms] by (simp add: HasSuffix_slash)
  moreover have "HasSuffix (path_Clean k @ ''/'') ''/''" by (simp add: HasSuffix_slash)
  ultimately show ?thesis
    using False path_Clean_idem [of k] path_Clean_not_Nil [of k] path_Clean_trailing [of "path_Clean k"]
    by (simp add: joinPath_root)
qed

theorem joinPath_idempotent_witness:
  "joinPath [[], joinPath [[], ''by-dev//meta/../kv/'']] = joinPath [[], ''by-dev//meta/../kv/''] \<and>
   joinPath [[], ''by-dev//meta/../kv/''] = ''by-dev/kv/''"
proof -
  have c: "path_Clean ''by-dev//meta/../kv/'' = ''by-dev/kv''" by (simp add: path_Clean_def)
  then have "path_Clean ''by-dev//meta/../kv/'' \<noteq> ''/''" by simp
  from joinPath_idempotent [OF this] c show ?thesis by (simp add: joinPath_root HasSuffix_def)
qed

end
