(* ===== verification/Kv_Etcd.thy ===== *)
theory Kv_Etcd
  imports Kv_Path "HOL-Library.AList"
begin

text \<open>
  The metadata store on etcd (\<^verbatim>\<open>states/kv/kv.go\<close>, type \<open>etcdKV\<close>, and \<^verbatim>\<open>options.go\<close>). The etcd client
  is the record \<open>etcd_client\<close>; the locale \<open>etcd_server\<close> states the documented behaviour of the server
  behind it, and the operations are verified inside it. The interpretation \<open>ref\<close> shows that the laws
  can be kept, by a server that is one sorted table.
\<close>

section \<open>The client\<close>

text \<open>Which keys a request is about: one key, a prefix, everything from a key on, or a half-open range.\<close>

datatype key_range = OneKey | WithPrefix | WithFromKey | WithRange string

fun in_range :: "string \<Rightarrow> key_range \<Rightarrow> string \<Rightarrow> bool" where
  "in_range key OneKey k = (k = key)"
| "in_range key WithPrefix k = prefix key k"
| "in_range key WithFromKey k = (key \<le> k)"
| "in_range key (WithRange e) k = (key \<le> k \<and> k < e)"

lemma in_range_fun [simp]:
  "in_range key OneKey = (\<lambda>k. k = key)"
  "in_range key WithPrefix = prefix key"
  "in_range key WithFromKey = (\<lambda>k. key \<le> k)"
  "in_range key (WithRange e) = (\<lambda>k. key \<le> k \<and> k < e)"
  by (simp_all add: fun_eq_iff)

declare in_range.simps [simp del]

record GetResponse =
  Kvs :: "(string \<times> string) list"
  Count :: nat
  More :: bool
  Revision :: nat

text \<open>A limit of zero is no limit.\<close>

record 's etcd_client =
  et_Get :: "string \<Rightarrow> key_range \<Rightarrow> nat \<Rightarrow> bool \<Rightarrow> 's \<Rightarrow> GetResponse result"
  et_Put :: "string \<Rightarrow> string \<Rightarrow> ('s, unit) go"
  et_Delete :: "string \<Rightarrow> key_range \<Rightarrow> ('s, (string \<times> string) list) go"
  et_Txn :: "(string \<times> string) list \<Rightarrow> ('s, unit) go"

section \<open>etcdKV\<close>

text \<open>The field \<open>rootPath\<close> is always empty: \<open>NewEtcdKV\<close> sets it so and nothing changes it.\<close>

abbreviation rootPath :: string where "rootPath \<equiv> []"

record loadOption =
  withKeysOnly :: bool

definition etcdKV_Load :: "'s etcd_client \<Rightarrow> loadOption \<Rightarrow> string \<Rightarrow> ('s, string) go" where
  "etcdKV_Load C opt key s =
     (case et_Get C (joinPath [rootPath, key]) OneKey 0 (withKeysOnly opt) s of
        Inl e \<Rightarrow> (Inl e, s)
      | Inr resp \<Rightarrow>
          (if Count resp = 0 then (Inl KeyNotFound, s)
           else (res_bind (go_index (Kvs resp) 0) (\<lambda>kv. Inr (snd kv)), s)))"

definition etcdKV_LoadWithPrefix :: "'s etcd_client \<Rightarrow> loadOption \<Rightarrow> string \<Rightarrow>
    ('s, string list \<times> string list) go" where
  "etcdKV_LoadWithPrefix C opt key s =
     (case et_Get C (joinPath [rootPath, key]) WithPrefix 0 (withKeysOnly opt) s of
        Inl e \<Rightarrow> (Inl e, s)
      | Inr resp \<Rightarrow> (Inr (map fst (Kvs resp), map snd (Kvs resp)), s))"

definition etcdKV_Save :: "'s etcd_client \<Rightarrow> string \<Rightarrow> string \<Rightarrow> ('s, unit) go" where
  "etcdKV_Save C key value = et_Put C (joinPath [rootPath, key]) value"

definition etcdKV_MultiSave :: "'s etcd_client \<Rightarrow> string list \<Rightarrow> string list \<Rightarrow> ('s, unit) go" where
  "etcdKV_MultiSave C ks vs =
     (if length vs < length ks then go_fail (Panic ''index out of range'') else et_Txn C (zip ks vs))"

definition etcdKV_Remove :: "'s etcd_client \<Rightarrow> string \<Rightarrow> ('s, unit) go" where
  "etcdKV_Remove C key =
     go_bind (et_Delete C (joinPath [rootPath, key]) OneKey) (\<lambda>_. go_return ())"

definition etcdKV_RemoveWithPrefix :: "'s etcd_client \<Rightarrow> string \<Rightarrow> ('s, unit) go" where
  "etcdKV_RemoveWithPrefix C pre =
     (let key = joinPath [rootPath, pre];
          key' = (if \<not> HasSuffix key ''/'' then key @ ''/'' else key)
      in go_bind (et_Delete C key' WithPrefix) (\<lambda>_. go_return ()))"

definition etcdKV_removeWithPrevKV :: "'s etcd_client \<Rightarrow> string \<Rightarrow> ('s, (string \<times> string) option) go" where
  "etcdKV_removeWithPrevKV C key =
     go_bind (et_Delete C (joinPath [rootPath, key]) OneKey) (\<lambda>prevKvs.
       go_return (case prevKvs of [] \<Rightarrow> None | kv # _ \<Rightarrow> Some kv))"

text \<open>On an error the response is nil and reading its \<open>PrevKvs\<close> panics.\<close>

definition etcdKV_removeWithPrefixAndPrevKV :: "'s etcd_client \<Rightarrow> string \<Rightarrow> ('s, (string \<times> string) list) go"
  where
  "etcdKV_removeWithPrefixAndPrevKV C pre s =
     (case et_Delete C (joinPath [rootPath, pre]) WithPrefix s of
        (Inl e, s') \<Rightarrow> (Inl (Panic ''invalid memory address or nil pointer dereference''), s')
      | (Inr kvs, s') \<Rightarrow> (Inr kvs, s'))"

text \<open>
  \<open>GetAllRootPath\<close>: one key at a time, jumping behind the first path element of each. \<open>None\<close> stands
  for more than \<open>fuel\<close> requests.
\<close>

definition root_step :: "(string \<times> string) list \<Rightarrow> string list \<times> string \<Rightarrow> string list \<times> string" where
  "root_step kvs st =
     fold (\<lambda>(key, _) (apps, current).
       let p = hd (split_on slash key)
       in (if p \<noteq> [] then apps @ [p] else apps, p @ ''0'')) kvs st"

fun GetAllRootPath_loop :: "'s etcd_client \<Rightarrow> nat \<Rightarrow> 's \<Rightarrow> string list \<times> string \<Rightarrow> string list result option"
  where
  "GetAllRootPath_loop C 0 s st = None"
| "GetAllRootPath_loop C (Suc fuel) s st =
     (case et_Get C (snd st) WithFromKey 1 True s of
        Inl e \<Rightarrow> Some (Inl e)
      | Inr resp \<Rightarrow>
          let st' = root_step (Kvs resp) st
          in if \<not> More resp then Some (Inr (fst st')) else GetAllRootPath_loop C fuel s st')"

definition etcdKV_GetAllRootPath :: "'s etcd_client \<Rightarrow> nat \<Rightarrow> 's \<Rightarrow> string list result option" where
  "etcdKV_GetAllRootPath C fuel s = GetAllRootPath_loop C fuel s ([], [])"

text \<open>
  \<open>WalkWithPrefix\<close> with the callback as a state transformer that may fail. \<open>GetPrefixRangeEnd\<close> of the
  client library is the argument \<open>rangeEnd\<close>.
\<close>

fun apply_all :: "(string \<Rightarrow> string \<Rightarrow> ('t, unit) go) \<Rightarrow> (string \<times> string) list \<Rightarrow> ('t, unit) go" where
  "apply_all fn [] = go_return ()"
| "apply_all fn ((k, v) # kvs) = go_bind (fn k v) (\<lambda>_. apply_all fn kvs)"

fun WalkWithPrefix_loop :: "'s etcd_client \<Rightarrow> nat \<Rightarrow> nat \<Rightarrow> (string \<Rightarrow> string \<Rightarrow> ('t, unit) go) \<Rightarrow> 's \<Rightarrow>
    string \<Rightarrow> string \<Rightarrow> 't \<Rightarrow> (unit result \<times> 't) option" where
  "WalkWithPrefix_loop C 0 batch fn s rangeEnd key t = None"
| "WalkWithPrefix_loop C (Suc fuel) batch fn s rangeEnd key t =
     (case et_Get C key (WithRange rangeEnd) batch False s of
        Inl e \<Rightarrow> Some (Inl e, t)
      | Inr resp \<Rightarrow>
          (case apply_all fn (Kvs resp) t of
             (Inl e, t') \<Rightarrow> Some (Inl e, t')
           | (Inr _, t') \<Rightarrow>
               if \<not> More resp then Some (Inr (), t')
               else if Kvs resp = [] then Some (Inl (Panic ''index out of range''), t')
               else WalkWithPrefix_loop C fuel batch fn s rangeEnd
                      (fst (last (Kvs resp)) @ [CHR 0x00]) t'))"

definition etcdKV_WalkWithPrefix :: "'s etcd_client \<Rightarrow> (string \<Rightarrow> string) \<Rightarrow> nat \<Rightarrow> string \<Rightarrow> nat \<Rightarrow>
    (string \<Rightarrow> string \<Rightarrow> ('t, unit) go) \<Rightarrow> 's \<Rightarrow> 't \<Rightarrow> (unit result \<times> 't) option" where
  "etcdKV_WalkWithPrefix C rangeEnd fuel pre paginationSize fn s t =
     (let p = path_Join [rootPath, pre]
      in WalkWithPrefix_loop C fuel paginationSize fn s (rangeEnd p) p t)"

section \<open>Backup\<close>

text \<open>A length-prefixed block of a backup file.\<close>

definition writeBackupBytes :: "bytes \<Rightarrow> bytes \<Rightarrow> bytes" where
  "writeBackupBytes w data =
     (let w1 = w @ put_le 8 (of_nat (length data) :: u64)
      in if 0 < length data then w1 @ data else w1)"

text \<open>
  The copying loop of \<open>BackupKV\<close> at a fixed revision: \<open>marshal\<close> is the encoding of a \<open>KeyDataPair\<close>,
  the writer is the list of bytes written so far, \<open>cnt\<close> the number of keys counted at the start. The
  progress display divides by \<open>cnt\<close>.
\<close>

record backup_state =
  bk_currentKey :: string
  bk_i :: int
  bk_w :: bytes

definition backup_entry :: "(string \<Rightarrow> string \<Rightarrow> bytes result) \<Rightarrow> string \<Rightarrow> string \<times> string \<Rightarrow>
    backup_state \<times> int \<Rightarrow> (backup_state \<times> int) result" where
  "backup_entry marshal pre kv st =
     (if \<not> HasPrefix (fst kv) pre then Inr st
      else res_bind (marshal (fst kv) (snd kv)) (\<lambda>bs.
        Inr ((fst st)\<lparr>bk_w := writeBackupBytes (bk_w (fst st)) bs,
                      bk_currentKey := fst kv @ [CHR 0x00]\<rparr>, snd st + 1)))"

fun BackupKV_loop :: "'s etcd_client \<Rightarrow> (string \<Rightarrow> string \<Rightarrow> bytes result) \<Rightarrow> nat \<Rightarrow> string \<Rightarrow> nat \<Rightarrow> nat \<Rightarrow> 's \<Rightarrow>
    backup_state \<Rightarrow> bytes result option" where
  "BackupKV_loop C marshal cnt pre batchSize 0 s b = None"
| "BackupKV_loop C marshal cnt pre batchSize (Suc fuel) s b =
     (case et_Get C (bk_currentKey b) WithFromKey batchSize False s of
        Inl e \<Rightarrow> Some (Inl e)
      | Inr resp \<Rightarrow>
          if Count resp = 0 then Some (Inr (bk_w b))
          else
            (case res_fold (backup_entry marshal pre) (Kvs resp) (b, 0) of
               Inl e \<Rightarrow> Some (Inl e)
             | Inr (b', valid) \<Rightarrow>
                 if cnt = 0 then Some (Inl (Panic ''integer divide by zero''))
                 else BackupKV_loop C marshal cnt pre batchSize fuel s (b'\<lparr>bk_i := bk_i b + valid\<rparr>)))"

text \<open>
  \<open>instance\<close> and \<open>metaPath\<close> of the part header, which \<open>encode_header\<close> turns into bytes (JSON inside
  protobuf, both outside this development).
\<close>

definition backup_paths :: "string \<Rightarrow> string \<times> string" where
  "backup_paths base =
     (let parts = split_on slash base
      in if 1 < length parts then (joinPath (butlast parts), last parts) else (base, []))"

definition etcdKV_BackupKV :: "'s etcd_client \<Rightarrow> (nat \<Rightarrow> nat \<Rightarrow> string \<Rightarrow> string \<Rightarrow> bytes result) \<Rightarrow>
    (string \<Rightarrow> string \<Rightarrow> bytes result) \<Rightarrow> nat \<Rightarrow> string \<Rightarrow> string \<Rightarrow> nat \<Rightarrow> 's \<Rightarrow> bytes result option" where
  "etcdKV_BackupKV C encode_header marshal fuel base pre batchSize s =
     (let p = joinPath [base, pre] in
      case et_Get C p WithPrefix 0 True s of
        Inl e \<Rightarrow> Some (Inl e)
      | Inr resp \<Rightarrow>
          (case backup_paths base of (inst, metaPath) \<Rightarrow>
             (case encode_header (Count resp) (Revision resp) inst metaPath of
                Inl e \<Rightarrow> Some (Inl e)
              | Inr hdr \<Rightarrow>
                  (case BackupKV_loop C marshal (Count resp) p batchSize fuel s
                          \<lparr>bk_currentKey = p, bk_i = 0, bk_w = writeBackupBytes [] hdr\<rparr> of
                     None \<Rightarrow> None
                   | Some (Inl e) \<Rightarrow> Some (Inl e)
                   | Some (Inr w) \<Rightarrow> Some (Inr (writeBackupBytes w []))))))"

section \<open>Key order\<close>

lemma char_0_le: "(CHR 0x00) \<le> (c :: char)"
  by (simp add: less_eq_char_def)

lemma append_zero_le: "x @ [CHR 0x00] \<le> k \<longleftrightarrow> x < (k :: string)"
proof (induction x arbitrary: k)
  case Nil
  show ?case
  proof (cases k)
    case (Cons c cs)
    have "CHR 0x00 < c \<or> CHR 0x00 = c" using char_0_le [of c] by (auto simp: le_less)
    with Cons show ?thesis by auto
  qed simp
next
  case (Cons a x)
  then show ?case by (cases k) auto
qed

lemma prefix_le: "prefix p k \<Longrightarrow> p \<le> (k :: string)"
  by (induction p arbitrary: k) (auto simp: prefix_def)

lemma prefix_before:
  "prefix p (k1 :: string) \<Longrightarrow> p \<le> k2 \<Longrightarrow> \<not> prefix p k2 \<Longrightarrow> k1 < k2"
proof (induction p arbitrary: k1 k2)
  case Nil
  then show ?case by simp
next
  case (Cons a p)
  obtain l1 where k1: "k1 = a # l1" "prefix p l1" using Cons.prems(1) by (auto simp: prefix_def)
  obtain b l2 where k2: "k2 = b # l2" using Cons.prems(2) by (cases k2) auto
  with Cons k1 show ?case by auto
qed

text \<open>In a sorted list, what follows the first \<open>n\<close> elements is what is greater than the last of them.\<close>

lemma filter_greater_drop:
  assumes "sorted_wrt (<) (xs :: 'a::linorder list)" and "0 < n" and "n \<le> length xs"
  shows "filter (\<lambda>k. xs ! (n - 1) < k) xs = drop n xs"
  using assms
proof (induction xs arbitrary: n)
  case Nil
  then show ?case by simp
next
  case (Cons x xs)
  show ?case
  proof (cases "n = 1")
    case True
    with Cons.prems(1) show ?thesis by auto
  next
    case False
    with Cons.prems(2,3) have n: "0 < n - 1" "n - 1 \<le> length xs" by auto
    then have "xs ! (n - 1 - 1) \<in> set xs" by auto
    then have "\<not> xs ! (n - 1 - 1) < x" using Cons.prems(1) by auto
    moreover have "(x # xs) ! (n - 1) = xs ! (n - 1 - 1)" using n by (simp add: nth_Cons')
    ultimately show ?thesis using Cons.IH [OF _ n] Cons.prems n by (simp add: drop_Cons')
  qed
qed

section \<open>What the server promises\<close>

definition sorted_keys :: "(string \<Rightarrow> string option) \<Rightarrow> string list" where
  "sorted_keys m = sorted_list_of_set (dom m)"

definition sorted_kvs :: "(string \<Rightarrow> string option) \<Rightarrow> (string \<Rightarrow> bool) \<Rightarrow> (string \<times> string) list" where
  "sorted_kvs m P = map (\<lambda>k. (k, the (m k))) (filter P (sorted_keys m))"

definition limited :: "nat \<Rightarrow> 'a list \<Rightarrow> 'a list" where
  "limited lim xs = (if lim = 0 then xs else take lim xs)"

locale etcd_server =
  fixes C :: "'s etcd_client"
    and store :: "'s \<Rightarrow> string \<Rightarrow> string option"
  assumes finite_store: "finite (dom (store s))"
    and Get_ok: "et_Get C key r lim keysOnly s = Inr resp \<Longrightarrow>
      Kvs resp = map (\<lambda>(k, v). (k, if keysOnly then [] else v))
        (limited lim (sorted_kvs (store s) (in_range key r))) \<and>
      Count resp = length (sorted_kvs (store s) (in_range key r)) \<and>
      More resp = (0 < lim \<and> lim < length (sorted_kvs (store s) (in_range key r)))"
    and Put_ok: "et_Put C k v s = (Inr (), s') \<Longrightarrow> store s' = (store s)(k \<mapsto> v)"
    and Delete_ok: "et_Delete C key r s = (Inr kvs, s') \<Longrightarrow>
      kvs = sorted_kvs (store s) (in_range key r) \<and> store s' = store s |` {k. \<not> in_range key r k}"
    and Delete_err: "et_Delete C key r s = (Inl e, s') \<Longrightarrow>
      store s' = store s \<or> store s' = store s |` {k. \<not> in_range key r k}"
    and Txn_ok: "et_Txn C kvs s = (Inr (), s') \<Longrightarrow> distinct (map fst kvs) \<Longrightarrow>
      store s' = store s ++ map_of kvs"

text \<open>A server that answers every read.\<close>

definition answers :: "'s etcd_client \<Rightarrow> 's \<Rightarrow> bool" where
  "answers C s \<longleftrightarrow> (\<forall>key r lim keysOnly. \<exists>resp. et_Get C key r lim keysOnly s = Inr resp)"

definition read_result :: "(string \<Rightarrow> string option) \<Rightarrow> string \<Rightarrow> string result" where
  "read_result m k = (case m k of None \<Rightarrow> Inl KeyNotFound | Some v \<Rightarrow> Inr v)"

lemma sorted_keys_props:
  assumes "finite (dom m)"
  shows "set (sorted_keys m) = dom m" and "sorted_wrt (<) (sorted_keys m)" and "distinct (sorted_keys m)"
  using assms strict_sorted_list_of_set [of "dom m"] by (simp_all add: sorted_keys_def)

lemma sorted_kvs_fst: "map fst (sorted_kvs m P) = filter P (sorted_keys m)"
  by (simp add: sorted_kvs_def comp_def)

lemma set_sorted_kvs:
  "finite (dom m) \<Longrightarrow> set (sorted_kvs m P) = {(k, v). m k = Some v \<and> P k}"
  by (force simp: sorted_kvs_def sorted_keys_props)

lemma length_sorted_kvs_le: "finite (dom m) \<Longrightarrow> length (sorted_kvs m P) \<le> card (dom m)"
  using length_filter_le [of P "sorted_keys m"] distinct_card [of "sorted_keys m"]
  by (simp add: sorted_kvs_def sorted_keys_props)

lemma filter_from_later:
  "a \<le> b \<Longrightarrow> filter (\<lambda>k. b \<le> k) xs = filter (\<lambda>k. b \<le> k) (filter (\<lambda>k. (a :: 'a::order) \<le> k) xs)"
  by (induction xs) (auto dest: order_trans)

lemma filter_single: "x \<in> set xs \<Longrightarrow> distinct xs \<Longrightarrow> filter (\<lambda>k. k = x) xs = [x]"
  by (induction xs) (auto simp: filter_empty_conv)

lemma sorted_kvs_one:
  assumes "finite (dom m)"
  shows "sorted_kvs m (\<lambda>k. k = key) = (case m key of None \<Rightarrow> [] | Some v \<Rightarrow> [(key, v)])"
proof (cases "m key")
  case None
  then have "filter (\<lambda>k. k = key) (sorted_keys m) = []"
    using sorted_keys_props(1) [OF assms] by (auto simp: filter_empty_conv)
  with None show ?thesis by (simp add: sorted_kvs_def)
next
  case (Some v)
  then have "key \<in> set (sorted_keys m)" using sorted_keys_props(1) [OF assms] by auto
  then have "filter (\<lambda>k. k = key) (sorted_keys m) = [key]"
    using sorted_keys_props(3) [OF assms] by (rule filter_single)
  with Some show ?thesis by (simp add: sorted_kvs_def)
qed

text \<open>A table that is a sorted list already.\<close>

lemma sorted_keys_alist:
  assumes "sorted_wrt (<) (map fst al)"
  shows "sorted_keys (map_of al) = map fst al"
  using assms
  by (simp add: sorted_keys_def dom_map_of_conv_image_fst sorted_list_of_set.idem_if_sorted_distinct
      strict_sorted_iff flip: set_map)

lemma sorted_kvs_alist:
  assumes "sorted_wrt (<) (map fst al)"
  shows "sorted_kvs (map_of al) P = filter (\<lambda>(k, v). P k) al"
proof -
  have "distinct (map fst al)" using assms by (simp add: strict_sorted_iff)
  then have "map (\<lambda>k. (k, the (map_of al k))) (filter P (map fst al)) = filter (\<lambda>(k, v). P k) al"
  proof (induction al)
    case (Cons kv al)
    then have "k \<noteq> fst kv" if "k \<in> set (map fst al)" for k using that by (auto simp del: set_map)
    then have "map (\<lambda>k. (k, the (map_of (kv # al) k))) (filter P (map fst al)) =
        map (\<lambda>k. (k, the (map_of al k))) (filter P (map fst al))" by (intro map_cong) (simp_all del: set_map)
    with Cons show ?case by (cases kv) auto
  qed simp
  then show ?thesis by (simp add: sorted_kvs_def sorted_keys_alist [OF assms])
qed

context etcd_server
begin

lemma Get_obtain:
  assumes "answers C s"
  obtains resp where "et_Get C key r lim keysOnly s = Inr resp"
    and "Kvs resp = map (\<lambda>(k, v). (k, if keysOnly then [] else v))
      (limited lim (sorted_kvs (store s) (in_range key r)))"
    and "Count resp = length (sorted_kvs (store s) (in_range key r))"
    and "More resp = (0 < lim \<and> lim < length (sorted_kvs (store s) (in_range key r)))"
  using assms Get_ok unfolding answers_def by blast

lemma Load_result:
  assumes "answers C s"
  shows "etcdKV_Load C \<lparr>withKeysOnly = False\<rparr> key s = (read_result (store s) (joinPath [rootPath, key]), s)"
proof -
  obtain resp where "et_Get C (joinPath [rootPath, key]) OneKey 0 False s = Inr resp"
    "Kvs resp = map (\<lambda>(k, v). (k, if False then [] else v))
      (limited 0 (sorted_kvs (store s) (in_range (joinPath [rootPath, key]) OneKey)))"
    "Count resp = length (sorted_kvs (store s) (in_range (joinPath [rootPath, key]) OneKey))"
    using Get_obtain [OF assms] by blast
  then show ?thesis
    using sorted_kvs_one [OF finite_store, of s "joinPath [rootPath, key]"]
    by (auto simp: etcdKV_Load_def read_result_def limited_def go_index_def split: option.splits)
qed

lemma LoadWithPrefix_result:
  assumes "answers C s"
  shows "etcdKV_LoadWithPrefix C \<lparr>withKeysOnly = False\<rparr> key s =
    (Inr (map fst (sorted_kvs (store s) (prefix (joinPath [rootPath, key]))),
          map snd (sorted_kvs (store s) (prefix (joinPath [rootPath, key])))), s)"
proof -
  obtain resp where "et_Get C (joinPath [rootPath, key]) WithPrefix 0 False s = Inr resp"
    "Kvs resp = map (\<lambda>(k, v). (k, if False then [] else v))
      (limited 0 (sorted_kvs (store s) (in_range (joinPath [rootPath, key]) WithPrefix)))"
    using Get_obtain [OF assms] by blast
  then show ?thesis by (simp add: etcdKV_LoadWithPrefix_def limited_def)
qed

end

section \<open>A server that keeps its promises\<close>

definition ref_client :: "(string \<times> string) list etcd_client" where
  "ref_client = \<lparr>
     et_Get = (\<lambda>key r lim keysOnly s.
       let found = sorted_kvs (map_of s) (in_range key r)
       in Inr \<lparr>Kvs = map (\<lambda>(k, v). (k, if keysOnly then [] else v)) (limited lim found),
               Count = length found, More = (0 < lim \<and> lim < length found), Revision = 1\<rparr>),
     et_Put = (\<lambda>k v s. (Inr (), AList.update k v s)),
     et_Delete = (\<lambda>key r s. (Inr (sorted_kvs (map_of s) (in_range key r)),
       filter (\<lambda>(k, v). \<not> in_range key r k) s)),
     et_Txn = (\<lambda>kvs s. (Inr (), kvs @ s))\<rparr>"

lemma map_of_filter_keys: "map_of (filter (\<lambda>(k, v). P k) al) = map_of al |` {k. P k}"
  by (induction al) (auto simp: restrict_map_def fun_eq_iff)

interpretation ref: etcd_server ref_client map_of
proof
  show "finite (dom (map_of s))" for s :: "(string \<times> string) list"
    by (rule finite_dom_map_of)
  show "et_Delete ref_client key r s = (Inr kvs, s') \<Longrightarrow>
      kvs = sorted_kvs (map_of s) (in_range key r) \<and> map_of s' = map_of s |` {k. \<not> in_range key r k}"
    for key r s kvs s'
    using map_of_filter_keys [of "\<lambda>k. \<not> in_range key r k" s] by (auto simp: ref_client_def)
qed (auto simp: ref_client_def Let_def update_conv')

lemma ref_answers: "answers ref_client s"
  by (simp add: answers_def ref_client_def Let_def)

section \<open>The store refines a map\<close>

context etcd_server
begin

lemma RemoveWithPrefix_result:
  assumes "etcdKV_RemoveWithPrefix C pre s = (Inr (), s')"
  shows "store s' = store s |` {k. \<not> prefix (let key = joinPath [rootPath, pre]
    in if HasSuffix key ''/'' then key else key @ ''/'') k}"
  using assms
  by (auto simp: etcdKV_RemoveWithPrefix_def go_bind_Inr_iff Let_def split: if_splits
      dest!: Delete_ok)

lemma Remove_result:
  assumes "etcdKV_Remove C key s = (Inr (), s')"
  shows "store s' = (store s)(joinPath [rootPath, key] := None)"
proof -
  have "store s' = store s |` {k. \<not> in_range (joinPath [rootPath, key]) OneKey k}"
    using assms by (auto simp: etcdKV_Remove_def go_bind_Inr_iff dest!: Delete_ok)
  then show ?thesis by (auto simp: restrict_map_def fun_eq_iff)
qed

text \<open>A failed removal may have happened or not, but touches no other key.\<close>

lemma Remove_frame:
  assumes "etcdKV_Remove C key s = (r, s')" and "k \<noteq> joinPath [rootPath, key]"
  shows "store s' k = store s k"
proof (cases r)
  case (Inl e)
  then have "et_Delete C (joinPath [rootPath, key]) OneKey s = (Inl e, s')"
    using assms(1) by (auto simp: etcdKV_Remove_def go_bind_def split: prod.splits sum.splits)
  from Delete_err [OF this] assms(2) show ?thesis by (auto simp: restrict_map_def)
next
  case (Inr u)
  with assms Remove_result show ?thesis by simp
qed

end

text \<open>
  Property C18. The etcd store refines a map from cleaned keys to values: while the server answers,
  \<open>Load\<close> returns the value of the cleaned key or \<open>ErrKeyNotFound\<close>, \<open>LoadWithPrefix\<close> returns exactly the
  entries with the cleaned prefix in the order of their keys, \<open>Save\<close> and \<open>Remove\<close> change exactly the
  cleaned key, and \<open>RemoveWithPrefix\<close> removes exactly the keys below the prefix as a directory.
\<close>

theorem etcdKV_refines_map:
  assumes "etcd_server C store" and "answers C s"
  shows "etcdKV_Load C \<lparr>withKeysOnly = False\<rparr> key s = (read_result (store s) (joinPath [[], key]), s) \<and>
    etcdKV_LoadWithPrefix C \<lparr>withKeysOnly = False\<rparr> key s =
      (Inr (map fst (sorted_kvs (store s) (prefix (joinPath [[], key]))),
            map snd (sorted_kvs (store s) (prefix (joinPath [[], key])))), s) \<and>
    (\<forall>s'. etcdKV_Save C key v s = (Inr (), s') \<longrightarrow> store s' = (store s)(joinPath [[], key] \<mapsto> v)) \<and>
    (\<forall>s'. etcdKV_Remove C key s = (Inr (), s') \<longrightarrow> store s' = (store s)(joinPath [[], key] := None)) \<and>
    (\<forall>s'. etcdKV_RemoveWithPrefix C key s = (Inr (), s') \<longrightarrow>
      store s' = store s |` {k. \<not> prefix (let p = joinPath [[], key]
        in if HasSuffix p ''/'' then p else p @ ''/'') k})"
  using etcd_server.Load_result [OF assms] etcd_server.LoadWithPrefix_result [OF assms]
    etcd_server.Remove_result [OF assms(1)] etcd_server.RemoveWithPrefix_result [OF assms(1)]
    etcd_server.Put_ok [OF assms(1)]
  by (simp add: etcdKV_Save_def)

theorem etcdKV_refines_map_witness:
  "etcdKV_Load ref_client \<lparr>withKeysOnly = False\<rparr> ''a//b'' [(''a/b'', ''1''), (''a/c'', ''2'')] =
     (Inr ''1'', [(''a/b'', ''1''), (''a/c'', ''2'')]) \<and>
   fst (etcdKV_LoadWithPrefix ref_client \<lparr>withKeysOnly = False\<rparr> ''a//b'' [(''a/b'', ''1''), (''a/c'', ''2'')]) =
     Inr (map fst (sorted_kvs (map_of [(''a/b'', ''1''), (''a/c'', ''2'')]) (prefix ''a/b'')),
          map snd (sorted_kvs (map_of [(''a/b'', ''1''), (''a/c'', ''2'')]) (prefix ''a/b'')))"
proof -
  have "joinPath [[], ''a//b''] = ''a/b''" by (simp add: joinPath_root HasSuffix_def path_Clean_def)
  with etcdKV_refines_map [OF ref.etcd_server_axioms ref_answers [of "[(''a/b'', ''1''), (''a/c'', ''2'')]"],
      of "''a//b''"]
  show ?thesis by (simp add: read_result_def)
qed

section \<open>Paging through a prefix\<close>

lemma limited_map: "limited n (map f xs) = map f (limited n xs)"
  by (simp add: limited_def take_map)

lemma sorted_kvs_after:
  assumes "finite (dom m)" and "0 < n" and "n \<le> length (sorted_kvs m P)"
    and "\<And>k. Q k \<longleftrightarrow> P k \<and> fst (sorted_kvs m P ! (n - 1)) < k"
  shows "sorted_kvs m Q = drop n (sorted_kvs m P)"
proof -
  let ?xs = "filter P (sorted_keys m)"
  have len: "length (sorted_kvs m P) = length ?xs" by (simp add: sorted_kvs_def)
  have "fst (sorted_kvs m P ! (n - 1)) = ?xs ! (n - 1)"
    using assms(2,3) by (simp add: sorted_kvs_def)
  then have "Q = (\<lambda>k. P k \<and> ?xs ! (n - 1) < k)"
    using assms(4) by (simp add: fun_eq_iff)
  then have "filter Q (sorted_keys m) = filter (\<lambda>k. ?xs ! (n - 1) < k) ?xs"
    by (simp add: conj_commute)
  also have "\<dots> = drop n ?xs"
    using assms(2,3) len sorted_keys_props(2) [OF assms(1)]
    by (intro filter_greater_drop) (auto intro: sorted_wrt_filter)
  finally show ?thesis by (simp add: sorted_kvs_def drop_map)
qed

lemma apply_all_append:
  "apply_all fn (xs @ ys) t =
     (case apply_all fn xs t of (Inl e, t') \<Rightarrow> (Inl e, t') | (Inr _, t') \<Rightarrow> apply_all fn ys t')"
proof (induction xs arbitrary: t)
  case (Cons x xs)
  then show ?case by (cases x) (auto simp: go_bind_def split: prod.splits sum.splits)
qed simp

context etcd_server
begin

lemma walk_loop:
  assumes ans: "answers C s" and "length (sorted_kvs (store s) (in_range key (WithRange e))) < fuel"
  shows "WalkWithPrefix_loop C fuel batch fn s e key t =
    Some (apply_all fn (sorted_kvs (store s) (in_range key (WithRange e))) t)"
  using assms(2)
proof (induction fuel arbitrary: key t)
  case 0
  then show ?case by simp
next
  case (Suc fuel)
  define all where "all = sorted_kvs (store s) (in_range key (WithRange e))"
  obtain resp where resp: "et_Get C key (WithRange e) batch False s = Inr resp"
    "Kvs resp = limited batch all" "More resp = (0 < batch \<and> batch < length all)"
    using Get_obtain [OF ans, of key "WithRange e" batch False] unfolding all_def by auto
  have "WalkWithPrefix_loop C (Suc fuel) batch fn s e key t = Some (apply_all fn all t)"
  proof (cases "More resp")
    case False
    then have "Kvs resp = all" using resp by (auto simp: limited_def)
    with False resp(1) show ?thesis by (auto split: prod.splits sum.splits)
  next
    case True
    then have b: "0 < batch" "batch < length all" using resp(3) by auto
    then have kvs: "Kvs resp = take batch all" using resp(2) by (simp add: limited_def)
    then have ne: "Kvs resp \<noteq> []" using b by auto
    then have last: "last (Kvs resp) = all ! (batch - 1)"
      using b kvs by (simp add: last_conv_nth)
    let ?key = "fst (last (Kvs resp)) @ [CHR 0x00]"
    have "(all ! (batch - 1)) \<in> set all" using b by simp
    then have "key \<le> fst (all ! (batch - 1))"
      using set_sorted_kvs [OF finite_store, of s] unfolding all_def by force
    then have "sorted_kvs (store s) (in_range ?key (WithRange e)) = drop batch all"
      using b last unfolding all_def by (intro sorted_kvs_after [OF finite_store]) (auto simp: append_zero_le)
    moreover have "length (drop batch all) < fuel" using Suc.prems b unfolding all_def [symmetric] by simp
    ultimately have "WalkWithPrefix_loop C fuel batch fn s e ?key t' = Some (apply_all fn (drop batch all) t')"
      for t' using Suc.IH [of ?key t'] by simp
    moreover have "apply_all fn all t = apply_all fn (Kvs resp @ drop batch all) t"
      by (simp add: kvs)
    ultimately show ?thesis
      using resp(1) True ne by (simp add: apply_all_append split: prod.splits sum.splits)
  qed
  then show ?case by (simp only: all_def)
qed

lemma walk_result:
  assumes "answers C s"
    and "\<And>k. path_Join [[], pre] \<le> k \<and> k < rangeEnd (path_Join [[], pre]) \<longleftrightarrow> prefix (path_Join [[], pre]) k"
    and "card (dom (store s)) < fuel"
  shows "etcdKV_WalkWithPrefix C rangeEnd fuel pre paginationSize fn s t =
    Some (apply_all fn (sorted_kvs (store s) (prefix (path_Join [[], pre]))) t)"
proof -
  let ?p = "path_Join [[], pre]"
  have range: "(\<lambda>k. ?p \<le> k \<and> k < rangeEnd ?p) = prefix ?p"
    using assms(2) by (simp add: fun_eq_iff)
  have "length (sorted_kvs (store s) (prefix ?p)) \<le> card (dom (store s))"
    by (rule length_sorted_kvs_le [OF finite_store])
  then have "length (sorted_kvs (store s) (in_range ?p (WithRange (rangeEnd ?p)))) < fuel"
    using assms(3) by (simp add: range)
  from walk_loop [OF assms(1) this] show ?thesis
    by (simp add: etcdKV_WalkWithPrefix_def range Let_def)
qed

end

text \<open>
  Property C20. \<open>WalkWithPrefix\<close> on etcd terminates for every page size, zero included, and calls the
  callback once for each entry below the prefix, in the order of the keys, up to the first error, as if
  it had read all entries at once: no entry is skipped or repeated at a page boundary.
\<close>

theorem etcdKV_walk_complete:
  assumes "etcd_server C store" and "answers C s"
    and "\<And>k. path_Join [[], pre] \<le> k \<and> k < rangeEnd (path_Join [[], pre]) \<longleftrightarrow> prefix (path_Join [[], pre]) k"
    and "card (dom (store s)) < fuel"
  shows "etcdKV_WalkWithPrefix C rangeEnd fuel pre paginationSize fn s t =
    Some (apply_all fn (sorted_kvs (store s) (prefix (path_Join [[], pre]))) t)"
  by (rule etcd_server.walk_result [where pre = pre and rangeEnd = rangeEnd, OF assms])

theorem etcdKV_walk_complete_witness:
  "etcdKV_WalkWithPrefix ref_client (\<lambda>p. ''b'') 3 ''a/'' 1 (\<lambda>k v t. (Inr (), t @ [k])) [(''a'', ''1'')] [] =
     Some (apply_all (\<lambda>k v t. (Inr (), t @ [k])) (sorted_kvs (map_of [(''a'', ''1'')]) (prefix ''a'')) [])"
proof -
  have j: "path_Join [[], ''a/''] = ''a''" by (simp add: path_Join_root path_Clean_def)
  have "''a'' \<le> k \<and> k < ''b'' \<longleftrightarrow> prefix ''a'' k" for k :: string
  proof (cases k)
    case (Cons c cs)
    have "CHR ''a'' < c \<and> c < CHR ''b'' \<longleftrightarrow> False" by (auto simp: less_char_def)
    with Cons show ?thesis by (auto simp: prefix_def less_char_def)
  qed (simp add: prefix_def)
  then have "path_Join [[], ''a/''] \<le> k \<and> k < ''b'' \<longleftrightarrow> prefix (path_Join [[], ''a/'']) k" for k
    by (simp only: j)
  from etcdKV_walk_complete [OF ref.etcd_server_axioms ref_answers this, where s = "[(''a'', ''1'')]" and fuel = 3
      and paginationSize = 1 and fn = "\<lambda>k v t. (Inr (), t @ [k])" and t = "[]"]
  show ?thesis by (simp add: j)
qed

section \<open>Backups\<close>

definition frame :: "bytes \<Rightarrow> bytes" where
  "frame bs = put_le 8 (of_nat (length bs) :: u64) @ bs"

lemma writeBackupBytes_frame: "writeBackupBytes w bs = w @ frame bs"
  by (simp add: writeBackupBytes_def frame_def Let_def)

definition frames :: "(string \<Rightarrow> string \<Rightarrow> bytes) \<Rightarrow> (string \<times> string) list \<Rightarrow> bytes" where
  "frames enc kvs = concat (map (\<lambda>(k, v). frame (enc k v)) kvs)"

lemma backup_entries:
  assumes "marshal = (\<lambda>k v. Inr (enc k v))" and "\<forall>kv \<in> set kvs. prefix p (fst kv)"
  shows "\<exists>n. res_fold (backup_entry marshal p) kvs (b, valid) =
    Inr (b\<lparr>bk_w := bk_w b @ frames enc kvs,
           bk_currentKey := if kvs = [] then bk_currentKey b else fst (last kvs) @ [CHR 0x00]\<rparr>, n)"
  using assms(2)
proof (induction kvs arbitrary: b valid)
  case Nil
  then show ?case by (simp add: frames_def)
next
  case (Cons kv kvs)
  obtain k v where kv: "kv = (k, v)" by force
  let ?b = "b\<lparr>bk_w := bk_w b @ frame (enc k v), bk_currentKey := k @ [CHR 0x00]\<rparr>"
  have "backup_entry marshal p kv (b, valid) = Inr (?b, valid + 1)"
    using Cons.prems by (simp add: backup_entry_def kv assms(1) writeBackupBytes_frame)
  with Cons.IH [of ?b "valid + 1"] Cons.prems show ?case
    by (auto simp: kv frames_def)
qed

text \<open>In general the current key stays or moves behind one of the entries with the prefix.\<close>

lemma backup_entries_key:
  assumes "marshal = (\<lambda>k v. Inr (enc k v))"
  shows "\<exists>b' n. res_fold (backup_entry marshal p) kvs (b, valid) = Inr (b', n) \<and>
    (bk_currentKey b' = bk_currentKey b \<or>
     (\<exists>k \<in> fst ` set kvs. prefix p k \<and> bk_currentKey b' = k @ [CHR 0x00]))"
proof (induction kvs arbitrary: b valid)
  case Nil
  then show ?case by simp
next
  case (Cons kv kvs)
  show ?case
  proof (cases "prefix p (fst kv)")
    case True
    let ?b = "b\<lparr>bk_w := writeBackupBytes (bk_w b) (enc (fst kv) (snd kv)), bk_currentKey := fst kv @ [CHR 0x00]\<rparr>"
    have "backup_entry marshal p kv (b, valid) = Inr (?b, valid + 1)"
      using True by (simp add: backup_entry_def assms)
    with Cons.IH [of ?b "valid + 1"] True show ?thesis by auto
  next
    case False
    then have "backup_entry marshal p kv (b, valid) = Inr (b, valid)"
      by (simp add: backup_entry_def)
    with Cons.IH [of b valid] show ?thesis by auto
  qed
qed

context etcd_server
begin

lemma backup_loop_done:
  assumes ans: "answers C s" and enc: "marshal = (\<lambda>k v. Inr (enc k v))" and cnt: "cnt \<noteq> 0"
    and "\<forall>kv \<in> set (sorted_kvs (store s) (\<lambda>k. bk_currentKey b \<le> k)). prefix p (fst kv)"
    and "length (sorted_kvs (store s) (\<lambda>k. bk_currentKey b \<le> k)) < fuel"
  shows "BackupKV_loop C marshal cnt p batch fuel s b =
    Some (Inr (bk_w b @ frames enc (sorted_kvs (store s) (\<lambda>k. bk_currentKey b \<le> k))))"
  using assms(4,5)
proof (induction fuel arbitrary: b)
  case 0
  then show ?case by simp
next
  case (Suc fuel)
  define rest where "rest = sorted_kvs (store s) (\<lambda>k. bk_currentKey b \<le> k)"
  note prems = Suc.prems [folded rest_def]
  obtain resp where resp: "et_Get C (bk_currentKey b) WithFromKey batch False s = Inr resp"
    "Kvs resp = limited batch rest" "Count resp = length rest"
    using Get_obtain [OF ans, of "bk_currentKey b" WithFromKey batch False] by (auto simp: rest_def)
  have "BackupKV_loop C marshal cnt p batch (Suc fuel) s b = Some (Inr (bk_w b @ frames enc rest))"
  proof (cases "rest = []")
    case True
    with resp show ?thesis by (simp add: frames_def)
  next
    case False
    define n where "n = (if batch = 0 then length rest else min batch (length rest))"
    have n: "0 < n" "n \<le> length rest" "Kvs resp = take n rest"
      using False resp(2) by (auto simp: n_def limited_def min_def)
    have kvs: "Kvs resp \<noteq> []" "last (Kvs resp) = rest ! (n - 1)"
      using n False by (auto simp: last_conv_nth)
    have "\<forall>kv \<in> set (Kvs resp). prefix p (fst kv)"
      using prems(1) n(3) by (auto dest: in_set_takeD)
    from backup_entries [OF enc this, of b 0] kvs obtain v where fold:
      "res_fold (backup_entry marshal p) (Kvs resp) (b, 0) =
        Inr (b\<lparr>bk_w := bk_w b @ frames enc (Kvs resp),
          bk_currentKey := fst (rest ! (n - 1)) @ [CHR 0x00]\<rparr>, v)" by auto
    let ?b = "b\<lparr>bk_w := bk_w b @ frames enc (Kvs resp),
      bk_currentKey := fst (rest ! (n - 1)) @ [CHR 0x00], bk_i := bk_i b + v\<rparr>"
    have "rest ! (n - 1) \<in> set rest" using n by simp
    then have "bk_currentKey b \<le> fst (rest ! (n - 1))"
      using set_sorted_kvs [OF finite_store, of s] by (force simp: rest_def)
    then have next_rest: "sorted_kvs (store s) (\<lambda>k. bk_currentKey ?b \<le> k) = drop n rest"
      using n unfolding rest_def
      by (intro sorted_kvs_after [OF finite_store]) (auto simp: append_zero_le)
    have "BackupKV_loop C marshal cnt p batch fuel s ?b = Some (Inr (bk_w ?b @ frames enc (drop n rest)))"
    proof (rule Suc.IH [of ?b, unfolded next_rest])
      show "\<forall>kv \<in> set (drop n rest). prefix p (fst kv)" using prems(1) by (auto dest: in_set_dropD)
      show "length (drop n rest) < fuel" using prems(2) n by simp
    qed
    moreover have "frames enc (Kvs resp) @ frames enc (drop n rest) = frames enc rest"
      using n(3) by (simp add: frames_def flip: concat_append map_append)
    ultimately show ?thesis using resp False fold cnt by simp
  qed
  then show ?case by (simp only: rest_def)
qed

lemma backup_loop_stuck:
  assumes ans: "answers C s" and enc: "marshal = (\<lambda>k v. Inr (enc k v))" and cnt: "cnt \<noteq> 0"
    and q: "q \<in> dom (store s)" "p \<le> q" "\<not> prefix p q" and "bk_currentKey b \<le> q"
  shows "BackupKV_loop C marshal cnt p batch fuel s b = None"
  using assms(7)
proof (induction fuel arbitrary: b)
  case 0
  then show ?case by simp
next
  case (Suc fuel)
  let ?rest = "sorted_kvs (store s) (\<lambda>k. bk_currentKey b \<le> k)"
  obtain resp where resp: "et_Get C (bk_currentKey b) WithFromKey batch False s = Inr resp"
    "Count resp = length ?rest"
    using Get_obtain [OF ans, of "bk_currentKey b" WithFromKey batch False] by auto
  have "?rest \<noteq> []"
    using q(1) Suc.prems set_sorted_kvs [OF finite_store, of s "\<lambda>k. bk_currentKey b \<le> k"] by fastforce
  moreover obtain b' n where b': "res_fold (backup_entry marshal p) (Kvs resp) (b, 0) = Inr (b', n)"
    "bk_currentKey b' = bk_currentKey b \<or>
     (\<exists>k \<in> fst ` set (Kvs resp). prefix p k \<and> bk_currentKey b' = k @ [CHR 0x00])"
    using backup_entries_key [OF enc] by blast
  moreover have "bk_currentKey b' \<le> q"
    using b'(2) Suc.prems prefix_before [OF _ q(2,3)] by (auto simp: append_zero_le)
  ultimately show ?case using resp cnt Suc.IH [of "b'\<lparr>bk_i := bk_i b + n\<rparr>"] by simp
qed

end

lemma backup_copies_all:
  assumes "etcd_server C store" and "answers C s" and "marshal = (\<lambda>k v. Inr (enc k v))"
    and all: "\<forall>q \<in> dom (store s). p \<le> q \<longrightarrow> prefix p q"
    and "card (dom (store s)) < fuel" and "bk_currentKey b = p"
  shows "BackupKV_loop C marshal (length (sorted_kvs (store s) (prefix p))) p batch fuel s b =
    Some (Inr (bk_w b @ frames enc (sorted_kvs (store s) (prefix p))))"
proof -
  let ?from = "sorted_kvs (store s) (\<lambda>k. p \<le> k)"
  note fin = etcd_server.finite_store [OF assms(1), of s]
  have from_eq: "?from = sorted_kvs (store s) (prefix p)"
    unfolding sorted_kvs_def using sorted_keys_props(1) [OF fin] prefix_le all
    by (intro arg_cong [where f = "map _"] filter_cong) auto
  show ?thesis
  proof (cases "?from = []")
    case True
    obtain f where "fuel = Suc f" using assms(5) by (cases fuel) auto
    moreover obtain r2 where "et_Get C p WithFromKey batch False s = Inr r2" "Count r2 = length ?from"
      using etcd_server.Get_obtain [OF assms(1,2), of p WithFromKey batch False] by auto
    ultimately show ?thesis using True assms(6) from_eq by (simp add: frames_def)
  next
    case False
    then have cnt: "length (sorted_kvs (store s) (prefix p)) \<noteq> 0" using from_eq by simp
    have "length ?from < fuel" using length_sorted_kvs_le [OF fin] assms(5) le_less_trans by metis
    moreover have "\<forall>kv \<in> set ?from. prefix p (fst kv)"
      using all set_sorted_kvs [OF fin, of "\<lambda>k. p \<le> k"] by auto
    ultimately show ?thesis
      using etcd_server.backup_loop_done [OF assms(1-3) cnt, of b p fuel batch] assms(6) from_eq by simp
  qed
qed

lemma backup_counted_none:
  assumes "etcd_server C store" and "answers C s" and "marshal = (\<lambda>k v. Inr (enc k v))"
    and "q \<in> dom (store s)" and "p \<le> q" and "0 < fuel" and "bk_currentKey b = p"
  shows "BackupKV_loop C marshal 0 p batch fuel s b = Some (Inl (Panic ''integer divide by zero''))"
proof -
  let ?from = "sorted_kvs (store s) (\<lambda>k. p \<le> k)"
  obtain f where "fuel = Suc f" using assms(6) by (cases fuel) auto
  moreover obtain r2 where "et_Get C p WithFromKey batch False s = Inr r2" "Count r2 = length ?from"
    using etcd_server.Get_obtain [OF assms(1,2), of p WithFromKey batch False] by auto
  moreover have "?from \<noteq> []"
    using assms(4,5) set_sorted_kvs [OF etcd_server.finite_store [OF assms(1)], of s "\<lambda>k. p \<le> k"] by fastforce
  moreover obtain b' n where "res_fold (backup_entry marshal p) (Kvs r2) (b, 0) = Inr (b', n)"
    using backup_entries_key [OF assms(3)] by blast
  ultimately show ?thesis using assms(7) by simp
qed

text \<open>The part header and the loop that \<open>BackupKV\<close> runs after it.\<close>

lemma backup_run:
  assumes "etcd_server C store" and "answers C s"
    and "encode_header = (\<lambda>cnt rev inst meta. Inr (hdr cnt rev inst meta))" and "p = joinPath [base, pre]"
    and "backup_paths base = (inst, meta)" and "cnt = length (sorted_kvs (store s) (prefix p))"
  shows "\<exists>rev. \<forall>n. etcdKV_BackupKV C encode_header marshal n base pre batch s =
    map_option (\<lambda>r. res_bind r (\<lambda>w. Inr (w @ frame []))) (BackupKV_loop C marshal cnt p batch n s
      \<lparr>bk_currentKey = p, bk_i = 0, bk_w = frame (hdr cnt rev inst meta)\<rparr>)"
proof -
  obtain resp where resp: "et_Get C p WithPrefix 0 True s = Inr resp" "Count resp = cnt"
    using etcd_server.Get_obtain [OF assms(1,2), of p WithPrefix 0 True] assms(6) by auto
  then show ?thesis
    unfolding etcdKV_BackupKV_def assms(4) [symmetric] Let_def
    by (intro exI [of _ "Revision resp"] allI)
      (simp add: assms(3,5) writeBackupBytes_frame split: option.split sum.split)
qed

text \<open>
  Property C21. A backup of etcd below a prefix is complete when no key of the store sorts after that
  prefix's keys: it ends, with the part header, one length-prefixed block per entry in the order of the
  keys, and the empty stop block, for every batch size. When some other key does sort after them, the
  loop never ends, because it stops only once nothing at all follows the current key; and if the prefix
  has no entry itself, the progress display divides by zero.
\<close>

theorem etcdKV_backup:
  assumes "etcd_server C store" and "answers C s"
    and "marshal = (\<lambda>k v. Inr (enc k v))" and "encode_header = (\<lambda>cnt rev inst meta. Inr (hdr cnt rev inst meta))"
    and "p = joinPath [base, pre]" and "card (dom (store s)) < fuel"
  shows "if \<forall>q \<in> dom (store s). p \<le> q \<longrightarrow> prefix p q
    then \<exists>h. etcdKV_BackupKV C encode_header marshal fuel base pre batch s =
      Some (Inr (frame h @ frames enc (sorted_kvs (store s) (prefix p)) @ frame []))
    else if sorted_kvs (store s) (prefix p) = []
    then etcdKV_BackupKV C encode_header marshal fuel base pre batch s =
      Some (Inl (Panic ''integer divide by zero''))
    else etcdKV_BackupKV C encode_header marshal fuel' base pre batch s = None"
proof -
  let ?cnt = "length (sorted_kvs (store s) (prefix p))"
  obtain inst meta where bp: "backup_paths base = (inst, meta)" by force
  obtain rev where run: "etcdKV_BackupKV C encode_header marshal n base pre batch s =
      map_option (\<lambda>r. res_bind r (\<lambda>w. Inr (w @ frame []))) (BackupKV_loop C marshal ?cnt p batch n s
        \<lparr>bk_currentKey = p, bk_i = 0, bk_w = frame (hdr ?cnt rev inst meta)\<rparr>)" for n
    using backup_run [OF assms(1,2,4,5) bp refl] by blast
  let ?b = "\<lparr>bk_currentKey = p, bk_i = 0, bk_w = frame (hdr ?cnt rev inst meta)\<rparr>"
  show ?thesis
  proof (cases "\<forall>q \<in> dom (store s). p \<le> q \<longrightarrow> prefix p q")
    case True
    with backup_copies_all [OF assms(1-3) True assms(6), of ?b batch] run [of fuel] show ?thesis by auto
  next
    case False
    then obtain q where q: "q \<in> dom (store s)" "p \<le> q" "\<not> prefix p q" by blast
    show ?thesis
    proof (cases "?cnt = 0")
      case True
      with backup_counted_none [OF assms(1-3) q(1,2), of fuel ?b batch] assms(6) run [of fuel] False
      show ?thesis by auto
    next
      case cnt: False
      from etcd_server.backup_loop_stuck [OF assms(1-3) cnt q, of ?b batch fuel'] q(2) False cnt run
      show ?thesis by auto
    qed
  qed
qed

theorem etcdKV_backup_witness:
  "etcdKV_BackupKV ref_client (\<lambda>cnt rev inst meta. Inr []) (\<lambda>k v. Inr (bytes_of_string (k @ v))) 5 ''a'' ''x'' 10
     [(''a/x'', ''1''), (''b'', ''2'')] = None"
proof -
  let ?s = "[(''a/x'', ''1''), (''b'', ''2'')]"
  have p: "joinPath [''a'', ''x''] = ''a/x''" by (simp add: joinPath_def path_Join_def path_Clean_def HasSuffix_def)
  have "(''a/x'', ''1'') \<in> set (sorted_kvs (map_of ?s) (prefix ''a/x''))"
    by (simp add: set_sorted_kvs finite_dom_map_of)
  then have ne: "sorted_kvs (map_of ?s) (prefix ''a/x'') \<noteq> []" by auto
  have q: "\<not> (\<forall>q \<in> dom (map_of ?s). ''a/x'' \<le> q \<longrightarrow> prefix ''a/x'' q)"
    by (intro notI, drule bspec [of _ _ "''b''"]) (simp_all add: prefix_def less_char_def)
  have "card (dom (map_of ?s)) < 3"
    using card_length [of "map fst ?s"] by (simp add: dom_map_of_conv_image_fst)
  with etcdKV_backup [where C = ref_client and store = map_of and s = ?s and base = "''a''" and pre = "''x''"
      and marshal = "\<lambda>k v. Inr (bytes_of_string (k @ v))" and enc = "\<lambda>k v. bytes_of_string (k @ v)"
      and encode_header = "\<lambda>cnt rev inst meta. Inr []" and hdr = "\<lambda>cnt rev inst meta. []"
      and p = "''a/x''" and fuel = 3 and fuel' = 5 and batch = 10, OF ref.etcd_server_axioms ref_answers]
  show ?thesis using ne q p by (simp only: if_False)
qed

section \<open>Root paths\<close>

text \<open>The walk of \<open>GetAllRootPath\<close> over the sorted keys.\<close>

abbreviation first_part :: "string \<Rightarrow> string" where
  "first_part k \<equiv> hd (split_on slash k)"

function roots :: "string list \<Rightarrow> string list" where
  "roots [] = []"
| "roots (k # ks) =
     (if first_part k \<noteq> [] then [first_part k] else []) @
     roots (filter (\<lambda>k'. first_part k @ ''0'' \<le> k') ks)"
  by pat_completeness auto
termination
  by (relation "measure length") (auto simp: le_imp_less_Suc)

lemma first_part_before: "k < first_part k @ ''0''"
proof (induction k)
  case (Cons c k)
  then show ?case by (cases "split_on slash k") (auto simp: less_char_def)
qed simp

lemma loop_roots:
  assumes "etcd_server C store" and "answers C s"
    and "length (filter (\<lambda>k. cur \<le> k) (sorted_keys (store s))) < fuel"
  shows "GetAllRootPath_loop C fuel s (apps, cur) =
    Some (Inr (apps @ roots (filter (\<lambda>k. cur \<le> k) (sorted_keys (store s)))))"
  using assms(3)
proof (induction fuel arbitrary: apps cur)
  case 0
  then show ?case by simp
next
  case (Suc fuel)
  let ?ks = "filter (\<lambda>k. cur \<le> k) (sorted_keys (store s))"
  obtain resp where "et_Get C cur WithFromKey 1 True s = Inr resp"
    and r: "Kvs resp = map (\<lambda>(k, v). (k, if True then [] else v))
        (limited 1 (sorted_kvs (store s) (in_range cur WithFromKey)))"
      "More resp = (0 < (1 :: nat) \<and> 1 < length (sorted_kvs (store s) (in_range cur WithFromKey)))"
    using etcd_server.Get_obtain [OF assms(1,2)] by blast
  moreover from r have "map fst (Kvs resp) = take 1 ?ks" "More resp = (1 < length ?ks)"
    by (simp_all add: limited_def sorted_kvs_def take_map comp_def)
  ultimately have resp: "et_Get C cur WithFromKey 1 True s = Inr resp"
    "map fst (Kvs resp) = take 1 ?ks" "More resp = (1 < length ?ks)" by blast+
  show ?case
  proof (cases ?ks)
    case Nil
    with resp show ?thesis by (simp add: root_step_def)
  next
    case (Cons k ks)
    then obtain v where kvs: "Kvs resp = [(k, v)]" using resp(2) by (cases "Kvs resp") auto
    let ?p = "first_part k"
    let ?cur = "?p @ ''0''" and ?apps = "apps @ (if ?p \<noteq> [] then [?p] else [])"
    have step: "root_step (Kvs resp) (apps, cur) = (?apps, ?cur)"
      by (simp add: kvs root_step_def Let_def)
    have "k \<in> set ?ks" using Cons by simp
    then have "cur \<le> ?cur" using first_part_before [of k] by auto
    then have "filter (\<lambda>k. ?cur \<le> k) (sorted_keys (store s)) = filter (\<lambda>k. ?cur \<le> k) ?ks"
      by (rule filter_from_later)
    also have "\<dots> = filter (\<lambda>k. ?cur \<le> k) ks" using Cons first_part_before [of k] by (simp add: not_le)
    finally have ks: "filter (\<lambda>k. ?cur \<le> k) (sorted_keys (store s)) = filter (\<lambda>k. ?cur \<le> k) ks" .
    show ?thesis
    proof (cases "ks = []")
      case True
      with Cons resp step show ?thesis by simp
    next
      case False
      have "length (filter (\<lambda>k. ?cur \<le> k) ks) < fuel"
        using Suc.prems Cons by (auto intro: le_less_trans [OF length_filter_le])
      from Suc.IH [of ?cur ?apps, unfolded ks, OF this] False Cons resp step show ?thesis by simp
    qed
  qed
qed

lemma first_part_split: "slash \<in> set k \<Longrightarrow> \<exists>x. k = first_part k @ slash # x"
proof (induction k)
  case (Cons c k)
  then show ?case by (cases "split_on slash k") auto
qed simp

lemma first_part_append: "slash \<notin> set p \<Longrightarrow> first_part (p @ slash # x) = p"
  by (simp add: split_append_delim)

lemma slash_digit: "slash \<le> c \<Longrightarrow> c < CHR ''0'' \<Longrightarrow> c = slash"
  by (auto simp: less_char_def less_eq_char_def of_char_eq_iff [symmetric, where ?'a = nat])

lemma between_slash_and_digit:
  "p @ slash # x \<le> k \<Longrightarrow> k < p @ ''0'' \<Longrightarrow> prefix (p @ [slash]) k"
proof (induction p arbitrary: k)
  case Nil
  then show ?case by (cases k) (auto dest: slash_digit [OF less_imp_le])
next
  case (Cons c p)
  then show ?case by (cases k) auto
qed

lemma roots_sound: "set (roots ks) \<subseteq> first_part ` set ks - {[]}"
proof (induction ks rule: roots.induct)
  case (2 k ks)
  then show ?case by auto
qed simp

lemma roots_distinct: "distinct (roots ks)"
proof (induction ks rule: roots.induct)
  case (2 k ks)
  have "first_part k \<notin> set (roots (filter (\<lambda>k'. first_part k @ ''0'' \<le> k') ks))"
  proof
    assume "first_part k \<in> set (roots (filter (\<lambda>k'. first_part k @ ''0'' \<le> k') ks))"
    then obtain k' where "first_part k = first_part k'" "first_part k @ ''0'' \<le> k'"
      using roots_sound by fastforce
    with first_part_before [of k'] show False by simp
  qed
  with 2 show ?case by simp
qed simp

lemma roots_complete:
  "sorted ks \<Longrightarrow> \<forall>k \<in> set ks. slash \<in> set k \<Longrightarrow> k' \<in> set ks \<Longrightarrow> first_part k' \<noteq> [] \<Longrightarrow> first_part k' \<in> set (roots ks)"
proof (induction ks rule: roots.induct)
  case (2 k ks)
  obtain x where x: "k = first_part k @ slash # x" using first_part_split [of k] 2 by fastforce
  have "k \<le> k'" using 2 by auto
  show ?case
  proof (cases "k' < first_part k @ ''0''")
    case True
    with x \<open>k \<le> k'\<close> have "prefix (first_part k @ [slash]) k'"
      using between_slash_and_digit [of "first_part k" x k'] by argo
    moreover have "slash \<notin> set (first_part k)" using split_no_delim by (metis hd_in_set split_on_not_Nil)
    ultimately have "first_part k' = first_part k" by (auto simp: prefix_def split_append_delim)
    with 2 show ?thesis by simp
  next
    case False
    with first_part_before [of k] have "k' \<in> set (filter (\<lambda>k'. first_part k @ ''0'' \<le> k') ks)"
      using 2 by auto
    with 2 show ?thesis by (auto simp: sorted_wrt_filter)
  qed
qed simp

text \<open>
  \<open>GetAllRootPath\<close> ends after at most one request per stored key, plus one. It lists,
  without repetition, first path elements of stored keys and never the empty one; when every key has
  a \<^verbatim>\<open>/\<close>, it lists all of them. (A key without a \<^verbatim>\<open>/\<close>, say \<^verbatim>\<open>a\<close>, makes the walk skip \<^verbatim>\<open>a-b/x\<close>, which sorts
  between \<^verbatim>\<open>a\<close> and \<^verbatim>\<open>a0\<close>.)
\<close>

theorem etcdKV_root_paths:
  assumes "etcd_server C store" and "answers C s" and "card (dom (store s)) < fuel"
  shows "\<exists>apps. etcdKV_GetAllRootPath C fuel s = Some (Inr apps) \<and> distinct apps \<and>
    set apps \<subseteq> first_part ` dom (store s) - {[]} \<and>
    ((\<forall>k \<in> dom (store s). slash \<in> set k) \<longrightarrow> set apps = first_part ` dom (store s) - {[]})"
proof -
  let ?ks = "sorted_keys (store s)"
  have fin: "finite (dom (store s))" using assms(1) by (rule etcd_server.finite_store)
  note props = sorted_keys_props [OF fin]
  have all: "filter (\<lambda>k. [] \<le> k) ?ks = ?ks" by simp
  have "length ?ks < fuel" using assms(3) props distinct_card [of ?ks] by simp
  then have run: "etcdKV_GetAllRootPath C fuel s = Some (Inr (roots ?ks))"
    using loop_roots [OF assms(1,2), of "[]" fuel "[]", unfolded all] by (simp add: etcdKV_GetAllRootPath_def)
  have sorted: "sorted ?ks" using props(2) by (simp add: strict_sorted_iff)
  have "set (roots ?ks) = first_part ` dom (store s) - {[]}" if "\<forall>k \<in> dom (store s). slash \<in> set k"
    using roots_sound [of ?ks] roots_complete [OF sorted] that props(1) by auto
  with run roots_distinct [of ?ks] roots_sound [of ?ks] props(1) show ?thesis by simp
qed

theorem etcdKV_root_paths_witness:
  "\<exists>apps. etcdKV_GetAllRootPath ref_client 3 [(''a/x'', ''1''), (''b/y'', ''2'')] = Some (Inr apps) \<and>
     distinct apps \<and> set apps = {''a'', ''b''}"
proof -
  let ?s = "[(''a/x'', ''1''), (''b/y'', ''2'')]"
  have "card (dom (map_of ?s)) < 3"
    using card_length [of "map fst ?s"] by (simp add: dom_map_of_conv_image_fst)
  with etcdKV_root_paths [where C = ref_client and store = map_of and s = ?s and fuel = 3,
      OF ref.etcd_server_axioms ref_answers]
  show ?thesis by (auto simp: dom_map_of_conv_image_fst insert_commute)
qed

end
