(* ===== verification/Kv_Tikv.thy ===== *)
theory Kv_Tikv
  imports Kv_Etcd
begin

text \<open>
  The metadata store on TiKV (\<^verbatim>\<open>states/kv/kv.go\<close>, type \<open>txnTiKV\<close>). The client library is the record
  \<open>tikv_client\<close> over the types of stores, iterators and transactions; the locale \<open>tikv_server\<close> states what
  the library documents about them, the operations are verified inside it, and the interpretation
  \<open>tref\<close> shows that the laws can be kept.
\<close>

section \<open>The client\<close>

record ('s, 'i, 'x) tikv_client =
  ss_Get :: "string \<Rightarrow> 's \<Rightarrow> string result"
  ss_Iter :: "string \<Rightarrow> string \<Rightarrow> 's \<Rightarrow> 'i result"
  it_Valid :: "'i \<Rightarrow> bool"
  it_Key :: "'i \<Rightarrow> string"
  it_Value :: "'i \<Rightarrow> string"
  it_Next :: "'i \<Rightarrow> 'i result"
  tk_Begin :: "'s \<Rightarrow> 'x result"
  tx_Set :: "string \<Rightarrow> string \<Rightarrow> 'x \<Rightarrow> 'x result"
  tx_Delete :: "string \<Rightarrow> 'x \<Rightarrow> 'x result"
  tx_Commit :: "'x \<Rightarrow> ('s, unit) go"
  tk_DeleteRange :: "string \<Rightarrow> string \<Rightarrow> ('s, unit) go"
  PrefixNextKey :: "string \<Rightarrow> string"

text \<open>\<open>errors.Wrap\<close>: a new message in front of the cause, which no modelled caller looks at.\<close>

definition errors_Wrap :: "go_error \<Rightarrow> string \<Rightarrow> go_error" where
  "errors_Wrap e msg = (case e of Panic m \<Rightarrow> Panic m | _ \<Rightarrow> Failure msg)"

definition wrapped :: "'a result \<Rightarrow> string \<Rightarrow> 'a result" where
  "wrapped r msg = (case r of Inl e \<Rightarrow> Inl (errors_Wrap e msg) | Inr a \<Rightarrow> Inr a)"

lemma wrapped_Inr [simp]: "wrapped r msg = Inr a \<longleftrightarrow> r = Inr a"
  by (cases r) (auto simp: wrapped_def)

lemma wrapped_ok [simp]: "wrapped (Inr a) msg = Inr a"
  by simp

section \<open>Empty values\<close>

definition EmptyValueString :: string where
  "EmptyValueString = ''__milvus_reserved_empty_tikv_value_DO_NOT_USE''"

definition isEmptyByte :: "string \<Rightarrow> bool" where
  "isEmptyByte value \<longleftrightarrow> value = EmptyValueString \<or> length value = 0"

definition convertEmptyByteToString :: "string \<Rightarrow> string" where
  "convertEmptyByteToString value = (if isEmptyByte value then [] else value)"

definition convertEmptyStringToByte :: "string \<Rightarrow> string result" where
  "convertEmptyStringToByte value =
     (if length value = 0 then Inr EmptyValueString
      else if value = EmptyValueString then Inl (Failure ''value for key is reserved by EmptyValue'')
      else Inr value)"

lemma convertEmpty_roundtrip:
  "convertEmptyStringToByte v = Inr b \<Longrightarrow> convertEmptyByteToString b = v \<and> b \<noteq> []"
  by (auto simp: convertEmptyStringToByte_def convertEmptyByteToString_def isEmptyByte_def
      EmptyValueString_def split: if_splits)

section \<open>txnTiKV\<close>

text \<open>Load options are ignored. Loops over an iterator take fuel, a bound on the entries they visit.\<close>

definition txnTiKV_Load :: "('s, 'i, 'x) tikv_client \<Rightarrow> string \<Rightarrow> ('s, string) go" where
  "txnTiKV_Load T key s =
     (res_bind (wrapped (ss_Get T (joinPath [rootPath, key]) s) ''Failed to load value for key'')
        (\<lambda>val. Inr (convertEmptyByteToString val)), s)"

fun tikv_load_loop :: "('s, 'i, 'x) tikv_client \<Rightarrow> nat \<Rightarrow> 'i \<Rightarrow> string list \<times> string list \<Rightarrow>
    (string list \<times> string list) result option" where
  "tikv_load_loop T 0 it acc = None"
| "tikv_load_loop T (Suc fuel) it acc =
     (if \<not> it_Valid T it then Some (Inr acc)
      else let acc' = (fst acc @ [it_Key T it], snd acc @ [convertEmptyByteToString (it_Value T it)])
           in case wrapped (it_Next T it) ''Failed to iterate for LoadWithPrefix()'' of
                Inl e \<Rightarrow> Some (Inl e)
              | Inr it' \<Rightarrow> tikv_load_loop T fuel it' acc')"

definition txnTiKV_LoadWithPrefix :: "('s, 'i, 'x) tikv_client \<Rightarrow> nat \<Rightarrow> string \<Rightarrow> 's \<Rightarrow>
    (string list \<times> string list) result option" where
  "txnTiKV_LoadWithPrefix T fuel pre s =
     (let p = joinPath [rootPath, pre] in
      case wrapped (ss_Iter T p (PrefixNextKey T p) s) ''Failed to create iterater for LoadWithPrefix()'' of
        Inl e \<Rightarrow> Some (Inl e)
      | Inr it \<Rightarrow> tikv_load_loop T fuel it ([], []))"

definition txnTiKV_Save :: "('s, 'i, 'x) tikv_client \<Rightarrow> string \<Rightarrow> string \<Rightarrow> ('s, unit) go" where
  "txnTiKV_Save T key value s =
     (let k = joinPath [rootPath, key] in
      case res_bind (wrapped (tk_Begin T s) ''Failed to build transaction for putTiKVMeta'') (\<lambda>txn.
           res_bind (wrapped (convertEmptyStringToByte value) ''Failed to cast to byte for putTiKVMeta'') (\<lambda>bv.
           wrapped (tx_Set T k bv txn) ''Failed to set value for key in putTiKVMeta'')) of
        Inl e \<Rightarrow> (Inl e, s)
      | Inr txn \<Rightarrow> tx_Commit T txn s)"

definition txnTiKV_MultiSave :: "string list \<Rightarrow> string list \<Rightarrow> ('s, unit) go" where
  "txnTiKV_MultiSave ks vs = go_fail (Failure ''not implemented'')"

definition txnTiKV_Remove :: "('s, 'i, 'x) tikv_client \<Rightarrow> string \<Rightarrow> ('s, unit) go" where
  "txnTiKV_Remove T key s =
     (let k = joinPath [rootPath, key] in
      case res_bind (wrapped (tk_Begin T s) ''Failed to build transaction for removeTiKVMeta'') (\<lambda>txn.
           wrapped (tx_Delete T k txn) ''Failed to remove key in removeTiKVMeta'') of
        Inl e \<Rightarrow> (Inl e, s)
      | Inr txn \<Rightarrow> tx_Commit T txn s)"

definition txnTiKV_RemoveWithPrefix :: "('s, 'i, 'x) tikv_client \<Rightarrow> string \<Rightarrow> ('s, unit) go" where
  "txnTiKV_RemoveWithPrefix T pre =
     (let p = joinPath [rootPath, pre] in tk_DeleteRange T p (PrefixNextKey T p))"

definition txnTiKV_removeWithPrevKV :: "('s, 'i, 'x) tikv_client \<Rightarrow> string \<Rightarrow>
    ('s, (string \<times> string) option) go" where
  "txnTiKV_removeWithPrevKV T key s =
     (case txnTiKV_Load T key s of
        (Inl _, s1) \<Rightarrow> (Inr None, s1)
      | (Inr preV, s1) \<Rightarrow>
          go_bind (txnTiKV_Remove T key) (\<lambda>_. go_return (Some (key, preV))) s1)"

definition txnTiKV_removeWithPrefixAndPrevKV :: "('s, 'i, 'x) tikv_client \<Rightarrow> nat \<Rightarrow> string \<Rightarrow> 's \<Rightarrow>
    ((string \<times> string) list result \<times> 's) option" where
  "txnTiKV_removeWithPrefixAndPrevKV T fuel pre s =
     (case txnTiKV_LoadWithPrefix T fuel pre s of
        None \<Rightarrow> None
      | Some (Inl e) \<Rightarrow> Some (Inl e, s)
      | Some (Inr (ks, vals)) \<Rightarrow>
          Some (go_bind (txnTiKV_RemoveWithPrefix T pre) (\<lambda>_. go_return (zip ks vals)) s))"

text \<open>Only keys between a space and a tilde are walked, and a key that starts with \<^verbatim>\<open>/\<close> ends the walk.\<close>

fun tikv_root_loop :: "('s, 'i, 'x) tikv_client \<Rightarrow> nat \<Rightarrow> 's \<Rightarrow> string \<Rightarrow> string list \<Rightarrow> string list result option"
  where
  "tikv_root_loop T 0 s startKey apps = None"
| "tikv_root_loop T (Suc fuel) s startKey apps =
     (case ss_Iter T startKey ''~'' s of
        Inl e \<Rightarrow> Some (Inl e)
      | Inr it \<Rightarrow>
          if it_Valid T it then
            (let p = hd (split_on slash (it_Key T it))
             in if p \<noteq> [] then tikv_root_loop T fuel s (p @ ''0'') (apps @ [p]) else Some (Inr apps))
          else Some (Inr apps))"

definition txnTiKV_GetAllRootPath :: "('s, 'i, 'x) tikv_client \<Rightarrow> nat \<Rightarrow> 's \<Rightarrow> string list result option" where
  "txnTiKV_GetAllRootPath T fuel s = tikv_root_loop T fuel s '' '' []"

fun tikv_count_loop :: "('s, 'i, 'x) tikv_client \<Rightarrow> nat \<Rightarrow> 'i \<Rightarrow> nat \<Rightarrow> nat result option" where
  "tikv_count_loop T 0 it cnt = None"
| "tikv_count_loop T (Suc fuel) it cnt =
     (if \<not> it_Valid T it then Some (Inr cnt)
      else case wrapped (it_Next T it) ''Failed to iterate for BackupKV() count'' of
             Inl e \<Rightarrow> Some (Inl e)
           | Inr it' \<Rightarrow> tikv_count_loop T fuel it' (cnt + 1))"

text \<open>A key outside \<open>base\<close> is skipped by \<open>continue\<close>, which does not advance the iterator.\<close>

fun tikv_backup_loop :: "('s, 'i, 'x) tikv_client \<Rightarrow> (string \<Rightarrow> string \<Rightarrow> bytes result) \<Rightarrow> nat \<Rightarrow> nat \<Rightarrow> string \<Rightarrow>
    nat \<Rightarrow> 'i \<Rightarrow> nat \<Rightarrow> bytes \<Rightarrow> (nat \<times> bytes) result option" where
  "tikv_backup_loop T marshal batchSize cnt base 0 it i w = None"
| "tikv_backup_loop T marshal batchSize cnt base (Suc fuel) it i w =
     (if \<not> it_Valid T it then Some (Inr (i, w))
      else if \<not> HasPrefix (it_Key T it) base then tikv_backup_loop T marshal batchSize cnt base fuel it i w
      else case marshal (it_Key T it) (it_Value T it) of
          Inl e \<Rightarrow> Some (Inl e)
        | Inr bs \<Rightarrow>
            (case wrapped (it_Next T it) ''Failed to iterate for BackupKV()'' of
               Inl e \<Rightarrow> Some (Inl e)
             | Inr it' \<Rightarrow>
                 if cnt = 0 \<or> batchSize = 0 then Some (Inl (Panic ''integer divide by zero''))
                 else tikv_backup_loop T marshal batchSize cnt base fuel it' (i + 1) (writeBackupBytes w bs)))"

definition txnTiKV_BackupKV :: "('s, 'i, 'x) tikv_client \<Rightarrow> (nat \<Rightarrow> nat \<Rightarrow> string \<Rightarrow> string \<Rightarrow> bytes result) \<Rightarrow>
    (string \<Rightarrow> string \<Rightarrow> bytes result) \<Rightarrow> nat \<Rightarrow> string \<Rightarrow> string \<Rightarrow> nat \<Rightarrow> 's \<Rightarrow> (bytes result \<times> 's) option" where
  "txnTiKV_BackupKV T encode_header marshal fuel base pre batchSize s =
     (let p = joinPath [base, pre]; e = PrefixNextKey T p in
      case wrapped (tk_Begin T s) ''Failed to build transaction for removeTiKVMeta'' of
        Inl er \<Rightarrow> Some (Inl er, s)
      | Inr txn \<Rightarrow>
       (case ss_Iter T p e s of
          Inl er \<Rightarrow> Some (Inl er, s)
        | Inr it \<Rightarrow>
         (case tikv_count_loop T fuel it 0 of
            None \<Rightarrow> None
          | Some (Inl er) \<Rightarrow> Some (Inl er, s)
          | Some (Inr cnt) \<Rightarrow>
             (case backup_paths base of (inst, metaPath) \<Rightarrow>
               (case res_bind (encode_header cnt 0 inst metaPath) (\<lambda>hdr.
                       res_bind (ss_Iter T p e s) (\<lambda>it2. Inr (it2, writeBackupBytes [] hdr))) of
                  Inl er \<Rightarrow> Some (Inl er, s)
                | Inr (it2, w) \<Rightarrow>
                   (case tikv_backup_loop T marshal batchSize cnt base fuel it2 0 w of
                      None \<Rightarrow> None
                    | Some (Inl er) \<Rightarrow> Some (Inl er, s)
                    | Some (Inr (i, w')) \<Rightarrow>
                        if cnt = 0 then Some (Inl (Panic ''integer divide by zero''), s)
                        else Some (go_bind (tx_Commit T txn)
                               (\<lambda>_. go_return (writeBackupBytes w' [])) s)))))))"

fun tikv_walk_loop :: "('s, 'i, 'x) tikv_client \<Rightarrow> nat \<Rightarrow> (string \<Rightarrow> string \<Rightarrow> ('t, unit) go) \<Rightarrow> 'i \<Rightarrow> 't \<Rightarrow>
    (unit result \<times> 't) option" where
  "tikv_walk_loop T 0 fn it t = None"
| "tikv_walk_loop T (Suc fuel) fn it t =
     (if \<not> it_Valid T it then Some (Inr (), t)
      else let byteVal = (if isEmptyByte (it_Value T it) then [] else it_Value T it)
           in case fn (it_Key T it) byteVal t of
                (Inl e, t') \<Rightarrow> Some (Inl (errors_Wrap e ''Failed to apply fn''), t')
              | (Inr _, t') \<Rightarrow>
                  (case wrapped (it_Next T it) ''Failed to move Iterator'' of
                     Inl e \<Rightarrow> Some (Inl e, t')
                   | Inr it' \<Rightarrow> tikv_walk_loop T fuel fn it' t'))"

definition txnTiKV_WalkWithPrefix :: "('s, 'i, 'x) tikv_client \<Rightarrow> nat \<Rightarrow> string \<Rightarrow>
    (string \<Rightarrow> string \<Rightarrow> ('t, unit) go) \<Rightarrow> 's \<Rightarrow> 't \<Rightarrow> (unit result \<times> 't) option" where
  "txnTiKV_WalkWithPrefix T fuel pre fn s t =
     (let p = path_Join [rootPath, pre] in
      case wrapped (ss_Iter T p (PrefixNextKey T p) s) ''Failed to create iterater during WalkWithPrefix'' of
        Inl e \<Rightarrow> Some (Inl e, t)
      | Inr it \<Rightarrow> tikv_walk_loop T fuel fn it t)"

section \<open>What the library promises\<close>

text \<open>The writes of a transaction, the latest first, and their effect on a store.\<close>

definition apply_pending :: "(string \<times> string option) list \<Rightarrow> (string \<Rightarrow> string option) \<Rightarrow> string \<Rightarrow> string option"
  where
  "apply_pending ps m = foldr (\<lambda>(k, v) m. m(k := v)) ps m"

text \<open>An empty end key is no bound.\<close>

definition between :: "string \<Rightarrow> string \<Rightarrow> string \<Rightarrow> bool" where
  "between a b k \<longleftrightarrow> a \<le> k \<and> (b = [] \<or> k < b)"

text \<open>\<open>PrefixNextKey\<close> increments the last byte, so its result bounds the prefix exactly unless that byte is
  \<^verbatim>\<open>0xFF\<close>, which no valid UTF-8 path ends in.\<close>

definition ends_plain :: "string \<Rightarrow> bool" where
  "ends_plain p \<longleftrightarrow> p = [] \<or> last p \<noteq> CHR 0xFF"

locale tikv_server =
  fixes T :: "('s, 'i, 'x) tikv_client"
    and raw :: "'s \<Rightarrow> string \<Rightarrow> string option"
    and remaining :: "'i \<Rightarrow> (string \<times> string) list"
    and pending :: "'x \<Rightarrow> (string \<times> string option) list"
  assumes finite_raw: "finite (dom (raw s))"
    and Get_ok: "ss_Get T k s = Inr v \<Longrightarrow> raw s k = Some v"
    and Iter_ok: "ss_Iter T a b s = Inr it \<Longrightarrow> remaining it = sorted_kvs (raw s) (between a b)"
    and Valid: "it_Valid T it \<longleftrightarrow> remaining it \<noteq> []"
    and entry: "remaining it = (k, v) # r \<Longrightarrow> it_Key T it = k \<and> it_Value T it = v"
    and Next_ok: "remaining it = kv # r \<Longrightarrow> it_Next T it = Inr it' \<Longrightarrow> remaining it' = r"
    and Begin_ok: "tk_Begin T s = Inr x \<Longrightarrow> pending x = []"
    and Set_ok: "tx_Set T k v x = Inr x' \<Longrightarrow> pending x' = (k, Some v) # pending x"
    and Del_ok: "tx_Delete T k x = Inr x' \<Longrightarrow> pending x' = (k, None) # pending x"
    and Commit_ok: "tx_Commit T x s = (Inr (), s') \<Longrightarrow> raw s' = apply_pending (pending x) (raw s)"
    and Commit_err: "tx_Commit T x s = (Inl e, s') \<Longrightarrow> raw s' = raw s \<or> raw s' = apply_pending (pending x) (raw s)"
    and DeleteRange_ok: "tk_DeleteRange T a b s = (Inr (), s') \<Longrightarrow> raw s' = raw s |` {k. \<not> between a b k}"
    and PrefixNext: "ends_plain p \<Longrightarrow> between p (PrefixNextKey T p) k \<longleftrightarrow> prefix p k"

text \<open>A store that answers every read.\<close>

definition tikv_answers :: "('s, 'i, 'x) tikv_client \<Rightarrow> ('s \<Rightarrow> string \<Rightarrow> string option) \<Rightarrow> 's \<Rightarrow> bool" where
  "tikv_answers T raw s \<longleftrightarrow>
     (\<forall>k. raw s k \<noteq> None \<longrightarrow> (\<exists>v. ss_Get T k s = Inr v)) \<and>
     (\<forall>a b. \<exists>it. ss_Iter T a b s = Inr it) \<and>
     (\<forall>it. it_Valid T it \<longrightarrow> (\<exists>it'. it_Next T it = Inr it'))"

text \<open>What a caller sees of the raw table: the placeholder reads as the empty string.\<close>

definition tikv_view :: "('s \<Rightarrow> string \<Rightarrow> string option) \<Rightarrow> 's \<Rightarrow> string \<Rightarrow> string option" where
  "tikv_view raw s k = map_option convertEmptyByteToString (raw s k)"

lemma dom_tikv_view [simp]: "dom (tikv_view raw s) = dom (raw s)"
  by (auto simp: tikv_view_def dom_def)

lemma sorted_kvs_view:
  assumes "finite (dom (raw s))"
  shows "sorted_kvs (tikv_view raw s) P = map (\<lambda>(k, v). (k, convertEmptyByteToString v)) (sorted_kvs (raw s) P)"
  using sorted_keys_props(1) [OF assms] by (auto simp: sorted_kvs_def sorted_keys_def tikv_view_def)

section \<open>A table that keeps its promises\<close>

definition next_key :: "string \<Rightarrow> string" where
  "next_key p = (if p = [] then [] else butlast p @ [char_of (of_char (last p) + 1 :: nat)])"

definition tref_client ::
  "((string \<times> string) list, (string \<times> string) list, (string \<times> string option) list) tikv_client" where
  "tref_client = \<lparr>
     ss_Get = (\<lambda>k s. case map_of s k of None \<Rightarrow> Inl KeyNotFound | Some v \<Rightarrow> Inr v),
     ss_Iter = (\<lambda>a b s. Inr (sorted_kvs (map_of s) (between a b))),
     it_Valid = (\<lambda>it. it \<noteq> []),
     it_Key = (\<lambda>it. fst (hd it)),
     it_Value = (\<lambda>it. snd (hd it)),
     it_Next = (\<lambda>it. Inr (tl it)),
     tk_Begin = (\<lambda>s. Inr []),
     tx_Set = (\<lambda>k v x. Inr ((k, Some v) # x)),
     tx_Delete = (\<lambda>k x. Inr ((k, None) # x)),
     tx_Commit = (\<lambda>x s. (Inr (), foldr (\<lambda>(k, v) s. case v of None \<Rightarrow> AList.delete k s
       | Some v \<Rightarrow> AList.update k v s) x s)),
     tk_DeleteRange = (\<lambda>a b s. (Inr (), filter (\<lambda>(k, v). \<not> between a b k) s)),
     PrefixNextKey = next_key\<rparr>"

lemma char_succ:
  assumes "c \<noteq> CHR 0xFF"
  shows "(d :: char) < char_of (of_char c + 1 :: nat) \<longleftrightarrow> d \<le> c"
proof -
  have "of_char c \<noteq> (of_char (CHR 0xFF) :: nat)" using assms by (simp only: of_char_eq_iff not_False_eq_True)
  then have "of_char c \<noteq> (255 :: nat)" by simp
  then have "of_char c + 1 < (256 :: nat)" using nat_of_char_less_256 [of c] by linarith
  then have "of_char (char_of (of_char c + 1 :: nat)) = (of_char c + 1 :: nat)" by simp
  then show ?thesis by (simp add: less_char_def less_eq_char_def less_Suc_eq_le)
qed

lemma between_prefix: "p \<noteq> [] \<Longrightarrow> last p \<noteq> CHR 0xFF \<Longrightarrow>
  (p \<le> k \<and> k < butlast p @ [char_of (of_char (last p) + 1 :: nat)]) = prefix p (k :: string)"
proof (induction p arbitrary: k)
  case Nil
  then show ?case by simp
next
  case (Cons c p)
  note IH = Cons.IH and prems = Cons.prems
  show ?case
  proof (cases k)
    case Nil
    then show ?thesis by simp
  next
    case k: (Cons d l)
    show ?thesis
    proof (cases "p = []")
      case True
      have "d < char_of (of_char c + 1 :: nat) \<longleftrightarrow> d \<le> c" using char_succ True prems by simp
      moreover from this have "d \<noteq> char_of (of_char c + 1 :: nat) \<or> c < d" by auto
      ultimately show ?thesis using True k by (auto simp: not_less)
    next
      case False
      with IH [of l] prems k show ?thesis by auto
    qed
  qed
qed

lemma next_key_bounds: "ends_plain p \<Longrightarrow> between p (next_key p) k \<longleftrightarrow> prefix p k"
  using between_prefix [of p k] by (auto simp: between_def next_key_def ends_plain_def)

interpretation tref: tikv_server tref_client map_of id id
proof
  show "finite (dom (map_of s))" for s :: "(string \<times> string) list"
    by (rule finite_dom_map_of)
  show "tx_Commit tref_client x s = (Inr (), s') \<Longrightarrow> map_of s' = apply_pending (id x) (map_of s)" for x s s'
  proof -
    have "map_of (foldr (\<lambda>(k, v) s. case v of None \<Rightarrow> AList.delete k s | Some v \<Rightarrow> AList.update k v s) x s) =
        apply_pending x (map_of s)" for x :: "(string \<times> string option) list"
      by (induction x) (auto simp: apply_pending_def update_conv' delete_conv' split: option.splits)
    then show "tx_Commit tref_client x s = (Inr (), s') \<Longrightarrow> map_of s' = apply_pending (id x) (map_of s)"
      by (auto simp: tref_client_def)
  qed
  show "tk_DeleteRange tref_client a b s = (Inr (), s') \<Longrightarrow> map_of s' = map_of s |` {k. \<not> between a b k}" for a b s s'
    using map_of_filter_keys [of "\<lambda>k. \<not> between a b k" s] by (auto simp: tref_client_def)
  show "ends_plain p \<Longrightarrow> between p (PrefixNextKey tref_client p) k \<longleftrightarrow> prefix p k" for p k
    using next_key_bounds by (simp add: tref_client_def)
qed (auto simp: tref_client_def split: option.splits)

lemma tref_answers: "tikv_answers tref_client map_of s"
  by (auto simp: tikv_answers_def tref_client_def)

section \<open>The loops over an iterator\<close>

context tikv_server
begin

lemma advance:
  assumes "tikv_answers T raw s" and "remaining it = kv # r"
  obtains it' where "it_Next T it = Inr it'" and "remaining it' = r"
  using assms Next_ok Valid [of it] unfolding tikv_answers_def by (metis list.distinct(1))

lemma Iter_prefix:
  "ss_Iter T p (PrefixNextKey T p) s = Inr it \<Longrightarrow> ends_plain p \<Longrightarrow> remaining it = sorted_kvs (raw s) (prefix p)"
  using Iter_ok [of p "PrefixNextKey T p" s it] PrefixNext [of p]
  by (simp add: ext [of "between p (PrefixNextKey T p)" "prefix p"])

lemma load_loop_result:
  "tikv_load_loop T fuel it acc = Some (Inr r) \<Longrightarrow>
   r = (fst acc @ map fst (remaining it), snd acc @ map (convertEmptyByteToString \<circ> snd) (remaining it))"
proof (induction fuel arbitrary: it acc)
  case (Suc fuel)
  show ?case
  proof (cases "remaining it")
    case Nil
    with Suc.prems Valid [of it] show ?thesis by simp
  next
    case (Cons kv r')
    obtain k v where kv: "kv = (k, v)" by force
    then obtain it' where "it_Next T it = Inr it'"
      using Suc.prems Valid [of it] Cons by (auto simp: wrapped_def Let_def split: sum.splits)
    moreover from Cons this have "remaining it' = r'" by (rule Next_ok)
    moreover have "it_Valid T it" "it_Key T it = k" "it_Value T it = v"
      using Valid [of it] entry [of it k v r'] Cons kv by auto
    ultimately show ?thesis
      using Suc.prems Suc.IH [of it' "(fst acc @ [k], snd acc @ [convertEmptyByteToString v])"]
      by (simp add: Cons kv Let_def)
  qed
qed simp

lemma load_loop_ends:
  "tikv_answers T raw s \<Longrightarrow> length (remaining it) < fuel \<Longrightarrow> \<exists>r. tikv_load_loop T fuel it acc = Some (Inr r)"
proof (induction fuel arbitrary: it acc)
  case (Suc fuel)
  then show ?case using Valid [of it]
    by (cases "remaining it") (auto simp: Let_def elim!: advance [OF Suc.prems(1)])
qed simp

lemma count_loop:
  "tikv_answers T raw s \<Longrightarrow> length (remaining it) < fuel \<Longrightarrow>
   tikv_count_loop T fuel it n = Some (Inr (n + length (remaining it)))"
proof (induction fuel arbitrary: it n)
  case (Suc fuel)
  then show ?case using Valid [of it]
    by (cases "remaining it") (auto elim!: advance [OF Suc.prems(1)])
qed simp

lemma count_loop_cases:
  assumes "tikv_answers T raw s"
  shows "tikv_count_loop T fuel it n \<in> {None, Some (Inr (n + length (remaining it)))}"
proof (induction fuel arbitrary: it n)
  case (Suc fuel)
  show ?case
  proof (cases "remaining it")
    case (Cons kv r)
    obtain it' where "it_Next T it = Inr it'" "remaining it' = r" using advance [OF assms Cons] .
    with Suc.IH [of it' "n + 1"] Valid [of it] Cons show ?thesis by auto
  qed (use Valid [of it] in simp)
qed simp

text \<open>The callback with its errors wrapped and the placeholder decoded.\<close>

lemma walk_loop:
  assumes "tikv_answers T raw s"
  shows "length (remaining it) < fuel \<Longrightarrow> tikv_walk_loop T fuel fn it t =
    Some (apply_all (\<lambda>k v t. map_prod (\<lambda>r. wrapped r ''Failed to apply fn'') id (fn k v t))
      (map (\<lambda>(k, v). (k, convertEmptyByteToString v)) (remaining it)) t)"
proof (induction fuel arbitrary: it t)
  case (Suc fuel)
  show ?case
  proof (cases "remaining it")
    case Nil
    then show ?thesis using Valid [of it] by simp
  next
    case (Cons kv r)
    obtain k v where kv: "kv = (k, v)" by force
    obtain it' where it': "it_Next T it = Inr it'" "remaining it' = r" using advance [OF assms Cons] .
    obtain res t' where fn: "fn k (convertEmptyByteToString v) t = (res, t')" by force
    show ?thesis
      using Suc Cons it' fn kv Valid [of it] entry [of it k v r]
      by (cases res) (auto simp: go_bind_def wrapped_def convertEmptyByteToString_def Let_def split: if_splits)
  qed
qed simp

text \<open>The copying loop copies every entry when all of them lie below \<open>base\<close>, and never ends otherwise.\<close>

lemma backup_loop_copies:
  assumes "tikv_answers T raw s" and "marshal = (\<lambda>k v. Inr (enc k v))" and "0 < cnt" and "0 < batchSize"
  shows "length (remaining it) < fuel \<Longrightarrow> \<forall>kv \<in> set (remaining it). prefix base (fst kv) \<Longrightarrow>
    \<exists>i'. tikv_backup_loop T marshal batchSize cnt base fuel it i w = Some (Inr (i', w @ frames enc (remaining it)))"
proof (induction fuel arbitrary: it i w)
  case (Suc fuel)
  show ?case
  proof (cases "remaining it")
    case Nil
    then show ?thesis using Valid [of it] by (simp add: frames_def)
  next
    case (Cons kv r)
    obtain k v where kv: "kv = (k, v)" by force
    obtain it' where it': "it_Next T it = Inr it'" "remaining it' = r" using advance [OF assms(1) Cons] .
    with Suc.IH [of it' "i + 1" "w @ frame (enc k v)"] Suc.prems Cons kv
    obtain i' where "tikv_backup_loop T marshal batchSize cnt base fuel it' (i + 1) (w @ frame (enc k v)) =
      Some (Inr (i', (w @ frame (enc k v)) @ frames enc r))" by auto
    with it' Suc.prems Cons kv Valid [of it] entry [of it k v r] assms(2-) show ?thesis
      by (simp add: frames_def writeBackupBytes_frame)
  qed
qed simp

lemma backup_loop_stuck:
  assumes "tikv_answers T raw s" and "marshal = (\<lambda>k v. Inr (enc k v))" and "0 < cnt" and "0 < batchSize"
  shows "\<not> (\<forall>kv \<in> set (remaining it). prefix base (fst kv)) \<Longrightarrow>
    tikv_backup_loop T marshal batchSize cnt base fuel it i w = None"
proof (induction fuel arbitrary: it i w)
  case (Suc fuel)
  then obtain k v r where Cons: "remaining it = (k, v) # r" by (cases "remaining it") auto
  obtain it' where it': "it_Next T it = Inr it'" "remaining it' = r" using advance [OF assms(1) Cons] .
  have at: "it_Valid T it" "it_Key T it = k" "it_Value T it = v" using Valid [of it] entry [OF Cons] Cons by auto
  show ?case
  proof (cases "prefix base k")
    case True
    then have "\<not> (\<forall>kv \<in> set (remaining it'). prefix base (fst kv))" using Suc.prems Cons it' by simp
    from Suc.IH [OF this] True at it' assms(2-) show ?thesis by simp
  next
    case False
    with at Suc show ?thesis by simp
  qed
qed simp

end

section \<open>Results of the operations\<close>

context tikv_server
begin

lemma Load_result:
  assumes "txnTiKV_Load T key s = (Inr v, s')"
  shows "tikv_view raw s (joinPath [rootPath, key]) = Some v \<and> s' = s"
  using assms by (auto simp: txnTiKV_Load_def res_bind_Inr_iff tikv_view_def dest: Get_ok)

lemma Load_answer:
  assumes "tikv_answers T raw s" and "tikv_view raw s (joinPath [rootPath, key]) = Some v"
  shows "txnTiKV_Load T key s = (Inr v, s)"
proof -
  from assms obtain b where "ss_Get T (joinPath [rootPath, key]) s = Inr b"
    by (auto simp: tikv_answers_def tikv_view_def)
  with assms(2) Get_ok [OF this] show ?thesis by (auto simp: txnTiKV_Load_def tikv_view_def)
qed

lemma LoadWithPrefix_result:
  assumes "txnTiKV_LoadWithPrefix T fuel pre s = Some (Inr (ks, vs))" and "ends_plain (joinPath [rootPath, pre])"
  shows "ks = map fst (sorted_kvs (tikv_view raw s) (prefix (joinPath [rootPath, pre]))) \<and>
    vs = map snd (sorted_kvs (tikv_view raw s) (prefix (joinPath [rootPath, pre])))"
  using assms
  by (auto simp: txnTiKV_LoadWithPrefix_def Let_def sorted_kvs_view [OF finite_raw] comp_def case_prod_unfold
      split: sum.splits dest!: load_loop_result Iter_prefix)

lemma LoadWithPrefix_answer:
  assumes "tikv_answers T raw s" and "ends_plain (joinPath [rootPath, pre])" and "card (dom (raw s)) < fuel"
  shows "\<exists>ks vs. txnTiKV_LoadWithPrefix T fuel pre s = Some (Inr (ks, vs))"
proof -
  let ?p = "joinPath [rootPath, pre]"
  obtain it where it: "ss_Iter T ?p (PrefixNextKey T ?p) s = Inr it"
    using assms(1) unfolding tikv_answers_def by blast
  then have "length (remaining it) < fuel"
    using Iter_prefix [OF it assms(2)] length_sorted_kvs_le [OF finite_raw] assms(3) le_less_trans by metis
  from load_loop_ends [OF assms(1) this] it show ?thesis
    by (simp add: txnTiKV_LoadWithPrefix_def Let_def)
qed

lemma Save_result:
  assumes "txnTiKV_Save T key value s = (Inr (), s')"
  shows "tikv_view raw s' = (tikv_view raw s)(joinPath [rootPath, key] \<mapsto> value) \<and> value \<noteq> EmptyValueString"
proof -
  from assms obtain x b x' where "tk_Begin T s = Inr x" and b: "convertEmptyStringToByte value = Inr b"
    and "tx_Set T (joinPath [rootPath, key]) b x = Inr x'" and c: "tx_Commit T x' s = (Inr (), s')"
    by (auto simp: txnTiKV_Save_def Let_def res_bind_Inr_iff split: sum.splits)
  then have "pending x' = [(joinPath [rootPath, key], Some b)]" using Begin_ok Set_ok by metis
  then have "raw s' = (raw s)(joinPath [rootPath, key] \<mapsto> b)" using Commit_ok [OF c] by (simp add: apply_pending_def)
  moreover have "value \<noteq> EmptyValueString"
    using b by (auto simp: convertEmptyStringToByte_def EmptyValueString_def)
  ultimately show ?thesis using convertEmpty_roundtrip [OF b] by (simp add: tikv_view_def fun_eq_iff)
qed

lemma Remove_result:
  assumes "txnTiKV_Remove T key s = (Inr (), s')"
  shows "tikv_view raw s' = (tikv_view raw s)(joinPath [rootPath, key] := None)"
proof -
  from assms obtain x x' where "tk_Begin T s = Inr x"
    and "tx_Delete T (joinPath [rootPath, key]) x = Inr x'" and c: "tx_Commit T x' s = (Inr (), s')"
    by (auto simp: txnTiKV_Remove_def Let_def res_bind_Inr_iff split: sum.splits)
  then have "pending x' = [(joinPath [rootPath, key], None)]" using Begin_ok Del_ok by metis
  then show ?thesis using Commit_ok [OF c] by (simp add: apply_pending_def tikv_view_def fun_eq_iff)
qed

lemma Remove_frame:
  assumes "txnTiKV_Remove T key s = (r, s')" and "k \<noteq> joinPath [rootPath, key]"
  shows "tikv_view raw s' k = tikv_view raw s k"
proof (cases r)
  case (Inr u)
  with assms Remove_result show ?thesis by simp
next
  case (Inl e)
  show ?thesis
  proof (cases "s' = s")
    case False
    with assms(1) Inl obtain x x' where "tk_Begin T s = Inr x"
      and "tx_Delete T (joinPath [rootPath, key]) x = Inr x'" and c: "tx_Commit T x' s = (Inl e, s')"
      by (auto simp: txnTiKV_Remove_def Let_def res_bind_def split: sum.splits)
    then have "pending x' = [(joinPath [rootPath, key], None)]" using Begin_ok Del_ok by metis
    with Commit_err [OF c] assms(2) show ?thesis by (auto simp: apply_pending_def tikv_view_def)
  qed simp
qed

lemma RemoveWithPrefix_result:
  assumes "txnTiKV_RemoveWithPrefix T pre s = (Inr (), s')" and "ends_plain (joinPath [rootPath, pre])"
  shows "tikv_view raw s' = tikv_view raw s |` {k. \<not> prefix (joinPath [rootPath, pre]) k}"
  using DeleteRange_ok [OF assms(1) [unfolded txnTiKV_RemoveWithPrefix_def Let_def]] PrefixNext [OF assms(2)]
  by (auto simp: tikv_view_def restrict_map_def fun_eq_iff)

end

text \<open>
  Property C22. The TiKV store refines the same kind of map as the etcd store although TiKV keeps no empty
  values: through the placeholder an empty value is saved and loaded back, the placeholder itself is
  refused as a value, \<open>Remove\<close> and \<open>RemoveWithPrefix\<close> change exactly the cleaned key and the keys with
  the cleaned prefix. (Unlike the etcd store, \<open>RemoveWithPrefix\<close> adds no \<^verbatim>\<open>/\<close>: removing \<^verbatim>\<open>a\<close> removes \<^verbatim>\<open>ab\<close>.)
\<close>

theorem txnTiKV_refines_map:
  assumes "tikv_server T raw remaining pending" and "tikv_answers T raw s"
    and "ends_plain (joinPath [[], key])" and "card (dom (raw s)) < fuel"
  shows "(\<forall>v. tikv_view raw s (joinPath [[], key]) = Some v \<longrightarrow> txnTiKV_Load T key s = (Inr v, s)) \<and>
    (tikv_view raw s (joinPath [[], key]) = None \<longrightarrow> (\<exists>e. txnTiKV_Load T key s = (Inl e, s))) \<and>
    txnTiKV_LoadWithPrefix T fuel key s =
      Some (Inr (map fst (sorted_kvs (tikv_view raw s) (prefix (joinPath [[], key]))),
                 map snd (sorted_kvs (tikv_view raw s) (prefix (joinPath [[], key]))))) \<and>
    (\<forall>v s'. txnTiKV_Save T key v s = (Inr (), s') \<longrightarrow>
      tikv_view raw s' = (tikv_view raw s)(joinPath [[], key] \<mapsto> v) \<and> v \<noteq> EmptyValueString) \<and>
    (\<forall>s'. txnTiKV_Remove T key s = (Inr (), s') \<longrightarrow>
      tikv_view raw s' = (tikv_view raw s)(joinPath [[], key] := None)) \<and>
    (\<forall>s'. txnTiKV_RemoveWithPrefix T key s = (Inr (), s') \<longrightarrow>
      tikv_view raw s' = tikv_view raw s |` {k. \<not> prefix (joinPath [[], key]) k})"
proof (intro conjI allI impI)
  show "txnTiKV_LoadWithPrefix T fuel key s =
      Some (Inr (map fst (sorted_kvs (tikv_view raw s) (prefix (joinPath [[], key]))),
                 map snd (sorted_kvs (tikv_view raw s) (prefix (joinPath [[], key])))))"
    using tikv_server.LoadWithPrefix_answer [OF assms] tikv_server.LoadWithPrefix_result [OF assms(1) _ assms(3)]
    by (metis (no_types))
  show "\<exists>e. txnTiKV_Load T key s = (Inl e, s)" if "tikv_view raw s (joinPath [[], key]) = None"
  proof -
    obtain r where r: "txnTiKV_Load T key s = (r, s)" by (simp add: txnTiKV_Load_def)
    with tikv_server.Load_result [OF assms(1), of key s] that show ?thesis by (cases r) auto
  qed
qed (use tikv_server.Load_answer [OF assms(1,2)] tikv_server.Save_result [OF assms(1)]
      tikv_server.Remove_result [OF assms(1)] tikv_server.RemoveWithPrefix_result [OF assms(1) _ assms(3)]
    in \<open>simp_all\<close>)

theorem txnTiKV_refines_map_witness:
  "txnTiKV_Load tref_client ''a//b'' [(''a/b'', EmptyValueString)] = (Inr [], [(''a/b'', EmptyValueString)])"
proof -
  let ?s = "[(''a/b'', EmptyValueString)]"
  have p: "joinPath [[], ''a//b''] = ''a/b''" by (simp add: joinPath_def path_Join_def path_Clean_def HasSuffix_def)
  have "ends_plain (joinPath [[], ''a//b''])" by (simp add: p ends_plain_def)
  moreover have "card (dom (map_of ?s)) < 3"
    using card_length [of "map fst ?s"] by (simp add: dom_map_of_conv_image_fst)
  moreover have "tikv_view map_of ?s ''a/b'' = Some []"
    by (simp add: tikv_view_def convertEmptyByteToString_def isEmptyByte_def)
  ultimately show ?thesis
    using txnTiKV_refines_map [where T = tref_client and raw = map_of and s = ?s and key = "''a//b''" and fuel = 3,
      OF tref.tikv_server_axioms tref_answers] by (simp only: p simp_thms)
qed

text \<open>
  \<open>WalkWithPrefix\<close> on TiKV ends and calls the callback once per entry with the prefix, in the
  order of the keys and with the placeholder decoded, up to the first error, which is returned wrapped.
\<close>

theorem txnTiKV_walk_complete:
  assumes "tikv_server T raw remaining pending" and "tikv_answers T raw s"
    and "ends_plain (path_Join [[], pre])" and "card (dom (raw s)) < fuel"
  shows "txnTiKV_WalkWithPrefix T fuel pre fn s t =
    Some (apply_all (\<lambda>k v t. map_prod (\<lambda>r. wrapped r ''Failed to apply fn'') id (fn k v t))
      (sorted_kvs (tikv_view raw s) (prefix (path_Join [[], pre]))) t)"
proof -
  let ?p = "path_Join [[], pre]"
  have fin: "finite (dom (raw s))" by (rule tikv_server.finite_raw [OF assms(1)])
  obtain it where it: "ss_Iter T ?p (PrefixNextKey T ?p) s = Inr it"
    using assms(2) unfolding tikv_answers_def by blast
  have rem: "remaining it = sorted_kvs (raw s) (prefix ?p)"
    by (rule tikv_server.Iter_prefix [OF assms(1) it assms(3)])
  then have "length (remaining it) < fuel"
    using length_sorted_kvs_le [OF fin] assms(4) le_less_trans by metis
  from tikv_server.walk_loop [OF assms(1,2) this] it rem show ?thesis
    by (simp add: txnTiKV_WalkWithPrefix_def sorted_kvs_view [where raw = raw, OF fin] Let_def)
qed

theorem txnTiKV_walk_complete_witness:
  "txnTiKV_WalkWithPrefix tref_client 3 ''a/'' (\<lambda>k v t. (Inr (), t @ [k])) [(''a'', ''1'')] [] =
     Some (apply_all (\<lambda>k v t. map_prod (\<lambda>r. wrapped r ''Failed to apply fn'') id (Inr (), t @ [k]))
       (sorted_kvs (tikv_view map_of [(''a'', ''1'')]) (prefix ''a'')) [])"
proof -
  have j: "path_Join [[], ''a/''] = ''a''" by (simp add: path_Join_root path_Clean_def)
  then have e: "ends_plain (path_Join [[], ''a/''])" by (simp add: ends_plain_def)
  have "card (dom (map_of [(''a'', ''1'')])) < 3"
    using card_length [of "map fst [(''a'', ''1'')]"] by (simp add: dom_map_of_conv_image_fst)
  from txnTiKV_walk_complete [OF tref.tikv_server_axioms tref_answers e this, of "\<lambda>k v t. (Inr (), t @ [k])" "[]"]
  show ?thesis by (simp only: j)
qed

text \<open>A backup whose reads and writes succeed is its two loops and the stop block.\<close>

lemma tikv_backup_run:
  assumes "p = joinPath [base, pre]" and "ss_Iter T p (PrefixNextKey T p) s = Inr it"
    and "tk_Begin T s = Inr x" and "tx_Commit T x s = (Inr (), s')"
    and "encode_header = (\<lambda>cnt rev inst meta. Inr (hdr cnt rev inst meta))"
  shows "txnTiKV_BackupKV T encode_header marshal n base pre batchSize s =
    (case tikv_count_loop T n it 0 of
       None \<Rightarrow> None | Some (Inl er) \<Rightarrow> Some (Inl er, s)
     | Some (Inr cnt) \<Rightarrow>
         (case tikv_backup_loop T marshal batchSize cnt base n it 0
                 (frame (hdr cnt 0 (fst (backup_paths base)) (snd (backup_paths base)))) of
            None \<Rightarrow> None | Some (Inl er) \<Rightarrow> Some (Inl er, s)
          | Some (Inr (i, w')) \<Rightarrow>
              if cnt = 0 then Some (Inl (Panic ''integer divide by zero''), s)
              else Some (Inr (w' @ frame []), s')))"
  using assms
  by (auto simp: txnTiKV_BackupKV_def Let_def writeBackupBytes_frame go_bind_def case_prod_unfold
      split: option.splits sum.splits)

text \<open>
  Property C23. A backup of TiKV below a prefix whose entries all start with the uncleaned \<open>base\<close> ends: with
  the part header, one length-prefixed block per raw entry in the order of the keys and the empty stop
  block, or, when there is no entry, with a division by zero. When some entry does not start with \<open>base\<close>
  (\<open>base\<close> is \<^verbatim>\<open>a//b\<close>, say), the loop never ends, because the entry it skips is never left.
\<close>

theorem txnTiKV_backup:
  assumes "tikv_server T raw remaining pending" and "tikv_answers T raw s"
    and "marshal = (\<lambda>k v. Inr (enc k v))" and "encode_header = (\<lambda>cnt rev inst meta. Inr (hdr cnt rev inst meta))"
    and "p = joinPath [base, pre]" and "ends_plain p" and "card (dom (raw s)) < fuel" and "0 < batchSize"
    and "tk_Begin T s = Inr x" and "tx_Commit T x s = (Inr (), s')"
  shows "if sorted_kvs (raw s) (prefix p) = []
    then txnTiKV_BackupKV T encode_header marshal fuel base pre batchSize s =
      Some (Inl (Panic ''integer divide by zero''), s)
    else if \<forall>kv \<in> set (sorted_kvs (raw s) (prefix p)). prefix base (fst kv)
    then \<exists>h. txnTiKV_BackupKV T encode_header marshal fuel base pre batchSize s =
      Some (Inr (frame h @ frames enc (sorted_kvs (raw s) (prefix p)) @ frame []), s')
    else \<forall>n. txnTiKV_BackupKV T encode_header marshal n base pre batchSize s = None"
proof -
  let ?es = "sorted_kvs (raw s) (prefix p)"
  have fin: "finite (dom (raw s))" by (rule tikv_server.finite_raw [OF assms(1)])
  obtain it where it: "ss_Iter T p (PrefixNextKey T p) s = Inr it"
    using assms(2) unfolding tikv_answers_def by blast
  have rem: "remaining it = ?es" by (rule tikv_server.Iter_prefix [OF assms(1) it assms(6)])
  let ?h = "\<lambda>cnt. hdr cnt 0 (fst (backup_paths base)) (snd (backup_paths base))"
  note run = tikv_backup_run [OF assms(5) it assms(9,10,4), of marshal _ batchSize]
  have len: "length (remaining it) < fuel"
    using length_sorted_kvs_le [OF fin] assms(7) le_less_trans rem by metis
  have count: "tikv_count_loop T fuel it 0 = Some (Inr (length ?es))"
    using tikv_server.count_loop [OF assms(1,2) len, of 0] rem by simp
  show ?thesis
  proof (cases ?es)
    case Nil
    obtain f where "fuel = Suc f" using assms(7) by (cases fuel) auto
    then show ?thesis using Nil run [of fuel] count rem tikv_server.Valid [OF assms(1), of it] by simp
  next
    case (Cons kv r)
    then have cnt: "0 < length ?es" by simp
    show ?thesis
    proof (cases "\<forall>kv \<in> set ?es. prefix base (fst kv)")
      case True
      then have all: "\<forall>kv \<in> set (remaining it). prefix base (fst kv)" by (simp add: rem)
      from tikv_server.backup_loop_copies [OF assms(1-3) cnt assms(8) len all] obtain i' where
        "tikv_backup_loop T marshal batchSize (length ?es) base fuel it 0 (frame (?h (length ?es))) =
          Some (Inr (i', frame (?h (length ?es)) @ frames enc ?es))"
        unfolding rem by blast
      with run [of fuel] count cnt True show ?thesis by (auto simp del: prefix_def)
    next
      case False
      then have "\<not> (\<forall>kv \<in> set (remaining it). prefix base (fst kv))" by (simp add: rem)
      from tikv_server.backup_loop_stuck [OF assms(1-3) cnt assms(8) this]
      have "txnTiKV_BackupKV T encode_header marshal n base pre batchSize s = None" for n
        using tikv_server.count_loop_cases [OF assms(1,2), of n it 0] by (auto simp: run rem)
      with False Cons show ?thesis by (simp only: if_False list.distinct) simp
    qed
  qed
qed

theorem txnTiKV_backup_witness:
  "\<forall>n. txnTiKV_BackupKV tref_client (\<lambda>cnt rev inst meta. Inr []) (\<lambda>k v. Inr (bytes_of_string (k @ v))) n
     ''a//b'' ''x'' 10 [(''a/b/x'', ''1'')] = None"
proof -
  let ?s = "[(''a/b/x'', ''1'')]"
  have p: "joinPath [''a//b'', ''x''] = ''a/b/x''"
    by (simp add: joinPath_def path_Join_def path_Clean_def HasSuffix_def)
  have es: "set (sorted_kvs (map_of ?s) (prefix ''a/b/x'')) = {(''a/b/x'', ''1'')}"
    by (auto simp: set_sorted_kvs finite_dom_map_of split: if_splits)
  then have ne: "sorted_kvs (map_of ?s) (prefix ''a/b/x'') \<noteq> []" by (metis empty_set insert_not_empty)
  moreover have "\<not> (\<forall>kv \<in> set (sorted_kvs (map_of ?s) (prefix ''a/b/x'')). prefix ''a//b'' (fst kv))"
    unfolding es by simp
  moreover have "card (dom (map_of ?s)) < 3"
    using card_length [of "map fst ?s"] by (simp add: dom_map_of_conv_image_fst)
  moreover have "ends_plain ''a/b/x''" by (simp add: ends_plain_def)
  moreover have "tk_Begin tref_client ?s = Inr []" "tx_Commit tref_client [] ?s = (Inr (), ?s)"
    by (simp_all add: tref_client_def)
  ultimately show ?thesis
    using txnTiKV_backup [where T = tref_client and raw = map_of and s = ?s and base = "''a//b''" and pre = "''x''"
      and marshal = "\<lambda>k v. Inr (bytes_of_string (k @ v))" and enc = "\<lambda>k v. bytes_of_string (k @ v)"
      and encode_header = "\<lambda>cnt rev inst meta. Inr []" and hdr = "\<lambda>cnt rev inst meta. []"
      and p = "''a/b/x''" and fuel = 3 and batchSize = 10 and x = "[]" and s' = ?s, OF tref.tikv_server_axioms tref_answers]
    by (simp only: p if_False simp_thms)
qed

end
