(* ===== verification/Kv_Audit.thy ===== *)
theory Kv_Audit
  imports Kv_Tikv
begin

text \<open>
  The interface \<open>MetaKV\<close> (\<^verbatim>\<open>states/kv/kv.go\<close>) as a record of operations, the contract \<open>meta_kv\<close> that its
  callers rely on as a locale, which both stores provide, and the auditing store \<open>FileAuditKV\<close>
  (\<^verbatim>\<open>states/kv/kv_audit.go\<close>), verified against the contract only and so on top of either store.
\<close>

section \<open>The interface\<close>

text \<open>
  An operation with a loop over the store answers \<open>None\<close> while it has not returned. \<open>'t\<close> is the state of
  the callback of \<open>WalkWithPrefix\<close>.
\<close>

record ('s, 't) MetaKV =
  kv_Load :: "string \<Rightarrow> ('s, string) go"
  kv_LoadWithPrefix :: "string \<Rightarrow> 's \<Rightarrow> (string list \<times> string list) result option"
  kv_Save :: "string \<Rightarrow> string \<Rightarrow> ('s, unit) go"
  kv_MultiSave :: "string list \<Rightarrow> string list \<Rightarrow> ('s, unit) go"
  kv_Remove :: "string \<Rightarrow> ('s, unit) go"
  kv_RemoveWithPrefix :: "string \<Rightarrow> ('s, unit) go"
  kv_removeWithPrevKV :: "string \<Rightarrow> ('s, (string \<times> string) option) go"
  kv_removeWithPrefixAndPrevKV :: "string \<Rightarrow> 's \<Rightarrow> ((string \<times> string) list result \<times> 's) option"
  kv_GetAllRootPath :: "'s \<Rightarrow> string list result option"
  kv_BackupKV :: "string \<Rightarrow> string \<Rightarrow> nat \<Rightarrow> 's \<Rightarrow> (bytes result \<times> 's) option"
  kv_WalkWithPrefix :: "string \<Rightarrow> nat \<Rightarrow> (string \<Rightarrow> string \<Rightarrow> ('t, unit) go) \<Rightarrow> 's \<Rightarrow> 't \<Rightarrow> (unit result \<times> 't) option"

text \<open>The encodings of a backup, and the bound on loops, are arguments.\<close>

record backup_codec =
  encode_header :: "nat \<Rightarrow> nat \<Rightarrow> string \<Rightarrow> string \<Rightarrow> bytes result"
  encode_pair :: "string \<Rightarrow> string \<Rightarrow> bytes result"

definition etcd_MetaKV :: "'s etcd_client \<Rightarrow> (string \<Rightarrow> string) \<Rightarrow> backup_codec \<Rightarrow> nat \<Rightarrow> ('s, 't) MetaKV" where
  "etcd_MetaKV C rangeEnd B fuel = \<lparr>
     kv_Load = etcdKV_Load C \<lparr>withKeysOnly = False\<rparr>,
     kv_LoadWithPrefix = (\<lambda>key s. Some (fst (etcdKV_LoadWithPrefix C \<lparr>withKeysOnly = False\<rparr> key s))),
     kv_Save = etcdKV_Save C,
     kv_MultiSave = etcdKV_MultiSave C,
     kv_Remove = etcdKV_Remove C,
     kv_RemoveWithPrefix = etcdKV_RemoveWithPrefix C,
     kv_removeWithPrevKV = etcdKV_removeWithPrevKV C,
     kv_removeWithPrefixAndPrevKV = (\<lambda>pre s. Some (etcdKV_removeWithPrefixAndPrevKV C pre s)),
     kv_GetAllRootPath = etcdKV_GetAllRootPath C fuel,
     kv_BackupKV = (\<lambda>base pre batchSize s. map_option (\<lambda>r. (r, s))
       (etcdKV_BackupKV C (encode_header B) (encode_pair B) fuel base pre batchSize s)),
     kv_WalkWithPrefix = etcdKV_WalkWithPrefix C rangeEnd fuel\<rparr>"

definition tikv_MetaKV :: "('s, 'i, 'x) tikv_client \<Rightarrow> backup_codec \<Rightarrow> nat \<Rightarrow> ('s, 't) MetaKV" where
  "tikv_MetaKV T B fuel = \<lparr>
     kv_Load = txnTiKV_Load T,
     kv_LoadWithPrefix = txnTiKV_LoadWithPrefix T fuel,
     kv_Save = txnTiKV_Save T,
     kv_MultiSave = txnTiKV_MultiSave,
     kv_Remove = txnTiKV_Remove T,
     kv_RemoveWithPrefix = txnTiKV_RemoveWithPrefix T,
     kv_removeWithPrevKV = txnTiKV_removeWithPrevKV T,
     kv_removeWithPrefixAndPrevKV = txnTiKV_removeWithPrefixAndPrevKV T fuel,
     kv_GetAllRootPath = txnTiKV_GetAllRootPath T fuel,
     kv_BackupKV = txnTiKV_BackupKV T (encode_header B) (encode_pair B) fuel,
     kv_WalkWithPrefix = (\<lambda>pre pageSize. txnTiKV_WalkWithPrefix T fuel pre)\<rparr>"

section \<open>The auditing store\<close>

text \<open>
  The audit file: what was written, and how much the device still takes. A write that does not fit
  writes what fits and fails.
\<close>

record os_file =
  content :: bytes
  space :: nat

definition file_Write :: "bytes \<Rightarrow> (os_file, unit) go" where
  "file_Write data f =
     (if length data \<le> space f
      then (Inr (), f\<lparr>content := content f @ data, space := space f - length data\<rparr>)
      else (Inl (Failure ''no space left on device''),
            f\<lparr>content := content f @ take (space f) data, space := 0\<rparr>))"

datatype AuditOpType = AuditOpNone | OpDel | OpPut | OpPutBefore | OpPutAfter

fun AuditOpType_number :: "AuditOpType \<Rightarrow> i32" where
  "AuditOpType_number AuditOpNone = 0"
| "AuditOpType_number OpDel = 1"
| "AuditOpType_number OpPut = 2"
| "AuditOpType_number OpPutBefore = 3"
| "AuditOpType_number OpPutAfter = 4"

text \<open>The protobuf encodings of \<open>AuditHeader\<close> (version, operation, number of entries) and of \<open>mvccpb.KeyValue\<close>.\<close>

record audit_codec =
  marshal_header :: "i32 \<Rightarrow> i32 \<Rightarrow> i32 \<Rightarrow> bytes"
  marshal_kv :: "string \<Rightarrow> string \<Rightarrow> bytes"

definition writeData :: "bytes \<Rightarrow> os_file \<Rightarrow> os_file" where
  "writeData data f =
     (case file_Write (put_le 8 (of_nat (length data) :: u64)) f of
        (Inl _, f1) \<Rightarrow> f1
      | (Inr _, f1) \<Rightarrow> if 0 < length data then snd (file_Write data f1) else f1)"

definition writeHeader :: "audit_codec \<Rightarrow> AuditOpType \<Rightarrow> i32 \<Rightarrow> os_file \<Rightarrow> os_file" where
  "writeHeader M op entriesNum = writeData (marshal_header M 1 (AuditOpType_number op) entriesNum)"

definition writeLogKV :: "audit_codec \<Rightarrow> (string \<times> string) option \<Rightarrow> os_file \<Rightarrow> os_file" where
  "writeLogKV M kv f = (case kv of None \<Rightarrow> f | Some (k, v) \<Rightarrow> writeData (marshal_kv M k v) f)"

definition writeKeyValue :: "audit_codec \<Rightarrow> string \<Rightarrow> string \<Rightarrow> os_file \<Rightarrow> os_file" where
  "writeKeyValue M key value = writeLogKV M (Some (key, value))"

text \<open>The receiver's state is the store behind \<open>cli\<close> and the file.\<close>

definition FileAuditKV_Load :: "('s, 't) MetaKV \<Rightarrow> string \<Rightarrow> ('s \<times> os_file, string) go" where
  "FileAuditKV_Load K key = (\<lambda>(s, f). case kv_Load K key s of (r, s') \<Rightarrow> (r, s', f))"

definition FileAuditKV_LoadWithPrefix :: "('s, 't) MetaKV \<Rightarrow> string \<Rightarrow> 's \<times> os_file \<Rightarrow>
    (string list \<times> string list) result option" where
  "FileAuditKV_LoadWithPrefix K key = (\<lambda>(s, f). kv_LoadWithPrefix K key s)"

definition FileAuditKV_Save :: "('s, 't) MetaKV \<Rightarrow> audit_codec \<Rightarrow> string \<Rightarrow> string \<Rightarrow> ('s \<times> os_file, unit) go" where
  "FileAuditKV_Save K M key value = (\<lambda>(s, f).
     let f1 = writeHeader M OpPut 2 f in
     case kv_Save K key value s of (r, s') \<Rightarrow>
       let f2 = (if isl r then f1 else writeKeyValue M key value (writeHeader M OpPutBefore 1 f1))
       in (r, s', writeHeader M OpPutAfter 1 f2))"

definition FileAuditKV_MultiSave :: "string list \<Rightarrow> string list \<Rightarrow> ('s \<times> os_file, unit) go" where
  "FileAuditKV_MultiSave ks vs = go_fail (Failure ''not implemented'')"

definition FileAuditKV_Remove :: "('s, 't) MetaKV \<Rightarrow> audit_codec \<Rightarrow> string \<Rightarrow> ('s \<times> os_file, unit) go" where
  "FileAuditKV_Remove K M key = (\<lambda>(s, f).
     case kv_Load K key s of
       (Inl e, s1) \<Rightarrow> (Inl e, s1, f)
     | (Inr val, s1) \<Rightarrow>
         (case kv_Remove K key s1 of
            (Inl e, s2) \<Rightarrow> (Inl e, s2, f)
          | (Inr _, s2) \<Rightarrow> (Inr (), s2, writeKeyValue M key val (writeHeader M OpDel 1 f))))"

definition FileAuditKV_RemoveWithPrefix :: "('s, 't) MetaKV \<Rightarrow> audit_codec \<Rightarrow> string \<Rightarrow> 's \<times> os_file \<Rightarrow>
    (unit result \<times> 's \<times> os_file) option" where
  "FileAuditKV_RemoveWithPrefix K M key = (\<lambda>(s, f).
     case kv_LoadWithPrefix K key s of
       None \<Rightarrow> None
     | Some (Inl e) \<Rightarrow> Some (Inl e, s, f)
     | Some (Inr (ks, vals)) \<Rightarrow>
         (case kv_RemoveWithPrefix K key s of
            (Inl e, s') \<Rightarrow> Some (Inl e, s', f)
          | (Inr _, s') \<Rightarrow>
              Some (if length vals < length ks then Inl (Panic ''index out of range'') else Inr (), s',
                fold (\<lambda>(k, v). writeKeyValue M k v) (zip ks vals) (writeHeader M OpDel 1 f))))"

definition FileAuditKV_removeWithPrevKV :: "('s, 't) MetaKV \<Rightarrow> string \<Rightarrow>
    ('s \<times> os_file, (string \<times> string) option) go" where
  "FileAuditKV_removeWithPrevKV K key = (\<lambda>(s, f). case kv_removeWithPrevKV K key s of (r, s') \<Rightarrow> (r, s', f))"

definition FileAuditKV_removeWithPrefixAndPrevKV :: "('s, 't) MetaKV \<Rightarrow> string \<Rightarrow> 's \<times> os_file \<Rightarrow>
    ((string \<times> string) list result \<times> 's \<times> os_file) option" where
  "FileAuditKV_removeWithPrefixAndPrevKV K pre = (\<lambda>(s, f).
     map_option (\<lambda>(r, s'). (r, s', f)) (kv_removeWithPrefixAndPrevKV K pre s))"

definition FileAuditKV_GetAllRootPath :: "('s, 't) MetaKV \<Rightarrow> 's \<times> os_file \<Rightarrow> string list result option" where
  "FileAuditKV_GetAllRootPath K = (\<lambda>(s, f). kv_GetAllRootPath K s)"

definition FileAuditKV_BackupKV :: "('s, 't) MetaKV \<Rightarrow> string \<Rightarrow> string \<Rightarrow> nat \<Rightarrow> 's \<times> os_file \<Rightarrow>
    (bytes result \<times> 's \<times> os_file) option" where
  "FileAuditKV_BackupKV K base pre batchSize = (\<lambda>(s, f).
     map_option (\<lambda>(r, s'). (r, s', f)) (kv_BackupKV K base pre batchSize s))"

definition FileAuditKV_WalkWithPrefix :: "('s, 't) MetaKV \<Rightarrow> string \<Rightarrow> nat \<Rightarrow>
    (string \<Rightarrow> string \<Rightarrow> ('t, unit) go) \<Rightarrow> 's \<times> os_file \<Rightarrow> 't \<Rightarrow> (unit result \<times> 't) option" where
  "FileAuditKV_WalkWithPrefix K pre pageSize fn = (\<lambda>(s, f). kv_WalkWithPrefix K pre pageSize fn s)"

section \<open>The contract\<close>

text \<open>
  What a caller may rely on, stated for operations that succeed: \<open>view\<close> is the map from keys to values.
  Removing below a prefix removes at least the keys below it as a directory and at most the keys that
  start with it; the stores differ within these bounds.
\<close>

locale meta_kv =
  fixes K :: "('s, 't) MetaKV" and view :: "'s \<Rightarrow> string \<Rightarrow> string option"
  assumes view_finite: "finite (dom (view s))"
    and Load: "kv_Load K key s = (Inr v, s') \<Longrightarrow> s' = s \<and> view s (joinPath [[], key]) = Some v"
    and LoadWithPrefix: "kv_LoadWithPrefix K pre s = Some (Inr (ks, vs)) \<Longrightarrow> ends_plain (joinPath [[], pre]) \<Longrightarrow>
      length vs = length ks \<and> zip ks vs = sorted_kvs (view s) (prefix (joinPath [[], pre]))"
    and Save: "kv_Save K key v s = (Inr (), s') \<Longrightarrow> view s' = (view s)(joinPath [[], key] \<mapsto> v)"
    and Remove: "kv_Remove K key s = (Inr (), s') \<Longrightarrow> view s' = (view s)(joinPath [[], key] := None)"
    and Remove_frame: "kv_Remove K key s = (r, s') \<Longrightarrow> k \<noteq> joinPath [[], key] \<Longrightarrow> view s' k = view s k"
    and RemoveWithPrefix: "kv_RemoveWithPrefix K pre s = (Inr (), s') \<Longrightarrow> ends_plain (joinPath [[], pre]) \<Longrightarrow>
      \<exists>P. view s' = view s |` {k. \<not> P k} \<and> (\<forall>k. P k \<longrightarrow> prefix (joinPath [[], pre]) k) \<and>
        (\<forall>k. prefix (joinPath [[], pre] @ ''/'') k \<longrightarrow> P k)"

sublocale etcd_server \<subseteq> etcd_meta: meta_kv "etcd_MetaKV C rangeEnd B fuel" store for rangeEnd B fuel
proof
  show "finite (dom (store s))" for s by (rule finite_store)
  show "s' = s \<and> store s (joinPath [[], key]) = Some v"
    if "kv_Load (etcd_MetaKV C rangeEnd B fuel) key s = (Inr v, s')" for key s v s'
    using that sorted_kvs_one [OF finite_store, of s "joinPath [rootPath, key]"]
    by (auto simp: etcd_MetaKV_def etcdKV_Load_def limited_def go_index_def split: sum.splits if_splits option.splits
        dest!: Get_ok)
  show "length vs = length ks \<and> zip ks vs = sorted_kvs (store s) (prefix (joinPath [[], pre]))"
    if "kv_LoadWithPrefix (etcd_MetaKV C rangeEnd B fuel) pre s = Some (Inr (ks, vs))" for pre s ks vs
    using that
    by (auto simp: etcd_MetaKV_def etcdKV_LoadWithPrefix_def limited_def zip_map_fst_snd split: sum.splits dest!: Get_ok)
  show "\<exists>P. store s' = store s |` {k. \<not> P k} \<and> (\<forall>k. P k \<longrightarrow> prefix (joinPath [[], pre]) k) \<and>
      (\<forall>k. prefix (joinPath [[], pre] @ ''/'') k \<longrightarrow> P k)"
    if "kv_RemoveWithPrefix (etcd_MetaKV C rangeEnd B fuel) pre s = (Inr (), s')" for pre s s'
  proof -
    let ?p = "joinPath [[], pre]"
    let ?q = "if HasSuffix ?p ''/'' then ?p else ?p @ ''/''"
    have "store s' = store s |` {k. \<not> prefix ?q k}"
      using RemoveWithPrefix_result [of pre s s'] that by (simp add: etcd_MetaKV_def Let_def)
    moreover have "prefix ?p ?q" "prefix ?q (?p @ ''/'')" by auto
    ultimately show ?thesis by (blast intro: prefix_order.trans)
  qed
qed (auto simp: etcd_MetaKV_def etcdKV_Save_def Put_ok Remove_result Remove_frame)

sublocale tikv_server \<subseteq> tikv_meta: meta_kv "tikv_MetaKV T B fuel" "tikv_view raw" for B fuel
proof
  show "finite (dom (tikv_view raw s))" for s by (simp add: finite_raw)
  show "s' = s \<and> tikv_view raw s (joinPath [[], key]) = Some v"
    if "kv_Load (tikv_MetaKV T B fuel) key s = (Inr v, s')" for key s v s'
    using that Load_result [of key s v s'] by (simp add: tikv_MetaKV_def)
  show "length vs = length ks \<and> zip ks vs = sorted_kvs (tikv_view raw s) (prefix (joinPath [[], pre]))"
    if "kv_LoadWithPrefix (tikv_MetaKV T B fuel) pre s = Some (Inr (ks, vs))" "ends_plain (joinPath [[], pre])"
    for pre s ks vs
    using that LoadWithPrefix_result [of fuel pre s ks vs] by (simp add: tikv_MetaKV_def zip_map_fst_snd)
  show "\<exists>P. tikv_view raw s' = tikv_view raw s |` {k. \<not> P k} \<and> (\<forall>k. P k \<longrightarrow> prefix (joinPath [[], pre]) k) \<and>
      (\<forall>k. prefix (joinPath [[], pre] @ ''/'') k \<longrightarrow> P k)"
    if "kv_RemoveWithPrefix (tikv_MetaKV T B fuel) pre s = (Inr (), s')" "ends_plain (joinPath [[], pre])" for pre s s'
    using that RemoveWithPrefix_result [of pre s s'] by (auto simp: tikv_MetaKV_def dest: append_prefixD)
qed (auto simp: tikv_MetaKV_def Save_result Remove_result Remove_frame)

section \<open>The log\<close>

text \<open>Appending to a file with room for the data.\<close>

definition append_file :: "bytes \<Rightarrow> os_file \<Rightarrow> os_file" where
  "append_file bs f = f\<lparr>content := content f @ bs, space := space f - length bs\<rparr>"

lemma append_file_simps [simp]:
  "content (append_file bs f) = content f @ bs"
  "space (append_file bs f) = space f - length bs"
  "append_file cs (append_file bs f) = append_file (bs @ cs) f"
  by (simp_all add: append_file_def)

lemma writeData_room: "length (frame data) \<le> space f \<Longrightarrow> writeData data f = append_file (frame data) f"
  by (cases data) (auto simp: writeData_def file_Write_def append_file_def frame_def)

lemma writeKeyValues_room:
  "length (frames (marshal_kv M) kvs) \<le> space f \<Longrightarrow>
   fold (\<lambda>(k, v). writeKeyValue M k v) kvs f = append_file (frames (marshal_kv M) kvs) f"
proof (induction kvs arbitrary: f)
  case Nil
  then show ?case by (simp add: frames_def append_file_def)
next
  case (Cons kv kvs)
  obtain k v where kv: "kv = (k, v)" by force
  have "writeKeyValue M k v f = append_file (frame (marshal_kv M k v)) f"
    using Cons.prems by (simp add: writeKeyValue_def writeLogKV_def writeData_room frames_def kv)
  with Cons show ?case by (simp add: kv frames_def)
qed

definition log_header :: "audit_codec \<Rightarrow> AuditOpType \<Rightarrow> i32 \<Rightarrow> bytes" where
  "log_header M op n = frame (marshal_header M 1 (AuditOpType_number op) n)"

lemma writeHeader_room: "length (log_header M op n) \<le> space f \<Longrightarrow> writeHeader M op n f = append_file (log_header M op n) f"
  by (simp add: writeHeader_def log_header_def writeData_room)

lemma writeKeyValue_room:
  "length (frame (marshal_kv M k v)) \<le> space f \<Longrightarrow> writeKeyValue M k v f = append_file (frame (marshal_kv M k v)) f"
  by (simp add: writeKeyValue_def writeLogKV_def writeData_room)

lemma map_of_sorted_kvs:
  assumes "finite (dom m)"
  shows "map_of (sorted_kvs m P) k = (if P k then m k else None)"
proof (cases "map_of (sorted_kvs m P) k")
  case None
  then have "(k, v) \<notin> set (sorted_kvs m P)" for v by (metis weak_map_of_SomeI option.distinct(1))
  then show ?thesis using None set_sorted_kvs [OF assms, of P] by (cases "m k") auto
next
  case (Some v)
  then have "(k, v) \<in> set (sorted_kvs m P)" by (rule map_of_SomeD)
  with Some show ?thesis using set_sorted_kvs [OF assms, of P] by simp
qed

context meta_kv
begin

lemma audit_Remove:
  assumes "FileAuditKV_Remove K M key (s, f) = (Inr (), s', f')"
  shows "\<exists>v. view s (joinPath [[], key]) = Some v \<and> view s' = (view s)(joinPath [[], key] := None) \<and>
    f' = writeKeyValue M key v (writeHeader M OpDel 1 f)"
  using assms
  by (auto simp: FileAuditKV_Remove_def split: prod.splits sum.splits dest!: Load Remove)

lemma audit_RemoveWithPrefix:
  assumes "FileAuditKV_RemoveWithPrefix K M pre (s, f) = Some (Inr (), s', f')" and "ends_plain (joinPath [[], pre])"
  shows "f' = fold (\<lambda>(k, v). writeKeyValue M k v) (sorted_kvs (view s) (prefix (joinPath [[], pre])))
      (writeHeader M OpDel 1 f) \<and>
    view s = view s' ++ map_of (sorted_kvs (view s) (prefix (joinPath [[], pre]))) \<and>
    (\<forall>k. prefix (joinPath [[], pre] @ ''/'') k \<longrightarrow> view s' k = None)"
proof -
  let ?es = "sorted_kvs (view s) (prefix (joinPath [[], pre]))"
  from assms obtain ks vs where load: "kv_LoadWithPrefix K pre s = Some (Inr (ks, vs))"
    and remove: "kv_RemoveWithPrefix K pre s = (Inr (), s')"
    and f': "f' = fold (\<lambda>(k, v). writeKeyValue M k v) (zip ks vs) (writeHeader M OpDel 1 f)"
    by (auto simp: FileAuditKV_RemoveWithPrefix_def split: option.splits sum.splits prod.splits)
  obtain P where P: "view s' = view s |` {k. \<not> P k}" "\<forall>k. P k \<longrightarrow> prefix (joinPath [[], pre]) k"
      "\<forall>k. prefix (joinPath [[], pre] @ ''/'') k \<longrightarrow> P k"
    using RemoveWithPrefix [OF remove assms(2)] by blast
  note m = map_of_sorted_kvs [OF view_finite, of s "prefix (joinPath [[], pre])"]
  have "view s = view s' ++ map_of ?es"
  proof
    show "view s k = (view s' ++ map_of ?es) k" for k
      using P(2) by (cases "view s k") (auto simp: m P(1) map_add_def restrict_map_def)
  qed
  moreover have "f' = fold (\<lambda>(k, v). writeKeyValue M k v) ?es (writeHeader M OpDel 1 f)"
    using f' LoadWithPrefix [OF load assms(2)] by simp
  moreover have "\<forall>k. prefix (joinPath [[], pre] @ ''/'') k \<longrightarrow> view s' k = None" using P(1,3) by simp
  ultimately show ?thesis by blast
qed

end

text \<open>
  Property C19. The audit log of removals is enough to undo them, over every store that keeps the
  contract of \<open>MetaKV\<close>: after a successful \<open>Remove\<close> or \<open>RemoveWithPrefix\<close> with room in the file, the log
  grew by a header and the removed entries with their old values, and putting the logged entries back
  gives the store as it was. A removal that fails logs nothing.
\<close>

theorem audit_removal_undo:
  assumes "meta_kv K view" and "ends_plain (joinPath [[], key])"
  shows "(\<forall>r s' f'. FileAuditKV_Remove K M key (s, f) = (r, s', f') \<longrightarrow> (case r of
      Inl e \<Rightarrow> f' = f
    | Inr _ \<Rightarrow> \<exists>v. view s = (view s')(joinPath [[], key] \<mapsto> v) \<and> view s' (joinPath [[], key]) = None \<and>
        (length (log_header M OpDel 1 @ frame (marshal_kv M key v)) \<le> space f \<longrightarrow>
          content f' = content f @ log_header M OpDel 1 @ frame (marshal_kv M key v)))) \<and>
    (\<forall>r s' f'. FileAuditKV_RemoveWithPrefix K M key (s, f) = Some (r, s', f') \<longrightarrow> (case r of
      Inl e \<Rightarrow> f' = f
    | Inr _ \<Rightarrow> \<exists>kvs. view s = view s' ++ map_of kvs \<and>
        (\<forall>k. prefix (joinPath [[], key] @ ''/'') k \<longrightarrow> view s' k = None) \<and>
        (length (log_header M OpDel 1 @ frames (marshal_kv M) kvs) \<le> space f \<longrightarrow>
          content f' = content f @ log_header M OpDel 1 @ frames (marshal_kv M) kvs)))"
proof (intro conjI allI impI)
  fix r s' f'
  assume run: "FileAuditKV_Remove K M key (s, f) = (r, s', f')"
  show "case r of Inl e \<Rightarrow> f' = f
    | Inr _ \<Rightarrow> \<exists>v. view s = (view s')(joinPath [[], key] \<mapsto> v) \<and> view s' (joinPath [[], key]) = None \<and>
        (length (log_header M OpDel 1 @ frame (marshal_kv M key v)) \<le> space f \<longrightarrow>
          content f' = content f @ log_header M OpDel 1 @ frame (marshal_kv M key v))"
  proof (cases r)
    case (Inl e)
    with run show ?thesis by (auto simp: FileAuditKV_Remove_def split: prod.splits sum.splits)
  next
    case (Inr u)
    with meta_kv.audit_Remove [OF assms(1)] run show ?thesis
      by (fastforce simp: writeHeader_room writeKeyValue_room)
  qed
next
  fix r s' f'
  assume run: "FileAuditKV_RemoveWithPrefix K M key (s, f) = Some (r, s', f')"
  show "case r of Inl e \<Rightarrow> f' = f
    | Inr _ \<Rightarrow> \<exists>kvs. view s = view s' ++ map_of kvs \<and>
        (\<forall>k. prefix (joinPath [[], key] @ ''/'') k \<longrightarrow> view s' k = None) \<and>
        (length (log_header M OpDel 1 @ frames (marshal_kv M) kvs) \<le> space f \<longrightarrow>
          content f' = content f @ log_header M OpDel 1 @ frames (marshal_kv M) kvs)"
  proof (cases r)
    case (Inl e)
    with run meta_kv.LoadWithPrefix [OF assms(1) _ assms(2)] show ?thesis
      by (fastforce simp: FileAuditKV_RemoveWithPrefix_def split: prod.splits sum.splits option.splits if_splits)
  next
    case (Inr u)
    let ?es = "sorted_kvs (view s) (prefix (joinPath [[], key]))"
    from meta_kv.audit_RemoveWithPrefix [OF assms(1) _ assms(2)] run Inr
    have "f' = fold (\<lambda>(k, v). writeKeyValue M k v) ?es (writeHeader M OpDel 1 f)"
      "view s = view s' ++ map_of ?es" "\<forall>k. prefix (joinPath [[], key] @ ''/'') k \<longrightarrow> view s' k = None" by simp_all
    moreover have "content (fold (\<lambda>(k, v). writeKeyValue M k v) kvs (writeHeader M OpDel 1 f)) =
        content f @ log_header M OpDel 1 @ frames (marshal_kv M) kvs"
      if "length (log_header M OpDel 1 @ frames (marshal_kv M) kvs) \<le> space f" for kvs
      using that by (simp add: writeHeader_room writeKeyValues_room)
    ultimately show ?thesis unfolding Inr sum.case by blast
  qed
qed

theorem audit_removal_undo_witness:
  "\<exists>v. map_of [(''a/b'', ''1'')] = ((map_of (fst (snd (FileAuditKV_Remove (etcd_MetaKV ref_client id
     \<lparr>encode_header = \<lambda>_ _ _ _. Inr [], encode_pair = \<lambda>_ _. Inr []\<rparr> 5 :: (_, unit) MetaKV)
     \<lparr>marshal_header = \<lambda>_ _ _. [1], marshal_kv = \<lambda>k v. bytes_of_string v\<rparr> ''a//b''
     ([(''a/b'', ''1'')], \<lparr>content = [], space = 100\<rparr>)))))(''a/b'' \<mapsto> v))"
proof -
  let ?B = "\<lparr>encode_header = \<lambda>_ _ _ _. Inr [], encode_pair = \<lambda>_ _. Inr []\<rparr>"
  let ?K = "etcd_MetaKV ref_client id ?B 5 :: (_, unit) MetaKV"
  let ?M = "\<lparr>marshal_header = \<lambda>_ _ _. [1], marshal_kv = \<lambda>k v. bytes_of_string v\<rparr>"
  let ?s = "[(''a/b'', ''1'')]" and ?f = "\<lparr>content = [], space = 100\<rparr>"
  have p: "joinPath [[], ''a//b''] = ''a/b''" by (simp add: joinPath_def path_Join_def path_Clean_def HasSuffix_def)
  have e: "ends_plain (joinPath [[], ''a//b''])" by (simp add: p ends_plain_def)
  have load: "kv_Load ?K ''a//b'' ?s = (Inr ''1'', ?s)"
    using ref.Load_result [OF ref_answers, of "''a//b''" ?s] p by (simp add: etcd_MetaKV_def read_result_def)
  have "\<exists>s'. kv_Remove ?K ''a//b'' ?s = (Inr (), s')"
    by (simp add: etcd_MetaKV_def etcdKV_Remove_def ref_client_def go_bind_def)
  then obtain s' f' where run: "FileAuditKV_Remove ?K ?M ''a//b'' (?s, ?f) = (Inr (), s', f')"
    using load by (auto simp: FileAuditKV_Remove_def)
  from audit_removal_undo [OF ref.etcd_meta.meta_kv_axioms e, of id ?B 5 ?M ?s ?f] run
  have "\<exists>v. map_of ?s = (map_of s')(''a/b'' \<mapsto> v)" unfolding p by fastforce
  then show ?thesis by (simp only: run fst_conv snd_conv)
qed

text \<open>
  What \<open>Save\<close> leaves in the audit log depends on the key, the new value and the outcome
  only: after a success, a put header for two entries, a \<^emph>\<open>before\<close> header followed by the \<^emph>\<open>new\<close> value, and an
  \<^emph>\<open>after\<close> header with no entry behind it; after a failure, the put header and the \<^emph>\<open>after\<close> header. The value
  that was overwritten is nowhere in the log, so a save, unlike a removal, cannot be undone from it.
\<close>

theorem audit_save_log:
  assumes "meta_kv K view" and "FileAuditKV_Save K M key value (s, f) = (r, s', f')"
    and "length (log_header M OpPut 2 @ log_header M OpPutBefore 1 @ frame (marshal_kv M key value) @
      log_header M OpPutAfter 1) \<le> space f"
  shows "content f' = content f @ log_header M OpPut 2 @
      (if isl r then [] else log_header M OpPutBefore 1 @ frame (marshal_kv M key value)) @
      log_header M OpPutAfter 1 \<and>
    (r = Inr () \<longrightarrow> view s' = (view s)(joinPath [[], key] \<mapsto> value))"
  using assms meta_kv.Save [OF assms(1), of key "value" s s']
  by (auto simp: FileAuditKV_Save_def Let_def writeHeader_room writeKeyValue_room split: prod.splits if_splits)

theorem audit_save_log_witness:
  "content (snd (snd (FileAuditKV_Save (etcd_MetaKV ref_client id
     \<lparr>encode_header = \<lambda>_ _ _ _. Inr [], encode_pair = \<lambda>_ _. Inr []\<rparr> 5 :: (_, unit) MetaKV)
     \<lparr>marshal_header = \<lambda>_ op _. [ucast op], marshal_kv = \<lambda>k v. bytes_of_string v\<rparr> ''a'' ''x''
     ([(''a'', ''1'')], \<lparr>content = [], space = 100\<rparr>)))) =
   [1, 0, 0, 0, 0, 0, 0, 0, 2,  1, 0, 0, 0, 0, 0, 0, 0, 3,  1, 0, 0, 0, 0, 0, 0, 0, 0x78,
    1, 0, 0, 0, 0, 0, 0, 0, 4]"
proof -
  let ?B = "\<lparr>encode_header = \<lambda>_ _ _ _. Inr [], encode_pair = \<lambda>_ _. Inr []\<rparr>"
  let ?K = "etcd_MetaKV ref_client id ?B 5 :: (_, unit) MetaKV"
  let ?M = "\<lparr>marshal_header = \<lambda>_ op _. [ucast op], marshal_kv = \<lambda>k v. bytes_of_string v\<rparr>"
  have "\<exists>s' f'. FileAuditKV_Save ?K ?M ''a'' ''x'' ([(''a'', ''1'')], \<lparr>content = [], space = 100\<rparr>) = (Inr (), s', f')"
    by (simp add: FileAuditKV_Save_def etcd_MetaKV_def etcdKV_Save_def ref_client_def)
  then obtain s' f' where
    run: "FileAuditKV_Save ?K ?M ''a'' ''x'' ([(''a'', ''1'')], \<lparr>content = [], space = 100\<rparr>) = (Inr (), s', f')" by blast
  have one: "put_le 8 (1 :: u64) = [1, 0, 0, 0, 0, 0, 0, 0]" by code_simp
  have "length (log_header ?M OpPut 2 @ log_header ?M OpPutBefore 1 @ frame (marshal_kv ?M ''a'' ''x'') @
      log_header ?M OpPutAfter 1) \<le> space \<lparr>content = [], space = 100\<rparr>"
    by (simp add: log_header_def frame_def)
  from audit_save_log [OF ref.etcd_meta.meta_kv_axioms run this] show ?thesis
    unfolding run snd_conv by (simp add: log_header_def frame_def bytes_of_string_def one)
qed

end
