(* ===== verification/Etcd_List.thy ===== *)
theory Etcd_List
  imports Kv_Audit Go_Strings
begin

text \<open>
  Reading typed objects from the metadata store (\<^verbatim>\<open>states/etcd/common\<close>): the generic listings of \<^verbatim>\<open>list.go\<close>
  and the functions of the small files built on them, over any \<open>MetaKV\<close>. Protobuf and JSON decoding are
  arguments; a decoded message together with its key is the pair that \<open>models.ProtoWrapper\<close> keeps.
\<close>

section \<open>Numbers in paths\<close>

lemma plain_part_format_int: "plain_part (format_int i)"
proof -
  have "slash \<notin> set (format_int i)" using format_int_chars [of slash i] by (auto simp: is_digit_def)
  moreover have "CHR ''.'' \<notin> set (format_int i)" using format_int_chars [of "CHR ''.''" i] by (auto simp: is_digit_def)
  moreover have "format_int i \<noteq> []" using format_nat_digits by (simp add: format_int_def)
  ultimately show ?thesis by (auto simp: plain_part_def)
qed

lemma plain_path_format_int [simp]: "plain_path (format_int i)"
  by (rule plain_pathI [OF plain_part_format_int])

section \<open>Programs over a store\<close>

text \<open>
  A function that calls the store may fail, may change the store, and may not have returned (\<open>None\<close>) while
  an operation of the store it calls has not.
\<close>

type_synonym ('s, 'a) prog = "'s \<Rightarrow> ('a result \<times> 's) option"

definition prog_return :: "'a \<Rightarrow> ('s, 'a) prog" where
  "prog_return a s = Some (Inr a, s)"

definition prog_fail :: "go_error \<Rightarrow> ('s, 'a) prog" where
  "prog_fail e s = Some (Inl e, s)"

definition prog_bind :: "('s, 'a) prog \<Rightarrow> ('a \<Rightarrow> ('s, 'b) prog) \<Rightarrow> ('s, 'b) prog" where
  "prog_bind m f s =
     (case m s of
        None \<Rightarrow> None
      | Some (Inl e, s') \<Rightarrow> Some (Inl e, s')
      | Some (Inr a, s') \<Rightarrow> f a s')"

definition prog_go :: "('s, 'a) go \<Rightarrow> ('s, 'a) prog" where
  "prog_go m s = Some (m s)"

definition prog_read :: "('s \<Rightarrow> 'a result option) \<Rightarrow> ('s, 'a) prog" where
  "prog_read m s = map_option (\<lambda>r. (r, s)) (m s)"

definition prog_lift :: "'a result \<Rightarrow> ('s, 'a) prog" where
  "prog_lift r s = Some (r, s)"

named_theorems prog_simps \<open>unfolding rules of programs over a store\<close>

lemma prog_unfold [prog_simps, simp]:
  "prog_return a s = Some (Inr a, s)"
  "prog_fail e s = Some (Inl e, s)"
  "prog_go m s = Some (m s)"
  "prog_lift r s = Some (r, s)"
  by (simp_all add: prog_return_def prog_fail_def prog_go_def prog_lift_def)

lemma prog_bind_simps [prog_simps]:
  "m s = None \<Longrightarrow> prog_bind m f s = None"
  "m s = Some (Inl e, s') \<Longrightarrow> prog_bind m f s = Some (Inl e, s')"
  "m s = Some (Inr a, s') \<Longrightarrow> prog_bind m f s = f a s'"
  by (simp_all add: prog_bind_def)

lemma prog_bind_Inr_iff:
  "prog_bind m f s = Some (Inr b, s'') \<longleftrightarrow> (\<exists>a s'. m s = Some (Inr a, s') \<and> f a s' = Some (Inr b, s''))"
  by (auto simp: prog_bind_def split: option.splits prod.splits sum.splits)

lemma prog_read_Some [simp]: "prog_read m s = Some (r, s') \<longleftrightarrow> m s = Some r \<and> s' = s"
  by (auto simp: prog_read_def)

text \<open>\<open>for _, x := range xs\<close> with a body that may return early with an error.\<close>

fun prog_for :: "'a list \<Rightarrow> ('a \<Rightarrow> ('s, unit) prog) \<Rightarrow> ('s, unit) prog" where
  "prog_for [] body = prog_return ()"
| "prog_for (x # xs) body = prog_bind (body x) (\<lambda>_. prog_for xs body)"

section \<open>list.go\<close>

text \<open>The loop of every listing: values that do not decode or fail a filter are left out.\<close>

fun list_loop :: "(string \<Rightarrow> 'p result) \<Rightarrow> ('p \<Rightarrow> bool) list \<Rightarrow> string list \<Rightarrow> 'p list" where
  "list_loop un filters [] = []"
| "list_loop un filters (val # vals) =
     (case un val of
        Inl _ \<Rightarrow> list_loop un filters vals
      | Inr elem \<Rightarrow>
          if list_all (\<lambda>f. f elem) filters then elem # list_loop un filters vals
          else list_loop un filters vals)"

definition ListJSONObjects :: "('s, 't) MetaKV \<Rightarrow> (string \<Rightarrow> 'p result) \<Rightarrow> string \<Rightarrow> ('p \<Rightarrow> bool) list \<Rightarrow>
    ('s, 'p list \<times> string list) prog" where
  "ListJSONObjects K un pre filters =
     prog_bind (prog_read (kv_LoadWithPrefix K pre)) (\<lambda>(ks, vals).
       if length ks \<noteq> length vals then prog_fail (Failure ''keys and vals of different size in ListJSONObjects'')
       else prog_return (list_loop un filters vals, ks))"

definition ListProtoObjects :: "('s, 't) MetaKV \<Rightarrow> (string \<Rightarrow> 'p result) \<Rightarrow> string \<Rightarrow> ('p \<Rightarrow> bool) list \<Rightarrow>
    ('s, 'p list \<times> string list) prog" where
  "ListProtoObjects K un pre filters =
     prog_bind (prog_read (kv_LoadWithPrefix K pre)) (\<lambda>(ks, vals).
       if length ks \<noteq> length vals then prog_fail (Failure ''keys and vals of different size in ListProtoObjects'')
       else prog_return (list_loop un filters vals, ks))"

text \<open>The pre-filter is a closure that may keep a state of its own.\<close>

fun adv_loop :: "(string \<Rightarrow> 'p result) \<Rightarrow> (string \<Rightarrow> string \<Rightarrow> 'c \<Rightarrow> bool \<times> 'c) \<Rightarrow> ('p \<Rightarrow> bool) list \<Rightarrow>
    (string \<times> string) list \<Rightarrow> 'c \<Rightarrow> 'p list \<times> 'c" where
  "adv_loop un preFilter filters [] c = ([], c)"
| "adv_loop un preFilter filters ((key, val) # kvs) c =
     (case preFilter key val c of
        (False, c') \<Rightarrow> adv_loop un preFilter filters kvs c'
      | (True, c') \<Rightarrow>
          (case adv_loop un preFilter filters kvs c' of (rest, c'') \<Rightarrow>
             (case un val of
                Inl _ \<Rightarrow> (rest, c'')
              | Inr elem \<Rightarrow> (if list_all (\<lambda>f. f elem) filters then elem # rest else rest, c''))))"

definition ListProtoObjectsAdv :: "('s, 't) MetaKV \<Rightarrow> (string \<Rightarrow> 'p result) \<Rightarrow> string \<Rightarrow>
    (string \<Rightarrow> string \<Rightarrow> 'c \<Rightarrow> bool \<times> 'c) \<Rightarrow> 'c \<Rightarrow> ('p \<Rightarrow> bool) list \<Rightarrow> ('s, 'p list \<times> string list \<times> 'c) prog" where
  "ListProtoObjectsAdv K un pre preFilter c filters =
     prog_bind (prog_read (kv_LoadWithPrefix K pre)) (\<lambda>(ks, vals).
       if length ks \<noteq> length vals then prog_fail (Failure ''keys and vals of different size in ListProtoObjectsAdv'')
       else case adv_loop un preFilter filters (zip ks vals) c of (result, c') \<Rightarrow> prog_return (result, ks, c'))"

text \<open>
  \<open>lo.FilterMap\<close> hands the callback the index of the element, with which it reads \<open>keys\<close>; there are never
  more decoded objects than keys.
\<close>

definition ListObj2Models :: "('s, 't) MetaKV \<Rightarrow> (string \<Rightarrow> 'p result) \<Rightarrow> string \<Rightarrow> ('p \<Rightarrow> string \<Rightarrow> 'm) \<Rightarrow>
    ('m \<Rightarrow> bool) list \<Rightarrow> ('s, 'm list) prog" where
  "ListObj2Models K un pre convert filters =
     prog_bind (ListProtoObjects K un pre []) (\<lambda>(infos, ks).
       prog_return (filter (\<lambda>m. list_all (\<lambda>f. f m) filters) (map (\<lambda>(info, k). convert info k) (zip infos ks))))"

text \<open>\<open>models.ProtoWrapper\<close>.\<close>

record 'p ProtoWrapper =
  wrapped_proto :: 'p
  wrapped_key :: string

definition NewProtoWrapper :: "'p \<Rightarrow> string \<Rightarrow> 'p ProtoWrapper" where
  "NewProtoWrapper p key = \<lparr>wrapped_proto = p, wrapped_key = key\<rparr>"

section \<open>Listings by prefix\<close>

definition ListIndex :: "('s, 't) MetaKV \<Rightarrow> (string \<Rightarrow> 'p result) \<Rightarrow> string \<Rightarrow> ('p ProtoWrapper \<Rightarrow> bool) list \<Rightarrow>
    ('s, 'p ProtoWrapper list) prog" where
  "ListIndex K un basePath = ListObj2Models K un (path_Join [basePath, ''field-index''] @ ''/'') NewProtoWrapper"

definition ListSegmentIndex :: "('s, 't) MetaKV \<Rightarrow> (string \<Rightarrow> 'p result) \<Rightarrow> string \<Rightarrow> ('p ProtoWrapper \<Rightarrow> bool) list \<Rightarrow>
    ('s, 'p ProtoWrapper list) prog" where
  "ListSegmentIndex K un basePath = ListObj2Models K un (path_Join [basePath, ''segment-index''] @ ''/'') NewProtoWrapper"

definition ListReplicas :: "('s, 't) MetaKV \<Rightarrow> (string \<Rightarrow> 'p result) \<Rightarrow> string \<Rightarrow> ('p ProtoWrapper \<Rightarrow> bool) list \<Rightarrow>
    ('s, 'p ProtoWrapper list) prog" where
  "ListReplicas K un basePath = ListObj2Models K un (path_Join [basePath, ''querycoord-replica''] @ ''/'') NewProtoWrapper"

definition ListChannelCheckpoint :: "('s, 't) MetaKV \<Rightarrow> (string \<Rightarrow> 'p result) \<Rightarrow> string \<Rightarrow>
    ('p ProtoWrapper \<Rightarrow> bool) list \<Rightarrow> ('s, 'p ProtoWrapper list) prog" where
  "ListChannelCheckpoint K un basePath =
     ListObj2Models K un (path_Join [basePath, ''datacoord-meta'', ''channel-cp''] @ ''/'') NewProtoWrapper"

definition ListChannelWatch :: "('s, 't) MetaKV \<Rightarrow> (string \<Rightarrow> 'p result) \<Rightarrow> string \<Rightarrow> ('p ProtoWrapper \<Rightarrow> bool) list \<Rightarrow>
    ('s, 'p ProtoWrapper list) prog" where
  "ListChannelWatch K un basePath = ListObj2Models K un (path_Join [basePath, ''channelwatch''] @ ''/'') NewProtoWrapper"

definition ListDatabase :: "('s, 't) MetaKV \<Rightarrow> (string \<Rightarrow> 'p result) \<Rightarrow> string \<Rightarrow> ('p ProtoWrapper \<Rightarrow> bool) list \<Rightarrow>
    ('s, 'p ProtoWrapper list) prog" where
  "ListDatabase K un basePath =
     ListObj2Models K un (path_Join [basePath, ''root-coord'', ''database'', ''db-info''] @ ''/'') NewProtoWrapper"

definition ListCollectionPartitions :: "('s, 't) MetaKV \<Rightarrow> (string \<Rightarrow> 'p result) \<Rightarrow> string \<Rightarrow> i64 \<Rightarrow>
    ('s, 'p ProtoWrapper list) prog" where
  "ListCollectionPartitions K un basePath collectionID =
     ListObj2Models K un (path_Join [basePath, ''root-coord'', ''partitions'', format_int (sint collectionID)] @ ''/'')
       NewProtoWrapper []"

definition ListPartitions :: "('s, 't) MetaKV \<Rightarrow> (string \<Rightarrow> 'p result) \<Rightarrow> string \<Rightarrow> ('p ProtoWrapper \<Rightarrow> bool) list \<Rightarrow>
    ('s, 'p ProtoWrapper list) prog" where
  "ListPartitions K un basePath =
     ListObj2Models K un (path_Join [basePath, ''root-coord'', ''partitions''] @ ''/'') NewProtoWrapper"

definition ListPartitionLoadedInfo :: "('s, 't) MetaKV \<Rightarrow> (string \<Rightarrow> 'p result) \<Rightarrow> string \<Rightarrow>
    ('p ProtoWrapper \<Rightarrow> bool) list \<Rightarrow> ('s, 'p ProtoWrapper list) prog" where
  "ListPartitionLoadedInfo K un basePath =
     ListObj2Models K un (path_Join [basePath, ''querycoord-partition-loadinfo'']) NewProtoWrapper"

definition ListCollectionLoadedInfo :: "('s, 't) MetaKV \<Rightarrow> (string \<Rightarrow> 'p result) \<Rightarrow> string \<Rightarrow>
    ('p ProtoWrapper \<Rightarrow> bool) list \<Rightarrow> ('s, 'p ProtoWrapper list) prog" where
  "ListCollectionLoadedInfo K un basePath =
     ListObj2Models K un (path_Join [basePath, ''querycoord-collection-loadinfo'']) NewProtoWrapper"

definition ListCompactionTask :: "('s, 't) MetaKV \<Rightarrow> (string \<Rightarrow> 'p result) \<Rightarrow> string \<Rightarrow> ('p ProtoWrapper \<Rightarrow> bool) list \<Rightarrow>
    ('s, 'p ProtoWrapper list) prog" where
  "ListCompactionTask K un basePath =
     ListObj2Models K un (path_Join [basePath, ''datacoord-meta'', ''compaction-task''] @ ''/'') NewProtoWrapper"

definition ListStatsTask :: "('s, 't) MetaKV \<Rightarrow> (string \<Rightarrow> 'p result) \<Rightarrow> string \<Rightarrow> ('p ProtoWrapper \<Rightarrow> bool) list \<Rightarrow>
    ('s, 'p ProtoWrapper list) prog" where
  "ListStatsTask K un basePath =
     ListObj2Models K un (path_Join [basePath, ''datacoord-meta'', ''stats-task''] @ ''/'') NewProtoWrapper"

definition ListResourceGroups :: "('s, 't) MetaKV \<Rightarrow> (string \<Rightarrow> 'p result) \<Rightarrow> string \<Rightarrow> ('p ProtoWrapper \<Rightarrow> bool) list \<Rightarrow>
    ('s, 'p ProtoWrapper list) prog" where
  "ListResourceGroups K un basePath =
     ListObj2Models K un (path_Join [basePath, ''queryCoord-ResourceGroup/''] @ ''/'') NewProtoWrapper"

definition ListImportJobs :: "('s, 't) MetaKV \<Rightarrow> (string \<Rightarrow> 'p result) \<Rightarrow> string \<Rightarrow> ('p ProtoWrapper \<Rightarrow> bool) list \<Rightarrow>
    ('s, 'p ProtoWrapper list) prog" where
  "ListImportJobs K un basePath =
     ListObj2Models K un (path_Join [basePath, ''datacoord-meta/import-job''] @ ''/'') NewProtoWrapper"

definition ListPreImportTasks :: "('s, 't) MetaKV \<Rightarrow> (string \<Rightarrow> 'p result) \<Rightarrow> string \<Rightarrow> ('p ProtoWrapper \<Rightarrow> bool) list \<Rightarrow>
    ('s, 'p ProtoWrapper list) prog" where
  "ListPreImportTasks K un basePath =
     ListObj2Models K un (path_Join [basePath, ''datacoord-meta/preimport-task''] @ ''/'') NewProtoWrapper"

definition ListImportTasks :: "('s, 't) MetaKV \<Rightarrow> (string \<Rightarrow> 'p result) \<Rightarrow> string \<Rightarrow> ('p ProtoWrapper \<Rightarrow> bool) list \<Rightarrow>
    ('s, 'p ProtoWrapper list) prog" where
  "ListImportTasks K un basePath =
     ListObj2Models K un (path_Join [basePath, ''datacoord-meta/import-task''] @ ''/'') NewProtoWrapper"

definition ListAlias :: "('s, 't) MetaKV \<Rightarrow> (string \<Rightarrow> 'p result) \<Rightarrow> ('p \<Rightarrow> string \<Rightarrow> 'm) \<Rightarrow> string \<Rightarrow>
    ('m \<Rightarrow> bool) list \<Rightarrow> ('s, 'm list) prog" where
  "ListAlias K un NewAlias basePath filters =
     prog_bind (ListObj2Models K un (path_Join [basePath, ''root-coord/aliases'']) NewAlias filters) (\<lambda>a.
     prog_bind (ListObj2Models K un (path_Join [basePath, ''root-coord/database/alias'']) NewAlias filters) (\<lambda>b.
       prog_return (a @ b)))"

definition ListUsers :: "('s, 't) MetaKV \<Rightarrow> (string \<Rightarrow> 'p result) \<Rightarrow> string \<Rightarrow> ('s, ('p \<times> string) list) prog" where
  "ListUsers K un basePath =
     prog_bind (ListJSONObjects K un (path_Join [basePath, ''root-coord/credential/users'']) []) (\<lambda>(infos, ks).
       prog_return (zip infos ks))"

section \<open>Which key an object gets\<close>

definition decodes :: "(string \<Rightarrow> 'p result) \<Rightarrow> string \<Rightarrow> bool" where
  "decodes un v \<longleftrightarrow> \<not> isl (un v)"

definition decoded :: "(string \<Rightarrow> 'p result) \<Rightarrow> string \<Rightarrow> 'p" where
  "decoded un v = projr (un v)"

lemma list_loop_all: "list_loop un [] vals = map (decoded un) (filter (decodes un) vals)"
  by (induction vals) (auto simp: decodes_def decoded_def split: sum.splits)

lemma ListProtoObjects_result:
  assumes "kv_LoadWithPrefix K pre s = Some (Inr (map fst es, map snd es))"
  shows "ListProtoObjects K un pre [] s =
    Some (Inr (map (decoded un) (filter (decodes un) (map snd es)), map fst es), s)"
  using assms by (simp add: ListProtoObjects_def prog_bind_def prog_read_def list_loop_all)

lemma ListObj2Models_result:
  assumes "kv_LoadWithPrefix K pre s = Some (Inr (map fst es, map snd es))"
  shows "ListObj2Models K un pre convert filters s =
    Some (Inr (filter (\<lambda>m. list_all (\<lambda>f. f m) filters)
      (map (\<lambda>(info, k). convert info k)
        (zip (map (decoded un) (filter (decodes un) (map snd es))) (map fst es)))), s)"
  using ListProtoObjects_result [OF assms, of un] by (simp add: ListObj2Models_def prog_bind_def)

lemma zip_decoded_all:
  assumes "\<forall>(k, v) \<in> set es. decodes un v"
  shows "zip (map (decoded un) (filter (decodes un) (map snd es))) (map fst es) =
    map (\<lambda>(k, v). (decoded un v, k)) es"
  using assms by (induction es) auto

text \<open>One value that does not decode shifts the keys of all objects behind it.\<close>

lemma zip_decoded_shift:
  assumes "\<forall>(k, v) \<in> set es. decodes un v" and "\<not> decodes un v0" and "decodes un v1"
  shows "zip (map (decoded un) (filter (decodes un) (map snd (es @ (k0, v0) # (k1, v1) # es'))))
      (map fst (es @ (k0, v0) # (k1, v1) # es')) ! length es = (decoded un v1, k0)"
proof -
  have "filter (decodes un) (map snd es) = map snd es"
    using assms(1) by (auto simp: filter_id_conv)
  then show ?thesis using assms(2,3) by (simp add: nth_append)
qed

context meta_kv
begin

text \<open>A read that returned gave the entries with the prefix.\<close>

lemma load_entries:
  assumes "kv_LoadWithPrefix K pre s = Some (Inr r)" and "ends_plain (joinPath [[], pre])"
  shows "r = (map fst (sorted_kvs (view s) (prefix (joinPath [[], pre]))),
    map snd (sorted_kvs (view s) (prefix (joinPath [[], pre]))))"
proof -
  obtain ks vs where r: "r = (ks, vs)" by force
  from LoadWithPrefix [OF assms(1) [unfolded r] assms(2)] show ?thesis
    unfolding r by (metis map_fst_zip map_snd_zip)
qed

end

section \<open>A store to try the operations on\<close>

definition ref_kv :: "((string \<times> string) list, 't) MetaKV" where
  "ref_kv = etcd_MetaKV ref_client next_key \<lparr>encode_header = \<lambda>_ _ _ _. Inr [], encode_pair = \<lambda>_ _. Inr []\<rparr> 5"

lemma ref_kv_ops [simp]:
  "kv_Save ref_kv key v s = (Inr (), AList.update (joinPath [[], key]) v s)"
  "kv_Remove ref_kv key s = (Inr (), filter (\<lambda>(k, v). k \<noteq> joinPath [[], key]) s)"
  "kv_LoadWithPrefix ref_kv pre s = Some (Inr (map fst (sorted_kvs (map_of s) (prefix (joinPath [[], pre]))),
     map snd (sorted_kvs (map_of s) (prefix (joinPath [[], pre])))))"
  "kv_Load ref_kv key s = (read_result (map_of s) (joinPath [[], key]), s)"
  using ref.LoadWithPrefix_result [OF ref_answers, of pre s] ref.Load_result [OF ref_answers, of key s]
  by (simp_all add: ref_kv_def etcd_MetaKV_def etcdKV_Save_def etcdKV_Remove_def ref_client_def go_bind_def go_return_def)

lemma ref_kv_meta: "meta_kv (ref_kv :: (_, unit) MetaKV) map_of"
  unfolding ref_kv_def by (rule ref.etcd_meta.meta_kv_axioms)

lemma sorted_kvs_empty [simp]: "sorted_kvs Map.empty P = []"
  using sorted_kvs_alist [of "[]" P] by simp

section \<open>Keys of listed objects\<close>

text \<open>
  Property C24. A listing builds every model from the value and the key of one and the same entry as long
  as all values below the prefix decode. As soon as one does not (a tombstone, say), the objects behind
  it get the key of the entry before theirs.
\<close>

theorem ListObj2Models_keys:
  assumes "meta_kv K view" and "ends_plain (joinPath [[], pre])" and "kv_LoadWithPrefix K pre s = Some (Inr r)"
    and "es = sorted_kvs (view s) (prefix (joinPath [[], pre]))"
  shows "((\<forall>(k, v) \<in> set es. decodes un v) \<longrightarrow>
      ListObj2Models K un pre convert filters s =
        Some (Inr (filter (\<lambda>m. list_all (\<lambda>f. f m) filters) (map (\<lambda>(k, v). convert (decoded un v) k) es)), s)) \<and>
    (\<forall>es1 k0 v0 k1 v1 es2. es = es1 @ (k0, v0) # (k1, v1) # es2 \<longrightarrow>
      (\<forall>(k, v) \<in> set es1. decodes un v) \<longrightarrow> \<not> decodes un v0 \<longrightarrow> decodes un v1 \<longrightarrow>
      (\<exists>ms. ListObj2Models K un pre Pair [] s = Some (Inr ms, s) \<and> ms ! length es1 = (decoded un v1, k0)))"
proof -
  have load: "kv_LoadWithPrefix K pre s = Some (Inr (map fst es, map snd es))"
    using meta_kv.load_entries [OF assms(1,3,2)] assms(3,4) by simp
  note result = ListObj2Models_result [OF load]
  have "ListObj2Models K un pre convert filters s =
      Some (Inr (filter (\<lambda>m. list_all (\<lambda>f. f m) filters) (map (\<lambda>(k, v). convert (decoded un v) k) es)), s)"
    if "\<forall>(k, v) \<in> set es. decodes un v"
    using result [of un convert filters] zip_decoded_all [OF that] by (simp add: case_prod_unfold comp_def)
  moreover have "\<exists>ms. ListObj2Models K un pre Pair [] s = Some (Inr ms, s) \<and> ms ! length es1 = (decoded un v1, k0)"
    if "es = es1 @ (k0, v0) # (k1, v1) # es2" "\<forall>(k, v) \<in> set es1. decodes un v" "\<not> decodes un v0" "decodes un v1"
    for es1 k0 v0 k1 v1 es2
    using result [of un Pair "[]"] zip_decoded_shift [OF that(2-4), of k0 k1 es2] by (simp add: that(1))
  ultimately show ?thesis by blast
qed

theorem ListObj2Models_keys_witness:
  "\<exists>ms. ListObj2Models (etcd_MetaKV ref_client id \<lparr>encode_header = \<lambda>_ _ _ _. Inr [], encode_pair = \<lambda>_ _. Inr []\<rparr> 5
       :: (_, unit) MetaKV) (\<lambda>v. if v = ''bad'' then Inl EOF else Inr v) ''a/'' Pair []
       [(''a/x'', ''bad''), (''a/y'', ''1'')] = Some (Inr ms, [(''a/x'', ''bad''), (''a/y'', ''1'')]) \<and>
     ms ! 0 = (''1'', ''a/x'')"
proof -
  let ?B = "\<lparr>encode_header = \<lambda>_ _ _ _. Inr [], encode_pair = \<lambda>_ _. Inr []\<rparr>"
  let ?K = "etcd_MetaKV ref_client id ?B 5 :: (_, unit) MetaKV"
  let ?s = "[(''a/x'', ''bad''), (''a/y'', ''1'')]"
  have pp: "plain_path ''a''" by (simp add: plain_path_def plain_part_def)
  have p: "joinPath [[], ''a/''] = ''a/''" using joinPath_plain(2) [OF pp] by simp
  have "sorted_wrt (<) (map fst ?s)" by (simp add: less_char_def)
  then have es: "sorted_kvs (map_of ?s) (prefix (joinPath [[], ''a/''])) = [] @ (''a/x'', ''bad'') # (''a/y'', ''1'') # []"
    unfolding p by (subst sorted_kvs_alist) simp_all
  have "ends_plain (joinPath [[], ''a/''])" by (simp add: p ends_plain_def)
  moreover have "kv_LoadWithPrefix ?K ''a/'' ?s = Some (Inr (map fst (sorted_kvs (map_of ?s) (prefix (joinPath [[], ''a/'']))),
      map snd (sorted_kvs (map_of ?s) (prefix (joinPath [[], ''a/''])))))"
    using ref.LoadWithPrefix_result [OF ref_answers, of "''a/''" ?s] by (simp add: etcd_MetaKV_def)
  ultimately show ?thesis
    using ListObj2Models_keys [OF ref.etcd_meta.meta_kv_axioms _ _ refl, of "''a/''" id ?B 5 ?s _
        "\<lambda>v. if v = ''bad'' then Inl EOF else Inr v"] es
    by (fastforce simp: decodes_def decoded_def)
qed

end
