(* ===== verification/Etcd_Objects.thy ===== *)
theory Etcd_Objects
  imports Etcd_List
begin

text \<open>
  The remaining small files of \<^verbatim>\<open>states/etcd/common\<close>: sessions, dynamic configuration, channel watch entries,
  WAL broadcast tasks and channels, collection history, path parts and key-value lists.
\<close>

section \<open>Sessions\<close>

record Session =
  ServerID :: i64
  ServerName :: string
  Address :: string
  Exclusive :: bool
  ses_Version :: string
  HostName :: string
  LeaseID :: i64
  ses_key :: string

definition Session_SetKey :: "string \<Rightarrow> Session \<Rightarrow> Session" where
  "Session_SetKey key s = s\<lparr>ses_key := key\<rparr>"

definition Session_IsMain :: "Session \<Rightarrow> string \<Rightarrow> bool" where
  "Session_IsMain s component = (last (split_on slash (ses_key s)) = component)"

definition Session_String :: "Session \<Rightarrow> string" where
  "Session_String s = ''Session:'' @ ServerName s @ '', ServerID: '' @ format_int (sint (ServerID s)) @
     '', Version: '' @ ses_Version s @ '', Address: '' @ Address s"

text \<open>Here the key is read with the index of the value, so a value that does not decode shifts nothing.\<close>

fun sessions_loop :: "(string \<Rightarrow> Session result) \<Rightarrow> (string \<times> string) list \<Rightarrow> Session list" where
  "sessions_loop un [] = []"
| "sessions_loop un ((key, val) # kvs) =
     (case un val of
        Inl _ \<Rightarrow> sessions_loop un kvs
      | Inr session \<Rightarrow> Session_SetKey key session # sessions_loop un kvs)"

definition ListSessionsByPrefix :: "('s, 't) MetaKV \<Rightarrow> (string \<Rightarrow> Session result) \<Rightarrow> string \<Rightarrow> ('s, Session list) prog"
  where
  "ListSessionsByPrefix K un pre =
     prog_bind (prog_read (kv_LoadWithPrefix K pre)) (\<lambda>(ks, vals).
       if length ks < length vals then prog_fail (Panic ''index out of range'')
       else prog_return (sessions_loop un (zip ks vals)))"

definition ListSessions :: "('s, 't) MetaKV \<Rightarrow> (string \<Rightarrow> Session result) \<Rightarrow> string \<Rightarrow> ('s, Session list) prog" where
  "ListSessions K un basePath = ListSessionsByPrefix K un (path_Join [basePath, ''session''])"

definition ListServers :: "('s, 't) MetaKV \<Rightarrow> (string \<Rightarrow> Session result) \<Rightarrow> string \<Rightarrow> string \<Rightarrow> ('s, Session list) prog"
  where
  "ListServers K un basePath serverName =
     prog_bind (ListSessions K un basePath) (\<lambda>sessions.
       prog_return (filter (\<lambda>session. ServerName session = serverName) sessions))"

section \<open>Dynamic configuration\<close>

definition ListEtcdConfigs :: "('s, 't) MetaKV \<Rightarrow> string \<Rightarrow> ('s, string list \<times> string list) prog" where
  "ListEtcdConfigs K basePath = prog_read (kv_LoadWithPrefix K (path_Join [basePath, ''config'']))"

definition GetEtcdConfig :: "('s, 't) MetaKV \<Rightarrow> string \<Rightarrow> string \<Rightarrow> ('s, string) prog" where
  "GetEtcdConfig K basePath key = prog_go (kv_Load K (path_Join [basePath, ''config'', key]))"

definition SetEtcdConfig :: "('s, 't) MetaKV \<Rightarrow> string \<Rightarrow> string \<Rightarrow> string \<Rightarrow> ('s, unit) prog" where
  "SetEtcdConfig K basePath key val = prog_go (kv_Save K (path_Join [basePath, ''config'', key]) val)"

definition RemoveEtcdConfig :: "('s, 't) MetaKV \<Rightarrow> string \<Rightarrow> string \<Rightarrow> ('s, unit) prog" where
  "RemoveEtcdConfig K basePath key = prog_go (kv_Remove K (path_Join [basePath, ''config'', key]))"

section \<open>Channels\<close>

text \<open>\<open>math.MinInt64\<close> printed in decimal is the node the channel is watched for.\<close>

definition SetChannelWatch :: "('s, 't) MetaKV \<Rightarrow> (i64 \<Rightarrow> string \<Rightarrow> 'sch \<Rightarrow> string result) \<Rightarrow> string \<Rightarrow> string \<Rightarrow>
    i64 \<Rightarrow> 'sch \<Rightarrow> ('s, unit) prog" where
  "SetChannelWatch K marshal basePath channelName collectionID schema =
     prog_bind (prog_go (kv_Save K (path_Join [basePath, ''datacoord-meta'', ''channel-removal'', channelName])
       ''non-removed'')) (\<lambda>_.
     prog_bind (prog_lift (marshal collectionID channelName schema)) (\<lambda>bs.
       prog_go (kv_Save K (path_Join [basePath, ''channelwatch'', format_int (- (2 ^ 63)), channelName]) bs)))"

definition WriteChannelWatchInfo :: "('s, 't) MetaKV \<Rightarrow> ('p \<Rightarrow> string result) \<Rightarrow> 'p ProtoWrapper \<Rightarrow> ('s, unit) prog"
  where
  "WriteChannelWatchInfo K marshal info =
     prog_bind (prog_lift (marshal (wrapped_proto info))) (\<lambda>bs. prog_go (kv_Save K (wrapped_key info) bs))"

section \<open>WAL channels and broadcast tasks\<close>

definition ListWALDistribution :: "('s, 't) MetaKV \<Rightarrow> (string \<Rightarrow> 'p result) \<Rightarrow> string \<Rightarrow> string \<Rightarrow> ('s, 'p list) prog"
  where
  "ListWALDistribution K un basePath pchannel =
     (let pre = (if 0 < length pchannel then path_Join [basePath, ''streamingcoord-meta/pchannel/'', pchannel]
                 else path_Join [basePath, ''streamingcoord-meta/pchannel/''] @ ''/'')
      in prog_bind (ListProtoObjects K un pre []) (\<lambda>(metas, _). prog_return metas))"

definition ListWalBroadcast :: "('s, 't) MetaKV \<Rightarrow> (string \<Rightarrow> 'p result) \<Rightarrow> string \<Rightarrow> ('s, 'p list) prog" where
  "ListWalBroadcast K un basePath =
     prog_bind (ListProtoObjects K un (path_Join [basePath, ''streamingcoord-meta/broadcast-task/''] @ ''/'') [])
       (\<lambda>(metas, _). prog_return metas)"

definition ErrBroadcastTaskNotFound :: go_error where
  "ErrBroadcastTaskNotFound = Failure ''broadcast task not found''"

definition broadcast_path :: "string \<Rightarrow> i64 \<Rightarrow> string" where
  "broadcast_path basePath broadcastID =
     path_Join [basePath, ''streamingcoord-meta/broadcast-task/'', format_int (sint broadcastID)]"

definition ListWalBroadcastByID :: "('s, 't) MetaKV \<Rightarrow> (string \<Rightarrow> 'p result) \<Rightarrow> string \<Rightarrow> i64 \<Rightarrow> ('s, 'p) prog" where
  "ListWalBroadcastByID K un basePath broadcastID =
     prog_bind (ListProtoObjects K un (broadcast_path basePath broadcastID) []) (\<lambda>(metas, _).
       case metas of [] \<Rightarrow> prog_fail ErrBroadcastTaskNotFound | m # _ \<Rightarrow> prog_return m)"

definition SaveWalBroadcastTask :: "('s, 't) MetaKV \<Rightarrow> ('p \<Rightarrow> string result) \<Rightarrow> string \<Rightarrow> i64 \<Rightarrow> 'p \<Rightarrow> ('s, unit) prog"
  where
  "SaveWalBroadcastTask K marshal basePath broadcastID task =
     prog_bind (prog_lift (marshal task)) (\<lambda>bs. prog_go (kv_Save K (broadcast_path basePath broadcastID) bs))"

definition RemoveWalBroadcastTask :: "('s, 't) MetaKV \<Rightarrow> string \<Rightarrow> i64 \<Rightarrow> ('s, unit) prog" where
  "RemoveWalBroadcastTask K basePath broadcastID =
     prog_go (kv_RemoveWithPrefix K (broadcast_path basePath broadcastID))"

definition ListReplicateConfiguration :: "('s, 't) MetaKV \<Rightarrow> (string \<Rightarrow> 'p result) \<Rightarrow> string \<Rightarrow> ('s, 'p) prog" where
  "ListReplicateConfiguration K un basePath =
     prog_bind (ListProtoObjects K un (path_Join [basePath, ''streamingcoord-meta/replicate-configuration'']) [])
       (\<lambda>(metas, _). prog_lift (go_index metas 0))"

definition ListReplicatePChannel :: "('s, 't) MetaKV \<Rightarrow> (string \<Rightarrow> 'p result) \<Rightarrow> string \<Rightarrow> ('s, 'p list) prog" where
  "ListReplicatePChannel K un basePath =
     prog_bind (ListProtoObjects K un (path_Join [basePath, ''streamingcoord-meta/replicating-pchannel/''] @ ''/'') [])
       (\<lambda>(metas, _). prog_return metas)"

section \<open>Collection history\<close>

definition CollectionTombstone :: string where
  "CollectionTombstone = [CHR 0xE2, CHR 0x9B, CHR 0xBC]"

definition parseHistoryTs :: "string \<Rightarrow> u64" where
  "parseHistoryTs entry =
     (let parts = Split entry ''_ts''
      in if length parts \<noteq> 2 then 0 else ParseUint64_value (parts ! 1))"

definition history_filter :: "string \<Rightarrow> string \<Rightarrow> string list \<Rightarrow> bool \<times> string list" where
  "history_filter key val dropped =
     (let isTombstone = (val = CollectionTombstone)
      in (\<not> isTombstone, if isTombstone then dropped @ [key] else dropped))"

definition ListHistoryCollection :: "('s, 't) MetaKV \<Rightarrow> (string \<Rightarrow> 'p result) \<Rightarrow> string \<Rightarrow>
    ('s, 'p list \<times> string list \<times> string list) prog" where
  "ListHistoryCollection K un pre = ListProtoObjectsAdv K un pre history_filter [] []"

text \<open>The fields of a collection the program reads here.\<close>

datatype CollectionState = CollectionCreated | CollectionCreating | CollectionDropping | CollectionDropped

record CollectionInfo =
  coll_ID :: i64
  coll_State :: CollectionState

datatype CollectionHistory = History "CollectionInfo ProtoWrapper" u64 | HistoryDropped u64

definition ListCollectionHistory :: "('s, 't) MetaKV \<Rightarrow> (string \<Rightarrow> CollectionInfo result) \<Rightarrow> string \<Rightarrow> i64 \<Rightarrow> i64 \<Rightarrow>
    ('s, CollectionHistory list) prog" where
  "ListCollectionHistory K un basePath dbID collectionID =
     (let pre = (if dbID = 0
           then path_Join [basePath, ''snapshots/root-coord/collection'', format_int (sint collectionID)]
           else path_Join [basePath, ''snapshots/root-coord/database/collection-info'', format_int (sint dbID),
                  format_int (sint collectionID)])
      in prog_bind (ListHistoryCollection K un pre) (\<lambda>(colls, paths, dropped).
           prog_return (map (\<lambda>(coll, p). History (NewProtoWrapper coll p) (parseHistoryTs p)) (zip colls paths) @
             map (\<lambda>p. HistoryDropped (parseHistoryTs p)) dropped)))"

text \<open>Errors of the single removals are dropped.\<close>

definition ignore_result :: "('s, 'a) go \<Rightarrow> ('s, unit) prog" where
  "ignore_result m s = Some (Inr (), snd (m s))"

definition RemoveCollectionHistory :: "('s, 't) MetaKV \<Rightarrow> (string \<Rightarrow> CollectionInfo result) \<Rightarrow> string \<Rightarrow> i64 \<Rightarrow>
    ('s, unit) prog" where
  "RemoveCollectionHistory K un basePath collectionID =
     prog_bind (ListHistoryCollection K un
         (path_Join [basePath, ''snapshots/root-coord/collection'', format_int (sint collectionID)]))
       (\<lambda>(colls, paths, _).
          prog_for (zip colls paths) (\<lambda>(coll, p).
            if coll_ID coll \<noteq> collectionID then prog_return ()
            else if coll_State coll = CollectionDropped \<or> coll_State coll = CollectionDropping
            then ignore_result (kv_Remove K p)
            else prog_return ()))"

section \<open>Path parts and pairs\<close>

text \<open>The guard asks for an index that is negative and too large at once, so it never holds.\<close>

definition PathPart :: "string \<Rightarrow> int \<Rightarrow> string result" where
  "PathPart p idx =
     (let parts = split_on slash p;
          i = (if idx < 0 then int (length parts) + idx else idx)
      in if i < 0 \<and> int (length parts) \<le> i then Inl (Failure ''out of index'')
         else go_index parts i)"

definition PathPartInt64 :: "string \<Rightarrow> int \<Rightarrow> int result" where
  "PathPartInt64 p idx = res_bind (PathPart p idx) (ParseInt 64)"

fun GetKVPair :: "(string \<times> string) list \<Rightarrow> string \<Rightarrow> string" where
  "GetKVPair [] key = []"
| "GetKVPair ((k, v) # pairs) key = (if k = key then v else GetKVPair pairs key)"

definition KVListMap :: "(string \<times> string) list \<Rightarrow> string \<Rightarrow> string option" where
  "KVListMap pairs = foldl (\<lambda>m (k, v). m(k \<mapsto> v)) Map.empty pairs"

end
