(* ===== verification/Etcd_Segment.thy ===== *)
theory Etcd_Segment
  imports Etcd_Objects Storage_Select
begin

text \<open>
  Segments in the metadata store (\<^verbatim>\<open>states/etcd/common/segment.go\<close>, \<^verbatim>\<open>models/segment.go\<close>) and the commands that
  remove them (\<^verbatim>\<open>states/etcd/remove/segment.go\<close>, \<^verbatim>\<open>segment_orphan.go\<close>, \<^verbatim>\<open>dirty_importing_segment.go\<close>,
  \<^verbatim>\<open>states/etcd/repair/segment_empty.go\<close>). A protobuf segment is a record of the fields the program uses, its
  encoding an argument.
\<close>

section \<open>Segment info\<close>

datatype SegmentState = SegmentStateNone | NotExist | Growing | Sealed | Flushed | Flushing | Dropped | Importing

record SegmentInfo =
  si_ID :: i64
  si_CollectionID :: i64
  si_PartitionID :: i64
  si_State :: SegmentState
  si_NumOfRows :: i64
  si_InsertChannel :: string
  si_StartPosition :: "MsgPosition option"
  si_DmlPosition :: "MsgPosition option"
  si_Binlogs :: "FieldBinlog list"
  si_Statslogs :: "FieldBinlog list"
  si_Deltalogs :: "FieldBinlog list"

text \<open>The getters of the generated code read a nil position as time 0.\<close>

definition GetTimestamp :: "MsgPosition option \<Rightarrow> u64" where
  "GetTimestamp p = (case p of None \<Rightarrow> 0 | Some pos \<Rightarrow> pos_Timestamp pos)"

text \<open>\<open>fmt.Sprintf("%d/%d/%d", ...)\<close>.\<close>

definition ids_path :: "i64 list \<Rightarrow> string" where
  "ids_path ids = join_with slash (map (\<lambda>i. format_int (sint i)) ids)"

definition segment_ids :: "SegmentInfo \<Rightarrow> string" where
  "segment_ids s = ids_path [si_CollectionID s, si_PartitionID s, si_ID s]"

section \<open>Lazily loaded binlogs\<close>

text \<open>
  The function that \<open>getSegmentLazyFunc\<close> returns. Each of the three listings rewrites the log paths of
  the entries it read; \<open>un\<close> decodes a \<open>FieldBinlog\<close>.
\<close>

definition set_log_paths :: "(i64 \<Rightarrow> i64 \<Rightarrow> string) \<Rightarrow> FieldBinlog \<Rightarrow> FieldBinlog" where
  "set_log_paths pb field = field\<lparr>fb_Binlogs :=
     map (\<lambda>binlog. binlog\<lparr>bl_LogPath := pb (fb_FieldID field) (bl_LogID binlog)\<rparr>) (fb_Binlogs field)\<rparr>"

definition lazy_list :: "('s, 't) MetaKV \<Rightarrow> (string \<Rightarrow> FieldBinlog result) \<Rightarrow> string \<Rightarrow> (i64 \<Rightarrow> i64 \<Rightarrow> string) \<Rightarrow>
    ('s, FieldBinlog list) prog" where
  "lazy_list K un pre pb =
     prog_bind (ListProtoObjects K un pre []) (\<lambda>(fields, _). prog_return (map (set_log_paths pb) fields))"

definition getSegmentLazyFunc :: "('s, 't) MetaKV \<Rightarrow> (string \<Rightarrow> FieldBinlog result) \<Rightarrow> string \<Rightarrow> SegmentInfo \<Rightarrow>
    ('s, FieldBinlog list \<times> FieldBinlog list \<times> FieldBinlog list) prog" where
  "getSegmentLazyFunc K un basePath s =
     prog_bind (lazy_list K un (path_Join [basePath, ''datacoord-meta'', ''binlog/'' @ segment_ids s])
       (\<lambda>f l. ''ROOT_PATH/insert_log/'' @ ids_path [si_CollectionID s, si_PartitionID s, si_ID s, f, l])) (\<lambda>binlogs.
     prog_bind (lazy_list K un (path_Join [basePath, ''datacoord-meta'', ''statslog/'' @ segment_ids s])
       (\<lambda>f l. ''ROOT_PATH/stats_log/'' @ ids_path [si_CollectionID s, si_PartitionID s, si_ID s, f, l])) (\<lambda>statslogs.
     prog_bind (lazy_list K un (path_Join [basePath, ''datacoord-meta'', ''deltalog/'' @ segment_ids s])
       (\<lambda>f l. ''ROOT_PATH/delta_log/'' @ ids_path [si_CollectionID s, si_PartitionID s, si_ID s, l])) (\<lambda>deltalogs.
       prog_return (binlogs, statslogs, deltalogs))))"

text \<open>A model segment: the info, its key, and the binlogs once they are loaded.\<close>

record SegmentModel =
  sm_info :: SegmentInfo
  sm_key :: string
  sm_binlogs :: "FieldBinlog list"
  sm_statslogs :: "FieldBinlog list"
  sm_deltalogs :: "FieldBinlog list"
  sm_loaded :: bool

definition NewSegment :: "SegmentInfo \<Rightarrow> string \<Rightarrow> SegmentModel" where
  "NewSegment info key = \<lparr>sm_info = info, sm_key = key, sm_binlogs = [], sm_statslogs = [], sm_deltalogs = [],
     sm_loaded = False\<rparr>"

text \<open>\<open>loadOnce.Do\<close>: a failed load is printed and leaves the segment without binlogs for good.\<close>

definition loadOnce :: "('s, FieldBinlog list \<times> FieldBinlog list \<times> FieldBinlog list) prog \<Rightarrow> SegmentModel \<Rightarrow>
    ('s, SegmentModel) prog" where
  "loadOnce lazy m s =
     (if sm_loaded m then Some (Inr m, s)
      else case lazy s of
        None \<Rightarrow> None
      | Some (Inl (Panic msg), s') \<Rightarrow> Some (Inl (Panic msg), s')
      | Some (Inl e, s') \<Rightarrow> Some (Inr (m\<lparr>sm_loaded := True\<rparr>), s')
      | Some (Inr (b, st, d), s') \<Rightarrow>
          Some (Inr (m\<lparr>sm_binlogs := b, sm_statslogs := st, sm_deltalogs := d, sm_loaded := True\<rparr>), s'))"

definition GetBinlogs :: "('s, FieldBinlog list \<times> FieldBinlog list \<times> FieldBinlog list) prog \<Rightarrow> SegmentModel \<Rightarrow>
    ('s, SegmentModel \<times> FieldBinlog list) prog" where
  "GetBinlogs lazy m = prog_bind (loadOnce lazy m) (\<lambda>m'. prog_return (m', sm_binlogs m'))"

definition GetStatslogs :: "('s, FieldBinlog list \<times> FieldBinlog list \<times> FieldBinlog list) prog \<Rightarrow> SegmentModel \<Rightarrow>
    ('s, SegmentModel \<times> FieldBinlog list) prog" where
  "GetStatslogs lazy m = prog_bind (loadOnce lazy m) (\<lambda>m'. prog_return (m', sm_statslogs m'))"

definition GetDeltalogs :: "('s, FieldBinlog list \<times> FieldBinlog list \<times> FieldBinlog list) prog \<Rightarrow> SegmentModel \<Rightarrow>
    ('s, SegmentModel \<times> FieldBinlog list) prog" where
  "GetDeltalogs lazy m = prog_bind (loadOnce lazy m) (\<lambda>m'. prog_return (m', sm_deltalogs m'))"

definition ListLoadedSegments :: "('s, 't) MetaKV \<Rightarrow> (string \<Rightarrow> 'p result) \<Rightarrow> string \<Rightarrow> ('p \<Rightarrow> bool) \<Rightarrow> ('s, 'p list) prog" where
  "ListLoadedSegments K un basePath flt =
     prog_bind (ListProtoObjects K un (path_Join [basePath, ''queryCoord-segmentMeta'']) [flt]) (\<lambda>(segments, _). prog_return segments)"

definition ListSegments :: "('s, 't) MetaKV \<Rightarrow> (string \<Rightarrow> SegmentInfo result) \<Rightarrow> string \<Rightarrow> (SegmentModel \<Rightarrow> bool) list \<Rightarrow>
    ('s, SegmentModel list) prog" where
  "ListSegments K un basePath filters =
     ListObj2Models K un (path_Join [basePath, ''datacoord-meta'', ''s''] @ ''/'') NewSegment filters"

section \<open>FillFieldsIfV2\<close>

text \<open>The copy keeps neither the log id nor the memory size.\<close>

definition copy_binlog :: "(i64 \<Rightarrow> i64 \<Rightarrow> string) \<Rightarrow> FieldBinlog \<Rightarrow> Binlog \<Rightarrow> Binlog" where
  "copy_binlog pb field binlog =
     \<lparr>bl_EntriesNum = bl_EntriesNum binlog, bl_TimestampFrom = bl_TimestampFrom binlog,
      bl_TimestampTo = bl_TimestampTo binlog,
      bl_LogPath = (if bl_LogPath binlog = [] then pb (fb_FieldID field) (bl_LogID binlog) else bl_LogPath binlog),
      bl_LogSize = bl_LogSize binlog, bl_LogID = 0, bl_MemSize = 0\<rparr>"

definition copy_field :: "(i64 \<Rightarrow> i64 \<Rightarrow> string) \<Rightarrow> FieldBinlog \<Rightarrow> FieldBinlog" where
  "copy_field pb field =
     \<lparr>fb_FieldID = fb_FieldID field, fb_Binlogs = map (copy_binlog pb field) (fb_Binlogs field), fb_ChildFields = []\<rparr>"

definition fill_logs :: "('s, 't) MetaKV \<Rightarrow> (string \<Rightarrow> FieldBinlog result) \<Rightarrow> string \<Rightarrow> (i64 \<Rightarrow> i64 \<Rightarrow> string) \<Rightarrow>
    FieldBinlog list \<Rightarrow> ('s, FieldBinlog list) prog" where
  "fill_logs K un pre pb old =
     (if length old = 0 then
        prog_bind (ListProtoObjects K un pre []) (\<lambda>(fields, _). prog_return (map (copy_field pb) fields))
      else prog_return old)"

text \<open>The logs read before an error stay in the segment.\<close>

definition FillFieldsIfV2 :: "('s, 't) MetaKV \<Rightarrow> (string \<Rightarrow> FieldBinlog result) \<Rightarrow> string \<Rightarrow> SegmentInfo \<Rightarrow>
    's \<Rightarrow> (unit result \<times> SegmentInfo \<times> 's) option" where
  "FillFieldsIfV2 K un basePath seg s =
     (let dir = (\<lambda>kind. path_Join [basePath, ''datacoord-meta'', kind @ segment_ids seg]);
          ids = [si_CollectionID seg, si_PartitionID seg, si_ID seg]
      in case fill_logs K un (dir ''binlog/'') (\<lambda>f l. ''files/insert_log/'' @ ids_path (ids @ [f, l])) (si_Binlogs seg) s of
           None \<Rightarrow> None
         | Some (Inl e, s1) \<Rightarrow> Some (Inl e, seg, s1)
         | Some (Inr b, s1) \<Rightarrow>
             (case fill_logs K un (dir ''deltalog/'') (\<lambda>f l. ''files/delta_log/'' @ ids_path (ids @ [l])) (si_Deltalogs seg) s1 of
                None \<Rightarrow> None
              | Some (Inl e, s2) \<Rightarrow> Some (Inl e, seg\<lparr>si_Binlogs := b\<rparr>, s2)
              | Some (Inr d, s2) \<Rightarrow>
                  (case fill_logs K un (dir ''statslog/'') (\<lambda>f l. ''files/statslog/'' @ ids_path (ids @ [l])) (si_Statslogs seg) s2 of
                     None \<Rightarrow> None
                   | Some (Inl e, s3) \<Rightarrow> Some (Inl e, seg\<lparr>si_Binlogs := b, si_Deltalogs := d\<rparr>, s3)
                   | Some (Inr st, s3) \<Rightarrow>
                       Some (Inr (), seg\<lparr>si_Binlogs := b, si_Deltalogs := d, si_Statslogs := st\<rparr>, s3))))"

section \<open>Removing and updating\<close>

text \<open>Three removals whose error is printed; the error of the last one is returned.\<close>

definition RemoveSegmentByID :: "('s, 't) MetaKV \<Rightarrow> string \<Rightarrow> i64 \<Rightarrow> i64 \<Rightarrow> i64 \<Rightarrow> ('s, unit) prog" where
  "RemoveSegmentByID K basePath collectionID partitionID segmentID =
     (let ids = ids_path [collectionID, partitionID, segmentID]
      in prog_bind (prog_go (kv_Remove K (path_Join [basePath, ''datacoord-meta/s'', ids]))) (\<lambda>_.
         prog_bind (ignore_result (kv_Remove K (path_Join [basePath, ''datacoord-meta/binlog'', ids]))) (\<lambda>_.
         prog_bind (ignore_result (kv_Remove K (path_Join [basePath, ''datacoord-meta/deltalog'', ids]))) (\<lambda>_.
           prog_go (kv_Remove K (path_Join [basePath, ''datacoord-meta/statslog'', ids]))))))"

definition RemoveSegment :: "('s, 't) MetaKV \<Rightarrow> string \<Rightarrow> SegmentInfo \<Rightarrow> ('s, unit) prog" where
  "RemoveSegment K basePath info =
     (let ids = segment_ids info
      in prog_bind (prog_go (kv_Remove K (path_Join [basePath, ''datacoord-meta/s'', ids]))) (\<lambda>_.
         prog_bind (ignore_result (kv_Remove K (path_Join [basePath, ''datacoord-meta/binlog'', ids]))) (\<lambda>_.
         prog_bind (ignore_result (kv_Remove K (path_Join [basePath, ''datacoord-meta/deltalog'', ids]))) (\<lambda>_.
           prog_go (kv_Remove K (path_Join [basePath, ''datacoord-meta/statslog'', ids]))))))"

definition RemoveSegmentInsertLogPath :: "('s, 't) MetaKV \<Rightarrow> string \<Rightarrow> i64 list \<Rightarrow> ('s, unit) prog" where
  "RemoveSegmentInsertLogPath K basePath ids =
     prog_go (kv_Remove K (path_Join [basePath, ''datacoord-meta'', ''insert_log'', ids_path ids]))"

definition RemoveSegmentDeltaLogPath :: "('s, 't) MetaKV \<Rightarrow> string \<Rightarrow> i64 list \<Rightarrow> ('s, unit) prog" where
  "RemoveSegmentDeltaLogPath K basePath ids =
     prog_go (kv_Remove K (path_Join [basePath, ''datacoord-meta'', ''delta_log'', ids_path ids]))"

definition RemoveSegmentStatLogPath :: "('s, 't) MetaKV \<Rightarrow> string \<Rightarrow> i64 list \<Rightarrow> ('s, unit) prog" where
  "RemoveSegmentStatLogPath K basePath ids =
     prog_go (kv_Remove K (path_Join [basePath, ''datacoord-meta'', ''stats_log'', ids_path ids]))"

definition UpdateSegments :: "('s, 't) MetaKV \<Rightarrow> (string \<Rightarrow> SegmentInfo result) \<Rightarrow> (SegmentInfo \<Rightarrow> string result) \<Rightarrow>
    string \<Rightarrow> i64 \<Rightarrow> (SegmentInfo \<Rightarrow> SegmentInfo) \<Rightarrow> ('s, unit) prog" where
  "UpdateSegments K un marshal basePath collectionID fn =
     prog_bind (ListProtoObjects K un (path_Join [basePath, ''s/'' @ format_int (sint collectionID)] @ ''/'') [])
       (\<lambda>(segments, ks).
          prog_for (zip segments ks) (\<lambda>(info, k).
            prog_bind (prog_lift (marshal (fn info))) (\<lambda>bs. prog_go (kv_Save K k bs))))"

text \<open>
  \<open>WalkAllSegments\<close>: the callback keeps the counter and the state \<open>'o\<close> that \<open>op\<close> works on. \<open>filter\<close> may be
  nil.
\<close>

definition ErrReachMaxNumOfWalkSegment :: go_error where
  "ErrReachMaxNumOfWalkSegment = Failure ''reach max number of the walked segments''"

definition walk_segment :: "(string \<Rightarrow> SegmentInfo result) \<Rightarrow> (SegmentInfo \<Rightarrow> bool) option \<Rightarrow>
    (SegmentInfo \<Rightarrow> ('o, unit) go) \<Rightarrow> i64 \<Rightarrow> string \<Rightarrow> string \<Rightarrow> (i64 \<times> 'o, unit) go" where
  "walk_segment un flt oper limit k v co =
     (case un v of
        Inl e \<Rightarrow> (Inl e, co)
      | Inr info \<Rightarrow>
          if (case flt of None \<Rightarrow> True | Some f \<Rightarrow> f info) then
            (case oper info (snd co) of
               (Inl e, o') \<Rightarrow> (Inl e, fst co, o')
             | (Inr _, o') \<Rightarrow>
                 let cnt = fst co + 1
                 in (if sint limit \<le> sint cnt then Inl ErrReachMaxNumOfWalkSegment else Inr (), cnt, o'))
          else (Inr (), co))"

definition WalkAllSegments :: "('s, i64 \<times> 'o) MetaKV \<Rightarrow> (string \<Rightarrow> SegmentInfo result) \<Rightarrow> string \<Rightarrow>
    (SegmentInfo \<Rightarrow> bool) option \<Rightarrow> (SegmentInfo \<Rightarrow> ('o, unit) go) \<Rightarrow> i64 \<Rightarrow> 's \<Rightarrow> 'o \<Rightarrow> (unit result \<times> 'o) option" where
  "WalkAllSegments K un basePath flt oper limit s o0 =
     map_option (\<lambda>(r, co). (r, snd co))
       (kv_WalkWithPrefix K (path_Join [basePath, ''s''] @ ''/'') 1000 (walk_segment un flt oper limit) s (0, o0))"

text \<open>A segment of partition 1 of collection 1.\<close>

definition ref_segment :: "i64 \<Rightarrow> SegmentInfo" where
  "ref_segment i = \<lparr>si_ID = i, si_CollectionID = 1, si_PartitionID = 1, si_State = Flushed, si_NumOfRows = 0,
     si_InsertChannel = [], si_StartPosition = None, si_DmlPosition = None, si_Binlogs = [], si_Statslogs = [], si_Deltalogs = []\<rparr>"

lemma small_numbers [simp]: "format_nat (Suc 0) = ''1''" "format_nat 2 = ''2''" "format_nat 3 = ''3''" "format_nat 4 = ''4''"
  "format_nat 7 = ''7''" "format_nat 10 = ''10''"
  by code_simp+

lemma ref_segment_ids [simp]: "segment_ids (ref_segment 1) = ''1/1/1''" "segment_ids (ref_segment 10) = ''1/1/10''"
  by (simp_all add: ref_segment_def segment_ids_def ids_path_def format_int_def)

section \<open>Updating in place\<close>

lemma ends_plain_dir: "ends_plain (joinPath [[], p @ ''/''])"
  by (simp add: ends_plain_def joinPath_root HasSuffix_slash)

context meta_kv
begin

lemma save_all:
  assumes "\<And>info k s. body (info, k) s = prog_go (kv_Save K k (enc info)) s"
  shows "prog_for pairs body s = Some (Inr (), s') \<Longrightarrow> \<forall>(info, k) \<in> set pairs. joinPath [[], k] = k \<Longrightarrow>
    distinct (map snd pairs) \<Longrightarrow> view s' = view s ++ map_of (map (\<lambda>(info, k). (k, enc info)) pairs)"
proof (induction pairs arbitrary: s)
  case Nil
  then show ?case by simp
next
  case (Cons pair pairs)
  obtain info k where p: "pair = (info, k)" by force
  from Cons.prems(1) obtain s1 where s1: "kv_Save K k (enc info) s = (Inr (), s1)"
    and rest: "prog_for pairs body s1 = Some (Inr (), s')"
    using assms by (auto simp: p prog_bind_Inr_iff)
  have "view s1 = (view s)(k \<mapsto> enc info)" using Save [OF s1] Cons.prems(2) by (simp add: p)
  moreover have "k \<notin> dom (map_of (map (\<lambda>(info, k). (k, enc info)) pairs))"
    using Cons.prems(3) by (simp add: p dom_map_of_conv_image_fst image_image case_prod_unfold)
  ultimately show ?case
    using Cons.IH [OF rest] Cons.prems(2,3) by (auto simp: p map_add_def fun_eq_iff split: option.splits)
qed

end

text \<open>
  When every value below the prefix decodes, \<open>UpdateSegments\<close> rewrites each of them in place
  with the changed segment and leaves the rest of the store alone. A value that does not decode is
  overwritten with the segment of the next key, whose own entry keeps the old contents.
\<close>

theorem UpdateSegments_in_place:
  assumes "meta_kv K view" and "UpdateSegments K un marshal basePath collectionID fn s = Some (Inr (), s')"
    and "\<forall>info. marshal info = Inr (enc info)"
    and "es = sorted_kvs (view s) (prefix (joinPath [[], path_Join [basePath, ''s/'' @ format_int (sint collectionID)] @ ''/'']))"
    and "\<forall>(k, v) \<in> set es. joinPath [[], k] = k"
  shows "((\<forall>(k, v) \<in> set es. decodes un v) \<longrightarrow>
      view s' = view s ++ map_of (map (\<lambda>(k, v). (k, enc (fn (decoded un v)))) es)) \<and>
    (\<forall>k0 v0 k1 v1. es = [(k0, v0), (k1, v1)] \<longrightarrow> \<not> decodes un v0 \<longrightarrow> decodes un v1 \<longrightarrow>
      view s' = (view s)(k0 \<mapsto> enc (fn (decoded un v1))))"
proof -
  let ?pre = "path_Join [basePath, ''s/'' @ format_int (sint collectionID)] @ ''/''"
  define body where "body = (\<lambda>(info, k). prog_bind (prog_lift (marshal (fn info))) (\<lambda>bs. prog_go (kv_Save K k bs)))"
  let ?pairs = "zip (map (decoded un) (filter (decodes un) (map snd es))) (map fst es)"
  from assms(2) obtain r where r: "kv_LoadWithPrefix K ?pre s = Some (Inr r)"
    by (auto simp: UpdateSegments_def ListProtoObjects_def prog_bind_Inr_iff)
  then have load: "kv_LoadWithPrefix K ?pre s = Some (Inr (map fst es, map snd es))"
    using meta_kv.load_entries [OF assms(1) r ends_plain_dir] assms(4) by simp
  have run: "prog_for ?pairs body s = Some (Inr (), s')"
    using assms(2) ListProtoObjects_result [OF load, of un]
    by (auto simp: UpdateSegments_def prog_bind_Inr_iff simp flip: body_def)
  have body: "body (info, k) s = prog_go (kv_Save K k (enc (fn info))) s" for info k s
    using assms(3) by (simp add: body_def prog_bind_def)
  have "distinct (map fst es)"
    using sorted_keys_props(3) [OF meta_kv.view_finite [OF assms(1)]] by (simp add: assms(4) sorted_kvs_fst)
  then have "distinct (map snd ?pairs)" by (simp add: map_snd_zip_take)
  moreover have "\<forall>(info, k) \<in> set ?pairs. joinPath [[], k] = k"
    using assms(5) by (fastforce dest!: set_zip_rightD)
  ultimately have v: "view s' = view s ++ map_of (map (\<lambda>(info, k). (k, enc (fn info))) ?pairs)"
    using meta_kv.save_all [OF assms(1) body run] by blast
  have "map (\<lambda>(info, k). (k, enc (fn info))) ?pairs = map (\<lambda>(k, v). (k, enc (fn (decoded un v)))) es"
    if "\<forall>(k, v) \<in> set es. decodes un v"
    using zip_decoded_all [OF that] by (simp add: case_prod_unfold)
  then show ?thesis using v by auto
qed

theorem UpdateSegments_in_place_witness:
  "\<exists>s'. UpdateSegments (ref_kv :: (_, unit) MetaKV) (\<lambda>v. if v = ''1'' then Inr (ref_segment 1) else Inl EOF) (\<lambda>info. Inr (format_int (sint (si_ID info))))
      ''a'' 1 (\<lambda>info. info\<lparr>si_ID := 7\<rparr>) [(''a/s/1/1/1'', ''bad''), (''a/s/1/1/2'', ''1'')] = Some (Inr (), s') \<and>
    map_of s' = (map_of [(''a/s/1/1/1'', ''bad''), (''a/s/1/1/2'', ''1'')])(''a/s/1/1/1'' \<mapsto> ''7'')"
proof -
  let ?un = "\<lambda>v. if v = ''1'' then Inr (ref_segment 1) else Inl EOF"
  let ?enc = "\<lambda>info. format_int (sint (si_ID info))" and ?fn = "\<lambda>info. info\<lparr>si_ID := 7\<rparr>"
  let ?s = "[(''a/s/1/1/1'', ''bad''), (''a/s/1/1/2'', ''1'')]"
  let ?pre = "path_Join [''a'', ''s/'' @ format_int (sint (1 :: i64))] @ ''/''"
  have pp: "plain_path ''a''" "plain_path ''s/1''" "plain_path ''a/s/1''" "plain_path ''a/s/1/1/1''" "plain_path ''a/s/1/1/2''"
    by (simp_all add: plain_path_def plain_part_def)
  have j: "joinPath [[], ?pre] = ''a/s/1/''"
    using joinPath_plain(2) [OF pp(3)] path_Join_plain [of "[''a'', ''s/1'']"] pp by (simp add: format_int_def)
  have k: "joinPath [[], ''a/s/1/1/1''] = ''a/s/1/1/1''" "joinPath [[], ''a/s/1/1/2''] = ''a/s/1/1/2''"
    using joinPath_plain(1) pp(4,5) by blast+
  have "sorted_wrt (<) (map fst ?s)" by (simp add: less_char_def)
  then have es: "sorted_kvs (map_of ?s) (prefix (joinPath [[], ?pre])) = ?s"
    unfolding j by (subst sorted_kvs_alist) simp_all
  have load: "kv_LoadWithPrefix (ref_kv :: (_, unit) MetaKV) ?pre ?s = Some (Inr (map fst ?s, map snd ?s))"
    by (simp only: ref_kv_ops es)
  have "\<exists>s'. UpdateSegments (ref_kv :: (_, unit) MetaKV) ?un (Inr \<circ> ?enc) ''a'' 1 ?fn ?s = Some (Inr (), s')"
    unfolding UpdateSegments_def prog_bind_def [of "ListProtoObjects _ _ _ _"] ListProtoObjects_result [OF load]
    by (simp add: decodes_def prog_simps prog_bind_def)
  then obtain s' where run: "UpdateSegments (ref_kv :: (_, unit) MetaKV) ?un (Inr \<circ> ?enc) ''a'' 1 ?fn ?s = Some (Inr (), s')"
    by auto
  from UpdateSegments_in_place [OF ref_kv_meta run _ refl, of ?enc] 
  have "map_of s' = (map_of ?s)(''a/s/1/1/1'' \<mapsto> ?enc (?fn (ref_segment 1)))"
    unfolding es by (auto simp: k decodes_def decoded_def)
  moreover have "?enc (?fn (ref_segment 1)) = ''7''" by (simp add: format_int_def)
  ultimately show ?thesis using run by (auto simp only: comp_def)
qed

section \<open>Where segments live\<close>

lemma plain_ids: "ids \<noteq> [] \<Longrightarrow> plain_path (ids_path ids)"
  unfolding ids_path_def by (rule plain_path_join) auto

lemma plain_names [simp]:
  "plain_path ''datacoord-meta''" "plain_path ''s''" "plain_path ''binlog''" "plain_path ''deltalog''"
  "plain_path ''statslog''" "plain_path ''datacoord-meta/s''" "plain_path ''datacoord-meta/binlog''"
  "plain_path ''datacoord-meta/deltalog''" "plain_path ''datacoord-meta/statslog''"
  by (simp_all add: plain_path_def plain_part_def)

lemma plain_subdirs [simp]:
  "plain_path (''binlog/'' @ q) = plain_path q" "plain_path (''deltalog/'' @ q) = plain_path q"
  "plain_path (''statslog/'' @ q) = plain_path q" "plain_path (''s/'' @ q) = plain_path q"
  using plain_path_slash [of "''binlog''" q] plain_path_slash [of "''deltalog''" q]
    plain_path_slash [of "''statslog''" q] plain_path_slash [of "''s''" q] by simp_all

lemma plain_segment_ids [simp]: "plain_path (segment_ids info)"
  by (simp add: segment_ids_def plain_ids)

lemma dir_path: "plain_path a \<Longrightarrow> plain_path b \<Longrightarrow> plain_path c \<Longrightarrow> path_Join [a, b, c] = a @ slash # b @ slash # c"
  using path_Join_plain [of "[a, b, c]"] by simp

lemma joined_path:
  "plain_path a \<Longrightarrow> plain_path b \<Longrightarrow> plain_path c \<Longrightarrow> joinPath [[], path_Join [a, b, c]] = a @ slash # b @ slash # c"
  by (simp add: dir_path joinPath_plain)

text \<open>
  \<open>RemoveSegment\<close> removes the entry of the segment and touches at most three other keys, the
  directories of its binlogs, delta logs and statistics logs taken as keys. So the log entries, which lie
  \<^emph>\<open>below\<close> those directories, all stay in the store.
\<close>

theorem RemoveSegment_leaves_logs:
  assumes "meta_kv K view" and "plain_path base" and "RemoveSegment K base info s = Some (Inr (), s')"
  shows "view s' (base @ ''/datacoord-meta/s/'' @ segment_ids info) = None \<and>
    (\<forall>k. (\<forall>kind \<in> {''s'', ''binlog'', ''deltalog'', ''statslog''}.
        k \<noteq> base @ ''/datacoord-meta/'' @ kind @ ''/'' @ segment_ids info) \<longrightarrow> view s' k = view s k) \<and>
    (\<forall>kind \<in> {''binlog'', ''deltalog'', ''statslog''}. \<forall>log.
      view s' (base @ ''/datacoord-meta/'' @ kind @ ''/'' @ segment_ids info @ ''/'' @ log) =
      view s (base @ ''/datacoord-meta/'' @ kind @ ''/'' @ segment_ids info @ ''/'' @ log))"
proof -
  let ?at = "\<lambda>kind. base @ ''/datacoord-meta/'' @ kind @ ''/'' @ segment_ids info"
  have at: "joinPath [[], path_Join [base, ''datacoord-meta/s'', segment_ids info]] = ?at ''s''"
    "joinPath [[], path_Join [base, ''datacoord-meta/binlog'', segment_ids info]] = ?at ''binlog''"
    "joinPath [[], path_Join [base, ''datacoord-meta/deltalog'', segment_ids info]] = ?at ''deltalog''"
    "joinPath [[], path_Join [base, ''datacoord-meta/statslog'', segment_ids info]] = ?at ''statslog''"
    using assms(2) by (simp_all add: joined_path)
  from assms(3) obtain s1 s2 s3 r2 r3 where
    run: "kv_Remove K (path_Join [base, ''datacoord-meta/s'', segment_ids info]) s = (Inr (), s1)"
      "kv_Remove K (path_Join [base, ''datacoord-meta/binlog'', segment_ids info]) s1 = (r2, s2)"
      "kv_Remove K (path_Join [base, ''datacoord-meta/deltalog'', segment_ids info]) s2 = (r3, s3)"
      "kv_Remove K (path_Join [base, ''datacoord-meta/statslog'', segment_ids info]) s3 = (Inr (), s')"
    by (auto simp: RemoveSegment_def Let_def prog_bind_Inr_iff ignore_result_def) (metis prod.collapse)
  note frame = meta_kv.Remove_frame [OF assms(1)]
  have other: "view s' k = view s k" if "\<forall>kind \<in> {''s'', ''binlog'', ''deltalog'', ''statslog''}. k \<noteq> ?at kind" for k
    using that frame [OF run(1), of k] frame [OF run(2), of k] frame [OF run(3), of k] frame [OF run(4), of k]
    unfolding at by auto
  have "view s1 (?at ''s'') = None" using meta_kv.Remove [OF assms(1) run(1)] unfolding at by simp
  then have "view s' (?at ''s'') = None"
    using frame [OF run(2), of "?at ''s''"] frame [OF run(3), of "?at ''s''"] frame [OF run(4), of "?at ''s''"]
    unfolding at by simp
  moreover have "\<forall>kind \<in> {''binlog'', ''deltalog'', ''statslog''}. \<forall>log.
      view s' (?at kind @ ''/'' @ log) = view s (?at kind @ ''/'' @ log)"
    by (intro ballI allI other) auto
  ultimately show ?thesis using other by auto
qed

theorem RemoveSegment_leaves_logs_witness:
  "\<exists>s'. RemoveSegment (ref_kv :: (_, unit) MetaKV) ''a'' (ref_segment 1)
      [(''a/datacoord-meta/s/1/1/1'', ''x''), (''a/datacoord-meta/binlog/1/1/1/100'', ''y'')] = Some (Inr (), s') \<and>
    map_of s' ''a/datacoord-meta/s/1/1/1'' = None \<and> map_of s' ''a/datacoord-meta/binlog/1/1/1/100'' = Some ''y''"
proof -
  let ?s = "[(''a/datacoord-meta/s/1/1/1'', ''x''), (''a/datacoord-meta/binlog/1/1/1/100'', ''y'')]"
  have pp: "plain_path ''a''" by (simp add: plain_path_def plain_part_def)
  have "\<exists>s'. RemoveSegment (ref_kv :: (_, unit) MetaKV) ''a'' (ref_segment 1) ?s = Some (Inr (), s')"
    unfolding RemoveSegment_def Let_def by (simp add: prog_simps prog_bind_def ignore_result_def)
  then obtain s' where run: "RemoveSegment (ref_kv :: (_, unit) MetaKV) ''a'' (ref_segment 1) ?s = Some (Inr (), s')" by blast
  from RemoveSegment_leaves_logs [OF ref_kv_meta pp run]
  have "map_of s' ''a/datacoord-meta/s/1/1/1'' = None" "\<forall>log. map_of s' (''a/datacoord-meta/binlog/1/1/1/'' @ log) =
      map_of ?s (''a/datacoord-meta/binlog/1/1/1/'' @ log)" by simp_all
  from this(1) this(2) [rule_format, of "''100''"] run show ?thesis by auto
qed

text \<open>
  The binlogs that a segment loads lazily are those of every entry whose key starts with its
  directory \<^emph>\<open>name\<close>, not only of those inside the directory: a segment whose number continues the digits of
  this one (10 and 1, say) contributes its binlogs too, with paths rewritten to this segment's.
\<close>

theorem lazy_binlogs_by_prefix:
  assumes "meta_kv K view" and "plain_path base" and "ends_plain (base @ ''/datacoord-meta/binlog/'' @ segment_ids info)"
    and "getSegmentLazyFunc K un base info s = Some (Inr (binlogs, statslogs, deltalogs), s')"
    and "pb = (\<lambda>f l. ''ROOT_PATH/insert_log/'' @ ids_path [si_CollectionID info, si_PartitionID info, si_ID info, f, l])"
  shows "binlogs = map (set_log_paths pb \<circ> decoded un) (filter (decodes un)
      (map snd (sorted_kvs (view s) (prefix (base @ ''/datacoord-meta/binlog/'' @ segment_ids info))))) \<and>
    (\<forall>other log v. prefix (segment_ids info) (segment_ids other) \<longrightarrow> decodes un v \<longrightarrow>
      view s (base @ ''/datacoord-meta/binlog/'' @ segment_ids other @ ''/'' @ log) = Some v \<longrightarrow>
      set_log_paths pb (decoded un v) \<in> set binlogs)"
proof -
  let ?dir = "base @ ''/datacoord-meta/binlog/'' @ segment_ids info"
  let ?pre = "path_Join [base, ''datacoord-meta'', ''binlog/'' @ segment_ids info]"
  let ?es = "sorted_kvs (view s) (prefix ?dir)"
  have "plain_path (''binlog/'' @ segment_ids info)" by (simp only: plain_subdirs plain_segment_ids)
  then have p: "joinPath [[], ?pre] = ?dir"
    using assms(2) joined_path [of base "''datacoord-meta''" "''binlog/'' @ segment_ids info"] by simp
  from assms(4) obtain r where r: "kv_LoadWithPrefix K ?pre s = Some (Inr r)"
    by (auto simp: getSegmentLazyFunc_def lazy_list_def ListProtoObjects_def prog_bind_Inr_iff)
  then have load: "kv_LoadWithPrefix K ?pre s = Some (Inr (map fst ?es, map snd ?es))"
    using meta_kv.load_entries [OF assms(1) r] assms(3) by (simp only: p)
  have b: "binlogs = map (set_log_paths pb \<circ> decoded un) (filter (decodes un) (map snd ?es))"
    using assms(4) ListProtoObjects_result [OF load, of un]
    by (auto simp: getSegmentLazyFunc_def lazy_list_def prog_bind_Inr_iff assms(5))
  have "set_log_paths pb (decoded un v) \<in> set binlogs"
    if "prefix (segment_ids info) (segment_ids other)" "decodes un v"
      "view s (base @ ''/datacoord-meta/binlog/'' @ segment_ids other @ ''/'' @ log) = Some v" for other log v
  proof -
    have "prefix ?dir (base @ ''/datacoord-meta/binlog/'' @ segment_ids other @ ''/'' @ log)"
      using that(1) by (auto simp: prefix_def)
    with that(3) have "(base @ ''/datacoord-meta/binlog/'' @ segment_ids other @ ''/'' @ log, v) \<in> set ?es"
      by (simp add: set_sorted_kvs [OF meta_kv.view_finite [OF assms(1)]])
    then have "v \<in> set (filter (decodes un) (map snd ?es))" using that(2) by force
    then show ?thesis unfolding b by auto
  qed
  with b show ?thesis by blast
qed

theorem lazy_binlogs_by_prefix_witness:
  "\<exists>binlogs statslogs deltalogs s'. getSegmentLazyFunc (ref_kv :: (_, unit) MetaKV) (\<lambda>v. Inr \<lparr>fb_FieldID = 7, fb_Binlogs = [], fb_ChildFields = []\<rparr>)
      ''a'' (ref_segment 1) [(''a/datacoord-meta/binlog/1/1/10/100'', ''y'')] = Some (Inr (binlogs, statslogs, deltalogs), s') \<and>
    \<lparr>fb_FieldID = 7, fb_Binlogs = [], fb_ChildFields = []\<rparr> \<in> set binlogs"
proof -
  let ?f = "\<lparr>fb_FieldID = 7, fb_Binlogs = [], fb_ChildFields = []\<rparr> :: FieldBinlog"
  let ?s = "[(''a/datacoord-meta/binlog/1/1/10/100'', ''y'')]"
  have pp: "plain_path ''a''" by (simp add: plain_path_def plain_part_def)
  have e: "ends_plain (''a'' @ ''/datacoord-meta/binlog/'' @ segment_ids (ref_segment 1))" by (simp add: ends_plain_def)
  have "\<exists>b st d s'. getSegmentLazyFunc (ref_kv :: (_, unit) MetaKV) (\<lambda>v. Inr ?f) ''a'' (ref_segment 1) ?s = Some (Inr (b, st, d), s')"
    unfolding getSegmentLazyFunc_def lazy_list_def ListProtoObjects_def
    by (simp add: prog_simps prog_bind_def prog_read_def case_prod_unfold)
  then obtain b st d s' where run: "getSegmentLazyFunc (ref_kv :: (_, unit) MetaKV) (\<lambda>v. Inr ?f) ''a'' (ref_segment 1) ?s =
      Some (Inr (b, st, d), s')" by blast
  have "set_log_paths pb ?f = ?f" for pb by (simp add: set_log_paths_def)
  then have "?f \<in> set b"
    using lazy_binlogs_by_prefix [OF ref_kv_meta pp e run refl, THEN conjunct2, rule_format, of "ref_segment 10" "''y''" "''100''"]
    by (simp add: decodes_def decoded_def)
  with run show ?thesis by blast
qed

text \<open>
  \<open>WalkAllSegments\<close> looks below \<^verbatim>\<open>s/\<close> while \<open>ListSegments\<close> and \<open>RemoveSegment\<close> keep segments below
  \<^verbatim>\<open>datacoord-meta/s/\<close>: on a store that holds data-coordinator entries only it ends without an error and
  never calls its callback, however many segments there are, so \<^verbatim>\<open>remove segment\<close> removes nothing.
\<close>

theorem WalkAllSegments_finds_none:
  assumes "etcd_server C store" and "answers C s" and "plain_path base"
    and "\<forall>k \<in> dom (store s). prefix (base @ ''/datacoord-meta/'') k"
    and "\<And>k. base @ ''/s'' \<le> k \<and> k < rangeEnd (base @ ''/s'') \<longleftrightarrow> prefix (base @ ''/s'') k"
    and "card (dom (store s)) < fuel"
  shows "WalkAllSegments (etcd_MetaKV C rangeEnd B fuel) un base flt oper limit s o0 = Some (Inr (), o0) \<and>
    (\<exists>ms. ListSegments (etcd_MetaKV C rangeEnd B fuel :: ('s, unit) MetaKV) un base [] s = Some (Inr ms, s) \<and>
      length ms = length (filter (\<lambda>(k, v). decodes un v) (sorted_kvs (store s) (prefix (base @ ''/datacoord-meta/s/'')))))"
proof -
  have pj: "path_Join [base, ''s''] = base @ ''/s''" using path_Join_plain [of "[base, ''s'']"] assms(3) by simp
  have pp: "plain_path (base @ ''/s'')" using assms(3) by simp
  have p: "path_Join [[], path_Join [base, ''s''] @ ''/''] = base @ ''/s''"
    using joinPath_plain(3) [OF pp] by (simp add: pj)
  have "\<not> prefix (base @ ''/s'') k" if "prefix (base @ ''/datacoord-meta/'') k" for k
    using that by (auto simp: prefix_def)
  then have "set (sorted_kvs (store s) (prefix (base @ ''/s''))) = {}"
    using assms(4) unfolding set_sorted_kvs [OF etcd_server.finite_store [OF assms(1)]] by blast
  then have none: "sorted_kvs (store s) (prefix (base @ ''/s'')) = []" by simp
  have "etcdKV_WalkWithPrefix C rangeEnd fuel (path_Join [base, ''s''] @ ''/'') 1000
      (walk_segment un flt oper limit) s (0, o0) = Some (Inr (), (0, o0))"
    using etcd_server.walk_result [where pre = "path_Join [base, ''s''] @ ''/''" and rangeEnd = rangeEnd,
        OF assms(1,2), unfolded p, OF assms(5,6), of 1000 "walk_segment un flt oper limit" "(0, o0)"] none
    by simp
  then have walk: "WalkAllSegments (etcd_MetaKV C rangeEnd B fuel) un base flt oper limit s o0 = Some (Inr (), o0)"
    by (simp add: WalkAllSegments_def etcd_MetaKV_def)
  let ?K = "etcd_MetaKV C rangeEnd B fuel :: ('s, unit) MetaKV"
  let ?pre = "path_Join [base, ''datacoord-meta'', ''s''] @ ''/''"
  let ?es = "sorted_kvs (store s) (prefix (base @ ''/datacoord-meta/s/''))"
  have d: "plain_path (base @ ''/datacoord-meta/s'')" using assms(3) plain_path_slash [of base "''datacoord-meta/s''"] by simp
  have "joinPath [[], ?pre] = base @ ''/datacoord-meta/s/''"
    using joinPath_plain(2) [OF d] assms(3) by (simp add: dir_path)
  then have "kv_LoadWithPrefix ?K ?pre s = Some (Inr (map fst ?es, map snd ?es))"
    using etcd_server.LoadWithPrefix_result [OF assms(1,2), of ?pre] by (simp add: etcd_MetaKV_def)
  from ListObj2Models_result [OF this, of un NewSegment "[]"]
  have "\<exists>ms. ListSegments ?K un base [] s = Some (Inr ms, s) \<and> length ms = length (filter (\<lambda>(k, v). decodes un v) ?es)"
    using length_filter_le [of "decodes un" "map snd ?es"]
    by (auto simp: ListSegments_def filter_map comp_def case_prod_unfold)
  with walk show ?thesis by blast
qed

theorem WalkAllSegments_finds_none_witness:
  "WalkAllSegments ref_kv (\<lambda>v. Inr (ref_segment 1)) ''a'' None (\<lambda>info n. (Inr (), n + 1)) 10
     [(''a/datacoord-meta/s/1/1/1'', ''x'')] (0 :: nat) = Some (Inr (), 0)"
proof -
  let ?s = "[(''a/datacoord-meta/s/1/1/1'', ''x'')]"
  have pp: "plain_path ''a''" by (simp add: plain_path_def plain_part_def)
  have r: "''a'' @ ''/s'' \<le> k \<and> k < next_key (''a'' @ ''/s'') \<longleftrightarrow> prefix (''a'' @ ''/s'') k" for k
    using next_key_bounds [of "''a/s''" k] by (simp add: between_def ends_plain_def next_key_def)
  have d: "\<forall>k \<in> dom (map_of ?s). prefix (''a'' @ ''/datacoord-meta/'') k" by simp
  have c: "card (dom (map_of ?s)) < 5" by simp
  show ?thesis unfolding ref_kv_def
    by (rule WalkAllSegments_finds_none [where store = map_of and rangeEnd = next_key and base = "''a''",
        OF ref.etcd_server_axioms ref_answers pp d r c, THEN conjunct1])
qed

end
