(* ===== verification/Etcd_Collection.thy ===== *)
theory Etcd_Collection
  imports Etcd_Segment
begin

text \<open>
  Collections in the metadata store (\<^verbatim>\<open>states/etcd/common/collection.go\<close>, \<^verbatim>\<open>models/collection.go\<close>) and the commands that
  change one of them (\<^verbatim>\<open>states/etcd/set/collection_alter.go\<close>, \<^verbatim>\<open>collection_consistency_level.go\<close>, \<^verbatim>\<open>etcd_config.go\<close>).
  Protobuf messages are records of the fields the program uses; their encoding is an argument.
\<close>

section \<open>Collections and their schema\<close>

datatype ValueField = BoolData bool | StringData string | LongData int | IntData int | FloatData u32 | DoubleData u64
  | BytesData bytes

record FieldSchema =
  fs_FieldID :: i64
  fs_Name :: string
  fs_IsPrimaryKey :: bool
  fs_DataType :: DataType
  fs_IsClusteringKey :: bool
  fs_Nullable :: bool
  fs_DefaultValue :: "ValueField option"
  fs_TypeParams :: "(string \<times> string) list"

text \<open>\<open>Schema\<close> is a pointer that may be nil; the start positions are pairs of key and data.\<close>

record CollectionSchema =
  sch_Name :: string
  sch_Fields :: "FieldSchema list"
  sch_StructArrayFields :: "string list"

record Collection = CollectionInfo +
  coll_DbId :: i64
  coll_Schema :: "CollectionSchema option"
  coll_VirtualChannelNames :: "string list"
  coll_PhysicalChannelNames :: "string list"
  coll_StartPositions :: "(string \<times> bytes) list"
  coll_ConsistencyLevel :: i32

record CollectionModel =
  cm_proto :: Collection
  cm_key :: string
  cm_Functions :: "string list"

definition NewCollection :: "Collection \<Rightarrow> string \<Rightarrow> CollectionModel" where
  "NewCollection info key = \<lparr>cm_proto = info, cm_key = key, cm_Functions = []\<rparr>"

definition Collection_WithFields :: "FieldSchema list \<Rightarrow> CollectionModel \<Rightarrow> CollectionModel result" where
  "Collection_WithFields flds c =
     (case coll_Schema (cm_proto c) of
        None \<Rightarrow> Inl (Panic ''nil pointer dereference'')
      | Some sch \<Rightarrow> Inr (c\<lparr>cm_proto := (cm_proto c)\<lparr>coll_Schema := Some (sch\<lparr>sch_Fields := flds\<rparr>)\<rparr>\<rparr>))"

record Channel =
  PhysicalName :: string
  VirtualName :: string
  StartChannel :: string
  StartMsgID :: bytes

definition Collection_Channels :: "Collection \<Rightarrow> Channel list result" where
  "Collection_Channels c =
     res_fold (\<lambda>(virtualName, idx) chs.
       res_bind (go_index (coll_PhysicalChannelNames c) (int idx)) (\<lambda>physical.
       res_bind (go_index (coll_StartPositions c) (int idx)) (\<lambda>(key, data).
         Inr (chs @ [\<lparr>PhysicalName = physical, VirtualName = virtualName, StartChannel = key, StartMsgID = data\<rparr>]))))
       (zip (coll_VirtualChannelNames c) [0..<length (coll_VirtualChannelNames c)]) []"

text \<open>\<open>Schema.Fields\<close> on a nil schema panics.\<close>

definition schema_fields :: "CollectionModel \<Rightarrow> FieldSchema list result" where
  "schema_fields c =
     (case coll_Schema (cm_proto c) of
        None \<Rightarrow> Inl (Panic ''nil pointer dereference'')
      | Some sch \<Rightarrow> Inr (sch_Fields sch))"

definition GetPKField :: "CollectionModel \<Rightarrow> FieldSchema option result" where
  "GetPKField c = res_bind (schema_fields c) (\<lambda>flds. Inr (find fs_IsPrimaryKey flds))"

definition GetVectorField :: "CollectionModel \<Rightarrow> FieldSchema option result" where
  "GetVectorField c = res_bind (schema_fields c) (\<lambda>flds.
     Inr (find (\<lambda>f. fs_DataType f = DataType_BinaryVector \<or> fs_DataType f = DataType_FloatVector) flds))"

section \<open>Listing\<close>

record collection_codec =
  un_collection :: "string \<Rightarrow> Collection result"
  un_field :: "string \<Rightarrow> FieldSchema result"
  un_struct :: "string \<Rightarrow> string result"
  un_function :: "string \<Rightarrow> string result"
  marshal_collection :: "Collection \<Rightarrow> string result"
  marshal_field :: "FieldSchema \<Rightarrow> string result"

definition CollectionMetaPrefix :: string where
  "CollectionMetaPrefix = ''root-coord/collection''"

definition DBCollectionMetaPrefix :: string where
  "DBCollectionMetaPrefix = ''root-coord/database/collection-info''"

definition ErrCollectionNotFound :: go_error where
  "ErrCollectionNotFound = Failure ''collection not found''"

definition getCollectionFields :: "('s, 't) MetaKV \<Rightarrow> collection_codec \<Rightarrow> string \<Rightarrow> i64 \<Rightarrow> ('s, FieldSchema list) prog" where
  "getCollectionFields K M basePath collID =
     prog_bind (ListProtoObjects K (un_field M) (path_Join [basePath, ''root-coord/fields/'' @ format_int (sint collID)]) [])
       (\<lambda>(flds, _). prog_return flds)"

definition getCollectionStructFields :: "('s, 't) MetaKV \<Rightarrow> collection_codec \<Rightarrow> string \<Rightarrow> i64 \<Rightarrow> ('s, string list) prog" where
  "getCollectionStructFields K M basePath collID =
     prog_bind (ListProtoObjects K (un_struct M)
       (path_Join [basePath, ''root-coord/struct-array-fields/'' @ format_int (sint collID)]) [])
       (\<lambda>(flds, _). prog_return flds)"

definition ListCollectionFunctions :: "('s, 't) MetaKV \<Rightarrow> collection_codec \<Rightarrow> string \<Rightarrow> i64 \<Rightarrow> ('s, string list) prog" where
  "ListCollectionFunctions K M basePath collID =
     ListObj2Models K (un_function M) (path_Join [basePath, ''root-coord/functions'', format_int (sint collID)] @ ''/'')
       (\<lambda>f key. f) []"

definition ListCollectionWithoutFields :: "('s, 't) MetaKV \<Rightarrow> collection_codec \<Rightarrow> string \<Rightarrow> (CollectionModel \<Rightarrow> bool) list \<Rightarrow>
    ('s, CollectionModel list) prog" where
  "ListCollectionWithoutFields K M basePath filters =
     prog_bind (ListObj2Models K (un_collection M) (path_Join [basePath, CollectionMetaPrefix]) NewCollection filters) (\<lambda>old.
     prog_bind (ListObj2Models K (un_collection M) (path_Join [basePath, DBCollectionMetaPrefix]) NewCollection filters) (\<lambda>new.
       prog_return (old @ new)))"

text \<open>An error of one of the three listings per collection leaves the attribute empty; a panic is not recovered.\<close>

definition or_empty :: "('s, 'a list) prog \<Rightarrow> ('s, 'a list) prog" where
  "or_empty m s =
     (case m s of
        Some (Inl (Panic msg), s') \<Rightarrow> Some (Inl (Panic msg), s')
      | Some (Inl e, s') \<Rightarrow> Some (Inr [], s')
      | r \<Rightarrow> r)"

definition fill_collection :: "('s, 't) MetaKV \<Rightarrow> collection_codec \<Rightarrow> string \<Rightarrow> CollectionModel \<Rightarrow> ('s, CollectionModel) prog" where
  "fill_collection K M basePath c =
     (let collID = coll_ID (cm_proto c)
      in prog_bind (or_empty (getCollectionFields K M basePath collID)) (\<lambda>flds.
         prog_bind (prog_lift (Collection_WithFields flds c)) (\<lambda>c1.
         prog_bind (or_empty (getCollectionStructFields K M basePath collID)) (\<lambda>structs.
         prog_bind (or_empty (ListCollectionFunctions K M basePath collID)) (\<lambda>fns.
           prog_return (c1\<lparr>cm_proto := (cm_proto c1)\<lparr>coll_Schema :=
             map_option (\<lambda>sch. sch\<lparr>sch_StructArrayFields := structs\<rparr>) (coll_Schema (cm_proto c1))\<rparr>, cm_Functions := fns\<rparr>))))))"

fun fill_collections :: "('s, 't) MetaKV \<Rightarrow> collection_codec \<Rightarrow> string \<Rightarrow> CollectionModel list \<Rightarrow>
    ('s, CollectionModel list) prog" where
  "fill_collections K M basePath [] = prog_return []"
| "fill_collections K M basePath (c # cs) =
     prog_bind (fill_collection K M basePath c) (\<lambda>c'.
     prog_bind (fill_collections K M basePath cs) (\<lambda>cs'. prog_return (c' # cs')))"

definition ListCollections :: "('s, 't) MetaKV \<Rightarrow> collection_codec \<Rightarrow> string \<Rightarrow> (CollectionModel \<Rightarrow> bool) list \<Rightarrow>
    ('s, CollectionModel list) prog" where
  "ListCollections K M basePath filters =
     prog_bind (ListCollectionWithoutFields K M basePath filters) (fill_collections K M basePath)"

definition GetCollectionByIDVersion :: "('s, 't) MetaKV \<Rightarrow> collection_codec \<Rightarrow> string \<Rightarrow> i64 \<Rightarrow> ('s, CollectionModel) prog" where
  "GetCollectionByIDVersion K M basePath collID =
     prog_bind (ListCollections K M basePath [\<lambda>c. coll_ID (cm_proto c) = collID]) (\<lambda>colls.
       case colls of [] \<Rightarrow> prog_fail ErrCollectionNotFound | c # _ \<Rightarrow> prog_return c)"

text \<open>Appending to the fields of a nil schema panics; \<open>V2\<close> leaves out the base path.\<close>

definition fill_schema :: "('s, 't) MetaKV \<Rightarrow> collection_codec \<Rightarrow> string \<Rightarrow> CollectionModel \<Rightarrow> ('s, CollectionModel) prog" where
  "fill_schema K M pre c =
     (if (case coll_Schema (cm_proto c) of None \<Rightarrow> True | Some sch \<Rightarrow> sch_Fields sch = []) then
        prog_bind (prog_read (kv_LoadWithPrefix K pre)) (\<lambda>(ks, vals).
          if length ks \<noteq> length vals then prog_fail (Failure ''error: keys and vals of different size'')
          else let flds = list_loop (un_field M) [] vals
               in if flds = [] then prog_return c
                  else prog_lift (Collection_WithFields flds c))
      else prog_return c)"

definition FillFieldSchemaIfEmpty :: "('s, 't) MetaKV \<Rightarrow> collection_codec \<Rightarrow> string \<Rightarrow> CollectionModel \<Rightarrow>
    ('s, CollectionModel) prog" where
  "FillFieldSchemaIfEmpty K M basePath c =
     fill_schema K M (path_Join [basePath, ''root-coord/fields/'' @ format_int (sint (coll_ID (cm_proto c)))]) c"

definition FillFieldSchemaIfEmptyV2 :: "('s, 't) MetaKV \<Rightarrow> collection_codec \<Rightarrow> CollectionModel \<Rightarrow> ('s, CollectionModel) prog" where
  "FillFieldSchemaIfEmptyV2 K M c =
     fill_schema K M (''root-coord/fields/'' @ format_int (sint (coll_ID (cm_proto c)))) c"

section \<open>Changing a collection\<close>

text \<open>The flag is called \<open>dryRun\<close>, but the collection is saved when it is set.\<close>

definition UpdateCollection :: "('s, 't) MetaKV \<Rightarrow> collection_codec \<Rightarrow> string \<Rightarrow> (Collection \<Rightarrow> Collection) \<Rightarrow> bool \<Rightarrow>
    ('s, unit) prog" where
  "UpdateCollection K M key fn dryRun =
     prog_bind (prog_go (kv_Load K key)) (\<lambda>val.
     prog_bind (prog_lift (un_collection M val)) (\<lambda>info.
     prog_bind (prog_lift (marshal_collection M (fn info))) (\<lambda>bs.
       if \<not> dryRun then prog_return () else prog_go (kv_Save K key bs))))"

text \<open>
  The snapshot of the field with the largest positive time stamp. The outcome \<open>None\<close> stands for the early
  \<open>return nil\<close> at a time stamp that is no number.
\<close>

fun newest_snapshot :: "i64 \<Rightarrow> (string \<times> string) list \<Rightarrow> int \<times> string \<times> string \<Rightarrow> (int \<times> string \<times> string) option result" where
  "newest_snapshot fieldID [] best = Inr (Some best)"
| "newest_snapshot fieldID ((key, val) # kvs) best =
     (let parts = split_on (CHR ''_'') (path_Base key)
      in res_bind (ParseInt 64 (parts ! 0)) (\<lambda>i.
           if i = sint fieldID then
             res_bind (go_index parts 1) (\<lambda>part.
               if length part < 2 then Inl (Panic ''slice bounds out of range'')
               else case ParseInt 64 (drop 2 part) of
                      Inl _ \<Rightarrow> Inr None
                    | Inr ts \<Rightarrow> newest_snapshot fieldID kvs (if fst best < ts then (ts, key, val) else best))
           else newest_snapshot fieldID kvs best))"

definition UpdateField :: "('s, 't) MetaKV \<Rightarrow> collection_codec \<Rightarrow> string \<Rightarrow> i64 \<Rightarrow> i64 \<Rightarrow> (FieldSchema \<Rightarrow> FieldSchema result) \<Rightarrow>
    bool \<Rightarrow> ('s, unit) prog" where
  "UpdateField K M basePath collectionID fieldID fn dryRun =
     prog_bind (prog_read (kv_LoadWithPrefix K (path_Join [basePath, ''snapshots'', ''root-coord/fields'', format_int (sint collectionID)])))
     (\<lambda>(ks, vals).
       if ks = [] then prog_fail (Failure ''wrong path'')
       else if length vals < length ks then prog_fail (Panic ''index out of range'')
       else prog_bind (prog_lift (newest_snapshot fieldID (zip ks vals) (0, [], []))) (\<lambda>found.
         case found of
           None \<Rightarrow> prog_return ()
         | Some (_, matchedKey, matchedValue) \<Rightarrow>
             if matchedValue = [] \<or> matchedKey = [] then prog_fail (Failure ''not found field'')
             else prog_bind (prog_lift (un_field M matchedValue)) (\<lambda>info.
                  prog_bind (prog_lift (fn info)) (\<lambda>info'.
                  prog_bind (prog_lift (marshal_field M info')) (\<lambda>bs.
                    if dryRun then prog_return ()
                    else prog_bind (prog_go (kv_Save K matchedKey bs)) (\<lambda>_.
                      let cache = path_Join [basePath, ''root-coord/fields'', format_int (sint collectionID), format_int (sint fieldID)]
                      in (\<lambda>s. case kv_Load K cache s of
                               (Inl (Panic msg), s') \<Rightarrow> Some (Inl (Panic msg), s')
                             | (Inl _, s') \<Rightarrow> Some (Inr (), s')
                             | (Inr _, s') \<Rightarrow> prog_go (kv_Save K cache bs) s')))))))"

section \<open>The set commands\<close>

text \<open>\<open>strings.SplitN(s, "=", 2)\<close>.\<close>

definition split_pair :: "string \<Rightarrow> (string \<times> string) option" where
  "split_pair s =
     (if CHR ''='' \<in> set s
      then Some (takeWhile (\<lambda>c. c \<noteq> CHR ''='') s, tl (dropWhile (\<lambda>c. c \<noteq> CHR ''='') s)) else None)"

text \<open>A Go map built by assignments, as a list with one entry per key.\<close>

definition parseTypeParams :: "string list \<Rightarrow> (string \<times> string) list result" where
  "parseTypeParams params =
     res_fold (\<lambda>param m.
       if param = [] then Inr m
       else case split_pair param of
              None \<Rightarrow> Inl (Failure ''invalid type param format, expected key=value'')
            | Some (k, v) \<Rightarrow>
                if TrimSpace k = [] then Inl (Failure ''type param key cannot be empty'')
                else Inr (AList.update (TrimSpace k) (TrimSpace v) m))
       params []"

text \<open>\<open>strconv.ParseFloat\<close> at the two sizes is the argument \<open>parse_float\<close>; its result is the bit pattern.\<close>

definition GetDefaultValueForDataType :: "(nat \<Rightarrow> string \<Rightarrow> u64 result) \<Rightarrow> DataType \<Rightarrow> string \<Rightarrow> ValueField result" where
  "GetDefaultValueForDataType parse_float dataType v =
     (if dataType = DataType_Bool then res_bind (ParseBool v) (\<lambda>b. Inr (BoolData b))
      else if dataType = DataType_VarChar \<or> dataType = DataType_String then Inr (StringData v)
      else if dataType = DataType_Int64 then res_bind (ParseInt 64 v) (\<lambda>i. Inr (LongData i))
      else if dataType = DataType_Int8 \<or> dataType = DataType_Int16 \<or> dataType = DataType_Int32
      then res_bind (ParseInt 32 v) (\<lambda>i. Inr (IntData i))
      else if dataType = DataType_Float then res_bind (parse_float 32 v) (\<lambda>x. Inr (FloatData (ucast x)))
      else if dataType = DataType_Double then res_bind (parse_float 64 v) (\<lambda>x. Inr (DoubleData x))
      else if dataType = DataType_JSON then Inr (BytesData (bytes_of_string v))
      else Inl (Failure ''setting default value for data type is not supported yet''))"

record FieldAttrParam =
  fa_CollectionID :: i64
  fa_FieldID :: i64
  fa_IsClusteringKey :: bool
  fa_Nullable :: bool
  fa_DefaultValue :: string
  fa_TypeParams :: "string list"
  fa_DeleteTypeParams :: "string list"
  fa_Run :: bool

text \<open>
  Setting type parameters: the map points to the last entry of a key, a key without an entry is appended.
  The order in which the map \<open>toSet\<close> is visited is that of the list.
\<close>

definition set_type_param :: "(string \<times> string) list \<Rightarrow> string \<times> string \<Rightarrow> (string \<times> string) list \<Rightarrow> (string \<times> string) list" where
  "set_type_param existing kv ps =
     (let hits = filter (\<lambda>i. fst (existing ! i) = fst kv) [0..<length existing]
      in if hits = [] then ps @ [kv] else ps[last hits := kv])"

definition alterField :: "(nat \<Rightarrow> string \<Rightarrow> u64 result) \<Rightarrow> FieldAttrParam \<Rightarrow> (string \<times> string) list \<Rightarrow> FieldSchema \<Rightarrow>
    FieldSchema result" where
  "alterField parse_float p toSet field =
     (if fs_FieldID field \<noteq> fa_FieldID p then Inr field
      else let f1 = field\<lparr>fs_IsClusteringKey := fa_IsClusteringKey p, fs_Nullable := fa_Nullable p\<rparr>
           in res_bind (if fa_DefaultValue p = [] then Inr f1
                else res_bind (GetDefaultValueForDataType parse_float (fs_DataType field) (fa_DefaultValue p))
                       (\<lambda>v. Inr (f1\<lparr>fs_DefaultValue := Some v\<rparr>))) (\<lambda>f2.
              let kept = (if fa_DeleteTypeParams p = [] then fs_TypeParams f2
                    else filter (\<lambda>kv. fst kv \<notin> set (fa_DeleteTypeParams p)) (fs_TypeParams f2))
              in Inr (f2\<lparr>fs_TypeParams := fold (set_type_param kept) toSet kept\<rparr>)))"

text \<open>\<open>order\<close> is the order in which the runtime happens to visit the map of type parameters.\<close>

definition FieldAttrCommand :: "('s, 't) MetaKV \<Rightarrow> collection_codec \<Rightarrow> (nat \<Rightarrow> string \<Rightarrow> u64 result) \<Rightarrow>
    ((string \<times> string) list \<Rightarrow> (string \<times> string) list) \<Rightarrow> string \<Rightarrow> FieldAttrParam \<Rightarrow> ('s, unit) prog" where
  "FieldAttrCommand K M parse_float order basePath p =
     (if sint (fa_CollectionID p) \<le> 0 then prog_fail (Failure ''invalid collection id'')
      else if sint (fa_FieldID p) < 0 then prog_fail (Failure ''invalid field id'')
      else prog_bind (prog_lift (parseTypeParams (fa_TypeParams p))) (\<lambda>toSet.
        UpdateField K M basePath (fa_CollectionID p) (fa_FieldID p) (alterField parse_float p (order toSet)) (\<not> fa_Run p)))"

fun ConsistencyLevel_value :: "string \<Rightarrow> i32 option" where
  "ConsistencyLevel_value s = map_of [(''Strong'', 0), (''Session'', 1), (''Bounded'', 2), (''Eventually'', 3), (''Customized'', 4)] s"

definition CollectionConsistencyLevelCommand :: "('s, 't) MetaKV \<Rightarrow> collection_codec \<Rightarrow> string \<Rightarrow> i64 \<Rightarrow> string \<Rightarrow> bool \<Rightarrow>
    ('s, unit) prog" where
  "CollectionConsistencyLevelCommand K M basePath collectionID level run =
     (case ConsistencyLevel_value level of
        None \<Rightarrow> prog_fail (Failure ''consistency level string is not valid'')
      | Some lv \<Rightarrow>
          prog_bind (GetCollectionByIDVersion K M basePath collectionID) (\<lambda>collection.
            if coll_ConsistencyLevel (cm_proto collection) = lv then prog_return ()
            else UpdateCollection K M (cm_key collection) (\<lambda>coll. coll\<lparr>coll_ConsistencyLevel := lv\<rparr>) run))"

definition setConfigCmd :: "('s, 't) MetaKV \<Rightarrow> string \<Rightarrow> string \<Rightarrow> string \<Rightarrow> ('s, unit) prog" where
  "setConfigCmd K basePath key val =
     (if key = [] \<or> val = [] then prog_return ()
      else (\<lambda>s. case SetEtcdConfig K basePath key val s of
             None \<Rightarrow> None
           | Some (Inl (Panic msg), s') \<Rightarrow> Some (Inl (Panic msg), s')
           | Some (_, s') \<Rightarrow> Some (Inr (), s')))"

end
