(* ===== verification/Etcd_Remove.thy ===== *)
theory Etcd_Remove
  imports Etcd_Collection
begin

text \<open>
  The removal commands (\<^verbatim>\<open>states/etcd/remove\<close>) and \<^verbatim>\<open>repair empty-segment\<close> (\<^verbatim>\<open>states/etcd/repair/segment_empty.go\<close>) over
  any metadata store. Printing is left out; a command's flag \<open>run\<close> separates a real run from a dry one. Where
  the code visits a Go map, the order is an argument.
\<close>

section \<open>Errors that are only printed\<close>

definition tolerate :: "('s, 'a) prog \<Rightarrow> ('s, unit) prog" where
  "tolerate m s =
     (case m s of
        None \<Rightarrow> None
      | Some (Inl (Panic msg), s') \<Rightarrow> Some (Inl (Panic msg), s')
      | Some (_, s') \<Rightarrow> Some (Inr (), s'))"

section \<open>Segments\<close>

text \<open>\<open>lo.GroupBy\<close>: the groups in some order, each in the order of the slice.\<close>

definition groups_of :: "(i64 list \<Rightarrow> i64 list) \<Rightarrow> SegmentModel list \<Rightarrow> (i64 \<times> SegmentModel list) list" where
  "groups_of order segments =
     map (\<lambda>c. (c, filter (\<lambda>m. si_CollectionID (sm_info m) = c) segments))
       (order (remdups (map (\<lambda>m. si_CollectionID (sm_info m)) segments)))"

definition by_collection :: "i64 \<Rightarrow> SegmentModel \<Rightarrow> bool" where
  "by_collection collectionID m \<longleftrightarrow> collectionID = 0 \<or> si_CollectionID (sm_info m) = collectionID"

definition remove_by_id :: "('s, 't) MetaKV \<Rightarrow> string \<Rightarrow> SegmentModel \<Rightarrow> ('s, unit) prog" where
  "remove_by_id K basePath m =
     tolerate (RemoveSegmentByID K basePath (si_CollectionID (sm_info m)) (si_PartitionID (sm_info m)) (si_ID (sm_info m)))"

definition SegmentOrphanCommand :: "('s, 't) MetaKV \<Rightarrow> collection_codec \<Rightarrow> (string \<Rightarrow> SegmentInfo result) \<Rightarrow>
    (i64 list \<Rightarrow> i64 list) \<Rightarrow> string \<Rightarrow> i64 \<Rightarrow> bool \<Rightarrow> ('s, unit) prog" where
  "SegmentOrphanCommand K M un order basePath collectionID run =
     prog_bind (ListSegments K un basePath [by_collection collectionID]) (\<lambda>segments.
       prog_for (groups_of order segments) (\<lambda>(c, group) s.
         case GetCollectionByIDVersion K M basePath c s of
           None \<Rightarrow> None
         | Some (Inl (Panic msg), s') \<Rightarrow> Some (Inl (Panic msg), s')
         | Some (Inl e, s') \<Rightarrow>
             if e = ErrCollectionNotFound \<and> run then prog_for group (remove_by_id K basePath) s' else Some (Inr (), s')
         | Some (Inr _, s') \<Rightarrow> Some (Inr (), s')))"

definition is_dirty_importing :: "i64 \<Rightarrow> SegmentModel \<Rightarrow> bool" where
  "is_dirty_importing ts m \<longleftrightarrow>
     (let info = sm_info m;
          dmlTs = GetTimestamp (si_DmlPosition info);
          segmentTs = (if dmlTs = 0 then GetTimestamp (si_StartPosition info) else dmlTs)
      in si_State info = Importing \<and> si_NumOfRows info = 0 \<and> segmentTs < ts)"

definition DirtyImportingSegmentCommand :: "('s, 't) MetaKV \<Rightarrow> (string \<Rightarrow> SegmentInfo result) \<Rightarrow> (i64 list \<Rightarrow> i64 list) \<Rightarrow>
    string \<Rightarrow> i64 \<Rightarrow> i64 \<Rightarrow> bool \<Rightarrow> ('s, unit) prog" where
  "DirtyImportingSegmentCommand K un order basePath collectionID ts run =
     prog_bind (ListSegments K un basePath [by_collection collectionID]) (\<lambda>segments.
       prog_for (groups_of order segments) (\<lambda>(c, group).
         prog_for group (\<lambda>m.
           if is_dirty_importing ts m \<and> run then remove_by_id K basePath m else prog_return ())))"

definition isEmptySegment :: "SegmentInfo \<Rightarrow> bool" where
  "isEmptySegment info \<longleftrightarrow>
     list_all (\<lambda>log. fb_Binlogs log = []) (si_Binlogs info) \<and> list_all (\<lambda>log. fb_Binlogs log = []) (si_Statslogs info) \<and>
     list_all (\<lambda>log. fb_Binlogs log = []) (si_Deltalogs info)"

definition repairable_state :: "SegmentModel \<Rightarrow> bool" where
  "repairable_state m \<longleftrightarrow> si_State (sm_info m) \<in> {Flushed, Flushing, Sealed}"

definition RepairEmptySegmentCommand :: "('s, 't) MetaKV \<Rightarrow> (string \<Rightarrow> SegmentInfo result) \<Rightarrow> (string \<Rightarrow> FieldBinlog result) \<Rightarrow>
    string \<Rightarrow> bool \<Rightarrow> ('s, unit) prog" where
  "RepairEmptySegmentCommand K un unb basePath run =
     tolerate (prog_bind (ListSegments K un basePath [repairable_state]) (\<lambda>segments.
       prog_for segments (\<lambda>m s.
         case FillFieldsIfV2 K unb basePath (sm_info m) s of
           None \<Rightarrow> None
         | Some (Inl (Panic msg), _, s') \<Rightarrow> Some (Inl (Panic msg), s')
         | Some (_, info, s') \<Rightarrow>
             if isEmptySegment info \<and> run then tolerate (RemoveSegment K basePath info) s' else Some (Inr (), s'))))"

text \<open>
  \<open>remove segment\<close>: the backup file of each segment is the argument \<open>backup\<close>, which may fail. The walk reads
  the store it was started on; a removal concerns a segment that was visited already.
\<close>

definition segment_filter :: "i64 \<Rightarrow> i64 \<Rightarrow> string \<Rightarrow> (SegmentState \<Rightarrow> string) \<Rightarrow> SegmentInfo \<Rightarrow> bool" where
  "segment_filter collectionID segmentID state state_name info \<longleftrightarrow>
     (collectionID = 0 \<or> si_CollectionID info = collectionID) \<and> (segmentID = 0 \<or> si_ID info = segmentID) \<and>
     (state = [] \<or> ToLower (state_name (si_State info)) = ToLower state)"

definition remove_segment_op :: "('s, 't) MetaKV \<Rightarrow> (SegmentInfo \<Rightarrow> unit result) \<Rightarrow> string \<Rightarrow> bool \<Rightarrow> SegmentInfo \<Rightarrow>
    ('s \<times> i64 \<times> i64, unit) go" where
  "remove_segment_op K backup basePath run info = (\<lambda>(s, removedCnt, dryRunCount).
     if \<not> run then (Inr (), s, removedCnt, dryRunCount + 1)
     else case backup info of
            Inl e \<Rightarrow> (Inl e, s, removedCnt, dryRunCount)
          | Inr _ \<Rightarrow>
              (case RemoveSegment K basePath info s of
                 Some (Inr _, s') \<Rightarrow> (Inr (), s', removedCnt + 1, dryRunCount)
               | Some (Inl e, s') \<Rightarrow> (Inl e, s', removedCnt, dryRunCount)
               | None \<Rightarrow> (Inl (Failure ''not returned''), s, removedCnt, dryRunCount)))"

definition RemoveSegmentCommand :: "('s, i64 \<times> 's \<times> i64 \<times> i64) MetaKV \<Rightarrow> (string \<Rightarrow> SegmentInfo result) \<Rightarrow>
    (SegmentInfo \<Rightarrow> unit result) \<Rightarrow> string \<Rightarrow> (SegmentInfo \<Rightarrow> bool) \<Rightarrow> i64 \<Rightarrow> bool \<Rightarrow> 's \<Rightarrow> (unit result \<times> 's \<times> i64 \<times> i64) option" where
  "RemoveSegmentCommand K un backup basePath flt maxNum run s =
     map_option (\<lambda>(r, st). (case r of Inl (Panic msg) \<Rightarrow> Inl (Panic msg) | _ \<Rightarrow> Inr (), st))
       (WalkAllSegments K un basePath (Some flt) (remove_segment_op K backup basePath run) maxNum s (s, 0, 0))"

section \<open>One binlog\<close>

definition backupKeyPrefix :: string where
  "backupKeyPrefix = ''birdwatcher/backup''"

definition backupBinlog :: "('s, 't) MetaKV \<Rightarrow> string \<Rightarrow> ('s, unit) prog" where
  "backupBinlog K key =
     prog_bind (prog_go (kv_Load K key)) (\<lambda>val. prog_go (kv_Save K (path_Join [backupKeyPrefix, key]) val))"

definition restoreBinlog :: "('s, 't) MetaKV \<Rightarrow> string \<Rightarrow> ('s, unit) prog" where
  "restoreBinlog K key =
     prog_bind (prog_go (kv_Load K (path_Join [backupKeyPrefix, key]))) (\<lambda>val. prog_go (kv_Save K key val))"

definition removeBinlog :: "('s, 't) MetaKV \<Rightarrow> string \<Rightarrow> ('s, unit) prog" where
  "removeBinlog K key = prog_go (kv_Remove K key)"

definition getFieldBinlog :: "('s, 't) MetaKV \<Rightarrow> (string \<Rightarrow> FieldBinlog result) \<Rightarrow> string \<Rightarrow> ('s, FieldBinlog) prog" where
  "getFieldBinlog K un key = prog_bind (prog_go (kv_Load K key)) (\<lambda>v. prog_lift (un v))"

definition removeLogFromFieldBinlog :: "i64 \<Rightarrow> FieldBinlog \<Rightarrow> FieldBinlog" where
  "removeLogFromFieldBinlog logID fieldBinlog =
     fieldBinlog\<lparr>fb_Binlogs := filter (\<lambda>binlog. logID \<noteq> bl_LogID binlog) (fb_Binlogs fieldBinlog)\<rparr>"

definition saveFieldBinlog :: "('s, 't) MetaKV \<Rightarrow> (FieldBinlog \<Rightarrow> string result) \<Rightarrow> string \<Rightarrow> FieldBinlog \<Rightarrow> ('s, unit) prog" where
  "saveFieldBinlog K marshal key fieldBinlog =
     prog_bind (prog_lift (marshal fieldBinlog)) (\<lambda>mb. prog_go (kv_Save K key mb))"

record RemoveBinlogParam =
  rb_LogType :: string
  rb_CollectionID :: i64
  rb_PartitionID :: i64
  rb_SegmentID :: i64
  rb_FieldID :: i64
  rb_LogID :: i64
  rb_Restore :: bool
  rb_RemoveAll :: bool
  rb_Run :: bool

definition rb_ids :: "RemoveBinlogParam \<Rightarrow> i64 list" where
  "rb_ids p = [rb_CollectionID p, rb_PartitionID p, rb_SegmentID p, rb_FieldID p]"

definition binlog_key :: "string \<Rightarrow> RemoveBinlogParam \<Rightarrow> string" where
  "binlog_key basePath p = path_Join [basePath, ''datacoord-meta'', rb_LogType p @ ''/'' @ ids_path (rb_ids p)]"

definition RemoveBinlogCommand :: "('s, 't) MetaKV \<Rightarrow> (string \<Rightarrow> FieldBinlog result) \<Rightarrow> (FieldBinlog \<Rightarrow> string result) \<Rightarrow>
    string \<Rightarrow> RemoveBinlogParam \<Rightarrow> ('s, unit) prog" where
  "RemoveBinlogCommand K un marshal basePath p =
     (let key = binlog_key basePath p
      in if rb_LogType p \<notin> {''binlog'', ''deltalog'', ''statslog''} then prog_fail (Failure ''p.LogType unknown'')
         else if rb_Restore p then restoreBinlog K key
         else prog_bind (backupBinlog K key) (\<lambda>_.
              prog_bind (getFieldBinlog K un key) (\<lambda>fieldBinlog.
                if rb_RemoveAll p then if rb_Run p then removeBinlog K key else prog_return ()
                else if rb_Run p then saveFieldBinlog K marshal key (removeLogFromFieldBinlog (rb_LogID p) fieldBinlog)
                else prog_return ())))"

section \<open>Sessions\<close>

text \<open>\<open>revoke\<close> is \<open>Lease.Revoke\<close> of the etcd client; \<open>LeaseNotFound\<close> is its sentinel.\<close>

definition RemoveSessionCommand :: "('s, 't) MetaKV \<Rightarrow> (string \<Rightarrow> Session result) \<Rightarrow> (i64 \<Rightarrow> ('s, unit) go) \<Rightarrow> go_error \<Rightarrow>
    string \<Rightarrow> string \<Rightarrow> i64 \<Rightarrow> bool \<Rightarrow> ('s, unit) prog" where
  "RemoveSessionCommand K un revoke LeaseNotFound basePath component sid run =
     prog_bind (ListSessions K un basePath) (\<lambda>all.
       let sessions = filter (\<lambda>s. ToLower (ServerName s) = ToLower component \<and> ServerID s = sid) all
       in if \<not> run then prog_return ()
          else prog_bind (prog_for sessions (\<lambda>session s.
                 case revoke (LeaseID session) s of
                   (Inl e, s') \<Rightarrow> Some (if e = LeaseNotFound then Inr () else Inl e, s')
                 | (Inr _, s') \<Rightarrow> Some (Inr (), s'))) (\<lambda>_.
               prog_for sessions (\<lambda>session s.
                 case kv_Load K (ses_key session) s of
                   (r, s') \<Rightarrow> Some (if r = Inl KeyNotFound then Inr () else Inl (Failure ''validation failed''), s'))))"

section \<open>Channels\<close>

record VchannelInfo =
  vc_CollectionID :: i64
  vc_ChannelName :: string

record ChannelWatchInfo =
  cw_Vchan :: "VchannelInfo option"
  cw_Schema :: "CollectionSchema option"

definition cw_ChannelName :: "ChannelWatchInfo \<Rightarrow> string" where
  "cw_ChannelName info = (case cw_Vchan info of None \<Rightarrow> [] | Some v \<Rightarrow> vc_ChannelName v)"

definition channel_targets :: "CollectionModel list \<Rightarrow> bool \<Rightarrow> ('p \<Rightarrow> string) \<Rightarrow> 'p ProtoWrapper list \<Rightarrow> string list" where
  "channel_targets collections force name ws =
     (let valid = \<Union> (set (map (\<lambda>c. set (coll_VirtualChannelNames (cm_proto c))) collections))
      in map wrapped_key (filter (\<lambda>w. name (wrapped_proto w) \<notin> valid \<or> force) ws))"

definition RemoveChannelCommand :: "('s, 't) MetaKV \<Rightarrow> collection_codec \<Rightarrow> (string \<Rightarrow> ChannelWatchInfo result) \<Rightarrow>
    (string \<Rightarrow> MsgPosition result) \<Rightarrow> string \<Rightarrow> string \<Rightarrow> bool \<Rightarrow> bool \<Rightarrow> ('s, unit) prog" where
  "RemoveChannelCommand K M unw unp basePath channel force run =
     prog_bind (ListCollections K M basePath []) (\<lambda>collections.
     prog_bind (ListChannelWatch K unw basePath [\<lambda>w. channel = [] \<or> cw_ChannelName (wrapped_proto w) = channel]) (\<lambda>watches.
     prog_bind (ListChannelCheckpoint K unp basePath [\<lambda>w. channel = [] \<or> pos_ChannelName (wrapped_proto w) = channel]) (\<lambda>cps.
       if \<not> run then prog_return ()
       else prog_for (channel_targets collections force cw_ChannelName watches @ channel_targets collections force pos_ChannelName cps)
              (\<lambda>path. tolerate (prog_go (kv_Remove K path))))))"

section \<open>Tasks, indexes, jobs, configuration\<close>

text \<open>The names of enumeration values are part of the decoded task.\<close>

record CompactionTask =
  ct_Type :: string
  ct_TriggerID :: i64
  ct_PlanID :: i64
  ct_State :: string
  ct_CollectionID :: i64
  ct_PartitionID :: i64

record CompactionTaskParam =
  cp_Type :: string
  cp_JobID :: string
  cp_TaskID :: string
  cp_State :: string
  cp_CollectionID :: i64
  cp_PartitionID :: i64

definition compaction_match :: "CompactionTaskParam \<Rightarrow> CompactionTask \<Rightarrow> bool" where
  "compaction_match p task \<longleftrightarrow>
     (cp_Type p = [] \<or> cp_Type p = ct_Type task) \<and>
     (cp_JobID p = [] \<or> format_int (sint (ct_TriggerID task)) = cp_JobID p) \<and>
     (cp_TaskID p = [] \<or> format_int (sint (ct_PlanID task)) = cp_TaskID p) \<and>
     (cp_State p = [] \<or> ct_State task = cp_State p) \<and>
     (sint (cp_CollectionID p) \<le> 0 \<or> ct_CollectionID task = cp_CollectionID p) \<and>
     (sint (cp_PartitionID p) \<le> 0 \<or> ct_PartitionID task = cp_PartitionID p)"

text \<open>Each task is removed with everything below its key.\<close>

definition RemoveCompactionTaskCommand :: "('s, 't) MetaKV \<Rightarrow> (string \<Rightarrow> CompactionTask result) \<Rightarrow> string \<Rightarrow>
    CompactionTaskParam \<Rightarrow> bool \<Rightarrow> ('s, unit) prog" where
  "RemoveCompactionTaskCommand K un basePath p run =
     prog_bind (ListCompactionTask K un basePath [\<lambda>w. compaction_match p (wrapped_proto w)]) (\<lambda>tasks.
       if \<not> run then prog_return ()
       else prog_for tasks (\<lambda>w. prog_go (kv_RemoveWithPrefix K (wrapped_key w))))"

record StatsTask =
  st_SubJobType :: string
  st_TaskID :: i64
  st_State :: string
  st_CollectionID :: i64
  st_SegmentID :: i64

record StatsTaskParam =
  sp_SubJobType :: string
  sp_TaskID :: string
  sp_State :: string
  sp_CollectionID :: i64
  sp_SegmentID :: i64

definition stats_match :: "StatsTaskParam \<Rightarrow> StatsTask \<Rightarrow> bool" where
  "stats_match p task \<longleftrightarrow>
     sp_SubJobType p = st_SubJobType task \<and>
     (sp_TaskID p = [] \<or> format_int (sint (st_TaskID task)) = sp_TaskID p) \<and>
     (sp_State p = [] \<or> st_State task = sp_State p) \<and>
     (sp_CollectionID p = 0 \<or> st_CollectionID task = sp_CollectionID p) \<and>
     (sp_SegmentID p = 0 \<or> st_SegmentID task = sp_SegmentID p)"

definition RemoveStatsTaskCommand :: "('s, 't) MetaKV \<Rightarrow> (string \<Rightarrow> StatsTask result) \<Rightarrow> string \<Rightarrow> StatsTaskParam \<Rightarrow> bool \<Rightarrow>
    ('s, unit) prog" where
  "RemoveStatsTaskCommand K un basePath p run =
     (if sp_SubJobType p = [] then prog_fail (Failure ''subJobType parameter is required'')
      else prog_bind (ListStatsTask K un basePath [\<lambda>w. stats_match p (wrapped_proto w)]) (\<lambda>tasks.
        if \<not> run then prog_return ()
        else prog_for tasks (\<lambda>w. prog_go (kv_RemoveWithPrefix K (wrapped_key w)))))"

text \<open>An index is identified by the id \<open>index_id\<close> reads from its message.\<close>

definition RemoveIndexCommand :: "('s, 't) MetaKV \<Rightarrow> (string \<Rightarrow> 'p result) \<Rightarrow> ('p \<Rightarrow> i64) \<Rightarrow> string \<Rightarrow> i64 \<Rightarrow> bool \<Rightarrow>
    ('s, unit) prog" where
  "RemoveIndexCommand K un index_id basePath indexID run =
     prog_bind (ListIndex K un basePath [\<lambda>w. index_id (wrapped_proto w) = indexID]) (\<lambda>indexes.
       if \<not> run then prog_return ()
       else prog_for indexes (\<lambda>w. prog_go (kv_Remove K (wrapped_key w))))"

definition RemoveImportJobCommand :: "('s, 't) MetaKV \<Rightarrow> (string \<Rightarrow> 'p result) \<Rightarrow> ('p \<Rightarrow> i64) \<Rightarrow> string \<Rightarrow> i64 \<Rightarrow> bool \<Rightarrow>
    ('s, unit) prog" where
  "RemoveImportJobCommand K un job_id basePath jobID run =
     prog_bind (ListImportJobs K un basePath [\<lambda>w. job_id (wrapped_proto w) = jobID]) (\<lambda>jobs.
       case jobs of
         [job] \<Rightarrow> if run then prog_go (kv_Remove K (wrapped_key job)) else prog_return ()
       | _ \<Rightarrow> prog_return ())"

definition RemoveEtcdConfigCommand :: "('s, 't) MetaKV \<Rightarrow> string \<Rightarrow> string \<Rightarrow> bool \<Rightarrow> ('s, unit) prog" where
  "RemoveEtcdConfigCommand K basePath key run =
     (if key = [] then prog_return ()
      else prog_bind (GetEtcdConfig K basePath key) (\<lambda>_.
        if \<not> run then prog_return () else RemoveEtcdConfig K basePath key))"

section \<open>Collections\<close>

definition is_dropping :: "CollectionModel \<Rightarrow> bool" where
  "is_dropping c \<longleftrightarrow> coll_State (cm_proto c) = CollectionDropping \<or> coll_State (cm_proto c) = CollectionDropped"

definition clean_prefixes :: "string \<Rightarrow> Collection \<Rightarrow> string list" where
  "clean_prefixes basePath c =
     (let i = format_int (sint (coll_ID c));
          collectionKey = (if coll_DbId c \<noteq> 0
            then ''root-coord/database/collection-info/'' @ format_int (sint (coll_DbId c)) @ ''/'' @ i
            else ''root-coord/collection/'' @ i)
      in [path_Join [basePath, ''root-coord/fields/'' @ i] @ ''/'',
          path_Join [basePath, ''snapshots'', ''root-coord/fields/'' @ i] @ ''/'',
          path_Join [basePath, ''root-coord/partitions/'' @ i] @ ''/'',
          path_Join [basePath, ''snapshots'', ''root-coord/partitions/'' @ i] @ ''/'',
          path_Join [basePath, ''snapshots'', collectionKey]])"

text \<open>
  The filter of the watch infos reads \<open>Vchan.CollectionID\<close> without the nil-safe getter, so one stored watch info
  without a virtual channel is a panic.
\<close>

definition cleanCollectionMeta :: "('s, 't) MetaKV \<Rightarrow> (string \<Rightarrow> ChannelWatchInfo result) \<Rightarrow> string \<Rightarrow> CollectionModel \<Rightarrow> bool \<Rightarrow>
    ('s, unit) prog" where
  "cleanCollectionMeta K unw basePath info run =
     (let collection = cm_proto info
      in if cm_key info = [] then prog_fail (Failure ''key is empty string, cannot perform cleanup'')
         else prog_bind (ListChannelWatch K unw basePath []) (\<lambda>all.
           let watches = filter (\<lambda>w. map_option vc_CollectionID (cw_Vchan (wrapped_proto w)) = Some (coll_ID collection)) all
           in if \<exists>w \<in> set all. cw_Vchan (wrapped_proto w) = None then prog_fail (Panic ''nil pointer dereference'')
           else if \<exists>w \<in> set watches. wrapped_key w = [] then prog_fail (Failure ''watch info key is empty'')
           else prog_bind (prog_lift (Collection_Channels collection)) (\<lambda>channels.
             let ks = cm_key info # map wrapped_key watches @
                   concat (map (\<lambda>ch. [path_Join [basePath, ''datacoord-meta/channel-cp'', VirtualName ch],
                                      path_Join [basePath, ''datacoord-meta/channel-removal'', VirtualName ch]]) channels)
             in if \<not> run then prog_return ()
                else prog_bind (prog_for (clean_prefixes basePath collection)
                       (\<lambda>p. tolerate (prog_go (kv_RemoveWithPrefix K p)))) (\<lambda>_.
                     prog_for ks (\<lambda>k. tolerate (prog_go (kv_Remove K k)))))))"

text \<open>Printing the name reads the schema, which may be nil.\<close>

definition CollectionDropCommand :: "('s, 't) MetaKV \<Rightarrow> collection_codec \<Rightarrow> (string \<Rightarrow> ChannelWatchInfo result) \<Rightarrow> string \<Rightarrow> i64 \<Rightarrow>
    bool \<Rightarrow> ('s, unit) prog" where
  "CollectionDropCommand K M unw basePath collectionID run =
     prog_bind (if 0 < sint collectionID
        then prog_bind (GetCollectionByIDVersion K M basePath collectionID) (\<lambda>c.
               prog_return (if is_dropping c then [c] else []))
        else ListCollections K M basePath [is_dropping]) (\<lambda>collections.
       prog_for collections (\<lambda>c.
         prog_bind (prog_lift (schema_fields c)) (\<lambda>_. cleanCollectionMeta K unw basePath c run)))"

text \<open>
  \<open>remove collection-meta-leaked\<close>: a key goes when no element of its path behind the prefix is the id of a listed
  collection. \<open>sKey[len(prefix):]\<close> slices at the length of the uncleaned prefix. The walk reads the store it
  was started on; a removal concerns a key that was visited already.
\<close>

definition leaked :: "string \<Rightarrow> string list \<Rightarrow> string \<Rightarrow> bool" where
  "leaked pre ids key \<longleftrightarrow> (\<forall>part \<in> set (split_on slash (drop (length pre) key)). part \<notin> set ids)"

definition clean_visit :: "('s, 's) MetaKV \<Rightarrow> string \<Rightarrow> string list \<Rightarrow> (string \<Rightarrow> bool) \<Rightarrow> bool \<Rightarrow> string \<Rightarrow> string \<Rightarrow> ('s, unit) go"
  where
  "clean_visit K pre ids excluded run key v =
     (if excluded key then go_return ()
      else if length key < length pre then go_fail (Panic ''slice bounds out of range'')
      else if leaked pre ids key \<and> run then kv_Remove K key else go_return ())"

definition cleanMetaFn :: "('s, 's) MetaKV \<Rightarrow> string list \<Rightarrow> bool \<Rightarrow> string \<Rightarrow> (string \<Rightarrow> bool) \<Rightarrow> ('s, unit) prog" where
  "cleanMetaFn K ids run pre excluded s = kv_WalkWithPrefix K pre 2000 (clean_visit K pre ids excluded run) s s"

definition CollectionMetaLeakedCommand :: "('s, 's) MetaKV \<Rightarrow> collection_codec \<Rightarrow> string \<Rightarrow> bool \<Rightarrow> ('s, unit) prog" where
  "CollectionMetaLeakedCommand K M basePath run =
     prog_bind (ListCollections K M basePath []) (\<lambda>collections.
       let ids = map (\<lambda>c. format_int (sint (coll_ID (cm_proto c)))) collections
       in prog_bind (prog_for [path_Join [basePath, CollectionMetaPrefix], path_Join [basePath, DBCollectionMetaPrefix],
              path_Join [basePath, ''root-coord/fields''], path_Join [basePath, ''snapshots'', ''root-coord/fields''],
              path_Join [basePath, ''partitions''], path_Join [basePath, ''snapshots'', ''partitions'']]
            (\<lambda>pre. cleanMetaFn K ids run pre (\<lambda>_. False))) (\<lambda>_.
          cleanMetaFn K ids run (path_Join [basePath, ''datacoord-meta'', ''s''])
            (prefix (path_Join [basePath, ''datacoord-meta'', ''statslog'']))))"

section \<open>What a removal by key removes\<close>

lemma prog_for_Cons_Inr:
  "prog_for (x # xs) body s = Some (Inr (), s') \<longleftrightarrow> (\<exists>s1. body x s = Some (Inr (), s1) \<and> prog_for xs body s1 = Some (Inr (), s'))"
  by (auto simp: prog_bind_Inr_iff)

context meta_kv
begin

lemma remove_keys:
  "prog_for ws (\<lambda>w. prog_go (kv_Remove K (wrapped_key w))) s = Some (Inr (), s') \<Longrightarrow>
    \<forall>w \<in> set ws. joinPath [[], wrapped_key w] = wrapped_key w \<Longrightarrow>
    view s' = view s |` {k. k \<notin> wrapped_key ` set ws}"
proof (induction ws arbitrary: s)
  case Nil
  then show ?case by (simp add: restrict_map_def)
next
  case (Cons w ws)
  from Cons.prems(1) obtain s1 where s1: "kv_Remove K (wrapped_key w) s = (Inr (), s1)"
    and rest: "prog_for ws (\<lambda>w. prog_go (kv_Remove K (wrapped_key w))) s1 = Some (Inr (), s')"
    unfolding prog_for_Cons_Inr by auto
  have "view s1 = (view s)(wrapped_key w := None)" using Remove [OF s1] Cons.prems(2) by simp
  with Cons.IH [OF rest] Cons.prems(2) show ?case by (auto simp: restrict_map_def fun_eq_iff)
qed

end

text \<open>
  \<open>remove index\<close> removes the entries of exactly the indexes with the given id as long as every value
  below the index directory decodes. When one does not, the key of the index behind it is off by one: the
  command removes the entry that it could not read and leaves the index it was asked to remove.
\<close>

theorem RemoveIndexCommand_targets:
  assumes "meta_kv K view" and "plain_path base" and "RemoveIndexCommand K un index_id base i True s = Some (Inr (), s')"
    and "es = sorted_kvs (view s) (prefix (base @ ''/field-index/''))" and "\<forall>(k, v) \<in> set es. joinPath [[], k] = k"
  shows "((\<forall>(k, v) \<in> set es. decodes un v) \<longrightarrow>
      view s' = view s |` {k. \<forall>v. (k, v) \<in> set es \<longrightarrow> index_id (decoded un v) \<noteq> i}) \<and>
    (\<forall>k0 v0 k1 v1. es = [(k0, v0), (k1, v1)] \<longrightarrow> \<not> decodes un v0 \<longrightarrow> decodes un v1 \<longrightarrow> index_id (decoded un v1) = i \<longrightarrow>
      view s' = (view s)(k0 := None))"
proof -
  let ?pre = "path_Join [base, ''field-index''] @ ''/''"
  let ?ws = "filter (\<lambda>w. index_id (wrapped_proto w) = i)
    (map (\<lambda>(info, k). NewProtoWrapper info k) (zip (map (decoded un) (filter (decodes un) (map snd es))) (map fst es)))"
  have pp: "plain_path ''field-index''" by (simp add: plain_path_def plain_part_def)
  have pj: "path_Join [base, ''field-index''] = base @ ''/field-index''"
    using path_Join_plain [of "[base, ''field-index'']"] assms(2) pp by simp
  have p: "joinPath [[], ?pre] = base @ ''/field-index/''"
    using joinPath_plain(2) [of "base @ ''/field-index''"] assms(2) pp by (simp add: pj)
  have ends: "ends_plain (joinPath [[], ?pre])" unfolding p by (simp add: ends_plain_def)
  from assms(3) obtain r where r: "kv_LoadWithPrefix K ?pre s = Some (Inr r)"
    by (auto simp: RemoveIndexCommand_def ListIndex_def ListObj2Models_def ListProtoObjects_def prog_bind_Inr_iff)
  then have load: "kv_LoadWithPrefix K ?pre s = Some (Inr (map fst es, map snd es))"
    using meta_kv.load_entries [OF assms(1) r ends] assms(4) p by simp
  have "prog_for ?ws (\<lambda>w. prog_go (kv_Remove K (wrapped_key w))) s = Some (Inr (), s')"
    using assms(3) ListObj2Models_result [OF load, of un NewProtoWrapper "[\<lambda>w. index_id (wrapped_proto w) = i]"]
    by (simp add: RemoveIndexCommand_def ListIndex_def prog_bind_def case_prod_unfold)
  moreover have "\<forall>w \<in> set ?ws. joinPath [[], wrapped_key w] = wrapped_key w"
    using assms(5) by (fastforce simp: NewProtoWrapper_def dest!: set_zip_rightD)
  ultimately have v: "view s' = view s |` {k. k \<notin> wrapped_key ` set ?ws}" by (rule meta_kv.remove_keys [OF assms(1)])
  have "wrapped_key ` set ?ws = {k. \<exists>v. (k, v) \<in> set es \<and> index_id (decoded un v) = i}"
    if "\<forall>(k, v) \<in> set es. decodes un v"
    using zip_decoded_all [OF that] by (force simp: NewProtoWrapper_def image_iff)
  then have "view s' = view s |` {k. \<forall>v. (k, v) \<in> set es \<longrightarrow> index_id (decoded un v) \<noteq> i}"
    if "\<forall>(k, v) \<in> set es. decodes un v"
    using v that by (simp add: Collect_neg_eq [symmetric])
  moreover have "view s' = (view s)(k0 := None)"
    if "es = [(k0, v0), (k1, v1)]" "\<not> decodes un v0" "decodes un v1" "index_id (decoded un v1) = i" for k0 v0 k1 v1
    using v that by (auto simp: NewProtoWrapper_def restrict_map_def fun_eq_iff)
  ultimately show ?thesis by blast
qed

theorem RemoveIndexCommand_targets_witness:
  "\<exists>s'. RemoveIndexCommand (ref_kv :: (_, unit) MetaKV) (\<lambda>v. if v = ''7'' then Inr 7 else Inl EOF) id ''a'' 7 True
      [(''a/field-index/1'', ''bad''), (''a/field-index/2'', ''7'')] = Some (Inr (), s') \<and>
    map_of s' = (map_of [(''a/field-index/1'', ''bad''), (''a/field-index/2'', ''7'')])(''a/field-index/1'' := None)"
proof -
  let ?un = "\<lambda>v. if v = ''7'' then Inr (7 :: i64) else Inl EOF"
  let ?s = "[(''a/field-index/1'', ''bad''), (''a/field-index/2'', ''7'')]"
  have pp: "plain_path ''a''" "plain_path ''field-index''" "plain_path ''a/field-index''" "plain_path ''a/field-index/1''"
    "plain_path ''a/field-index/2''" by (simp_all add: plain_path_def plain_part_def)
  have j: "joinPath [[], path_Join [''a'', ''field-index''] @ ''/''] = ''a/field-index/''"
    using joinPath_plain(2) [OF pp(3)] path_Join_plain [of "[''a'', ''field-index'']"] pp by simp
  have k: "joinPath [[], ''a/field-index/1''] = ''a/field-index/1''" "joinPath [[], ''a/field-index/2''] = ''a/field-index/2''"
    using joinPath_plain(1) pp(4,5) by blast+
  have "sorted_wrt (<) (map fst ?s)" by (simp add: less_char_def)
  then have es: "sorted_kvs (map_of ?s) (prefix (''a'' @ ''/field-index/'')) = ?s" by (subst sorted_kvs_alist) simp_all
  have "kv_LoadWithPrefix (ref_kv :: (_, unit) MetaKV) (path_Join [''a'', ''field-index''] @ ''/'') ?s = Some (Inr (map fst ?s, map snd ?s))"
    using es by (simp only: ref_kv_ops j) simp
  from ListObj2Models_result [OF this, of ?un NewProtoWrapper "[\<lambda>w. id (wrapped_proto w) = 7]"]
  have list: "ListIndex (ref_kv :: (_, unit) MetaKV) ?un ''a'' [\<lambda>w. id (wrapped_proto w) = 7] ?s =
      Some (Inr [NewProtoWrapper 7 ''a/field-index/1''], ?s)"
    by (simp add: ListIndex_def decodes_def decoded_def NewProtoWrapper_def)
  have "\<exists>s'. RemoveIndexCommand (ref_kv :: (_, unit) MetaKV) ?un id ''a'' 7 True ?s = Some (Inr (), s')"
    unfolding RemoveIndexCommand_def prog_bind_def [of "ListIndex _ _ _ _"] list
    by (simp add: NewProtoWrapper_def prog_bind_def)
  then obtain s' where run: "RemoveIndexCommand (ref_kv :: (_, unit) MetaKV) ?un id ''a'' 7 True ?s = Some (Inr (), s')" by blast
  have "map_of s' = (map_of ?s)(''a/field-index/1'' := None)"
    using RemoveIndexCommand_targets [OF ref_kv_meta pp(1) run refl] unfolding es by (simp add: k decodes_def decoded_def)
  with run show ?thesis by blast
qed

section \<open>A removed binlog can be restored\<close>

lemma plain_binlog_key:
  assumes "plain_path base" and "rb_LogType p \<in> {''binlog'', ''deltalog'', ''statslog''}"
  shows "binlog_key base p = base @ ''/datacoord-meta/'' @ rb_LogType p @ ''/'' @ ids_path (rb_ids p)"
    and "joinPath [[], binlog_key base p] = binlog_key base p"
    and "joinPath [[], path_Join [backupKeyPrefix, binlog_key base p]] = ''birdwatcher/backup/'' @ binlog_key base p"
proof -
  have kind: "plain_path (rb_LogType p @ ''/'' @ ids_path (rb_ids p))"
    using assms(2) plain_ids [of "rb_ids p"] by (auto simp: rb_ids_def)
  then show k: "binlog_key base p = base @ ''/datacoord-meta/'' @ rb_LogType p @ ''/'' @ ids_path (rb_ids p)"
    unfolding binlog_key_def using dir_path [OF assms(1) _ kind, of "''datacoord-meta''"] by simp
  have pk: "plain_path (binlog_key base p)"
    unfolding k using assms(1) kind plain_path_slash [of base "''datacoord-meta/'' @ rb_LogType p @ ''/'' @ ids_path (rb_ids p)"]
      plain_path_slash [of "''datacoord-meta''" "rb_LogType p @ ''/'' @ ids_path (rb_ids p)"] by simp
  then show "joinPath [[], binlog_key base p] = binlog_key base p" by (simp add: joinPath_plain)
  have b: "plain_path ''birdwatcher/backup''" by (simp add: plain_path_def plain_part_def)
  have "path_Join [backupKeyPrefix, binlog_key base p] = ''birdwatcher/backup/'' @ binlog_key base p"
    using path_Join_plain [of "[''birdwatcher/backup'', binlog_key base p]"] pk b by (simp add: backupKeyPrefix_def)
  moreover have "plain_path (''birdwatcher/backup/'' @ binlog_key base p)"
    using plain_path_slash [of "''birdwatcher/backup''" "binlog_key base p"] pk b by simp
  ultimately show "joinPath [[], path_Join [backupKeyPrefix, binlog_key base p]] = ''birdwatcher/backup/'' @ binlog_key base p"
    by (simp add: joinPath_plain)
qed

text \<open>
  Property C26. What \<^verbatim>\<open>remove binlog\<close> removes, one log or the whole field, its restore mode brings back: after a removal
  and a restore with the same parameters the entry holds its old value, and nothing else has changed but the
  backup entry. The backup is written before the dry-run flag is looked at, so a dry run changes the store, too.
\<close>

theorem RemoveBinlog_restore:
  assumes "meta_kv K view" and "plain_path base" and "\<not> rb_Restore p"
    and "RemoveBinlogCommand K un marshal base p s = Some (Inr (), s1)"
    and "RemoveBinlogCommand K un marshal base (p\<lparr>rb_Restore := True\<rparr>) s1 = Some (Inr (), s2)"
  shows "\<exists>v. view s (binlog_key base p) = Some v \<and>
    view s2 = (view s)(''birdwatcher/backup/'' @ binlog_key base p \<mapsto> v) \<and>
    (\<not> rb_Run p \<longrightarrow> view s1 = (view s)(''birdwatcher/backup/'' @ binlog_key base p \<mapsto> v))"
proof -
  let ?k = "binlog_key base p" and ?b = "path_Join [backupKeyPrefix, binlog_key base p]"
  have kind: "rb_LogType p \<in> {''binlog'', ''deltalog'', ''statslog''}"
    using assms(4) by (auto simp: RemoveBinlogCommand_def Let_def split: if_splits)
  note key = plain_binlog_key(2,3) [OF assms(2) kind]
  have same: "binlog_key base (p\<lparr>rb_Restore := True\<rparr>) = ?k" by (simp add: binlog_key_def rb_ids_def)
  from assms(4) kind assms(3) obtain sa u where
    bak: "backupBinlog K ?k s = Some (Inr u, sa)" and
    rest: "prog_bind (getFieldBinlog K un ?k) (\<lambda>fieldBinlog.
      if rb_RemoveAll p then if rb_Run p then removeBinlog K ?k else prog_return ()
      else if rb_Run p then saveFieldBinlog K marshal ?k (removeLogFromFieldBinlog (rb_LogID p) fieldBinlog)
      else prog_return ()) sa = Some (Inr (), s1)"
    by (auto simp: RemoveBinlogCommand_def Let_def prog_bind_Inr_iff [of "backupBinlog K _"])
  from bak obtain v s0 where load: "kv_Load K ?k s = (Inr v, s0)" and save: "kv_Save K ?b v s0 = (Inr (), sa)"
    by (auto simp: backupBinlog_def prog_bind_Inr_iff)
  have v: "view s ?k = Some v" "s0 = s" using meta_kv.Load [OF assms(1) load] key by simp_all
  have sa: "view sa = (view s)(''birdwatcher/backup/'' @ ?k \<mapsto> v)" using meta_kv.Save [OF assms(1) save] v(2) key by simp
  from rest obtain f sb where f: "getFieldBinlog K un ?k sa = Some (Inr f, sb)" and
    chg: "(if rb_RemoveAll p then if rb_Run p then removeBinlog K ?k else prog_return ()
      else if rb_Run p then saveFieldBinlog K marshal ?k (removeLogFromFieldBinlog (rb_LogID p) f) else prog_return ()) sb = Some (Inr (), s1)"
    by (auto simp: prog_bind_Inr_iff)
  have sb: "sb = sa" using f meta_kv.Load [OF assms(1)] by (fastforce simp: getFieldBinlog_def prog_bind_Inr_iff)
  have other: "\<forall>q. q \<noteq> ?k \<longrightarrow> view s1 q = view sa q" and dry: "\<not> rb_Run p \<longrightarrow> s1 = sa"
    using chg meta_kv.Remove [OF assms(1), of ?k sb s1] meta_kv.Save [OF assms(1), of ?k _ sb s1] key
    by (auto simp: sb removeBinlog_def saveFieldBinlog_def prog_bind_Inr_iff split: if_splits)
  from assms(5) kind obtain w sc where load2: "kv_Load K ?b s1 = (Inr w, sc)" and save2: "kv_Save K ?k w sc = (Inr (), s2)"
    by (auto simp: RemoveBinlogCommand_def Let_def same restoreBinlog_def prog_bind_Inr_iff)
  have bk: "''birdwatcher/backup/'' @ ?k \<noteq> ?k" by simp
  have "w = v" "sc = s1" using meta_kv.Load [OF assms(1) load2] other bk sa key by auto
  then have "view s2 = (view s1)(?k \<mapsto> v)" using meta_kv.Save [OF assms(1) save2] key by simp
  then have "view s2 = (view s)(''birdwatcher/backup/'' @ ?k \<mapsto> v)"
    using other sa v(1) by (auto simp: fun_eq_iff)
  with v sa dry show ?thesis by auto
qed

theorem RemoveBinlog_restore_witness:
  "\<exists>s1. RemoveBinlogCommand (ref_kv :: (_, unit) MetaKV) (\<lambda>v. Inr \<lparr>fb_FieldID = 1, fb_Binlogs = [], fb_ChildFields = []\<rparr>)
      (\<lambda>f. Inr ''new'') ''a'' \<lparr>rb_LogType = ''binlog'', rb_CollectionID = 1, rb_PartitionID = 2, rb_SegmentID = 3, rb_FieldID = 4,
        rb_LogID = 5, rb_Restore = False, rb_RemoveAll = False, rb_Run = False\<rparr>
      [(''a/datacoord-meta/binlog/1/2/3/4'', ''old'')] = Some (Inr (), s1) \<and>
    map_of s1 = [''a/datacoord-meta/binlog/1/2/3/4'' \<mapsto> ''old'', ''birdwatcher/backup/a/datacoord-meta/binlog/1/2/3/4'' \<mapsto> ''old'']"
proof -
  let ?un = "\<lambda>v. Inr \<lparr>fb_FieldID = 1, fb_Binlogs = [], fb_ChildFields = []\<rparr> :: FieldBinlog result"
  let ?p = "\<lparr>rb_LogType = ''binlog'', rb_CollectionID = 1, rb_PartitionID = 2, rb_SegmentID = 3, rb_FieldID = 4,
        rb_LogID = 5, rb_Restore = False, rb_RemoveAll = False, rb_Run = False\<rparr>"
  let ?s = "[(''a/datacoord-meta/binlog/1/2/3/4'', ''old'')]"
  let ?cmd = "RemoveBinlogCommand (ref_kv :: (_, unit) MetaKV) ?un (\<lambda>f. Inr ''new'') ''a''"
  have pp: "plain_path ''a''" by (simp add: plain_path_def plain_part_def)
  have key: "binlog_key ''a'' ?p = ''a/datacoord-meta/binlog/1/2/3/4''" "binlog_key ''a'' (?p\<lparr>rb_Restore := True\<rparr>) = ''a/datacoord-meta/binlog/1/2/3/4''"
    using plain_binlog_key(1) [OF pp, of ?p] plain_binlog_key(1) [OF pp, of "?p\<lparr>rb_Restore := True\<rparr>"]
    by (simp_all add: rb_ids_def ids_path_def format_int_def small_numbers)
  have j: "joinPath [[], ''a/datacoord-meta/binlog/1/2/3/4''] = ''a/datacoord-meta/binlog/1/2/3/4''"
    "joinPath [[], path_Join [backupKeyPrefix, ''a/datacoord-meta/binlog/1/2/3/4'']] = ''birdwatcher/backup/a/datacoord-meta/binlog/1/2/3/4''"
    using plain_binlog_key(2,3) [OF pp, of ?p] key by simp_all
  have run: "?cmd ?p ?s = Some (Inr (), (''birdwatcher/backup/a/datacoord-meta/binlog/1/2/3/4'', ''old'') # ?s)
    \<or> (\<exists>s1 s2. ?cmd ?p ?s = Some (Inr (), s1) \<and> ?cmd (?p\<lparr>rb_Restore := True\<rparr>) s1 = Some (Inr (), s2))"
    unfolding RemoveBinlogCommand_def key Let_def
    by (simp add: backupBinlog_def getFieldBinlog_def restoreBinlog_def prog_bind_def j read_result_def)
  then obtain s1 s2 where "?cmd ?p ?s = Some (Inr (), s1)" "?cmd (?p\<lparr>rb_Restore := True\<rparr>) s1 = Some (Inr (), s2)"
    unfolding RemoveBinlogCommand_def key Let_def
    by (auto simp: backupBinlog_def getFieldBinlog_def restoreBinlog_def prog_bind_def j read_result_def)
  with RemoveBinlog_restore [OF ref_kv_meta pp _ this] show ?thesis unfolding key by (auto simp: fun_eq_iff)
qed

section \<open>Only dirty importing segments are removed\<close>

lemma prog_for_noop: "(\<And>x. x \<in> set xs \<Longrightarrow> f x s = Some (Inr (), s)) \<Longrightarrow> prog_for xs f s = Some (Inr (), s)"
  by (induction xs) (simp_all add: prog_bind_def)

lemma prog_for_invariant:
  assumes "prog_for xs body s = Some (r, s')" and "P s"
    and "\<And>x s r s1. x \<in> set xs \<Longrightarrow> P s \<Longrightarrow> body x s = Some (r, s1) \<Longrightarrow> P s1"
  shows "P s'"
  using assms
proof (induction xs arbitrary: s)
  case Nil
  then show ?case by simp
next
  case (Cons x xs)
  obtain r1 s1 where b: "body x s = Some (r1, s1)" using Cons.prems(1) by (cases "body x s") (auto simp: prog_bind_def)
  have "P s1" using Cons.prems(2) Cons.prems(3) [of x s r1 s1] b by simp
  with Cons.IH [of s1] Cons.prems(1,3) b show ?case by (cases r1) (auto simp: prog_bind_def)
qed

definition segment_keys :: "string \<Rightarrow> SegmentInfo \<Rightarrow> string set" where
  "segment_keys base info = (\<lambda>kind. base @ ''/datacoord-meta/'' @ kind @ ''/'' @ segment_ids info) `
     {''s'', ''binlog'', ''deltalog'', ''statslog''}"

context meta_kv
begin

lemma remove_by_id_frame:
  assumes "plain_path base" and "remove_by_id K base m s = Some (r, s')" and "k \<notin> segment_keys base (sm_info m)"
  shows "view s' k = view s k"
proof -
  let ?info = "sm_info m"
  let ?at = "\<lambda>kind. base @ ''/datacoord-meta/'' @ kind @ ''/'' @ segment_ids ?info"
  have at: "joinPath [[], path_Join [base, ''datacoord-meta/s'', segment_ids ?info]] = ?at ''s''"
    "joinPath [[], path_Join [base, ''datacoord-meta/binlog'', segment_ids ?info]] = ?at ''binlog''"
    "joinPath [[], path_Join [base, ''datacoord-meta/deltalog'', segment_ids ?info]] = ?at ''deltalog''"
    "joinPath [[], path_Join [base, ''datacoord-meta/statslog'', segment_ids ?info]] = ?at ''statslog''"
    using assms(1) by (simp_all add: joined_path)
  have k: "k \<noteq> ?at ''s''" "k \<noteq> ?at ''binlog''" "k \<noteq> ?at ''deltalog''" "k \<noteq> ?at ''statslog''"
    using assms(3) by (auto simp: segment_keys_def)
  note frame = Remove_frame [of "path_Join [base, ''datacoord-meta/s'', segment_ids ?info]" _ _ _ k, unfolded at, OF _ k(1)]
    Remove_frame [of "path_Join [base, ''datacoord-meta/binlog'', segment_ids ?info]" _ _ _ k, unfolded at, OF _ k(2)]
    Remove_frame [of "path_Join [base, ''datacoord-meta/deltalog'', segment_ids ?info]" _ _ _ k, unfolded at, OF _ k(3)]
    Remove_frame [of "path_Join [base, ''datacoord-meta/statslog'', segment_ids ?info]" _ _ _ k, unfolded at, OF _ k(4)]
  obtain r0 where "RemoveSegmentByID K base (si_CollectionID ?info) (si_PartitionID ?info) (si_ID ?info) s = Some (r0, s')"
    using assms(2) by (auto simp: remove_by_id_def tolerate_def split: option.splits sum.splits go_error.splits)
  then show ?thesis
    unfolding RemoveSegmentByID_def segment_ids_def [symmetric] Let_def
    by (auto simp: prog_bind_def ignore_result_def frame split: prod.splits sum.splits) (metis frame prod.collapse)+
qed

end

text \<open>The listed segments come from entries below the segment directory.\<close>

lemma ListSegments_entries:
  assumes "meta_kv K view" and "plain_path base" and "ListSegments K un base filters s = Some (Inr ms, s')"
  shows "s' = s \<and> (\<forall>m \<in> set ms. list_all (\<lambda>f. f m) filters \<and>
    (\<exists>k v. prefix (base @ ''/datacoord-meta/s/'') k \<and> view s k = Some v \<and> un v = Inr (sm_info m)))"
proof -
  let ?pre = "path_Join [base, ''datacoord-meta'', ''s''] @ ''/''"
  let ?es = "sorted_kvs (view s) (prefix (base @ ''/datacoord-meta/s/''))"
  have d: "plain_path (base @ ''/datacoord-meta/s'')" using assms(2) plain_path_slash [of base "''datacoord-meta/s''"] by simp
  have p: "joinPath [[], ?pre] = base @ ''/datacoord-meta/s/''" using joinPath_plain(2) [OF d] assms(2) by (simp add: dir_path)
  from assms(3) obtain r where r: "kv_LoadWithPrefix K ?pre s = Some (Inr r)"
    by (auto simp: ListSegments_def ListObj2Models_def ListProtoObjects_def prog_bind_Inr_iff)
  then have load: "kv_LoadWithPrefix K ?pre s = Some (Inr (map fst ?es, map snd ?es))"
    using meta_kv.load_entries [OF assms(1) r ends_plain_dir] p by simp
  have same: "s' = s" using assms(3) unfolding ListSegments_def ListObj2Models_result [OF load] by simp
  have ms: "ms = filter (\<lambda>m. list_all (\<lambda>f. f m) filters)
      (map (\<lambda>(info, k). NewSegment info k) (zip (map (decoded un) (filter (decodes un) (map snd ?es))) (map fst ?es)))"
    using assms(3) unfolding same ListSegments_def ListObj2Models_result [OF load] by simp
  have "\<exists>k v. prefix (base @ ''/datacoord-meta/s/'') k \<and> view s k = Some v \<and> un v = Inr (sm_info m)" if "m \<in> set ms" for m
  proof -
    from that obtain info k where "(info, k) \<in> set (zip (map (decoded un) (filter (decodes un) (map snd ?es))) (map fst ?es))"
      "m = NewSegment info k" unfolding ms by auto
    then have "sm_info m \<in> set (map (decoded un) (filter (decodes un) (map snd ?es)))"
      by (auto simp: NewSegment_def dest!: set_zip_leftD)
    then obtain key v where "(key, v) \<in> set ?es" "decodes un v" "sm_info m = decoded un v" by fastforce
    then show ?thesis
      unfolding set_sorted_kvs [OF meta_kv.view_finite [OF assms(1)]]
      by (cases "un v") (auto simp: decodes_def decoded_def)
  qed
  with same ms show ?thesis by auto
qed

text \<open>
  \<^verbatim>\<open>remove dirty-importing-segment\<close> is safe: a dry run changes nothing, and a real run, in whatever order
  the groups are visited and whatever fails on the way, changes no key but the entry and the three log
  directories of a stored segment that is importing, has no rows and is older than the given time stamp.
\<close>

theorem DirtyImporting_safe:
  assumes "meta_kv K view" and "plain_path base"
    and "DirtyImportingSegmentCommand K un order base collectionID ts run s = Some (r, s')"
  shows "(\<not> run \<longrightarrow> view s' = view s) \<and>
    (\<forall>k. view s' k \<noteq> view s k \<longrightarrow> (\<exists>m key v. view s key = Some v \<and> un v = Inr (sm_info m) \<and> is_dirty_importing ts m \<and>
      by_collection collectionID m \<and> k \<in> segment_keys base (sm_info m)))"
proof (cases "ListSegments K un base [by_collection collectionID] s")
  case None
  then show ?thesis using assms(3) by (simp add: DirtyImportingSegmentCommand_def prog_bind_def)
next
  case (Some rs)
  obtain r0 s0 where rs: "rs = (r0, s0)" by force
  show ?thesis
  proof (cases r0)
    case (Inl e)
    have "s0 = s"
      using Some by (auto simp: rs Inl ListSegments_def ListObj2Models_def ListProtoObjects_def prog_bind_def prog_read_def
          split: option.splits sum.splits prod.splits if_splits)
    then show ?thesis using assms(3) Some by (simp add: DirtyImportingSegmentCommand_def prog_bind_def rs Inl)
  next
    case (Inr ms)
    note entries = ListSegments_entries [OF assms(1,2) Some [unfolded rs Inr]]
    define P where "P = (\<lambda>\<sigma>. (\<not> run \<longrightarrow> view \<sigma> = view s) \<and>
      (\<forall>k. (\<forall>m \<in> set ms. is_dirty_importing ts m \<longrightarrow> k \<notin> segment_keys base (sm_info m)) \<longrightarrow> view \<sigma> k = view s k))"
    have body: "P s1" if "m \<in> set ms" "P \<sigma>"
      "(if is_dirty_importing ts m \<and> run then remove_by_id K base m else prog_return ()) \<sigma> = Some (x, s1)" for m \<sigma> x s1
      using that meta_kv.remove_by_id_frame [OF assms(1,2), of m \<sigma> x s1] by (auto simp: P_def split: if_splits)
    have group: "P s1" if "cg \<in> set (groups_of order ms)" "P \<sigma>"
      "(\<lambda>(c, group). prog_for group (\<lambda>m. if is_dirty_importing ts m \<and> run then remove_by_id K base m else prog_return ())) cg \<sigma> = Some (x, s1)"
      for cg \<sigma> x s1
    proof -
      note g = that
      obtain c group where cg: "cg = (c, group)" and sub: "set group \<subseteq> set ms" using g(1)
        unfolding groups_of_def by force
      show "P s1"
      proof (rule prog_for_invariant [where P = P, OF _ g(2)])
        show "prog_for group (\<lambda>m. if is_dirty_importing ts m \<and> run then remove_by_id K base m else prog_return ()) \<sigma> = Some (x, s1)"
          using g(3) by (simp add: cg)
      qed (use sub body in blast)
    qed
    have "prog_for (groups_of order ms) (\<lambda>(c, group). prog_for group (\<lambda>m.
        if is_dirty_importing ts m \<and> run then remove_by_id K base m else prog_return ())) s = Some (r, s')"
      using assms(3) Some entries by (simp add: DirtyImportingSegmentCommand_def prog_bind_def rs Inr)
    then have P: "P s'"
    proof (rule prog_for_invariant [where P = P])
      show "P s" by (simp add: P_def)
    qed (rule group)
    show ?thesis
    proof (intro conjI allI impI)
      show "view s' = view s" if "\<not> run" using P that by (simp add: P_def)
      fix k
      assume "view s' k \<noteq> view s k"
      then obtain m where "m \<in> set ms" "is_dirty_importing ts m" "k \<in> segment_keys base (sm_info m)"
        using P unfolding P_def by blast
      with entries show "\<exists>m key v. view s key = Some v \<and> un v = Inr (sm_info m) \<and> is_dirty_importing ts m \<and>
          by_collection collectionID m \<and> k \<in> segment_keys base (sm_info m)"
        by (metis list.pred_inject(2))
    qed
  qed
qed

theorem DirtyImporting_safe_witness:
  "\<exists>s'. DirtyImportingSegmentCommand (ref_kv :: (_, unit) MetaKV) (\<lambda>v. Inr (ref_segment 1)) rev ''a'' 0 5 True
      [(''a/datacoord-meta/s/1/1/1'', ''x'')] = Some (Inr (), s') \<and> map_of s' ''a/datacoord-meta/s/1/1/1'' = Some ''x''"
proof -
  let ?s = "[(''a/datacoord-meta/s/1/1/1'', ''x'')]" and ?un = "\<lambda>v. Inr (ref_segment 1) :: SegmentInfo result"
  have pp: "plain_path ''a''" by (simp add: plain_path_def plain_part_def)
  have clean: "\<not> is_dirty_importing 5 m" if "sm_info m = ref_segment 1" for m
    using that by (simp add: is_dirty_importing_def ref_segment_def)
  have "kv_LoadWithPrefix (ref_kv :: (_, unit) MetaKV) (path_Join [''a'', ''datacoord-meta'', ''s''] @ ''/'') ?s =
      Some (Inr (map fst (sorted_kvs (map_of ?s) (prefix (joinPath [[], path_Join [''a'', ''datacoord-meta'', ''s''] @ ''/'']))),
        map snd (sorted_kvs (map_of ?s) (prefix (joinPath [[], path_Join [''a'', ''datacoord-meta'', ''s''] @ ''/''])))))" by simp
  from ListObj2Models_result [OF this, of ?un NewSegment "[by_collection 0]"]
  obtain ms where ms: "ListSegments (ref_kv :: (_, unit) MetaKV) ?un ''a'' [by_collection 0] ?s = Some (Inr ms, ?s)"
    unfolding ListSegments_def by blast
  have un: "\<forall>m \<in> set ms. sm_info m = ref_segment 1" using ListSegments_entries [OF ref_kv_meta pp ms] by auto
  have "prog_for (groups_of rev ms) (\<lambda>(c, group). prog_for group (\<lambda>m.
      if is_dirty_importing 5 m \<and> True then remove_by_id ref_kv ''a'' m else prog_return ())) ?s = Some (Inr (), ?s)"
    using un clean by (auto simp: groups_of_def intro!: prog_for_noop)
  then have run: "DirtyImportingSegmentCommand (ref_kv :: (_, unit) MetaKV) ?un rev ''a'' 0 5 True ?s = Some (Inr (), ?s)"
    unfolding DirtyImportingSegmentCommand_def prog_bind_def [of "ListSegments _ _ _ _"] ms by simp
  have "map_of ?s ''a/datacoord-meta/s/1/1/1'' = Some ''x''" by simp
  with DirtyImporting_safe [OF ref_kv_meta pp run] run show ?thesis by blast
qed

section \<open>What remove collection-meta-leaked sweeps\<close>

definition leak_prefixes :: "string \<Rightarrow> string list" where
  "leak_prefixes base = map (\<lambda>d. base @ slash # d) [''root-coord/collection'', ''root-coord/database/collection-info'',
     ''root-coord/fields'', ''snapshots/root-coord/fields'', ''partitions'', ''snapshots/partitions'']"

definition swept :: "string \<Rightarrow> string list \<Rightarrow> string \<Rightarrow> bool" where
  "swept base ids k \<longleftrightarrow> (\<exists>pre \<in> set (leak_prefixes base). prefix pre k \<and> leaked pre ids k) \<or>
     (prefix (base @ ''/datacoord-meta/s'') k \<and> \<not> prefix (base @ ''/datacoord-meta/statslog'') k \<and>
      leaked (base @ ''/datacoord-meta/s'') ids k)"

lemma plain_leak_prefix [simp]: "plain_path base \<Longrightarrow> pre \<in> set (leak_prefixes base) \<Longrightarrow> plain_path pre"
  using plain_path_slash [of base] by (auto simp: leak_prefixes_def) (simp_all add: plain_path_def plain_part_def)

text \<open>The walk ranges over exactly the keys with the prefix.\<close>

definition range_ok :: "(string \<Rightarrow> string) \<Rightarrow> bool" where
  "range_ok rangeEnd \<longleftrightarrow> (\<forall>p k. p \<noteq> [] \<longrightarrow> ends_plain p \<longrightarrow> (p \<le> k \<and> k < rangeEnd p \<longleftrightarrow> prefix p k))"

context etcd_server
begin

lemma clean_visit_all:
  fixes K :: "('s, 's) MetaKV"
  assumes "meta_kv K store"
  shows "apply_all (clean_visit K pre ids ex True) kvs t = (Inr (), t') \<Longrightarrow>
    \<forall>kv \<in> set kvs. joinPath [[], fst kv] = fst kv \<Longrightarrow>
    store t' = store t |` {k. \<not> (k \<in> fst ` set kvs \<and> \<not> ex k \<and> leaked pre ids k)}"
proof (induction kvs arbitrary: t)
  case Nil
  then show ?case by (simp add: restrict_map_def)
next
  case (Cons kv kvs)
  obtain k v where kv: "kv = (k, v)" by force
  from Cons.prems(1) obtain t1 where t1: "clean_visit K pre ids ex True k v t = (Inr (), t1)"
    and rest: "apply_all (clean_visit K pre ids ex True) kvs t1 = (Inr (), t')" by (auto simp: kv go_bind_Inr_iff)
  have "store t1 = (if \<not> ex k \<and> leaked pre ids k then (store t)(k := None) else store t)"
    using t1 meta_kv.Remove [OF assms, of k t t1] Cons.prems(2) by (auto simp: kv clean_visit_def split: if_splits)
  with Cons.IH [OF rest] Cons.prems(2) show ?case by (auto simp: kv restrict_map_def fun_eq_iff)
qed

lemma cleanMetaFn_store:
  assumes "range_ok rangeEnd" and "answers C s" and "card (dom (store s)) < fuel" and "plain_path pre" and "ends_plain pre"
    and "\<forall>k \<in> dom (store s). joinPath [[], k] = k"
    and "cleanMetaFn (etcd_MetaKV C rangeEnd B fuel) ids True pre ex s = Some (Inr (), s')"
  shows "store s' = store s |` {k. \<not> (prefix pre k \<and> \<not> ex k \<and> leaked pre ids k)}"
proof -
  let ?K = "etcd_MetaKV C rangeEnd B fuel :: ('s, 's) MetaKV"
  let ?kvs = "sorted_kvs (store s) (prefix pre)"
  have p: "path_Join [[], pre] = pre" using assms(4) by (simp add: path_Join_root path_Clean_plain plain_path_not_Nil)
  have "etcdKV_WalkWithPrefix C rangeEnd fuel pre 2000 (clean_visit ?K pre ids ex True) s s =
      Some (apply_all (clean_visit ?K pre ids ex True) ?kvs s)"
    using walk_result [OF assms(2), of pre rangeEnd fuel 2000 "clean_visit ?K pre ids ex True" s] assms(1,3,5)
      plain_path_not_Nil [OF assms(4)]
    unfolding p range_ok_def by blast
  then have "apply_all (clean_visit ?K pre ids ex True) ?kvs s = (Inr (), s')"
    using assms(7) by (simp add: cleanMetaFn_def etcd_MetaKV_def)
  moreover have "\<forall>kv \<in> set ?kvs. joinPath [[], fst kv] = fst kv"
    using assms(6) by (auto simp: set_sorted_kvs [OF finite_store])
  ultimately have "store s' = store s |` {k. \<not> (k \<in> fst ` set ?kvs \<and> \<not> ex k \<and> leaked pre ids k)}"
    by (rule clean_visit_all [OF etcd_meta.meta_kv_axioms])
  then show ?thesis by (force simp: restrict_map_def fun_eq_iff set_sorted_kvs [OF finite_store] image_iff)
qed

lemma cleanMetaFn_all:
  assumes "range_ok rangeEnd" and "\<And>s. answers C s" and "\<forall>pre \<in> set pres. plain_path pre \<and> ends_plain pre"
  shows "prog_for pres (\<lambda>pre. cleanMetaFn (etcd_MetaKV C rangeEnd B fuel) ids True pre (\<lambda>_. False)) s = Some (Inr (), s') \<Longrightarrow>
    card (dom (store s)) < fuel \<Longrightarrow> \<forall>k \<in> dom (store s). joinPath [[], k] = k \<Longrightarrow>
    store s' = store s |` {k. \<not> (\<exists>pre \<in> set pres. prefix pre k \<and> leaked pre ids k)}"
  using assms(3)
proof (induction pres arbitrary: s)
  case Nil
  then show ?case by (simp add: restrict_map_def)
next
  case (Cons pre pres)
  let ?clean = "\<lambda>pre. cleanMetaFn (etcd_MetaKV C rangeEnd B fuel) ids True pre (\<lambda>_. False)"
  from Cons.prems(1) obtain s1 where s1: "?clean pre s = Some (Inr (), s1)" and rest: "prog_for pres ?clean s1 = Some (Inr (), s')"
    unfolding prog_for_Cons_Inr by blast
  have st: "store s1 = store s |` {k. \<not> (prefix pre k \<and> leaked pre ids k)}"
    using cleanMetaFn_store [OF assms(1,2) Cons.prems(2) _ _ Cons.prems(3) s1] Cons.prems(4) by simp
  then have "dom (store s1) \<subseteq> dom (store s)" by (auto simp: restrict_map_def split: if_splits)
  moreover from this have "card (dom (store s1)) < fuel" using card_mono [OF finite_store] Cons.prems(2) le_less_trans by blast
  ultimately have "store s' = store s1 |` {k. \<not> (\<exists>pre \<in> set pres. prefix pre k \<and> leaked pre ids k)}"
    using Cons.IH [OF rest] Cons.prems(3,4) by auto
  then show ?case by (auto simp: st restrict_map_def fun_eq_iff)
qed

end

lemma leak_prefix_paths:
  assumes "plain_path base"
  shows "[path_Join [base, CollectionMetaPrefix], path_Join [base, DBCollectionMetaPrefix],
      path_Join [base, ''root-coord/fields''], path_Join [base, ''snapshots'', ''root-coord/fields''],
      path_Join [base, ''partitions''], path_Join [base, ''snapshots'', ''partitions'']] = leak_prefixes base"
    and "path_Join [base, ''datacoord-meta'', ''s''] = base @ ''/datacoord-meta/s''"
    and "path_Join [base, ''datacoord-meta'', ''statslog''] = base @ ''/datacoord-meta/statslog''"
    and "pre \<in> set (leak_prefixes base) \<Longrightarrow> ends_plain pre"
proof -
  have pp: "plain_path ''root-coord/collection''" "plain_path ''root-coord/database/collection-info''"
    "plain_path ''root-coord/fields''" "plain_path ''snapshots''" "plain_path ''partitions''"
    by (simp_all add: plain_path_def plain_part_def)
  have two: "path_Join [base, d] = base @ slash # d" if "plain_path d" for d
    using path_Join_plain [of "[base, d]"] assms that by simp
  show "[path_Join [base, CollectionMetaPrefix], path_Join [base, DBCollectionMetaPrefix],
      path_Join [base, ''root-coord/fields''], path_Join [base, ''snapshots'', ''root-coord/fields''],
      path_Join [base, ''partitions''], path_Join [base, ''snapshots'', ''partitions'']] = leak_prefixes base"
    by (simp add: leak_prefixes_def CollectionMetaPrefix_def DBCollectionMetaPrefix_def two dir_path [OF assms] pp)
  show "path_Join [base, ''datacoord-meta'', ''s''] = base @ ''/datacoord-meta/s''"
    "path_Join [base, ''datacoord-meta'', ''statslog''] = base @ ''/datacoord-meta/statslog''"
    by (simp_all add: dir_path [OF assms])
  show "pre \<in> set (leak_prefixes base) \<Longrightarrow> ends_plain pre"
    by (auto simp: leak_prefixes_def ends_plain_def)
qed

lemma ids_are_numbers: "part \<in> set (map (\<lambda>c. format_int (sint (coll_ID (cm_proto c)))) cs) \<Longrightarrow> c \<in> set part \<Longrightarrow>
    is_digit c \<or> c = CHR ''-''"
  using format_int_chars by auto

text \<open>On the store of the examples a sweep below a directory always ends, and never grows the store.\<close>

lemma clean_visit_ref:
  "\<forall>kv \<in> set kvs. length pre \<le> length (fst kv) \<Longrightarrow>
    \<exists>t'. apply_all (clean_visit ref_kv pre ids ex True) kvs t = (Inr (), t') \<and> length t' \<le> length t"
proof (induction kvs arbitrary: t)
  case (Cons kv kvs)
  obtain k v where kv: "kv = (k, v)" by force
  have "\<exists>t1. clean_visit ref_kv pre ids ex True k v t = (Inr (), t1) \<and> length t1 \<le> length t"
    using Cons.prems by (simp add: kv clean_visit_def go_return_def)
  then obtain t1 where "clean_visit ref_kv pre ids ex True k v t = (Inr (), t1)" "length t1 \<le> length t" by blast
  moreover obtain t' where "apply_all (clean_visit ref_kv pre ids ex True) kvs t1 = (Inr (), t')" "length t' \<le> length t1"
    using Cons by auto
  ultimately show ?case by (auto simp: kv go_bind_def)
qed (simp add: go_return_def)

lemma range_ok_next_key: "range_ok next_key"
  unfolding range_ok_def
proof (intro allI impI)
  fix p k
  assume "p \<noteq> []" "ends_plain p"
  with next_key_bounds [OF this(2), of k] show "p \<le> k \<and> k < next_key p \<longleftrightarrow> prefix p k"
    by (simp add: between_def next_key_def ends_plain_def)
qed

lemma cleanMetaFn_ref:
  assumes "plain_path pre" and "ends_plain pre" and "length s < 5"
  shows "\<exists>s'. cleanMetaFn ref_kv ids True pre ex s = Some (Inr (), s') \<and> length s' \<le> length s"
proof -
  have p: "path_Join [[], pre] = pre" using assms(1) by (simp add: path_Join_root path_Clean_plain plain_path_not_Nil)
  have "card (dom (map_of s)) < 5"
    using assms(3) card_length [of "map fst s"] by (simp add: dom_map_of_conv_image_fst)
  from ref.walk_result [OF ref_answers _ this, of pre next_key 2000 "clean_visit ref_kv pre ids ex True" s]
  have "cleanMetaFn ref_kv ids True pre ex s = Some (apply_all (clean_visit ref_kv pre ids ex True) (sorted_kvs (map_of s) (prefix pre)) s)"
    using range_ok_next_key assms(2) plain_path_not_Nil [OF assms(1)] by (simp add: p range_ok_def cleanMetaFn_def ref_kv_def etcd_MetaKV_def)
  moreover have "\<forall>kv \<in> set (sorted_kvs (map_of s) (prefix pre)). length pre \<le> length (fst kv)"
    by (auto simp: set_sorted_kvs finite_dom_map_of dest: prefix_length_le)
  ultimately show ?thesis using clean_visit_ref by simp
qed

lemma cleanMetaFn_ref_all:
  "\<forall>pre \<in> set pres. plain_path pre \<and> ends_plain pre \<Longrightarrow> length s < 5 \<Longrightarrow>
    \<exists>s'. prog_for pres (\<lambda>pre. cleanMetaFn ref_kv ids True pre ex) s = Some (Inr (), s') \<and> length s' < 5"
proof (induction pres arbitrary: s)
  case (Cons pre pres)
  obtain s1 where "cleanMetaFn ref_kv ids True pre ex s = Some (Inr (), s1)" "length s1 < 5"
    using cleanMetaFn_ref [of pre s ids ex] Cons.prems by auto
  with Cons show ?case unfolding prog_for_Cons_Inr by auto
qed simp

text \<open>
  Property C25. What \<^verbatim>\<open>remove collection-meta-leaked\<close> removes, exactly: below six directory names and below
  \<^verbatim>\<open>datacoord-meta/s\<close> (but not \<^verbatim>\<open>datacoord-meta/statslog\<close>), the keys none of whose path elements behind the name is
  the id of a listed collection. So a key that has such an id in its path stays. But since
  \<^verbatim>\<open>datacoord-meta/s\<close> is no complete path element, every statistics task goes as well; and partitions of dropped
  collections stay, since they are stored below \<^verbatim>\<open>root-coord/partitions\<close> and not \<^verbatim>\<open>partitions\<close>.
\<close>

theorem CollectionMetaLeaked_sweeps:
  fixes C :: "'s etcd_client"
  assumes "etcd_server C store" and "range_ok rangeEnd" and "\<And>s. answers C s" and "plain_path base"
    and "K = (etcd_MetaKV C rangeEnd B fuel :: ('s, 's) MetaKV)"
    and "ListCollections K M base [] s = Some (Inr cs, s)"
    and "ids = map (\<lambda>c. format_int (sint (coll_ID (cm_proto c)))) cs"
    and "CollectionMetaLeakedCommand K M base True s = Some (Inr (), s')"
    and "card (dom (store s)) < fuel" and "\<forall>k \<in> dom (store s). joinPath [[], k] = k"
  shows "store s' = store s |` {k. \<not> swept base ids k} \<and>
    (\<forall>t. slash \<notin> set t \<longrightarrow> t \<notin> set ids \<longrightarrow> store s' (base @ ''/datacoord-meta/stats-task/'' @ t) = None) \<and>
    (\<forall>x. store s' (base @ ''/root-coord/partitions/'' @ x) = store s (base @ ''/root-coord/partitions/'' @ x))"
proof -
  note paths = leak_prefix_paths [OF assms(4)]
  have "prog_bind (prog_for (leak_prefixes base) (\<lambda>pre. cleanMetaFn K ids True pre (\<lambda>_. False))) (\<lambda>_.
      cleanMetaFn K ids True (base @ ''/datacoord-meta/s'') (prefix (base @ ''/datacoord-meta/statslog''))) s = Some (Inr (), s')"
    using assms(8) unfolding CollectionMetaLeakedCommand_def prog_bind_def [of "ListCollections K M base []"] assms(6)
    by (simp only: option.case prod.case sum.case Let_def paths(1-3) assms(7))
  then obtain s1 where
    six: "prog_for (leak_prefixes base) (\<lambda>pre. cleanMetaFn K ids True pre (\<lambda>_. False)) s = Some (Inr (), s1)" and
    seg: "cleanMetaFn K ids True (base @ ''/datacoord-meta/s'') (prefix (base @ ''/datacoord-meta/statslog'')) s1 = Some (Inr (), s')"
    unfolding prog_bind_Inr_iff by auto
  have "\<forall>pre \<in> set (leak_prefixes base). plain_path pre \<and> ends_plain pre" using assms(4) paths(4) by auto
  from etcd_server.cleanMetaFn_all [OF assms(1,2,3) this six [unfolded assms(5)] assms(9,10)]
  have st1: "store s1 = store s |` {k. \<not> (\<exists>pre \<in> set (leak_prefixes base). prefix pre k \<and> leaked pre ids k)}" .
  then have sub: "dom (store s1) \<subseteq> dom (store s)" by (auto simp: restrict_map_def split: if_splits)
  have plain: "plain_path (base @ ''/datacoord-meta/s'')" using assms(4) plain_path_slash [of base "''datacoord-meta/s''"] by simp
  have "card (dom (store s1)) < fuel"
    using card_mono [OF etcd_server.finite_store [OF assms(1)] sub] assms(9) by linarith
  moreover have "ends_plain (base @ ''/datacoord-meta/s'')" by (simp add: ends_plain_def)
  moreover have "\<forall>k \<in> dom (store s1). joinPath [[], k] = k" using sub assms(10) by blast
  ultimately have "store s' = store s1 |` {k. \<not> (prefix (base @ ''/datacoord-meta/s'') k \<and>
      \<not> prefix (base @ ''/datacoord-meta/statslog'') k \<and> leaked (base @ ''/datacoord-meta/s'') ids k)}"
    using etcd_server.cleanMetaFn_store [OF assms(1,2,3) _ plain _ _ seg [unfolded assms(5)]] by blast
  then have st: "store s' = store s |` {k. \<not> swept base ids k}"
    by (auto simp: st1 swept_def restrict_map_def fun_eq_iff)
  have "swept base ids (base @ ''/datacoord-meta/stats-task/'' @ t)" if "slash \<notin> set t" "t \<notin> set ids" for t
  proof -
    have "''tats-task'' \<notin> set ids"
      using ids_are_numbers [of "''tats-task''" cs "CHR ''t''"] assms(7) by (auto simp: is_digit_def)
    then have "leaked (base @ ''/datacoord-meta/s'') ids (base @ ''/datacoord-meta/stats-task/'' @ t)"
      using that split_append_delim [of slash "''tats-task''" t] by (auto simp: leaked_def split_single)
    then show ?thesis by (auto simp: swept_def prefix_def)
  qed
  moreover have "\<not> swept base ids (base @ ''/root-coord/partitions/'' @ x)" for x
    by (auto simp: swept_def leak_prefixes_def)
  ultimately show ?thesis by (simp add: st)
qed

theorem CollectionMetaLeaked_sweeps_witness:
  "\<exists>s'. CollectionMetaLeakedCommand ref_kv \<lparr>un_collection = \<lambda>v. Inl EOF, un_field = \<lambda>v. Inl EOF, un_struct = \<lambda>v. Inl EOF,
      un_function = \<lambda>v. Inl EOF, marshal_collection = \<lambda>c. Inl EOF, marshal_field = \<lambda>f. Inl EOF\<rparr> ''a'' True
      [(''a/datacoord-meta/stats-task/9'', ''x'')] = Some (Inr (), s') \<and>
    map_of s' ''a/datacoord-meta/stats-task/9'' = None"
proof -
  let ?M = "\<lparr>un_collection = \<lambda>v. Inl EOF, un_field = \<lambda>v. Inl EOF, un_struct = \<lambda>v. Inl EOF,
      un_function = \<lambda>v. Inl EOF, marshal_collection = \<lambda>c. Inl EOF, marshal_field = \<lambda>f. Inl EOF\<rparr>"
  let ?s = "[(''a/datacoord-meta/stats-task/9'', ''x'')]"
  let ?B = "\<lparr>encode_header = \<lambda>_ _ _ _. Inr [], encode_pair = \<lambda>_ _. Inr []\<rparr>"
  have pp: "plain_path ''a''" "plain_path ''a/datacoord-meta/s''" "plain_path ''a/datacoord-meta/stats-task/9''"
    by (simp_all add: plain_path_def plain_part_def)
  note paths = leak_prefix_paths [OF pp(1)]
  have load: "\<exists>es. kv_LoadWithPrefix (ref_kv :: (_, (string \<times> string) list) MetaKV) pre ?s = Some (Inr (map fst es, map snd es))" for pre
    by (simp only: ref_kv_ops) blast
  have none: "ListObj2Models (ref_kv :: (_, (string \<times> string) list) MetaKV) (un_collection ?M) pre NewCollection [] ?s = Some (Inr [], ?s)" for pre
  proof -
    obtain es where "kv_LoadWithPrefix (ref_kv :: (_, (string \<times> string) list) MetaKV) pre ?s = Some (Inr (map fst es, map snd es))"
      using load by blast
    from ListObj2Models_result [OF this, of "un_collection ?M" NewCollection "[]"] show ?thesis by (simp add: decodes_def)
  qed
  have list: "ListCollections (ref_kv :: (_, (string \<times> string) list) MetaKV) ?M ''a'' [] ?s = Some (Inr [], ?s)"
    by (simp only: ListCollections_def ListCollectionWithoutFields_def prog_bind_def none option.case prod.case sum.case) simp
  obtain s1 where s1: "prog_for (leak_prefixes ''a'') (\<lambda>pre. cleanMetaFn ref_kv [] True pre (\<lambda>_. False)) ?s = Some (Inr (), s1)" "length s1 < 5"
    using cleanMetaFn_ref_all [of "leak_prefixes ''a''" ?s "[]" "\<lambda>_. False"] pp(1) paths(4) by auto
  obtain s' where s': "cleanMetaFn ref_kv [] True ''a/datacoord-meta/s'' (prefix ''a/datacoord-meta/statslog'') s1 = Some (Inr (), s')"
    using cleanMetaFn_ref [OF pp(2) _ s1(2)] by (auto simp: ends_plain_def)
  have run: "CollectionMetaLeakedCommand ref_kv ?M ''a'' True ?s = Some (Inr (), s')"
    unfolding CollectionMetaLeakedCommand_def prog_bind_def [of "ListCollections _ _ _ _"] list
    by (simp only: option.case prod.case sum.case Let_def paths(1-3) list.map prog_bind_def s1) (simp add: s')
  have k: "\<forall>k \<in> dom (map_of ?s). joinPath [[], k] = k" using joinPath_plain(1) [OF pp(3)] by simp
  have "card (dom (map_of ?s)) < 5" by simp
  from CollectionMetaLeaked_sweeps [where C = ref_client and store = map_of and rangeEnd = next_key and fuel = 5 and B = ?B
      and K = ref_kv and M = ?M and base = "''a''" and s = ?s and s' = s' and cs = "[]" and ids = "[]",
      OF ref.etcd_server_axioms range_ok_next_key ref_answers pp(1) ref_kv_def list list.map(1) [symmetric] run this k,
      THEN conjunct2, THEN conjunct1, rule_format, of "''9''"]
  have "map_of s' ''a/datacoord-meta/stats-task/9'' = None" by simp
  with run show ?thesis by auto
qed

end
