(* ===== verification/Mq_Message.thy ===== *)
theory Mq_Message
  imports Kv_Path Primary_Key "HOL-Library.Signed_Division"
begin

text \<open>
  Messages of the message queue (\<^verbatim>\<open>mq/msg.go\<close>, \<^verbatim>\<open>mq/utils.go\<close>, \<^verbatim>\<open>mq/unmarshal.go\<close>) and the two kinds of message ids
  (\<^verbatim>\<open>mq/pulsar/pulsar_id.go\<close>, \<^verbatim>\<open>mq/kafka/kafka_id.go\<close>): decoding by type, the time range of a message, the check that an
  insert message is aligned, and its division into rows. Protobuf and the pulsar client are arguments. The arrays of
  a message are lists: their capacity is taken to be their length, and an array message that is nil is left out.
\<close>

section \<open>Slices and 64-bit products\<close>

definition go_slice :: "'a list \<Rightarrow> int \<Rightarrow> int \<Rightarrow> 'a list result" where
  "go_slice xs lo hi =
     (if 0 \<le> lo \<and> lo \<le> hi \<and> hi \<le> int (length xs) then Inr (take (nat (hi - lo)) (drop (nat lo) xs))
      else Inl (Panic ''slice bounds out of range''))"

definition wrap64 :: "int \<Rightarrow> int" where
  "wrap64 i = sint (word_of_int i :: i64)"

section \<open>Requests\<close>

text \<open>The values of the enumeration \<open>commonpb.MsgType\<close> the program names, and any other.\<close>

datatype MsgType = MsgType_Undefined | MsgType_CreateCollection | MsgType_DropCollection | MsgType_CreatePartition
  | MsgType_DropPartition | MsgType_Insert | MsgType_Delete | MsgType_TimeTick | MsgType_DataNodeTt | MsgType_Other i32

record MsgBase =
  mb_MsgType :: MsgType
  mb_MsgID :: i64
  mb_Timestamp :: u64
  mb_SourceID :: i64

definition newMsgBaseDefault :: MsgBase where
  "newMsgBaseDefault = \<lparr>mb_MsgType = MsgType_Undefined, mb_MsgID = 0, mb_Timestamp = 0, mb_SourceID = 0\<rparr>"

definition WithMsgType :: "MsgType \<Rightarrow> MsgBase \<Rightarrow> MsgBase" where "WithMsgType t b = b\<lparr>mb_MsgType := t\<rparr>"
definition WithMsgID :: "i64 \<Rightarrow> MsgBase \<Rightarrow> MsgBase" where "WithMsgID i b = b\<lparr>mb_MsgID := i\<rparr>"
definition WithTimeStamp :: "u64 \<Rightarrow> MsgBase \<Rightarrow> MsgBase" where "WithTimeStamp ts b = b\<lparr>mb_Timestamp := ts\<rparr>"
definition WithSourceID :: "i64 \<Rightarrow> MsgBase \<Rightarrow> MsgBase" where "WithSourceID s b = b\<lparr>mb_SourceID := s\<rparr>"

definition NewMsgBase :: "(MsgBase \<Rightarrow> MsgBase) list \<Rightarrow> MsgBase" where
  "NewMsgBase options = fold (\<lambda>op b. op b) options newMsgBaseDefault"

text \<open>The alternatives of \<open>ScalarField.Data\<close> and \<open>VectorField.Data\<close>, \<open>None\<close> when unset.\<close>

datatype scalar_data = BoolArray "bool list" | IntArray "i32 list" | LongArray "i64 list" | FloatArray "u32 list"
  | DoubleArray "u64 list" | StringArray "string list" | OtherScalar

datatype vector_data = FloatVec "u32 list" | BinaryVec bytes | OtherVector

datatype field_content = Scalars "scalar_data option" | Vectors i64 "vector_data option"

record ColumnData =
  cd_Type :: DataType
  cd_FieldName :: string
  cd_FieldId :: i64
  cd_Field :: "field_content option"

datatype InsertDataVersion = RowBased | ColumnBased | OtherVersion

record InsertRequest =
  iq_Base :: "MsgBase option"
  iq_DbID :: i64
  iq_CollectionID :: i64
  iq_PartitionID :: i64
  iq_CollectionName :: string
  iq_PartitionName :: string
  iq_SegmentID :: i64
  iq_ShardName :: string
  iq_Timestamps :: "u64 list"
  iq_RowIDs :: "i64 list"
  iq_RowData :: "bytes list"
  iq_FieldsData :: "ColumnData list"
  iq_NumRows :: u64
  iq_Version :: InsertDataVersion

record DeleteRequest =
  dq_Base :: "MsgBase option"
  dq_PrimaryKeys :: "IDs option"
  dq_Int64PrimaryKeys :: "i64 list"
  dq_Timestamps :: "u64 list"
  dq_NumRows :: i64

text \<open>The requests of which only the base is read; the rest is kept as it is.\<close>

record BaseRequest =
  bq_Base :: "MsgBase option"
  bq_rest :: bytes

record BaseMsg =
  BeginTimestamp :: u64
  EndTimestamp :: u64
  HashValues :: "u32 list"
  Position :: "string option"

definition no_base :: BaseMsg where
  "no_base = \<lparr>BeginTimestamp = 0, EndTimestamp = 0, HashValues = [], Position = None\<rparr>"

datatype TsMsg =
    InsertMsg BaseMsg InsertRequest
  | DeleteMsg BaseMsg DeleteRequest
  | TimeTickMsg BaseMsg BaseRequest
  | CreateCollectionMsg BaseMsg BaseRequest
  | DropCollectionMsg BaseMsg BaseRequest
  | CreatePartitionMsg BaseMsg BaseRequest
  | DropPartitionMsg BaseMsg BaseRequest
  | DataNodeTtMsg BaseMsg BaseRequest

fun base_msg :: "TsMsg \<Rightarrow> BaseMsg" where
  "base_msg (InsertMsg b _) = b"
| "base_msg (DeleteMsg b _) = b"
| "base_msg (TimeTickMsg b _) = b"
| "base_msg (CreateCollectionMsg b _) = b"
| "base_msg (DropCollectionMsg b _) = b"
| "base_msg (CreatePartitionMsg b _) = b"
| "base_msg (DropPartitionMsg b _) = b"
| "base_msg (DataNodeTtMsg b _) = b"

fun msg_base :: "TsMsg \<Rightarrow> MsgBase option" where
  "msg_base (InsertMsg _ r) = iq_Base r"
| "msg_base (DeleteMsg _ r) = dq_Base r"
| "msg_base (TimeTickMsg _ r) = bq_Base r"
| "msg_base (CreateCollectionMsg _ r) = bq_Base r"
| "msg_base (DropCollectionMsg _ r) = bq_Base r"
| "msg_base (CreatePartitionMsg _ r) = bq_Base r"
| "msg_base (DropPartitionMsg _ r) = bq_Base r"
| "msg_base (DataNodeTtMsg _ r) = bq_Base r"

definition BeginTs :: "TsMsg \<Rightarrow> u64" where "BeginTs m = BeginTimestamp (base_msg m)"
definition EndTs :: "TsMsg \<Rightarrow> u64" where "EndTs m = EndTimestamp (base_msg m)"

text \<open>\<open>ID\<close>, \<open>Type\<close> and \<open>SourceID\<close> read through the base, which may be nil.\<close>

definition nil_deref :: "'a option \<Rightarrow> 'a result" where
  "nil_deref p = (case p of None \<Rightarrow> Inl (Panic ''nil pointer dereference'') | Some x \<Rightarrow> Inr x)"

definition TsMsg_ID :: "TsMsg \<Rightarrow> i64 result" where
  "TsMsg_ID m = res_bind (nil_deref (msg_base m)) (\<lambda>b. Inr (mb_MsgID b))"

definition TsMsg_Type :: "TsMsg \<Rightarrow> MsgType result" where
  "TsMsg_Type m = res_bind (nil_deref (msg_base m)) (\<lambda>b. Inr (mb_MsgType b))"

definition TsMsg_SourceID :: "TsMsg \<Rightarrow> i64 result" where
  "TsMsg_SourceID m = res_bind (nil_deref (msg_base m)) (\<lambda>b. Inr (mb_SourceID b))"

section \<open>Decoding\<close>

datatype MarshalType = MBytes bytes | MOther

fun convertToByteArray :: "MarshalType \<Rightarrow> bytes result" where
  "convertToByteArray (MBytes bs) = Inr bs"
| "convertToByteArray MOther = Inl (Failure ''Cannot convert interface{} to []byte'')"

text \<open>\<open>un_base t\<close> decodes the request of the messages of type \<open>t\<close>; \<open>ma_...\<close> encode.\<close>

record msg_codec =
  un_insert :: "bytes \<Rightarrow> InsertRequest result"
  un_delete :: "bytes \<Rightarrow> DeleteRequest result"
  un_base :: "MsgType \<Rightarrow> bytes \<Rightarrow> BaseRequest result"
  un_header :: "bytes \<Rightarrow> MsgBase option result"
  ma_insert :: "InsertRequest \<Rightarrow> bytes result"
  ma_delete :: "DeleteRequest \<Rightarrow> bytes result"
  ma_base :: "MsgType \<Rightarrow> BaseRequest \<Rightarrow> bytes result"

definition widen :: "u64 \<Rightarrow> BaseMsg \<Rightarrow> BaseMsg" where
  "widen t b =
     (let b1 = (if EndTimestamp b < t then b\<lparr>EndTimestamp := t\<rparr> else b)
      in if t < BeginTimestamp b1 then b1\<lparr>BeginTimestamp := t\<rparr> else b1)"

definition time_range :: "u64 list \<Rightarrow> BaseMsg \<Rightarrow> BaseMsg" where
  "time_range tss b =
     fold widen tss (case tss of [] \<Rightarrow> b | t # _ \<Rightarrow> b\<lparr>BeginTimestamp := t, EndTimestamp := t\<rparr>)"

definition InsertMsg_Unmarshal :: "msg_codec \<Rightarrow> MarshalType \<Rightarrow> TsMsg result" where
  "InsertMsg_Unmarshal M input =
     res_bind (convertToByteArray input) (\<lambda>bs. res_bind (un_insert M bs) (\<lambda>r.
       Inr (InsertMsg (time_range (iq_Timestamps r) no_base) r)))"

text \<open>Delete requests of old versions have 64-bit integer keys only.\<close>

definition DeleteMsg_Unmarshal :: "msg_codec \<Rightarrow> MarshalType \<Rightarrow> TsMsg result" where
  "DeleteMsg_Unmarshal M input =
     res_bind (convertToByteArray input) (\<lambda>bs. res_bind (un_delete M bs) (\<lambda>r0.
       let r = (if dq_PrimaryKeys r0 = None
                then r0\<lparr>dq_PrimaryKeys := Some (IDs_IntId (dq_Int64PrimaryKeys r0)), dq_NumRows := of_nat (length (dq_Int64PrimaryKeys r0))\<rparr>
                else r0)
       in Inr (DeleteMsg (time_range (dq_Timestamps r) no_base) r)))"

definition base_times :: "BaseRequest \<Rightarrow> BaseMsg result" where
  "base_times r = res_bind (nil_deref (bq_Base r)) (\<lambda>b. Inr (no_base\<lparr>BeginTimestamp := mb_Timestamp b, EndTimestamp := mb_Timestamp b\<rparr>))"

definition base_Unmarshal :: "msg_codec \<Rightarrow> MsgType \<Rightarrow> (BaseMsg \<Rightarrow> BaseRequest \<Rightarrow> TsMsg) \<Rightarrow> MarshalType \<Rightarrow> TsMsg result" where
  "base_Unmarshal M t mk input =
     res_bind (convertToByteArray input) (\<lambda>bs. res_bind (un_base M t bs) (\<lambda>r.
       res_bind (base_times r) (\<lambda>b. Inr (mk b r))))"

definition TimeTickMsg_Unmarshal :: "msg_codec \<Rightarrow> MarshalType \<Rightarrow> TsMsg result" where
  "TimeTickMsg_Unmarshal M = base_Unmarshal M MsgType_TimeTick TimeTickMsg"

definition CreateCollectionMsg_Unmarshal :: "msg_codec \<Rightarrow> MarshalType \<Rightarrow> TsMsg result" where
  "CreateCollectionMsg_Unmarshal M = base_Unmarshal M MsgType_CreateCollection CreateCollectionMsg"

definition DropCollectionMsg_Unmarshal :: "msg_codec \<Rightarrow> MarshalType \<Rightarrow> TsMsg result" where
  "DropCollectionMsg_Unmarshal M = base_Unmarshal M MsgType_DropCollection DropCollectionMsg"

definition CreatePartitionMsg_Unmarshal :: "msg_codec \<Rightarrow> MarshalType \<Rightarrow> TsMsg result" where
  "CreatePartitionMsg_Unmarshal M = base_Unmarshal M MsgType_CreatePartition CreatePartitionMsg"

definition DropPartitionMsg_Unmarshal :: "msg_codec \<Rightarrow> MarshalType \<Rightarrow> TsMsg result" where
  "DropPartitionMsg_Unmarshal M = base_Unmarshal M MsgType_DropPartition DropPartitionMsg"

text \<open>The data node time tick is the one message whose times are not taken from its base.\<close>

definition DataNodeTtMsg_Unmarshal :: "msg_codec \<Rightarrow> MarshalType \<Rightarrow> TsMsg result" where
  "DataNodeTtMsg_Unmarshal M input =
     res_bind (convertToByteArray input) (\<lambda>bs. res_bind (un_base M MsgType_DataNodeTt bs) (\<lambda>r.
       Inr (DataNodeTtMsg no_base r)))"

definition NewUnmarshalDispatcher :: "msg_codec \<Rightarrow> MsgType \<Rightarrow> (MarshalType \<Rightarrow> TsMsg result) option" where
  "NewUnmarshalDispatcher M =
     [MsgType_Insert \<mapsto> InsertMsg_Unmarshal M, MsgType_Delete \<mapsto> DeleteMsg_Unmarshal M, MsgType_TimeTick \<mapsto> TimeTickMsg_Unmarshal M,
      MsgType_CreateCollection \<mapsto> CreateCollectionMsg_Unmarshal M, MsgType_DropCollection \<mapsto> DropCollectionMsg_Unmarshal M,
      MsgType_CreatePartition \<mapsto> CreatePartitionMsg_Unmarshal M, MsgType_DropPartition \<mapsto> DropPartitionMsg_Unmarshal M,
      MsgType_DataNodeTt \<mapsto> DataNodeTtMsg_Unmarshal M]"

definition Dispatcher_Unmarshal :: "msg_codec \<Rightarrow> MarshalType \<Rightarrow> MsgType \<Rightarrow> TsMsg result" where
  "Dispatcher_Unmarshal M input msgType =
     (case NewUnmarshalDispatcher M msgType of
        None \<Rightarrow> Inl (Failure ''not set unmarshalFunc for this messageType'')
      | Some f \<Rightarrow> f input)"

text \<open>A type assertion that fails is a panic.\<close>

fun TsMsg_Marshal :: "msg_codec \<Rightarrow> MsgType \<Rightarrow> TsMsg \<Rightarrow> bytes result" where
  "TsMsg_Marshal M t (InsertMsg _ r) = (if t = MsgType_Insert then ma_insert M r else Inl (Panic ''interface conversion''))"
| "TsMsg_Marshal M t (DeleteMsg _ r) = (if t = MsgType_Delete then ma_delete M r else Inl (Panic ''interface conversion''))"
| "TsMsg_Marshal M t (TimeTickMsg _ r) = (if t = MsgType_TimeTick then ma_base M t r else Inl (Panic ''interface conversion''))"
| "TsMsg_Marshal M t (CreateCollectionMsg _ r) = (if t = MsgType_CreateCollection then ma_base M t r else Inl (Panic ''interface conversion''))"
| "TsMsg_Marshal M t (DropCollectionMsg _ r) = (if t = MsgType_DropCollection then ma_base M t r else Inl (Panic ''interface conversion''))"
| "TsMsg_Marshal M t (CreatePartitionMsg _ r) = (if t = MsgType_CreatePartition then ma_base M t r else Inl (Panic ''interface conversion''))"
| "TsMsg_Marshal M t (DropPartitionMsg _ r) = (if t = MsgType_DropPartition then ma_base M t r else Inl (Panic ''interface conversion''))"
| "TsMsg_Marshal M t (DataNodeTtMsg _ r) = (if t = MsgType_DataNodeTt then ma_base M t r else Inl (Panic ''interface conversion''))"

record queue_message =
  qm_Topic :: string
  qm_Payload :: "bytes option"
  qm_ID :: bytes

definition GetMsgPosition :: "msg_codec \<Rightarrow> queue_message \<Rightarrow> MsgPosition result" where
  "GetMsgPosition M msg =
     (case qm_Payload msg of
        None \<Rightarrow> Inl (Failure ''failed to unmarshal message header, payload is empty'')
      | Some payload \<Rightarrow>
          res_bind (un_header M payload) (\<lambda>base.
            case base of
              None \<Rightarrow> Inl (Failure ''failed to unmarshal message, header is uncomplete'')
            | Some b \<Rightarrow>
                res_bind (Dispatcher_Unmarshal M (MBytes payload) (mb_MsgType b)) (\<lambda>tsMsg.
                  Inr \<lparr>pos_ChannelName = path_Base (qm_Topic msg), pos_MsgID = qm_ID msg, pos_Timestamp = BeginTs tsMsg\<rparr>)))"

section \<open>Aligned insert messages\<close>

definition getNumRowsOfScalarField :: "'a list \<Rightarrow> u64" where
  "getNumRowsOfScalarField datas = of_nat (length datas)"

definition getNumRowsOfFloatVectorField :: "u32 list \<Rightarrow> i64 \<Rightarrow> u64 result" where
  "getNumRowsOfFloatVectorField fDatas dim =
     (let l = int (length fDatas)
      in if sint dim \<le> 0 then Inl (Failure ''dim should be greater than 0'')
         else if wrap64 l smod sint dim \<noteq> 0 then Inl (Failure ''the length of float data should divide the dim'')
         else Inr (word_of_int (wrap64 l sdiv sint dim)))"

definition getNumRowsOfBinaryVectorField :: "bytes \<Rightarrow> i64 \<Rightarrow> u64 result" where
  "getNumRowsOfBinaryVectorField bDatas dim =
     (let l = int (length bDatas)
      in if sint dim \<le> 0 then Inl (Failure ''dim should be greater than 0'')
         else if sint dim smod 8 \<noteq> 0 then Inl (Failure ''dim should divide 8'')
         else if wrap64 (8 * l) smod sint dim \<noteq> 0 then Inl (Failure ''the num of all bits should divide the dim'')
         else Inr (word_of_int (wrap64 (8 * l) sdiv sint dim)))"

definition GetNumRowOfFieldData :: "ColumnData \<Rightarrow> u64 result" where
  "GetNumRowOfFieldData fieldData =
     (case cd_Field fieldData of
        Some (Scalars (Some (BoolArray xs))) \<Rightarrow> Inr (getNumRowsOfScalarField xs)
      | Some (Scalars (Some (IntArray xs))) \<Rightarrow> Inr (getNumRowsOfScalarField xs)
      | Some (Scalars (Some (LongArray xs))) \<Rightarrow> Inr (getNumRowsOfScalarField xs)
      | Some (Scalars (Some (FloatArray xs))) \<Rightarrow> Inr (getNumRowsOfScalarField xs)
      | Some (Scalars (Some (DoubleArray xs))) \<Rightarrow> Inr (getNumRowsOfScalarField xs)
      | Some (Scalars (Some (StringArray xs))) \<Rightarrow> Inr (getNumRowsOfScalarField xs)
      | Some (Vectors dim (Some (FloatVec xs))) \<Rightarrow> getNumRowsOfFloatVectorField xs dim
      | Some (Vectors dim (Some (BinaryVec xs))) \<Rightarrow> getNumRowsOfBinaryVectorField xs dim
      | _ \<Rightarrow> Inl (Failure ''is not supported now''))"

definition IsRowBased :: "InsertRequest \<Rightarrow> bool" where "IsRowBased r \<longleftrightarrow> iq_Version r = RowBased"
definition IsColumnBased :: "InsertRequest \<Rightarrow> bool" where "IsColumnBased r \<longleftrightarrow> iq_Version r = ColumnBased"

definition NRows :: "InsertRequest \<Rightarrow> u64" where
  "NRows r = (if IsRowBased r then of_nat (length (iq_RowData r)) else iq_NumRows r)"

definition InsertMsg_CheckAligned :: "InsertRequest \<Rightarrow> unit result" where
  "InsertMsg_CheckAligned r =
     res_bind (if IsColumnBased r then
         res_fold (\<lambda>field _. res_bind (GetNumRowOfFieldData field) (\<lambda>fieldNumRows.
           if fieldNumRows \<noteq> NRows r then Inl (Failure ''the num_rows of field is not equal to passed NumRows'') else Inr ()))
           (iq_FieldsData r) ()
       else Inr ()) (\<lambda>_.
     if length (iq_RowIDs r) \<noteq> length (iq_Timestamps r) then Inl (Failure ''the num_rows of rowIDs is not equal to the num_rows of timestamps'')
     else if of_nat (length (iq_RowIDs r)) \<noteq> NRows r then Inl (Failure ''the num_rows of rowIDs is not equal to passed NumRows'')
     else Inr ())"

definition GetSizeOfIDs :: "IDs option \<Rightarrow> nat result" where
  "GetSizeOfIDs ids =
     (case ids of
        None \<Rightarrow> Inl (Panic ''nil pointer dereference'')
      | Some IDs_unset \<Rightarrow> Inr 0
      | Some (IDs_IntId xs) \<Rightarrow> Inr (length xs)
      | Some (IDs_StrId xs) \<Rightarrow> Inr (length xs))"

definition DeleteMsg_CheckAligned :: "DeleteRequest \<Rightarrow> unit result" where
  "DeleteMsg_CheckAligned r =
     (if dq_NumRows r \<noteq> of_nat (length (dq_Timestamps r)) then Inl (Failure ''the num_rows of pks is not equal to the num_rows of timestamps'')
      else res_bind (GetSizeOfIDs (dq_PrimaryKeys r)) (\<lambda>n.
        if dq_NumRows r \<noteq> of_nat n then Inl (Failure ''the num_rows of pks is not equal to passed NumRows'') else Inr ()))"

section \<open>One row of an insert message\<close>

text \<open>
  Appending one element to the scalar data of the destination: data of another type, or none, is replaced by
  an array of this element.
\<close>

definition append_scalar :: "int \<Rightarrow> scalar_data option \<Rightarrow> scalar_data option \<Rightarrow> scalar_data result" where
  "append_scalar idx src dst =
     (case src of
        Some (BoolArray xs) \<Rightarrow> res_bind (go_index xs idx) (\<lambda>x. Inr (BoolArray ((case dst of Some (BoolArray ys) \<Rightarrow> ys | _ \<Rightarrow> []) @ [x])))
      | Some (IntArray xs) \<Rightarrow> res_bind (go_index xs idx) (\<lambda>x. Inr (IntArray ((case dst of Some (IntArray ys) \<Rightarrow> ys | _ \<Rightarrow> []) @ [x])))
      | Some (LongArray xs) \<Rightarrow> res_bind (go_index xs idx) (\<lambda>x. Inr (LongArray ((case dst of Some (LongArray ys) \<Rightarrow> ys | _ \<Rightarrow> []) @ [x])))
      | Some (FloatArray xs) \<Rightarrow> res_bind (go_index xs idx) (\<lambda>x. Inr (FloatArray ((case dst of Some (FloatArray ys) \<Rightarrow> ys | _ \<Rightarrow> []) @ [x])))
      | Some (DoubleArray xs) \<Rightarrow> res_bind (go_index xs idx) (\<lambda>x. Inr (DoubleArray ((case dst of Some (DoubleArray ys) \<Rightarrow> ys | _ \<Rightarrow> []) @ [x])))
      | Some (StringArray xs) \<Rightarrow> res_bind (go_index xs idx) (\<lambda>x. Inr (StringArray ((case dst of Some (StringArray ys) \<Rightarrow> ys | _ \<Rightarrow> []) @ [x])))
      | _ \<Rightarrow> Inl (Panic ''Not supported field type''))"

definition append_vector :: "int \<Rightarrow> i64 \<Rightarrow> vector_data option \<Rightarrow> vector_data option \<Rightarrow> vector_data result" where
  "append_vector idx dim src dst =
     (case src of
        Some (BinaryVec xs) \<Rightarrow>
          res_bind (go_slice xs (wrap64 (idx * (sint dim sdiv 8))) (wrap64 ((idx + 1) * (sint dim sdiv 8))))
            (\<lambda>x. Inr (BinaryVec ((case dst of Some (BinaryVec ys) \<Rightarrow> ys | _ \<Rightarrow> []) @ x)))
      | Some (FloatVec xs) \<Rightarrow>
          res_bind (go_slice xs (wrap64 (idx * sint dim)) (wrap64 ((idx + 1) * sint dim)))
            (\<lambda>x. Inr (FloatVec ((case dst of Some (FloatVec ys) \<Rightarrow> ys | _ \<Rightarrow> []) @ x)))
      | _ \<Rightarrow> Inl (Panic ''Not supported field type''))"

definition append_field :: "int \<Rightarrow> ColumnData \<Rightarrow> ColumnData option \<Rightarrow> ColumnData option result" where
  "append_field idx src dst =
     (case cd_Field src of
        None \<Rightarrow> Inr dst
      | Some (Scalars data) \<Rightarrow>
          (let (d, old) = (case dst of
                 Some d \<Rightarrow> (case cd_Field d of Some (Scalars old) \<Rightarrow> (d, old) | _ \<Rightarrow> (src, None))
               | None \<Rightarrow> (src, None))
           in res_bind (append_scalar idx data old) (\<lambda>new. Inr (Some (d\<lparr>cd_Field := Some (Scalars (Some new))\<rparr>))))
      | Some (Vectors dim data) \<Rightarrow>
          (let (d, dim', old) = (case dst of
                 Some d \<Rightarrow> (case cd_Field d of Some (Vectors dim' old) \<Rightarrow> (d, dim', old) | _ \<Rightarrow> (src, dim, None))
               | None \<Rightarrow> (src, dim, None))
           in res_bind (append_vector idx dim data old) (\<lambda>new. Inr (Some (d\<lparr>cd_Field := Some (Vectors dim' (Some new))\<rparr>)))))"

fun AppendFieldData :: "ColumnData option list \<Rightarrow> ColumnData list \<Rightarrow> int \<Rightarrow> ColumnData option list result" where
  "AppendFieldData dst [] idx = Inr dst"
| "AppendFieldData [] (f # src) idx = Inl (Panic ''index out of range'')"
| "AppendFieldData (d # dst) (f # src) idx =
     res_bind (append_field idx f d) (\<lambda>d'. res_bind (AppendFieldData dst src idx) (\<lambda>ds. Inr (d' # ds)))"

definition row_base :: "InsertRequest \<Rightarrow> int \<Rightarrow> MsgBase result" where
  "row_base r index =
     res_bind (nil_deref (iq_Base r)) (\<lambda>b. res_bind (go_index (iq_Timestamps r) index) (\<lambda>ts.
       Inr (NewMsgBase [WithMsgType MsgType_Insert, WithMsgID (mb_MsgID b), WithTimeStamp ts, WithSourceID (mb_SourceID b)])))"

definition rowBasedIndexRequest :: "InsertRequest \<Rightarrow> int \<Rightarrow> InsertRequest result" where
  "rowBasedIndexRequest r index =
     res_bind (row_base r index) (\<lambda>b.
     res_bind (go_index (iq_Timestamps r) index) (\<lambda>ts.
     res_bind (go_index (iq_RowIDs r) index) (\<lambda>rowID.
     res_bind (go_index (iq_RowData r) index) (\<lambda>row.
       Inr (r\<lparr>iq_Base := Some b, iq_Timestamps := [ts], iq_RowIDs := [rowID], iq_RowData := [row],
              iq_FieldsData := [], iq_NumRows := 0, iq_Version := RowBased\<rparr>)))))"

text \<open>A column without a field stays nil in the new request, where the protobuf library reads it as an empty column.\<close>

definition columnBasedIndexRequest :: "InsertRequest \<Rightarrow> int \<Rightarrow> InsertRequest result" where
  "columnBasedIndexRequest r index =
     res_bind (AppendFieldData (replicate (length (iq_FieldsData r)) None) (iq_FieldsData r) index) (\<lambda>fieldsData.
     res_bind (row_base r index) (\<lambda>b.
     res_bind (go_index (iq_Timestamps r) index) (\<lambda>ts.
     res_bind (go_index (iq_RowIDs r) index) (\<lambda>rowID.
       Inr (r\<lparr>iq_Base := Some b, iq_Timestamps := [ts], iq_RowIDs := [rowID], iq_RowData := [],
              iq_FieldsData := map (\<lambda>d. case d of Some d \<Rightarrow> d | None \<Rightarrow> \<lparr>cd_Type = 0, cd_FieldName = [], cd_FieldId = 0, cd_Field = None\<rparr>) fieldsData,
              iq_NumRows := 1, iq_Version := ColumnBased\<rparr>)))))"

definition IndexRequest :: "InsertRequest \<Rightarrow> int \<Rightarrow> InsertRequest result" where
  "IndexRequest r index = (if IsRowBased r then rowBasedIndexRequest r index else columnBasedIndexRequest r index)"

definition IndexMsg :: "BaseMsg \<Rightarrow> InsertRequest \<Rightarrow> int \<Rightarrow> TsMsg result" where
  "IndexMsg b r index = res_bind (IndexRequest r index) (\<lambda>r'. Inr (InsertMsg b r'))"

section \<open>Message ids\<close>

text \<open>What the pulsar client shows of an id; \<open>deser\<close> is \<open>DeserializeMessageID\<close>.\<close>

record pulsar_MessageID =
  LedgerID :: i64
  EntryID :: i64
  BatchIdx :: i32
  PartitionIdx :: i32

definition pulsarID_AtEarliestPosition :: "pulsar_MessageID \<Rightarrow> bool" where
  "pulsarID_AtEarliestPosition i \<longleftrightarrow> sint (PartitionIdx i) \<le> 0 \<and> sint (LedgerID i) \<le> 0 \<and> sint (EntryID i) \<le> 0 \<and> sint (BatchIdx i) \<le> 0"

definition pulsarID_LessOrEqualThan :: "(bytes \<Rightarrow> pulsar_MessageID result) \<Rightarrow> pulsar_MessageID \<Rightarrow> bytes \<Rightarrow> bool result" where
  "pulsarID_LessOrEqualThan deser i msgID =
     res_bind (deser msgID) (\<lambda>p.
       Inr (sint (LedgerID i) \<le> sint (LedgerID p) \<and> sint (EntryID i) \<le> sint (EntryID p) \<and> sint (BatchIdx i) \<le> sint (BatchIdx p)))"

definition pulsarID_Equal :: "(bytes \<Rightarrow> pulsar_MessageID result) \<Rightarrow> pulsar_MessageID \<Rightarrow> bytes \<Rightarrow> bool result" where
  "pulsarID_Equal deser i msgID =
     res_bind (deser msgID) (\<lambda>p.
       Inr (LedgerID i = LedgerID p \<and> EntryID i = EntryID p \<and> BatchIdx i = BatchIdx p))"

definition SerializeKafkaID :: "i64 \<Rightarrow> bytes" where
  "SerializeKafkaID messageID = put_le 8 messageID"

definition DeserializeKafkaID :: "bytes \<Rightarrow> i64 result" where
  "DeserializeKafkaID bs = (if length bs < 8 then Inl (Panic ''index out of range'') else Inr (get_le (take 8 bs)))"

definition kafkaID_AtEarliestPosition :: "i64 \<Rightarrow> bool" where
  "kafkaID_AtEarliestPosition i \<longleftrightarrow> sint i \<le> 0"

definition kafkaID_Equal :: "i64 \<Rightarrow> bytes \<Rightarrow> bool result" where
  "kafkaID_Equal i msgID = res_bind (DeserializeKafkaID msgID) (\<lambda>p. Inr (i = p))"

definition kafkaID_LessOrEqualThan :: "i64 \<Rightarrow> bytes \<Rightarrow> bool result" where
  "kafkaID_LessOrEqualThan i msgID = res_bind (DeserializeKafkaID msgID) (\<lambda>p. Inr (sint i \<le> sint p))"

section \<open>Columns with a number of rows\<close>

lemma wrap64_id: "- (2 ^ 63) \<le> i \<Longrightarrow> i < 2 ^ 63 \<Longrightarrow> wrap64 i = i"
  by (simp add: wrap64_def signed_of_int signed_take_bit_int_eq_self)

lemma small_int: "n < 2 ^ 60 \<Longrightarrow> int n < 2 ^ 60"
  using of_nat_less_iff [of n "2 ^ 60", where 'a = int] by simp

lemma smod_pos: "0 \<le> a \<Longrightarrow> 0 < b \<Longrightarrow> a smod b = a mod (b :: int)"
  by (cases "a = 0") (simp_all add: signed_modulo_int_def)

lemma sdiv_pos: "0 \<le> a \<Longrightarrow> 0 < b \<Longrightarrow> a sdiv b = a div (b :: int)"
  by (cases "a = 0") (simp_all add: signed_divide_int_def)

fun scalar_len :: "scalar_data \<Rightarrow> nat option" where
  "scalar_len (BoolArray xs) = Some (length xs)"
| "scalar_len (IntArray xs) = Some (length xs)"
| "scalar_len (LongArray xs) = Some (length xs)"
| "scalar_len (FloatArray xs) = Some (length xs)"
| "scalar_len (DoubleArray xs) = Some (length xs)"
| "scalar_len (StringArray xs) = Some (length xs)"
| "scalar_len OtherScalar = None"

definition part :: "nat \<Rightarrow> nat \<Rightarrow> nat \<Rightarrow> 'a list \<Rightarrow> 'a list" where
  "part w lo hi xs = take ((hi - lo) * w) (drop (lo * w) xs)"

fun scalar_part :: "nat \<Rightarrow> nat \<Rightarrow> scalar_data \<Rightarrow> scalar_data" where
  "scalar_part lo hi (BoolArray xs) = BoolArray (part 1 lo hi xs)"
| "scalar_part lo hi (IntArray xs) = IntArray (part 1 lo hi xs)"
| "scalar_part lo hi (LongArray xs) = LongArray (part 1 lo hi xs)"
| "scalar_part lo hi (FloatArray xs) = FloatArray (part 1 lo hi xs)"
| "scalar_part lo hi (DoubleArray xs) = DoubleArray (part 1 lo hi xs)"
| "scalar_part lo hi (StringArray xs) = StringArray (part 1 lo hi xs)"
| "scalar_part lo hi OtherScalar = OtherScalar"

fun vector_part :: "i64 \<Rightarrow> nat \<Rightarrow> nat \<Rightarrow> vector_data \<Rightarrow> vector_data" where
  "vector_part dim lo hi (FloatVec xs) = FloatVec (part (nat (sint dim)) lo hi xs)"
| "vector_part dim lo hi (BinaryVec xs) = BinaryVec (part (nat (sint dim div 8)) lo hi xs)"
| "vector_part dim lo hi OtherVector = OtherVector"

fun vector_ok :: "nat \<Rightarrow> i64 \<Rightarrow> vector_data \<Rightarrow> bool" where
  "vector_ok n dim (FloatVec xs) \<longleftrightarrow> 0 < sint dim \<and> length xs = n * nat (sint dim)"
| "vector_ok n dim (BinaryVec xs) \<longleftrightarrow> 0 < sint dim \<and> 8 dvd sint dim \<and> length xs = n * nat (sint dim div 8)"
| "vector_ok n dim OtherVector \<longleftrightarrow> False"

text \<open>A column of \<open>n\<close> rows, and the rows from \<open>lo\<close> below \<open>hi\<close> of a column.\<close>

definition column_ok :: "nat \<Rightarrow> ColumnData \<Rightarrow> bool" where
  "column_ok n f \<longleftrightarrow>
     (case cd_Field f of
        Some (Scalars (Some s)) \<Rightarrow> scalar_len s = Some n
      | Some (Vectors dim (Some v)) \<Rightarrow> vector_ok n dim v
      | _ \<Rightarrow> False)"

definition column_part :: "nat \<Rightarrow> nat \<Rightarrow> ColumnData \<Rightarrow> ColumnData" where
  "column_part lo hi f =
     f\<lparr>cd_Field := (case cd_Field f of
         Some (Scalars (Some s)) \<Rightarrow> Some (Scalars (Some (scalar_part lo hi s)))
       | Some (Vectors dim (Some v)) \<Rightarrow> Some (Vectors dim (Some (vector_part dim lo hi v)))
       | c \<Rightarrow> c)\<rparr>"

definition column_small :: "ColumnData \<Rightarrow> bool" where
  "column_small f \<longleftrightarrow>
     (case cd_Field f of
        Some (Vectors dim (Some (FloatVec xs))) \<Rightarrow> length xs < 2 ^ 60
      | Some (Vectors dim (Some (BinaryVec xs))) \<Rightarrow> length xs < 2 ^ 60
      | Some (Scalars (Some s)) \<Rightarrow> (case scalar_len s of Some n \<Rightarrow> n < 2 ^ 60 | None \<Rightarrow> True)
      | _ \<Rightarrow> True)"

lemma part_all: "length xs = n * w \<Longrightarrow> part w 0 n xs = xs"
  by (simp add: part_def)

lemma length_part: "length xs = n * w \<Longrightarrow> i < n \<Longrightarrow> length (part w i (Suc i) xs) = w"
proof -
  assume a: "length xs = n * w" "i < n"
  then have "Suc i * w \<le> n * w" by (metis Suc_leI mult_le_mono1)
  then show ?thesis using a by (simp add: part_def)
qed

lemma part_snoc:
  assumes "lo \<le> i"
  shows "part w lo i xs @ part w i (Suc i) xs = part w lo (Suc i) xs"
proof -
  have "(Suc i - lo) * w = (i - lo) * w + w" "(i - lo) * w + lo * w = i * w"
    using assms by (auto simp: Suc_diff_le simp flip: add_mult_distrib)
  then show ?thesis by (simp add: part_def take_add add.commute [of "lo * w"])
qed

lemma part_index: "i < length xs \<Longrightarrow> part (Suc 0) i (Suc i) xs = [xs ! i]"
  by (simp add: part_def take_Suc_conv_app_nth hd_drop_conv_nth take_Suc)

lemma part_grow: "i < length xs \<Longrightarrow> lo \<le> i \<Longrightarrow> part (Suc 0) lo i xs @ [xs ! i] = part (Suc 0) lo (Suc i) xs"
  using part_snoc [of lo i "Suc 0" xs] by (simp add: part_index)

lemma part_empty [simp]: "part w i i xs = []"
  by (simp add: part_def)

lemma go_slice_nat:
  "a \<le> b \<Longrightarrow> b \<le> length xs \<Longrightarrow> go_slice xs (int a) (int b) = Inr (take (b - a) (drop a xs))"
  by (simp add: go_slice_def nat_diff_distrib)

lemma go_slice_row:
  assumes "length xs = n * w" and "i < n" and "length xs < 2 ^ 60"
  shows "go_slice xs (wrap64 (int i * int w)) (wrap64 ((int i + 1) * int w)) = Inr (part w i (Suc i) xs)"
proof -
  have le: "Suc i * w \<le> n * w" using assms(2) by (metis Suc_leI mult_le_mono1)
  then have b: "i * w < 2 ^ 60" "Suc i * w < 2 ^ 60" using assms(1,3) by auto
  have c: "(2 :: int) ^ 60 \<le> 2 ^ 63" by simp
  have "int (i * w) < 2 ^ 63" "int (Suc i * w) < 2 ^ 63"
    by (rule less_le_trans [OF small_int [OF b(1)] c], rule less_le_trans [OF small_int [OF b(2)] c])
  moreover have "int i * int w = int (i * w)" "(int i + 1) * int w = int (Suc i * w)" by (simp_all add: algebra_simps)
  ultimately have "wrap64 (int i * int w) = int (i * w)" "wrap64 ((int i + 1) * int w) = int (Suc i * w)"
    by (simp_all only: wrap64_id)
  then show ?thesis using le assms(1) go_slice_nat [of "i * w" "Suc i * w" xs]
    by (simp only: part_def) simp
qed

lemma wrap64_int: "n < 2 ^ 60 \<Longrightarrow> wrap64 (int n) = int n"
  using small_int [of n] by (simp add: wrap64_id)

lemma wrap64_bits: "n < 2 ^ 60 \<Longrightarrow> wrap64 (8 * int n) = 8 * int n"
  using small_int [of n] by (simp add: wrap64_id)

lemma rows_of_length:
  assumes "0 < d" and "l < 2 ^ 60"
  shows "l mod d = 0 \<and> (of_nat (l div d) :: u64) = n \<longleftrightarrow> l = unat n * d"
proof
  assume a: "l mod d = 0 \<and> (of_nat (l div d) :: u64) = n"
  have "l div d < 2 ^ 60" using div_le_dividend assms(2) by (rule le_less_trans)
  then have "unat (of_nat (l div d) :: u64) = l div d" by (simp add: unat_of_nat take_bit_nat_eq_self)
  then show "l = unat n * d" using a by (metis mod_0_imp_dvd dvd_div_mult_self)
next
  assume "l = unat n * d"
  then show "l mod d = 0 \<and> (of_nat (l div d) :: u64) = n" using assms(1) by simp
qed

lemma float_rows:
  assumes "length xs < 2 ^ 60"
  shows "getNumRowsOfFloatVectorField xs dim = Inr n \<longleftrightarrow> vector_ok (unat n) dim (FloatVec xs)"
proof (cases "0 < sint dim")
  case True
  then obtain d where d: "sint dim = int d" "0 < d" by (metis zero_less_imp_eq_int)
  then show ?thesis using assms rows_of_length [OF d(2) assms, of n]
    by (auto simp: getNumRowsOfFloatVectorField_def Let_def wrap64_int smod_pos sdiv_pos simp flip: of_nat_mod of_nat_div)
qed (simp add: getNumRowsOfFloatVectorField_def)

lemma binary_rows:
  assumes "length xs < 2 ^ 60"
  shows "getNumRowsOfBinaryVectorField xs dim = Inr n \<longleftrightarrow> vector_ok (unat n) dim (BinaryVec xs)"
proof (cases "0 < sint dim \<and> 8 dvd sint dim")
  case True
  then obtain d where d: "sint dim = 8 * int d" "0 < d"
    by (metis dvdE zero_less_imp_eq_int zero_less_mult_iff zero_less_numeral less_asym)
  then show ?thesis using assms rows_of_length [OF d(2) assms, of n]
    by (auto simp: getNumRowsOfBinaryVectorField_def Let_def wrap64_bits smod_pos sdiv_pos simp flip: of_nat_mod of_nat_div)
qed (auto simp: getNumRowsOfBinaryVectorField_def Let_def smod_pos not_less dvd_eq_mod_eq_0 split: if_splits)

lemma scalar_rows: "n < 2 ^ 60 \<Longrightarrow> (of_nat n :: u64) = w \<longleftrightarrow> n = unat w"
  by (auto simp: unat_of_nat take_bit_nat_eq_self)

lemma GetNumRowOfFieldData_eq:
  assumes "column_small f"
  shows "GetNumRowOfFieldData f = Inr n \<longleftrightarrow> column_ok (unat n) f"
proof (cases "cd_Field f")
  case (Some c)
  then show ?thesis using assms
  proof (cases c)
    case (Scalars d)
    then show ?thesis using assms Some
      by (cases d; cases "the d") (auto simp: GetNumRowOfFieldData_def getNumRowsOfScalarField_def column_ok_def column_small_def scalar_rows)
  next
    case (Vectors dim d)
    then show ?thesis using assms Some
      by (cases d; cases "the d") (auto simp: GetNumRowOfFieldData_def column_ok_def column_small_def float_rows binary_rows)
  qed
qed (simp add: GetNumRowOfFieldData_def column_ok_def)

section \<open>Appending a row\<close>

lemma append_scalar_row:
  assumes "scalar_len s = Some n" and "i < n" and "lo \<le> i"
  shows "append_scalar (int i) (Some s) (if lo = i then None else Some (scalar_part lo i s)) = Inr (scalar_part lo (Suc i) s)"
  using assms by (cases s) (auto simp: append_scalar_def part_index part_grow)

lemma append_vector_row:
  assumes "vector_ok n dim v" and "i < n" and "lo \<le> i"
    and "case v of FloatVec xs \<Rightarrow> length xs < 2 ^ 60 | BinaryVec xs \<Rightarrow> length xs < 2 ^ 60 | OtherVector \<Rightarrow> True"
  shows "append_vector (int i) dim (Some v) (if lo = i then None else Some (vector_part dim lo i v)) = Inr (vector_part dim lo (Suc i) v)"
proof (cases v)
  case (FloatVec xs)
  then show ?thesis using assms go_slice_row [of xs n "nat (sint dim)" i] part_snoc [of lo i "nat (sint dim)" xs]
    by (auto simp: append_vector_def)
next
  case (BinaryVec xs)
  then show ?thesis using assms go_slice_row [of xs n "nat (sint dim div 8)" i] part_snoc [of lo i "nat (sint dim div 8)" xs]
    by (auto simp: append_vector_def sdiv_pos)
qed (use assms in simp)

lemma append_field_row:
  assumes "column_ok n f" and "column_small f" and "i < n" and "lo \<le> i"
  shows "append_field (int i) f (if lo = i then None else Some (column_part lo i f)) = Inr (Some (column_part lo (Suc i) f))"
proof (cases "cd_Field f")
  case (Some c)
  show ?thesis
  proof (cases c)
    case (Scalars d)
    then obtain s where "cd_Field f = Some (Scalars (Some s))" "scalar_len s = Some n"
      using assms(1) Some by (cases d) (auto simp: column_ok_def)
    then show ?thesis using append_scalar_row [OF _ assms(3,4), of s]
      by (auto simp: append_field_def column_part_def split: if_splits)
  next
    case (Vectors dim d)
    then obtain v where v: "cd_Field f = Some (Vectors dim (Some v))" "vector_ok n dim v"
      using assms(1) Some by (cases d) (auto simp: column_ok_def)
    then show ?thesis using append_vector_row [OF v(2) assms(3,4)] assms(2)
      by (auto simp: append_field_def column_part_def column_small_def split: if_splits vector_data.splits)
  qed
qed (use assms in \<open>simp add: column_ok_def\<close>)

lemma AppendFieldData_row:
  assumes "\<forall>f \<in> set fs. column_ok n f \<and> column_small f" and "i < n" and "lo \<le> i"
  shows "AppendFieldData (map (\<lambda>f. if lo = i then None else Some (column_part lo i f)) fs) fs (int i) =
    Inr (map (\<lambda>f. Some (column_part lo (Suc i) f)) fs)"
  using assms(1)
proof (induction fs)
  case (Cons f fs)
  then show ?case using append_field_row [of n f i lo] assms(2,3) by (simp cong: if_cong)
qed simp

lemma AppendFieldData_rows:
  assumes "\<forall>f \<in> set fs. column_ok n f \<and> column_small f" and "k \<le> n"
  shows "res_fold (\<lambda>i d. AppendFieldData d fs (int i)) [0..<k] (replicate (length fs) None) =
    Inr (map (\<lambda>f. if k = 0 then None else Some (column_part 0 k f)) fs)"
  using assms(2)
proof (induction k)
  case 0
  then show ?case by (simp add: map_replicate_const)
next
  case (Suc k)
  then show ?case using AppendFieldData_row [OF assms(1), of k 0]
    by (simp add: res_fold_append del: AppendFieldData.simps)
qed

lemma column_part_all: "column_ok n f \<Longrightarrow> column_part 0 n f = f"
proof -
  assume a: "column_ok n f"
  have s: "scalar_len s = Some n \<Longrightarrow> scalar_part 0 n s = s" for s by (cases s) (auto simp: part_all)
  have v: "vector_ok n dim v \<Longrightarrow> vector_part dim 0 n v = v" for dim v by (cases v) (auto simp: part_all)
  show ?thesis using a s v
    by (cases f) (auto simp: column_ok_def column_part_def split: option.splits field_content.splits)
qed

lemma column_ok_row:
  assumes "column_ok n f" and "i < n"
  shows "column_ok 1 (column_part i (Suc i) f)"
proof -
  have s: "scalar_len s = Some n \<Longrightarrow> scalar_len (scalar_part i (Suc i) s) = Some 1" for s
    using assms(2) by (cases s) (auto simp: part_index)
  have v: "vector_ok n dim v \<Longrightarrow> vector_ok 1 dim (vector_part dim i (Suc i) v)" for dim v
    using assms(2) by (cases v) (auto simp: length_part)
  show ?thesis using assms(1) s v
    by (auto simp: column_ok_def column_part_def split: option.splits field_content.splits)
qed

lemma length_part_le: "length (part w lo hi xs) \<le> length xs"
  by (simp add: part_def)

lemma column_small_row: 
  assumes "column_small f"
  shows "column_small (column_part i (Suc i) f)"
proof -
  note le = le_less_trans [OF length_part_le]
  have s: "scalar_len (scalar_part i (Suc i) s) = Some b \<Longrightarrow> \<exists>a. scalar_len s = Some a \<and> b \<le> a" for s b
    by (cases s) (auto simp: length_part_le)
  consider (scalar) s where "cd_Field f = Some (Scalars (Some s))" | (other) "\<forall>s. cd_Field f \<noteq> Some (Scalars (Some s))" by blast
  then show ?thesis
  proof cases
    case scalar
    then show ?thesis using assms
      by (auto simp: column_small_def column_part_def split: option.splits dest!: s)
  next
    case other
    then show ?thesis using assms
      by (auto simp: column_small_def column_part_def le split: option.splits field_content.splits vector_data.splits
          elim!: vector_part.elims)
  qed
qed

lemma fields_checked:
  "res_fold (\<lambda>f _. res_bind (GetNumRowOfFieldData f) (\<lambda>k. if k \<noteq> n then Inl e else Inr ())) fs () = Inr () \<longleftrightarrow>
   (\<forall>f \<in> set fs. GetNumRowOfFieldData f = Inr n)"
proof (induction fs)
  case (Cons f fs)
  then show ?case by (cases "GetNumRowOfFieldData f") auto
qed simp

lemma CheckAligned_eq:
  assumes "\<forall>f \<in> set (iq_FieldsData r). column_small f"
  shows "InsertMsg_CheckAligned r = Inr () \<longleftrightarrow>
    (IsColumnBased r \<longrightarrow> (\<forall>f \<in> set (iq_FieldsData r). column_ok (unat (NRows r)) f)) \<and>
    length (iq_RowIDs r) = length (iq_Timestamps r) \<and> of_nat (length (iq_RowIDs r)) = NRows r"
  using assms fields_checked [of "NRows r" _ "iq_FieldsData r"]
  by (auto simp: InsertMsg_CheckAligned_def GetNumRowOfFieldData_eq res_bind_Inr_iff split: if_splits)

section \<open>Rows of an insert message\<close>

definition small_request :: "InsertRequest \<Rightarrow> bool" where
  "small_request r \<longleftrightarrow>
     length (iq_RowIDs r) < 2 ^ 60 \<and> length (iq_RowData r) < 2 ^ 60 \<and> (\<forall>f \<in> set (iq_FieldsData r). column_small f)"

lemma row_base_eq:
  "iq_Base r = Some b \<Longrightarrow> i < length (iq_Timestamps r) \<Longrightarrow>
   row_base r (int i) = Inr \<lparr>mb_MsgType = MsgType_Insert, mb_MsgID = mb_MsgID b, mb_Timestamp = iq_Timestamps r ! i, mb_SourceID = mb_SourceID b\<rparr>"
  by (simp add: row_base_def nil_deref_def NewMsgBase_def WithMsgType_def WithMsgID_def WithTimeStamp_def
      WithSourceID_def newMsgBaseDefault_def)

lemma columns_of_row:
  assumes "\<forall>f \<in> set fs. column_ok n f \<and> column_small f" and "i < n"
  shows "AppendFieldData (replicate (length fs) None) fs (int i) = Inr (map (\<lambda>f. Some (column_part i (Suc i) f)) fs)"
  using AppendFieldData_row [OF assms, of i] by (simp add: map_replicate_const)


definition demo_insert :: InsertRequest where
  "demo_insert = \<lparr>iq_Base = Some \<lparr>mb_MsgType = MsgType_Insert, mb_MsgID = 7, mb_Timestamp = 20, mb_SourceID = 1\<rparr>, iq_DbID = 0,
     iq_CollectionID = 5, iq_PartitionID = 6, iq_CollectionName = ''c'', iq_PartitionName = ''p'', iq_SegmentID = 9,
     iq_ShardName = ''s'', iq_Timestamps = [21, 20], iq_RowIDs = [100, 101], iq_RowData = [],
     iq_FieldsData = [\<lparr>cd_Type = 5, cd_FieldName = ''pk'', cd_FieldId = 100, cd_Field = Some (Scalars (Some (LongArray [1, 2])))\<rparr>,
       \<lparr>cd_Type = 101, cd_FieldName = ''v'', cd_FieldId = 101, cd_Field = Some (Vectors 2 (Some (FloatVec [1, 2, 3, 4])))\<rparr>],
     iq_NumRows = 2, iq_Version = ColumnBased\<rparr>"

lemma demo_insert_aligned: "InsertMsg_CheckAligned demo_insert = Inr ()"
  by code_simp


text \<open>
  Round trip of rows and columns: appending the rows \<open>0, \<dots>, n - 1\<close> of the columns one after the other to
  columns that are all nil gives the columns back, types, names and dimensions included.
\<close>

theorem append_rows_roundtrip:
  assumes "\<forall>f \<in> set fs. column_ok n f \<and> column_small f" and "0 < n"
  shows "res_fold (\<lambda>i d. AppendFieldData d fs (int i)) [0..<n] (replicate (length fs) None) = Inr (map Some fs)"
  using AppendFieldData_rows [OF assms(1) order_refl] assms by (auto simp: column_part_all)

lemma append_rows_roundtrip_witness:
  "res_fold (\<lambda>i d. AppendFieldData d (iq_FieldsData demo_insert) (int i)) [0..<2] [None, None] =
   Inr (map Some (iq_FieldsData demo_insert))"
proof -
  have "\<forall>f \<in> set (iq_FieldsData demo_insert). column_ok 2 f \<and> column_small f"
    by (simp add: demo_insert_def column_ok_def column_small_def)
  from append_rows_roundtrip [OF this] show ?thesis by (simp add: demo_insert_def numeral_2_eq_2)
qed

section \<open>The times of a message\<close>

lemma widen_times:
  "BeginTimestamp (widen t b) = min t (BeginTimestamp b)" "EndTimestamp (widen t b) = max t (EndTimestamp b)"
  by (auto simp: widen_def Let_def min_def max_def)

lemma fold_widen:
  "BeginTimestamp (fold widen tss b) = fold min tss (BeginTimestamp b)"
  "EndTimestamp (fold widen tss b) = fold max tss (EndTimestamp b)"
  by (induction tss arbitrary: b) (simp_all add: widen_times)

lemma time_range_eq:
  assumes "tss \<noteq> []"
  shows "BeginTimestamp (time_range tss b) = Min (set tss)" "EndTimestamp (time_range tss b) = Max (set tss)"
proof -
  obtain t rest where t: "tss = t # rest" using assms by (cases tss) auto
  show "BeginTimestamp (time_range tss b) = Min (set tss)" "EndTimestamp (time_range tss b) = Max (set tss)"
    by (simp_all add: t time_range_def fold_widen widen_times Min.set_eq_fold Max.set_eq_fold del: set_simps)
qed

text \<open>
  The position of an insert or delete message on its channel carries the least timestamp of its rows, so that no row of
  the message is older than the position; the end of the message's time range is the greatest.
\<close>

theorem position_is_least_time:
  assumes "qm_Payload msg = Some bs" and "un_header M bs = Inr (Some b)" and "mb_MsgType b \<in> {MsgType_Insert, MsgType_Delete}"
    and "(if mb_MsgType b = MsgType_Insert then res_bind (un_insert M bs) (\<lambda>r. Inr (iq_Timestamps r))
          else res_bind (un_delete M bs) (\<lambda>r. Inr (dq_Timestamps r))) = Inr tss" and "tss \<noteq> []"
  shows "GetMsgPosition M msg = Inr \<lparr>pos_ChannelName = path_Base (qm_Topic msg), pos_MsgID = qm_ID msg, pos_Timestamp = Min (set tss)\<rparr> \<and>
    (\<exists>m. Dispatcher_Unmarshal M (MBytes bs) (mb_MsgType b) = Inr m \<and> BeginTs m = Min (set tss) \<and> EndTs m = Max (set tss))"
proof (cases "mb_MsgType b = MsgType_Insert")
  case True
  then obtain r where "un_insert M bs = Inr r" "iq_Timestamps r = tss" using assms(4) by (auto simp: res_bind_Inr_iff)
  then show ?thesis using True assms time_range_eq [OF assms(5)]
    by (simp add: GetMsgPosition_def Dispatcher_Unmarshal_def NewUnmarshalDispatcher_def InsertMsg_Unmarshal_def BeginTs_def EndTs_def)
next
  case False
  then obtain r where "un_delete M bs = Inr r" "dq_Timestamps r = tss" using assms(4) by (auto simp: res_bind_Inr_iff)
  then show ?thesis using False assms(1,2,3) time_range_eq [OF assms(5)]
    by (auto simp: GetMsgPosition_def Dispatcher_Unmarshal_def NewUnmarshalDispatcher_def DeleteMsg_Unmarshal_def Let_def BeginTs_def EndTs_def)
qed

definition demo_codec :: msg_codec where
  "demo_codec = \<lparr>un_insert = (\<lambda>_. Inr demo_insert), un_delete = (\<lambda>_. Inl (Failure ''wire type'')),
     un_base = (\<lambda>_ _. Inl (Failure ''wire type'')), un_header = (\<lambda>_. Inr (iq_Base demo_insert)),
     ma_insert = (\<lambda>_. Inr []), ma_delete = (\<lambda>_. Inr []), ma_base = (\<lambda>_ _. Inr [])\<rparr>"

lemma position_is_least_time_witness:
  "GetMsgPosition demo_codec \<lparr>qm_Topic = ''a/b'', qm_Payload = Some [1], qm_ID = [2]\<rparr> =
   Inr \<lparr>pos_ChannelName = ''b'', pos_MsgID = [2], pos_Timestamp = 20\<rparr>"
proof -
  have "path_Base ''a/b'' = ''b''" by code_simp
  then show ?thesis
    using position_is_least_time [of "\<lparr>qm_Topic = ''a/b'', qm_Payload = Some [1], qm_ID = [2]\<rparr>" "[1]" demo_codec
      "\<lparr>mb_MsgType = MsgType_Insert, mb_MsgID = 7, mb_Timestamp = 20, mb_SourceID = 1\<rparr>" "[21, 20]"]
    by (simp add: demo_codec_def demo_insert_def)
qed

text \<open>The data node's time tick gets no times: it is at time 0 whatever its base says.\<close>

lemma DataNodeTt_has_no_time:
  "DataNodeTtMsg_Unmarshal M input = Inr m \<Longrightarrow> BeginTs m = 0 \<and> EndTs m = 0"
  by (auto simp: DataNodeTtMsg_Unmarshal_def res_bind_Inr_iff BeginTs_def EndTs_def no_base_def)

section \<open>Order of message ids\<close>

text \<open>
  The order of pulsar ids compares ledger, entry and batch index each on its own. An entry late in an early ledger
  and one early in a later ledger are then in neither order.
\<close>

lemma pulsar_ids_incomparable:
  assumes "deser bi = Inr i" and "deser bp = Inr p"
    and "sint (LedgerID i) < sint (LedgerID p)" and "sint (EntryID p) < sint (EntryID i)"
  shows "pulsarID_LessOrEqualThan deser i bp = Inr False" "pulsarID_LessOrEqualThan deser p bi = Inr False"
  using assms by (simp_all add: pulsarID_LessOrEqualThan_def)

lemma kafka_id_order:
  "kafkaID_LessOrEqualThan i (SerializeKafkaID p) = Inr (sint i \<le> sint p)"
  "kafkaID_Equal i (SerializeKafkaID p) = Inr (i = p)"
  by (simp_all add: kafkaID_LessOrEqualThan_def kafkaID_Equal_def DeserializeKafkaID_def SerializeKafkaID_def get_put_le take_bit_word_eq_self del: put_le.simps)

end
