(* ===== verification/Etcd_Repair.thy ===== *)
theory Etcd_Repair
  imports Etcd_Remove Mq_Message
begin

text \<open>
  The repair commands that rewrite or remove entries of the metadata store one by one (\<^verbatim>\<open>states/etcd/repair\<close>): index
  parameters (\<^verbatim>\<open>index_metric.go\<close>, \<^verbatim>\<open>index_parmas.go\<close>, \<^verbatim>\<open>add_index_param_retrive_friendly.go\<close>), binlogs of two versions in one
  segment (\<^verbatim>\<open>mixed_binlogs.go\<close>), channel checkpoints (\<^verbatim>\<open>checkpoint.go\<close>), segments of dropped partitions
  (\<^verbatim>\<open>segment_partition_drop.go\<close>) and the helpers of \<^verbatim>\<open>segment.go\<close>. Printing is left out; the order in which a Go map is
  visited is an argument; so are protobuf and the last message of a queue.
\<close>

section \<open>Indexes\<close>

text \<open>\<open>ii_rest\<close> and \<open>fi_rest\<close> are the fields of the messages that the program does not name.\<close>

record IndexInfo =
  ii_CollectionID :: i64
  ii_FieldID :: i64
  ii_IndexName :: string
  ii_IndexID :: i64
  ii_TypeParams :: "(string \<times> string) list"
  ii_IndexParams :: "(string \<times> string) list"
  ii_IndexedRows :: i64
  ii_TotalRows :: i64
  ii_State :: i32
  ii_IndexStateFailReason :: string
  ii_IsAutoIndex :: bool
  ii_UserIndexParams :: "(string \<times> string) list"
  ii_rest :: bytes

record FieldIndex =
  fi_IndexInfo :: "IndexInfo option"
  fi_Deleted :: bool
  fi_CreateTime :: u64
  fi_rest :: bytes

record index_codec =
  un_index :: "string \<Rightarrow> FieldIndex result"
  marshal_index :: "FieldIndex \<Rightarrow> string result"

definition no_IndexInfo :: IndexInfo where
  "no_IndexInfo = \<lparr>ii_CollectionID = 0, ii_FieldID = 0, ii_IndexName = [], ii_IndexID = 0, ii_TypeParams = [], ii_IndexParams = [],
     ii_IndexedRows = 0, ii_TotalRows = 0, ii_State = 0, ii_IndexStateFailReason = [], ii_IsAutoIndex = False,
     ii_UserIndexParams = [], ii_rest = []\<rparr>"

definition GetIndexInfo :: "FieldIndex \<Rightarrow> IndexInfo" where
  "GetIndexInfo index = (case fi_IndexInfo index of None \<Rightarrow> no_IndexInfo | Some info \<Rightarrow> info)"

text \<open>The new message that both repairs build field by field.\<close>

definition copy_index :: "FieldIndex \<Rightarrow> (string \<times> string) list \<Rightarrow> FieldIndex" where
  "copy_index index params =
     \<lparr>fi_IndexInfo = Some ((GetIndexInfo index)\<lparr>ii_IndexParams := params, ii_rest := []\<rparr>),
      fi_Deleted = fi_Deleted index, fi_CreateTime = fi_CreateTime index, fi_rest = []\<rparr>"

text \<open>When encoding fails, the message is printed and an empty value is saved.\<close>

definition bytes_or_empty :: "string result \<Rightarrow> string" where
  "bytes_or_empty r = (case r of Inl _ \<Rightarrow> [] | Inr bs \<Rightarrow> bs)"

definition index_path :: "string \<Rightarrow> FieldIndex \<Rightarrow> string" where
  "index_path basePath index =
     path_Join [basePath, ''field-index/'' @ ids_path [ii_CollectionID (GetIndexInfo index), ii_IndexID (GetIndexInfo index)]]"

definition writeRepairedIndex :: "('s, 't) MetaKV \<Rightarrow> index_codec \<Rightarrow> string \<Rightarrow> FieldIndex \<Rightarrow> ('s, unit) prog" where
  "writeRepairedIndex K C basePath index =
     prog_go (kv_Save K (index_path basePath index) (bytes_or_empty (marshal_index C index)))"

text \<open>
  Metric types: an empty one is dropped from the index parameters, and the flag says whether the last one read was
  not empty. A missing one is taken from the type parameters.
\<close>

fun metric_step :: "string \<times> string \<Rightarrow> (string \<times> string) list \<times> bool \<Rightarrow> (string \<times> string) list \<times> bool" where
  "metric_step (k, v) (params, exist) =
     (if k = ''metric_type'' then if v = [] then (params, False) else (params @ [(k, v)], True)
      else (params @ [(k, v)], exist))"

datatype metric_verdict = MetricOk | MetricMissing | MetricFixed FieldIndex

definition repair_metric :: "FieldIndex \<Rightarrow> IndexInfo \<Rightarrow> metric_verdict" where
  "repair_metric index info =
     (case fold metric_step (ii_IndexParams info) ([], False) of (params, exist) \<Rightarrow>
        if exist then MetricOk
        else case find (\<lambda>(k, v). k = ''metric_type'' \<and> v \<noteq> []) (ii_TypeParams info) of
               None \<Rightarrow> MetricMissing
             | Some pair \<Rightarrow> MetricFixed (copy_index index (params @ [pair])))"

text \<open>The message of an error inside the loop ends the command.\<close>

fun metric_loop :: "('s, 't) MetaKV \<Rightarrow> index_codec \<Rightarrow> string \<Rightarrow> i64 \<Rightarrow> FieldIndex ProtoWrapper list \<Rightarrow> bool \<Rightarrow> ('s, bool) prog" where
  "metric_loop K C basePath collID [] errExist = prog_return errExist"
| "metric_loop K C basePath collID (w # ws) errExist =
     (case fi_IndexInfo (wrapped_proto w) of
        None \<Rightarrow> prog_fail (Panic ''nil pointer dereference'')
      | Some info \<Rightarrow>
          if ii_CollectionID info \<noteq> collID then metric_loop K C basePath collID ws errExist
          else case repair_metric (wrapped_proto w) info of
                 MetricOk \<Rightarrow> metric_loop K C basePath collID ws errExist
               | MetricMissing \<Rightarrow> prog_fail (Failure ''no metric_type in IndexParams or TypeParams'')
               | MetricFixed index \<Rightarrow>
                   prog_bind (writeRepairedIndex K C basePath index) (\<lambda>_. metric_loop K C basePath collID ws True))"

definition IndexMetricCommand :: "('s, 't) MetaKV \<Rightarrow> index_codec \<Rightarrow> string \<Rightarrow> i64 \<Rightarrow> ('s, unit) prog" where
  "IndexMetricCommand K C basePath collID =
     tolerate (prog_bind (ListIndex K (un_index C) basePath []) (\<lambda>indexes.
       prog_bind (metric_loop K C basePath collID indexes False) (\<lambda>errExist.
         if \<not> errExist then prog_return ()
         else prog_bind (ListIndex K (un_index C) basePath []) (\<lambda>_. prog_return ()))))"

text \<open>The parameters each index type knows.\<close>

definition DISKANNParams :: "string list" where
  "DISKANNParams = [''max_degree'', ''search_list_size'', ''pq_code_budget_gb'', ''build_dram_budget_gb'', ''disk_pq_dims'',
     ''partition_limit'', ''accelerate_build'', ''search_cache_budget_gb'', ''warm_up'', ''use_bfs_cache'', ''beamwidth'', ''min_k'',
     ''max_k'', ''search_list_and_k_ratio'', ''filter_threshold'', ''pq_code_budget_gb_ratio'', ''num_build_thread_ratio'',
     ''search_cache_budget_gb_ratio'', ''num_load_thread_ratio'', ''beamwidth_ratio'']"

definition shareParams :: "string list" where
  "shareParams = [''index_type'', ''metric_type'', ''k'', ''num_build_thread'', ''retrieve_friendly'', ''data_path'', ''index_prefix'',
     ''build_quant_type'', ''search_quant_type'', ''radius'', ''range_filter'', ''trace_visit'', ''enable_mmap'', ''for_tuning'']"

definition HNSWParams :: "string list" where
  "HNSWParams = [''M'', ''efConstruction'', ''ef'', ''seed_ef'', ''overview_levels'']"

text \<open>The last value of \<^verbatim>\<open>index_type\<close>.\<close>

definition index_type :: "(string \<times> string) list \<Rightarrow> string" where
  "index_type params = fold (\<lambda>(k, v) t. if k = ''index_type'' then v else t) params []"

definition known_param :: "string \<Rightarrow> string \<Rightarrow> bool" where
  "known_param indexType key \<longleftrightarrow>
     key \<in> set (if indexType = ''DISKANN'' then DISKANNParams else HNSWParams) \<or> key \<in> set shareParams"

text \<open>The repaired message of an index with parameters its type does not know.\<close>

definition strip_params :: "FieldIndex \<Rightarrow> FieldIndex option result" where
  "strip_params index =
     (case fi_IndexInfo index of
        None \<Rightarrow> Inl (Panic ''nil pointer dereference'')
      | Some info \<Rightarrow>
          let t = index_type (ii_IndexParams info);
              params = filter (\<lambda>(k, v). known_param t k) (ii_IndexParams info)
          in if t \<noteq> ''DISKANN'' \<and> t \<noteq> ''HNSW'' then Inr None
             else if filter (\<lambda>(k, v). \<not> known_param t k) (ii_IndexParams info) = [] then Inr None
             else Inr (Some (copy_index index params)))"

fun res_filter_map :: "('a \<Rightarrow> 'b option result) \<Rightarrow> 'a list \<Rightarrow> 'b list result" where
  "res_filter_map f [] = Inr []"
| "res_filter_map f (x # xs) =
     res_bind (f x) (\<lambda>y. res_bind (res_filter_map f xs) (\<lambda>ys. Inr (case y of None \<Rightarrow> ys | Some b \<Rightarrow> b # ys)))"

definition of_collection :: "i64 \<Rightarrow> FieldIndex ProtoWrapper \<Rightarrow> bool" where
  "of_collection collID w \<longleftrightarrow> collID = 0 \<or> ii_CollectionID (GetIndexInfo (wrapped_proto w)) = collID"

text \<open>\<open>repair_indexes\<close>: the part the two commands share, with the repair of one index as an argument.\<close>

definition repair_indexes :: "('s, 't) MetaKV \<Rightarrow> index_codec \<Rightarrow> (FieldIndex \<Rightarrow> FieldIndex option result) \<Rightarrow> string \<Rightarrow> i64 \<Rightarrow> i64 \<Rightarrow> bool \<Rightarrow>
    ('s, unit) prog" where
  "repair_indexes K C mend basePath collID after run =
     prog_bind (ListIndex K (un_index C) basePath [of_collection collID]) (\<lambda>indexes.
     prog_bind (prog_lift (res_filter_map (\<lambda>w. mend (wrapped_proto w)) indexes)) (\<lambda>newIndexes.
       if \<not> run then prog_return ()
       else prog_bind (prog_for newIndexes (writeRepairedIndex K C basePath)) (\<lambda>_.
            prog_bind (ListIndex K (un_index C) basePath [of_collection after]) (\<lambda>_. prog_return ()))))"

definition DiskAnnIndexParamsCommand :: "('s, 't) MetaKV \<Rightarrow> index_codec \<Rightarrow> string \<Rightarrow> i64 \<Rightarrow> bool \<Rightarrow> ('s, unit) prog" where
  "DiskAnnIndexParamsCommand K C basePath collID run = tolerate (repair_indexes K C strip_params basePath collID 0 run)"

definition add_param :: "string \<Rightarrow> string \<Rightarrow> FieldIndex \<Rightarrow> FieldIndex option result" where
  "add_param key val index =
     (let params = ii_IndexParams (GetIndexInfo index); t = index_type params
      in if t \<noteq> ''DISKANN'' \<and> t \<noteq> ''HNSW'' then Inr None
         else if key \<in> fst ` set params then Inr None
         else Inr (Some (index\<lparr>fi_IndexInfo := Some ((GetIndexInfo index)\<lparr>ii_IndexParams := params @ [(key, val)]\<rparr>)\<rparr>)))"

definition AddIndexParamsCommand :: "('s, 't) MetaKV \<Rightarrow> index_codec \<Rightarrow> string \<Rightarrow> i64 \<Rightarrow> string \<Rightarrow> string \<Rightarrow> bool \<Rightarrow> ('s, unit) prog" where
  "AddIndexParamsCommand K C basePath collID key val run = repair_indexes K C (add_param key val) basePath collID collID run"

section \<open>Segments with binlogs of two versions\<close>

text \<open>
  A binlog with child fields is a column group of the second version. The maps from field id to binlog keep one
  entry per id; only the ids of their values are used, in the order \<open>order\<close> the runtime visits the map.
\<close>

definition v1_logs :: "FieldBinlog list \<Rightarrow> FieldBinlog list" where
  "v1_logs logs = filter (\<lambda>b. fb_ChildFields b = []) logs"

definition v2_logs :: "FieldBinlog list \<Rightarrow> FieldBinlog list" where
  "v2_logs logs = filter (\<lambda>b. fb_ChildFields b \<noteq> []) logs"

definition v1_fields :: "FieldBinlog list \<Rightarrow> i64 list" where
  "v1_fields logs = remdups (map fb_FieldID (v1_logs logs))"

definition v2_fields :: "FieldBinlog list \<Rightarrow> i64 list" where
  "v2_fields logs = remdups (concat (map fb_ChildFields (v2_logs logs)))"

definition is_mixed :: "FieldBinlog list \<Rightarrow> bool" where
  "is_mixed logs \<longleftrightarrow> (\<exists>f \<in> set (v1_fields logs). f \<in> set (v2_fields logs))"

definition mixed_targets :: "(i64 list \<Rightarrow> i64 list) \<Rightarrow> nat \<Rightarrow> FieldBinlog list \<Rightarrow> i64 list result" where
  "mixed_targets order fieldNumber logs =
     (if fieldNumber = length (v2_fields logs) then Inr (order (remdups (map fb_FieldID (v1_logs logs))))
      else if fieldNumber = length (v1_fields logs) then Inr (order (remdups (map fb_FieldID (v2_logs logs))))
      else Inl (Failure ''neither v1 or v2 binlog has all fields''))"

fun mixed_scan :: "('s, 't) MetaKV \<Rightarrow> collection_codec \<Rightarrow> (string \<Rightarrow> FieldBinlog result) \<Rightarrow> (i64 list \<Rightarrow> i64 list) \<Rightarrow> string \<Rightarrow>
    SegmentModel list \<Rightarrow> ('s, (SegmentInfo \<times> i64 list) list) prog" where
  "mixed_scan K M unb order basePath [] = prog_return []"
| "mixed_scan K M unb order basePath (m # ms) =
     prog_bind (GetBinlogs (getSegmentLazyFunc K unb basePath (sm_info m)) m) (\<lambda>(m', logs).
       if is_mixed logs then
         prog_bind (GetCollectionByIDVersion K M basePath (si_CollectionID (sm_info m))) (\<lambda>coll.
         prog_bind (prog_lift (schema_fields coll)) (\<lambda>flds.
         prog_bind (prog_lift (mixed_targets order (length flds) logs)) (\<lambda>targets.
         prog_bind (mixed_scan K M unb order basePath ms) (\<lambda>rest. prog_return ((sm_info m, targets) # rest)))))
       else mixed_scan K M unb order basePath ms)"

definition mixed_key :: "string \<Rightarrow> SegmentInfo \<Rightarrow> i64 \<Rightarrow> string" where
  "mixed_key basePath seg f =
     basePath @ ''/datacoord-meta/binlog/'' @ ids_path [si_CollectionID seg, si_PartitionID seg, si_ID seg, f]"

definition move_key :: "('s, 't) MetaKV \<Rightarrow> string \<Rightarrow> ('s, unit) prog" where
  "move_key K key =
     prog_bind (prog_go (kv_Load K key)) (\<lambda>val.
     prog_bind (prog_go (kv_Save K (''repair/'' @ key) val)) (\<lambda>_. prog_go (kv_Remove K key)))"

definition MixedBinlogsCommand :: "('s, 't) MetaKV \<Rightarrow> collection_codec \<Rightarrow> (string \<Rightarrow> SegmentInfo result) \<Rightarrow>
    (string \<Rightarrow> FieldBinlog result) \<Rightarrow> (i64 list \<Rightarrow> i64 list) \<Rightarrow> string \<Rightarrow> bool \<Rightarrow> ('s, unit) prog" where
  "MixedBinlogsCommand K M un unb order basePath run =
     prog_bind (ListSegments K un basePath []) (\<lambda>segments.
     prog_bind (mixed_scan K M unb order basePath segments) (\<lambda>results.
       if \<not> run then prog_return ()
       else prog_for results (\<lambda>(seg, targets). prog_for targets (\<lambda>f. move_key K (mixed_key basePath seg f)))))"

section \<open>Checkpoints\<close>

definition ToPhysicalChannel :: "string \<Rightarrow> string" where
  "ToPhysicalChannel vchannel =
     (if CHR ''_'' \<in> set vchannel then rev (tl (dropWhile (\<lambda>c. c \<noteq> CHR ''_'') (rev vchannel))) else vchannel)"

definition seg_position :: "SegmentInfo \<Rightarrow> MsgPosition option" where
  "seg_position info = (case si_DmlPosition info of Some p \<Rightarrow> Some p | None \<Rightarrow> si_StartPosition info)"

definition latest_step :: "SegmentModel \<Rightarrow> (string \<Rightarrow> MsgPosition option) \<Rightarrow> (string \<Rightarrow> MsgPosition option)" where
  "latest_step m ret =
     (let info = sm_info m; pChannel = ToPhysicalChannel (si_InsertChannel info)
      in if si_State info \<notin> {Flushed, Growing, Flushing} then ret
         else case seg_position info of
                None \<Rightarrow> ret
              | Some segPos \<Rightarrow>
                  if ret pChannel = None \<or> GetTimestamp (ret pChannel) < pos_Timestamp segPos then ret(pChannel \<mapsto> segPos) else ret)"

definition getLatestCheckpointFromPChannel :: "('s, 't) MetaKV \<Rightarrow> (string \<Rightarrow> SegmentInfo result) \<Rightarrow> string \<Rightarrow>
    ('s, string \<Rightarrow> MsgPosition option) prog" where
  "getLatestCheckpointFromPChannel K un basePath =
     prog_bind (ListSegments K un basePath []) (\<lambda>segments. prog_return (fold latest_step segments Map.empty))"

definition saveChannelCheckpoint :: "('s, 't) MetaKV \<Rightarrow> (MsgPosition \<Rightarrow> string result) \<Rightarrow> string \<Rightarrow> string \<Rightarrow> MsgPosition \<Rightarrow>
    ('s, unit) prog" where
  "saveChannelCheckpoint K marshal basePath channelName pos =
     prog_go (kv_Save K (path_Join [basePath, ''datacoord-meta'', ''channel-cp'', channelName]) (bytes_or_empty (marshal pos)))"

text \<open>\<open>lastMessage\<close> is the last message of a topic: creating the consumer and reading are calls of the client libraries.\<close>

definition getLatestFromPChannel :: "(string \<Rightarrow> string \<Rightarrow> string \<Rightarrow> queue_message result) \<Rightarrow> msg_codec \<Rightarrow> string \<Rightarrow> string \<Rightarrow> string \<Rightarrow>
    MsgPosition result" where
  "getLatestFromPChannel lastMessage Q mqType address vchannel =
     res_bind (lastMessage mqType address (ToPhysicalChannel vchannel)) (GetMsgPosition Q)"

definition setCheckPointWithLatestMsgID :: "('s, 't) MetaKV \<Rightarrow> (MsgPosition \<Rightarrow> string result) \<Rightarrow>
    (string \<Rightarrow> string \<Rightarrow> string \<Rightarrow> queue_message result) \<Rightarrow> msg_codec \<Rightarrow> string \<Rightarrow> CollectionModel \<Rightarrow> string \<Rightarrow> string \<Rightarrow> string \<Rightarrow>
    ('s, unit) prog" where
  "setCheckPointWithLatestMsgID K marshal lastMessage Q basePath coll mqType address vchannel =
     prog_bind (prog_lift (Collection_Channels (cm_proto coll))) (\<lambda>channels.
       case find (\<lambda>ch. VirtualName ch = vchannel) channels of
         None \<Rightarrow> prog_fail (Failure ''vchannel doesn't exists in collection'')
       | Some ch \<Rightarrow>
           prog_bind (prog_lift (getLatestFromPChannel lastMessage Q mqType address vchannel)) (\<lambda>cp.
             saveChannelCheckpoint K marshal basePath (VirtualName ch) cp))"

definition setCheckPointWithLatestCheckPoint :: "('s, 't) MetaKV \<Rightarrow> (string \<Rightarrow> SegmentInfo result) \<Rightarrow> (MsgPosition \<Rightarrow> string result) \<Rightarrow>
    string \<Rightarrow> CollectionModel \<Rightarrow> string \<Rightarrow> ('s, unit) prog" where
  "setCheckPointWithLatestCheckPoint K un marshal basePath coll vchannel =
     prog_bind (getLatestCheckpointFromPChannel K un basePath) (\<lambda>latest.
     prog_bind (prog_lift (Collection_Channels (cm_proto coll))) (\<lambda>channels.
       case find (\<lambda>ch. VirtualName ch = vchannel) channels of
         None \<Rightarrow> prog_fail (Failure ''vchannel doesn't exists in collection'')
       | Some ch \<Rightarrow>
           (case latest (PhysicalName ch) of
              None \<Rightarrow> prog_fail (Failure ''the pchannel doesn't exists'')
            | Some cp \<Rightarrow> saveChannelCheckpoint K marshal basePath (VirtualName ch) cp)))"

record RepairCheckpointParam =
  rc_Collection :: i64
  rc_VChannel :: string
  rc_SetTo :: string
  rc_MqType :: string
  rc_Address :: string
  rc_Run :: bool

definition RepairCheckpointCommand :: "('s, 't) MetaKV \<Rightarrow> collection_codec \<Rightarrow> (string \<Rightarrow> SegmentInfo result) \<Rightarrow>
    (MsgPosition \<Rightarrow> string result) \<Rightarrow> (string \<Rightarrow> string \<Rightarrow> string \<Rightarrow> queue_message result) \<Rightarrow> msg_codec \<Rightarrow> string \<Rightarrow>
    RepairCheckpointParam \<Rightarrow> ('s, unit) prog" where
  "RepairCheckpointCommand K M un marshal lastMessage Q basePath p =
     prog_bind (GetCollectionByIDVersion K M basePath (rc_Collection p)) (\<lambda>coll.
       if rc_SetTo p = ''latest-cp'' then setCheckPointWithLatestCheckPoint K un marshal basePath coll (rc_VChannel p)
       else if rc_SetTo p = ''latest-msgid''
       then setCheckPointWithLatestMsgID K marshal lastMessage Q basePath coll (rc_MqType p) (rc_Address p) (rc_VChannel p)
       else prog_return ())"

section \<open>Segments of dropped partitions\<close>

datatype PartitionState = PartitionCreated | PartitionCreating | PartitionDropping | PartitionDropped

record PartitionInfo =
  pt_PartitionID :: i64
  pt_State :: PartitionState

definition target_partitions :: "i64 \<Rightarrow> PartitionInfo ProtoWrapper list \<Rightarrow> i64 list" where
  "target_partitions partID ws =
     map (\<lambda>w. pt_PartitionID (wrapped_proto w))
       (filter (\<lambda>w. (partID = 0 \<or> pt_PartitionID (wrapped_proto w) = partID) \<and>
          pt_State (wrapped_proto w) \<in> {PartitionDropping, PartitionDropped}) ws)"

definition RepairSegmentPartDropCommand :: "('s, 't) MetaKV \<Rightarrow> (string \<Rightarrow> PartitionInfo result) \<Rightarrow> (string \<Rightarrow> SegmentInfo result) \<Rightarrow>
    (i64 list \<Rightarrow> i64 list) \<Rightarrow> string \<Rightarrow> i64 \<Rightarrow> i64 \<Rightarrow> bool \<Rightarrow> ('s, unit) prog" where
  "RepairSegmentPartDropCommand K unp un order basePath collection partID run =
     (if collection = 0 then prog_fail (Failure ''collection id not provided'')
      else prog_bind (ListCollectionPartitions K unp basePath collection) (\<lambda>partitions.
        let targets = target_partitions partID partitions
        in prog_bind (ListSegments K un basePath
               [\<lambda>m. si_State (sm_info m) \<noteq> Dropped \<and> si_PartitionID (sm_info m) \<in> set targets]) (\<lambda>segments.
             prog_for (order (remdups (map (\<lambda>m. si_PartitionID (sm_info m)) segments))) (\<lambda>pid.
               prog_for (filter (\<lambda>m. si_PartitionID (sm_info m) = pid) segments) (\<lambda>m.
                 if run then tolerate (RemoveSegment K basePath (sm_info m)) else prog_return ())))))"

section \<open>Helpers of the segment repair\<close>

definition row_count :: "FieldBinlog \<Rightarrow> i64" where
  "row_count field = fold (\<lambda>b n. n + bl_EntriesNum b) (fb_Binlogs field) 0"

definition integrityCheck :: "SegmentInfo \<Rightarrow> bool result" where
  "integrityCheck seg =
     res_bind (go_index (si_Binlogs seg) 0) (\<lambda>field0.
       Inr (list_all (\<lambda>field. row_count field = row_count field0) (tl (si_Binlogs seg))))"

definition writeRepairedSegment :: "('s, 't) MetaKV \<Rightarrow> (SegmentInfo \<Rightarrow> string result) \<Rightarrow> string \<Rightarrow> SegmentInfo \<Rightarrow> ('s, unit) prog" where
  "writeRepairedSegment K marshal basePath seg =
     prog_go (kv_Save K (path_Join [basePath, ''datacoord-meta/s/'' @ segment_ids seg]) (bytes_or_empty (marshal seg)))"

section \<open>Programs that only read\<close>

definition reads_only :: "('s, 'a) prog \<Rightarrow> bool" where
  "reads_only m \<longleftrightarrow> (\<forall>s r s'. m s = Some (r, s') \<longrightarrow> s' = s)"

named_theorems reads_only_intros \<open>programs that leave the store as it is\<close>

lemma reads_onlyD: "reads_only m \<Longrightarrow> m s = Some (r, s') \<Longrightarrow> s' = s"
  by (auto simp: reads_only_def)

lemma reads_only_bind [reads_only_intros]:
  "reads_only m \<Longrightarrow> (\<And>a. reads_only (f a)) \<Longrightarrow> reads_only (prog_bind m f)"
  by (fastforce simp: reads_only_def prog_bind_def split: option.splits prod.splits sum.splits)

lemma reads_only_basic [reads_only_intros]:
  "reads_only (prog_return a)" "reads_only (prog_fail e)" "reads_only (prog_lift r)" "reads_only (prog_read m')"
  "reads_only (\<lambda>s. Some (r', s))"
  by (auto simp: reads_only_def)

lemma reads_only_if [reads_only_intros]:
  "(b \<Longrightarrow> reads_only m) \<Longrightarrow> (\<not> b \<Longrightarrow> reads_only m') \<Longrightarrow> reads_only (if b then m else m')"
  by simp

lemma reads_only_prod [reads_only_intros]: "(\<And>a b. reads_only (f a b)) \<Longrightarrow> reads_only (case p of (a, b) \<Rightarrow> f a b)"
  by (cases p) simp

lemma reads_only_or_empty [reads_only_intros]: "reads_only m \<Longrightarrow> reads_only (or_empty m)"
  by (auto simp: reads_only_def or_empty_def split: option.splits prod.splits sum.splits go_error.splits)

lemma reads_only_loadOnce [reads_only_intros]: "reads_only m \<Longrightarrow> reads_only (loadOnce m seg)"
  by (auto simp: reads_only_def loadOnce_def split: option.splits prod.splits sum.splits go_error.splits if_splits)

lemma reads_only_lists [reads_only_intros]:
  "reads_only (ListProtoObjects K un pre filters)" "reads_only (ListObj2Models K un pre convert mfilters)"
  unfolding ListObj2Models_def ListProtoObjects_def by (intro reads_only_intros)+

lemma reads_only_ListIndex [reads_only_intros]: "reads_only (ListIndex K un base filters)"
  unfolding ListIndex_def by (intro reads_only_intros)

lemma reads_only_ListSegments [reads_only_intros]: "reads_only (ListSegments K un base filters)"
  unfolding ListSegments_def by (intro reads_only_intros)

lemma reads_only_fill [reads_only_intros]: "reads_only (fill_collections K M base cs)"
  by (induction cs) (simp_all add: fill_collection_def getCollectionFields_def getCollectionStructFields_def
      ListCollectionFunctions_def Let_def reads_only_intros)

lemma reads_only_collections [reads_only_intros]:
  "reads_only (ListCollections K M base filters)" "reads_only (GetCollectionByIDVersion K M base i)"
  by (auto simp: GetCollectionByIDVersion_def ListCollections_def ListCollectionWithoutFields_def reads_only_intros
      intro!: reads_only_intros split: list.splits)

lemma reads_only_GetBinlogs [reads_only_intros]: "reads_only (GetBinlogs (getSegmentLazyFunc K un base info) m)"
  unfolding GetBinlogs_def getSegmentLazyFunc_def lazy_list_def by (intro reads_only_intros)

lemma reads_only_mixed_scan [reads_only_intros]: "reads_only (mixed_scan K M unb order base ms)"
  by (induction ms) (auto intro!: reads_only_intros)

section \<open>Index repairs settle\<close>

text \<open>What a repair of one index promises: it keeps the ids of the index, and there is nothing left to repair in its result.\<close>

locale index_mend =
  fixes mend :: "FieldIndex \<Rightarrow> FieldIndex option result"
  assumes keeps_ids: "mend x = Inr (Some y) \<Longrightarrow>
      ii_CollectionID (GetIndexInfo y) = ii_CollectionID (GetIndexInfo x) \<and> ii_IndexID (GetIndexInfo y) = ii_IndexID (GetIndexInfo x)"
    and settles: "mend x = Inr (Some y) \<Longrightarrow> mend y = Inr None"

lemma index_type_filter: "(\<And>v. P (''index_type'', v)) \<Longrightarrow> index_type (filter P ps) = index_type ps"
proof (induction ps rule: rev_induct)
  case (snoc p ps)
  then show ?case by (cases p) (auto simp: index_type_def)
qed (simp add: index_type_def)

interpretation strip: index_mend strip_params
proof
  fix x y assume fixed: "strip_params x = Inr (Some y)"
  then obtain info where info: "fi_IndexInfo x = Some info" by (auto simp: strip_params_def split: option.splits)
  define t where "t = index_type (ii_IndexParams info)"
  define ps where "ps = filter (\<lambda>(k, v). known_param t k) (ii_IndexParams info)"
  have y: "y = copy_index x ps" "t = ''DISKANN'' \<or> t = ''HNSW''"
    using fixed by (auto simp: strip_params_def info Let_def t_def ps_def split: if_splits)
  show "ii_CollectionID (GetIndexInfo y) = ii_CollectionID (GetIndexInfo x) \<and> ii_IndexID (GetIndexInfo y) = ii_IndexID (GetIndexInfo x)"
    by (simp add: y copy_index_def GetIndexInfo_def)
  have "index_type ps = t" unfolding ps_def by (subst index_type_filter) (auto simp: t_def known_param_def shareParams_def)
  then show "strip_params y = Inr None"
    by (auto simp: y(1) copy_index_def strip_params_def ps_def filter_empty_conv Let_def)
qed

interpretation adding: index_mend "add_param key val" for key val
proof
  fix x y assume fixed: "add_param key val x = Inr (Some y)"
  define ps where "ps = ii_IndexParams (GetIndexInfo x)"
  have y: "y = x\<lparr>fi_IndexInfo := Some ((GetIndexInfo x)\<lparr>ii_IndexParams := ps @ [(key, val)]\<rparr>)\<rparr>"
    using fixed by (auto simp: add_param_def Let_def ps_def split: if_splits)
  show "ii_CollectionID (GetIndexInfo y) = ii_CollectionID (GetIndexInfo x) \<and> ii_IndexID (GetIndexInfo y) = ii_IndexID (GetIndexInfo x)"
    by (simp add: y GetIndexInfo_def)
  show "add_param key val y = Inr None" by (simp add: y add_param_def GetIndexInfo_def Let_def)
qed

lemma res_filter_map_Inr:
  "res_filter_map f xs = Inr ys \<longleftrightarrow> (\<forall>x \<in> set xs. \<not> isl (f x)) \<and> ys = List.map_filter (\<lambda>x. projr (f x)) xs"
proof (induction xs arbitrary: ys)
  case (Cons x xs)
  then show ?case by (cases "f x") (auto simp: res_bind_Inr_iff List.map_filter_def split: option.splits)
qed (auto simp: List.map_filter_def)

lemma prog_for_map: "prog_for (map f xs) body = prog_for xs (\<lambda>x. body (f x))"
  by (induction xs) simp_all

definition index_dir :: "string \<Rightarrow> string" where
  "index_dir base = base @ ''/field-index/''"

text \<open>A codec that reads repaired messages back, and an index that lies at its own key.\<close>

definition mend_codec_ok :: "index_codec \<Rightarrow> (FieldIndex \<Rightarrow> FieldIndex option result) \<Rightarrow> string set \<Rightarrow> bool" where
  "mend_codec_ok C mend vals \<longleftrightarrow> (\<forall>v \<in> vals. \<forall>x y. un_index C v = Inr x \<longrightarrow> mend x = Inr (Some y) \<longrightarrow>
     (\<exists>bs. marshal_index C y = Inr bs \<and> un_index C bs = Inr y))"

definition index_entry_ok :: "index_codec \<Rightarrow> string \<Rightarrow> string \<Rightarrow> string \<Rightarrow> bool" where
  "index_entry_ok C base k v \<longleftrightarrow> (\<exists>x. un_index C v = Inr x \<and>
     k = index_dir base @ ids_path [ii_CollectionID (GetIndexInfo x), ii_IndexID (GetIndexInfo x)])"

definition mended_value :: "index_codec \<Rightarrow> (FieldIndex \<Rightarrow> FieldIndex option result) \<Rightarrow> i64 \<Rightarrow> string \<Rightarrow> string" where
  "mended_value C mend collID v =
     (case un_index C v of
        Inl _ \<Rightarrow> v
      | Inr x \<Rightarrow>
          if collID = 0 \<or> ii_CollectionID (GetIndexInfo x) = collID then
            (case mend x of Inr (Some y) \<Rightarrow> bytes_or_empty (marshal_index C y) | _ \<Rightarrow> v)
          else v)"

lemma index_path_plain:
  assumes "plain_path base"
  shows "index_path base x = index_dir base @ ids_path [ii_CollectionID (GetIndexInfo x), ii_IndexID (GetIndexInfo x)]"
    and "joinPath [[], index_path base x] = index_path base x"
proof -
  let ?ids = "ids_path [ii_CollectionID (GetIndexInfo x), ii_IndexID (GetIndexInfo x)]"
  have pp: "plain_path (''field-index/'' @ ?ids)"
    using plain_path_slash [of "''field-index''" ?ids] plain_ids [of "[ii_CollectionID (GetIndexInfo x), ii_IndexID (GetIndexInfo x)]"]
    by (simp add: plain_path_def [of "''field-index''"] plain_part_def)
  show "index_path base x = index_dir base @ ?ids"
    using path_Join_plain [of "[base, ''field-index/'' @ ?ids]"] assms pp by (simp add: index_path_def index_dir_def)
  then show "joinPath [[], index_path base x] = index_path base x"
    using joinPath_plain(1) [of "base @ slash # ''field-index/'' @ ?ids"] assms pp by (simp add: index_dir_def)
qed

context meta_kv
begin

lemma ListIndex_entries:
  assumes "plain_path base" and "\<forall>k v. view s k = Some v \<longrightarrow> prefix (index_dir base) k \<longrightarrow> index_entry_ok C base k v"
    and "ListIndex K (un_index C) base filters s = Some (Inr ws, s')"
  shows "s' = s \<and> ws = filter (\<lambda>m. list_all (\<lambda>f. f m) filters)
    (map (\<lambda>(k, v). NewProtoWrapper (decoded (un_index C) v) k) (sorted_kvs (view s) (prefix (index_dir base))))"
proof -
  let ?pre = "path_Join [base, ''field-index''] @ ''/''"
  let ?es = "sorted_kvs (view s) (prefix (index_dir base))"
  have pp: "plain_path ''field-index''" by (simp add: plain_path_def plain_part_def)
  have p: "joinPath [[], ?pre] = index_dir base"
    using joinPath_plain(2) [of "base @ ''/field-index''"] path_Join_plain [of "[base, ''field-index'']"] assms(1) pp
    by (simp add: index_dir_def)
  from assms(3) obtain r where r: "kv_LoadWithPrefix K ?pre s = Some (Inr r)"
    by (auto simp: ListIndex_def ListObj2Models_def ListProtoObjects_def prog_bind_Inr_iff)
  then have load: "kv_LoadWithPrefix K ?pre s = Some (Inr (map fst ?es, map snd ?es))"
    using load_entries [OF r ends_plain_dir] p by simp
  have "\<forall>(k, v) \<in> set ?es. decodes (un_index C) v"
    using assms(2) set_sorted_kvs [OF view_finite, of s "prefix (index_dir base)"]
    by (fastforce simp: decodes_def index_entry_ok_def)
  from zip_decoded_all [OF this] show ?thesis
    using assms(3) unfolding ListIndex_def ListObj2Models_result [OF load] by (auto simp: case_prod_unfold comp_def)
qed

end

text \<open>The new message of an entry, when the repair concerns it.\<close>

definition mend_entry :: "index_codec \<Rightarrow> (FieldIndex \<Rightarrow> FieldIndex option result) \<Rightarrow> i64 \<Rightarrow> string \<Rightarrow> FieldIndex option" where
  "mend_entry C mend collID v =
     (let x = decoded (un_index C) v
      in if collID = 0 \<or> ii_CollectionID (GetIndexInfo x) = collID
         then case mend x of Inl _ \<Rightarrow> None | Inr y \<Rightarrow> y else None)"

lemma mended_value_eq:
  "decodes (un_index C) v \<Longrightarrow> mended_value C mend collID v =
    (case mend_entry C mend collID v of None \<Rightarrow> v | Some y \<Rightarrow> bytes_or_empty (marshal_index C y))"
  by (cases "un_index C v") (auto simp: mended_value_def mend_entry_def decodes_def decoded_def split: sum.splits option.splits)

lemma new_indexes:
  assumes "res_filter_map (\<lambda>w. mend (wrapped_proto w)) (filter (of_collection collID)
      (map (\<lambda>(k, v). NewProtoWrapper (decoded (un_index C) v) k) es)) = Inr ys"
  shows "ys = map (\<lambda>(k, v). the (mend_entry C mend collID v)) (filter (\<lambda>(k, v). mend_entry C mend collID v \<noteq> None) es)"
  using assms
proof (induction es arbitrary: ys)
  case (Cons e es)
  obtain k v where e: "e = (k, v)" by force
  show ?case
  proof (cases "of_collection collID (NewProtoWrapper (decoded (un_index C) v) k)")
    case True
    then obtain y ys' where "mend (decoded (un_index C) v) = Inr y" "ys = (case y of None \<Rightarrow> ys' | Some b \<Rightarrow> b # ys')"
      "res_filter_map (\<lambda>w. mend (wrapped_proto w)) (filter (of_collection collID)
        (map (\<lambda>(k, v). NewProtoWrapper (decoded (un_index C) v) k) es)) = Inr ys'"
      using Cons.prems by (auto simp: e NewProtoWrapper_def res_bind_Inr_iff)
    moreover from this True have "mend_entry C mend collID v = y"
      by (auto simp: mend_entry_def of_collection_def NewProtoWrapper_def Let_def)
    ultimately show ?thesis using Cons.IH [of ys'] by (cases y) (simp_all add: e)
  next
    case False
    then have "mend_entry C mend collID v = None" by (auto simp: mend_entry_def of_collection_def NewProtoWrapper_def Let_def)
    then show ?thesis using Cons False by (simp add: e)
  qed
qed simp

lemma map_of_updates:
  assumes "distinct (map fst es)"
  shows "map_of (map (\<lambda>(k, v). (k, h v)) (filter (\<lambda>(k, v). P v) es)) k =
    (case map_of es k of None \<Rightarrow> None | Some v \<Rightarrow> if P v then Some (h v) else None)"
  using assms
proof (induction es)
  case (Cons e es)
  have "k \<notin> fst ` set es \<Longrightarrow> map_of es k = None" by (simp add: map_of_eq_None_iff)
  then show ?case using Cons by (cases e) (auto split: option.splits)
qed simp

lemma mend_all:
  assumes K: "meta_kv K view" and mend: "index_mend mend" and base: "plain_path base"
    and ok: "\<forall>k v. view s k = Some v \<longrightarrow> prefix (index_dir base) k \<longrightarrow> index_entry_ok C base k v"
    and run: "repair_indexes K C mend base collID after True s = Some (Inr (), s')"
  shows "view s' k = (if prefix (index_dir base) k then map_option (mended_value C mend collID) (view s k) else view s k)"
proof -
  define es where "es = sorted_kvs (view s) (prefix (index_dir base))"
  define L where "L = filter (\<lambda>(k, v). mend_entry C mend collID v \<noteq> None) es"
  define enc where "enc y = bytes_or_empty (marshal_index C y)" for y
  define ys where "ys = map (\<lambda>(k, v). the (mend_entry C mend collID v)) L"
  have es: "set es = {(k, v). view s k = Some v \<and> prefix (index_dir base) k}" "distinct (map fst es)"
    using set_sorted_kvs [OF meta_kv.view_finite [OF K]] sorted_keys_props(3) [OF meta_kv.view_finite [OF K], of s]
    by (auto simp: es_def sorted_kvs_fst)
  obtain ws ys' s1 s2 ws2 where l: "ListIndex K (un_index C) base [of_collection collID] s = Some (Inr ws, s1)"
    and 2: "res_filter_map (\<lambda>w. mend (wrapped_proto w)) ws = Inr ys'"
    and w: "prog_for ys' (writeRepairedIndex K C base) s1 = Some (Inr (), s2)"
    and l2: "ListIndex K (un_index C) base [of_collection after] s2 = Some (Inr ws2, s')"
    using run by (auto simp: repair_indexes_def prog_bind_Inr_iff)
  have s: "s1 = s" "s' = s2" using reads_onlyD [OF reads_only_ListIndex l] reads_onlyD [OF reads_only_ListIndex l2] by simp_all
  note 1 = l [unfolded s(1)] and 3 = w [unfolded s(1)] and 4 = s(2)
  have "ws = filter (of_collection collID) (map (\<lambda>(k, v). NewProtoWrapper (decoded (un_index C) v) k) es)"
    using meta_kv.ListIndex_entries [OF K base ok 1] by (simp add: es_def)
  then have ys': "ys' = ys" using new_indexes [of mend collID C es ys'] 2 by (simp add: ys_def L_def)
  have path: "index_path base (the (mend_entry C mend collID v)) = k" if "(k, v) \<in> set L" for k v
  proof -
    from that es ok have "index_entry_ok C base k v" by (auto simp: L_def)
    then show ?thesis using that index_mend.keeps_ids [OF mend]
      by (auto simp: L_def index_entry_ok_def mend_entry_def decoded_def index_path_plain [OF base] Let_def split: if_splits sum.splits)
  qed
  have pairs: "map (\<lambda>(k, v). (k, enc (the (mend_entry C mend collID v)))) L = map (\<lambda>y. (index_path base y, enc y)) ys"
    using path by (auto simp: ys_def)
  let ?ps = "map (\<lambda>y. (y, index_path base y)) ys"
  have "prog_for ?ps (\<lambda>(y, k). prog_go (kv_Save K k (enc y))) s = Some (Inr (), s')"
    using 3 by (simp add: prog_for_map ys' 4 writeRepairedIndex_def [abs_def] enc_def)
  moreover have "map snd ?ps = map fst L" using path by (auto simp: ys_def)
  then have "distinct (map snd ?ps)" using es(2) distinct_map_filter by (fastforce simp: L_def)
  ultimately have v: "view s' = view s ++ map_of (map (\<lambda>(y, k). (k, enc y)) ?ps)"
    using meta_kv.save_all [OF K, of "\<lambda>(y, k). prog_go (kv_Save K k (enc y))" enc ?ps s s'] index_path_plain(2) [OF base]
    by auto
  have "map_of (map (\<lambda>(y, k). (k, enc y)) ?ps) k =
      (case map_of es k of None \<Rightarrow> None | Some v \<Rightarrow> if mend_entry C mend collID v \<noteq> None then Some (enc (the (mend_entry C mend collID v))) else None)"
    using map_of_updates [OF es(2), of "\<lambda>v. enc (the (mend_entry C mend collID v))" "\<lambda>v. mend_entry C mend collID v \<noteq> None" k]
    unfolding L_def [symmetric] pairs by (simp add: comp_def)
  moreover have "map_of es k = (if prefix (index_dir base) k then view s k else None)"
    using es by (cases "map_of es k") (auto simp: map_of_eq_None_iff image_iff dest: map_of_SomeD)
  moreover have "mended_value C mend collID w =
      (case mend_entry C mend collID w of None \<Rightarrow> w | Some y \<Rightarrow> enc y)" if "view s k = Some w" "prefix (index_dir base) k" for w
  proof -
    from that ok have "decodes (un_index C) w" by (fastforce simp: decodes_def index_entry_ok_def)
    then show ?thesis by (simp add: mended_value_eq enc_def split: option.split)
  qed
  ultimately show ?thesis by (auto simp: v map_add_def split: option.splits)
qed

lemma mended_settled:
  assumes mend: "index_mend mend" and codec: "mend_codec_ok C mend {v}" and v: "index_entry_ok C base k v"
  shows "index_entry_ok C base k (mended_value C mend collID v)"
    and "mend_entry C mend collID (mended_value C mend collID v) = None"
proof -
  from v have d: "decodes (un_index C) v" by (auto simp: decodes_def index_entry_ok_def)
  have "index_entry_ok C base k (mended_value C mend collID v) \<and> mend_entry C mend collID (mended_value C mend collID v) = None"
  proof (cases "mend_entry C mend collID v")
    case None
    then show ?thesis using v by (simp add: mended_value_eq [OF d])
  next
    case (Some y)
    let ?x = "decoded (un_index C) v"
    have y: "mend ?x = Inr (Some y)" using Some by (auto simp: mend_entry_def Let_def split: if_splits sum.splits)
    obtain bs where bs: "marshal_index C y = Inr bs" "un_index C bs = Inr y" using codec y d
      by (cases "un_index C v") (auto simp: mend_codec_ok_def decodes_def decoded_def)
    have m: "mended_value C mend collID v = bs" by (simp add: mended_value_eq [OF d] Some bytes_or_empty_def bs(1))
    show ?thesis unfolding m
      using v index_mend.keeps_ids [OF mend y] index_mend.settles [OF mend y]
      by (auto simp: index_entry_ok_def mend_entry_def decoded_def bs(2) Let_def)
  qed
  then show "index_entry_ok C base k (mended_value C mend collID v)"
    "mend_entry C mend collID (mended_value C mend collID v) = None" by auto
qed

lemma mend_again:
  assumes K: "meta_kv K view" and mend: "index_mend mend" and base: "plain_path base" and codec: "mend_codec_ok C mend (ran (view s))"
    and ok: "\<forall>k v. view s k = Some v \<longrightarrow> prefix (index_dir base) k \<longrightarrow> index_entry_ok C base k v"
    and run: "repair_indexes K C mend base collID after True s = Some (Inr (), s')"
    and again: "repair_indexes K C mend base collID after run2 s' = Some (r, s'')"
  shows "s'' = s'"
proof -
  note v = mend_all [OF K mend base ok run]
  have ok': "index_entry_ok C base k w" "mend_entry C mend collID w = None" if "view s' k = Some w" "prefix (index_dir base) k" for k w
  proof -
    from that obtain z where "view s k = Some z" "w = mended_value C mend collID z" by (auto simp: v)
    moreover from this codec have "mend_codec_ok C mend {z}" by (auto simp: mend_codec_ok_def ran_def)
    ultimately show "index_entry_ok C base k w" "mend_entry C mend collID w = None"
      using ok that(2) mended_settled [OF mend, of C z base k] by auto
  qed
  show ?thesis
  proof (cases "ListIndex K (un_index C) base [of_collection collID] s'")
    case None
    then show ?thesis using again by (simp add: repair_indexes_def prog_bind_def)
  next
    case (Some rs)
    obtain r1 s1 where rs: "rs = (r1, s1)" by force
    have s1: "s1 = s'" by (rule reads_onlyD [OF reads_only_ListIndex Some [unfolded rs]])
    show ?thesis
    proof (cases r1)
      case (Inl e)
      then show ?thesis using again Some by (simp add: repair_indexes_def prog_bind_def rs s1)
    next
      case (Inr ws)
      let ?es = "sorted_kvs (view s') (prefix (index_dir base))"
      have ws: "ws = filter (of_collection collID) (map (\<lambda>(k, v). NewProtoWrapper (decoded (un_index C) v) k) ?es)"
        using meta_kv.ListIndex_entries [OF K base _ Some [unfolded rs s1 Inr]] ok'(1) by simp
      have none: "filter (\<lambda>(k, v). mend_entry C mend collID v \<noteq> None) ?es = []"
        using ok'(2) set_sorted_kvs [OF meta_kv.view_finite [OF K], of s' "prefix (index_dir base)"] by (auto simp: filter_empty_conv)
      show ?thesis
      proof (cases "res_filter_map (\<lambda>w. mend (wrapped_proto w)) ws")
        case (Inr ys)
        then have "ys = []" using new_indexes [of mend collID C ?es ys] none by (simp add: ws)
        moreover have "reads_only (prog_bind (ListIndex K (un_index C) base [of_collection after]) (\<lambda>_. prog_return ()))"
          by (intro reads_only_intros)
        ultimately show ?thesis using again Some Inr \<open>r1 = Inr ws\<close>
          by (auto simp: repair_indexes_def prog_bind_def [of "ListIndex K (un_index C) base [of_collection collID]"] rs s1
              prog_bind_def [of "prog_lift _"] prog_bind_def [of "prog_return _"] split: if_splits dest: reads_onlyD)
      next
        case (Inl e)
        then show ?thesis using again Some \<open>r1 = Inr ws\<close> by (simp add: repair_indexes_def prog_bind_def rs s1)
      qed
    qed
  qed
qed

text \<open>
  Property C29.
  \<^verbatim>\<open>repair add_index_params\<close> does what it says and settles. A dry run leaves the store as it is. After a run that returned,
  over a store in which every index lies at its own key, exactly the values of indexes of the collection that are
  of a supported type and lack the parameter have changed, to the encoded index with the parameter added; and
  running the command once more, dry or not, writes nothing.
\<close>

theorem AddIndexParams_settles:
  assumes "meta_kv K view" and "plain_path base"
    and "\<forall>k v. view s k = Some v \<longrightarrow> prefix (index_dir base) k \<longrightarrow> index_entry_ok C base k v"
    and "mend_codec_ok C (add_param key val) (ran (view s))"
    and "AddIndexParamsCommand K C base collID key val run s = Some (Inr (), s')"
  shows "if \<not> run then s' = s else
    (\<forall>k. view s' k = (if prefix (index_dir base) k then map_option (mended_value C (add_param key val) collID) (view s k) else view s k)) \<and>
    (\<forall>run2 r s''. AddIndexParamsCommand K C base collID key val run2 s' = Some (r, s'') \<longrightarrow> s'' = s')"
proof (cases run)
  case True
  have cmd: "repair_indexes K C (add_param key val) base collID collID True s = Some (Inr (), s')"
    using assms(5) True by (simp add: AddIndexParamsCommand_def)
  show ?thesis
    using mend_all [OF assms(1) adding.index_mend_axioms assms(2,3) cmd]
      mend_again [OF assms(1) adding.index_mend_axioms assms(2,4,3) cmd] True
    by (simp add: AddIndexParamsCommand_def)
next
  case False
  have "reads_only (AddIndexParamsCommand K C base collID key val run)"
    unfolding AddIndexParamsCommand_def repair_indexes_def by (simp add: False reads_only_intros)
  from reads_onlyD [OF this assms(5)] False show ?thesis by simp
qed

lemma prog_for_ok: "(\<And>x s. \<exists>s'. body x s = Some (Inr (), s')) \<Longrightarrow> \<exists>s'. prog_for xs body s = Some (Inr (), s')"
proof (induction xs arbitrary: s)
  case (Cons x xs)
  obtain s1 where "body x s = Some (Inr (), s1)" using Cons.prems by blast
  then show ?case using Cons.IH [OF Cons.prems, of s1] by (simp add: prog_bind_def)
qed simp

lemma ref_ListIndex: "\<exists>ws. ListIndex (ref_kv :: (_, unit) MetaKV) un base filters s = Some (Inr ws, s)"
  by (simp add: ListIndex_def ListObj2Models_def ListProtoObjects_def prog_bind_def prog_read_def)

lemma ref_AddIndexParams:
  "\<exists>s'. AddIndexParamsCommand (ref_kv :: (_, unit) MetaKV) C base collID key val run s = Some (Inr (), s')"
proof -
  let ?K = "ref_kv :: (_, unit) MetaKV"
  obtain ws where ws: "ListIndex ?K (un_index C) base [of_collection collID] s = Some (Inr ws, s)" using ref_ListIndex by blast
  have "\<not> isl (add_param key val x)" for x by (simp add: add_param_def Let_def)
  then obtain ys where ys: "res_filter_map (\<lambda>w. add_param key val (wrapped_proto w)) ws = Inr ys"
    using res_filter_map_Inr [of "\<lambda>w. add_param key val (wrapped_proto w)" ws] by blast
  obtain s1 where s1: "prog_for ys (writeRepairedIndex ?K C base) s = Some (Inr (), s1)"
    using prog_for_ok [of "writeRepairedIndex ?K C base"] by (auto simp: writeRepairedIndex_def)
  obtain ws' where "ListIndex ?K (un_index C) base [of_collection collID] s1 = Some (Inr ws', s1)" using ref_ListIndex by blast
  with ws ys s1 show ?thesis by (simp add: AddIndexParamsCommand_def repair_indexes_def prog_bind_def)
qed

text \<open>An index of type HNSW with one parameter, before and after the repair.\<close>

definition ref_index :: "(string \<times> string) list \<Rightarrow> FieldIndex" where
  "ref_index params = \<lparr>fi_IndexInfo = Some (no_IndexInfo\<lparr>ii_CollectionID := 1, ii_IndexID := 2, ii_IndexParams := params\<rparr>),
     fi_Deleted = False, fi_CreateTime = 0, fi_rest = []\<rparr>"

definition ref_index_codec :: index_codec where
  "ref_index_codec = \<lparr>un_index = \<lambda>v. if v = ''old'' then Inr (ref_index [(''index_type'', ''HNSW'')])
       else if v = ''new'' then Inr (ref_index [(''index_type'', ''HNSW''), (''k'', ''1'')]) else Inl EOF,
     marshal_index = \<lambda>x. if x = ref_index [(''index_type'', ''HNSW''), (''k'', ''1'')] then Inr ''new'' else Inl EOF\<rparr>"

lemma ref_index_mended:
  "add_param ''k'' ''1'' (ref_index [(''index_type'', ''HNSW'')]) = Inr (Some (ref_index [(''index_type'', ''HNSW''), (''k'', ''1'')]))"
  "add_param ''k'' ''1'' (ref_index [(''index_type'', ''HNSW''), (''k'', ''1'')]) = Inr None"
  by (simp_all add: add_param_def ref_index_def GetIndexInfo_def index_type_def)

theorem AddIndexParams_settles_witness:
  "\<exists>s'. AddIndexParamsCommand (ref_kv :: (_, unit) MetaKV) ref_index_codec ''a'' 0 ''k'' ''1'' True [(''a/field-index/1/2'', ''old'')] =
      Some (Inr (), s') \<and> map_of s' ''a/field-index/1/2'' = Some ''new''"
proof -
  let ?K = "ref_kv :: (_, unit) MetaKV" and ?C = ref_index_codec and ?s = "[(''a/field-index/1/2'', ''old'')]"
  have base: "plain_path ''a''" by (simp add: plain_path_def plain_part_def)
  have ids: "ids_path [1, 2] = ''1/2''" by (simp add: ids_path_def format_int_def)
  have ok: "\<forall>k v. map_of ?s k = Some v \<longrightarrow> prefix (index_dir ''a'') k \<longrightarrow> index_entry_ok ?C ''a'' k v"
    by (simp add: index_entry_ok_def ref_index_codec_def ref_index_def GetIndexInfo_def index_dir_def ids)
  have codec: "mend_codec_ok ?C (add_param ''k'' ''1'') (ran (map_of ?s))"
    by (simp add: mend_codec_ok_def ref_index_codec_def ref_index_mended)
  obtain s' where run: "AddIndexParamsCommand ?K ?C ''a'' 0 ''k'' ''1'' True ?s = Some (Inr (), s')" using ref_AddIndexParams by blast
  have "map_of s' ''a/field-index/1/2'' = map_option (mended_value ?C (add_param ''k'' ''1'') 0) (Some ''old'')"
    using AddIndexParams_settles [OF ref_kv_meta base ok codec run] by (simp add: index_dir_def)
  then show ?thesis using run by (auto simp: mended_value_def ref_index_codec_def ref_index_mended bytes_or_empty_def)
qed

text \<open>A repaired metric type is found the next time: nothing is left to do for the index.\<close>

lemma repair_metric_settles:
  assumes "repair_metric index info = MetricFixed y" and "fi_IndexInfo y = Some info'"
  shows "repair_metric y info' = MetricOk"
proof -
  obtain params e where f: "fold metric_step (ii_IndexParams info) ([], False) = (params, e)" by force
  from assms(1) obtain v where v: "v \<noteq> []" and y: "y = copy_index index (params @ [(''metric_type'', v)])"
    by (auto simp: repair_metric_def f find_Some_iff split: if_splits option.splits)
  from assms(2) have "ii_IndexParams info' = params @ [(''metric_type'', v)]" by (auto simp: y copy_index_def)
  moreover obtain params' e' where "fold metric_step params ([], False) = (params', e')" by force
  ultimately show ?thesis using v by (simp add: repair_metric_def)
qed

lemma reads_only_tolerate [reads_only_intros]: "reads_only m \<Longrightarrow> reads_only (tolerate m)"
  by (auto simp: reads_only_def tolerate_def split: option.splits prod.splits sum.splits go_error.splits)

lemma DiskAnn_dry_run: "DiskAnnIndexParamsCommand K C base collID False s = Some (r, s') \<Longrightarrow> s' = s"
proof -
  have "reads_only (DiskAnnIndexParamsCommand K C base collID False)"
    unfolding DiskAnnIndexParamsCommand_def repair_indexes_def by (simp add: reads_only_intros)
  then show "DiskAnnIndexParamsCommand K C base collID False s = Some (r, s') \<Longrightarrow> s' = s" by (rule reads_onlyD)
qed

section \<open>Which binlogs go\<close>

text \<open>The fields a binlog holds.\<close>

definition log_fields :: "FieldBinlog \<Rightarrow> i64 set" where
  "log_fields b = (if fb_ChildFields b = [] then {fb_FieldID b} else set (fb_ChildFields b))"

lemma log_fields_union:
  "(\<Union>b \<in> set (v1_logs logs). log_fields b) = set (v1_fields logs)"
  "(\<Union>b \<in> set (v2_logs logs). log_fields b) = set (v2_fields logs)"
  by (auto simp: v1_logs_def v2_logs_def v1_fields_def v2_fields_def log_fields_def)

lemma mixed_targets_cover:
  assumes "mixed_targets order (card F) logs = Inr targets" and "\<And>xs. set (order xs) = set xs" and "finite F"
    and "\<forall>b \<in> set logs. log_fields b \<subseteq> F" and "distinct (map fb_FieldID logs)"
  shows "(\<Union>b \<in> {b \<in> set logs. fb_FieldID b \<notin> set targets}. log_fields b) = F"
proof -
  have other: "fb_FieldID b \<noteq> fb_FieldID c" if "b \<in> set (v1_logs logs)" "c \<in> set (v2_logs logs)" for b c
    using that assms(5) by (auto simp: v1_logs_def v2_logs_def distinct_map inj_on_def)
  have sub: "set (v1_fields logs) \<subseteq> F" "set (v2_fields logs) \<subseteq> F"
    using assms(4) by (auto simp: log_fields_union [symmetric] v1_logs_def v2_logs_def)
  have all: "set zs = F" if "card F = length zs" "distinct zs" "set zs \<subseteq> F" for zs
    using that assms(3) by (metis card_subset_eq distinct_card)
  have both: "set logs = set (v1_logs logs) \<union> set (v2_logs logs)" by (auto simp: v1_logs_def v2_logs_def)
  obtain keep where keep: "set keep \<subseteq> set logs" "(\<Union>b \<in> set keep. log_fields b) = F" "\<forall>b \<in> set keep. fb_FieldID b \<notin> set targets"
  proof (cases "card F = length (v2_fields logs)")
    case True
    then have "set targets = fb_FieldID ` set (v1_logs logs)" using assms(1,2) by (auto simp: mixed_targets_def)
    then have "\<forall>b \<in> set (v2_logs logs). fb_FieldID b \<notin> set targets" using other by force
    moreover have "set (v2_fields logs) = F" using all [OF True] sub(2) by (simp add: v2_fields_def)
    ultimately show thesis using that [of "v2_logs logs"] both log_fields_union(2) [of logs] by simp
  next
    case False
    then have n: "card F = length (v1_fields logs)" and "set targets = fb_FieldID ` set (v2_logs logs)"
      using assms(1,2) by (auto simp: mixed_targets_def split: if_splits)
    then have "\<forall>b \<in> set (v1_logs logs). fb_FieldID b \<notin> set targets" using other by force
    moreover have "set (v1_fields logs) = F" using all [OF n] sub(1) by (simp add: v1_fields_def)
    ultimately show thesis using that [of "v1_logs logs"] both log_fields_union(1) [of logs] by simp
  qed
  then show ?thesis using assms(4) by blast
qed

section \<open>Moving binlogs away\<close>

lemma prog_for_append: "prog_for (xs @ ys) body s = prog_bind (prog_for xs body) (\<lambda>_. prog_for ys body) s"
proof (induction xs arbitrary: s)
  case (Cons x xs)
  then show ?case by (auto simp: prog_bind_def split: option.splits prod.splits sum.splits)
qed (simp add: prog_bind_def)

lemma prog_for_concat: "prog_for (concat xss) body s = prog_for xss (\<lambda>xs. prog_for xs body) s"
proof (induction xss arbitrary: s)
  case (Cons xs xss)
  then show ?case by (simp add: prog_for_append prog_bind_def split: option.splits prod.splits sum.splits)
qed simp

lemma mixed_key_plain: "plain_path base \<Longrightarrow> plain_path (mixed_key base seg f)"
  using plain_path_slash [of base "''datacoord-meta/binlog/'' @ ids_path [si_CollectionID seg, si_PartitionID seg, si_ID seg, f]"]
    plain_path_slash [of "''datacoord-meta/binlog''" "ids_path [si_CollectionID seg, si_PartitionID seg, si_ID seg, f]"]
  by (simp add: mixed_key_def plain_ids)

lemma prefix_beyond: "prefix p (a @ b) \<Longrightarrow> \<not> prefix p a \<Longrightarrow> \<exists>q c. p = a @ q @ [c]"
  by (metis append_Nil2 prefix_append prefix_order.refl rev_exhaust)

lemma no_repair_prefix:
  assumes "\<not> prefix ''repair/'' (base @ ''/'')"
  shows "\<not> prefix ''repair/'' (mixed_key base seg f)"
proof
  assume "prefix ''repair/'' (mixed_key base seg f)"
  then have "prefix ''repair/'' ((base @ ''/'') @ (''datacoord-meta/binlog/'' @ ids_path [si_CollectionID seg, si_PartitionID seg, si_ID seg, f]))"
    by (simp add: mixed_key_def)
  from prefix_beyond [OF this assms] obtain q c where "''repair/'' = (base @ slash # q) @ [c]" by auto
  then have "butlast ''repair/'' = base @ slash # q" by (simp only: butlast_snoc)
  then have "slash \<in> set (butlast ''repair/'')" by (simp only: set_append set_simps) simp
  then show False by simp
qed

context meta_kv
begin

lemma move_key_view:
  assumes "plain_path key" and "move_key K key s = Some (Inr (), s')"
  shows "\<exists>v. view s key = Some v \<and> view s' = (view s)(''repair/'' @ key \<mapsto> v, key := None)"
proof -
  have pp: "plain_path (''repair/'' @ key)"
    using plain_path_slash [of "''repair''" key] assms(1) by (simp add: plain_path_def [of "''repair''"] plain_part_def)
  from assms(2) obtain v s1 s2 where "kv_Load K key s = (Inr v, s1)" "kv_Save K (''repair/'' @ key) v s1 = (Inr (), s2)"
    "kv_Remove K key s2 = (Inr (), s')"
    by (auto simp: move_key_def prog_bind_Inr_iff)
  from Load [OF this(1)] Save [OF this(2), unfolded joinPath_plain(1) [OF pp]] Remove [OF this(3)] show ?thesis
    by (simp add: joinPath_plain(1) [OF assms(1)])
qed

lemma move_keys_view:
  assumes "prog_for ks (move_key K) s = Some (Inr (), s')" and "\<forall>k \<in> set ks. plain_path k \<and> \<not> prefix ''repair/'' k"
    and "\<not> prefix ''repair/'' k"
  shows "if k \<in> set ks then view s k \<noteq> None \<and> view s' k = None \<and> view s' (''repair/'' @ k) = view s k
    else view s' k = view s k \<and> view s' (''repair/'' @ k) = view s (''repair/'' @ k)"
  using assms
proof (induction ks arbitrary: s)
  case (Cons k0 ks)
  obtain s1 where s1: "move_key K k0 s = Some (Inr (), s1)" "prog_for ks (move_key K) s1 = Some (Inr (), s')"
    using Cons.prems(1) by (auto simp: prog_bind_Inr_iff)
  obtain v where v: "view s k0 = Some v" "view s1 = (view s)(''repair/'' @ k0 \<mapsto> v, k0 := None)"
    using move_key_view [OF _ s1(1)] Cons.prems(2) by auto
  have k0: "\<not> prefix ''repair/'' k0" using Cons.prems(2) by simp
  then have "k \<noteq> ''repair/'' @ k0" "k0 \<noteq> ''repair/'' @ k" "''repair/'' @ k0 \<noteq> k0" using Cons.prems(3) by auto
  then show ?case using Cons.IH [OF s1(2) _ Cons.prems(3)] Cons.prems(2) v k0 by (auto split: if_splits)
qed simp

end

text \<open>What the scan finds for a segment, read from the unchanged store.\<close>

definition mixed_segment :: "('s, 't) MetaKV \<Rightarrow> collection_codec \<Rightarrow> (string \<Rightarrow> FieldBinlog result) \<Rightarrow> (i64 list \<Rightarrow> i64 list) \<Rightarrow> string \<Rightarrow> 's \<Rightarrow>
    SegmentInfo \<Rightarrow> i64 list \<Rightarrow> bool" where
  "mixed_segment K M unb order base s seg targets \<longleftrightarrow>
     (\<exists>m m' logs coll flds. seg = sm_info m \<and> GetBinlogs (getSegmentLazyFunc K unb base seg) m s = Some (Inr (m', logs), s) \<and>
       GetCollectionByIDVersion K M base (si_CollectionID seg) s = Some (Inr coll, s) \<and> schema_fields coll = Inr flds \<and>
       is_mixed logs \<and> mixed_targets order (length flds) logs = Inr targets \<and>
       (distinct (map fs_FieldID flds) \<and> distinct (map fb_FieldID logs) \<and> (\<forall>b \<in> set logs. log_fields b \<subseteq> fs_FieldID ` set flds) \<longrightarrow>
        (\<Union>b \<in> {b \<in> set logs. fb_FieldID b \<notin> set targets}. log_fields b) = fs_FieldID ` set flds))"

lemma mixed_scan_segments:
  assumes "mixed_scan K M unb order base ms s = Some (Inr results, s')" and "\<And>xs. set (order xs) = set xs"
  shows "\<forall>(seg, targets) \<in> set results. mixed_segment K M unb order base s seg targets"
  using assms(1)
proof (induction ms arbitrary: results)
  case (Cons m ms)
  let ?seg = "sm_info m"
  from Cons.prems obtain m' logs s1 where g: "GetBinlogs (getSegmentLazyFunc K unb base ?seg) m s = Some (Inr (m', logs), s1)"
    by (auto simp: prog_bind_Inr_iff)
  have s1: "s1 = s" by (rule reads_onlyD [OF reads_only_GetBinlogs g])
  show ?case
  proof (cases "is_mixed logs")
    case True
    from Cons.prems g True obtain coll s2 where c: "GetCollectionByIDVersion K M base (si_CollectionID ?seg) s = Some (Inr coll, s2)"
      by (auto simp: s1 prog_bind_Inr_iff)
    have s2: "s2 = s" by (rule reads_onlyD [OF reads_only_collections(2) c])
    from Cons.prems g c True obtain flds targets rest where
      r: "schema_fields coll = Inr flds" "mixed_targets order (length flds) logs = Inr targets"
      "mixed_scan K M unb order base ms s = Some (Inr rest, s')" "results = (?seg, targets) # rest"
      by (auto simp: s1 s2 prog_bind_Inr_iff)
    have "(\<Union>b \<in> {b \<in> set logs. fb_FieldID b \<notin> set targets}. log_fields b) = fs_FieldID ` set flds"
      if "distinct (map fs_FieldID flds)" "distinct (map fb_FieldID logs)" "\<forall>b \<in> set logs. log_fields b \<subseteq> fs_FieldID ` set flds"
      using mixed_targets_cover [of order "fs_FieldID ` set flds" logs targets] that assms(2) r(2) distinct_card [OF that(1)] by simp
    then have "mixed_segment K M unb order base s ?seg targets"
      using g c r True by (auto simp: mixed_segment_def s1 s2)
    with Cons.IH [OF r(3)] show ?thesis by (simp add: r(4))
  next
    case False
    then show ?thesis using Cons g by (simp add: s1 prog_bind_Inr_iff)
  qed
qed simp


text \<open>A collection with field 100, and a segment of it that holds the field in a binlog of its own and in a column group.\<close>

definition ref_mixed :: "(string \<times> string) list" where
  "ref_mixed = [(''a/datacoord-meta/binlog/1/1/1/0'', ''group''), (''a/datacoord-meta/binlog/1/1/1/100'', ''field''),
     (''a/datacoord-meta/s/1/1/1'', ''seg''), (''a/root-coord/collection/1'', ''coll''), (''a/root-coord/fields/1/100'', ''f100'')]"

definition ref_coll :: "string list \<Rightarrow> Collection" where
  "ref_coll names = \<lparr>coll_ID = 1, coll_State = CollectionCreated, coll_DbId = 0,
     coll_Schema = Some \<lparr>sch_Name = ''c'', sch_Fields = [], sch_StructArrayFields = []\<rparr>, coll_VirtualChannelNames = names,
     coll_PhysicalChannelNames = map ToPhysicalChannel names, coll_StartPositions = map (\<lambda>n. (n, [])) names, coll_ConsistencyLevel = 0\<rparr>"

definition ref_coll_codec :: "string list \<Rightarrow> collection_codec" where
  "ref_coll_codec names = \<lparr>un_collection = \<lambda>v. if v = ''coll'' then Inr (ref_coll names) else Inl EOF,
     un_field = \<lambda>v. Inr \<lparr>fs_FieldID = 100, fs_Name = ''pk'', fs_IsPrimaryKey = True, fs_DataType = DataType_Int64,
       fs_IsClusteringKey = False, fs_Nullable = False, fs_DefaultValue = None, fs_TypeParams = []\<rparr>,
     un_struct = Inr, un_function = Inr, marshal_collection = \<lambda>_. Inl EOF, marshal_field = \<lambda>_. Inl EOF\<rparr>"

definition ref_unb :: "string \<Rightarrow> FieldBinlog result" where
  "ref_unb v = (if v = ''group'' then Inr \<lparr>fb_FieldID = 0, fb_Binlogs = [], fb_ChildFields = [100]\<rparr>
     else Inr \<lparr>fb_FieldID = 100, fb_Binlogs = [], fb_ChildFields = []\<rparr>)"

lemma ref_mixed_paths:
  "joinPath [[], path_Join [''a'', ''datacoord-meta'', ''s''] @ ''/''] = ''a/datacoord-meta/s/''"
  "joinPath [[], path_Join [''a'', ''datacoord-meta'', ''binlog/1/1/1'']] = ''a/datacoord-meta/binlog/1/1/1''"
  "joinPath [[], path_Join [''a'', ''datacoord-meta'', ''statslog/1/1/1'']] = ''a/datacoord-meta/statslog/1/1/1''"
  "joinPath [[], path_Join [''a'', ''datacoord-meta'', ''deltalog/1/1/1'']] = ''a/datacoord-meta/deltalog/1/1/1''"
  "joinPath [[], path_Join [''a'', CollectionMetaPrefix]] = ''a/root-coord/collection''"
  "joinPath [[], path_Join [''a'', DBCollectionMetaPrefix]] = ''a/root-coord/database/collection-info''"
  "joinPath [[], path_Join [''a'', ''root-coord/fields/1'']] = ''a/root-coord/fields/1''"
  "joinPath [[], path_Join [''a'', ''root-coord/struct-array-fields/1'']] = ''a/root-coord/struct-array-fields/1''"
  "joinPath [[], path_Join [''a'', ''root-coord/functions'', ''1''] @ ''/''] = ''a/root-coord/functions/1/''"
  by code_simp+

lemma ref_mixed_load:
  "kv_LoadWithPrefix (ref_kv :: (_, unit) MetaKV) pre ref_mixed =
   Some (Inr (map fst (filter (\<lambda>(k, v). prefix (joinPath [[], pre]) k) ref_mixed),
     map snd (filter (\<lambda>(k, v). prefix (joinPath [[], pre]) k) ref_mixed)))"
proof -
  have "sorted_wrt (<) (map fst ref_mixed)" by (simp add: ref_mixed_def less_char_def)
  then have "sorted_kvs (map_of ref_mixed) P = filter (\<lambda>(k, v). P k) ref_mixed" for P by (rule sorted_kvs_alist)
  then show ?thesis by simp
qed

definition ref_un_segment :: "string \<Rightarrow> SegmentInfo result" where
  "ref_un_segment v = (if v = ''seg'' then Inr (ref_segment 1) else Inl EOF)"

lemmas ref_run_simps = ref_mixed_load ref_mixed_paths prog_bind_def prog_read_def ListObj2Models_def ListProtoObjects_def

lemma ref_segments:
  "ListSegments (ref_kv :: (_, unit) MetaKV) ref_un_segment ''a'' [] ref_mixed =
   Some (Inr [NewSegment (ref_segment 1) ''a/datacoord-meta/s/1/1/1''], ref_mixed)"
  unfolding ListSegments_def ref_run_simps by (simp add: ref_mixed_def ref_un_segment_def)

lemma ref_binlogs:
  "GetBinlogs (getSegmentLazyFunc (ref_kv :: (_, unit) MetaKV) ref_unb ''a'' (ref_segment 1)) (NewSegment (ref_segment 1) k) ref_mixed =
   Some (Inr ((NewSegment (ref_segment 1) k)\<lparr>sm_binlogs := [\<lparr>fb_FieldID = 0, fb_Binlogs = [], fb_ChildFields = [100]\<rparr>,
      \<lparr>fb_FieldID = 100, fb_Binlogs = [], fb_ChildFields = []\<rparr>], sm_loaded := True\<rparr>,
     [\<lparr>fb_FieldID = 0, fb_Binlogs = [], fb_ChildFields = [100]\<rparr>, \<lparr>fb_FieldID = 100, fb_Binlogs = [], fb_ChildFields = []\<rparr>]), ref_mixed)"
  unfolding GetBinlogs_def loadOnce_def getSegmentLazyFunc_def lazy_list_def ref_segment_ids
  by (simp add: ref_run_simps NewSegment_def del: ref_kv_ops) (simp add: ref_mixed_def ref_unb_def set_log_paths_def)

lemma ref_collection_list:
  "ListCollectionWithoutFields (ref_kv :: (_, unit) MetaKV) (ref_coll_codec names) ''a'' [\<lambda>c. coll_ID (cm_proto c) = 1] ref_mixed =
   Some (Inr [NewCollection (ref_coll names) ''a/root-coord/collection/1''], ref_mixed)"
  unfolding ListCollectionWithoutFields_def
  by (simp add: ref_run_simps del: ref_kv_ops) (simp add: ref_mixed_def ref_coll_codec_def NewCollection_def ref_coll_def)

lemma ref_format: "format_int (sint (1 :: i64)) = ''1''"
  by (simp add: format_int_def)

lemma ref_field_list:
  "getCollectionFields (ref_kv :: (_, unit) MetaKV) (ref_coll_codec names) ''a'' 1 ref_mixed = Some (Inr [projr (un_field (ref_coll_codec names) [])], ref_mixed)"
  "getCollectionStructFields (ref_kv :: (_, unit) MetaKV) (ref_coll_codec names) ''a'' 1 ref_mixed = Some (Inr [], ref_mixed)"
  "ListCollectionFunctions (ref_kv :: (_, unit) MetaKV) (ref_coll_codec names) ''a'' 1 ref_mixed = Some (Inr [], ref_mixed)"
  unfolding getCollectionFields_def getCollectionStructFields_def ListCollectionFunctions_def ref_format
  by (simp add: ref_run_simps ref_mixed_paths [simplified] del: ref_kv_ops, simp add: ref_mixed_def ref_coll_codec_def)+

lemma ref_collection:
  "\<exists>coll. GetCollectionByIDVersion (ref_kv :: (_, unit) MetaKV) (ref_coll_codec names) ''a'' 1 ref_mixed = Some (Inr coll, ref_mixed) \<and>
     schema_fields coll = Inr [projr (un_field (ref_coll_codec names) [])] \<and>
     coll_VirtualChannelNames (cm_proto coll) = names \<and> coll_PhysicalChannelNames (cm_proto coll) = map ToPhysicalChannel names \<and>
     coll_StartPositions (cm_proto coll) = map (\<lambda>n. (n, [])) names"
  by (simp add: GetCollectionByIDVersion_def ListCollections_def prog_bind_def ref_collection_list fill_collection_def
      NewCollection_def ref_coll_def or_empty_def ref_field_list Collection_WithFields_def schema_fields_def)

lemma ref_mixed_key:
  "mixed_key ''a'' (ref_segment 1) 100 = ''a/datacoord-meta/binlog/1/1/1/100''"
  "joinPath [[], ''a/datacoord-meta/binlog/1/1/1/100''] = ''a/datacoord-meta/binlog/1/1/1/100''"
  "joinPath [[], ''repair/a/datacoord-meta/binlog/1/1/1/100''] = ''repair/a/datacoord-meta/binlog/1/1/1/100''"
proof -
  have "format_nat 100 = ''100''" by code_simp
  then show "mixed_key ''a'' (ref_segment 1) 100 = ''a/datacoord-meta/binlog/1/1/1/100''"
    by (simp add: mixed_key_def ref_segment_def ids_path_def format_int_def)
qed (code_simp+)

lemma ref_mixed_run:
  "\<exists>s'. MixedBinlogsCommand (ref_kv :: (_, unit) MetaKV) (ref_coll_codec []) ref_un_segment ref_unb id ''a'' True ref_mixed = Some (Inr (), s') \<and>
     map_of s' ''a/datacoord-meta/binlog/1/1/1/100'' = None"
proof -
  let ?K = "ref_kv :: (_, unit) MetaKV"
  obtain coll where c: "GetCollectionByIDVersion ?K (ref_coll_codec []) ''a'' 1 ref_mixed = Some (Inr coll, ref_mixed)"
    "schema_fields coll = Inr [projr (un_field (ref_coll_codec []) [])]" using ref_collection by blast
  have id: "si_CollectionID (ref_segment 1) = 1" by (simp add: ref_segment_def)
  let ?logs = "[\<lparr>fb_FieldID = 0, fb_Binlogs = [], fb_ChildFields = [100]\<rparr>, \<lparr>fb_FieldID = 100, fb_Binlogs = [], fb_ChildFields = []\<rparr>]"
  have v: "v1_fields ?logs = [100]" "v2_fields ?logs = [100]" "remdups (map fb_FieldID (v1_logs ?logs)) = [100]"
    by (simp_all add: v1_fields_def v2_fields_def v1_logs_def v2_logs_def)
  then have "is_mixed ?logs" "mixed_targets id 1 ?logs = Inr [100]" by (simp_all add: is_mixed_def mixed_targets_def)
  then have "mixed_scan ?K (ref_coll_codec []) ref_unb id ''a'' [NewSegment (ref_segment 1) k] ref_mixed = Some (Inr [(ref_segment 1, [100])], ref_mixed)" for k
    using ref_binlogs [of k] c
    by (simp add: prog_bind_def NewSegment_def id)
  moreover have "move_key ?K (mixed_key ''a'' (ref_segment 1) 100) ref_mixed =
      Some (Inr (), filter (\<lambda>(k, v). k \<noteq> ''a/datacoord-meta/binlog/1/1/1/100'')
        (AList.update ''repair/a/datacoord-meta/binlog/1/1/1/100'' ''field'' ref_mixed))"
  proof -
    have "map_of ref_mixed ''a/datacoord-meta/binlog/1/1/1/100'' = Some ''field''" by (simp add: ref_mixed_def)
    then show ?thesis unfolding ref_mixed_key by (simp add: move_key_def prog_bind_def ref_mixed_key read_result_def)
  qed
  ultimately show ?thesis
    by (simp add: MixedBinlogsCommand_def prog_bind_def ref_segments) (auto simp: map_of_eq_None_iff)
qed


section \<open>Latest checkpoints\<close>

definition live_on :: "string \<Rightarrow> SegmentModel \<Rightarrow> MsgPosition \<Rightarrow> bool" where
  "live_on pChannel m pos \<longleftrightarrow> si_State (sm_info m) \<in> {Flushed, Growing, Flushing} \<and>
     ToPhysicalChannel (si_InsertChannel (sm_info m)) = pChannel \<and> seg_position (sm_info m) = Some pos"

lemma latest_step_eq:
  "latest_step m ret ch =
     (if \<exists>pos. live_on ch m pos \<and> (ret ch = None \<or> GetTimestamp (ret ch) < pos_Timestamp pos) then seg_position (sm_info m) else ret ch)"
  by (auto simp: latest_step_def live_on_def Let_def split: option.splits)

lemma latest_fold:
  "case fold latest_step ms Map.empty ch of
     None \<Rightarrow> (\<forall>m \<in> set ms. \<forall>pos. \<not> live_on ch m pos)
   | Some pos \<Rightarrow> (\<exists>m \<in> set ms. live_on ch m pos) \<and>
       (\<forall>m' \<in> set ms. \<forall>pos'. live_on ch m' pos' \<longrightarrow> pos_Timestamp pos' \<le> pos_Timestamp pos)"
proof (induction ms rule: rev_induct)
  case (snoc m ms)
  let ?ret = "fold latest_step ms Map.empty"
  have same: "live_on ch m p \<Longrightarrow> live_on ch m p' \<Longrightarrow> p = p'" for p p' by (simp add: live_on_def)
  show ?case
  proof (cases "\<exists>pos. live_on ch m pos \<and> (?ret ch = None \<or> GetTimestamp (?ret ch) < pos_Timestamp pos)")
    case True
    then obtain pos where pos: "live_on ch m pos" "?ret ch = None \<or> GetTimestamp (?ret ch) < pos_Timestamp pos" by blast
    then have "fold latest_step (ms @ [m]) Map.empty ch = Some pos"
      using True by (simp add: latest_step_eq) (simp add: live_on_def)
    then show ?thesis using snoc pos same
      by (auto simp: GetTimestamp_def split: option.splits) (meson less_imp_le order_trans)+
  next
    case False
    then have "fold latest_step (ms @ [m]) Map.empty ch = ?ret ch" by (auto simp: latest_step_eq)
    then show ?thesis using snoc False by (auto simp: GetTimestamp_def not_less split: option.splits)
  qed
qed simp

text \<open>
  \<^verbatim>\<open>repair checkpoint\<close> with \<^verbatim>\<open>latest-cp\<close> writes one key, the checkpoint of the given channel of the collection, and no other. It
  writes a position of a flushed, growing or flushing segment on the same physical channel, and none of those segments
  has a later one. The command does so whether or not it was asked to run: it gives the same for both
  values of the flag.
\<close>

theorem RepairCheckpoint_latest:
  assumes "meta_kv K view" and "plain_path base" and "plain_path (rc_VChannel p)" and "rc_SetTo p = ''latest-cp''"
    and "RepairCheckpointCommand K M un marshal lastMessage Q base p s = Some (Inr (), s')"
  shows "(\<exists>coll channels ms m ch pos. GetCollectionByIDVersion K M base (rc_Collection p) s = Some (Inr coll, s) \<and>
      Collection_Channels (cm_proto coll) = Inr channels \<and> ch \<in> set channels \<and> VirtualName ch = rc_VChannel p \<and>
      ListSegments K un base [] s = Some (Inr ms, s) \<and> m \<in> set ms \<and>
      live_on (PhysicalName ch) m pos \<and>
      (\<forall>m' \<in> set ms. \<forall>pos'. live_on (PhysicalName ch) m' pos' \<longrightarrow> pos_Timestamp pos' \<le> pos_Timestamp pos) \<and>
      view s' = (view s)(base @ ''/datacoord-meta/channel-cp/'' @ rc_VChannel p \<mapsto> bytes_or_empty (marshal pos))) \<and>
    RepairCheckpointCommand K M un marshal lastMessage Q base (p\<lparr>rc_Run := b\<rparr>) s = Some (Inr (), s')"
proof -
  from assms(4,5) obtain coll s1 where c: "GetCollectionByIDVersion K M base (rc_Collection p) s = Some (Inr coll, s1)"
    and run: "setCheckPointWithLatestCheckPoint K un marshal base coll (rc_VChannel p) s1 = Some (Inr (), s')"
    by (auto simp: RepairCheckpointCommand_def prog_bind_Inr_iff)
  have s1: "s1 = s" by (rule reads_onlyD [OF reads_only_collections(2) c])
  from run obtain latest s2 where g: "getLatestCheckpointFromPChannel K un base s = Some (Inr latest, s2)"
    and rest: "prog_bind (prog_lift (Collection_Channels (cm_proto coll))) (\<lambda>channels.
       case find (\<lambda>ch. VirtualName ch = rc_VChannel p) channels of
         None \<Rightarrow> prog_fail (Failure ''vchannel doesn't exists in collection'')
       | Some ch \<Rightarrow>
           (case latest (PhysicalName ch) of
              None \<Rightarrow> prog_fail (Failure ''the pchannel doesn't exists'')
            | Some cp \<Rightarrow> saveChannelCheckpoint K marshal base (VirtualName ch) cp)) s2 = Some (Inr (), s')"
    unfolding setCheckPointWithLatestCheckPoint_def prog_bind_Inr_iff [of "getLatestCheckpointFromPChannel K un base"] s1 by blast
  from g obtain ms where l: "ListSegments K un base [] s = Some (Inr ms, s2)" and latest: "latest = fold latest_step ms Map.empty"
    by (auto simp: getLatestCheckpointFromPChannel_def prog_bind_Inr_iff)
  have s2: "s2 = s" by (rule reads_onlyD [OF reads_only_ListSegments l])
  obtain channels where cc: "Collection_Channels (cm_proto coll) = Inr channels"
    using rest by (cases "Collection_Channels (cm_proto coll)") (simp_all add: prog_bind_def)
  obtain ch where f: "find (\<lambda>ch. VirtualName ch = rc_VChannel p) channels = Some ch"
    using rest by (cases "find (\<lambda>ch. VirtualName ch = rc_VChannel p) channels") (simp_all add: prog_bind_def cc)
  obtain pos where pos0: "latest (PhysicalName ch) = Some pos"
    using rest by (cases "latest (PhysicalName ch)") (simp_all add: prog_bind_def cc f)
  have save: "kv_Save K (path_Join [base, ''datacoord-meta'', ''channel-cp'', VirtualName ch]) (bytes_or_empty (marshal pos)) s = (Inr (), s')"
    using rest by (simp add: prog_bind_def cc f pos0 saveChannelCheckpoint_def s2)
  have pos: "fold latest_step ms Map.empty (PhysicalName ch) = Some pos" using pos0 by (simp add: latest)
  have v: "ch \<in> set channels" "VirtualName ch = rc_VChannel p" using f by (auto simp: find_Some_iff)
  have pp: "plain_path ''channel-cp''" by (simp add: plain_path_def plain_part_def)
  have "path_Join [base, ''datacoord-meta'', ''channel-cp'', rc_VChannel p] = base @ ''/datacoord-meta/channel-cp/'' @ rc_VChannel p"
    using path_Join_plain [of "[base, ''datacoord-meta'', ''channel-cp'', rc_VChannel p]"] assms(2,3) pp by simp
  moreover have "plain_path (base @ ''/datacoord-meta/channel-cp/'' @ rc_VChannel p)"
    using plain_path_slash [of base "''datacoord-meta/channel-cp/'' @ rc_VChannel p"]
      plain_path_slash [of "''datacoord-meta''" "''channel-cp/'' @ rc_VChannel p"] plain_path_slash [of "''channel-cp''" "rc_VChannel p"]
      assms(2,3) pp by simp
  ultimately have vw: "view s' = (view s)(base @ ''/datacoord-meta/channel-cp/'' @ rc_VChannel p \<mapsto> bytes_or_empty (marshal pos))"
    using meta_kv.Save [OF assms(1) save] joinPath_plain(1) by (simp only: v(2))
  have same: "RepairCheckpointCommand K M un marshal lastMessage Q base (p\<lparr>rc_Run := b\<rparr>) s = Some (Inr (), s')"
    using assms(5) by (simp add: RepairCheckpointCommand_def cong del: if_weak_cong)
  obtain m where m: "m \<in> set ms" "live_on (PhysicalName ch) m pos"
    and max: "\<forall>m' \<in> set ms. \<forall>pos'. live_on (PhysicalName ch) m' pos' \<longrightarrow> pos_Timestamp pos' \<le> pos_Timestamp pos"
    using latest_fold [of ms "PhysicalName ch"] pos by auto
  show ?thesis by (intro conjI exI) (fact c [unfolded s1] cc l [unfolded s2] v m max vw same)+
qed

definition ref_position :: MsgPosition where
  "ref_position = \<lparr>pos_ChannelName = ''c'', pos_MsgID = [1], pos_Timestamp = 7\<rparr>"

definition ref_checkpoint :: RepairCheckpointParam where
  "ref_checkpoint = \<lparr>rc_Collection = 1, rc_VChannel = ''d_0_1v0'', rc_SetTo = ''latest-cp'', rc_MqType = [], rc_Address = [], rc_Run = False\<rparr>"

definition ref_un_positioned :: "string \<Rightarrow> SegmentInfo result" where
  "ref_un_positioned v = (if v = ''seg'' then Inr ((ref_segment 1)\<lparr>si_InsertChannel := ''d_0_1v0'', si_DmlPosition := Some ref_position\<rparr>) else Inl EOF)"

lemma ref_positioned:
  "ListSegments (ref_kv :: (_, unit) MetaKV) ref_un_positioned ''a'' [] ref_mixed =
   Some (Inr [NewSegment ((ref_segment 1)\<lparr>si_InsertChannel := ''d_0_1v0'', si_DmlPosition := Some ref_position\<rparr>) ''a/datacoord-meta/s/1/1/1''], ref_mixed)"
  unfolding ListSegments_def ref_run_simps by (simp add: ref_mixed_def ref_un_positioned_def)

theorem RepairCheckpoint_latest_witness:
  "\<exists>s'. RepairCheckpointCommand (ref_kv :: (_, unit) MetaKV) (ref_coll_codec [''d_0_1v0'']) ref_un_positioned (\<lambda>p. Inr ''pos'') (\<lambda>_ _ _. Inl EOF)
      demo_codec ''a'' ref_checkpoint ref_mixed = Some (Inr (), s') \<and>
     map_of s' ''a/datacoord-meta/channel-cp/d_0_1v0'' = Some ''pos''"
proof -
  let ?K = "ref_kv :: (_, unit) MetaKV" and ?M = "ref_coll_codec [''d_0_1v0'']"
  let ?cmd = "RepairCheckpointCommand ?K ?M ref_un_positioned (\<lambda>p. Inr ''pos'') (\<lambda>_ _ _. Inl EOF) demo_codec ''a'' ref_checkpoint ref_mixed"
  obtain coll where c: "GetCollectionByIDVersion ?K ?M ''a'' 1 ref_mixed = Some (Inr coll, ref_mixed)"
    "coll_VirtualChannelNames (cm_proto coll) = [''d_0_1v0'']"
    "coll_PhysicalChannelNames (cm_proto coll) = map ToPhysicalChannel [''d_0_1v0'']"
    "coll_StartPositions (cm_proto coll) = map (\<lambda>n. (n, [])) [''d_0_1v0'']" using ref_collection by blast
  have ph: "ToPhysicalChannel ''d_0_1v0'' = ''d_0''" by code_simp
  have ch: "Collection_Channels (cm_proto coll) =
      Inr [\<lparr>PhysicalName = ''d_0'', VirtualName = ''d_0_1v0'', StartChannel = ''d_0_1v0'', StartMsgID = []\<rparr>]"
    by (simp add: Collection_Channels_def c go_index_def ph)
  have "\<exists>s'. ?cmd = Some (Inr (), s')"
    by (simp add: RepairCheckpointCommand_def ref_checkpoint_def prog_bind_def c(1) setCheckPointWithLatestCheckPoint_def
        getLatestCheckpointFromPChannel_def ref_positioned ch latest_step_def NewSegment_def seg_position_def ph ref_segment_def
        saveChannelCheckpoint_def)
  then obtain s' where s': "?cmd = Some (Inr (), s')" by blast
  have pp: "plain_path ''a''" "plain_path (rc_VChannel ref_checkpoint)" "rc_SetTo ref_checkpoint = ''latest-cp''"
    by (simp_all add: plain_path_def plain_part_def ref_checkpoint_def)
  from RepairCheckpoint_latest [OF ref_kv_meta pp s', THEN conjunct1]
  have "map_of s' = (map_of ref_mixed)(''a'' @ ''/datacoord-meta/channel-cp/'' @ rc_VChannel ref_checkpoint \<mapsto> bytes_or_empty (Inr ''pos''))"
    by blast
  then show ?thesis using s' by (simp add: ref_checkpoint_def bytes_or_empty_def)
qed

end
