(* ===== verification/Etcd_Repair_Meta.thy ===== *)
theory Etcd_Repair_Meta
  imports Etcd_Repair
begin

text \<open>
  The remaining repair commands (\<^verbatim>\<open>states/etcd/repair\<close>): the rebuilding of a lost collection entry from its checkpoints
  (\<^verbatim>\<open>collection_info.go\<close>), leftovers of old collections (\<^verbatim>\<open>collection_legacy.go\<close>), channels (\<^verbatim>\<open>channel.go\<close>,
  \<^verbatim>\<open>channel_watched.go\<close>), broadcast tasks (\<^verbatim>\<open>wal_broadcast_task.go\<close>), manual compaction, and the recovery storage of the
  write-ahead log with its listing (\<^verbatim>\<open>wal_recovery_storage.go\<close> here and in \<^verbatim>\<open>states/etcd/common\<close>). Calls of other services
  are arguments.
\<close>

section \<open>Names of virtual channels\<close>

text \<open>A string cut at the last occurrence of a character.\<close>

definition cut_last :: "char \<Rightarrow> string \<Rightarrow> (string \<times> string) option" where
  "cut_last c s =
     (if c \<in> set s then Some (rev (tl (dropWhile (\<lambda>x. x \<noteq> c) (rev s))), rev (takeWhile (\<lambda>x. x \<noteq> c) (rev s))) else None)"

definition ParseEntity :: "string \<Rightarrow> (string \<times> int \<times> int) result" where
  "ParseEntity str =
     (case cut_last (CHR ''_'') str of
        None \<Rightarrow> Inl (Failure ''format error: missing underscore'')
      | Some (pre, suf) \<Rightarrow>
          (case cut_last (CHR ''v'') suf of
             None \<Rightarrow> Inl (Failure ''format error: missing 'v' separator'')
           | Some (entityIDStr, versionStr) \<Rightarrow>
               res_bind (ParseInt 64 entityIDStr) (\<lambda>entityID.
               res_bind (ParseInt 64 versionStr) (\<lambda>version. Inr (pre, entityID, version)))))"

section \<open>Rebuilding a collection\<close>

record DatabaseInfo =
  db_Id :: i64
  db_Name :: string

record CollectionInfoParam =
  ci_Path :: string
  ci_DatabaseID :: i64
  ci_CollectionID :: i64
  ci_CollectionName :: string
  ci_EnableDynamic :: bool
  ci_Run :: bool

record CollectionInfoModel =
  im_CollectionID :: i64
  im_DbName :: string
  im_CollectionName :: string
  im_ConsitencyLevel :: i32

text \<open>The message that is written.\<close>

record RepairedCollection =
  rp_ID :: i64
  rp_Name :: string
  rp_DbName :: string
  rp_EnableDynamicField :: bool
  rp_ConsistencyLevel :: i32
  rp_DbId :: i64
  rp_VirtualChannelNames :: "string list"
  rp_PhysicalChannelNames :: "string list"
  rp_StartPositions :: "(string \<times> bytes) list"
  rp_ShardsNum :: i32

text \<open>A channel is its physical name and the checkpoint it was made from.\<close>

definition channel_slots :: "MsgPosition list \<Rightarrow> (string \<times> MsgPosition) option list result" where
  "channel_slots checkpoints =
     res_fold (\<lambda>cp channels.
       res_bind (ParseEntity (pos_ChannelName cp)) (\<lambda>(pchannel, _, version).
         if 0 \<le> version \<and> version < int (length channels) then Inr (channels[nat version := Some (pchannel, cp)])
         else Inl (Panic ''index out of range''))) checkpoints (replicate (length checkpoints) None)"

text \<open>The names of a slot that stayed nil are empty, but the start position of one dereferences it.\<close>

definition slot_position :: "(string \<times> MsgPosition) option \<Rightarrow> (string \<times> bytes) result" where
  "slot_position slot =
     (case slot of
        None \<Rightarrow> Inl (Panic ''nil pointer dereference'')
      | Some (_, cp) \<Rightarrow> Inr (pos_ChannelName cp, pos_MsgID cp))"

definition collection_message :: "CollectionInfoModel \<Rightarrow> DatabaseInfo \<Rightarrow> bool \<Rightarrow> (string \<times> MsgPosition) option list \<Rightarrow>
    RepairedCollection result" where
  "collection_message info db dynamic channels =
     res_bind (res_map slot_position channels) (\<lambda>positions.
       Inr \<lparr>rp_ID = im_CollectionID info, rp_Name = im_CollectionName info, rp_DbName = db_Name db, rp_EnableDynamicField = dynamic,
         rp_ConsistencyLevel = im_ConsitencyLevel info, rp_DbId = db_Id db,
         rp_VirtualChannelNames = map (\<lambda>c. case c of None \<Rightarrow> [] | Some (_, cp) \<Rightarrow> pos_ChannelName cp) channels,
         rp_PhysicalChannelNames = map (\<lambda>c. case c of None \<Rightarrow> [] | Some (p, _) \<Rightarrow> p) channels,
         rp_StartPositions = positions, rp_ShardsNum = of_nat (length channels)\<rparr>)"

text \<open>
  Where name, database and level come from: a file, whose decoded list is the argument \<open>infos\<close>, or the parameters. Later
  entries of a list win in the maps built from it.
\<close>

definition collection_source :: "(string \<Rightarrow> CollectionInfoModel list result) \<Rightarrow> DatabaseInfo list \<Rightarrow> CollectionInfoParam \<Rightarrow>
    (CollectionInfoModel \<times> DatabaseInfo) result" where
  "collection_source infos databases p =
     (if ci_Path p \<noteq> [] then
        res_bind (infos (ci_Path p)) (\<lambda>config.
          case find (\<lambda>i. im_CollectionID i = ci_CollectionID p) (rev config) of
            None \<Rightarrow> Inl (Failure ''collection ID not found in the collection info file'')
          | Some info \<Rightarrow>
              (case find (\<lambda>db. db_Name db = im_DbName info) (rev databases) of
                 None \<Rightarrow> Inl (Failure ''collection dbname not found current instance'')
               | Some db \<Rightarrow> Inr (info, db)))
      else if ci_DatabaseID p = 0 then Inl (Failure ''database ID must be specified'')
      else if ci_CollectionName p = [] then Inl (Failure ''collection name must be specified'')
      else case find (\<lambda>db. db_Id db = ci_DatabaseID p) databases of
             None \<Rightarrow> Inl (Failure ''database ID not found current instance'')
           | Some db \<Rightarrow>
               Inr (\<lparr>im_CollectionID = ci_CollectionID p, im_DbName = db_Name db, im_CollectionName = ci_CollectionName p,
                      im_ConsitencyLevel = 2\<rparr>, db))"

text \<open>\<open>isDynamic\<close> reads the flag of a field; it is not one of the fields \<open>FieldSchema\<close> keeps.\<close>

definition CollectionInfoCommand :: "('s, 't) MetaKV \<Rightarrow> (string \<Rightarrow> DatabaseInfo result) \<Rightarrow> (string \<Rightarrow> MsgPosition result) \<Rightarrow>
    (string \<Rightarrow> 'f result) \<Rightarrow> ('f \<Rightarrow> bool) \<Rightarrow> (string \<Rightarrow> CollectionInfoModel list result) \<Rightarrow> (RepairedCollection \<Rightarrow> string result) \<Rightarrow> string \<Rightarrow>
    CollectionInfoParam \<Rightarrow> ('s, unit) prog" where
  "CollectionInfoCommand K und unp unf isDynamic infos marshal basePath p =
     prog_bind (ListDatabase K und basePath []) (\<lambda>databases.
     prog_bind (ListProtoObjects K unp (path_Join [basePath, ''datacoord-meta'', ''channel-cp'']) []) (\<lambda>(results, _).
     prog_bind (ListProtoObjects K unf (path_Join [basePath, ''root-coord/fields/'' @ format_int (sint (ci_CollectionID p))]) []) (\<lambda>(flds, _).
     let checkpoints = filter (\<lambda>cp. Contains (pos_ChannelName cp) (format_int (sint (ci_CollectionID p)))) results
     in prog_bind (prog_lift (channel_slots checkpoints)) (\<lambda>channels.
        prog_bind (prog_lift (collection_source infos (map wrapped_proto databases) p)) (\<lambda>(info, db).
        prog_bind (prog_lift (collection_message info db (ci_EnableDynamic p \<or> list_ex isDynamic flds) channels)) (\<lambda>collPb.
          if \<not> ci_Run p then prog_return ()
          else prog_bind (prog_lift (marshal collPb)) (\<lambda>bs.
            prog_go (kv_Save K (path_Join [basePath, ''root-coord'', ''database'', ''collection-info'', format_int (sint (rp_DbId collPb)),
              format_int (sint (rp_ID collPb))]) bs)))))))) "

section \<open>Channels\<close>

text \<open>
  The names of a map in the order \<open>order\<close> of its iteration. The services are arguments: \<open>dial\<close> connects to an address, \<open>watch\<close> and
  \<open>compact\<close> are the calls, with the status of the answer as their result. \<open>doDatacoordWatch\<close> gives the addresses it called.
\<close>

definition orphan_channels :: "(string list \<Rightarrow> string list) \<Rightarrow> Channel list \<Rightarrow> ChannelWatchInfo ProtoWrapper list \<Rightarrow> string list" where
  "orphan_channels order channels infos =
     order (filter (\<lambda>n. n \<notin> set (map (\<lambda>w. cw_ChannelName (wrapped_proto w)) infos)) (remdups (map VirtualName channels)))"

fun watch_loop :: "(string \<Rightarrow> unit result) \<Rightarrow> (string \<Rightarrow> i64 \<Rightarrow> string list \<Rightarrow> unit result) \<Rightarrow> i64 \<Rightarrow> string list \<Rightarrow> Session list \<Rightarrow>
    string list" where
  "watch_loop dial watch collectionID vchannels [] = []"
| "watch_loop dial watch collectionID vchannels (session # rest) =
     (if ServerName session \<noteq> ''datacoord'' then watch_loop dial watch collectionID vchannels rest
      else case dial (Address session) of
             Inl _ \<Rightarrow> []
           | Inr _ \<Rightarrow> Address session #
               (case watch (Address session) collectionID vchannels of
                  Inl _ \<Rightarrow> []
                | Inr _ \<Rightarrow> watch_loop dial watch collectionID vchannels rest))"

definition doDatacoordWatch :: "('s, 't) MetaKV \<Rightarrow> (string \<Rightarrow> Session result) \<Rightarrow> (string \<Rightarrow> unit result) \<Rightarrow>
    (string \<Rightarrow> i64 \<Rightarrow> string list \<Rightarrow> unit result) \<Rightarrow> string \<Rightarrow> i64 \<Rightarrow> string list \<Rightarrow> ('s, string list) prog" where
  "doDatacoordWatch K uns dial watch basePath collectionID vchannels =
     or_empty (prog_bind (ListSessions K uns basePath) (\<lambda>sessions.
       prog_return (watch_loop dial watch collectionID vchannels sessions)))"

definition RepairChannelCommand :: "('s, 't) MetaKV \<Rightarrow> collection_codec \<Rightarrow> (string \<Rightarrow> ChannelWatchInfo result) \<Rightarrow>
    (string \<Rightarrow> Session result) \<Rightarrow> (string \<Rightarrow> unit result) \<Rightarrow> (string \<Rightarrow> i64 \<Rightarrow> string list \<Rightarrow> unit result) \<Rightarrow>
    (string list \<Rightarrow> string list) \<Rightarrow> string \<Rightarrow> i64 \<Rightarrow> bool \<Rightarrow> ('s, string list) prog" where
  "RepairChannelCommand K M unw uns dial watch order basePath collection run s =
     (if collection = 0 then Some (Inr [], s)
      else case GetCollectionByIDVersion K M basePath collection s of
        None \<Rightarrow> None
      | Some (Inl (Panic msg), s') \<Rightarrow> Some (Inl (Panic msg), s')
      | Some (Inl _, s') \<Rightarrow> Some (Inr [], s')
      | Some (Inr coll, s') \<Rightarrow>
          prog_bind (prog_lift (Collection_Channels (cm_proto coll))) (\<lambda>channels.
          prog_bind (ListChannelWatch K unw basePath []) (\<lambda>infos.
            let chans = orphan_channels order channels infos
            in if chans = [] \<or> \<not> run then prog_return []
               else doDatacoordWatch K uns dial watch basePath collection chans)) s')"

definition doManualCompaction :: "('s, 't) MetaKV \<Rightarrow> (string \<Rightarrow> Session result) \<Rightarrow> (string \<Rightarrow> unit result) \<Rightarrow>
    (string \<Rightarrow> i64 \<Rightarrow> i64 result) \<Rightarrow> string \<Rightarrow> i64 \<Rightarrow> ('s, i64) prog" where
  "doManualCompaction K uns dial compact basePath collID =
     prog_bind (ListSessions K uns basePath) (\<lambda>sessions.
       case find (\<lambda>session. ServerName session = ''datacoord'') sessions of
         None \<Rightarrow> prog_fail (Failure ''datacoord not found in session list'')
       | Some session \<Rightarrow>
           prog_bind (prog_lift (dial (Address session))) (\<lambda>_. prog_lift (compact (Address session) collID)))"

definition ManualCompactionCommand :: "('s, 't) MetaKV \<Rightarrow> (string \<Rightarrow> Session result) \<Rightarrow> (string \<Rightarrow> unit result) \<Rightarrow>
    (string \<Rightarrow> i64 \<Rightarrow> i64 result) \<Rightarrow> string \<Rightarrow> i64 \<Rightarrow> ('s, i64) prog" where
  "ManualCompactionCommand K uns dial compact basePath collection =
     (if collection = 0 then prog_fail (Failure ''collection id should not be zero'')
      else doManualCompaction K uns dial compact basePath collection)"

text \<open>
  The filter of \<open>channel-watch\<close> reads through \<open>Vchan\<close>, which panics when it is nil and one of the two selections is given; the
  key of the message printed next does so in any case. An error of the collection read is printed and the nil collection
  dereferenced.
\<close>

definition watch_selected :: "i64 \<Rightarrow> string \<Rightarrow> ChannelWatchInfo \<Rightarrow> bool" where
  "watch_selected collectionID name info \<longleftrightarrow>
     (case cw_Vchan info of
        None \<Rightarrow> True
      | Some v \<Rightarrow> (collectionID = 0 \<or> vc_CollectionID v = collectionID) \<and> (name = [] \<or> vc_ChannelName v = name))"

definition watch_panics :: "i64 \<Rightarrow> string \<Rightarrow> ChannelWatchInfo \<Rightarrow> bool" where
  "watch_panics collectionID name info \<longleftrightarrow> cw_Vchan info = None \<and> (collectionID \<noteq> 0 \<or> name \<noteq> [])"

text \<open>
  Printing a schema sorts its fields by id, in place; the sorted ones are written. \<^verbatim>\<open>sort.Slice\<close> is not stable, which does not
  show as the fields of a collection have distinct ids.
\<close>

definition printSchema :: "CollectionSchema \<Rightarrow> CollectionSchema" where
  "printSchema sch = sch\<lparr>sch_Fields := sort_key (\<lambda>f. sint (fs_FieldID f)) (sch_Fields sch)\<rparr>"

definition repair_watch :: "('s, 't) MetaKV \<Rightarrow> collection_codec \<Rightarrow> (ChannelWatchInfo \<Rightarrow> string result) \<Rightarrow> string \<Rightarrow> bool \<Rightarrow>
    ChannelWatchInfo ProtoWrapper \<Rightarrow> ('s, unit) prog" where
  "repair_watch K M marshal basePath run w s =
     (case cw_Vchan (wrapped_proto w) of
        None \<Rightarrow> Some (Inl (Panic ''nil pointer dereference''), s)
      | Some v \<Rightarrow>
          (case GetCollectionByIDVersion K M basePath (vc_CollectionID v) s of
             None \<Rightarrow> None
           | Some (Inl _, s') \<Rightarrow> Some (Inl (Panic ''nil pointer dereference''), s')
           | Some (Inr coll, s') \<Rightarrow>
               let w' = w\<lparr>wrapped_proto := (wrapped_proto w)\<lparr>cw_Schema := map_option printSchema (coll_Schema (cm_proto coll))\<rparr>\<rparr>
               in if run then tolerate (WriteChannelWatchInfo K marshal w') s' else Some (Inr (), s')))"

definition RepairChannelWatchedCommand :: "('s, 't) MetaKV \<Rightarrow> collection_codec \<Rightarrow> (string \<Rightarrow> ChannelWatchInfo result) \<Rightarrow>
    (ChannelWatchInfo \<Rightarrow> string result) \<Rightarrow> string \<Rightarrow> i64 \<Rightarrow> string \<Rightarrow> bool \<Rightarrow> ('s, unit) prog" where
  "RepairChannelWatchedCommand K M unw marshal basePath collectionID name run =
     prog_bind (ListChannelWatch K unw basePath [\<lambda>w. watch_selected collectionID name (wrapped_proto w)]) (\<lambda>infos.
       if list_ex (\<lambda>w. watch_panics collectionID name (wrapped_proto w)) infos
       then prog_fail (Panic ''nil pointer dereference'')
       else prog_for (filter (\<lambda>w. cw_Schema (wrapped_proto w) = None) infos) (repair_watch K M marshal basePath run))"

section \<open>Leftovers of old collections\<close>

text \<open>
  The filter runs before the fields are filled in, and panics on a nil schema, which the listing that met it does not survive.
\<close>

definition legacy_filter :: "i64 \<Rightarrow> CollectionModel \<Rightarrow> bool" where
  "legacy_filter collectionID c \<longleftrightarrow>
     coll_DbId (cm_proto c) = 0 \<and>
     (case coll_Schema (cm_proto c) of
        None \<Rightarrow> True
      | Some sch \<Rightarrow> sch_Fields sch = [] \<and> (collectionID = 0 \<or> collectionID = coll_ID (cm_proto c)))"

definition no_nil_schema :: "CollectionModel list \<Rightarrow> CollectionModel list result" where
  "no_nil_schema cs =
     (if list_ex (\<lambda>c. coll_Schema (cm_proto c) = None) cs then Inl (Panic ''nil pointer dereference'') else Inr cs)"

definition legacy_collections :: "('s, 't) MetaKV \<Rightarrow> collection_codec \<Rightarrow> string \<Rightarrow> i64 \<Rightarrow> ('s, CollectionModel list) prog" where
  "legacy_collections K M basePath collectionID =
     prog_bind (prog_bind (ListObj2Models K (un_collection M) (path_Join [basePath, CollectionMetaPrefix]) NewCollection
       [legacy_filter collectionID]) (\<lambda>cs. prog_lift (no_nil_schema cs))) (\<lambda>old.
     prog_bind (prog_bind (ListObj2Models K (un_collection M) (path_Join [basePath, DBCollectionMetaPrefix]) NewCollection
       [legacy_filter collectionID]) (\<lambda>cs. prog_lift (no_nil_schema cs))) (\<lambda>new.
       fill_collections K M basePath (old @ new)))"

text \<open>A tombstone has no collection whose key could be taken. Errors of the single removals are dropped.\<close>

definition history_key :: "CollectionHistory \<Rightarrow> string result" where
  "history_key hc =
     (case hc of
        History w _ \<Rightarrow> Inr (wrapped_key w)
      | HistoryDropped _ \<Rightarrow> Inl (Panic ''nil pointer dereference''))"

definition remove_history :: "('s, 't) MetaKV \<Rightarrow> bool \<Rightarrow> CollectionHistory list \<Rightarrow> ('s, unit) prog" where
  "remove_history K run hcs =
     prog_for hcs (\<lambda>hc. prog_bind (prog_lift (history_key hc)) (\<lambda>key.
       if run then ignore_result (kv_Remove K key) else prog_return ()))"

definition remove_legacy :: "('s, 't) MetaKV \<Rightarrow> (string \<Rightarrow> CollectionInfo result) \<Rightarrow> string \<Rightarrow> CollectionModel \<Rightarrow> ('s, unit) prog" where
  "remove_legacy K unh basePath c s =
     (case kv_Remove K (cm_key c) s of
        (Inl _, s') \<Rightarrow> Some (Inr (), s')
      | (Inr _, s') \<Rightarrow>
          (case ListCollectionHistory K unh basePath (coll_DbId (cm_proto c)) (coll_ID (cm_proto c)) s' of
             None \<Rightarrow> None
           | Some (Inl _, s'') \<Rightarrow> Some (Inr (), s'')
           | Some (Inr hcs, s'') \<Rightarrow> remove_history K True hcs s''))"

definition CollectionLegacyDroppedCommand :: "('s, 't) MetaKV \<Rightarrow> collection_codec \<Rightarrow> (string \<Rightarrow> CollectionInfo result) \<Rightarrow> string \<Rightarrow>
    i64 \<Rightarrow> bool \<Rightarrow> ('s, unit) prog" where
  "CollectionLegacyDroppedCommand K M unh basePath collectionID run =
     prog_bind (legacy_collections K M basePath collectionID) (\<lambda>collections.
     prog_bind (prog_for collections (\<lambda>c. if run then remove_legacy K unh basePath c else prog_return ())) (\<lambda>_.
       if collections = [] \<and> collectionID \<noteq> 0 then
         prog_bind (ListCollectionHistory K unh basePath 0 collectionID) (remove_history K run)
       else prog_return ()))"

section \<open>Broadcast tasks\<close>

datatype BroadcastTaskState = BroadcastPending | BroadcastOther nat

text \<open>
  A task: its message, which may be nil, and the progress of its acknowledgements. \<open>vchannels\<close> is the number of channels in the
  header of the message, \<^verbatim>\<open>message.NewBroadcastMutableMessageBeforeAppend\<close> and \<^verbatim>\<open>BroadcastHeader\<close> of the messaging library.
\<close>

record ('m, 'cp) BroadcastTask =
  bt_Message :: "'m option"
  bt_State :: BroadcastTaskState
  bt_AckedVchannelBitmap :: bytes
  bt_AckedCheckpoints :: "'cp option list"

definition reset_task :: "('m \<Rightarrow> nat result) \<Rightarrow> ('m, 'cp) BroadcastTask \<Rightarrow> ('m, 'cp) BroadcastTask result" where
  "reset_task vchannels task =
     (case bt_Message task of
        None \<Rightarrow> Inl (Panic ''nil pointer dereference'')
      | Some m \<Rightarrow> res_bind (vchannels m) (\<lambda>n.
          Inr (task\<lparr>bt_AckedCheckpoints := replicate n None, bt_AckedVchannelBitmap := replicate n 0, bt_State := BroadcastPending\<rparr>)))"

definition WALBroadcastTaskCommand :: "('s, 't) MetaKV \<Rightarrow> (string \<Rightarrow> ('m, 'cp) BroadcastTask result) \<Rightarrow>
    (('m, 'cp) BroadcastTask \<Rightarrow> string result) \<Rightarrow> (('m, 'cp) BroadcastTask \<Rightarrow> string result) \<Rightarrow> ('m \<Rightarrow> nat result) \<Rightarrow> string \<Rightarrow> string \<Rightarrow> i64 \<Rightarrow>
    bool \<Rightarrow> ('s, unit) prog" where
  "WALBroadcastTaskCommand K un marshal toJSON vchannels basePath mode broadcastID run s =
     (if mode \<noteq> ''reset'' \<and> mode \<noteq> ''remove'' then Some (Inl (Failure ''invalid mode''), s)
      else case ListWalBroadcastByID K un basePath broadcastID s of
        None \<Rightarrow> None
      | Some (Inl e, s') \<Rightarrow> Some (if e = ErrBroadcastTaskNotFound then Inr () else Inl e, s')
      | Some (Inr meta, s') \<Rightarrow>
          prog_bind (prog_lift (toJSON meta)) (\<lambda>_.
            if \<not> run then prog_return ()
            else if mode = ''reset'' then
              prog_bind (prog_lift (reset_task vchannels meta)) (\<lambda>task. SaveWalBroadcastTask K marshal basePath broadcastID task)
            else RemoveWalBroadcastTask K basePath broadcastID) s')"

section \<open>The recovery storage of the write-ahead log\<close>

text \<open>
  The messages, with the parts the program reads; pointers that may be nil are options. A schema is the one of a collection with the
  functions added.
\<close>

record PChannelMeta =
  pm_Channel :: "string option"

record ReplicateCheckpoint =
  rc_MessageId :: "string option"
  rc_TimeTick :: u64
  rc_ClusterId :: string

record WALCheckpoint =
  wc_MessageId :: "string option"
  wc_TimeTick :: u64
  wc_ReplicateCheckpoint :: "ReplicateCheckpoint option"

record CollectionSchemaOfVChannel =
  cs_Schema :: CollectionSchema
  cs_Functions :: "string list"
  cs_CheckpointTimeTick :: u64

record CollectionInfoOfVChannel =
  cv_CollectionId :: i64
  cv_Schemas :: "CollectionSchemaOfVChannel list"

record VChannelMeta =
  vm_Vchannel :: string
  vm_CollectionInfo :: "CollectionInfoOfVChannel option"

record SegmentAssignmentMeta =
  sa_SegmentId :: i64
  sa_Vchannel :: string
  sa_CheckpointTimeTick :: u64
  sa_Stat :: "(u64 \<times> u64) option"

record wal_codec =
  un_pchannel :: "string \<Rightarrow> PChannelMeta result"
  un_checkpoint :: "string \<Rightarrow> WALCheckpoint result"
  un_segment :: "string \<Rightarrow> SegmentAssignmentMeta result"
  un_vchannel :: "string \<Rightarrow> VChannelMeta result"
  un_schema :: "string \<Rightarrow> CollectionSchemaOfVChannel result"
  marshal_schema :: "CollectionSchemaOfVChannel \<Rightarrow> string result"

text \<open>
  \<^verbatim>\<open>walNameUnmarshaler\<close>: the decoders of the messaging libraries, by name. A name without a decoder is a call of a nil function.
\<close>

type_synonym id_decoders = "string \<Rightarrow> (string \<Rightarrow> string result) option"

definition wal_names :: "string list" where
  "wal_names = [''pulsar'', ''kafka'', ''rmq'', ''wp'']"

text \<open>The id of a kafka message is printed in decimal; \<open>ParseUint\<close> is out of range or of syntax for anything else.\<close>

definition ParseUint64 :: "string \<Rightarrow> u64 result" where
  "ParseUint64 s =
     (if s \<noteq> [] \<and> list_all is_digit s \<and> digits_value s < 2 ^ 64 then Inr (of_nat (digits_value s))
      else Inl (Failure ''strconv.ParseUint''))"

fun guess_loop :: "id_decoders \<Rightarrow> string \<Rightarrow> string list \<Rightarrow> (string \<times> string) result" where
  "guess_loop dec i [] = Inr ([], i @ ''[unknown]'')"
| "guess_loop dec i (name # names) =
     (case dec name of
        None \<Rightarrow> Inl (Panic ''nil pointer dereference'')
      | Some f \<Rightarrow>
          (case f i of
             Inl _ \<Rightarrow> guess_loop dec i names
           | Inr str \<Rightarrow>
               if name = ''kafka'' then
                 (case ParseUint64 str of
                    Inl _ \<Rightarrow> Inl (Panic ''strconv.ParseUint'')
                  | Inr n \<Rightarrow> if 400000000000000000 < n then guess_loop dec i names else Inr (name, str))
               else Inr (name, str)))"

definition GuessWALName :: "id_decoders \<Rightarrow> string \<Rightarrow> (string \<times> string) result" where
  "GuessWALName dec i = guess_loop dec i wal_names"

definition GetMessageIDString :: "id_decoders \<Rightarrow> string \<Rightarrow> string \<Rightarrow> string result" where
  "GetMessageIDString dec walName i =
     (if walName = [] then res_bind (GuessWALName dec i) (\<lambda>(_, str). Inr str)
      else case dec walName of
             None \<Rightarrow> Inl (Panic ''nil pointer dereference'')
           | Some f \<Rightarrow> (case f i of Inl _ \<Rightarrow> Inr (i @ ''[unknown]'') | Inr str \<Rightarrow> Inr str))"

definition FormatSegmentAssignmentMeta :: "SegmentAssignmentMeta \<Rightarrow> string result" where
  "FormatSegmentAssignmentMeta segment =
     (case sa_Stat segment of
        None \<Rightarrow> Inl (Panic ''nil pointer dereference'')
      | Some (rows, bin_size) \<Rightarrow>
          Inr (format_int (sint (sa_SegmentId segment)) @ ''@'' @ format_nat (unat (sa_CheckpointTimeTick segment)) @ ''['' @
            format_nat (unat rows) @ '','' @ format_nat (unat bin_size) @ '']''))"

definition FormatSchema :: "CollectionSchemaOfVChannel \<Rightarrow> string" where
  "FormatSchema schema = ''schema@'' @ format_nat (unat (cs_CheckpointTimeTick schema))"

definition FormatReplicateWALCheckpoint :: "id_decoders \<Rightarrow> string \<Rightarrow> ReplicateCheckpoint \<Rightarrow> string result" where
  "FormatReplicateWALCheckpoint dec walName cp =
     res_bind (case rc_MessageId cp of None \<Rightarrow> Inr ''none'' | Some i \<Rightarrow> GetMessageIDString dec walName i) (\<lambda>str.
       Inr (str @ ''@'' @ format_nat (unat (rc_TimeTick cp)) @ '':'' @ rc_ClusterId cp))"

definition FormatWALCheckpoint :: "id_decoders \<Rightarrow> string \<Rightarrow> WALCheckpoint \<Rightarrow> string result" where
  "FormatWALCheckpoint dec walName cp =
     (case wc_MessageId cp of
        None \<Rightarrow> Inl (Panic ''nil pointer dereference'')
      | Some i \<Rightarrow> res_bind (GetMessageIDString dec walName i) (\<lambda>str.
          let head = str @ ''@'' @ format_nat (unat (wc_TimeTick cp))
          in case wc_ReplicateCheckpoint cp of
               None \<Rightarrow> Inr head
             | Some rc \<Rightarrow> res_bind (FormatReplicateWALCheckpoint dec walName rc) (\<lambda>tail. Inr (head @ '','' @ tail))))"

text \<open>Reading the entries of a channel. A map from names to lists is a function to options.\<close>

record wal_scan =
  ws_checkpoint :: "WALCheckpoint option"
  ws_vchannels :: "VChannelMeta list"
  ws_schemas :: "string \<Rightarrow> CollectionSchemaOfVChannel list option"
  ws_segments :: "string \<Rightarrow> SegmentAssignmentMeta list option"

definition entries_of :: "('k \<Rightarrow> 'a list option) \<Rightarrow> 'k \<Rightarrow> 'a list" where
  "entries_of m k = (case m k of None \<Rightarrow> [] | Some xs \<Rightarrow> xs)"

definition empty_scan :: wal_scan where
  "empty_scan = \<lparr>ws_checkpoint = None, ws_vchannels = [], ws_schemas = Map.empty, ws_segments = Map.empty\<rparr>"

definition wal_entry :: "wal_codec \<Rightarrow> string \<times> string \<Rightarrow> wal_scan \<Rightarrow> wal_scan result" where
  "wal_entry W kv st =
     (case kv of (key, val) \<Rightarrow>
        let ks = split_on slash key; vs = tl ks
        in if hd ks = ''consume-checkpoint'' then
             res_bind (un_checkpoint W val) (\<lambda>cp. Inr (st\<lparr>ws_checkpoint := Some cp\<rparr>))
           else if hd ks = ''segment-assign'' then
             res_bind (un_segment W val) (\<lambda>seg.
               Inr (st\<lparr>ws_segments := (ws_segments st)(sa_Vchannel seg \<mapsto> entries_of (ws_segments st) (sa_Vchannel seg) @ [seg])\<rparr>))
           else if hd ks = ''vchannel'' \<and> length vs = 1 then
             res_bind (un_vchannel W val) (\<lambda>vc. Inr (st\<lparr>ws_vchannels := ws_vchannels st @ [vc]\<rparr>))
           else if hd ks = ''vchannel'' \<and> length vs = 3 \<and> vs ! 1 = ''schema'' then
             (let m = (ws_schemas st)(vs ! 2 \<mapsto> [])
              in res_bind (un_schema W val) (\<lambda>sch. Inr (st\<lparr>ws_schemas := m(vs ! 0 \<mapsto> entries_of m (vs ! 0) @ [sch])\<rparr>)))
           else Inr st)"

record RecoveryStorageMeta =
  rs_Channel :: PChannelMeta
  rs_Checkpoints :: "WALCheckpoint option"
  rs_VChannels :: "VChannelMeta list"
  rs_Segments :: "string \<Rightarrow> SegmentAssignmentMeta list option"
  rs_RedundantSchemas :: "string \<Rightarrow> CollectionSchemaOfVChannel list option"
  rs_RedundantSegments :: "string \<Rightarrow> SegmentAssignmentMeta list option"

definition attach_vchannel :: "VChannelMeta \<Rightarrow> RecoveryStorageMeta \<Rightarrow> RecoveryStorageMeta result" where
  "attach_vchannel vc st =
     (let name = vm_Vchannel vc;
          st1 = (case rs_RedundantSegments st name of
                   None \<Rightarrow> st
                 | Some segs \<Rightarrow> st\<lparr>rs_Segments := (rs_Segments st)(name \<mapsto> segs),
                     rs_RedundantSegments := (rs_RedundantSegments st)(name := None)\<rparr>)
      in case rs_RedundantSchemas st name of
           None \<Rightarrow> Inr (st1\<lparr>rs_VChannels := rs_VChannels st @ [vc]\<rparr>)
         | Some schs \<Rightarrow>
             (case vm_CollectionInfo vc of
                None \<Rightarrow> Inl (Panic ''nil pointer dereference'')
              | Some info \<Rightarrow>
                  Inr (st1\<lparr>rs_VChannels := rs_VChannels st @ [vc\<lparr>vm_CollectionInfo := Some (info\<lparr>cv_Schemas := schs\<rparr>)\<rparr>],
                         rs_RedundantSchemas := (rs_RedundantSchemas st)(name := None)\<rparr>)))"

definition recovery_storage :: "wal_codec \<Rightarrow> PChannelMeta \<Rightarrow> (string \<times> string) list \<Rightarrow> RecoveryStorageMeta result" where
  "recovery_storage W channel entries =
     res_bind (res_fold (wal_entry W) entries empty_scan) (\<lambda>st.
       res_fold attach_vchannel (ws_vchannels st)
         \<lparr>rs_Channel = channel, rs_Checkpoints = ws_checkpoint st, rs_VChannels = [], rs_Segments = Map.empty,
          rs_RedundantSchemas = ws_schemas st, rs_RedundantSegments = ws_segments st\<rparr>)"

definition removePrefix :: "string list \<Rightarrow> string \<Rightarrow> string list" where
  "removePrefix ks pre = map (\<lambda>k. TrimPrefix k pre) ks"

definition ListWALRecoveryStorage :: "('s, 't) MetaKV \<Rightarrow> wal_codec \<Rightarrow> string \<Rightarrow> string \<Rightarrow> ('s, RecoveryStorageMeta) prog" where
  "ListWALRecoveryStorage K W basePath pchannel =
     prog_bind (ListWALDistribution K (un_pchannel W) basePath pchannel) (\<lambda>channel.
       if channel = [] then prog_fail (Failure ''channel not found'')
       else let pre = path_Join [basePath, ''streamingnode-meta/wal/'', pchannel] @ ''/''
            in prog_bind (prog_read (kv_LoadWithPrefix K pre)) (\<lambda>(ks, vals).
                 prog_lift (recovery_storage W (hd channel) (zip (removePrefix ks pre) vals))))"

definition schema_dir :: "(string \<Rightarrow> string) \<Rightarrow> string \<Rightarrow> string \<Rightarrow> string list" where
  "schema_dir phys basePath vchannel =
     [basePath, ''streamingnode-meta/wal/'', phys vchannel, ''vchannel'', vchannel, ''schema'']"

text \<open>\<open>phys\<close> is \<^verbatim>\<open>funcutil.ToPhysicalChannel\<close>.\<close>

definition SaveSchemaForVChannel :: "('s, 't) MetaKV \<Rightarrow> wal_codec \<Rightarrow> (string \<Rightarrow> string) \<Rightarrow> string \<Rightarrow> VChannelMeta \<Rightarrow>
    CollectionSchemaOfVChannel \<Rightarrow> ('s, unit) prog" where
  "SaveSchemaForVChannel K W phys basePath vc schema =
     (let dir = schema_dir phys basePath (vm_Vchannel vc)
      in prog_bind (prog_read (kv_LoadWithPrefix K (path_Join dir))) (\<lambda>(ks, _).
           if ks \<noteq> [] then prog_fail (Failure ''schema already exists for vchannel'')
           else prog_bind (prog_lift (marshal_schema W schema)) (\<lambda>bs.
             prog_go (kv_Save K (path_Join (dir @ [format_nat (unat (cs_CheckpointTimeTick schema))])) bs))))"

section \<open>Repair of lost schemas\<close>

definition schema_lost :: "VChannelMeta \<Rightarrow> bool result" where
  "schema_lost vc =
     (case vm_CollectionInfo vc of
        None \<Rightarrow> Inl (Panic ''nil pointer dereference'')
      | Some info \<Rightarrow> Inr (cv_Schemas info = []))"

fun need_fix :: "('s, 't) MetaKV \<Rightarrow> wal_codec \<Rightarrow> string \<Rightarrow> PChannelMeta list \<Rightarrow> ('s, (VChannelMeta \<times> i64) list) prog" where
  "need_fix K W basePath [] = prog_return []"
| "need_fix K W basePath (meta # metas) =
     (case pm_Channel meta of
        None \<Rightarrow> prog_fail (Panic ''nil pointer dereference'')
      | Some pchannel \<Rightarrow>
          prog_bind (ListWALRecoveryStorage K W basePath pchannel) (\<lambda>storage.
          prog_bind (prog_lift (res_filter_map (\<lambda>vc. res_bind (schema_lost vc) (\<lambda>lost.
            Inr (if lost then Some (vc, cv_CollectionId (the (vm_CollectionInfo vc))) else None))) (rs_VChannels storage))) (\<lambda>found.
          prog_bind (need_fix K W basePath metas) (\<lambda>rest. prog_return (found @ rest)))))"

definition rebuilt_schema :: "CollectionModel \<Rightarrow> CollectionSchemaOfVChannel result" where
  "rebuilt_schema coll =
     (case coll_Schema (cm_proto coll) of
        None \<Rightarrow> Inl (Panic ''nil pointer dereference'')
      | Some sch \<Rightarrow> Inr \<lparr>cs_Schema = sch, cs_Functions = cm_Functions coll, cs_CheckpointTimeTick = 0\<rparr>)"

text \<open>Later collections with the same id win in the map of collections.\<close>

definition collection_of :: "CollectionModel list \<Rightarrow> i64 \<Rightarrow> CollectionModel option" where
  "collection_of colls i = find (\<lambda>c. coll_ID (cm_proto c) = i) (rev colls)"

definition fix_vchannel :: "('s, 't) MetaKV \<Rightarrow> wal_codec \<Rightarrow> (string \<Rightarrow> string) \<Rightarrow> (CollectionSchemaOfVChannel \<Rightarrow> string result) \<Rightarrow> string \<Rightarrow>
    bool \<Rightarrow> CollectionModel list \<Rightarrow> VChannelMeta \<times> i64 \<Rightarrow> ('s, unit) prog" where
  "fix_vchannel K W phys toJSON basePath run colls target =
     (case target of (vc, i) \<Rightarrow>
        case collection_of colls i of
          None \<Rightarrow> prog_fail (Failure ''collection not found'')
        | Some coll \<Rightarrow>
            prog_bind (prog_lift (rebuilt_schema coll)) (\<lambda>schema.
              if \<not> run then prog_bind (prog_lift (toJSON schema)) (\<lambda>_. prog_return ())
              else SaveSchemaForVChannel K W phys basePath vc schema))"

definition WALRecoveryStorageCommand :: "('s, 't) MetaKV \<Rightarrow> collection_codec \<Rightarrow> wal_codec \<Rightarrow> (string \<Rightarrow> string) \<Rightarrow>
    (CollectionSchemaOfVChannel \<Rightarrow> string result) \<Rightarrow> string \<Rightarrow> bool \<Rightarrow> ('s, unit) prog" where
  "WALRecoveryStorageCommand K M W phys toJSON basePath run =
     prog_bind (ListWALDistribution K (un_pchannel W) basePath []) (\<lambda>metas.
     prog_bind (need_fix K W basePath metas) (\<lambda>targets.
       if targets = [] then prog_return ()
       else prog_bind (ListCollections K M basePath [\<lambda>c. coll_ID (cm_proto c) \<in> set (map snd targets)]) (\<lambda>colls.
         if list_ex (\<lambda>(vc, i). collection_of colls i = None) targets then prog_fail (Failure ''collection not found'')
         else prog_for targets (fix_vchannel K W phys toJSON basePath run colls))))"

section \<open>Channels of a rebuilt collection\<close>

lemma cut_last_append: "c \<notin> set t \<Longrightarrow> cut_last c (s @ c # t) = Some (s, t)"
proof -
  assume c: "c \<notin> set t"
  then have "\<And>x. x \<in> set (rev t) \<Longrightarrow> x \<noteq> c" by auto
  then have "takeWhile (\<lambda>x. x \<noteq> c) (rev (s @ c # t)) = rev t" "dropWhile (\<lambda>x. x \<noteq> c) (rev (s @ c # t)) = c # rev s"
    by (simp_all add: takeWhile_append dropWhile_append)
  then show ?thesis by (simp add: cut_last_def)
qed

lemma ParseEntity_format:
  assumes "- (2 ^ 63) \<le> e" "e < 2 ^ 63" "- (2 ^ 63) \<le> v" "v < 2 ^ 63"
  shows "ParseEntity (p @ ''_'' @ format_int e @ ''v'' @ format_int v) = Inr (p, e, v)"
proof -
  have no: "CHR ''v'' \<notin> set (format_int i)" "CHR ''_'' \<notin> set (format_int i)" for i
    using format_int_chars [of "CHR ''v''" i] format_int_chars [of "CHR ''_''" i] by (auto simp: is_digit_def)
  have "cut_last (CHR ''_'') (p @ CHR ''_'' # format_int e @ ''v'' @ format_int v) = Some (p, format_int e @ ''v'' @ format_int v)"
    using no(2) by (intro cut_last_append) simp
  moreover have "cut_last (CHR ''v'') (format_int e @ CHR ''v'' # format_int v) = Some (format_int e, format_int v)"
    using no(1) by (intro cut_last_append)
  ultimately show ?thesis
    using ParseInt_format_int [of 64 e] ParseInt_format_int [of 64 v] assms by (simp add: ParseEntity_def)
qed

definition put_slot :: "(MsgPosition \<Rightarrow> string) \<Rightarrow> (MsgPosition \<Rightarrow> int) \<Rightarrow> MsgPosition \<Rightarrow> (string \<times> MsgPosition) option list \<Rightarrow>
    (string \<times> MsgPosition) option list" where
  "put_slot phys ver cp slots = slots[nat (ver cp) := Some (phys cp, cp)]"

lemma put_slots:
  assumes "\<forall>cp \<in> set cps. 0 \<le> ver cp \<and> ver cp < int (length slots)"
  shows "length (fold (put_slot phys ver) cps slots) = length slots"
    and "i < length slots \<Longrightarrow> fold (put_slot phys ver) cps slots ! i =
      (case find (\<lambda>cp. nat (ver cp) = i) (rev cps) of None \<Rightarrow> slots ! i | Some cp \<Rightarrow> Some (phys cp, cp))"
proof -
  show len: "length (fold (put_slot phys ver) cps slots) = length slots" for cps
    by (induction cps arbitrary: slots) (simp_all add: put_slot_def)
  show "i < length slots \<Longrightarrow> fold (put_slot phys ver) cps slots ! i =
      (case find (\<lambda>cp. nat (ver cp) = i) (rev cps) of None \<Rightarrow> slots ! i | Some cp \<Rightarrow> Some (phys cp, cp))"
    using len by (induction cps rule: rev_induct) (auto simp: put_slot_def nth_list_update)
qed

lemma channel_slots_fold:
  assumes "\<forall>cp \<in> set cps. ParseEntity (pos_ChannelName cp) = Inr (phys cp, ent cp, ver cp)"
  shows "res_fold (\<lambda>cp channels.
       res_bind (ParseEntity (pos_ChannelName cp)) (\<lambda>(pchannel, _, version).
         if 0 \<le> version \<and> version < int (length channels) then Inr (channels[nat version := Some (pchannel, cp)])
         else Inl (Panic ''index out of range''))) cps slots =
    (if \<forall>cp \<in> set cps. 0 \<le> ver cp \<and> ver cp < int (length slots) then Inr (fold (put_slot phys ver) cps slots)
     else Inl (Panic ''index out of range''))"
  using assms by (induction cps arbitrary: slots) (auto simp: put_slot_def)

lemma slot_positions:
  "res_map slot_position slots = (if None \<in> set slots then Inl (Panic ''nil pointer dereference'')
    else Inr (map (\<lambda>c. (pos_ChannelName (snd (the c)), pos_MsgID (snd (the c)))) slots))"
  by (induction slots) (auto simp: slot_position_def split: option.splits)

text \<open>With as many slots as checkpoints, none stays empty exactly when the versions are the numbers from zero.\<close>

lemma versions_fill:
  assumes "\<forall>cp \<in> set cps. 0 \<le> ver cp \<and> ver cp < int (length cps)"
  shows "None \<notin> set (fold (put_slot phys ver) cps (replicate (length cps) None)) \<longleftrightarrow> ver ` set cps = {0..<int (length cps)}"
proof -
  let ?n = "length cps" and ?slots = "fold (put_slot phys ver) cps (replicate (length cps) None)"
  have len: "length ?slots = ?n" using put_slots(1) [of cps ver "replicate ?n None"] assms by simp
  have at: "?slots ! i = None \<longleftrightarrow> int i \<notin> ver ` set cps" if "i < ?n" for i
  proof -
    have "?slots ! i = None \<longleftrightarrow> find (\<lambda>cp. nat (ver cp) = i) (rev cps) = None"
      using put_slots(2) [of cps ver "replicate ?n None" i phys] assms that by (auto split: option.splits)
    also have "\<dots> \<longleftrightarrow> (\<forall>cp \<in> set cps. int i \<noteq> ver cp)" using assms by (force simp: find_None_iff)
    finally show ?thesis by (simp add: image_iff)
  qed
  show ?thesis
  proof
    assume "None \<notin> set ?slots"
    then have all: "int i \<in> ver ` set cps" if "i < ?n" for i using at [OF that] len that by (metis nth_mem)
    show "ver ` set cps = {0..<int ?n}"
    proof
      show "{0..<int ?n} \<subseteq> ver ` set cps"
      proof
        fix x assume "x \<in> {0..<int ?n}"
        then show "x \<in> ver ` set cps" using all [of "nat x"] by (simp add: nat_less_iff)
      qed
    qed (use assms in auto)
  next
    assume eq: "ver ` set cps = {0..<int ?n}"
    show "None \<notin> set ?slots"
    proof
      assume "None \<in> set ?slots"
      then obtain i where "i < ?n" "?slots ! i = None" by (metis in_set_conv_nth len)
      then show False using at eq by simp
    qed
  qed
qed

lemma versions_inj:
  assumes "ver ` set cps = {0..<int (length cps)}"
  shows "inj_on ver (set cps) \<and> distinct cps"
proof -
  have "card (ver ` set cps) = length cps" using assms by simp
  moreover have "card (ver ` set cps) \<le> card (set cps)" "card (set cps) \<le> length cps" by (simp_all add: card_image_le card_length)
  ultimately have "card (ver ` set cps) = card (set cps)" "card (set cps) = length cps" by linarith+
  then show ?thesis by (simp add: eq_card_imp_inj_on card_distinct)
qed

text \<open>
  A collection that is rebuilt from \<open>n\<close> checkpoints, whose channels are named \<open>pchannel_idv<version>\<close>, gets its channels in the order of their versions:
  if the versions are just the numbers below \<open>n\<close>, the message has \<open>n\<close> shards, and channel, physical channel and start position of
  every checkpoint stand at its version. In every other case the command ends with a panic, and nothing is written.
\<close>

theorem rebuilt_channels_in_order:
  assumes "\<forall>cp \<in> set cps. pos_ChannelName cp = phys cp @ ''_'' @ format_int (ent cp) @ ''v'' @ format_int (ver cp)"
    and "\<forall>cp \<in> set cps. \<bar>ent cp\<bar> < 2 ^ 63 \<and> \<bar>ver cp\<bar> < 2 ^ 63"
  shows "case res_bind (channel_slots cps) (collection_message info db dyn) of
      Inl e \<Rightarrow> ver ` set cps \<noteq> {0..<int (length cps)} \<and> (\<exists>msg. e = Panic msg)
    | Inr m \<Rightarrow> ver ` set cps = {0..<int (length cps)} \<and> rp_ShardsNum m = of_nat (length cps) \<and>
        length (rp_VirtualChannelNames m) = length cps \<and> length (rp_PhysicalChannelNames m) = length cps \<and>
        length (rp_StartPositions m) = length cps \<and>
        (\<forall>cp \<in> set cps. rp_VirtualChannelNames m ! nat (ver cp) = pos_ChannelName cp \<and>
           rp_PhysicalChannelNames m ! nat (ver cp) = phys cp \<and> rp_StartPositions m ! nat (ver cp) = (pos_ChannelName cp, pos_MsgID cp))"
proof -
  let ?n = "length cps" and ?ok = "\<forall>cp \<in> set cps. 0 \<le> ver cp \<and> ver cp < int (length cps)"
  let ?slots = "fold (put_slot phys ver) cps (replicate (length cps) None)"
  have "\<forall>cp \<in> set cps. ParseEntity (pos_ChannelName cp) = Inr (phys cp, ent cp, ver cp)"
  proof
    fix cp assume cp: "cp \<in> set cps"
    then have "- (2 ^ 63) \<le> ent cp" "ent cp < 2 ^ 63" "- (2 ^ 63) \<le> ver cp" "ver cp < 2 ^ 63" using assms(2) by force+
    from ParseEntity_format [OF this] show "ParseEntity (pos_ChannelName cp) = Inr (phys cp, ent cp, ver cp)"
      using assms(1) cp by simp
  qed
  note slots = channel_slots_fold [OF this, of "replicate ?n None", folded channel_slots_def, simplified length_replicate]
  show ?thesis
  proof (cases "?ok \<and> None \<notin> set ?slots")
    case False
    have neq: "ver ` set cps \<noteq> {0..<int ?n}"
    proof
      assume eq: "ver ` set cps = {0..<int ?n}"
      then have ok: ?ok by (metis atLeastLessThan_iff imageI)
      with versions_fill [OF ok] eq False show False by blast
    qed
    have "\<exists>msg. res_bind (channel_slots cps) (collection_message info db dyn) = Inl (Panic msg)"
      using False unfolding slots by (auto simp: collection_message_def slot_positions)
    then obtain msg where "res_bind (channel_slots cps) (collection_message info db dyn) = Inl (Panic msg)" ..
    with neq show ?thesis by simp
  next
    case True
    then have vs: "ver ` set cps = {0..<int ?n}" using versions_fill [of cps ver phys] by blast
    have len: "length ?slots = ?n" using put_slots(1) [of cps ver "replicate ?n None"] True by simp
    have "?slots ! nat (ver cp) = Some (phys cp, cp)" if cp: "cp \<in> set cps" for cp
    proof -
      have "c = cp" if "find (\<lambda>c. nat (ver c) = nat (ver cp)) (rev cps) = Some c" for c
      proof -
        have c: "c \<in> set cps" "nat (ver c) = nat (ver cp)"
          using that nth_mem [of _ "rev cps"] by (auto simp: find_Some_iff simp del: nth_mem)
        then have "ver c = ver cp" using True cp by (metis eq_nat_nat_iff)
        then show ?thesis using versions_inj [OF vs] c(1) cp by (auto dest: inj_onD)
      qed
      moreover have "find (\<lambda>c. nat (ver c) = nat (ver cp)) (rev cps) \<noteq> None" using cp by (auto simp: find_None_iff)
      ultimately show ?thesis using put_slots(2) [of cps ver "replicate ?n None" "nat (ver cp)" phys] True cp by auto
    qed
    then show ?thesis using True vs len unfolding slots by (auto simp: collection_message_def slot_positions nat_less_iff)
  qed
qed

lemma format_zero: "format_nat 0 = ''0''"
  by code_simp

theorem rebuilt_channels_in_order_witness:
  "\<exists>m. res_bind (channel_slots [\<lparr>pos_ChannelName = ''p1_7v1'', pos_MsgID = [1], pos_Timestamp = 0\<rparr>, \<lparr>pos_ChannelName = ''p0_7v0'', pos_MsgID = [2], pos_Timestamp = 0\<rparr>])
      (collection_message \<lparr>im_CollectionID = 7, im_DbName = ''d'', im_CollectionName = ''c'', im_ConsitencyLevel = 2\<rparr> \<lparr>db_Id = 1, db_Name = ''d''\<rparr> False) = Inr m \<and>
    rp_VirtualChannelNames m ! 0 = ''p0_7v0'' \<and> rp_PhysicalChannelNames m ! 1 = ''p1''"
proof -
  let ?a = "\<lparr>pos_ChannelName = ''p1_7v1'', pos_MsgID = [1], pos_Timestamp = 0\<rparr>"
  let ?b = "\<lparr>pos_ChannelName = ''p0_7v0'', pos_MsgID = [2], pos_Timestamp = 0\<rparr>"
  let ?phys = "\<lambda>cp. take 2 (pos_ChannelName cp)" and ?ver = "\<lambda>cp. if cp = ?a then 1 else 0"
  let ?r = "res_bind (channel_slots [?a, ?b]) (collection_message \<lparr>im_CollectionID = 7, im_DbName = ''d'', im_CollectionName = ''c'', im_ConsitencyLevel = 2\<rparr>
    \<lparr>db_Id = 1, db_Name = ''d''\<rparr> False)"
  have names: "\<forall>cp \<in> set [?a, ?b]. pos_ChannelName cp = ?phys cp @ ''_'' @ format_int 7 @ ''v'' @ format_int (?ver cp)"
    by (simp add: format_int_def format_zero)
  have vs: "?ver ` set [?a, ?b] = {0..<int (length [?a, ?b])}" by auto
  note main = rebuilt_channels_in_order [OF names, of \<open>\<lparr>im_CollectionID = 7, im_DbName = ''d'', im_CollectionName = ''c'', im_ConsitencyLevel = 2\<rparr>\<close>
    \<open>\<lparr>db_Id = 1, db_Name = ''d''\<rparr>\<close> False]
  from main vs obtain m where "?r = Inr m" by (cases ?r) auto
  with main show ?thesis by simp
qed

section \<open>Lost schemas come back\<close>

lemma clean_parts_mid_empty: "clean_parts r st (xs @ [] # ys) = clean_parts r st (xs @ ys)"
  by (induction r st xs rule: clean_parts.induct) (auto split: list.splits)

lemma path_Join_inner_slash:
  assumes "plain_path a" and "plain_path p" and "\<forall>q \<in> set qs. plain_path q"
  shows "path_Join (a # (p @ ''/'') # qs) = join_with slash (a # p # qs)"
proof -
  let ?ps = "a # (p @ ''/'') # qs"
  have a: "a \<noteq> []" using assms(1) by (rule plain_path_not_Nil)
  have s: "split_on slash (join_with slash ?ps) = split_on slash a @ split_on slash p @ [] # concat (map (split_on slash) qs)"
    using split_join_concat [of ?ps slash] split_snoc_delim [of slash p] by simp
  have "clean_parts r st (split_on slash (join_with slash ?ps)) = clean_parts r st (split_on slash (join_with slash (a # p # qs)))" for r st
    using clean_parts_mid_empty [of r st "split_on slash a @ split_on slash p" "concat (map (split_on slash) qs)"]
      split_join_concat [of "a # p # qs" slash] unfolding s by (simp del: join_with.simps)
  moreover have "hd (join_with slash ?ps) = hd (join_with slash (a # p # qs))" using a by (cases qs) auto
  moreover have "join_with slash ?ps \<noteq> []" "join_with slash (a # p # qs) \<noteq> []" using a by auto
  ultimately have "path_Clean (join_with slash ?ps) = path_Clean (join_with slash (a # p # qs))" by (simp add: path_Clean_def)
  moreover have "plain_path (join_with slash (a # p # qs))" using assms by (intro plain_path_join) auto
  ultimately show ?thesis using a path_Clean_plain by (simp add: path_Join_def)
qed

definition schema_key :: "(string \<Rightarrow> string) \<Rightarrow> string \<Rightarrow> string \<Rightarrow> string" where
  "schema_key phys base vchannel = base @ ''/streamingnode-meta/wal/'' @ phys vchannel @ ''/vchannel/'' @ vchannel @ ''/schema''"

lemma schema_dir_plain:
  assumes "plain_path base" and "plain_path vchannel" and "plain_path (phys vchannel)"
  shows "path_Join (schema_dir phys base vchannel) = schema_key phys base vchannel"
    and "path_Join (schema_dir phys base vchannel @ [format_nat n]) = schema_key phys base vchannel @ ''/'' @ format_nat n"
    and "plain_path (schema_key phys base vchannel)" and "plain_path (schema_key phys base vchannel @ ''/'' @ format_nat n)"
proof -
  have w: "plain_path ''streamingnode-meta/wal''" "plain_path ''vchannel''" "plain_path ''schema''"
    by (simp_all add: plain_path_def plain_part_def)
  have "is_digit c \<Longrightarrow> c \<noteq> slash \<and> c \<noteq> CHR ''.''" for c by (auto simp: is_digit_def)
  then have n: "plain_path (format_nat n)" using format_nat_digits [of n]
    by (intro plain_pathI) (fastforce simp: plain_part_def list_all_iff)
  show "path_Join (schema_dir phys base vchannel) = schema_key phys base vchannel"
    using path_Join_inner_slash [OF assms(1) w(1), of "[phys vchannel, ''vchannel'', vchannel, ''schema'']"] assms w
    by (simp add: schema_dir_def schema_key_def)
  show "path_Join (schema_dir phys base vchannel @ [format_nat n]) = schema_key phys base vchannel @ ''/'' @ format_nat n"
    using path_Join_inner_slash [OF assms(1) w(1), of "[phys vchannel, ''vchannel'', vchannel, ''schema'', format_nat n]"] assms w n
    by (simp add: schema_dir_def schema_key_def)
  show key: "plain_path (schema_key phys base vchannel)"
    using plain_path_join [of "[base, ''streamingnode-meta/wal'', phys vchannel, ''vchannel'', vchannel, ''schema'']"] assms w
    by (simp add: schema_key_def)
  show "plain_path (schema_key phys base vchannel @ ''/'' @ format_nat n)" using key n by simp
qed

text \<open>The entry of a channel of a collection, rebuilt from it.\<close>

definition rebuilt_entry :: "wal_codec \<Rightarrow> CollectionModel list \<Rightarrow> i64 \<Rightarrow> string \<Rightarrow> bool" where
  "rebuilt_entry W colls i bs \<longleftrightarrow>
     (\<exists>coll sch. collection_of colls i = Some coll \<and> rebuilt_schema coll = Inr sch \<and> marshal_schema W sch = Inr bs)"

context meta_kv
begin

text \<open>A schema is only written where no entry of the channel has one.\<close>

lemma SaveSchema_adds:
  assumes "plain_path base" and "plain_path (vm_Vchannel vc)" and "plain_path (phys (vm_Vchannel vc))"
    and "SaveSchemaForVChannel K W phys base vc schema s = Some (Inr (), s')"
  shows "\<exists>bs. marshal_schema W schema = Inr bs \<and>
    (\<forall>k. prefix (schema_key phys base (vm_Vchannel vc)) k \<longrightarrow> view s k = None) \<and>
    view s' = (view s)(schema_key phys base (vm_Vchannel vc) @ ''/'' @ format_nat (unat (cs_CheckpointTimeTick schema)) \<mapsto> bs)"
proof -
  let ?dir = "schema_key phys base (vm_Vchannel vc)" and ?n = "format_nat (unat (cs_CheckpointTimeTick schema))"
  note paths = schema_dir_plain [OF assms(1,2), of phys, OF assms(3)]
  from assms(4) obtain vs bs where load: "kv_LoadWithPrefix K ?dir s = Some (Inr ([], vs))"
    and bs: "marshal_schema W schema = Inr bs" and save: "kv_Save K (?dir @ ''/'' @ ?n) bs s = (Inr (), s')"
    unfolding SaveSchemaForVChannel_def Let_def paths(1,2) by (auto simp: prog_bind_Inr_iff split: if_splits)
  have ends: "ends_plain (joinPath [[], ?dir])" unfolding joinPath_plain(1) [OF paths(3)] by (simp add: schema_key_def ends_plain_def)
  have "sorted_kvs (view s) (prefix ?dir) = []"
    using LoadWithPrefix [OF load ends] joinPath_plain(1) [OF paths(3)] by simp
  then have "\<forall>k. prefix ?dir k \<longrightarrow> view s k = None"
    using map_of_sorted_kvs [OF view_finite, of s "prefix ?dir"] by (metis map_of.simps(1))
  then show ?thesis using Save [OF save] joinPath_plain(1) [OF paths(4)] bs by simp
qed

lemma fix_vchannel_adds:
  assumes "plain_path base" and "plain_path (vm_Vchannel vc)" and "plain_path (phys (vm_Vchannel vc))"
    and "fix_vchannel K W phys toJSON base True colls (vc, i) s = Some (Inr (), s')"
  shows "\<exists>bs. rebuilt_entry W colls i bs \<and> view s (schema_key phys base (vm_Vchannel vc) @ ''/0'') = None \<and>
    view s' = (view s)(schema_key phys base (vm_Vchannel vc) @ ''/0'' \<mapsto> bs)"
proof -
  from assms(4) obtain coll schema where coll: "collection_of colls i = Some coll" "rebuilt_schema coll = Inr schema"
    and save: "SaveSchemaForVChannel K W phys base vc schema s = Some (Inr (), s')"
    by (auto simp: fix_vchannel_def prog_bind_Inr_iff split: option.splits)
  have "cs_CheckpointTimeTick schema = 0" using coll(2) by (auto simp: rebuilt_schema_def split: option.splits)
  with SaveSchema_adds [OF assms(1-3) save] coll show ?thesis
    by (force simp: rebuilt_entry_def format_zero)
qed

lemma fix_vchannels_add:
  assumes "plain_path base" and "\<forall>(vc, i) \<in> set targets. plain_path (vm_Vchannel vc) \<and> plain_path (phys (vm_Vchannel vc))"
    and "prog_for targets (fix_vchannel K W phys toJSON base True colls) s = Some (Inr (), s')"
  shows "view s \<subseteq>\<^sub>m view s' \<and>
    (\<forall>k \<in> dom (view s') - dom (view s). \<exists>(vc, i) \<in> set targets. k = schema_key phys base (vm_Vchannel vc) @ ''/0'') \<and>
    (\<forall>(vc, i) \<in> set targets. \<exists>bs. rebuilt_entry W colls i bs \<and> view s' (schema_key phys base (vm_Vchannel vc) @ ''/0'') = Some bs)"
  using assms
proof (induction targets arbitrary: s)
  case (Cons target targets)
  obtain vc i where target: "target = (vc, i)" by force
  let ?k = "schema_key phys base (vm_Vchannel vc) @ ''/0''"
  from Cons.prems(3) obtain s1 where s1: "fix_vchannel K W phys toJSON base True colls (vc, i) s = Some (Inr (), s1)"
    and rest: "prog_for targets (fix_vchannel K W phys toJSON base True colls) s1 = Some (Inr (), s')"
    by (auto simp: prog_bind_Inr_iff target)
  obtain bs where bs: "rebuilt_entry W colls i bs" "view s ?k = None" "view s1 = (view s)(?k \<mapsto> bs)"
    using fix_vchannel_adds [OF Cons.prems(1) _ _ s1] Cons.prems(2) by (auto simp: target)
  have IH: "view s1 \<subseteq>\<^sub>m view s'"
    "\<forall>k \<in> dom (view s') - dom (view s1). \<exists>(vc, i) \<in> set targets. k = schema_key phys base (vm_Vchannel vc) @ ''/0''"
    "\<forall>(vc, i) \<in> set targets. \<exists>bs. rebuilt_entry W colls i bs \<and> view s' (schema_key phys base (vm_Vchannel vc) @ ''/0'') = Some bs"
    using Cons.IH [OF Cons.prems(1) _ rest] Cons.prems(2) by auto
  have "view s \<subseteq>\<^sub>m view s1" using bs(2,3) by (auto simp: map_le_def)
  then have "view s \<subseteq>\<^sub>m view s'" using IH(1) by (rule map_le_trans)
  moreover have at: "view s' ?k = Some bs" using IH(1) bs(3) by (auto simp: map_le_def)
  moreover have "\<exists>(vc, i) \<in> set (target # targets). k = schema_key phys base (vm_Vchannel vc) @ ''/0''"
    if "k \<in> dom (view s') - dom (view s)" for k
    using that IH(2) bs(3) by (cases "k = ?k") (auto simp: target)
  ultimately show ?case using IH(3) bs(1) by (auto simp: target)
qed simp

end

lemma attach_vchannel_names:
  "attach_vchannel vc st = Inr st' \<Longrightarrow> map vm_Vchannel (rs_VChannels st') = map vm_Vchannel (rs_VChannels st) @ [vm_Vchannel vc]"
  by (auto simp: attach_vchannel_def Let_def split: option.splits)

lemma recovery_storage_names:
  assumes "recovery_storage W ch es = Inr storage" and "vc \<in> set (rs_VChannels storage)"
  shows "\<exists>v vc'. un_vchannel W v = Inr vc' \<and> vm_Vchannel vc = vm_Vchannel vc'"
proof -
  let ?known = "\<lambda>vc. \<exists>v vc'. un_vchannel W v = Inr vc' \<and> vm_Vchannel vc = vm_Vchannel vc'"
  from assms(1) obtain st where scan: "res_fold (wal_entry W) es empty_scan = Inr st"
    and attach: "res_fold attach_vchannel (ws_vchannels st)
         \<lparr>rs_Channel = ch, rs_Checkpoints = ws_checkpoint st, rs_VChannels = [], rs_Segments = Map.empty,
          rs_RedundantSchemas = ws_schemas st, rs_RedundantSegments = ws_segments st\<rparr> = Inr storage"
    by (auto simp: recovery_storage_def res_bind_Inr_iff)
  have "\<forall>vc \<in> set (ws_vchannels st). ?known vc"
    by (rule res_fold_invariant [OF scan])
      (auto simp: empty_scan_def wal_entry_def Let_def res_bind_Inr_iff split: if_splits prod.splits, blast)
  then have known: "?known vc" if "vc \<in> set (ws_vchannels st)" for vc using that by blast
  have "\<forall>name \<in> set (map vm_Vchannel (rs_VChannels storage)). name \<in> set (map vm_Vchannel (ws_vchannels st))"
    by (rule res_fold_invariant [OF attach]) (auto simp: attach_vchannel_names)
  then show ?thesis using assms(2) known by fastforce
qed

lemma need_fix_names:
  assumes "need_fix K W base metas s = Some (Inr targets, s')" and "(vc, i) \<in> set targets"
  shows "\<exists>v vc'. un_vchannel W v = Inr vc' \<and> vm_Vchannel vc = vm_Vchannel vc'"
  using assms
proof (induction metas arbitrary: s targets)
  case (Cons meta metas)
  from Cons.prems(1) obtain p storage s1 found rest where p: "pm_Channel meta = Some p"
    and storage: "ListWALRecoveryStorage K W base p s = Some (Inr storage, s1)"
    and found: "res_filter_map (\<lambda>vc. res_bind (schema_lost vc) (\<lambda>lost.
        Inr (if lost then Some (vc, cv_CollectionId (the (vm_CollectionInfo vc))) else None))) (rs_VChannels storage) = Inr found"
    and rest: "need_fix K W base metas s1 = Some (Inr rest, s')" and targets: "targets = found @ rest"
    by (auto simp: prog_bind_Inr_iff split: option.splits)
  show ?case
  proof (cases "(vc, i) \<in> set rest")
    case True
    then show ?thesis using Cons.IH [OF rest] by blast
  next
    case False
    then have "(vc, i) \<in> set found" using Cons.prems(2) by (simp add: targets)
    then have "vc \<in> set (rs_VChannels storage)"
      using found by (fastforce simp: res_filter_map_Inr List.map_filter_def schema_lost_def split: option.splits if_splits)
    moreover obtain ch es where "recovery_storage W ch es = Inr storage"
      using storage by (auto simp: ListWALRecoveryStorage_def prog_bind_Inr_iff Let_def split: if_splits)
    ultimately show ?thesis using recovery_storage_names by blast
  qed
qed simp

lemma reads_only_wal [reads_only_intros]:
  "reads_only (ListWALDistribution K un base p)" "reads_only (ListWALRecoveryStorage K W base p)" "reads_only (need_fix K W base metas)"
proof -
  show dist: "reads_only (ListWALDistribution K un base p)" for un p
    unfolding ListWALDistribution_def Let_def by (intro reads_only_intros)
  show storage: "reads_only (ListWALRecoveryStorage K W base p)" for p
    unfolding ListWALRecoveryStorage_def Let_def by (intro reads_only_intros dist)
  show "reads_only (need_fix K W base metas)"
    by (induction metas) (auto intro!: reads_only_intros storage split: option.splits)
qed

text \<open>
  Property C31.
  \<^verbatim>\<open>repair wal-recovery-storage\<close> only adds entries. A dry run leaves the store as it is. When a run returned without an error, no
  entry was changed or removed; the new ones are schemas at time tick zero of virtual channels that had lost theirs; and
  each channel that had lost its schemas has the one of its collection.
\<close>

theorem WALRecovery_adds_schemas:
  assumes "meta_kv K view" and "plain_path base"
    and "\<forall>v vc. un_vchannel W v = Inr vc \<longrightarrow> plain_path (vm_Vchannel vc) \<and> plain_path (phys (vm_Vchannel vc))"
    and "WALRecoveryStorageCommand K M W phys toJSON base run s = Some (Inr (), s')"
  shows "\<exists>metas targets. ListWALDistribution K (un_pchannel W) base [] s = Some (Inr metas, s) \<and>
    need_fix K W base metas s = Some (Inr targets, s) \<and>
    (if \<not> run \<or> targets = [] then s' = s
     else view s \<subseteq>\<^sub>m view s' \<and>
       (\<forall>k \<in> dom (view s') - dom (view s). \<exists>(vc, i) \<in> set targets. k = schema_key phys base (vm_Vchannel vc) @ ''/0'') \<and>
       (\<exists>colls. ListCollections K M base [\<lambda>c. coll_ID (cm_proto c) \<in> set (map snd targets)] s = Some (Inr colls, s) \<and>
         (\<forall>(vc, i) \<in> set targets. \<exists>bs. rebuilt_entry W colls i bs \<and> view s' (schema_key phys base (vm_Vchannel vc) @ ''/0'') = Some bs)))"
proof -
  from assms(4) obtain metas s1 targets s2 where metas: "ListWALDistribution K (un_pchannel W) base [] s = Some (Inr metas, s1)"
    and targets: "need_fix K W base metas s1 = Some (Inr targets, s2)"
    and rest: "(if targets = [] then prog_return ()
       else prog_bind (ListCollections K M base [\<lambda>c. coll_ID (cm_proto c) \<in> set (map snd targets)]) (\<lambda>colls.
         if list_ex (\<lambda>(vc, i). collection_of colls i = None) targets then prog_fail (Failure ''collection not found'')
         else prog_for targets (fix_vchannel K W phys toJSON base run colls))) s2 = Some (Inr (), s')"
    by (auto simp: WALRecoveryStorageCommand_def prog_bind_Inr_iff)
  have s: "s1 = s" "s2 = s" using reads_onlyD [OF reads_only_wal(1) metas] reads_onlyD [OF reads_only_wal(3) targets] by simp_all
  show ?thesis
  proof (cases "targets = []")
    case True
    then show ?thesis using metas targets rest by (auto simp: s)
  next
    case False
    with rest obtain colls s3 where colls: "ListCollections K M base [\<lambda>c. coll_ID (cm_proto c) \<in> set (map snd targets)] s = Some (Inr colls, s3)"
      and loop: "prog_for targets (fix_vchannel K W phys toJSON base run colls) s3 = Some (Inr (), s')"
      by (auto simp: s prog_bind_Inr_iff split: if_splits)
    have s3: "s3 = s" by (rule reads_onlyD [OF reads_only_collections(1) colls])
    have "s' = s" if "\<not> run"
    proof -
      have "reads_only (prog_for ts (fix_vchannel K W phys toJSON base False colls))" for ts
        by (induction ts) (auto simp: fix_vchannel_def intro!: reads_only_intros split: option.splits prod.splits)
      then show ?thesis using loop that s3 by (auto dest: reads_onlyD)
    qed
    moreover have "\<forall>(vc, i) \<in> set targets. plain_path (vm_Vchannel vc) \<and> plain_path (phys (vm_Vchannel vc))"
      using need_fix_names [OF targets] assms(3) by fastforce
    ultimately show ?thesis
      using meta_kv.fix_vchannels_add [OF assms(1,2), of targets phys W toJSON colls s s'] loop metas targets colls False
      by (cases run) (auto simp: s s3)
  qed
qed

text \<open>A physical channel with one virtual channel of collection 1 that has no schema.\<close>

definition ref_wal :: "(string \<times> string) list" where
  "ref_wal = [(''a/root-coord/collection/1'', ''coll''), (''a/streamingcoord-meta/pchannel/p'', ''pch''),
     (''a/streamingnode-meta/wal/p/vchannel/p_1v0'', ''vc'')]"

definition ref_vchannel :: VChannelMeta where
  "ref_vchannel = \<lparr>vm_Vchannel = ''p_1v0'', vm_CollectionInfo = Some \<lparr>cv_CollectionId = 1, cv_Schemas = []\<rparr>\<rparr>"

definition ref_wal_codec :: wal_codec where
  "ref_wal_codec = \<lparr>un_pchannel = \<lambda>_. Inr \<lparr>pm_Channel = Some ''p''\<rparr>, un_checkpoint = \<lambda>_. Inl EOF, un_segment = \<lambda>_. Inl EOF,
     un_vchannel = \<lambda>_. Inr ref_vchannel, un_schema = \<lambda>_. Inl EOF, marshal_schema = \<lambda>_. Inr ''schema''\<rparr>"

lemma ref_wal_load:
  "kv_LoadWithPrefix (ref_kv :: (_, unit) MetaKV) pre ref_wal =
   Some (Inr (map fst (filter (\<lambda>(k, v). prefix (joinPath [[], pre]) k) ref_wal),
     map snd (filter (\<lambda>(k, v). prefix (joinPath [[], pre]) k) ref_wal)))"
proof -
  have "sorted_wrt (<) (map fst ref_wal)" by (simp add: ref_wal_def less_char_def)
  then have "sorted_kvs (map_of ref_wal) P = filter (\<lambda>(k, v). P k) ref_wal" for P by (rule sorted_kvs_alist)
  then show ?thesis by simp
qed

lemma ref_wal_paths:
  "joinPath [[], path_Join [''a'', ''streamingcoord-meta/pchannel/''] @ ''/''] = ''a/streamingcoord-meta/pchannel/''"
  "joinPath [[], path_Join [''a'', ''streamingcoord-meta/pchannel/'', ''p'']] = ''a/streamingcoord-meta/pchannel/p''"
  "path_Join [''a'', ''streamingnode-meta/wal/'', ''p''] = ''a/streamingnode-meta/wal/p''"
  "joinPath [[], ''a/streamingnode-meta/wal/p/''] = ''a/streamingnode-meta/wal/p/''"
  "split_on slash ''vchannel/p_1v0'' = [''vchannel'', ''p_1v0'']"
  by code_simp+

lemmas ref_wal_simps = ref_wal_load ref_wal_paths ref_mixed_paths prog_bind_def prog_read_def ListObj2Models_def ListProtoObjects_def

lemma ref_distribution:
  "ListWALDistribution (ref_kv :: (_, unit) MetaKV) (un_pchannel ref_wal_codec) ''a'' [] ref_wal = Some (Inr [\<lparr>pm_Channel = Some ''p''\<rparr>], ref_wal)"
  "ListWALDistribution (ref_kv :: (_, unit) MetaKV) (un_pchannel ref_wal_codec) ''a'' ''p'' ref_wal = Some (Inr [\<lparr>pm_Channel = Some ''p''\<rparr>], ref_wal)"
  unfolding ListWALDistribution_def
  by (simp add: ref_wal_simps del: ref_kv_ops, simp add: ref_wal_def ref_wal_codec_def)+

lemma ref_storage:
  "\<exists>st. ListWALRecoveryStorage (ref_kv :: (_, unit) MetaKV) ref_wal_codec ''a'' ''p'' ref_wal = Some (Inr st, ref_wal) \<and> rs_VChannels st = [ref_vchannel]"
proof -
  have "removePrefix [''a/streamingnode-meta/wal/p/vchannel/p_1v0''] ''a/streamingnode-meta/wal/p/'' = [''vchannel/p_1v0'']"
    by (simp add: removePrefix_def TrimPrefix_def)
  then show ?thesis
    unfolding ListWALRecoveryStorage_def Let_def
    by (simp add: ref_distribution ref_wal_simps del: ref_kv_ops)
      (simp add: ref_wal_def recovery_storage_def wal_entry_def ref_wal_paths ref_wal_codec_def empty_scan_def attach_vchannel_def)
qed

lemma ref_need_fix:
  "need_fix (ref_kv :: (_, unit) MetaKV) ref_wal_codec ''a'' [\<lparr>pm_Channel = Some ''p''\<rparr>] ref_wal = Some (Inr [(ref_vchannel, 1)], ref_wal)"
  using ref_storage by (auto simp: prog_bind_def schema_lost_def ref_vchannel_def)

lemma ref_wal_collections:
  "\<exists>coll. ListCollections (ref_kv :: (_, unit) MetaKV) (ref_coll_codec []) ''a'' [\<lambda>c. coll_ID (cm_proto c) \<in> set (map snd [(ref_vchannel, 1)])] ref_wal =
     Some (Inr [coll], ref_wal) \<and> coll_ID (cm_proto coll) = 1 \<and> coll_Schema (cm_proto coll) \<noteq> None"
proof -
  let ?K = "ref_kv :: (_, unit) MetaKV"
  have list: "ListCollectionWithoutFields ?K (ref_coll_codec []) ''a'' [\<lambda>c. coll_ID (cm_proto c) \<in> set (map snd [(ref_vchannel, 1)])] ref_wal =
     Some (Inr [NewCollection (ref_coll []) ''a/root-coord/collection/1''], ref_wal)"
    unfolding ListCollectionWithoutFields_def
    by (simp add: ref_wal_simps del: ref_kv_ops) (simp add: ref_wal_def ref_coll_codec_def NewCollection_def ref_coll_def)
  have flds: "getCollectionFields ?K (ref_coll_codec []) ''a'' 1 ref_wal = Some (Inr [], ref_wal)"
    "getCollectionStructFields ?K (ref_coll_codec []) ''a'' 1 ref_wal = Some (Inr [], ref_wal)"
    "ListCollectionFunctions ?K (ref_coll_codec []) ''a'' 1 ref_wal = Some (Inr [], ref_wal)"
    unfolding getCollectionFields_def getCollectionStructFields_def ListCollectionFunctions_def ref_format
    by (simp add: ref_wal_simps ref_mixed_paths [simplified] del: ref_kv_ops, simp add: ref_wal_def ref_coll_codec_def)+
  show ?thesis
    by (simp add: ListCollections_def prog_bind_def list [simplified] fill_collection_def NewCollection_def ref_coll_def or_empty_def flds Collection_WithFields_def)
qed

lemma ref_save_schema:
  "\<exists>s'. SaveSchemaForVChannel (ref_kv :: (_, unit) MetaKV) ref_wal_codec (\<lambda>_. ''p'') ''a'' ref_vchannel schema ref_wal = Some (Inr (), s')"
proof -
  let ?key = "''a/streamingnode-meta/wal/p/vchannel/p_1v0/schema''"
  have paths: "path_Join (schema_dir (\<lambda>_. ''p'') ''a'' (vm_Vchannel ref_vchannel)) = ?key" "joinPath [[], ?key] = ?key" by code_simp+
  have load: "kv_LoadWithPrefix (ref_kv :: (_, unit) MetaKV) ?key ref_wal = Some (Inr ([], []))"
    unfolding ref_wal_load paths(2) by (simp add: ref_wal_def)
  show ?thesis unfolding SaveSchemaForVChannel_def Let_def paths(1) prog_bind_def prog_read_def load by (simp add: ref_wal_codec_def)
qed

theorem WALRecovery_adds_schemas_witness:
  "\<exists>s'. WALRecoveryStorageCommand (ref_kv :: (_, unit) MetaKV) (ref_coll_codec []) ref_wal_codec (\<lambda>_. ''p'') (\<lambda>_. Inr []) ''a'' True ref_wal = Some (Inr (), s') \<and>
     map_of s' ''a/streamingnode-meta/wal/p/vchannel/p_1v0/schema/0'' = Some ''schema'' \<and> map_of s' ''a/root-coord/collection/1'' = Some ''coll''"
proof -
  let ?K = "ref_kv :: (_, unit) MetaKV"
  have base: "plain_path ''a''" by (simp add: plain_path_def plain_part_def)
  have plain: "\<forall>v vc. un_vchannel ref_wal_codec v = Inr vc \<longrightarrow> plain_path (vm_Vchannel vc) \<and> plain_path ''p''"
    by (auto simp: ref_wal_codec_def ref_vchannel_def plain_path_def plain_part_def)
  obtain coll where coll: "ListCollections ?K (ref_coll_codec []) ''a'' [\<lambda>c. coll_ID (cm_proto c) \<in> set (map snd [(ref_vchannel, 1)])] ref_wal =
     Some (Inr [coll], ref_wal)" "coll_ID (cm_proto coll) = 1" "coll_Schema (cm_proto coll) \<noteq> None"
    using ref_wal_collections by blast
  obtain sch where "coll_Schema (cm_proto coll) = Some sch" using coll(3) by blast
  then have "\<exists>s'. fix_vchannel ?K ref_wal_codec (\<lambda>_. ''p'') (\<lambda>_. Inr []) ''a'' True [coll] (ref_vchannel, 1) ref_wal = Some (Inr (), s')"
    using ref_save_schema by (simp add: fix_vchannel_def collection_of_def coll(2) rebuilt_schema_def prog_bind_def)
  then obtain s' where run: "WALRecoveryStorageCommand ?K (ref_coll_codec []) ref_wal_codec (\<lambda>_. ''p'') (\<lambda>_. Inr []) ''a'' True ref_wal = Some (Inr (), s')"
    by (auto simp: WALRecoveryStorageCommand_def prog_bind_def ref_distribution ref_need_fix coll(1) [simplified] collection_of_def coll(2)
        simp del: need_fix.simps)
  from WALRecovery_adds_schemas [OF ref_kv_meta base plain run] ref_distribution(1) ref_need_fix
  have "map_of ref_wal \<subseteq>\<^sub>m map_of s'" "\<exists>bs colls. rebuilt_entry ref_wal_codec colls 1 bs \<and> map_of s' (schema_key (\<lambda>_. ''p'') ''a'' (vm_Vchannel ref_vchannel) @ ''/0'') = Some bs"
    by fastforce+
  moreover have "map_of ref_wal ''a/root-coord/collection/1'' = Some ''coll''" by (simp add: ref_wal_def)
  ultimately show ?thesis using run
    by (auto simp: map_le_def schema_key_def ref_vchannel_def rebuilt_entry_def ref_wal_codec_def dom_def)
qed

end
