(* ===== verification/Backup_File.thy ===== *)
theory Backup_File
  imports Etcd_Objects
begin

text \<open>
  Writing and reading a backup file (\<^verbatim>\<open>states/etcd_backup.go\<close>, \<open>readFixLengthHeader\<close> of
  \<^verbatim>\<open>states/backup_mock_connect.go\<close>): the buffered writer and reader of package \<open>bufio\<close> with their 4096-byte
  buffers, the parts of a backup, and the functions that read one block of it. The compressed file below
  the writer takes everything; the one below the reader delivers its bytes in chunks of any size. Protobuf,
  JSON, HTTP and gRPC are arguments.
\<close>

section \<open>bufio.Writer\<close>

definition bufio_size :: nat where "bufio_size = 4096"

text \<open>\<open>bw_out\<close> is what the buffered writer has passed on, \<open>bw_buf\<close> what it still holds.\<close>

record Writer =
  bw_out :: bytes
  bw_buf :: bytes

definition NewWriter :: Writer where
  "NewWriter = \<lparr>bw_out = [], bw_buf = []\<rparr>"

definition Writer_Flush :: "Writer \<Rightarrow> Writer" where
  "Writer_Flush w = w\<lparr>bw_out := bw_out w @ bw_buf w, bw_buf := []\<rparr>"

function Writer_Write :: "bytes \<Rightarrow> Writer \<Rightarrow> Writer" where
  "Writer_Write p w =
     (let available = bufio_size - length (bw_buf w)
      in if available < length p then
           if bw_buf w = [] then w\<lparr>bw_out := bw_out w @ p\<rparr>
           else Writer_Write (drop available p)
                  (Writer_Flush (w\<lparr>bw_buf := bw_buf w @ take available p\<rparr>))
         else w\<lparr>bw_buf := bw_buf w @ p\<rparr>)"
  by pat_completeness auto
termination
  by (relation "measure (\<lambda>(p, w). length p + length (bw_buf w))") (auto simp: Writer_Flush_def simp flip: length_greater_0_conv)

declare Writer_Write.simps [simp del]

section \<open>The parts of a backup\<close>

datatype PartType = PartTypeNone | EtcdBackup | MetricsBackup | MetricsDefaultBackup | Configurations | AppMetrics
  | LoadedSegments

record PartHeader =
  PartType_of :: PartType
  PartLen :: i64
  Extra :: bytes

record BackupHeader =
  bh_Version :: i32
  bh_Instance :: string
  bh_Entries :: i64

text \<open>What a backup needs of protobuf, JSON and the nodes it asks for metrics and configurations.\<close>

record backup_env =
  marshal_backup_header :: "BackupHeader \<Rightarrow> bytes result"
  marshal_part :: "PartHeader \<Rightarrow> bytes result"
  marshal_session :: "Session \<Rightarrow> bytes result"
  unmarshal_session :: "string \<Rightarrow> Session result"
  fetchInstanceMetrics :: "Session \<Rightarrow> (bytes \<times> bytes) result"
  dial :: "Session \<Rightarrow> unit result"
  GetMetrics :: "Session \<Rightarrow> bytes result"
  GetConfiguration :: "Session \<Rightarrow> bytes result"

datatype milvusComponent = compAll | compQueryCoord | compRootCoord | compDataCoord | compIndexCoord | compQueryNode
  | compDataNode | compProxy | compMixCoord

fun milvusComponent_String :: "milvusComponent \<Rightarrow> string" where
  "milvusComponent_String compAll = ''ALL''"
| "milvusComponent_String compQueryCoord = ''QUERYCOORD''"
| "milvusComponent_String compRootCoord = ''ROOTCOORD''"
| "milvusComponent_String compDataCoord = ''DATACOORD''"
| "milvusComponent_String compIndexCoord = ''INDEXCOORD''"
| "milvusComponent_String compQueryNode = ''QUERYNODE''"
| "milvusComponent_String compDataNode = ''DATANODE''"
| "milvusComponent_String compProxy = ''PROXY''"
| "milvusComponent_String compMixCoord = ''MIXCOORD''"

definition milvusComponent_Set :: "string \<Rightarrow> milvusComponent result" where
  "milvusComponent_Set v =
     (case find (\<lambda>c. milvusComponent_String c = ToUpper v)
        [compAll, compQueryCoord, compRootCoord, compDataCoord, compIndexCoord, compQueryNode, compMixCoord] of
        Some c \<Rightarrow> Inr c
      | None \<Rightarrow> Inl (Failure ''must be one of ALL, MixCoord, QueryCoord, DataCoord, IndexCoord or RootCoord''))"

definition BackupParam_ParseArgs :: "string list \<Rightarrow> milvusComponent result" where
  "BackupParam_ParseArgs args = (case args of [] \<Rightarrow> milvusComponent_Set ''ALL'' | a # _ \<Rightarrow> milvusComponent_Set a)"

text \<open>One length-prefixed block, through the buffered writer.\<close>

definition write_block :: "bytes \<Rightarrow> Writer \<Rightarrow> Writer" where
  "write_block data w =
     (let w1 = Writer_Write (put_le 8 (of_nat (length data) :: u64)) w
      in if 0 < length data then Writer_Write data w1 else w1)"

definition writeBackupHeader :: "backup_env \<Rightarrow> i32 \<Rightarrow> (Writer, unit) go" where
  "writeBackupHeader E version w =
     (case marshal_backup_header E \<lparr>bh_Version = version, bh_Instance = [], bh_Entries = 0\<rparr> of
        Inl e \<Rightarrow> (Inl e, w)
      | Inr bs \<Rightarrow> (Inr (), Writer_Write bs (Writer_Write (put_le 8 (of_nat (length bs) :: u64)) w)))"

text \<open>
  A part: its header, the blocks of every session that answers, and, deferred, the stopper. The three
  functions differ in the blocks only.
\<close>

definition backup_part :: "backup_env \<Rightarrow> PartType \<Rightarrow> (Session \<Rightarrow> bytes list result) \<Rightarrow> Session list \<Rightarrow> (Writer, unit) go"
  where
  "backup_part E pt blocks sessions w =
     (case marshal_part E \<lparr>PartType_of = pt, PartLen = - 1, Extra = []\<rparr> of
        Inl e \<Rightarrow> (Inl e, w)
      | Inr bs \<Rightarrow>
          (Inr (), write_block [] (fold (\<lambda>session w. case blocks session of Inl _ \<Rightarrow> w | Inr bss \<Rightarrow> fold write_block bss w)
             sessions (write_block bs w))))"

definition metrics_blocks :: "backup_env \<Rightarrow> Session \<Rightarrow> bytes list result" where
  "metrics_blocks E session =
     res_bind (fetchInstanceMetrics E session) (\<lambda>(mbs, dmbs).
     res_bind (marshal_session E session) (\<lambda>bs. Inr [bs, mbs, dmbs]))"

text \<open>The server names for which a client exists.\<close>

definition has_client :: "Session \<Rightarrow> bool" where
  "has_client session \<longleftrightarrow> ToLower (ServerName session) \<in>
     {''rootcoord'', ''datacoord'', ''indexcoord'', ''querycoord'', ''datanode'', ''querynode''}"

definition appMetrics_blocks :: "backup_env \<Rightarrow> Session \<Rightarrow> bytes list result" where
  "appMetrics_blocks E session =
     res_bind (dial E session) (\<lambda>_.
     if \<not> has_client session then Inl (Failure ''continue'')
     else res_bind (GetMetrics E session) (\<lambda>data.
       res_bind (marshal_session E session) (\<lambda>labelBs. Inr [labelBs, data])))"

text \<open>\<open>GetConfiguration\<close> includes the encoding of the response.\<close>

definition configuration_blocks :: "backup_env \<Rightarrow> Session \<Rightarrow> bytes list result" where
  "configuration_blocks E session =
     res_bind (dial E session) (\<lambda>_.
     if \<not> has_client session then Inl (Failure ''continue'')
     else res_bind (GetConfiguration E session) (\<lambda>bs.
       res_bind (marshal_session E session) (\<lambda>labelBs. Inr [labelBs, bs])))"

text \<open>The listing of the sessions comes first; when it fails nothing is written.\<close>

definition with_sessions :: "('s, 't) MetaKV \<Rightarrow> backup_env \<Rightarrow> string \<Rightarrow> (Session list \<Rightarrow> (Writer, unit) go) \<Rightarrow>
    's \<Rightarrow> Writer \<Rightarrow> (unit result \<times> Writer) option" where
  "with_sessions K E basePath m s w =
     (case ListSessions K (unmarshal_session E) basePath s of
        None \<Rightarrow> None
      | Some (Inl e, _) \<Rightarrow> Some (Inl e, w)
      | Some (Inr sessions, _) \<Rightarrow> Some (m sessions w))"

definition backupMetrics :: "('s, 't) MetaKV \<Rightarrow> backup_env \<Rightarrow> string \<Rightarrow> 's \<Rightarrow> Writer \<Rightarrow> (unit result \<times> Writer) option" where
  "backupMetrics K E basePath = with_sessions K E basePath (backup_part E MetricsBackup (metrics_blocks E))"

definition backupAppMetrics :: "('s, 't) MetaKV \<Rightarrow> backup_env \<Rightarrow> string \<Rightarrow> 's \<Rightarrow> Writer \<Rightarrow> (unit result \<times> Writer) option" where
  "backupAppMetrics K E basePath = with_sessions K E basePath (backup_part E AppMetrics (appMetrics_blocks E))"

definition backupConfiguration :: "('s, 't) MetaKV \<Rightarrow> backup_env \<Rightarrow> string \<Rightarrow> 's \<Rightarrow> Writer \<Rightarrow> (unit result \<times> Writer) option"
  where
  "backupConfiguration K E basePath = with_sessions K E basePath (backup_part E Configurations (configuration_blocks E))"

text \<open>
  \<open>BackupKV\<close> through the buffered writer: it flushes twice at the end. When it fails, \<open>partial\<close> is what it
  had written by then; a panic ends the program.
\<close>

definition backupEtcdV2 :: "('s, 't) MetaKV \<Rightarrow> bytes \<Rightarrow> string \<Rightarrow> string \<Rightarrow> nat \<Rightarrow> 's \<Rightarrow> Writer \<Rightarrow>
    (unit result \<times> 's \<times> Writer) option" where
  "backupEtcdV2 K partial base pre batchSize s w =
     (case kv_BackupKV K base pre batchSize s of
        None \<Rightarrow> None
      | Some (Inl e, s') \<Rightarrow> Some (Inl e, s', Writer_Write partial w)
      | Some (Inr bs, s') \<Rightarrow> Some (Inr (), s', Writer_Flush (Writer_Write bs w)))"

text \<open>
  The command; the result of the three last parts is not looked at. What reaches the file is what the
  buffered writer has passed on when the deferred \<open>Close\<close> of the compressor runs.
\<close>

definition after_part :: "(unit result \<times> Writer) option \<Rightarrow> (Writer \<Rightarrow> (unit result \<times> Writer) option) \<Rightarrow>
    (unit result \<times> Writer) option" where
  "after_part r k =
     (case r of
        None \<Rightarrow> None
      | Some (Inl (Panic msg), w) \<Rightarrow> Some (Inl (Panic msg), w)
      | Some (_, w) \<Rightarrow> k w)"

definition BackupCommand :: "('s, 't) MetaKV \<Rightarrow> backup_env \<Rightarrow> bytes \<Rightarrow> string \<Rightarrow> milvusComponent \<Rightarrow> nat \<Rightarrow> 's \<Rightarrow>
    (unit result \<times> Writer) option" where
  "BackupCommand K E partial basePath c batchSize s =
     (case (case c of compAll \<Rightarrow> Some [] | compQueryCoord \<Rightarrow> Some ''queryCoord-'' | _ \<Rightarrow> None) of
        None \<Rightarrow> Some (Inl (Failure ''component not supported for separate backup, use ALL instead''), NewWriter)
      | Some pre \<Rightarrow>
          (case writeBackupHeader E 2 NewWriter of
             (Inl e, w) \<Rightarrow> Some (Inl e, w)
           | (Inr _, w) \<Rightarrow>
               (case backupEtcdV2 K partial basePath pre batchSize s w of
                  None \<Rightarrow> None
                | Some (Inl (Panic msg), _, w1) \<Rightarrow> Some (Inl (Panic msg), w1)
                | Some (_, s1, w1) \<Rightarrow>
                    after_part (backupMetrics K E basePath s1 w1) (\<lambda>w2.
                    after_part (backupConfiguration K E basePath s1 w2) (\<lambda>w3.
                    after_part (backupAppMetrics K E basePath s1 w3) (\<lambda>w4. Some (Inr (), w4)))))))"

section \<open>bufio.Reader\<close>

text \<open>
  \<open>br_src\<close> are the chunks the compressor will deliver, \<open>br_buf\<close> what the reader holds of an earlier one. A
  read of the underlying stream returns at most one chunk.
\<close>

record Reader =
  br_buf :: bytes
  br_src :: "bytes list"

definition src_Read :: "nat \<Rightarrow> bytes list \<Rightarrow> bytes result \<times> bytes list" where
  "src_Read n src =
     (case src of
        [] \<Rightarrow> (Inl EOF, [])
      | chunk # rest \<Rightarrow>
          if length chunk \<le> n then (Inr chunk, rest) else (Inr (take n chunk), drop n chunk # rest))"

definition Reader_Read :: "nat \<Rightarrow> (Reader, bytes) go" where
  "Reader_Read n r =
     (if br_buf r = [] then
        if bufio_size \<le> n then
          (case src_Read n (br_src r) of (res, src) \<Rightarrow> (res, r\<lparr>br_src := src\<rparr>))
        else
          (case src_Read bufio_size (br_src r) of
             (Inl e, src) \<Rightarrow> (Inl e, r\<lparr>br_src := src\<rparr>)
           | (Inr chunk, src) \<Rightarrow> (Inr (take n chunk), r\<lparr>br_src := src, br_buf := drop n chunk\<rparr>))
      else (Inr (take n (br_buf r)), r\<lparr>br_buf := drop n (br_buf r)\<rparr>))"

text \<open>Everything still to come, and a bound on the reads it takes.\<close>

definition br_bytes :: "Reader \<Rightarrow> bytes" where
  "br_bytes r = br_buf r @ concat (br_src r)"

definition br_work :: "Reader \<Rightarrow> nat" where
  "br_work r = length (br_bytes r) + length (br_src r)"

lemma Reader_Read_work:
  assumes "Reader_Read n r = (Inr bs, r')" and "0 < n"
  shows "br_work r' < br_work r"
  using assms
  by (cases "br_src r")
    (auto simp: Reader_Read_def src_Read_def br_work_def br_bytes_def bufio_size_def split: if_splits prod.splits)

text \<open>\<open>io.ReadFull\<close>: \<open>n\<close> bytes are missing, \<open>got\<close> are there.\<close>

function ReadFull_loop :: "nat \<Rightarrow> bytes \<Rightarrow> (Reader, bytes) go" where
  "ReadFull_loop n got r =
     (if n = 0 then (Inr got, r)
      else case Reader_Read n r of
             (Inl e, r') \<Rightarrow> (Inl (if got = [] then e else UnexpectedEOF), r')
           | (Inr bs, r') \<Rightarrow> ReadFull_loop (n - length bs) (got @ bs) r')"
  by pat_completeness auto
termination
  by (relation "measure (\<lambda>(n, got, r). br_work r)") (auto dest: Reader_Read_work [OF sym])

declare ReadFull_loop.simps [simp del]

definition io_ReadFull :: "nat \<Rightarrow> (Reader, bytes) go" where
  "io_ReadFull n = ReadFull_loop n []"

text \<open>\<open>make([]byte, n)\<close> panics when the length is beyond the address space.\<close>

definition max_alloc :: nat where "max_alloc = 2 ^ 48"

definition make_bytes :: "u64 \<Rightarrow> unit result" where
  "make_bytes n = (if max_alloc < unat n then Inl (Panic ''makeslice: len out of range'') else Inr ())"

definition readBackupBytes :: "(Reader, bytes \<times> u64) go" where
  "readBackupBytes =
     go_bind (io_ReadFull 8) (\<lambda>lb.
       let nextBytes = get_le lb :: u64
       in go_bind (go_lift (make_bytes nextBytes)) (\<lambda>_.
          go_bind (io_ReadFull (unat nextBytes)) (\<lambda>data. go_return (data, nextBytes))))"

text \<open>One \<open>Read\<close>, not \<open>ReadFull\<close>, for the length.\<close>

definition readFixLengthHeader :: "(bytes \<Rightarrow> 'h result) \<Rightarrow> (Reader, 'h) go" where
  "readFixLengthHeader un r =
     (case Reader_Read 8 r of
        (Inl e, r1) \<Rightarrow> (Inl (Failure ''File does not contains valid header''), r1)
      | (Inr lb, r1) \<Rightarrow>
          if length lb < 8 then (Inl (Failure ''File does not contains valid header''), r1)
          else go_bind (go_lift (make_bytes (get_le lb))) (\<lambda>_.
               go_bind (io_ReadFull (unat (get_le lb :: u64))) (\<lambda>headerBs. go_lift (un headerBs))) r1)"

section \<open>Reading does not depend on the chunks\<close>

lemma take_drop_take: "n \<le> m \<Longrightarrow> take n xs @ drop n (take m xs) @ drop m xs = xs"
proof -
  assume "n \<le> m"
  then have "take n xs @ drop n (take m xs) = take m xs"
    using append_take_drop_id [of n "take m xs"] by simp
  then show ?thesis by (metis append.assoc append_take_drop_id)
qed

lemma Reader_Read_bytes:
  assumes "Reader_Read n r = (res, r')"
  shows "case res of Inl e \<Rightarrow> e = EOF \<and> br_bytes r = [] \<and> br_bytes r' = []
    | Inr bs \<Rightarrow> length bs \<le> n \<and> br_bytes r = bs @ br_bytes r'"
  using assms
  by (cases "br_src r")
    (auto simp: Reader_Read_def src_Read_def br_bytes_def take_drop_take split: if_splits prod.splits)

lemma ReadFull_loop_bytes:
  assumes "ReadFull_loop n got r = (res, r')"
  shows "(if n \<le> length (br_bytes r) then res = Inr (got @ take n (br_bytes r)) \<and> br_bytes r' = drop n (br_bytes r)
    else res = Inl (if got = [] \<and> br_bytes r = [] then EOF else UnexpectedEOF) \<and> br_bytes r' = [])"
  using assms
proof (induction n got r rule: ReadFull_loop.induct)
  case (1 n got r)
  show ?case
  proof (cases "n = 0")
    case True
    with "1.prems" show ?thesis by (simp add: ReadFull_loop.simps [of 0])
  next
    case False
    obtain res1 r1 where rd: "Reader_Read n r = (res1, r1)" by fastforce
    note b = Reader_Read_bytes [OF rd]
    show ?thesis
    proof (cases res1)
      case (Inl e)
      with b rd False "1.prems" show ?thesis by (auto simp: ReadFull_loop.simps [of n] split: if_splits)
    next
      case (Inr bs)
      with rd False "1.prems" have "ReadFull_loop (n - length bs) (got @ bs) r1 = (res, r')"
        by (simp add: ReadFull_loop.simps [of n])
      from "1.IH" [OF False _ Inr this] rd b Inr show ?thesis
        by (auto split: if_splits)
    qed
  qed
qed

text \<open>
  Whatever chunks the file arrives in and whatever is buffered already, \<open>io.ReadFull\<close> behaves as
  one read of the flat sequence of bytes: the same bytes, the same two end-of-file errors, the same rest.
\<close>

theorem ReadFull_chunk_independent:
  "fst (io_ReadFull n r) = fst (read_full n (br_bytes r)) \<and>
   br_bytes (snd (io_ReadFull n r)) = snd (read_full n (br_bytes r))"
  using ReadFull_loop_bytes [of n "[]" r "fst (io_ReadFull n r)" "snd (io_ReadFull n r)"]
  by (auto simp: io_ReadFull_def read_full_def split: if_splits)

section \<open>What reaches the file\<close>

definition stream :: "Writer \<Rightarrow> bytes" where
  "stream w = bw_out w @ bw_buf w"

definition writer_ok :: "Writer \<Rightarrow> bool" where
  "writer_ok w \<longleftrightarrow> length (bw_buf w) \<le> bufio_size"

lemma Writer_Write_props:
  assumes "writer_ok w"
  shows "stream (Writer_Write p w) = stream w @ p \<and> writer_ok (Writer_Write p w) \<and>
    prefix (bw_out w) (bw_out (Writer_Write p w)) \<and>
    (length (bw_buf w) + length p \<le> bufio_size \<longrightarrow> bw_out (Writer_Write p w) = bw_out w) \<and>
    (p \<noteq> [] \<and> length p \<le> bufio_size \<longrightarrow> bw_buf (Writer_Write p w) \<noteq> [])"
  using assms
proof (induction p w rule: Writer_Write.induct)
  case (1 p w)
  let ?n = "bufio_size - length (bw_buf w)"
  show ?case
  proof (cases "?n < length p \<and> bw_buf w \<noteq> []")
    case True
    let ?w = "Writer_Flush (w\<lparr>bw_buf := bw_buf w @ take ?n p\<rparr>)"
    have W: "Writer_Write p w = Writer_Write (drop ?n p) ?w"
      using True by (subst Writer_Write.simps) (simp add: Let_def)
    have w: "stream ?w = stream w @ take ?n p" "writer_ok ?w" "prefix (bw_out w) (bw_out ?w)"
      by (simp_all add: stream_def writer_ok_def Writer_Flush_def)
    have len: "bufio_size < length (bw_buf w) + length p" using True by auto
    have "drop ?n p \<noteq> []" "length p \<le> bufio_size \<longrightarrow> length (drop ?n p) \<le> bufio_size"
      using True by auto
    with "1.IH" [OF refl] True w len show ?thesis
      unfolding W by (auto intro: prefix_order.trans)
  next
    case False
    with "1.prems" show ?thesis
      by (subst (1 2 3 4 5) Writer_Write.simps) (auto simp: Let_def stream_def writer_ok_def)
  qed
qed

lemmas Writer_WriteD = Writer_Write_props [THEN conjunct1]
  Writer_Write_props [THEN conjunct2, THEN conjunct1]
  Writer_Write_props [THEN conjunct2, THEN conjunct2, THEN conjunct1]

text \<open>The writer moves from \<open>w\<close> to \<open>w'\<close> by writes that add \<open>bs\<close>.\<close>

definition wrote :: "bytes \<Rightarrow> Writer \<Rightarrow> Writer \<Rightarrow> bool" where
  "wrote bs w w' \<longleftrightarrow> (writer_ok w \<longrightarrow> writer_ok w' \<and> stream w' = stream w @ bs \<and> prefix (bw_out w) (bw_out w') \<and>
     (length (bw_buf w) + length bs \<le> bufio_size \<longrightarrow> bw_out w' = bw_out w))"

lemma wrote_refl [simp]: "wrote [] w w"
  by (simp add: wrote_def)

lemma wrote_trans: "wrote as w w' \<Longrightarrow> wrote bs w' w'' \<Longrightarrow> wrote (as @ bs) w w''"
  unfolding wrote_def by (auto simp: stream_def intro: prefix_order.trans)

lemma wrote_Write: "wrote p w (Writer_Write p w)"
  using Writer_Write_props [of w p] by (simp add: wrote_def)

lemma wrote_block: "wrote (frame data) w (write_block data w)"
  unfolding frame_def write_block_def Let_def
  using wrote_trans [OF wrote_Write wrote_Write] wrote_Write by (cases "data = []") auto

lemma wrote_blocks: "wrote (concat (map frame bss)) w (fold write_block bss w)"
proof (induction bss arbitrary: w)
  case (Cons bs bss)
  show ?case using wrote_trans [OF wrote_block Cons.IH] by simp
qed simp

definition session_bytes :: "(Session \<Rightarrow> bytes list result) \<Rightarrow> Session \<Rightarrow> bytes" where
  "session_bytes blocks session = (case blocks session of Inl _ \<Rightarrow> [] | Inr bss \<Rightarrow> concat (map frame bss))"

lemma wrote_sessions: "wrote (concat (map (session_bytes blocks) sessions)) w
  (fold (\<lambda>session w. case blocks session of Inl _ \<Rightarrow> w | Inr bss \<Rightarrow> fold write_block bss w) sessions w)"
proof (induction sessions arbitrary: w)
  case (Cons session sessions)
  have "wrote (session_bytes blocks session) w
      (case blocks session of Inl _ \<Rightarrow> w | Inr bss \<Rightarrow> fold write_block bss w)"
    by (simp add: session_bytes_def wrote_blocks split: sum.split)
  from wrote_trans [OF this Cons.IH] show ?case by simp
qed simp

lemma wrote_part:
  assumes "backup_part E pt blocks sessions w = (r, w')"
  shows "\<exists>bs. wrote bs w w'"
  using assms wrote_trans [OF wrote_trans [OF wrote_block wrote_sessions] wrote_block]
  by (auto simp: backup_part_def split: sum.splits intro: wrote_refl) blast

lemma wrote_with_sessions:
  assumes "with_sessions K E basePath (backup_part E pt blocks) s w = Some (r, w')"
  shows "\<exists>bs. wrote bs w w'"
proof (cases "ListSessions K (unmarshal_session E) basePath s")
  case (Some rs)
  obtain r1 s1 where "rs = (r1, s1)" by fastforce
  with Some assms show ?thesis
    by (cases r1) (auto simp: with_sessions_def dest: wrote_part intro: exI [of _ "[]"])
qed (use assms in \<open>simp add: with_sessions_def\<close>)

lemma after_part_InrD: "after_part r k = Some (Inr u, w') \<Longrightarrow> \<exists>r' w. r = Some (r', w) \<and> k w = Some (Inr u, w')"
  by (auto simp: after_part_def split: option.splits sum.splits go_error.splits)

text \<open>The stopper that ends a part leaves bytes in the buffer.\<close>

lemma part_leaves_stopper:
  assumes "with_sessions K E basePath (backup_part E pt blocks) s w = Some (r, w')" and "writer_ok w"
    and "ListSessions K (unmarshal_session E) basePath s = Some (Inr sessions, s1)"
    and "marshal_part E \<lparr>PartType_of = pt, PartLen = - 1, Extra = []\<rparr> = Inr hdr"
  shows "bw_buf w' \<noteq> []"
proof -
  let ?w = "fold (\<lambda>session w. case blocks session of Inl _ \<Rightarrow> w | Inr bss \<Rightarrow> fold write_block bss w) sessions (write_block hdr w)"
  have "w' = Writer_Write (put_le 8 (0 :: u64)) ?w"
    using assms(1,3,4) by (simp add: with_sessions_def backup_part_def write_block_def)
  moreover have "writer_ok ?w"
    using wrote_trans [OF wrote_block [of hdr w] wrote_sessions [of blocks sessions]] assms(2) by (simp add: wrote_def)
  moreover have "put_le 8 (0 :: u64) \<noteq> []" "length (put_le 8 (0 :: u64)) \<le> bufio_size"
    by (simp_all add: bufio_size_def flip: length_greater_0_conv)
  ultimately show ?thesis using Writer_Write_props [of ?w "put_le 8 (0 :: u64)"] by metis
qed

text \<open>
  Property C17. \<open>BackupCommand\<close> reports success although the buffered writer is never flushed after the metrics,
  configuration and application metrics parts: the file holds the header and the whole key-value part, but
  is short of the last bytes written, at least one and at most 4096 of them; when the three parts together
  fit into the buffer, nothing of them is in the file.
\<close>

theorem BackupCommand_loses_tail:
  assumes "BackupCommand K E partial basePath compAll batchSize s = Some (Inr (), w)"
    and "marshal_backup_header E \<lparr>bh_Version = 2, bh_Instance = [], bh_Entries = 0\<rparr> = Inr hdr"
    and "kv_BackupKV K basePath [] batchSize s = Some (Inr bs, s')"
    and "ListSessions K (unmarshal_session E) basePath s' = Some (Inr sessions, s')"
    and "marshal_part E \<lparr>PartType_of = AppMetrics, PartLen = - 1, Extra = []\<rparr> = Inr ph"
  shows "\<exists>parts. stream w = frame hdr @ bs @ parts \<and> prefix (frame hdr @ bs) (bw_out w) \<and>
    0 < length (bw_buf w) \<and> length (bw_buf w) \<le> 4096 \<and>
    (length parts \<le> 4096 \<longrightarrow> bw_out w = frame hdr @ bs)"
proof -
  define w0 where "w0 = Writer_Write hdr (Writer_Write (put_le 8 (of_nat (length hdr) :: u64)) NewWriter)"
  define w1 where "w1 = Writer_Flush (Writer_Write bs w0)"
  have new: "writer_ok NewWriter" "stream NewWriter = []"
    by (simp_all add: writer_ok_def NewWriter_def stream_def)
  have "stream (Writer_Write bs w0) = frame hdr @ bs"
    using new by (simp add: w0_def frame_def Writer_WriteD)
  then have w1: "bw_out w1 = frame hdr @ bs" "bw_buf w1 = []" "writer_ok w1"
    by (simp_all add: w1_def Writer_Flush_def stream_def writer_ok_def)
  have run: "after_part (backupMetrics K E basePath s' w1) (\<lambda>w2.
      after_part (backupConfiguration K E basePath s' w2) (\<lambda>w3.
      after_part (backupAppMetrics K E basePath s' w3) (\<lambda>w4. Some (Inr (), w4)))) = Some (Inr (), w)"
    using assms(1-3) by (simp add: BackupCommand_def writeBackupHeader_def backupEtcdV2_def flip: w0_def w1_def)
  from after_part_InrD [OF run] obtain w2 ra where a: "backupMetrics K E basePath s' w1 = Some (ra, w2)"
    and run2: "after_part (backupConfiguration K E basePath s' w2) (\<lambda>w3.
      after_part (backupAppMetrics K E basePath s' w3) (\<lambda>w4. Some (Inr (), w4))) = Some (Inr (), w)" by blast
  from after_part_InrD [OF run2] obtain w3 rb where b: "backupConfiguration K E basePath s' w2 = Some (rb, w3)"
    and run3: "after_part (backupAppMetrics K E basePath s' w3) (\<lambda>w4. Some (Inr (), w4)) = Some (Inr (), w)" by blast
  from after_part_InrD [OF run3] obtain rc where c: "backupAppMetrics K E basePath s' w3 = Some (rc, w)" by auto
  obtain ba bb bc where parts: "wrote ba w1 w2" "wrote bb w2 w3" "wrote bc w3 w"
    using wrote_with_sessions [OF a [unfolded backupMetrics_def]]
      wrote_with_sessions [OF b [unfolded backupConfiguration_def]]
      wrote_with_sessions [OF c [unfolded backupAppMetrics_def]] by blast
  have "writer_ok w3" using parts(1,2) w1(3) by (simp add: wrote_def)
  then have "bw_buf w \<noteq> []" by (rule part_leaves_stopper [OF c [unfolded backupAppMetrics_def] _ assms(4,5)])
  moreover have "wrote (ba @ bb @ bc) w1 w"
    using wrote_trans [OF wrote_trans [OF parts(1,2)] parts(3)] by simp
  ultimately show ?thesis
    using w1 by (intro exI [of _ "ba @ bb @ bc"]) (auto simp: wrote_def stream_def writer_ok_def bufio_size_def)
qed

theorem BackupCommand_loses_tail_witness:
  "\<exists>w. BackupCommand (ref_kv :: (_, unit) MetaKV) \<lparr>marshal_backup_header = \<lambda>_. Inr [2], marshal_part = \<lambda>_. Inr [5],
      marshal_session = \<lambda>_. Inr [], unmarshal_session = \<lambda>_. Inl EOF, fetchInstanceMetrics = \<lambda>_. Inl EOF,
      dial = \<lambda>_. Inr (), GetMetrics = \<lambda>_. Inl EOF, GetConfiguration = \<lambda>_. Inl EOF\<rparr> [] ''a'' compAll 10 [] = Some (Inr (), w) \<and>
    0 < length (bw_buf w) \<and> length (bw_buf w) \<le> 4096"
proof -
  let ?E = "\<lparr>marshal_backup_header = \<lambda>_. Inr [2], marshal_part = \<lambda>_. Inr [5],
      marshal_session = \<lambda>_. Inr [], unmarshal_session = \<lambda>_. Inl EOF, fetchInstanceMetrics = \<lambda>_. Inl EOF,
      dial = \<lambda>_. Inr (), GetMetrics = \<lambda>_. Inl EOF, GetConfiguration = \<lambda>_. Inl EOF\<rparr>"
  let ?K = "ref_kv :: (_, unit) MetaKV"
  have kv: "\<exists>bs. kv_BackupKV ?K ''a'' [] 10 [] = Some (Inr bs, [])"
    by (simp add: ref_kv_def etcd_MetaKV_def etcdKV_BackupKV_def ref_client_def Let_def backup_paths_def limited_def
        eval_nat_numeral split: prod.split)
  then obtain bs where bs: "kv_BackupKV ?K ''a'' [] 10 [] = Some (Inr bs, [])" by blast
  have ls: "ListSessions ?K (unmarshal_session ?E) ''a'' [] = Some (Inr [], [])"
    by (simp add: ListSessions_def ListSessionsByPrefix_def prog_bind_def prog_read_def)
  have "\<exists>w. BackupCommand ?K ?E [] ''a'' compAll 10 [] = Some (Inr (), w)"
    using bs ls by (simp add: BackupCommand_def writeBackupHeader_def backupEtcdV2_def after_part_def backupMetrics_def
        backupConfiguration_def backupAppMetrics_def with_sessions_def backup_part_def)
  then obtain w where w: "BackupCommand ?K ?E [] ''a'' compAll 10 [] = Some (Inr (), w)" by blast
  from BackupCommand_loses_tail [OF w _ bs ls] w show ?thesis by auto
qed

end
