(* ===== verification/Backup_Restore.thy ===== *)
theory Backup_Restore
  imports Backup_File
begin

text \<open>
  Loading a backup (\<^verbatim>\<open>states/etcd_restore.go\<close>, \<^verbatim>\<open>states/load_backup.go\<close>). Version 1 files are read entry by
  entry. The key-value part of a version 2 file is read by one goroutine that hands batches of ten entries
  to three workers over a bounded channel while the caller waits; the goroutines are a step relation on
  a state with all their local variables, the two channels and the variable \<open>err\<close> they share. Protobuf and
  JSON decoding are arguments.
\<close>

section \<open>Decoding\<close>

record restore_env =
  un_pair :: "bytes \<Rightarrow> (string \<times> string) result"
  un_part :: "bytes \<Rightarrow> PartHeader result"
  un_backup :: "bytes \<Rightarrow> BackupHeader result"
  un_meta :: "bytes \<Rightarrow> (string \<rightharpoonup> string) result"
  un_session :: "bytes \<Rightarrow> Session result"

text \<open>Indexing a Go map with a missing key gives the zero value.\<close>

definition map_get :: "(string \<rightharpoonup> string) \<Rightarrow> string \<Rightarrow> string" where
  "map_get m k = (case m k of None \<Rightarrow> [] | Some v \<Rightarrow> v)"

text \<open>A successful read shortens what is left; it carries the termination of the loops below.\<close>

lemma io_ReadFull_Inr:
  assumes "io_ReadFull n r = (Inr bs, r')"
  shows "length bs = n" and "br_bytes r = bs @ br_bytes r'"
  using ReadFull_loop_bytes [of n "[]" r "Inr bs" r'] assms by (auto simp: io_ReadFull_def split: if_splits)

lemma io_ReadFull_length: "io_ReadFull n r = (Inr bs, r') \<Longrightarrow> length (br_bytes r) = n + length (br_bytes r')"
  using io_ReadFull_Inr [of n r bs r'] by simp

lemma io_ReadFull_le: "io_ReadFull n r = (res, r') \<Longrightarrow> length (br_bytes r') \<le> length (br_bytes r)"
  using ReadFull_loop_bytes [of n "[]" r res r'] by (auto simp: io_ReadFull_def split: if_splits)

section \<open>Version 1\<close>

function restoreFromV1File :: "('s, 't) MetaKV \<Rightarrow> restore_env \<Rightarrow> BackupHeader \<Rightarrow> int \<Rightarrow> Reader \<times> 's \<Rightarrow>
    unit result \<times> Reader \<times> 's" where
  "restoreFromV1File K E header i (r, s) =
     (case io_ReadFull 8 r of
        (Inl e, r1) \<Rightarrow> (if e = EOF then Inr () else Inl e, r1, s)
      | (Inr lb, r1) \<Rightarrow>
          (case make_bytes (get_le lb) of
             Inl e \<Rightarrow> (Inl e, r1, s)
           | Inr _ \<Rightarrow>
               (case io_ReadFull (unat (get_le lb :: u64)) r1 of
                  (Inl e, r2) \<Rightarrow> (Inl e, r2, s)
                | (Inr bs, r2) \<Rightarrow>
                    (case un_pair E bs of
                       Inl _ \<Rightarrow> restoreFromV1File K E header i (r2, s)
                     | Inr (key, data) \<Rightarrow>
                         (case kv_Save K key data s of
                            (Inl e, s1) \<Rightarrow> (Inl e, r2, s1)
                          | (Inr _, s1) \<Rightarrow>
                              if bh_Entries header = 0 then (Inl (Panic ''integer divide by zero''), r2, s1)
                              else restoreFromV1File K E header (i + 1) (r2, s1))))))"
  by pat_completeness auto
termination
  by (relation "measure (\<lambda>(K, E, header, i, r, s). length (br_bytes r))")
    (auto dest!: io_ReadFull_length [OF sym])

declare restoreFromV1File.simps [simp del]

section \<open>The reading goroutine\<close>

text \<open>One round of its loop, up to the entry it decoded.\<close>

datatype read_outcome = Stop "unit result" | Crash go_error | Skip | Entry "string \<times> string"

definition read_entry :: "restore_env \<Rightarrow> Reader \<Rightarrow> read_outcome \<times> Reader" where
  "read_entry E r =
     (case io_ReadFull 8 r of
        (Inl e, r1) \<Rightarrow> (Stop (if e = EOF then Inr () else Inl e), r1)
      | (Inr lb, r1) \<Rightarrow>
          let nextBytes = get_le lb :: u64
          in if nextBytes = 0 then (Stop (Inr ()), r1)
             else (case make_bytes nextBytes of
                     Inl e \<Rightarrow> (Crash e, r1)
                   | Inr _ \<Rightarrow>
                       (case io_ReadFull (unat nextBytes) r1 of
                          (Inl e, r2) \<Rightarrow> (Stop (Inl e), r2)
                        | (Inr bs, r2) \<Rightarrow>
                            (case un_pair E bs of Inl _ \<Rightarrow> (Skip, r2) | Inr kv \<Rightarrow> (Entry kv, r2)))))"

lemma read_entry_length:
  assumes "read_entry E r = (out, r')"
  shows "length (br_bytes r') \<le> length (br_bytes r)"
    and "out = Skip \<or> out = Entry kv \<Longrightarrow> length (br_bytes r') < length (br_bytes r)"
  using assms
  by (auto simp: read_entry_def Let_def split: prod.splits sum.splits if_splits
      dest!: io_ReadFull_le io_ReadFull_length)

section \<open>The goroutines of a restore\<close>

text \<open>
  The reader is at the top of its loop, waits to send a full batch, or has returned and runs its two
  deferred functions, in the reverse order of their registration.
\<close>

datatype producer_pc = P_Read | P_Send | P_Defer | P_Close | P_End

datatype worker_pc = W_Recv | W_Save "(string \<times> string) list" | W_Done

datatype main_pc = M_Recv | M_Wait | M_Ret "string result"

record 's restore =
  rs_rd :: Reader
  rs_batch :: "(string \<times> string) list"
  rs_at :: producer_pc
  rs_ch :: "(string \<times> string) list list"
  rs_closed :: bool
  rs_errCh :: "unit result option"
  rs_workers :: "worker_pc list"
  rs_err :: "unit result"
  rs_main :: main_pc
  rs_store :: 's
  rs_panic :: "go_error option"

definition batchNum :: nat where "batchNum = 10"
definition chan_cap :: nat where "chan_cap = 10"
definition workerNum :: nat where "workerNum = 3"

definition restore_init :: "Reader \<Rightarrow> 's \<Rightarrow> 's restore" where
  "restore_init r s = \<lparr>rs_rd = r, rs_batch = [], rs_at = P_Read, rs_ch = [], rs_closed = False, rs_errCh = None,
     rs_workers = replicate workerNum W_Recv, rs_err = Inr (), rs_main = M_Recv, rs_store = s, rs_panic = None\<rparr>"

text \<open>The progress display divides by the announced number of entries.\<close>

definition progress_panic :: "int \<Rightarrow> go_error option" where
  "progress_panic cnt = (if cnt = 0 then Some (Panic ''integer divide by zero'') else None)"

inductive restore_step :: "('s, 't) MetaKV \<Rightarrow> restore_env \<Rightarrow> int \<Rightarrow> string \<Rightarrow> 's restore \<Rightarrow> 's restore \<Rightarrow> bool"
  for K :: "('s, 't) MetaKV" and E :: restore_env and cnt :: int and inst :: string
  where
  read_stop: "rs_panic \<sigma> = None \<Longrightarrow> rs_at \<sigma> = P_Read \<Longrightarrow> read_entry E (rs_rd \<sigma>) = (Stop res, r) \<Longrightarrow>
    restore_step K E cnt inst \<sigma> (\<sigma>\<lparr>rs_rd := r, rs_errCh := Some res, rs_at := P_Defer\<rparr>)"
| read_crash: "rs_panic \<sigma> = None \<Longrightarrow> rs_at \<sigma> = P_Read \<Longrightarrow> read_entry E (rs_rd \<sigma>) = (Crash e, r) \<Longrightarrow>
    restore_step K E cnt inst \<sigma> (\<sigma>\<lparr>rs_rd := r, rs_panic := Some e\<rparr>)"
| read_skip: "rs_panic \<sigma> = None \<Longrightarrow> rs_at \<sigma> = P_Read \<Longrightarrow> read_entry E (rs_rd \<sigma>) = (Skip, r) \<Longrightarrow>
    restore_step K E cnt inst \<sigma> (\<sigma>\<lparr>rs_rd := r\<rparr>)"
| read_more: "rs_panic \<sigma> = None \<Longrightarrow> rs_at \<sigma> = P_Read \<Longrightarrow> read_entry E (rs_rd \<sigma>) = (Entry kv, r) \<Longrightarrow>
    length (rs_batch \<sigma> @ [kv]) < batchNum \<Longrightarrow>
    restore_step K E cnt inst \<sigma> (\<sigma>\<lparr>rs_rd := r, rs_batch := rs_batch \<sigma> @ [kv], rs_panic := progress_panic cnt\<rparr>)"
| read_full: "rs_panic \<sigma> = None \<Longrightarrow> rs_at \<sigma> = P_Read \<Longrightarrow> read_entry E (rs_rd \<sigma>) = (Entry kv, r) \<Longrightarrow>
    batchNum \<le> length (rs_batch \<sigma> @ [kv]) \<Longrightarrow>
    restore_step K E cnt inst \<sigma> (\<sigma>\<lparr>rs_rd := r, rs_batch := rs_batch \<sigma> @ [kv], rs_at := P_Send\<rparr>)"
| send: "rs_panic \<sigma> = None \<Longrightarrow> rs_at \<sigma> = P_Send \<Longrightarrow> length (rs_ch \<sigma>) < chan_cap \<Longrightarrow>
    restore_step K E cnt inst \<sigma> (\<sigma>\<lparr>rs_ch := rs_ch \<sigma> @ [rs_batch \<sigma>], rs_batch := [], rs_at := P_Read,
      rs_panic := progress_panic cnt\<rparr>)"
| defer_send: "rs_panic \<sigma> = None \<Longrightarrow> rs_at \<sigma> = P_Defer \<Longrightarrow> rs_batch \<sigma> \<noteq> [] \<Longrightarrow> length (rs_ch \<sigma>) < chan_cap \<Longrightarrow>
    restore_step K E cnt inst \<sigma> (\<sigma>\<lparr>rs_ch := rs_ch \<sigma> @ [rs_batch \<sigma>], rs_batch := [], rs_at := P_Close\<rparr>)"
| defer_none: "rs_panic \<sigma> = None \<Longrightarrow> rs_at \<sigma> = P_Defer \<Longrightarrow> rs_batch \<sigma> = [] \<Longrightarrow>
    restore_step K E cnt inst \<sigma> (\<sigma>\<lparr>rs_at := P_Close\<rparr>)"
| close: "rs_panic \<sigma> = None \<Longrightarrow> rs_at \<sigma> = P_Close \<Longrightarrow>
    restore_step K E cnt inst \<sigma> (\<sigma>\<lparr>rs_at := P_End, rs_closed := True\<rparr>)"
| take_batch: "rs_panic \<sigma> = None \<Longrightarrow> j < length (rs_workers \<sigma>) \<Longrightarrow> rs_workers \<sigma> ! j = W_Recv \<Longrightarrow> rs_ch \<sigma> = b # bs \<Longrightarrow>
    restore_step K E cnt inst \<sigma> (\<sigma>\<lparr>rs_ch := bs, rs_workers := (rs_workers \<sigma>)[j := W_Save b]\<rparr>)"
| save_batch: "rs_panic \<sigma> = None \<Longrightarrow> j < length (rs_workers \<sigma>) \<Longrightarrow> rs_workers \<sigma> ! j = W_Save b \<Longrightarrow>
    kv_MultiSave K (map fst b) (map snd b) (rs_store \<sigma>) = (res, s) \<Longrightarrow>
    restore_step K E cnt inst \<sigma> (\<sigma>\<lparr>rs_store := s, rs_err := res, rs_workers := (rs_workers \<sigma>)[j := W_Recv],
      rs_panic := (case res of Inl (Panic msg) \<Rightarrow> Some (Panic msg) | _ \<Rightarrow> None)\<rparr>)"
| leave: "rs_panic \<sigma> = None \<Longrightarrow> j < length (rs_workers \<sigma>) \<Longrightarrow> rs_workers \<sigma> ! j = W_Recv \<Longrightarrow> rs_ch \<sigma> = [] \<Longrightarrow>
    rs_closed \<sigma> \<Longrightarrow> restore_step K E cnt inst \<sigma> (\<sigma>\<lparr>rs_workers := (rs_workers \<sigma>)[j := W_Done]\<rparr>)"
| recv: "rs_panic \<sigma> = None \<Longrightarrow> rs_main \<sigma> = M_Recv \<Longrightarrow> rs_errCh \<sigma> = Some res \<Longrightarrow>
    restore_step K E cnt inst \<sigma> (\<sigma>\<lparr>rs_errCh := None, rs_err := res, rs_main := M_Wait\<rparr>)"
| finish: "rs_panic \<sigma> = None \<Longrightarrow> rs_main \<sigma> = M_Wait \<Longrightarrow> \<forall>w \<in> set (rs_workers \<sigma>). w = W_Done \<Longrightarrow>
    restore_step K E cnt inst \<sigma> (\<sigma>\<lparr>rs_main := M_Ret (case rs_err \<sigma> of Inl e \<Rightarrow> Inl e | Inr _ \<Rightarrow> Inr inst)\<rparr>)"

inductive_cases restore_stepE: "restore_step K E cnt inst \<sigma> \<tau>"

text \<open>What \<open>restoreEtcdFromBackV2\<close> does before it starts the goroutines.\<close>

definition restore_meta :: "restore_env \<Rightarrow> PartHeader \<Rightarrow> (int \<times> string) result" where
  "restore_meta E ph =
     res_bind (un_meta E (Extra ph)) (\<lambda>meta.
     res_bind (ParseInt 64 (map_get meta ''cnt'')) (\<lambda>cnt. Inr (cnt, map_get meta ''instance'')))"

text \<open>A call that returned, or crashed the program.\<close>

inductive restoreEtcdFromBackV2 :: "('s, 't) MetaKV \<Rightarrow> restore_env \<Rightarrow> PartHeader \<Rightarrow> Reader \<times> 's \<Rightarrow>
    string result \<Rightarrow> Reader \<times> 's \<Rightarrow> bool"
  for K :: "('s, 't) MetaKV" and E :: restore_env and ph :: PartHeader where
  bad_meta: "restore_meta E ph = Inl e \<Longrightarrow> restoreEtcdFromBackV2 K E ph (r, s) (Inl e) (r, s)"
| returns: "restore_meta E ph = Inr (cnt, inst) \<Longrightarrow>
    (restore_step K E cnt inst)\<^sup>*\<^sup>* (restore_init r s) \<sigma> \<Longrightarrow> rs_main \<sigma> = M_Ret res \<Longrightarrow>
    restoreEtcdFromBackV2 K E ph (r, s) res (rs_rd \<sigma>, rs_store \<sigma>)"
| crashes: "restore_meta E ph = Inr (cnt, inst) \<Longrightarrow>
    (restore_step K E cnt inst)\<^sup>*\<^sup>* (restore_init r s) \<sigma> \<Longrightarrow> rs_panic \<sigma> = Some e \<Longrightarrow>
    restoreEtcdFromBackV2 K E ph (r, s) (Inl e) (rs_rd \<sigma>, rs_store \<sigma>)"

section \<open>Metrics and the whole file\<close>

function restoreMetrics :: "restore_env \<Rightarrow> (Session \<Rightarrow> bytes \<Rightarrow> bytes \<Rightarrow> 'm \<Rightarrow> 'm) \<Rightarrow> Reader \<times> 'm \<Rightarrow>
    unit result \<times> Reader \<times> 'm" where
  "restoreMetrics E handler (r, m) =
     (case readBackupBytes r of
        (Inl e, r1) \<Rightarrow> (if e = EOF then Inr () else Inl e, r1, m)
      | (Inr (bs, nb), r1) \<Rightarrow>
          if nb = 0 then (Inr (), r1, m)
          else (case un_session E bs of
                  Inl e \<Rightarrow> (Inl e, r1, m)
                | Inr session \<Rightarrow>
                    (case readBackupBytes r1 of
                       (Inl e, r2) \<Rightarrow> (Inl e, r2, m)
                     | (Inr (mbs, _), r2) \<Rightarrow>
                         (case readBackupBytes r2 of
                            (Inl e, r3) \<Rightarrow> (Inl e, r3, m)
                          | (Inr (dmbs, _), r3) \<Rightarrow> restoreMetrics E handler (r3, handler session mbs dmbs m)))))"
  by pat_completeness auto

lemma readBackupBytes_length:
  "readBackupBytes r = (Inr x, r') \<Longrightarrow> length (br_bytes r') < length (br_bytes r)"
  by (auto simp: readBackupBytes_def Let_def go_bind_Inr_iff dest!: io_ReadFull_length)

termination restoreMetrics
  by (relation "measure (\<lambda>(E, handler, r, m). length (br_bytes r))")
    (auto dest!: readBackupBytes_length [OF sym])

text \<open>The state that a backup is loaded into.\<close>

record 's mock_state =
  ms_client :: 's
  ms_instance :: string
  ms_metrics :: "string \<rightharpoonup> bytes"
  ms_defaultMetrics :: "string \<rightharpoonup> bytes"

definition metrics_handler :: "Session \<Rightarrow> bytes \<Rightarrow> bytes \<Rightarrow> 's mock_state \<Rightarrow> 's mock_state" where
  "metrics_handler session metrics defaultMetrics st =
     (let node = ServerName session @ ''-'' @ format_int (sint (ServerID session))
      in st\<lparr>ms_metrics := (ms_metrics st)(node \<mapsto> metrics),
            ms_defaultMetrics := (ms_defaultMetrics st)(node \<mapsto> defaultMetrics)\<rparr>)"

inductive restoreV2File :: "('s, 't) MetaKV \<Rightarrow> restore_env \<Rightarrow> Reader \<times> 's mock_state \<Rightarrow> unit result \<Rightarrow>
    's mock_state \<Rightarrow> bool"
  for K :: "('s, 't) MetaKV" and E :: restore_env where
  header_error: "readFixLengthHeader (un_part E) r = (Inl e, r1) \<Longrightarrow>
    restoreV2File K E (r, st) (case e of Panic msg \<Rightarrow> Inl (Panic msg) | _ \<Rightarrow> Inr ()) st"
| etcd_error: "readFixLengthHeader (un_part E) r = (Inr ph, r1) \<Longrightarrow> PartType_of ph = EtcdBackup \<Longrightarrow>
    restoreEtcdFromBackV2 K E ph (r1, ms_client st) (Inl e) (r2, s) \<Longrightarrow>
    restoreV2File K E (r, st) (Inl e) (st\<lparr>ms_client := s\<rparr>)"
| etcd_part: "readFixLengthHeader (un_part E) r = (Inr ph, r1) \<Longrightarrow> PartType_of ph = EtcdBackup \<Longrightarrow>
    restoreEtcdFromBackV2 K E ph (r1, ms_client st) (Inr inst) (r2, s) \<Longrightarrow>
    restoreV2File K E (r2, st\<lparr>ms_client := s, ms_instance := inst\<rparr>) res st' \<Longrightarrow>
    restoreV2File K E (r, st) res st'"
| metrics_part: "readFixLengthHeader (un_part E) r = (Inr ph, r1) \<Longrightarrow> PartType_of ph = MetricsBackup \<Longrightarrow>
    restoreMetrics E metrics_handler (r1, st) = (mres, r2, st1) \<Longrightarrow> (\<forall>msg. mres \<noteq> Inl (Panic msg)) \<Longrightarrow>
    restoreV2File K E (r2, st1) res st' \<Longrightarrow>
    restoreV2File K E (r, st) res st'"
| metrics_panic: "readFixLengthHeader (un_part E) r = (Inr ph, r1) \<Longrightarrow> PartType_of ph = MetricsBackup \<Longrightarrow>
    restoreMetrics E metrics_handler (r1, st) = (Inl (Panic msg), r2, st1) \<Longrightarrow>
    restoreV2File K E (r, st) (Inl (Panic msg)) st1"
| other_part: "readFixLengthHeader (un_part E) r = (Inr ph, r1) \<Longrightarrow> PartType_of ph \<notin> {EtcdBackup, MetricsBackup} \<Longrightarrow>
    restoreV2File K E (r1, st) res st' \<Longrightarrow>
    restoreV2File K E (r, st) res st'"

text \<open>
  The part of \<open>LoadBackupCommand\<close> between the opened file and the work directory: the result and, when the state is entered, the state.
  An unknown version returns \<open>err\<close>, which is nil there.
\<close>

inductive LoadBackupCommand :: "('s, 't) MetaKV \<Rightarrow> restore_env \<Rightarrow> Reader \<Rightarrow> 's mock_state \<Rightarrow> unit result \<Rightarrow>
    's mock_state option \<Rightarrow> bool"
  for K :: "('s, 't) MetaKV" and E :: restore_env where
  no_header: "readFixLengthHeader (un_backup E) r = (Inl e, r1) \<Longrightarrow> LoadBackupCommand K E r st (Inl e) None"
| version_1: "readFixLengthHeader (un_backup E) r = (Inr header, r1) \<Longrightarrow> bh_Version header = 1 \<Longrightarrow>
    restoreFromV1File K E header 0 (r1, ms_client st) = (Inr (), r2, s) \<Longrightarrow>
    LoadBackupCommand K E r st (Inr ()) (Some (st\<lparr>ms_client := s, ms_instance := bh_Instance header\<rparr>))"
| version_1_error: "readFixLengthHeader (un_backup E) r = (Inr header, r1) \<Longrightarrow> bh_Version header = 1 \<Longrightarrow>
    restoreFromV1File K E header 0 (r1, ms_client st) = (Inl e, r2, s) \<Longrightarrow> LoadBackupCommand K E r st (Inl e) None"
| version_2: "readFixLengthHeader (un_backup E) r = (Inr header, r1) \<Longrightarrow> bh_Version header = 2 \<Longrightarrow>
    restoreV2File K E (r1, st) (Inr ()) st' \<Longrightarrow> LoadBackupCommand K E r st (Inr ()) (Some st')"
| version_2_error: "readFixLengthHeader (un_backup E) r = (Inr header, r1) \<Longrightarrow> bh_Version header = 2 \<Longrightarrow>
    restoreV2File K E (r1, st) (Inl e) st' \<Longrightarrow> LoadBackupCommand K E r st (Inl e) None"
| other_version: "readFixLengthHeader (un_backup E) r = (Inr header, r1) \<Longrightarrow> bh_Version header \<notin> {1, 2} \<Longrightarrow>
    LoadBackupCommand K E r st (Inr ()) None"

section \<open>A store that takes batches\<close>

locale bulk_kv = meta_kv +
  assumes MultiSave: "kv_MultiSave K ks vs s = (Inr (), s') \<Longrightarrow> length vs = length ks \<Longrightarrow> distinct ks \<Longrightarrow>
    view s' = view s ++ map_of (zip ks vs)"
begin

lemma MultiSave_pairs:
  "kv_MultiSave K (map fst b) (map snd b) s = (Inr (), s') \<Longrightarrow> distinct (map fst b) \<Longrightarrow> view s' = view s ++ map_of b"
  using MultiSave [of "map fst b" "map snd b" s s'] by (simp add: zip_map_fst_snd)

end

sublocale etcd_server \<subseteq> etcd_bulk: bulk_kv "etcd_MetaKV C rangeEnd B fuel" store for rangeEnd B fuel
proof
  show "store s' = store s ++ map_of (zip ks vs)"
    if "kv_MultiSave (etcd_MetaKV C rangeEnd B fuel) ks vs s = (Inr (), s')" "length vs = length ks" "distinct ks"
    for ks vs s s'
    using that Txn_ok [of "zip ks vs" s s'] by (simp add: etcd_MetaKV_def etcdKV_MultiSave_def)
qed

text \<open>No batch of different keys is turned down.\<close>

definition saves_all :: "('s, 't) MetaKV \<Rightarrow> bool" where
  "saves_all K \<longleftrightarrow> (\<forall>b s. distinct (map fst b) \<longrightarrow> (\<exists>s'. kv_MultiSave K (map fst b) (map snd b) s = (Inr (), s')))"

section \<open>The entries of a part\<close>

text \<open>The reference: the entries of the part read one after the other, how reading ended, and the rest.\<close>

function read_all :: "restore_env \<Rightarrow> Reader \<Rightarrow> (string \<times> string) list \<times> unit result result \<times> Reader" where
  "read_all E r =
     (case read_entry E r of
        (Stop res, r1) \<Rightarrow> ([], Inr res, r1)
      | (Crash e, r1) \<Rightarrow> ([], Inl e, r1)
      | (Skip, r1) \<Rightarrow> read_all E r1
      | (Entry kv, r1) \<Rightarrow> (case read_all E r1 of (kvs, res) \<Rightarrow> (kv # kvs, res)))"
  by pat_completeness auto
termination
  by (relation "measure (\<lambda>(E, r). length (br_bytes r))") (auto dest: read_entry_length(2) [OF sym])

declare read_all.simps [simp del]

lemma read_all_step:
  "read_entry E r = (Stop res, r1) \<Longrightarrow> read_all E r = ([], Inr res, r1)"
  "read_entry E r = (Crash e, r1) \<Longrightarrow> read_all E r = ([], Inl e, r1)"
  "read_entry E r = (Skip, r1) \<Longrightarrow> read_all E r = read_all E r1"
  "read_entry E r = (Entry kv, r1) \<Longrightarrow> read_all E r = (kv # fst (read_all E r1), snd (read_all E r1))"
  by (simp_all add: read_all.simps [of E r] split: prod.split)

section \<open>Control\<close>

definition reading :: "'s restore \<Rightarrow> bool" where
  "reading \<sigma> \<longleftrightarrow> rs_at \<sigma> = P_Read \<or> rs_at \<sigma> = P_Send"

definition ctrl_ok :: "'s restore \<Rightarrow> bool" where
  "ctrl_ok \<sigma> \<longleftrightarrow> length (rs_workers \<sigma>) = workerNum \<and> (rs_closed \<sigma> \<longleftrightarrow> rs_at \<sigma> = P_End) \<and>
     (W_Done \<in> set (rs_workers \<sigma>) \<longrightarrow> rs_at \<sigma> = P_End \<and> rs_ch \<sigma> = []) \<and>
     (reading \<sigma> \<longrightarrow> rs_errCh \<sigma> = None \<and> rs_main \<sigma> = M_Recv) \<and>
     (\<not> reading \<sigma> \<and> rs_main \<sigma> = M_Recv \<longrightarrow> rs_errCh \<sigma> \<noteq> None) \<and>
     (rs_at \<sigma> = P_Close \<or> rs_at \<sigma> = P_End \<longrightarrow> rs_batch \<sigma> = []) \<and>
     (\<forall>v. rs_main \<sigma> = M_Ret v \<longrightarrow> (\<forall>w \<in> set (rs_workers \<sigma>). w = W_Done))"

lemma ctrl_init: "ctrl_ok (restore_init r s)"
  by (simp add: ctrl_ok_def restore_init_def reading_def workerNum_def)

lemma ctrl_step:
  assumes "restore_step K E cnt inst \<sigma> \<tau>" and "ctrl_ok \<sigma>"
  shows "ctrl_ok \<tau>"
  using assms
proof (cases rule: restore_step.cases)
  case (take_batch j b bs)
  then show ?thesis
    using assms(2) nth_mem [of j "rs_workers \<sigma>"] set_update_subset_insert [of "rs_workers \<sigma>" j "W_Save b"]
    by (auto simp: ctrl_ok_def reading_def)
next
  case (save_batch j b res s)
  then show ?thesis
    using assms(2) nth_mem [of j "rs_workers \<sigma>"] set_update_subset_insert [of "rs_workers \<sigma>" j W_Recv]
    by (auto simp: ctrl_ok_def reading_def)
next
  case (leave j)
  then show ?thesis
    using assms(2) nth_mem [of j "rs_workers \<sigma>"] set_update_subset_insert [of "rs_workers \<sigma>" j W_Done]
    by (auto simp: ctrl_ok_def reading_def)
qed (auto simp: ctrl_ok_def reading_def)

text \<open>A bound on the steps that are left.\<close>

fun at_weight :: "producer_pc \<Rightarrow> nat" where
  "at_weight P_Read = 10"
| "at_weight P_Send = 15"
| "at_weight P_Defer = 8"
| "at_weight P_Close = 1"
| "at_weight P_End = 0"

fun worker_weight :: "worker_pc \<Rightarrow> nat" where
  "worker_weight W_Recv = 1"
| "worker_weight (W_Save b) = 3"
| "worker_weight W_Done = 0"

fun main_weight :: "main_pc \<Rightarrow> nat" where
  "main_weight M_Recv = 2"
| "main_weight M_Wait = 1"
| "main_weight (M_Ret v) = 0"

definition restore_weight :: "'s restore \<Rightarrow> nat" where
  "restore_weight \<sigma> = 20 * length (br_bytes (rs_rd \<sigma>)) + at_weight (rs_at \<sigma>) + 3 * length (rs_ch \<sigma>) +
     sum_list (map worker_weight (rs_workers \<sigma>)) + main_weight (rs_main \<sigma>) + (if rs_panic \<sigma> = None then 1 else 0)"

text \<open>What one update changes in a sum over a list.\<close>

lemma sum_list_map_update:
  fixes f :: "'a \<Rightarrow> 'b::comm_monoid_add"
  assumes "j < length ws"
  shows "sum_list (map f (ws[j := w])) + f (ws ! j) = sum_list (map f ws) + f w"
proof -
  have "ws = take j ws @ ws ! j # drop (Suc j) ws" using assms by (rule id_take_nth_drop)
  then have "sum_list (map f ws) = sum_list (map f (take j ws)) + (f (ws ! j) + sum_list (map f (drop (Suc j) ws)))"
    by (metis list.simps(9) map_append sum_list.Cons sum_list.append)
  then show ?thesis by (simp add: upd_conv_take_nth_drop [OF assms] ac_simps)
qed

lemma restore_weight_step:
  assumes "restore_step K E cnt inst \<sigma> \<tau>"
  shows "restore_weight \<tau> < restore_weight \<sigma>"
  using assms
proof (cases rule: restore_step.cases)
  case (take_batch j b bs)
  then show ?thesis using sum_list_map_update [of j "rs_workers \<sigma>" worker_weight "W_Save b"] by (simp add: restore_weight_def)
next
  case (save_batch j b res s)
  then show ?thesis using sum_list_map_update [of j "rs_workers \<sigma>" worker_weight W_Recv] by (simp add: restore_weight_def)
next
  case (leave j)
  then show ?thesis using sum_list_map_update [of j "rs_workers \<sigma>" worker_weight W_Done] by (simp add: restore_weight_def)
qed (use read_entry_length in \<open>fastforce simp: restore_weight_def\<close>)+

text \<open>A worker always has something to do as long as the channel holds batches or is open with one of them busy.\<close>

lemma busy_worker:
  assumes "ctrl_ok \<sigma>" and "rs_panic \<sigma> = None" and "w \<in> set (rs_workers \<sigma>)" and "w \<noteq> W_Done"
    and "w = W_Recv \<Longrightarrow> rs_ch \<sigma> \<noteq> [] \<or> rs_closed \<sigma>"
  shows "\<exists>\<tau>. restore_step K E cnt inst \<sigma> \<tau>"
proof -
  obtain j where j: "j < length (rs_workers \<sigma>)" "rs_workers \<sigma> ! j = w" using assms(3) by (auto simp: in_set_conv_nth)
  show ?thesis
  proof (cases w)
    case (W_Save b)
    obtain res s where "kv_MultiSave K (map fst b) (map snd b) (rs_store \<sigma>) = (res, s)" by fastforce
    from save_batch [OF assms(2) j(1) _ this] W_Save j(2) show ?thesis by blast
  next
    case W_Recv
    with assms(5) take_batch [OF assms(2) j(1)] leave [OF assms(2) j(1)] j(2) show ?thesis
      by (cases "rs_ch \<sigma>") blast+
  qed (use assms(4) in simp)
qed

lemma restore_not_stuck:
  assumes ok: "ctrl_ok \<sigma>" and np: "rs_panic \<sigma> = None" and stuck: "\<And>\<tau>. \<not> restore_step K E cnt inst \<sigma> \<tau>"
  shows "\<exists>res. rs_main \<sigma> = M_Ret res"
proof -
  have idle: "w = W_Done \<or> w = W_Recv \<and> rs_ch \<sigma> = [] \<and> \<not> rs_closed \<sigma>" if "w \<in> set (rs_workers \<sigma>)" for w
    using busy_worker [OF ok np that] stuck by blast
  have "rs_workers \<sigma> \<noteq> []" using ok by (auto simp: ctrl_ok_def workerNum_def)
  then obtain w where w: "w \<in> set (rs_workers \<sigma>)" by (meson last_in_set)
  have empty: "rs_ch \<sigma> = []" using idle [OF w] ok w by (auto simp: ctrl_ok_def)
  have "rs_at \<sigma> \<noteq> P_Read"
  proof
    assume at: "rs_at \<sigma> = P_Read"
    obtain out r where out: "read_entry E (rs_rd \<sigma>) = (out, r)" by fastforce
    show False
    proof (cases out)
      case (Entry kv)
      then show False
        using stuck read_more [OF np at, of E kv r K cnt inst] read_full [OF np at, of E kv r K cnt inst] out
        by (cases "length (rs_batch \<sigma> @ [kv]) < batchNum") (simp_all add: not_less)
    qed (use stuck read_stop [OF np at] read_crash [OF np at] read_skip [OF np at] out in blast)+
  qed
  moreover have "rs_at \<sigma> \<noteq> P_Send" "rs_at \<sigma> \<noteq> P_Defer" "rs_at \<sigma> \<noteq> P_Close"
    using stuck send [OF np, of K E cnt inst] defer_send [OF np, of K E cnt inst] defer_none [OF np, of K E cnt inst]
      close [OF np, of K E cnt inst] empty by (auto simp: chan_cap_def)
  ultimately have at: "rs_at \<sigma> = P_End" by (cases "rs_at \<sigma>") auto
  then have "\<forall>w \<in> set (rs_workers \<sigma>). w = W_Done" using idle ok by (auto simp: ctrl_ok_def)
  moreover have "rs_main \<sigma> = M_Recv \<Longrightarrow> rs_errCh \<sigma> \<noteq> None" using ok at by (simp add: ctrl_ok_def reading_def)
  ultimately show ?thesis
    using stuck recv [OF np, of _ K E cnt inst] finish [OF np, of K E cnt inst] by (cases "rs_main \<sigma>") blast+
qed

lemma ctrl_run: "(restore_step K E cnt inst ^^ n) \<sigma> \<tau> \<Longrightarrow> ctrl_ok \<sigma> \<Longrightarrow>
    ctrl_ok \<tau> \<and> n + restore_weight \<tau> \<le> restore_weight \<sigma>"
proof (induction n arbitrary: \<tau>)
  case (Suc n)
  then obtain \<rho> where "(restore_step K E cnt inst ^^ n) \<sigma> \<rho>" "restore_step K E cnt inst \<rho> \<tau>" by auto
  with Suc.IH [of \<rho>] Suc.prems(2) ctrl_step restore_weight_step [of K E cnt inst \<rho> \<tau>] show ?case by fastforce
qed simp

text \<open>
  Property C15. Restoring the key-value part of a backup ends, however the reader, the three workers and the
  caller are scheduled and whatever the file and the store contain: no run is longer than 20 steps per byte
  of the file and 16, and a state that has neither crashed nor returned can make a step. No goroutine waits
  for ever on the bounded channels.
\<close>

theorem restore_terminates:
  assumes "(restore_step K E cnt inst ^^ n) (restore_init r s) \<sigma>"
  shows "n \<le> 20 * length (br_bytes r) + 16 \<and>
    (rs_panic \<sigma> \<noteq> None \<or> (\<exists>res. rs_main \<sigma> = M_Ret res) \<or> (\<exists>\<tau>. restore_step K E cnt inst \<sigma> \<tau>))"
proof -
  have "ctrl_ok \<sigma>" "n \<le> restore_weight (restore_init r s)"
    using ctrl_run [OF assms ctrl_init] by simp_all
  moreover have "restore_weight (restore_init r s) = 20 * length (br_bytes r) + 16"
    by (simp add: restore_weight_def restore_init_def workerNum_def eval_nat_numeral)
  ultimately show ?thesis using restore_not_stuck [of \<sigma> K E cnt inst] by auto
qed

section \<open>Every schedule restores the same entries\<close>

fun load :: "worker_pc \<Rightarrow> (string \<times> string) list" where
  "load (W_Save b) = b"
| "load _ = []"

text \<open>The entries between the file and the store, as a multiset.\<close>

definition in_flight :: "'s restore \<Rightarrow> (string \<times> string) multiset" where
  "in_flight \<sigma> = mset (rs_batch \<sigma>) + sum_list (map mset (rs_ch \<sigma>)) + sum_list (map (mset \<circ> load) (rs_workers \<sigma>))"

definition unread :: "restore_env \<Rightarrow> 's restore \<Rightarrow> (string \<times> string) multiset" where
  "unread E \<sigma> = (if reading \<sigma> then mset (fst (read_all E (rs_rd \<sigma>))) else {#})"

definition data_ok :: "restore_env \<Rightarrow> ('s \<Rightarrow> string \<rightharpoonup> string) \<Rightarrow> string \<Rightarrow> (string \<times> string) list \<Rightarrow> Reader \<Rightarrow>
    (string \<rightharpoonup> string) \<Rightarrow> 's restore \<Rightarrow> bool" where
  "data_ok E view inst kvs rend m0 \<sigma> \<longleftrightarrow>
     rs_panic \<sigma> = None \<and> rs_err \<sigma> = Inr () \<and> (\<forall>x. rs_errCh \<sigma> = Some x \<longrightarrow> x = Inr ()) \<and>
     (if reading \<sigma> then snd (read_all E (rs_rd \<sigma>)) = (Inr (Inr ()), rend) else rs_rd \<sigma> = rend) \<and>
     (\<forall>v. rs_main \<sigma> = M_Ret v \<longrightarrow> v = Inr inst) \<and> (rs_at \<sigma> = P_Send \<longrightarrow> rs_batch \<sigma> \<noteq> []) \<and>
     (\<exists>saved. mset kvs = mset saved + in_flight \<sigma> + unread E \<sigma> \<and> view (rs_store \<sigma>) = m0 ++ map_of saved)"

lemma distinct_part:
  assumes "mset kvs = mset saved + mset b + M" and "distinct (map fst kvs)"
  shows "distinct (map fst b)"
proof -
  obtain ms where "M = mset ms" using ex_mset by metis
  then have "mset kvs = mset (saved @ b @ ms)" using assms(1) by (simp add: ac_simps)
  then have "mset (map fst kvs) = mset (map fst (saved @ b @ ms))" by (simp only: mset_map)
  then have "distinct (map fst (saved @ b @ ms))" using assms(2) mset_eq_imp_distinct_iff by metis
  then show ?thesis by simp
qed

lemma take_in_flight:
  assumes "j < length (rs_workers \<sigma>)" and "rs_workers \<sigma> ! j = W_Recv" and "rs_ch \<sigma> = b # bs"
  shows "in_flight (\<sigma>\<lparr>rs_ch := bs, rs_workers := (rs_workers \<sigma>)[j := W_Save b]\<rparr>) = in_flight \<sigma>"
  using sum_list_map_update [OF assms(1), of "mset \<circ> load" "W_Save b"] assms
  by (simp add: in_flight_def ac_simps)

lemma save_in_flight:
  assumes "j < length (rs_workers \<sigma>)" and "rs_workers \<sigma> ! j = W_Save b"
  shows "in_flight \<sigma> = mset b + in_flight (\<sigma>\<lparr>rs_store := s, rs_err := res, rs_workers := (rs_workers \<sigma>)[j := W_Recv], rs_panic := p\<rparr>)"
  using sum_list_map_update [OF assms(1), of "mset \<circ> load" W_Recv] assms
  by (simp add: in_flight_def ac_simps)

lemma leave_in_flight:
  assumes "j < length (rs_workers \<sigma>)" and "rs_workers \<sigma> ! j = W_Recv"
  shows "in_flight (\<sigma>\<lparr>rs_workers := (rs_workers \<sigma>)[j := W_Done]\<rparr>) = in_flight \<sigma>"
  using sum_list_map_update [OF assms(1), of "mset \<circ> load" W_Done] assms
  by (simp add: in_flight_def)

lemma data_init:
  assumes "read_all E r = (kvs, Inr (Inr ()), rend)"
  shows "data_ok E view inst kvs rend (view s) (restore_init r s)"
proof -
  have "in_flight (restore_init r s) = {#}" "unread E (restore_init r s) = mset kvs"
    by (simp_all add: in_flight_def unread_def restore_init_def reading_def assms workerNum_def eval_nat_numeral)
  then show ?thesis by (auto simp: data_ok_def assms restore_init_def reading_def intro: exI [of _ "[]"])
qed

text \<open>Steps of the reader and the caller change neither the store nor, as a whole, the entries on their way.\<close>

lemma data_move:
  assumes "data_ok E view inst kvs rend m0 \<sigma>" and "rs_store \<tau> = rs_store \<sigma>"
    and "in_flight \<tau> + unread E \<tau> = in_flight \<sigma> + unread E \<sigma>"
    and "rs_panic \<tau> = None" and "rs_err \<tau> = Inr ()" and "\<forall>x. rs_errCh \<tau> = Some x \<longrightarrow> x = Inr ()"
    and "if reading \<tau> then snd (read_all E (rs_rd \<tau>)) = (Inr (Inr ()), rend) else rs_rd \<tau> = rend"
    and "\<forall>v. rs_main \<tau> = M_Ret v \<longrightarrow> v = Inr inst" and "rs_at \<tau> = P_Send \<longrightarrow> rs_batch \<tau> \<noteq> []"
  shows "data_ok E view inst kvs rend m0 \<tau>"
  using assms unfolding data_ok_def by (auto simp: add.assoc)

lemma unread_cong: "rs_at \<tau> = rs_at \<sigma> \<Longrightarrow> rs_rd \<tau> = rs_rd \<sigma> \<Longrightarrow> unread E \<tau> = unread E \<sigma>"
  by (simp add: unread_def reading_def)

context bulk_kv
begin

lemma data_step:
  assumes step: "restore_step K E cnt inst \<sigma> \<tau>" and ok: "data_ok E view inst kvs rend m0 \<sigma>"
    and saves: "saves_all K" and dist: "distinct (map fst kvs)" and cnt: "cnt = 0 \<longrightarrow> kvs = []"
  shows "data_ok E view inst kvs rend m0 \<tau>"
  using step
proof (cases rule: restore_step.cases)
  case (read_stop res r)
  then have "snd (read_all E (rs_rd \<sigma>)) = (Inr res, r)" "fst (read_all E (rs_rd \<sigma>)) = []"
    by (simp_all add: read_all_step)
  with read_stop ok show ?thesis
    by (intro data_move [OF ok]) (auto simp: data_ok_def reading_def in_flight_def unread_def)
next
  case (read_crash e r)
  then have "snd (read_all E (rs_rd \<sigma>)) = (Inl e, r)" by (simp add: read_all_step)
  with read_crash ok show ?thesis by (auto simp: data_ok_def reading_def)
next
  case (read_skip r)
  with read_all_step(3) [OF read_skip(4)] ok show ?thesis
    by (intro data_move [OF ok]) (auto simp: data_ok_def reading_def in_flight_def unread_def)
next
  case (read_more kv r)
  have "kvs \<noteq> []"
    using ok read_more(3) read_all_step(4) [OF read_more(4)] by (auto simp: data_ok_def unread_def reading_def)
  with cnt have "progress_panic cnt = None" by (simp add: progress_panic_def)
  with read_more read_all_step(4) [OF read_more(4)] ok show ?thesis
    by (intro data_move [OF ok]) (auto simp: data_ok_def reading_def in_flight_def unread_def)
next
  case (read_full kv r)
  with read_all_step(4) [OF read_full(4)] ok show ?thesis
    by (intro data_move [OF ok]) (auto simp: data_ok_def reading_def in_flight_def unread_def)
next
  case send
  have "kvs \<noteq> []" using ok send(3) by (auto simp: data_ok_def in_flight_def)
  with cnt have "progress_panic cnt = None" by (simp add: progress_panic_def)
  with send ok show ?thesis
    by (intro data_move [OF ok]) (auto simp: data_ok_def reading_def in_flight_def unread_def)
next
  case defer_send
  with ok show ?thesis
    by (intro data_move [OF ok]) (auto simp: data_ok_def reading_def in_flight_def unread_def)
next
  case defer_none
  with ok show ?thesis
    by (intro data_move [OF ok]) (auto simp: data_ok_def reading_def in_flight_def unread_def)
next
  case close
  with ok show ?thesis
    by (intro data_move [OF ok]) (auto simp: data_ok_def reading_def in_flight_def unread_def)
next
  case (take_batch j b bs)
  with ok take_in_flight [OF take_batch(3-5)] show ?thesis
    by (intro data_move [OF ok]) (auto simp: data_ok_def reading_def unread_def)
next
  case (save_batch j b res s)
  from ok obtain saved where saved: "mset kvs = mset saved + in_flight \<sigma> + unread E \<sigma>"
    "view (rs_store \<sigma>) = m0 ++ map_of saved" by (auto simp: data_ok_def)
  have fl: "in_flight \<sigma> = mset b + in_flight \<tau>"
    unfolding save_batch(1) by (rule save_in_flight [OF save_batch(3,4)])
  have un: "unread E \<tau> = unread E \<sigma>" unfolding save_batch(1) by (rule unread_cong) simp_all
  have "mset kvs = mset saved + mset b + (in_flight \<tau> + unread E \<sigma>)" using saved(1) by (simp add: fl ac_simps)
  then have "distinct (map fst b)" using dist by (rule distinct_part)
  moreover from this saves obtain s2 where "kv_MultiSave K (map fst b) (map snd b) (rs_store \<sigma>) = (Inr (), s2)"
    unfolding saves_all_def by blast
  ultimately have "res = Inr ()" "view s = view (rs_store \<sigma>) ++ map_of b"
    using save_batch(5) MultiSave_pairs [of b "rs_store \<sigma>" s] by simp_all
  moreover have "mset kvs = mset (b @ saved) + in_flight \<tau> + unread E \<tau>" using saved(1) by (simp add: fl un ac_simps)
  ultimately show ?thesis
    using ok saved(2) save_batch(1) unfolding data_ok_def reading_def by (auto intro!: exI [of _ "b @ saved"])
next
  case (leave j)
  with ok leave_in_flight [OF leave(3,4)] show ?thesis
    by (intro data_move [OF ok]) (auto simp: data_ok_def reading_def unread_def)
next
  case (recv res)
  with ok show ?thesis
    by (intro data_move [OF ok]) (auto simp: data_ok_def reading_def in_flight_def unread_def)
next
  case finish
  with ok show ?thesis
    by (intro data_move [OF ok]) (auto simp: data_ok_def reading_def in_flight_def unread_def)
qed

end

context bulk_kv
begin

lemma restore_run_data:
  assumes "(restore_step K E cnt inst)\<^sup>*\<^sup>* (restore_init r s) \<sigma>" and "read_all E r = (kvs, Inr (Inr ()), rend)"
    and "saves_all K" and "distinct (map fst kvs)" and "cnt = 0 \<longrightarrow> kvs = []"
  shows "ctrl_ok \<sigma> \<and> data_ok E view inst kvs rend (view s) \<sigma>"
  using assms(1)
proof (induction rule: rtranclp_induct)
  case base
  show ?case using ctrl_init [of r s] data_init [OF assms(2), of view inst s] by (rule conjI)
next
  case (step \<sigma> \<tau>)
  with ctrl_step data_step [OF step(2) _ assms(3-5)] show ?case by blast
qed

text \<open>When the caller has returned nothing is on its way any more.\<close>

lemma restore_returned:
  assumes "ctrl_ok \<sigma>" and "data_ok E view inst kvs rend m0 \<sigma>" and "rs_main \<sigma> = M_Ret res" and "distinct (map fst kvs)"
  shows "res = Inr inst \<and> rs_rd \<sigma> = rend \<and> view (rs_store \<sigma>) = m0 ++ map_of kvs"
proof -
  have idle: "\<forall>w \<in> set (rs_workers \<sigma>). w = W_Done" and "rs_workers \<sigma> \<noteq> []"
    using assms(1,3) by (auto simp: ctrl_ok_def workerNum_def)
  then have "W_Done \<in> set (rs_workers \<sigma>)" by (metis last_in_set)
  then have at: "rs_at \<sigma> = P_End" "rs_ch \<sigma> = []" "rs_batch \<sigma> = []" using assms(1) by (auto simp: ctrl_ok_def)
  have "sum_list (map (mset \<circ> load) ws) = {#}" if "\<forall>w \<in> set ws. w = W_Done" for ws
    using that by (induction ws) auto
  then have "in_flight \<sigma> = {#}" "unread E \<sigma> = {#}"
    using at idle by (simp_all add: in_flight_def unread_def reading_def)
  with assms(2) obtain saved where saved: "mset kvs = mset saved" "view (rs_store \<sigma>) = m0 ++ map_of saved"
    by (auto simp: data_ok_def)
  then have "distinct (map fst saved)" using assms(4) by (metis mset_eq_imp_distinct_iff mset_map)
  then have "map_of saved = map_of kvs"
    using assms(4) saved(1) by (subst map_of_inject_set) (auto dest: mset_eq_setD)
  then show ?thesis using assms(2,3) saved(2) at by (auto simp: data_ok_def reading_def)
qed

end


section \<open>An error that is overwritten\<close>

text \<open>The reader and one worker take turns; the other workers and the caller wait.\<close>

definition quiet :: "'s restore \<Rightarrow> bool" where
  "quiet \<sigma> \<longleftrightarrow> rs_panic \<sigma> = None \<and> rs_ch \<sigma> = [] \<and> rs_closed \<sigma> = False \<and> rs_workers \<sigma> = [W_Recv, W_Recv, W_Recv] \<and>
     rs_main \<sigma> = M_Recv"

lemma quiet_save:
  assumes "saves_all K" and "distinct (map fst b)" and "rs_panic \<sigma> = None" and "rs_ch \<sigma> = [b]"
    and "rs_workers \<sigma> = [W_Recv, W_Recv, W_Recv]"
  shows "\<exists>s. (restore_step K E cnt inst)\<^sup>*\<^sup>* \<sigma> (\<sigma>\<lparr>rs_ch := [], rs_store := s, rs_err := Inr (), rs_workers := [W_Recv, W_Recv, W_Recv], rs_panic := None\<rparr>)"
proof -
  let ?\<sigma>1 = "\<sigma>\<lparr>rs_ch := [], rs_workers := [W_Save b, W_Recv, W_Recv]\<rparr>"
  obtain s where s: "kv_MultiSave K (map fst b) (map snd b) (rs_store \<sigma>) = (Inr (), s)"
    using assms(1,2) unfolding saves_all_def by blast
  have "restore_step K E cnt inst \<sigma> ?\<sigma>1"
    using take_batch [of \<sigma> 0 b "[]" K E cnt inst] assms(3-5) by simp
  moreover have "restore_step K E cnt inst ?\<sigma>1 (\<sigma>\<lparr>rs_ch := [], rs_store := s, rs_err := Inr (), rs_workers := [W_Recv, W_Recv, W_Recv], rs_panic := None\<rparr>)"
    using save_batch [of ?\<sigma>1 0 b K "Inr ()" s E cnt inst] assms(3,5) s by simp
  ultimately show ?thesis by (meson converse_rtranclp_into_rtranclp r_into_rtranclp)
qed

lemma eager_read:
  assumes "saves_all K" and "cnt \<noteq> 0"
  shows "quiet \<sigma> \<Longrightarrow> rs_at \<sigma> = P_Read \<Longrightarrow> length (rs_batch \<sigma>) < batchNum \<Longrightarrow>
    read_all E (rs_rd \<sigma>) = (kvs, Inr res, rend) \<Longrightarrow> distinct (map fst (rs_batch \<sigma> @ kvs)) \<Longrightarrow>
    \<exists>\<tau>. (restore_step K E cnt inst)\<^sup>*\<^sup>* \<sigma> \<tau> \<and> quiet \<tau> \<and> rs_at \<tau> = P_Defer \<and> rs_errCh \<tau> = Some res \<and>
      length (rs_batch \<tau>) = (length (rs_batch \<sigma>) + length kvs) mod batchNum \<and> distinct (map fst (rs_batch \<tau>))"
proof (induction "length (br_bytes (rs_rd \<sigma>))" arbitrary: \<sigma> kvs rule: less_induct)
  case less
  note np = less.prems(1) [unfolded quiet_def, THEN conjunct1] and at = less.prems(2)
  obtain out r where out: "read_entry E (rs_rd \<sigma>) = (out, r)" by fastforce
  show ?case
  proof (cases out)
    case (Stop x)
    let ?\<tau> = "\<sigma>\<lparr>rs_rd := r, rs_errCh := Some x, rs_at := P_Defer\<rparr>"
    have "restore_step K E cnt inst \<sigma> ?\<tau>" using read_stop [OF np at] out Stop by simp
    moreover have "kvs = []" "x = res" using read_all_step(1) out Stop less.prems(4) by fastforce+
    ultimately show ?thesis using less.prems by (intro exI [of _ ?\<tau>]) (auto simp: quiet_def)
  next
    case (Crash e)
    then show ?thesis using read_all_step(2) out less.prems(4) by fastforce
  next
    case Skip
    let ?\<sigma>1 = "\<sigma>\<lparr>rs_rd := r\<rparr>"
    have step: "restore_step K E cnt inst \<sigma> ?\<sigma>1" using read_skip [OF np at] out Skip by simp
    have "read_all E r = (kvs, Inr res, rend)" using read_all_step(3) out Skip less.prems(4) by fastforce
    then have "\<exists>\<tau>. (restore_step K E cnt inst)\<^sup>*\<^sup>* ?\<sigma>1 \<tau> \<and> quiet \<tau> \<and> rs_at \<tau> = P_Defer \<and> rs_errCh \<tau> = Some res \<and>
      length (rs_batch \<tau>) = (length (rs_batch ?\<sigma>1) + length kvs) mod batchNum \<and> distinct (map fst (rs_batch \<tau>))"
      using less.prems read_entry_length(2) [OF out] Skip by (intro less.hyps) (auto simp: quiet_def)
    with step show ?thesis by (auto intro: converse_rtranclp_into_rtranclp)
  next
    case (Entry kv)
    note e = out [unfolded Entry]
    have panic: "progress_panic cnt = None" using assms(2) by (simp add: progress_panic_def)
    have shorter: "length (br_bytes r) < length (br_bytes (rs_rd \<sigma>))" using read_entry_length(2) [OF out, of kv] Entry by simp
    obtain kvs' where kvs: "kvs = kv # kvs'" "read_all E r = (kvs', Inr res, rend)"
      using read_all_step(4) [OF e] less.prems(4) by (metis fst_conv prod.collapse snd_conv)
    let ?b = "rs_batch \<sigma> @ [kv]"
    show ?thesis
    proof (cases "length ?b < batchNum")
      case True
      let ?\<sigma>1 = "\<sigma>\<lparr>rs_rd := r, rs_batch := ?b, rs_panic := None\<rparr>"
      have step: "restore_step K E cnt inst \<sigma> ?\<sigma>1"
        using read_more [OF np at e True, of K cnt inst] panic np by simp
      have "\<exists>\<tau>. (restore_step K E cnt inst)\<^sup>*\<^sup>* ?\<sigma>1 \<tau> \<and> quiet \<tau> \<and> rs_at \<tau> = P_Defer \<and> rs_errCh \<tau> = Some res \<and>
        length (rs_batch \<tau>) = (length (rs_batch ?\<sigma>1) + length kvs') mod batchNum \<and> distinct (map fst (rs_batch \<tau>))"
        using less.prems kvs True shorter by (intro less.hyps) (auto simp: quiet_def)
      with step show ?thesis by (auto simp: kvs(1) intro: converse_rtranclp_into_rtranclp)
    next
      case False
      let ?\<sigma>1 = "\<sigma>\<lparr>rs_rd := r, rs_batch := ?b, rs_at := P_Send\<rparr>"
      let ?\<sigma>2 = "\<sigma>\<lparr>rs_rd := r, rs_ch := [?b], rs_batch := [], rs_at := P_Read, rs_panic := None\<rparr>"
      have "restore_step K E cnt inst \<sigma> ?\<sigma>1" using read_full [OF np at e, of K cnt inst] False by simp
      moreover have "restore_step K E cnt inst ?\<sigma>1 ?\<sigma>2"
        using send [of ?\<sigma>1 K E cnt inst] panic less.prems(1,2) by (simp add: quiet_def chan_cap_def)
      moreover obtain s where "(restore_step K E cnt inst)\<^sup>*\<^sup>* ?\<sigma>2 (?\<sigma>2\<lparr>rs_ch := [], rs_store := s, rs_err := Inr (), rs_workers := [W_Recv, W_Recv, W_Recv], rs_panic := None\<rparr>)"
        using quiet_save [OF assms(1), of ?b ?\<sigma>2 E cnt inst] less.prems(1,5) kvs(1) by (auto simp: quiet_def)
      ultimately have steps: "(restore_step K E cnt inst)\<^sup>*\<^sup>* \<sigma> (?\<sigma>2\<lparr>rs_ch := [], rs_store := s, rs_err := Inr (), rs_workers := [W_Recv, W_Recv, W_Recv], rs_panic := None\<rparr>)"
        by (meson converse_rtranclp_into_rtranclp)
      let ?\<sigma>3 = "?\<sigma>2\<lparr>rs_ch := [], rs_store := s, rs_err := Inr (), rs_workers := [W_Recv, W_Recv, W_Recv], rs_panic := None\<rparr>"
      have "\<exists>\<tau>. (restore_step K E cnt inst)\<^sup>*\<^sup>* ?\<sigma>3 \<tau> \<and> quiet \<tau> \<and> rs_at \<tau> = P_Defer \<and> rs_errCh \<tau> = Some res \<and>
        length (rs_batch \<tau>) = (length (rs_batch ?\<sigma>3) + length kvs') mod batchNum \<and> distinct (map fst (rs_batch \<tau>))"
        using less.prems kvs shorter by (intro less.hyps) (auto simp: quiet_def batchNum_def)
      moreover have "(length (rs_batch \<sigma>) + length kvs) mod batchNum = length kvs' mod batchNum"
      proof -
        have "length (rs_batch \<sigma>) + length kvs = batchNum + length kvs'" using False less.prems(3) by (simp add: kvs(1))
        then show ?thesis by simp
      qed
      ultimately show ?thesis using steps by (auto intro: rtranclp_trans)
    qed
  qed
qed

lemma quiet_finish:
  assumes "rs_panic \<sigma> = None" and "rs_ch \<sigma> = []" and "rs_closed \<sigma>" and "rs_workers \<sigma> = [W_Recv, W_Recv, W_Recv]"
    and "rs_main \<sigma> = M_Wait" and "rs_err \<sigma> = Inr ()"
  shows "(restore_step K E cnt inst)\<^sup>*\<^sup>* \<sigma> (\<sigma>\<lparr>rs_workers := [W_Done, W_Done, W_Done], rs_main := M_Ret (Inr inst)\<rparr>)"
proof -
  let ?w = "\<lambda>ws. \<sigma>\<lparr>rs_workers := ws\<rparr>"
  have "restore_step K E cnt inst \<sigma> (?w [W_Done, W_Recv, W_Recv])"
    using leave [of \<sigma> 0 K E cnt inst] assms by simp
  moreover have "restore_step K E cnt inst (?w [W_Done, W_Recv, W_Recv]) (?w [W_Done, W_Done, W_Recv])"
    using leave [of "?w [W_Done, W_Recv, W_Recv]" 1 K E cnt inst] assms by simp
  moreover have "restore_step K E cnt inst (?w [W_Done, W_Done, W_Recv]) (?w [W_Done, W_Done, W_Done])"
    using leave [of "?w [W_Done, W_Done, W_Recv]" 2 K E cnt inst] assms by (simp add: eval_nat_numeral)
  moreover have "restore_step K E cnt inst (?w [W_Done, W_Done, W_Done])
      (\<sigma>\<lparr>rs_workers := [W_Done, W_Done, W_Done], rs_main := M_Ret (Inr inst)\<rparr>)"
    using finish [of "?w [W_Done, W_Done, W_Done]" K E cnt inst] assms by simp
  ultimately show ?thesis by (meson converse_rtranclp_into_rtranclp r_into_rtranclp)
qed

text \<open>
  Property C16. A read error of the file can be lost: the caller stores it in \<open>err\<close> and then waits for the workers,
  which store the result of every save in the same variable. Whenever reading ends with an error (a truncated
  file, say) behind a number of entries that is not a multiple of the batch size, some schedule makes the
  call return the instance as if the file had been complete, although no step failed to do its work.
\<close>

theorem restore_can_lose_error:
  assumes "saves_all K" and "read_all E r = (kvs, Inr (Inl e), rend)" and "distinct (map fst kvs)"
    and "length kvs mod batchNum \<noteq> 0" and "cnt \<noteq> 0"
  shows "\<exists>\<sigma>. (restore_step K E cnt inst)\<^sup>*\<^sup>* (restore_init r s) \<sigma> \<and> rs_main \<sigma> = M_Ret (Inr inst)"
proof -
  have "quiet (restore_init r s)"
    by (simp add: quiet_def restore_init_def workerNum_def eval_nat_numeral)
  from eager_read [OF assms(1,5) this _ _ _ _, of E kvs "Inl e" rend inst] assms(2,3)
  obtain \<tau> where run: "(restore_step K E cnt inst)\<^sup>*\<^sup>* (restore_init r s) \<tau>" and q: "quiet \<tau>" and at: "rs_at \<tau> = P_Defer"
    and err: "rs_errCh \<tau> = Some (Inl e)" and b: "rs_batch \<tau> \<noteq> []" "distinct (map fst (rs_batch \<tau>))"
    using assms(4) by (fastforce simp: restore_init_def batchNum_def)
  let ?\<tau>1 = "\<tau>\<lparr>rs_errCh := None, rs_err := Inl e, rs_main := M_Wait\<rparr>"
  let ?\<tau>2 = "?\<tau>1\<lparr>rs_ch := [rs_batch \<tau>], rs_batch := [], rs_at := P_Close\<rparr>"
  let ?\<tau>3 = "?\<tau>2\<lparr>rs_at := P_End, rs_closed := True\<rparr>"
  have "restore_step K E cnt inst \<tau> ?\<tau>1" using recv [of \<tau> "Inl e" K E cnt inst] q err by (simp add: quiet_def)
  moreover have "restore_step K E cnt inst ?\<tau>1 ?\<tau>2"
    using defer_send [of ?\<tau>1 K E cnt inst] q at b(1) by (simp add: quiet_def chan_cap_def)
  moreover have "restore_step K E cnt inst ?\<tau>2 ?\<tau>3"
    using close [of ?\<tau>2 K E cnt inst] q by (simp add: quiet_def)
  ultimately have steps: "(restore_step K E cnt inst)\<^sup>*\<^sup>* \<tau> ?\<tau>3"
    by (meson converse_rtranclp_into_rtranclp r_into_rtranclp)
  obtain s' where save: "(restore_step K E cnt inst)\<^sup>*\<^sup>* ?\<tau>3
      (?\<tau>3\<lparr>rs_ch := [], rs_store := s', rs_err := Inr (), rs_workers := [W_Recv, W_Recv, W_Recv], rs_panic := None\<rparr>)"
    using quiet_save [OF assms(1) b(2), of ?\<tau>3 E cnt inst] q by (auto simp: quiet_def)
  let ?\<tau>4 = "?\<tau>3\<lparr>rs_ch := [], rs_store := s', rs_err := Inr (), rs_workers := [W_Recv, W_Recv, W_Recv], rs_panic := None\<rparr>"
  have "(restore_step K E cnt inst)\<^sup>*\<^sup>* ?\<tau>4
      (?\<tau>4\<lparr>rs_workers := [W_Done, W_Done, W_Done], rs_main := M_Ret (Inr inst)\<rparr>)"
    by (rule quiet_finish) simp_all
  with run steps save have "(restore_step K E cnt inst)\<^sup>*\<^sup>* (restore_init r s)
      (?\<tau>4\<lparr>rs_workers := [W_Done, W_Done, W_Done], rs_main := M_Ret (Inr inst)\<rparr>)"
    by (meson rtranclp_trans)
  then show ?thesis
    by (intro exI [of _ "?\<tau>4\<lparr>rs_workers := [W_Done, W_Done, W_Done], rs_main := M_Ret (Inr inst)\<rparr>"]) simp
qed

section \<open>A backup that is loaded again\<close>

lemma get_length: "length bs \<le> max_alloc \<Longrightarrow> unat (get_le (put_le 8 (of_nat (length bs) :: u64)) :: u64) = length bs"
  by (simp add: max_alloc_def unat_of_nat)

lemma make_bytes_ok: "length bs \<le> max_alloc \<Longrightarrow> make_bytes (get_le (put_le 8 (of_nat (length bs) :: u64))) = Inr ()"
  unfolding make_bytes_def by (simp only: get_length) simp

lemma io_ReadFull_append:
  assumes "br_bytes r = bs @ rest" and "length bs = n"
  obtains r' where "io_ReadFull n r = (Inr bs, r')" and "br_bytes r' = rest"
  using ReadFull_loop_bytes [of n "[]" r "fst (io_ReadFull n r)" "snd (io_ReadFull n r)"] assms that
  by (metis (no_types, lifting) append_Nil append_eq_conv_conj io_ReadFull_def le_add1 length_append prod.collapse)

lemma io_ReadFull_short:
  assumes "length (br_bytes r) < n" and "br_bytes r \<noteq> []"
  shows "\<exists>r'. io_ReadFull n r = (Inl UnexpectedEOF, r')"
proof -
  obtain res r' where run: "ReadFull_loop n [] r = (res, r')" by fastforce
  with ReadFull_loop_bytes [OF run] assms show ?thesis by (simp add: io_ReadFull_def)
qed

lemma read_entry_stopper:
  assumes "br_bytes r = frame [] @ rest"
  shows "\<exists>r'. read_entry E r = (Stop (Inr ()), r') \<and> br_bytes r' = rest"
proof -
  obtain r1 where "io_ReadFull 8 r = (Inr (put_le 8 (0 :: u64)), r1)" "br_bytes r1 = rest"
    using io_ReadFull_append [of r "put_le 8 (0 :: u64)" rest 8] assms by (auto simp: frame_def)
  then show ?thesis by (simp add: read_entry_def del: put_le.simps)
qed

lemma read_entry_frame:
  assumes "br_bytes r = frame bs @ rest" and "bs \<noteq> []" and "length bs \<le> max_alloc" and "un_pair E bs = Inr kv"
  shows "\<exists>r'. read_entry E r = (Entry kv, r') \<and> br_bytes r' = rest"
proof -
  let ?n = "get_le (put_le 8 (of_nat (length bs) :: u64)) :: u64"
  obtain r1 where r1: "io_ReadFull 8 r = (Inr (put_le 8 (of_nat (length bs) :: u64)), r1)" "br_bytes r1 = bs @ rest"
    using io_ReadFull_append [of r "put_le 8 (of_nat (length bs) :: u64)" "bs @ rest" 8] assms(1) by (auto simp: frame_def)
  obtain r2 where r2: "io_ReadFull (length bs) r1 = (Inr bs, r2)" "br_bytes r2 = rest"
    using io_ReadFull_append [OF r1(2) refl] by blast
  have n: "unat ?n = length bs" by (rule get_length [OF assms(3)])
  then have "?n \<noteq> 0" using assms(2) by auto
  then have "read_entry E r = (Entry kv, r2)"
    unfolding read_entry_def r1(1) by (simp only: prod.case sum.case Let_def if_False make_bytes_ok [OF assms(3)] n r2 assms(4))
  with r2(2) show ?thesis by blast
qed

lemma read_all_frames:
  assumes "\<forall>(k, v) \<in> set kvs. enc k v \<noteq> [] \<and> length (enc k v) \<le> max_alloc \<and> un_pair E (enc k v) = Inr (k, v)"
    and "br_bytes r = frames enc kvs @ frame [] @ rest"
  shows "\<exists>rend. read_all E r = (kvs, Inr (Inr ()), rend) \<and> br_bytes rend = rest"
  using assms
proof (induction kvs arbitrary: r)
  case Nil
  with read_entry_stopper [of r rest E] show ?case by (auto simp: frames_def dest: read_all_step(1))
next
  case (Cons kv kvs)
  obtain k v where kv: "kv = (k, v)" by force
  have "br_bytes r = frame (enc k v) @ frames enc kvs @ frame [] @ rest" using Cons.prems(2) by (simp add: kv frames_def)
  from read_entry_frame [OF this, of E kv] Cons.prems(1) obtain r1
    where r1: "read_entry E r = (Entry kv, r1)" "br_bytes r1 = frames enc kvs @ frame [] @ rest" by (auto simp: kv)
  with Cons.IH [of r1] Cons.prems(1) read_all_step(4) [OF r1(1)] show ?case by auto
qed

lemma header_frame:
  assumes "br_bytes r = frame h @ rest" and "Reader_Read 8 r = (Inr lb, r1)" and "length lb = 8"
    and "length h \<le> max_alloc" and "un h = Inr x"
  shows "\<exists>r2. readFixLengthHeader un r = (Inr x, r2) \<and> br_bytes r2 = rest"
proof -
  have "lb @ br_bytes r1 = put_le 8 (of_nat (length h) :: u64) @ h @ rest"
    using Reader_Read_bytes [OF assms(2)] assms(1) by (simp add: frame_def)
  then have lb: "lb = put_le 8 (of_nat (length h) :: u64)" "br_bytes r1 = h @ rest"
    using assms(3) by (auto simp: append_eq_append_conv)
  obtain r2 where "io_ReadFull (length h) r1 = (Inr h, r2)" "br_bytes r2 = rest"
    using io_ReadFull_append [OF lb(2) refl] by blast
  then have "readFixLengthHeader un r = (Inr x, r2)"
    using assms(2,3,5) make_bytes_ok [OF assms(4)] get_length [OF assms(4)]
    by (simp add: readFixLengthHeader_def go_bind_def lb(1) del: put_le.simps)
  with \<open>br_bytes r2 = rest\<close> show ?thesis by blast
qed

lemma restore_returns:
  "ctrl_ok \<sigma> \<Longrightarrow> \<exists>\<tau>. (restore_step K E cnt inst)\<^sup>*\<^sup>* \<sigma> \<tau> \<and> (rs_panic \<tau> \<noteq> None \<or> (\<exists>res. rs_main \<tau> = M_Ret res))"
proof (induction "restore_weight \<sigma>" arbitrary: \<sigma> rule: less_induct)
  case less
  show ?case
  proof (cases "\<exists>\<tau>. restore_step K E cnt inst \<sigma> \<tau>")
    case True
    then obtain \<tau> where step: "restore_step K E cnt inst \<sigma> \<tau>" by blast
    from less.hyps [OF restore_weight_step [OF step] ctrl_step [OF step less.prems]] step show ?thesis
      by (meson converse_rtranclp_into_rtranclp)
  next
    case False
    with restore_not_stuck [OF less.prems, of K E cnt inst] show ?thesis by blast
  qed
qed

text \<open>A call on a well-formed part returns, and has one outcome.\<close>

lemma restore_part:
  assumes "bulk_kv K view" and "saves_all K" and "read_all E r = (kvs, Inr (Inr ()), rend)" and "distinct (map fst kvs)"
    and "restore_meta E ph = Inr (cnt, inst)" and "cnt = 0 \<longrightarrow> kvs = []"
  shows "(\<exists>res r2 s2. restoreEtcdFromBackV2 K E ph (r, s) res (r2, s2)) \<and>
    (\<forall>res r2 s2. restoreEtcdFromBackV2 K E ph (r, s) res (r2, s2) \<longrightarrow>
      res = Inr inst \<and> r2 = rend \<and> view s2 = view s ++ map_of kvs)"
proof -
  have ok: "ctrl_ok \<sigma>" "data_ok E view inst kvs rend (view s) \<sigma>"
    if "(restore_step K E cnt inst)\<^sup>*\<^sup>* (restore_init r s) \<sigma>" for \<sigma>
    using bulk_kv.restore_run_data [OF assms(1) that assms(3,2,4,6)] by simp_all
  obtain \<tau> where \<tau>: "(restore_step K E cnt inst)\<^sup>*\<^sup>* (restore_init r s) \<tau>"
    "rs_panic \<tau> \<noteq> None \<or> (\<exists>res. rs_main \<tau> = M_Ret res)" using restore_returns [where K = K and E = E and cnt = cnt and inst = inst, OF ctrl_init [of r s]] by blast
  then obtain res where "rs_main \<tau> = M_Ret res" using ok(2) [OF \<tau>(1)] by (auto simp: data_ok_def)
  with \<tau>(1) assms(5) have "\<exists>res r2 s2. restoreEtcdFromBackV2 K E ph (r, s) res (r2, s2)"
    by (blast intro: returns)
  moreover have "res = Inr inst \<and> r2 = rend \<and> view s2 = view s ++ map_of kvs"
    if "restoreEtcdFromBackV2 K E ph (r, s) res (r2, s2)" for res r2 s2
    using that
  proof (cases rule: restoreEtcdFromBackV2.cases)
    case (returns cnt' inst' \<sigma>)
    then have run: "(restore_step K E cnt inst)\<^sup>*\<^sup>* (restore_init r s) \<sigma>" using assms(5) by simp
    from bulk_kv.restore_returned [OF assms(1) ok [OF run] _ assms(4)] returns show ?thesis by simp
  next
    case (crashes cnt' inst' \<sigma> e)
    then have run: "(restore_step K E cnt inst)\<^sup>*\<^sup>* (restore_init r s) \<sigma>" using assms(5) by simp
    with ok(2) [OF run] crashes show ?thesis by (simp add: data_ok_def)
  qed (use assms(5) in simp)
  ultimately show ?thesis by blast
qed

text \<open>
  What is relied on of protobuf and JSON: decoding undoes encoding, an entry with a key is not encoded as nothing,
  and the map in the part header has the number of entries in decimal and the instance.
\<close>

definition codec_ok :: "(nat \<Rightarrow> nat \<Rightarrow> string \<Rightarrow> string \<Rightarrow> bytes) \<Rightarrow> (string \<Rightarrow> string \<Rightarrow> bytes) \<Rightarrow> restore_env \<Rightarrow> bool" where
  "codec_ok hdr enc E \<longleftrightarrow>
     (\<forall>k v. k \<noteq> [] \<longrightarrow> enc k v \<noteq> []) \<and> (\<forall>k v. un_pair E (enc k v) = Inr (k, v)) \<and>
     (\<forall>cnt rev inst meta. \<exists>ph m. un_part E (hdr cnt rev inst meta) = Inr ph \<and> PartType_of ph = EtcdBackup \<and>
       un_meta E (Extra ph) = Inr m \<and> m ''cnt'' = Some (format_int (int cnt)) \<and> m ''instance'' = Some inst)"

lemma codec_ok_header:
  assumes "codec_ok hdr enc E" and "cnt < 2 ^ 63"
  shows "\<exists>ph. un_part E (hdr cnt rv inst meta) = Inr ph \<and> PartType_of ph = EtcdBackup \<and> restore_meta E ph = Inr (int cnt, inst)"
proof -
  obtain ph m where "un_part E (hdr cnt rv inst meta) = Inr ph" "PartType_of ph = EtcdBackup"
    "un_meta E (Extra ph) = Inr m" "m ''cnt'' = Some (format_int (int cnt))" "m ''instance'' = Some inst"
    using assms(1) unfolding codec_ok_def by meson
  then show ?thesis using ParseInt_format_int [of 64 "int cnt"] assms(2) by (simp add: restore_meta_def map_get_def)
qed

text \<open>
  Property C13. A backup loaded again gives back what was backed up: when the backup below a prefix is complete, a
  reader over the bytes written, in whatever chunks (as long as the first read gives the eight bytes of the
  length), finds the header of the part; the concurrent restore behind it returns, and under every schedule
  it returns the instance, has added exactly the entries below the prefix to the store it was given, and
  has left what follows the part unread.
\<close>

theorem backup_restore_roundtrip:
  assumes "etcd_server C store" and "answers C s" and "bulk_kv K2 view2" and "saves_all K2" and "codec_ok hdr enc E"
    and "p = joinPath [base, pre]" and "\<forall>q \<in> dom (store s). p \<le> q \<longrightarrow> prefix p q"
    and "\<forall>k v. store s k = Some v \<longrightarrow> k \<noteq> [] \<and> length (enc k v) \<le> max_alloc"
    and "\<forall>cnt \<le> card (dom (store s)). \<forall>rev. length (hdr cnt rev (fst (backup_paths base)) (snd (backup_paths base))) \<le> max_alloc"
    and "card (dom (store s)) < fuel" and "card (dom (store s)) < 2 ^ 63"
  shows "\<exists>bs. etcdKV_BackupKV C (\<lambda>cnt rev inst meta. Inr (hdr cnt rev inst meta)) (\<lambda>k v. Inr (enc k v)) fuel base pre batch s =
      Some (Inr bs) \<and>
    (\<forall>r rest lb r0. br_bytes r = bs @ rest \<longrightarrow> Reader_Read 8 r = (Inr lb, r0) \<longrightarrow> length lb = 8 \<longrightarrow>
      (\<exists>ph r1. readFixLengthHeader (un_part E) r = (Inr ph, r1) \<and> PartType_of ph = EtcdBackup \<and>
        (\<exists>res r2 s2. restoreEtcdFromBackV2 K2 E ph (r1, s0) res (r2, s2)) \<and>
        (\<forall>res r2 s2. restoreEtcdFromBackV2 K2 E ph (r1, s0) res (r2, s2) \<longrightarrow>
          res = Inr (fst (backup_paths base)) \<and> view2 s2 = view2 s0 ++ (store s |` {k. prefix p k}) \<and> br_bytes r2 = rest)))"
proof -
  let ?kvs = "sorted_kvs (store s) (prefix p)"
  note fin = etcd_server.finite_store [OF assms(1), of s]
  obtain inst meta where bp: "backup_paths base = (inst, meta)" by force
  obtain rev where "etcdKV_BackupKV C (\<lambda>cnt rev inst meta. Inr (hdr cnt rev inst meta)) (\<lambda>k v. Inr (enc k v)) fuel base pre batch s =
      map_option (\<lambda>r. res_bind r (\<lambda>w. Inr (w @ frame []))) (BackupKV_loop C (\<lambda>k v. Inr (enc k v)) (length ?kvs) p batch fuel s
        \<lparr>bk_currentKey = p, bk_i = 0, bk_w = frame (hdr (length ?kvs) rev inst meta)\<rparr>)"
    using backup_run [OF assms(1,2) refl assms(6) bp refl] by metis
  then have run: "etcdKV_BackupKV C (\<lambda>cnt rev inst meta. Inr (hdr cnt rev inst meta)) (\<lambda>k v. Inr (enc k v)) fuel base pre batch s =
      Some (Inr (frame (hdr (length ?kvs) rev inst meta) @ frames enc ?kvs @ frame []))"
    using backup_copies_all [OF assms(1,2) refl assms(7,10)] by simp
  have "length ?kvs < 2 ^ 63" using length_sorted_kvs_le [OF fin] assms(11) by (meson le_less_trans)
  from codec_ok_header [OF assms(5) this] obtain ph where
    ph: "un_part E (hdr (length ?kvs) rev inst meta) = Inr ph" "PartType_of ph = EtcdBackup"
      "restore_meta E ph = Inr (int (length ?kvs), inst)" by blast
  have entries: "\<forall>(k, v) \<in> set ?kvs. enc k v \<noteq> [] \<and> length (enc k v) \<le> max_alloc \<and> un_pair E (enc k v) = Inr (k, v)"
    using assms(5,8) by (auto simp: codec_ok_def set_sorted_kvs [OF fin])
  have dist: "distinct (map fst ?kvs)" using sorted_keys_props(3) [OF fin] by (simp add: sorted_kvs_fst)
  have restored: "map_of ?kvs = store s |` {k. prefix p k}"
    by (simp add: fun_eq_iff restrict_map_def map_of_sorted_kvs [OF fin])
  show ?thesis
  proof (rule exI [of _ "frame (hdr (length ?kvs) rev inst meta) @ frames enc ?kvs @ frame []"], intro conjI allI impI)
    fix r rest lb r0
    assume r: "br_bytes r = (frame (hdr (length ?kvs) rev inst meta) @ frames enc ?kvs @ frame []) @ rest"
      and rd: "Reader_Read 8 r = (Inr lb, r0)" "length lb = 8"
    have "br_bytes r = frame (hdr (length ?kvs) rev inst meta) @ frames enc ?kvs @ frame [] @ rest" using r by simp
    from header_frame [where un = "un_part E", OF this rd _ ph(1)] obtain r1 where r1: "readFixLengthHeader (un_part E) r = (Inr ph, r1)"
      "br_bytes r1 = frames enc ?kvs @ frame [] @ rest" using assms(9) bp length_sorted_kvs_le [OF fin] by auto
    from read_all_frames [OF entries r1(2)] obtain rend where
      rend: "read_all E r1 = (?kvs, Inr (Inr ()), rend)" "br_bytes rend = rest" by blast
    have "int (length ?kvs) = 0 \<longrightarrow> ?kvs = []" by simp
    from restore_part [OF assms(3,4) rend(1) dist ph(3) this, of s0] r1(1) ph(2) rend(2)
    show "\<exists>ph r1. readFixLengthHeader (un_part E) r = (Inr ph, r1) \<and> PartType_of ph = EtcdBackup \<and>
        (\<exists>res r2 s2. restoreEtcdFromBackV2 K2 E ph (r1, s0) res (r2, s2)) \<and>
        (\<forall>res r2 s2. restoreEtcdFromBackV2 K2 E ph (r1, s0) res (r2, s2) \<longrightarrow>
          res = Inr (fst (backup_paths base)) \<and> view2 s2 = view2 s0 ++ (store s |` {k. prefix p k}) \<and> br_bytes r2 = rest)"
      unfolding restored bp fst_conv by blast
  qed (rule run)
qed

section \<open>An instance of the codecs\<close>

text \<open>A key in unary length, key and value; the header carries the number of entries and the instance in the same way.\<close>

definition ref_enc :: "string \<Rightarrow> string \<Rightarrow> bytes" where
  "ref_enc k v = replicate (length k) 1 @ 0 # bytes_of_string (k @ v)"

definition ref_dec :: "bytes \<Rightarrow> string \<times> string" where
  "ref_dec bs = (let n = length (takeWhile (\<lambda>b. b = 1) bs); s = string_of_bytes (drop (Suc n) bs) in (take n s, drop n s))"

lemma ref_dec_enc [simp]: "ref_dec (ref_enc k v) = (k, v)"
proof -
  have "takeWhile (\<lambda>b. b = 1) (replicate n (1 :: u8) @ 0 # bs) = replicate n 1" for n bs by (induction n) auto
  then show ?thesis by (simp add: ref_dec_def ref_enc_def)
qed

lemma ref_enc_size [simp]: "length (ref_enc k v) = Suc (2 * length k + length v)" "ref_enc k v \<noteq> []"
  by (simp_all add: ref_enc_def)

definition ref_env :: restore_env where
  "ref_env = \<lparr>un_pair = Inr \<circ> ref_dec, un_part = \<lambda>bs. Inr \<lparr>PartType_of = EtcdBackup, PartLen = - 1, Extra = bs\<rparr>,
     un_backup = \<lambda>_. Inr \<lparr>bh_Version = 2, bh_Instance = [], bh_Entries = 0\<rparr>,
     un_meta = \<lambda>bs. Inr [''cnt'' \<mapsto> fst (ref_dec bs), ''instance'' \<mapsto> snd (ref_dec bs)], un_session = \<lambda>_. Inl EOF\<rparr>"

lemma ref_un_pair [simp]: "un_pair ref_env (ref_enc k v) = Inr (k, v)"
  by (simp add: ref_env_def)

lemma ref_codec_ok: "codec_ok (\<lambda>cnt rev inst meta. ref_enc (format_int (int cnt)) inst) ref_enc ref_env"
  by (simp add: codec_ok_def) (simp add: ref_env_def)

lemma ref_bulk: "bulk_kv (ref_kv :: (_, unit) MetaKV) map_of" "saves_all (ref_kv :: (_, unit) MetaKV)"
  unfolding ref_kv_def by (rule ref.etcd_bulk.bulk_kv_axioms)
    (simp add: saves_all_def etcd_MetaKV_def etcdKV_MultiSave_def ref_client_def)

theorem restore_terminates_witness:
  "(\<exists>\<tau>. restore_step (ref_kv :: (_, unit) MetaKV) ref_env 1 ''a'' (restore_init \<lparr>br_buf = [7], br_src = []\<rparr> []) \<tau>)"
  using restore_terminates [of 0 "ref_kv :: (_, unit) MetaKV" ref_env 1 "''a''" "\<lparr>br_buf = [7], br_src = []\<rparr>" "[]"
      "restore_init \<lparr>br_buf = [7], br_src = []\<rparr> []"]
  by (simp add: restore_init_def)

lemma ref_part: "\<exists>rend. read_all ref_env \<lparr>br_buf = frames ref_enc [(''a'', ''1'')] @ frame [], br_src = []\<rparr> =
    ([(''a'', ''1'')], Inr (Inr ()), rend)"
  using read_all_frames [of "[(''a'', ''1'')]" ref_enc ref_env "\<lparr>br_buf = frames ref_enc [(''a'', ''1'')] @ frame [], br_src = []\<rparr>" "[]"]
  by (auto simp: br_bytes_def max_alloc_def)


theorem restore_can_lose_error_witness:
  "\<exists>\<sigma>. (restore_step (ref_kv :: (_, unit) MetaKV) ref_env 5 ''i'')\<^sup>*\<^sup>*
      (restore_init \<lparr>br_buf = frame (ref_enc ''a'' ''1'') @ [1, 2], br_src = []\<rparr> []) \<sigma> \<and> rs_main \<sigma> = M_Ret (Inr ''i'')"
proof -
  let ?r = "\<lparr>br_buf = frame (ref_enc ''a'' ''1'') @ [1, 2], br_src = []\<rparr>"
  obtain r1 where r1: "read_entry ref_env ?r = (Entry (''a'', ''1''), r1)" "br_bytes r1 = [1, 2]"
    using read_entry_frame [of ?r "ref_enc ''a'' ''1''" "[1, 2]" ref_env "(''a'', ''1'')"]
    by (auto simp: br_bytes_def max_alloc_def)
  obtain r2 where "io_ReadFull 8 r1 = (Inl UnexpectedEOF, r2)"
    using io_ReadFull_short [of r1 8] r1(2) by auto
  then have "read_entry ref_env r1 = (Stop (Inl UnexpectedEOF), r2)" by (simp add: read_entry_def)
  then have "read_all ref_env ?r = ([(''a'', ''1'')], Inr (Inl UnexpectedEOF), r2)"
    using read_all_step(4) [OF r1(1)] by (simp add: read_all_step(1))
  from restore_can_lose_error [OF ref_bulk(2) this] show ?thesis by (simp add: batchNum_def)
qed

theorem backup_restore_roundtrip_witness:
  "\<exists>bs ph r1 r2 s2. etcdKV_BackupKV ref_client (\<lambda>cnt rev inst meta. Inr (ref_enc (format_int (int cnt)) inst))
      (\<lambda>k v. Inr (ref_enc k v)) 5 ''a'' [] 10 [(''a/x'', ''1'')] = Some (Inr bs) \<and>
    readFixLengthHeader (un_part ref_env) \<lparr>br_buf = bs @ replicate 8 0, br_src = []\<rparr> = (Inr ph, r1) \<and>
    restoreEtcdFromBackV2 (ref_kv :: (_, unit) MetaKV) ref_env ph (r1, []) (Inr ''a'') (r2, s2) \<and>
    map_of s2 = [''a/x'' \<mapsto> ''1''] \<and> br_bytes r2 = replicate 8 0"
proof -
  let ?s = "[(''a/x'', ''1'')]"
  have p: "''a'' = joinPath [''a'', []]" by (simp add: joinPath_def path_Join_def path_Clean_def HasSuffix_def)
  have bp: "backup_paths ''a'' = (''a'', [])" by (simp add: backup_paths_def Let_def)
  have all: "\<forall>q \<in> dom (map_of ?s). ''a'' \<le> q \<longrightarrow> prefix ''a'' q" by simp
  have ks: "\<forall>k v. map_of ?s k = Some v \<longrightarrow> k \<noteq> [] \<and> length (ref_enc k v) \<le> max_alloc"
    by (auto simp: max_alloc_def split: if_splits)
  have "length (format_int (int cnt)) = 1" if "cnt \<le> 1" for cnt :: nat
    using that by (cases cnt) (auto simp: format_int_def format_nat.simps [of 0] format_nat.simps [of "Suc 0"])
  then have h: "\<forall>cnt \<le> card (dom (map_of ?s)). \<forall>rev. length (ref_enc (format_int (int cnt)) (fst (backup_paths ''a''))) \<le> max_alloc"
    by (simp add: bp max_alloc_def)
  have c: "card (dom (map_of ?s)) < 5" "card (dom (map_of ?s)) < 2 ^ 63" by simp_all
  obtain bs where bs: "etcdKV_BackupKV ref_client (\<lambda>cnt rev inst meta. Inr (ref_enc (format_int (int cnt)) inst))
      (\<lambda>k v. Inr (ref_enc k v)) 5 ''a'' [] 10 ?s = Some (Inr bs)"
    and restored: "\<forall>r rest lb r0. br_bytes r = bs @ rest \<longrightarrow> Reader_Read 8 r = (Inr lb, r0) \<longrightarrow> length lb = 8 \<longrightarrow>
      (\<exists>ph r1. readFixLengthHeader (un_part ref_env) r = (Inr ph, r1) \<and> PartType_of ph = EtcdBackup \<and>
        (\<exists>res r2 s2. restoreEtcdFromBackV2 (ref_kv :: (_, unit) MetaKV) ref_env ph (r1, []) res (r2, s2)) \<and>
        (\<forall>res r2 s2. restoreEtcdFromBackV2 (ref_kv :: (_, unit) MetaKV) ref_env ph (r1, []) res (r2, s2) \<longrightarrow>
          res = Inr ''a'' \<and> map_of s2 = map_of [] ++ (map_of ?s |` {k. prefix ''a'' k}) \<and> br_bytes r2 = rest))"
    using backup_restore_roundtrip [where C = ref_client and store = map_of and s = ?s and ?view2.0 = map_of and enc = ref_enc
        and hdr = "\<lambda>cnt rev inst meta. ref_enc (format_int (int cnt)) inst" and base = "''a''" and pre = "[]" and fuel = 5
        and batch = 10 and ?s0.0 = "[]", OF ref.etcd_server_axioms ref_answers ref_bulk ref_codec_ok p all ks h c]
    unfolding bp fst_conv by (elim exE conjE) (rule that)
  let ?r = "\<lparr>br_buf = bs @ replicate 8 0, br_src = []\<rparr>"
  have "Reader_Read 8 ?r = (Inr (take 8 (bs @ replicate 8 0)), \<lparr>br_buf = drop 8 (bs @ replicate 8 0), br_src = []\<rparr>)"
    by (simp add: Reader_Read_def)
  with restored have "\<exists>ph r1. readFixLengthHeader (un_part ref_env) ?r = (Inr ph, r1) \<and> PartType_of ph = EtcdBackup \<and>
        (\<exists>res r2 s2. restoreEtcdFromBackV2 (ref_kv :: (_, unit) MetaKV) ref_env ph (r1, []) res (r2, s2)) \<and>
        (\<forall>res r2 s2. restoreEtcdFromBackV2 (ref_kv :: (_, unit) MetaKV) ref_env ph (r1, []) res (r2, s2) \<longrightarrow>
          res = Inr ''a'' \<and> map_of s2 = map_of [] ++ (map_of ?s |` {k. prefix ''a'' k}) \<and> br_bytes r2 = replicate 8 0)"
    by (simp add: br_bytes_def)
  moreover have "map_of [] ++ (map_of ?s |` {k. prefix ''a'' k}) = [''a/x'' \<mapsto> ''1'']"
    by (auto simp: restrict_map_def fun_eq_iff)
  ultimately show ?thesis using bs by metis
qed

section \<open>A header across a buffer boundary\<close>

text \<open>
  \<open>readFixLengthHeader\<close> takes the length of a part header from one \<open>Read\<close>, which returns only what
  is buffered. When fewer than its eight bytes are left in the buffer, the file counts as finished: the
  load succeeds, and this part and all that follow are left out whatever they contain.
\<close>

theorem restoreV2File_short_header:
  assumes "0 < length (br_buf r)" and "length (br_buf r) < 8"
  shows "restoreV2File K E (r, st) res st' \<longleftrightarrow> res = Inr () \<and> st' = st"
proof -
  have h: "\<exists>r1. readFixLengthHeader un r = (Inl (Failure ''File does not contains valid header''), r1)" for un :: "bytes \<Rightarrow> PartHeader result"
    using assms by (auto simp: readFixLengthHeader_def Reader_Read_def)
  then obtain r1 where r1: "readFixLengthHeader (un_part E) r = (Inl (Failure ''File does not contains valid header''), r1)" by blast
  show ?thesis
  proof
    assume "restoreV2File K E (r, st) res st'"
    then show "res = Inr () \<and> st' = st" by (cases rule: restoreV2File.cases) (auto simp: r1)
  next
    assume "res = Inr () \<and> st' = st"
    then show "restoreV2File K E (r, st) res st'" using header_error [OF r1, of K st] by simp
  qed
qed

theorem restoreV2File_short_header_witness:
  "restoreV2File (ref_kv :: (_, unit) MetaKV) ref_env (\<lparr>br_buf = [3, 0], br_src = [[0, 0, 0, 0, 0, 0, 1, 2, 3]]\<rparr>,
     \<lparr>ms_client = [], ms_instance = [], ms_metrics = Map.empty, ms_defaultMetrics = Map.empty\<rparr>) (Inr ())
     \<lparr>ms_client = [], ms_instance = [], ms_metrics = Map.empty, ms_defaultMetrics = Map.empty\<rparr>"
  by (subst restoreV2File_short_header) simp_all

end
