(* ===== verification/Cli_Framework.thy ===== *)
theory Cli_Framework
  imports Kv_Path Go_Strings
begin

text \<open>
  How commands come into being (\<^verbatim>\<open>framework/command.go\<close>, \<^verbatim>\<open>param.go\<close>, \<^verbatim>\<open>resultset.go\<close>, \<^verbatim>\<open>state.go\<close>, \<^verbatim>\<open>bapps/olc.go\<close>): the methods of a state
  become commands, the fields of a parameter struct become flags and are filled from them, and the commands are
  merged into one tree. What reflection shows of a method and of a struct is a record.

  The packages \<open>pflag\<close> and \<open>cobra\<close> are not part of the repository. A flag set is the record \<open>pflag_ops\<close> with the
  contract \<open>flag_set\<close>; the search for a subcommand is an argument with the contract \<open>cobra_find\<close>.
\<close>

section \<open>Use strings\<close>

definition is_arg :: "string \<Rightarrow> bool" where
  "is_arg part \<longleftrightarrow> HasPrefix part ''['' \<and> HasSuffix part '']''"

fun use_step :: "string \<Rightarrow> string \<times> string list \<Rightarrow> string \<times> string list" where
  "use_step part (lst, result) =
     (if is_arg part then (lst @ '' '' @ part, result)
      else (part, if lst \<noteq> [] then result @ [lst] else result))"

definition ParseUseSegments :: "string \<Rightarrow> string list" where
  "ParseUseSegments use =
     (let (lst, result) = fold use_step (split_on (CHR '' '') use) ([], [])
      in if lst \<noteq> [] then result @ [lst] else result)"

section \<open>Parameter structs and flags\<close>

datatype flag_type = TInt64 | TString | TBool | TInt64Slice | TStringSlice

datatype flag_value = VInt64 i64 | VString string | VBool bool | VInt64Slice "i64 list" | VStringSlice "string list"

fun type_of_value :: "flag_value \<Rightarrow> flag_type" where
  "type_of_value (VInt64 _) = TInt64"
| "type_of_value (VString _) = TString"
| "type_of_value (VBool _) = TBool"
| "type_of_value (VInt64Slice _) = TInt64Slice"
| "type_of_value (VStringSlice _) = TStringSlice"

datatype kind = KInt64 | KString | KBool | KStruct | KSlice kind | KOther

record struct_field =
  f_Name :: string
  f_IsExported :: bool
  f_Kind :: kind
  tag_name :: string
  tag_default :: string
  tag_desc :: string

text \<open>\<open>fl_Var name v desc\<close> is \<open>flags.Int64(name, v, desc)\<close> and its siblings; \<open>fl_Get ty name\<close> is \<open>GetInt64(name)\<close> and its siblings.\<close>

record 'f pflag_ops =
  fl_Var :: "string \<Rightarrow> flag_value \<Rightarrow> string \<Rightarrow> 'f \<Rightarrow> 'f result"
  fl_Get :: "flag_type \<Rightarrow> string \<Rightarrow> 'f \<Rightarrow> flag_value result"

definition default_int64 :: "string \<Rightarrow> i64" where
  "default_int64 s = (case ParseInt 64 s of Inr v \<Rightarrow> word_of_int v | Inl _ \<Rightarrow> 0)"

definition default_bool :: "string \<Rightarrow> bool" where
  "default_bool s = (case ParseBool s of Inr v \<Rightarrow> v | Inl _ \<Rightarrow> False)"

text \<open>Which flag a field asks for; unexported fields, structs and unsupported kinds have none.\<close>

fun field_default :: "kind \<Rightarrow> string \<Rightarrow> flag_value option" where
  "field_default KInt64 d = Some (VInt64 (default_int64 d))"
| "field_default KString d = Some (VString d)"
| "field_default KBool d = Some (VBool (default_bool d))"
| "field_default KStruct d = None"
| "field_default (KSlice KInt64) d = Some (VInt64Slice [])"
| "field_default (KSlice KString) d = Some (VStringSlice [])"
| "field_default (KSlice _) d = None"
| "field_default KOther d = None"

definition setupFlags :: "'f pflag_ops \<Rightarrow> struct_field list \<Rightarrow> 'f \<Rightarrow> 'f result" where
  "setupFlags Fl flds flags =
     res_fold (\<lambda>fld fs.
       if \<not> f_IsExported fld then Inr fs
       else case field_default (f_Kind fld) (tag_default fld) of
              None \<Rightarrow> Inr fs
            | Some dv \<Rightarrow> fl_Var Fl (tag_name fld) dv (tag_desc fld) fs) flds flags"

fun field_type :: "kind \<Rightarrow> flag_type option" where
  "field_type KInt64 = Some TInt64"
| "field_type KString = Some TString"
| "field_type KBool = Some TBool"
| "field_type KStruct = None"
| "field_type (KSlice KInt64) = Some TInt64Slice"
| "field_type (KSlice KString) = Some TStringSlice"
| "field_type (KSlice _) = None"
| "field_type KOther = None"

text \<open>A struct value maps the names of its fields to values.\<close>

definition parseFlags :: "'f pflag_ops \<Rightarrow> struct_field list \<Rightarrow> 'f \<Rightarrow> (string \<Rightarrow> flag_value option) \<Rightarrow>
    (string \<Rightarrow> flag_value option) result" where
  "parseFlags Fl flds flags v =
     res_fold (\<lambda>fld v.
       if \<not> f_IsExported fld then Inr v
       else case field_type (f_Kind fld) of
              None \<Rightarrow> Inr v
            | Some ty \<Rightarrow> res_bind (fl_Get Fl ty (tag_name fld) flags) (\<lambda>p. Inr (v(f_Name fld \<mapsto> p)))) flds v"

section \<open>Formats and results\<close>

datatype Format = FormatUnset | FormatDefault | FormatPlain | FormatJSON | FormatTable | FormatLine

definition NameFormat :: "string \<Rightarrow> Format" where
  "NameFormat name =
     (if name = [] then FormatUnset
      else case map_of [(''default'', FormatDefault), (''plain'', FormatPlain), (''json'', FormatJSON),
                        (''table'', FormatTable), (''line'', FormatLine)] name of
             None \<Rightarrow> FormatDefault
           | Some f \<Rightarrow> f)"

text \<open>The output format of the configuration; a state without one has the default.\<close>

definition GetGlobalFormat :: "string option \<Rightarrow> Format" where
  "GetGlobalFormat config =
     (case config of
        None \<Rightarrow> FormatDefault
      | Some formatName \<Rightarrow> if formatName \<noteq> [] then NameFormat formatName else FormatDefault)"

text \<open>A result set is how it prints; a preset one also has a format.\<close>

record ResultSet =
  PrintAs :: "Format \<Rightarrow> string"
  preset :: "Format option"

definition GetFormat :: "ResultSet \<Rightarrow> Format option" where
  "GetFormat rs = preset rs"

definition output_format :: "Format option \<Rightarrow> ResultSet \<Rightarrow> Format" where
  "output_format global rs =
     (let base = (case global of None \<Rightarrow> FormatDefault | Some f \<Rightarrow> f)
      in case GetFormat rs of
           None \<Rightarrow> base
         | Some f \<Rightarrow> if f \<noteq> FormatUnset then f else base)"

datatype cmd_result = RError "string option" | RSet "ResultSet option" | ROther

fun print_results :: "Format option \<Rightarrow> cmd_result list \<Rightarrow> string list" where
  "print_results global [] = []"
| "print_results global (RError None # rs) = print_results global rs"
| "print_results global (RError (Some msg) # rs) = [msg]"
| "print_results global (RSet None # rs) = print_results global rs"
| "print_results global (RSet (Some x) # rs) = PrintAs x (output_format global x) # print_results global rs"
| "print_results global (ROther # rs) = print_results global rs"

section \<open>Methods become commands\<close>

record param_type =
  p_fields :: "struct_field list"
  p_Desc :: "string \<times> string"
  p_ParamBase :: "(string \<times> string) option"

text \<open>
  A method: its name, how many arguments it has, the receiver included, whether the second is a context, and what
  its third argument is: no parameter struct, one passed by value, or a pointer to one.
\<close>

datatype third_arg = NoParam | ByValue | ByPointer param_type

record go_method =
  m_Name :: string
  m_NumIn :: nat
  m_context :: bool
  m_param :: third_arg

definition GetCmdFromFlag :: "param_type \<Rightarrow> string \<times> string" where
  "GetCmdFromFlag p = (case p_ParamBase p of None \<Rightarrow> ([], []) | Some tags \<Rightarrow> tags)"

datatype 'f command = Command (c_Use: string) (c_Short: string) (c_Flags: 'f) (c_Commands: "'f command list")

text \<open>
  \<open>parseMethod\<close>: a method whose arguments do not fit is skipped. The type of the parameter is read even when there
  is none, and so is the last segment of a use string that has none. The default use string is the name without
  its last eight letters.
\<close>

definition parseMethod :: "'f pflag_ops \<Rightarrow> 'f \<Rightarrow> go_method \<Rightarrow> ('f command \<times> string list) option result" where
  "parseMethod Fl noflags mt =
     (if m_NumIn mt = 0 then Inr None
      else if m_NumIn mt > 1 \<and> \<not> m_context mt then Inr None
      else if m_NumIn mt > 2 \<and> m_param mt = NoParam then Inr None
      else if m_NumIn mt \<le> 2 then Inl (Panic ''nil pointer dereference'')
      else case m_param mt of
             NoParam \<Rightarrow> Inr None
           | ByValue \<Rightarrow> Inl (Panic ''reflect: Elem of invalid type'')
           | ByPointer p \<Rightarrow>
               let (use0, short0) = p_Desc p;
                   (fUse, fDesc) = GetCmdFromFlag p;
                   use1 = (if use0 = [] then fUse else use0);
                   short = (if short0 = [] then fDesc else short0)
               in res_bind (if use1 \<noteq> [] then Inr use1
                     else if length (m_Name mt) < 8 then Inl (Panic ''slice bounds out of range'')
                     else Inr (ToLower (take (length (m_Name mt) - 8) (m_Name mt)))) (\<lambda>use.
                    let uses = ParseUseSegments use
                    in if uses = [] then Inl (Panic ''index out of range'')
                       else res_bind (setupFlags Fl (p_fields p) noflags) (\<lambda>flags.
                              Inr (Some (Command (last uses) short flags [], uses)))))"

text \<open>Only methods named \<open>...Command\<close> are looked at.\<close>

definition parseFunctionCommands :: "'f pflag_ops \<Rightarrow> 'f \<Rightarrow> go_method list \<Rightarrow> (string list \<times> 'f command) list result" where
  "parseFunctionCommands Fl noflags methods =
     res_fold (\<lambda>mt cmds.
       if \<not> HasSuffix (m_Name mt) ''Command'' then Inr cmds
       else res_bind (parseMethod Fl noflags mt) (\<lambda>r.
         case r of None \<Rightarrow> Inr cmds | Some (cmd, uses) \<Rightarrow> Inr (cmds @ [(butlast uses, cmd)]))) methods []"

text \<open>
  Running a command: the result of \<open>ParseArgs\<close> is dropped; \<open>call\<close> is the method on the filled parameters. The
  results are visited from the last to the first.
\<close>

definition run_command :: "'f pflag_ops \<Rightarrow> struct_field list \<Rightarrow> Format option \<Rightarrow> (string \<Rightarrow> flag_value option) \<Rightarrow>
    ((string \<Rightarrow> flag_value option) \<Rightarrow> cmd_result list) \<Rightarrow> 'f \<Rightarrow> string list" where
  "run_command Fl flds global parsedArgs call flags =
     (case parseFlags Fl flds flags parsedArgs of
        Inl e \<Rightarrow> [''error'']
      | Inr p \<Rightarrow> print_results global (rev (call p)))"

section \<open>Merging commands into a tree\<close>

text \<open>What \<open>Find([]string{kw})\<close> answers at a node: an error, the node itself, or one of its subcommands.\<close>

datatype find_result = FindErr | FindSelf | FindSub nat

definition AddCommand :: "'f command \<Rightarrow> 'f command \<Rightarrow> 'f command" where
  "AddCommand cmd node = Command (c_Use node) (c_Short node) (c_Flags node) (c_Commands node @ [cmd])"

definition put_sub :: "nat \<Rightarrow> 'f command \<Rightarrow> 'f command \<Rightarrow> 'f command" where
  "put_sub i sub node = Command (c_Use node) (c_Short node) (c_Flags node) ((c_Commands node)[i := sub])"

text \<open>The first argument of the search tells the root from the other nodes.\<close>

fun merge_item :: "(bool \<Rightarrow> 'f command \<Rightarrow> string \<Rightarrow> find_result) \<Rightarrow> 'f \<Rightarrow> bool \<Rightarrow> string list \<Rightarrow> 'f command \<Rightarrow> 'f command \<Rightarrow>
    'f command" where
  "merge_item Find noflags root [] cmd target = AddCommand cmd target"
| "merge_item Find noflags root (kw # kws) cmd target =
     (let new = AddCommand (merge_item Find noflags False kws cmd (Command kw [] noflags [])) target
      in case Find root target kw of
           FindErr \<Rightarrow> new
         | FindSelf \<Rightarrow> if c_Use target = [] then new else merge_item Find noflags root kws cmd target
         | FindSub i \<Rightarrow>
             if c_Use (c_Commands target ! i) = [] then new
             else put_sub i (merge_item Find noflags False kws cmd (c_Commands target ! i)) target)"

definition MergeFunctionCommands :: "(bool \<Rightarrow> 'f command \<Rightarrow> string \<Rightarrow> find_result) \<Rightarrow> 'f \<Rightarrow> (string list \<times> 'f command) list \<Rightarrow>
    'f command \<Rightarrow> 'f command" where
  "MergeFunctionCommands Find noflags items cmd =
     fold (\<lambda>(kws, c) target. merge_item Find noflags True kws c target) items cmd"

text \<open>\<open>MergeCobraCommands\<close>: a command whose name is known has its subcommands merged into the known one.\<close>

fun MergeCobraCommands :: "(bool \<Rightarrow> 'f command \<Rightarrow> string \<Rightarrow> find_result) \<Rightarrow> bool \<Rightarrow> 'f command list \<Rightarrow> 'f command \<Rightarrow> 'f command"
  where
  "MergeCobraCommands Find root [] base = base"
| "MergeCobraCommands Find root (Command u sh fl subs # cmds) base =
     MergeCobraCommands Find root cmds
       (case Find root base u of
          FindErr \<Rightarrow> AddCommand (Command u sh fl subs) base
        | FindSelf \<Rightarrow> AddCommand (Command u sh fl subs) base
        | FindSub i \<Rightarrow>
            if c_Use (c_Commands base ! i) = c_Use base then AddCommand (Command u sh fl subs) base
            else put_sub i (MergeCobraCommands Find False subs (c_Commands base ! i)) base)"

section \<open>Processing a line\<close>

text \<open>
  \<open>execute\<close> is \<open>RootCmd.Execute\<close> on the words of the line: it may set the next state. States are named.
\<close>

record CmdState =
  cs_label :: string
  cs_nextState :: "string option"
  cs_tag :: string

definition ExitErr :: go_error where
  "ExitErr = Failure ''exited''"

definition SetNext :: "string \<Rightarrow> string option \<Rightarrow> CmdState \<Rightarrow> CmdState" where
  "SetNext tag state s = s\<lparr>cs_tag := tag, cs_nextState := state\<rparr>"

text \<open>The answer is the next state, \<open>None\<close> standing for nil and \<open>Inr ()\<close> for the state itself.\<close>

definition Process :: "(string list \<Rightarrow> (CmdState, unit) go) \<Rightarrow> string \<Rightarrow> CmdState \<Rightarrow>
    ((string option + unit) \<times> go_error option) \<times> CmdState" where
  "Process execute line s =
     (case execute (split_on (CHR '' '') line) s of
        (Inl e, s') \<Rightarrow>
          if e = ExitErr then ((Inl (cs_nextState s'), Some ExitErr), s') else ((Inr (), Some e), s')
      | (Inr _, s') \<Rightarrow>
          (case cs_nextState s' of
             Some n \<Rightarrow> ((Inl (Some n), None), s'\<lparr>cs_nextState := None\<rparr>)
           | None \<Rightarrow> ((Inr (), None), s')))"

section \<open>One-line scripts\<close>

text \<open>
  The application that runs a script given on the command line (\<^verbatim>\<open>bapps/olc.go\<close>): commands are separated by commas, and one
  that starts with \<^verbatim>\<open>#\<close> runs with its output discarded. \<open>process\<close> and \<open>setup\<close> are \<open>Process\<close> and \<open>SetupCommands\<close> of the
  current state; the flag is whether the standard output is discarded when the script is left.
\<close>

record olcCmd =
  oc_cmd :: string
  oc_muted :: bool

definition parseScripts :: "string \<Rightarrow> olcCmd list" where
  "parseScripts script =
     map (\<lambda>raw. if HasPrefix raw ''#'' then \<lparr>oc_cmd = tl raw, oc_muted = True\<rparr> else \<lparr>oc_cmd = raw, oc_muted = False\<rparr>)
       (split_on (CHR '','') script)"

fun run_cmds :: "(string \<Rightarrow> 'st \<Rightarrow> 'st \<times> go_error option) \<Rightarrow> ('st \<Rightarrow> 'st) \<Rightarrow> olcCmd list \<Rightarrow> bool \<Rightarrow> 'st \<Rightarrow> 'st \<times> bool" where
  "run_cmds process setup [] discarded app = (app, discarded)"
| "run_cmds process setup (c # cs) discarded app =
     (case process (oc_cmd c) app of
        (app', Some err) \<Rightarrow> (app', discarded \<or> oc_muted c)
      | (app', None) \<Rightarrow> run_cmds process setup cs discarded (setup app'))"

definition olcApp_Run :: "(string \<Rightarrow> 'st \<Rightarrow> 'st \<times> go_error option) \<Rightarrow> ('st \<Rightarrow> 'st) \<Rightarrow> string \<Rightarrow> 'st \<Rightarrow> 'st \<times> bool" where
  "olcApp_Run process setup script start = run_cmds process setup (parseScripts script) False start"

section \<open>Use strings are split into words with their arguments\<close>

definition plain_word :: "string \<Rightarrow> bool" where
  "plain_word w \<longleftrightarrow> w \<noteq> [] \<and> CHR '' '' \<notin> set w \<and> \<not> is_arg w"

definition arg_word :: "string \<Rightarrow> bool" where
  "arg_word w \<longleftrightarrow> is_arg w \<and> CHR '' '' \<notin> set w"

lemma join_Cons: "join_with d (w # ws) = w @ concat (map (\<lambda>x. d # x) ws)"
  by (induction ws arbitrary: w) auto

lemma use_args: "\<forall>a \<in> set as. arg_word a \<Longrightarrow> fold use_step as (l, r) = (l @ concat (map (\<lambda>x. '' '' @ x) as), r)"
  by (induction as arbitrary: l) (auto simp: arg_word_def)

lemma use_groups:
  "\<forall>(w, as) \<in> set gs. plain_word w \<and> list_all arg_word as \<Longrightarrow> l \<noteq> [] \<Longrightarrow>
    fold use_step (concat (map (\<lambda>(w, as). w # as) gs)) (l, r) =
      (last (l # map (\<lambda>(w, as). join_with (CHR '' '') (w # as)) gs),
       r @ butlast (l # map (\<lambda>(w, as). join_with (CHR '' '') (w # as)) gs))"
proof (induction gs arbitrary: l r)
  case (Cons g gs)
  obtain w as where g: "g = (w, as)" by force
  have w: "plain_word w" "\<forall>a \<in> set as. arg_word a" using Cons.prems by (auto simp: g list_all_iff)
  have "fold use_step (w # as) (l, r) = (join_with (CHR '' '') (w # as), r @ [l])"
    using w Cons.prems(2) by (simp add: use_args plain_word_def join_Cons)
  moreover have "join_with (CHR '' '') (w # as) \<noteq> []" using w by (simp add: plain_word_def join_Cons)
  ultimately show ?case using Cons by (simp add: g)
qed simp

lemma ParseUseSegments_groups:
  assumes "\<forall>(w, as) \<in> set gs. plain_word w \<and> list_all arg_word as" and "gs \<noteq> []"
  shows "ParseUseSegments (join_with (CHR '' '') (concat (map (\<lambda>(w, as). w # as) gs))) =
    map (\<lambda>(w, as). join_with (CHR '' '') (w # as)) gs"
proof -
  obtain w as gs' where gs: "gs = (w, as) # gs'" using assms(2) by (cases gs) auto
  let ?ws = "concat (map (\<lambda>(w, as). w # as) gs)"
  have "\<forall>x \<in> set ?ws. CHR '' '' \<notin> set x" "?ws \<noteq> []"
    using assms(1) by (auto simp: gs plain_word_def arg_word_def list_all_iff)
  then have split: "split_on (CHR '' '') (join_with (CHR '' '') ?ws) = ?ws" by (simp add: split_join)
  have w: "plain_word w" "\<forall>a \<in> set as. arg_word a" using assms(1) by (auto simp: gs list_all_iff)
  have ne: "join_with (CHR '' '') (w # as) \<noteq> []" using w by (simp add: plain_word_def join_Cons)
  have "fold use_step (w # as) ([], []) = (join_with (CHR '' '') (w # as), [])"
    using w by (simp add: use_args plain_word_def join_Cons)
  then have "fold use_step ?ws ([], []) =
      (last (map (\<lambda>(w, as). join_with (CHR '' '') (w # as)) gs), butlast (map (\<lambda>(w, as). join_with (CHR '' '') (w # as)) gs))"
    using use_groups [of gs' "join_with (CHR '' '') (w # as)" "[]"] assms(1) ne by (simp add: gs)
  moreover have "last (map (\<lambda>(w, as). join_with (CHR '' '') (w # as)) gs) \<noteq> []"
  proof -
    obtain w' as' where l: "last gs = (w', as')" by force
    then have "plain_word w'" using assms last_in_set [OF assms(2)] by auto
    then show ?thesis using assms(2) by (simp add: l last_map plain_word_def join_Cons)
  qed
  ultimately show ?thesis using assms(2) by (simp add: ParseUseSegments_def split)
qed

text \<open>No segment at all is left exactly of a string of spaces.\<close>

lemma use_step_blank: "\<forall>p \<in> set ps. p = [] \<Longrightarrow> fold use_step ps ([], []) = ([], [])"
  by (induction ps) (auto simp: is_arg_def)

lemma use_step_kept: "snd acc \<noteq> [] \<or> fst acc \<noteq> [] \<Longrightarrow> snd (fold use_step ps acc) \<noteq> [] \<or> fst (fold use_step ps acc) \<noteq> []"
  by (induction ps arbitrary: acc) (auto split: if_splits)

lemma use_step_word: "p \<in> set ps \<Longrightarrow> p \<noteq> [] \<Longrightarrow> snd (fold use_step ps acc) \<noteq> [] \<or> fst (fold use_step ps acc) \<noteq> []"
proof (induction ps arbitrary: acc)
  case (Cons q ps)
  obtain l r where acc: "acc = (l, r)" by force
  show ?case
  proof (cases "q = p")
    case True
    then show ?thesis using use_step_kept [of "use_step q acc" ps] Cons.prems by (auto simp: acc)
  qed (use Cons in auto)
qed simp

lemma split_blank: "(\<forall>p \<in> set (split_on d s). p = []) \<longleftrightarrow> set s \<subseteq> {d}"
proof
  assume "\<forall>p \<in> set (split_on d s). p = []"
  then show "set s \<subseteq> {d}"
  proof (induction s)
    case (Cons c s)
    obtain p ps where "split_on d s = p # ps" by (cases "split_on d s") auto
    with Cons show ?case by (auto split: if_splits)
  qed simp
next
  assume "set s \<subseteq> {d}"
  then show "\<forall>p \<in> set (split_on d s). p = []" by (induction s) (auto split: if_splits list.splits)
qed

lemma ParseUseSegments_empty: "ParseUseSegments use = [] \<longleftrightarrow> set use \<subseteq> {CHR '' ''}"
proof -
  let ?r = "fold use_step (split_on (CHR '' '') use) ([], [])"
  have "ParseUseSegments use = [] \<longleftrightarrow> snd ?r = [] \<and> fst ?r = []"
    by (simp add: ParseUseSegments_def case_prod_unfold Let_def)
  also have "\<dots> \<longleftrightarrow> (\<forall>p \<in> set (split_on (CHR '' '') use). p = [])"
    using use_step_blank use_step_word [of _ "split_on (CHR '' '') use" "([], [])"] by fastforce
  finally show ?thesis by (simp add: split_blank)
qed

section \<open>Flags are read at the type they are defined with\<close>

lemma field_type_default: "field_type k = map_option type_of_value (field_default k d)"
  by (cases "(k, d)" rule: field_default.cases) simp_all

definition flagged :: "struct_field \<Rightarrow> bool" where
  "flagged fld \<longleftrightarrow> f_IsExported fld \<and> field_type (f_Kind fld) \<noteq> None"

text \<open>The documented behaviour of a flag set: a name is defined once, and read at the type of its value.\<close>

locale flag_set =
  fixes Fl :: "'f pflag_ops" and defined :: "'f \<Rightarrow> string \<Rightarrow> flag_value option"
  assumes Var_new: "defined f name = None \<Longrightarrow> \<exists>f'. fl_Var Fl name v d f = Inr f' \<and> defined f' = (defined f)(name \<mapsto> v)"
    and Var_again: "defined f name = Some w \<Longrightarrow> fl_Var Fl name v d f = Inl (Panic ''flag redefined'')"
    and Get_defined: "defined f name = Some v \<Longrightarrow> fl_Get Fl (type_of_value v) name f = Inr v"
    and Get_other: "map_option type_of_value (defined f name) \<noteq> Some ty \<Longrightarrow> \<exists>e. fl_Get Fl ty name f = Inl e"
begin

lemma setup_step:
  assumes "flagged fld"
  shows "\<exists>dv. field_default (f_Kind fld) (tag_default fld) = Some dv \<and> field_type (f_Kind fld) = Some (type_of_value dv)"
  using assms field_type_default [of "f_Kind fld" "tag_default fld"] by (auto simp: flagged_def)

lemma setup_skip: "\<not> flagged fld \<Longrightarrow> f_IsExported fld \<Longrightarrow> field_default (f_Kind fld) (tag_default fld) = None"
  using field_type_default [of "f_Kind fld" "tag_default fld"] by (simp add: flagged_def)

lemma setupFlags_Cons:
  "setupFlags Fl (fld # flds) f =
     (if \<not> flagged fld then setupFlags Fl flds f
      else res_bind (fl_Var Fl (tag_name fld) (the (field_default (f_Kind fld) (tag_default fld))) (tag_desc fld) f)
             (setupFlags Fl flds))"
  using setup_step [of fld] setup_skip [of fld] by (auto simp: setupFlags_def [abs_def] flagged_def)

lemma setupFlags_ok:
  "distinct (map tag_name (filter flagged flds)) \<Longrightarrow> \<forall>fld \<in> set flds. flagged fld \<longrightarrow> defined f (tag_name fld) = None \<Longrightarrow>
    \<exists>f'. setupFlags Fl flds f = Inr f' \<and>
      (\<forall>fld \<in> set flds. flagged fld \<longrightarrow> defined f' (tag_name fld) = field_default (f_Kind fld) (tag_default fld)) \<and>
      (\<forall>n. n \<notin> set (map tag_name (filter flagged flds)) \<longrightarrow> defined f' n = defined f n)"
proof (induction flds arbitrary: f)
  case Nil
  then show ?case by (simp add: setupFlags_def)
next
  case (Cons fld flds)
  show ?case
  proof (cases "flagged fld")
    case False
    then show ?thesis using Cons by (auto simp: setupFlags_Cons)
  next
    case True
    obtain dv where dv: "field_default (f_Kind fld) (tag_default fld) = Some dv" using setup_step [OF True] by blast
    obtain f1 where f1: "fl_Var Fl (tag_name fld) dv (tag_desc fld) f = Inr f1" "defined f1 = (defined f)(tag_name fld \<mapsto> dv)"
      using Var_new [of f "tag_name fld" dv "tag_desc fld"] Cons.prems(2) True by auto
    have new: "tag_name fld \<notin> set (map tag_name (filter flagged flds))" using Cons.prems(1) True by simp
    then have fresh: "\<forall>g \<in> set flds. flagged g \<longrightarrow> tag_name g \<noteq> tag_name fld" by (auto simp: image_iff)
    then have "\<forall>g \<in> set flds. flagged g \<longrightarrow> defined f1 (tag_name g) = None" using Cons.prems(2) by (simp add: f1)
    from Cons.IH [OF _ this] Cons.prems(1) True obtain f' where
      f': "setupFlags Fl flds f1 = Inr f'" and
      a: "\<forall>g \<in> set flds. flagged g \<longrightarrow> defined f' (tag_name g) = field_default (f_Kind g) (tag_default g)" and
      b: "\<forall>n. n \<notin> set (map tag_name (filter flagged flds)) \<longrightarrow> defined f' n = defined f1 n" by auto
    have "setupFlags Fl (fld # flds) f = Inr f'" by (simp add: setupFlags_Cons True dv f1(1) f')
    moreover have "defined f' (tag_name fld) = Some dv" using b new by (simp add: f1(2))
    ultimately show ?thesis using a b True by (auto simp: dv f1(2))
  qed
qed

lemma setupFlags_dup:
  "\<not> distinct (map tag_name (filter flagged flds)) \<or> (\<exists>fld \<in> set flds. flagged fld \<and> defined f (tag_name fld) \<noteq> None) \<Longrightarrow>
    setupFlags Fl flds f = Inl (Panic ''flag redefined'')"
proof (induction flds arbitrary: f)
  case (Cons fld flds)
  show ?case
  proof (cases "flagged fld")
    case False
    then show ?thesis using Cons by (auto simp: setupFlags_Cons)
  next
    case True
    obtain dv where dv: "field_default (f_Kind fld) (tag_default fld) = Some dv" using setup_step [OF True] by blast
    show ?thesis
    proof (cases "defined f (tag_name fld)")
      case (Some w)
      then show ?thesis using Var_again True by (simp add: setupFlags_Cons dv)
    next
      case None
      then obtain f1 where f1: "fl_Var Fl (tag_name fld) dv (tag_desc fld) f = Inr f1" "defined f1 = (defined f)(tag_name fld \<mapsto> dv)"
        using Var_new by blast
      have "\<not> distinct (map tag_name (filter flagged flds)) \<or> (\<exists>g \<in> set flds. flagged g \<and> defined f1 (tag_name g) \<noteq> None)"
        using Cons.prems True None by (auto simp: f1(2))
      from Cons.IH [OF this] show ?thesis by (simp add: setupFlags_Cons True dv f1(1))
    qed
  qed
qed simp

lemma parseFlags_typed:
  "\<forall>fld \<in> set flds. flagged fld \<longrightarrow> map_option type_of_value (defined f (tag_name fld)) = field_type (f_Kind fld) \<Longrightarrow>
    distinct (map f_Name flds) \<Longrightarrow>
    \<exists>v'. parseFlags Fl flds f v = Inr v' \<and>
      (\<forall>fld \<in> set flds. v' (f_Name fld) = (if flagged fld then defined f (tag_name fld) else v (f_Name fld)))
      \<and> (\<forall>n. n \<notin> f_Name ` set flds \<longrightarrow> v' n = v n)"
proof (induction flds arbitrary: v)
  case Nil
  then show ?case by (simp add: parseFlags_def)
next
  case (Cons fld flds)
  define v1 where "v1 = (if flagged fld then v(f_Name fld := defined f (tag_name fld)) else v)"
  have step: "parseFlags Fl (fld # flds) f v = parseFlags Fl flds f v1"
  proof (cases "flagged fld")
    case True
    then obtain w where "defined f (tag_name fld) = Some w" "field_type (f_Kind fld) = Some (type_of_value w)"
      using Cons.prems(1) by (auto simp: flagged_def)
    then show ?thesis using True Get_defined by (simp add: parseFlags_def flagged_def v1_def)
  qed (auto simp: parseFlags_def flagged_def v1_def)
  obtain v' where v': "parseFlags Fl flds f v1 = Inr v'"
    "\<forall>g \<in> set flds. v' (f_Name g) = (if flagged g then defined f (tag_name g) else v1 (f_Name g))"
    "\<forall>n. n \<notin> f_Name ` set flds \<longrightarrow> v' n = v1 n" using Cons.IH [of v1] Cons.prems by auto
  have "f_Name fld \<notin> f_Name ` set flds" using Cons.prems(2) by simp
  moreover from this have "f_Name g \<noteq> f_Name fld" if "g \<in> set flds" for g using that by (metis imageI)
  then have "\<forall>g \<in> set flds. v1 (f_Name g) = v (f_Name g)" by (simp add: v1_def)
  ultimately show ?case using v' by (auto simp: step v1_def)
qed

end

text \<open>A flag set that is a table keeps the contract.\<close>

definition ref_flags :: "(string \<times> flag_value) list pflag_ops" where
  "ref_flags = \<lparr>
     fl_Var = (\<lambda>name v desc f. if map_of f name = None then Inr ((name, v) # f) else Inl (Panic ''flag redefined'')),
     fl_Get = (\<lambda>ty name f. case map_of f name of
        None \<Rightarrow> Inl (Failure ''flag accessed but not defined'')
      | Some v \<Rightarrow> if type_of_value v = ty then Inr v else Inl (Failure ''trying to get value of flag of another type''))\<rparr>"

interpretation ref_fl: flag_set ref_flags map_of
  by unfold_locales (auto simp: ref_flags_def split: option.splits)

text \<open>
  Property C28. The flags of a command have the types at which its parameters are read. When no two exported fields
  of a supported kind share a flag name, setting up defines every such flag with its default, and from every flag
  set that gives these names values of their types, as the command line does, filling the struct succeeds and
  takes each field from its own flag. When two fields share a name, setting up panics.
\<close>

theorem flags_typed:
  assumes "flag_set Fl defined" and "\<forall>n. defined noflags n = None" and "distinct (map f_Name flds)"
  shows "if distinct (map tag_name (filter flagged flds)) then
      \<exists>f. setupFlags Fl flds noflags = Inr f \<and>
        (\<forall>fld \<in> set flds. flagged fld \<longrightarrow> defined f (tag_name fld) = field_default (f_Kind fld) (tag_default fld)) \<and>
        (\<forall>f' v. (\<forall>n w. defined f n = Some w \<longrightarrow> map_option type_of_value (defined f' n) = Some (type_of_value w)) \<longrightarrow>
          (\<exists>v'. parseFlags Fl flds f' v = Inr v' \<and>
            (\<forall>fld \<in> set flds. v' (f_Name fld) = (if flagged fld then defined f' (tag_name fld) else v (f_Name fld)))))
    else setupFlags Fl flds noflags = Inl (Panic ''flag redefined'')"
proof (cases "distinct (map tag_name (filter flagged flds))")
  case True
  obtain f where f: "setupFlags Fl flds noflags = Inr f"
    "\<forall>fld \<in> set flds. flagged fld \<longrightarrow> defined f (tag_name fld) = field_default (f_Kind fld) (tag_default fld)"
    using flag_set.setupFlags_ok [OF assms(1) True, of noflags] assms(2) by auto
  have "\<exists>v'. parseFlags Fl flds f' v = Inr v' \<and>
      (\<forall>fld \<in> set flds. v' (f_Name fld) = (if flagged fld then defined f' (tag_name fld) else v (f_Name fld)))"
    if typed: "\<forall>n w. defined f n = Some w \<longrightarrow> map_option type_of_value (defined f' n) = Some (type_of_value w)" for f' v
  proof -
    have "\<forall>fld \<in> set flds. flagged fld \<longrightarrow> map_option type_of_value (defined f' (tag_name fld)) = field_type (f_Kind fld)"
      using f(2) typed flag_set.setup_step [OF assms(1)] by fastforce
    from flag_set.parseFlags_typed [OF assms(1) this assms(3)] show ?thesis by blast
  qed
  with f True show ?thesis by auto
next
  case False
  then show ?thesis using flag_set.setupFlags_dup [OF assms(1)] by auto
qed

theorem flags_typed_witness:
  "\<exists>f. setupFlags ref_flags
       [\<lparr>f_Name = ''ParamBase'', f_IsExported = True, f_Kind = KStruct, tag_name = [], tag_default = [], tag_desc = []\<rparr>,
        \<lparr>f_Name = ''CollectionID'', f_IsExported = True, f_Kind = KInt64, tag_name = ''collection'', tag_default = ''x'', tag_desc = []\<rparr>,
        \<lparr>f_Name = ''Run'', f_IsExported = True, f_Kind = KBool, tag_name = ''run'', tag_default = ''true'', tag_desc = []\<rparr>] [] = Inr f \<and>
     map_of f ''collection'' = Some (VInt64 0) \<and> map_of f ''run'' = Some (VBool True)"
proof -
  let ?flds = "[\<lparr>f_Name = ''ParamBase'', f_IsExported = True, f_Kind = KStruct, tag_name = [], tag_default = [], tag_desc = []\<rparr>,
        \<lparr>f_Name = ''CollectionID'', f_IsExported = True, f_Kind = KInt64, tag_name = ''collection'', tag_default = ''x'', tag_desc = []\<rparr>,
        \<lparr>f_Name = ''Run'', f_IsExported = True, f_Kind = KBool, tag_name = ''run'', tag_default = ''true'', tag_desc = []\<rparr>]"
  have d: "default_int64 ''x'' = 0" "default_bool ''true''" by (simp_all add: default_int64_def default_bool_def ParseInt_def ParseBool_def is_digit_def)
  have dist: "distinct (map tag_name (filter flagged ?flds))" by (simp add: flagged_def)
  have "distinct (map f_Name ?flds)" by simp
  from flags_typed [OF ref_fl.flag_set_axioms _ this, of "[]"] dist obtain f where
    f: "setupFlags ref_flags ?flds [] = Inr f" and
    v: "\<forall>fld \<in> set ?flds. flagged fld \<longrightarrow> map_of f (tag_name fld) = field_default (f_Kind fld) (tag_default fld)"
    by auto
  have "map_of f ''collection'' = Some (VInt64 0) \<and> map_of f ''run'' = Some (VBool True)"
    using v by (simp add: flagged_def d)
  with f show ?thesis by blast
qed

section \<open>Where a merged command ends up\<close>

text \<open>
  The documented behaviour of \<open>Find\<close> for one word: the first subcommand of that name is found; when there is none, a
  root command that has subcommands reports an error, every other command accepts the word as an argument and
  is found itself.
\<close>

definition command_name :: "'f command \<Rightarrow> string" where
  "command_name c = hd (split_on (CHR '' '') (c_Use c))"

definition keyword :: "string \<Rightarrow> bool" where
  "keyword kw \<longleftrightarrow> kw \<noteq> [] \<and> hd kw \<noteq> CHR ''-'' \<and> CHR '' '' \<notin> set kw"

definition has_sub :: "string \<Rightarrow> 'f command \<Rightarrow> bool" where
  "has_sub kw c \<longleftrightarrow> (\<exists>s \<in> set (c_Commands c). command_name s = kw)"

locale cobra_find =
  fixes Find :: "bool \<Rightarrow> 'f command \<Rightarrow> string \<Rightarrow> find_result"
  assumes Find_sub: "keyword kw \<Longrightarrow> i < length (c_Commands c) \<Longrightarrow> command_name (c_Commands c ! i) = kw \<Longrightarrow>
      \<forall>j < i. command_name (c_Commands c ! j) \<noteq> kw \<Longrightarrow> Find root c kw = FindSub i"
    and Find_none: "keyword kw \<Longrightarrow> \<not> has_sub kw c \<Longrightarrow>
      Find root c kw = (if root \<and> c_Commands c \<noteq> [] then FindErr else FindSelf)"
begin

lemma Find_first:
  assumes "keyword kw" and "has_sub kw c"
  obtains i where "Find root c kw = FindSub i" and "i < length (c_Commands c)" and "command_name (c_Commands c ! i) = kw"
    and "\<forall>j < i. command_name (c_Commands c ! j) \<noteq> kw"
proof -
  have "\<exists>i. i < length (c_Commands c) \<and> command_name (c_Commands c ! i) = kw"
    using assms(2) by (auto simp: has_sub_def in_set_conv_nth)
  then obtain i where "i < length (c_Commands c)" "command_name (c_Commands c ! i) = kw"
    "\<forall>j < i. \<not> (j < length (c_Commands c) \<and> command_name (c_Commands c ! j) = kw)"
    using exists_least_iff [of "\<lambda>i. i < length (c_Commands c) \<and> command_name (c_Commands c ! i) = kw"] by blast
  then show ?thesis using that [of i] Find_sub [OF assms(1), of i c root] by fastforce
qed

end

text \<open>Walking down the tree by names.\<close>

fun node_at :: "'f command \<Rightarrow> string list \<Rightarrow> 'f command option" where
  "node_at c [] = Some c"
| "node_at c (n # ns) =
     (case find (\<lambda>s. command_name s = n) (c_Commands c) of None \<Rightarrow> None | Some s \<Rightarrow> node_at s ns)"

lemma name_not_Nil: "command_name c \<noteq> [] \<Longrightarrow> c_Use c \<noteq> []"
  by (auto simp: command_name_def)

lemma find_append: "find P (xs @ ys) = (case find P xs of None \<Rightarrow> find P ys | Some x \<Rightarrow> Some x)"
  by (induction xs) auto

lemma find_first:
  "i < length xs \<Longrightarrow> P (xs ! i) \<Longrightarrow> \<forall>j < i. \<not> P (xs ! j) \<Longrightarrow> find P xs = Some (xs ! i)"
  unfolding find_Some_iff by blast

lemma find_upd_other: "i < length xs \<Longrightarrow> \<not> P (xs ! i) \<Longrightarrow> \<not> P y \<Longrightarrow> find P (xs[i := y]) = find P xs"
  by (induction xs arbitrary: i) (auto split: nat.splits)

lemma command_name_kw: "keyword kw \<Longrightarrow> command_name (Command kw s f subs) = kw"
  by (simp add: command_name_def keyword_def split_single)

lemma command_name_AddCommand [simp]: "command_name (AddCommand cmd c) = command_name c"
  by (simp add: command_name_def AddCommand_def)

context cobra_find
begin

lemma merge_known:
  assumes "keyword kw" and "Find root c kw = FindSub i" and "command_name (c_Commands c ! i) = kw"
  shows "merge_item Find nf root (kw # kws) cmd c = put_sub i (merge_item Find nf False kws cmd (c_Commands c ! i)) c"
  using assms name_not_Nil [of "c_Commands c ! i"] by (simp add: keyword_def)

lemma merge_unknown:
  assumes "keyword kw" and "\<not> has_sub kw c" and "c_Use c = []"
  shows "merge_item Find nf root (kw # kws) cmd c = AddCommand (merge_item Find nf False kws cmd (Command kw [] nf [])) c"
  using Find_none [OF assms(1,2), of root] assms(3) by simp

lemma merge_dropped:
  assumes "keyword kw" and "\<not> has_sub kw c" and "c_Use c \<noteq> []"
  shows "merge_item Find nf False (kw # kws) cmd c = merge_item Find nf False kws cmd c"
  using Find_none [OF assms(1,2), of False] assms(3) by simp

lemma merge_one:
  assumes "keyword kw" and "c_Use c = []"
  shows "\<exists>node. node_at (merge_item Find nf True [kw] cmd c) [kw] = Some node \<and>
      c_Commands node = (case node_at c [kw] of None \<Rightarrow> [] | Some n \<Rightarrow> c_Commands n) @ [cmd]"
    and "n \<noteq> kw \<Longrightarrow> node_at (merge_item Find nf True [kw] cmd c) [n] = node_at c [n]"
proof -
  let ?m = "merge_item Find nf True [kw] cmd c"
  have "(\<exists>node. node_at ?m [kw] = Some node \<and>
      c_Commands node = (case node_at c [kw] of None \<Rightarrow> [] | Some n \<Rightarrow> c_Commands n) @ [cmd]) \<and>
    (n \<noteq> kw \<longrightarrow> node_at ?m [n] = node_at c [n])"
  proof (cases "has_sub kw c")
    case True
    obtain i where i: "Find True c kw = FindSub i" "i < length (c_Commands c)" "command_name (c_Commands c ! i) = kw"
      "\<forall>j < i. command_name (c_Commands c ! j) \<noteq> kw" by (rule Find_first [OF assms(1) True])
    let ?sub = "c_Commands c ! i"
    have m: "c_Commands ?m = (c_Commands c)[i := AddCommand cmd ?sub]"
      unfolding merge_known [OF assms(1) i(1,3)] by (simp add: put_sub_def)
    have "find (\<lambda>s. command_name s = kw) (c_Commands c) = Some ?sub" using find_first [OF i(2)] i(3,4) by auto
    moreover have "find (\<lambda>s. command_name s = kw) (c_Commands ?m) = Some (AddCommand cmd ?sub)"
      unfolding m using find_first [of i "(c_Commands c)[i := AddCommand cmd ?sub]" "\<lambda>s. command_name s = kw"] i by auto
    moreover have "find (\<lambda>s. command_name s = n) (c_Commands ?m) = find (\<lambda>s. command_name s = n) (c_Commands c)" if "n \<noteq> kw"
      using find_upd_other [OF i(2), of "\<lambda>s. command_name s = n" "AddCommand cmd ?sub"] i(3) that unfolding m by simp
    ultimately show ?thesis by (simp del: merge_item.simps add: AddCommand_def)
  next
    case False
    let ?new = "AddCommand cmd (Command kw [] nf [])"
    have m: "c_Commands ?m = c_Commands c @ [?new]" 
      unfolding merge_unknown [OF assms(1) False assms(2)] by (simp add: AddCommand_def)
    have "find (\<lambda>s. command_name s = kw) (c_Commands c) = None" using False by (auto simp: has_sub_def find_None_iff)
    then show ?thesis
      using command_name_kw [OF assms(1)] by (auto simp del: merge_item.simps simp: m find_append AddCommand_def split: option.split)
  qed
  then show "\<exists>node. node_at ?m [kw] = Some node \<and>
      c_Commands node = (case node_at c [kw] of None \<Rightarrow> [] | Some n \<Rightarrow> c_Commands n) @ [cmd]"
    and "n \<noteq> kw \<Longrightarrow> node_at ?m [n] = node_at c [n]" by blast+
qed

lemma merge_second_dropped:
  assumes "keyword kw" and "keyword kw2" and "c_Use c = []" and "\<And>node. node_at c [kw] = Some node \<Longrightarrow> \<not> has_sub kw2 node"
  shows "merge_item Find nf True (kw # kw2 # kws) cmd c = merge_item Find nf True (kw # kws) cmd c"
proof (cases "has_sub kw c")
  case True
  obtain i where i: "Find True c kw = FindSub i" "i < length (c_Commands c)" "command_name (c_Commands c ! i) = kw"
    "\<forall>j < i. command_name (c_Commands c ! j) \<noteq> kw" by (rule Find_first [OF assms(1) True])
  have "node_at c [kw] = Some (c_Commands c ! i)" using find_first [OF i(2)] i(3,4) by auto
  then have "\<not> has_sub kw2 (c_Commands c ! i)" using assms(4) by blast
  moreover have "c_Use (c_Commands c ! i) \<noteq> []" using name_not_Nil i(3) assms(1) by (auto simp: keyword_def)
  ultimately show ?thesis using merge_known [OF assms(1) i(1,3)] merge_dropped [OF assms(2)] by metis
next
  case False
  have "\<not> has_sub kw2 (Command kw [] nf [])" "c_Use (Command kw [] nf []) \<noteq> []" using assms(1) by (simp_all add: has_sub_def keyword_def)
  then show ?thesis using merge_unknown [OF assms(1) False assms(3)] merge_dropped [OF assms(2)] by metis
qed

end

text \<open>A search that keeps the contract.\<close>

fun index_where :: "('a \<Rightarrow> bool) \<Rightarrow> 'a list \<Rightarrow> nat option" where
  "index_where P [] = None"
| "index_where P (x # xs) = (if P x then Some 0 else map_option Suc (index_where P xs))"

definition ref_find :: "bool \<Rightarrow> 'f command \<Rightarrow> string \<Rightarrow> find_result" where
  "ref_find root c kw =
     (case index_where (\<lambda>s. command_name s = kw) (c_Commands c) of
        Some i \<Rightarrow> FindSub i
      | None \<Rightarrow> if root \<and> c_Commands c \<noteq> [] then FindErr else FindSelf)"

lemma index_where_None: "index_where P xs = None \<longleftrightarrow> (\<forall>x \<in> set xs. \<not> P x)"
  by (induction xs) auto

lemma index_where_first: "i < length xs \<Longrightarrow> P (xs ! i) \<Longrightarrow> \<forall>j < i. \<not> P (xs ! j) \<Longrightarrow> index_where P xs = Some i"
proof (induction xs arbitrary: i)
  case (Cons x xs)
  show ?case
  proof (cases i)
    case (Suc k)
    have "\<not> P x" "\<forall>j < k. \<not> P (xs ! j)" using Cons.prems(3) by (auto simp: Suc)
    then show ?thesis using Cons.IH [of k] Cons.prems(1,2) by (simp add: Suc)
  qed (use Cons.prems in simp)
qed simp

interpretation ref_search: cobra_find ref_find
proof
  show "ref_find root c kw = (if root \<and> c_Commands c \<noteq> [] then FindErr else FindSelf)" if "\<not> has_sub kw c"
    for kw root and c :: "'f command"
    using that index_where_None [of "\<lambda>s. command_name s = kw" "c_Commands c"] by (simp add: ref_find_def has_sub_def)
qed (simp add: ref_find_def index_where_first)

text \<open>
  Where a command is merged into the tree. A command of two words becomes the last subcommand of the
  node of its first word, which is created when it is missing, and no other node below the root changes. But a
  second keyword that the node of the first one does not know is dropped: no node is created for it, and a
  command of three words ends up where the one without the middle word would.
\<close>

theorem merged_command_place:
  assumes "cobra_find Find" and "c_Use c = []" and "keyword kw" and "keyword kw2"
  shows "(\<exists>node. node_at (merge_item Find nf True [kw] cmd c) [kw] = Some node \<and>
      c_Commands node = (case node_at c [kw] of None \<Rightarrow> [] | Some n \<Rightarrow> c_Commands n) @ [cmd]) \<and>
    (\<forall>n. n \<noteq> kw \<longrightarrow> node_at (merge_item Find nf True [kw] cmd c) [n] = node_at c [n]) \<and>
    ((\<forall>node. node_at c [kw] = Some node \<longrightarrow> \<not> has_sub kw2 node) \<longrightarrow>
      merge_item Find nf True (kw # kw2 # kws) cmd c = merge_item Find nf True (kw # kws) cmd c)"
  using cobra_find.merge_one [OF assms(1,3,2)] cobra_find.merge_second_dropped [OF assms(1,3,4,2)] by blast

theorem merged_command_place_witness:
  "merge_item ref_find () True [''set'', ''collection''] (Command ''consistency-level'' [] () []) (Command [] [] () []) =
    merge_item ref_find () True [''set''] (Command ''consistency-level'' [] () []) (Command [] [] () [])"
proof -
  have k: "keyword ''set''" "keyword ''collection''" by (simp_all add: keyword_def)
  show ?thesis
    using merged_command_place [OF ref_search.cobra_find_axioms _ k, of "Command [] [] () []" "()" "Command ''consistency-level'' [] () []" "[]"]
    by (simp del: merge_item.simps)
qed

lemma lower_symbol: "upper_to_lower c \<in> {CHR '' '', CHR ''[''} \<Longrightarrow> upper_to_lower c = c"
proof (cases "CHR ''A'' \<le> c \<and> c \<le> CHR ''Z''")
  case True
  then have "65 \<le> (of_char c :: nat)" "(of_char c :: nat) \<le> 90" by (simp_all add: less_eq_char_def)
  moreover assume "upper_to_lower c \<in> {CHR '' '', CHR ''[''}"
  ultimately show ?thesis using True by (auto simp: upper_to_lower_def char_of_eq_iff take_bit_eq_mod)
qed (auto simp: upper_to_lower_def)

text \<open>
  A command whose parameters name no use string is registered under the lower-case name of its method
  without \<open>Command\<close> and without one letter more, since eight letters are cut from the name while \<open>Command\<close> has seven;
  a method with one letter or none before \<open>Command\<close> panics.
\<close>

theorem default_use_string:
  assumes "m_Name mt = n @ ''Command''" and "m_NumIn mt = 3" and "m_context mt" and "m_param mt = ByPointer p"
    and "fst (p_Desc p) = []" and "fst (GetCmdFromFlag p) = []" and "CHR '' '' \<notin> set n" and "CHR ''['' \<notin> set n"
    and "setupFlags Fl (p_fields p) noflags = Inr flags"
  shows "if length n \<le> 1 then \<exists>msg. parseMethod Fl noflags mt = Inl (Panic msg)
    else \<exists>cmd. parseMethod Fl noflags mt = Inr (Some (cmd, [ToLower (butlast n)])) \<and> c_Use cmd = ToLower (butlast n)"
proof -
  let ?u = "ToLower (butlast n)"
  have u: "take (length (m_Name mt) - 8) (m_Name mt) = butlast n" "(length (m_Name mt) < 8) = (n = [])"
    by (auto simp: assms(1) butlast_conv_take)
  have "CHR '' '' \<notin> set ?u" "CHR ''['' \<notin> set ?u"
    using assms(7,8) lower_symbol in_set_butlastD [of _ n] by (fastforce simp: ToLower_def)+
  moreover from this have "\<not> is_arg ?u" by (auto simp: is_arg_def prefix_def)
  ultimately have "ParseUseSegments ?u = (if ?u = [] then [] else [?u])"
    by (simp add: ParseUseSegments_def split_single)
  moreover have "?u = [] \<longleftrightarrow> length n \<le> 1" by (cases n) (auto simp: ToLower_def)
  moreover obtain d1 d2 where "p_Desc p = ([], d1)" "GetCmdFromFlag p = ([], d2)" using assms(5,6) by (metis prod.collapse)
  ultimately show ?thesis using assms(2-4,9) by (simp add: parseMethod_def u)
qed

theorem default_use_string_witness:
  "\<exists>cmd. parseMethod ref_flags [] \<lparr>m_Name = ''VisitCommand'', m_NumIn = 3, m_context = True,
      m_param = ByPointer \<lparr>p_fields = [], p_Desc = ([], []), p_ParamBase = None\<rparr>\<rparr> = Inr (Some (cmd, [''visi''])) \<and> c_Use cmd = ''visi''"
proof -
  have "ToLower (butlast ''Visit'') = ''visi''" by code_simp
  then show ?thesis
    using default_use_string [of "\<lparr>m_Name = ''VisitCommand'', m_NumIn = 3, m_context = True,
        m_param = ByPointer \<lparr>p_fields = [], p_Desc = ([], []), p_ParamBase = None\<rparr>\<rparr>" "''Visit''"
        "\<lparr>p_fields = [], p_Desc = ([], []), p_ParamBase = None\<rparr>" ref_flags "[]" "[]"]
    by (simp add: GetCmdFromFlag_def setupFlags_def)
qed

end
