(* ===== verification/Cli_Autocomplete.thy ===== *)
theory Cli_Autocomplete
  imports Cli_Framework
begin

text \<open>
  Completion of the command line (\<^verbatim>\<open>states/autocomplete\<close>): the input is cut into components, the leading ones walk down
  the command tree, and the candidates reached suggest how the last one may go on. A command carries what the
  code reads of it: its use string, its short text, the flags in the order \<open>VisitAll\<close> visits them, and its subcommands.
  The file system is the record \<open>fs_ops\<close>. Debug output is left out.
\<close>

section \<open>Components of the input\<close>

datatype cmdCompType = cmdCompAll | cmdCompCommand | cmdCompFlag

datatype inputState = inputStateCmd | inputStateFlagTag | inputStateFlagValue

record cComp =
  cc_raw :: string
  cc_Tag :: string
  cc_Value :: string
  cc_Type :: cmdCompType

record inputResult =
  ir_parts :: "cComp list"
  ir_state :: inputState

definition command_comp :: "string \<Rightarrow> cComp" where
  "command_comp part = \<lparr>cc_raw = part, cc_Tag = part, cc_Value = [], cc_Type = cmdCompCommand\<rparr>"

fun input_step :: "string \<Rightarrow> cComp list \<times> bool \<Rightarrow> cComp list \<times> bool" where
  "input_step part (comps, currentFlagValue) =
     (if currentFlagValue then (butlast comps @ [(last comps)\<lparr>cc_Value := part\<rparr>], False)
      else if HasPrefix part ''-'' then
        (let raw = dropWhile (\<lambda>c. c = CHR ''-'') part
         in if CHR ''='' \<in> set raw then
              (case split_on (CHR ''='') raw of
                 [tag, val] \<Rightarrow> (comps @ [\<lparr>cc_raw = part, cc_Tag = tag, cc_Value = val, cc_Type = cmdCompFlag\<rparr>], False)
               | _ \<Rightarrow> (comps, False))
            else (comps @ [\<lparr>cc_raw = part, cc_Tag = raw, cc_Value = [], cc_Type = cmdCompFlag\<rparr>], True))
      else (comps @ [command_comp part], False))"

definition parseInput :: "string \<Rightarrow> inputResult" where
  "parseInput input =
     (let isEndBlank = HasSuffix input '' '';
          parts = filter (\<lambda>part. part \<noteq> []) (split_on (CHR '' '') input);
          (comps, currentFlagValue) = fold input_step parts ([], False);
          is = (if currentFlagValue then if isEndBlank then inputStateFlagValue else inputStateFlagTag else inputStateCmd)
      in \<lparr>ir_parts = (if isEndBlank then comps @ [command_comp []] else comps), ir_state = is\<rparr>)"

section \<open>Candidates\<close>

type_synonym cmd = "(string \<times> string) list command"

datatype candidate = CmdCandidate cmd | FlagCandidate string string | FileCandidate bool

text \<open>\<open>fs_IsDir\<close> is \<open>os.Stat\<close> with \<open>IsDir\<close>, \<open>fs_ReadDir\<close> lists names and whether they are directories, \<open>fs_Expand\<close> resolves the home directory.\<close>

record fs_ops =
  fs_Expand :: "string \<Rightarrow> string result"
  fs_IsDir :: "string \<Rightarrow> bool result"
  fs_ReadDir :: "string \<Rightarrow> (string \<times> bool) list result"

definition cmd_args :: "cmd \<Rightarrow> candidate list" where
  "cmd_args c =
     concat (map (\<lambda>part.
       if HasPrefix part ''['' \<and> HasSuffix part '']'' then
         (let name = butlast (tl part)
          in (if name = ''file'' then [FileCandidate False] else []) @ (if name = ''directory'' then [FileCandidate True] else []))
       else []) (split_on (CHR '' '') (c_Use c)))"

fun Match :: "candidate \<Rightarrow> cComp \<Rightarrow> bool" where
  "Match (CmdCandidate c) input \<longleftrightarrow> cc_Type input = cmdCompCommand \<and> command_name c = cc_Tag input"
| "Match (FlagCandidate name usage) input \<longleftrightarrow> cc_Type input = cmdCompFlag \<and> cc_Tag input = name"
| "Match (FileCandidate dirs) input \<longleftrightarrow> cc_Type input = cmdCompCommand"

fun NextCandidates :: "candidate \<Rightarrow> candidate list \<Rightarrow> candidate list" where
  "NextCandidates (CmdCandidate c) current =
     map CmdCandidate (c_Commands c) @ map (\<lambda>(name, usage). FlagCandidate name usage) (c_Flags c) @ cmd_args c"
| "NextCandidates (FlagCandidate name usage) current = current"
| "NextCandidates (FileCandidate dirs) current = []"

definition path_Dir :: "string \<Rightarrow> string" where
  "path_Dir p = path_Clean (rev (dropWhile (\<lambda>c. c \<noteq> slash) (rev p)))"

definition fileCandidate_Suggest :: "fs_ops \<Rightarrow> bool \<Rightarrow> cComp \<Rightarrow> (string \<times> string) list" where
  "fileCandidate_Suggest fs dirs target =
     (case (if HasPrefix (cc_Tag target) ''~'' then fs_Expand fs (cc_Tag target) else Inr (cc_Tag target)) of
        Inl e \<Rightarrow> []
      | Inr ctag \<Rightarrow>
          let (d, part) = (if HasSuffix ctag ''/'' then (ctag, []) else (path_Dir ctag, path_Base ctag))
          in if cc_Type target = cmdCompAll then [(''file'', ''folder/part: '' @ d @ ''/'' @ part)]
             else case fs_IsDir fs d of
                    Inl e \<Rightarrow> []
                  | Inr isDir \<Rightarrow>
                      if \<not> isDir then []
                      else case fs_ReadDir fs d of
                             Inl e \<Rightarrow> []
                           | Inr files \<Rightarrow>
                               map (\<lambda>(name, _). (path_Join [d, name], []))
                                 (filter (\<lambda>(name, isDir). HasPrefix name part \<and> (\<not> dirs \<or> isDir)) files))"

fun Suggest :: "fs_ops \<Rightarrow> cComp \<Rightarrow> candidate \<Rightarrow> (string \<times> string) list" where
  "Suggest fs target (CmdCandidate c) =
     (if HasPrefix (command_name c) (cc_Tag target) \<or> cc_Type target = cmdCompAll then [(command_name c, c_Short c)] else [])"
| "Suggest fs target (FlagCandidate name usage) =
     (if (HasPrefix (''--'' @ name) (cc_raw target) \<and> HasPrefix (cc_raw target) ''--'') \<or> cc_Type target = cmdCompAll
      then [(''--'' @ name, usage)] else [])"
| "Suggest fs target (FileCandidate dirs) = fileCandidate_Suggest fs dirs target"

section \<open>Suggestions\<close>

fun reduce_comps :: "cComp list \<Rightarrow> candidate list \<Rightarrow> candidate list option" where
  "reduce_comps [] candidates = Some candidates"
| "reduce_comps (c # comps) candidates =
     (case find (\<lambda>cand. Match cand c) candidates of
        None \<Rightarrow> None
      | Some cand \<Rightarrow> reduce_comps comps (NextCandidates cand candidates))"

definition collect :: "fs_ops \<Rightarrow> cComp \<Rightarrow> candidate list \<Rightarrow> (string \<Rightarrow> string option)" where
  "collect fs target candidates = fold (\<lambda>cand m. m ++ map_of (Suggest fs target cand)) candidates Map.empty"

definition findCmdSuggestions :: "fs_ops \<Rightarrow> cComp list \<Rightarrow> cmd list \<Rightarrow> (string \<Rightarrow> string option)" where
  "findCmdSuggestions fs comps commands =
     (if comps = [] then Map.empty
      else case reduce_comps (butlast comps) (map CmdCandidate commands) of
             None \<Rightarrow> Map.empty
           | Some candidates \<Rightarrow> collect fs (last comps) candidates)"

definition SuggestInputCommands :: "fs_ops \<Rightarrow> string \<Rightarrow> cmd list \<Rightarrow> (string \<Rightarrow> string option)" where
  "SuggestInputCommands fs input commands = findCmdSuggestions fs (ir_parts (parseInput input)) commands"

section \<open>The input as a list of words\<close>

lemma input_commands: "\<forall>w \<in> set ws. keyword w \<Longrightarrow> fold input_step ws (comps, False) = (comps @ map command_comp ws, False)"
proof (induction ws arbitrary: comps)
  case (Cons w ws)
  have "\<not> prefix ''-'' w" using Cons.prems by (cases w) (auto simp: keyword_def)
  then show ?case using Cons by simp
qed simp

lemma split_words: "ws \<noteq> [] \<Longrightarrow> \<forall>w \<in> set ws. CHR '' '' \<notin> set w \<Longrightarrow> split_on (CHR '' '') (join_with (CHR '' '') ws) = ws"
  by (simp add: split_join)

lemma join_snoc: "ws \<noteq> [] \<Longrightarrow> join_with d (ws @ [w]) = join_with d ws @ d # w"
  by (induction d ws rule: join_with.induct) auto

lemma join_not_Nil: "join_with d ws = [] \<longleftrightarrow> ws = [] \<or> ws = [[]]"
  by (induction d ws rule: join_with.induct) auto

lemma end_blank:
  "CHR '' '' \<notin> set w \<Longrightarrow> HasSuffix (join_with (CHR '' '') (ws @ [w])) '' '' \<longleftrightarrow> ws \<noteq> [] \<and> w = []"
  by (cases "ws = []"; cases w rule: rev_cases) (auto simp: HasSuffix_char join_snoc)

lemma keyword_props: "keyword w \<Longrightarrow> w \<noteq> [] \<and> CHR '' '' \<notin> set w \<and> \<not> prefix ''-'' w"
  by (cases w) (auto simp: keyword_def)

lemma filter_keywords: "\<forall>w \<in> set ws. keyword w \<Longrightarrow> filter (\<lambda>part. part \<noteq> []) ws = ws"
  by (simp add: filter_id_conv keyword_props)

lemma parse_commands:
  assumes "\<forall>p \<in> set ps. keyword p" and "w = [] \<or> keyword w" and "ps = [] \<longrightarrow> w \<noteq> []"
  shows "ir_parts (parseInput (join_with (CHR '' '') (ps @ [w]))) = map command_comp (ps @ [w])"
proof -
  have sp: "CHR '' '' \<notin> set w" using assms(2) keyword_props by auto
  have "split_on (CHR '' '') (join_with (CHR '' '') (ps @ [w])) = ps @ [w]"
    using assms(1) sp keyword_props by (intro split_words) auto
  moreover have "fold input_step ps ([], False) = (map command_comp ps, False)" using input_commands [OF assms(1)] by simp
  moreover have "w \<noteq> [] \<Longrightarrow> \<not> prefix ''-'' w" using assms(2) keyword_props by auto
  ultimately show ?thesis
    using assms(3) by (simp add: parseInput_def end_blank [OF sp] filter_keywords [OF assms(1)])
qed

section \<open>Walking down the tree\<close>

definition next_of :: "cmd \<Rightarrow> candidate list" where
  "next_of c = map CmdCandidate (c_Commands c) @ map (\<lambda>(name, usage). FlagCandidate name usage) (c_Flags c) @ cmd_args c"

lemma NextCandidates_command [simp]: "NextCandidates (CmdCandidate c) current = next_of c"
  by (simp add: next_of_def)

declare NextCandidates.simps(1) [simp del]

lemma find_map_fun: "find P (map f xs) = map_option f (find (\<lambda>x. P (f x)) xs)"
  by (induction xs) auto

lemma cmd_args_files: "a \<in> set (cmd_args c) \<Longrightarrow> \<exists>d. a = FileCandidate d"
  by (auto simp: cmd_args_def Let_def split: if_splits)

lemma find_next:
  "find (\<lambda>cand. Match cand (command_comp w)) (next_of c) =
     (case find (\<lambda>s. command_name s = w) (c_Commands c) of
        Some s \<Rightarrow> Some (CmdCandidate s)
      | None \<Rightarrow> (case cmd_args c of [] \<Rightarrow> None | a # _ \<Rightarrow> Some a))"
proof -
  have flags: "find (\<lambda>cand. Match cand (command_comp w)) (map (\<lambda>(n, u). FlagCandidate n u) (c_Flags c)) = None"
    by (auto simp: find_None_iff command_comp_def)
  have args: "find (\<lambda>cand. Match cand (command_comp w)) (cmd_args c) = (case cmd_args c of [] \<Rightarrow> None | a # _ \<Rightarrow> Some a)"
  proof (cases "cmd_args c")
    case (Cons a as)
    then obtain d where "a = FileCandidate d" using cmd_args_files [of a c] by auto
    then show ?thesis by (simp add: Cons command_comp_def)
  qed simp
  have subs: "find (\<lambda>cand. Match cand (command_comp w)) (map CmdCandidate (c_Commands c)) =
      map_option CmdCandidate (find (\<lambda>s. command_name s = w) (c_Commands c))"
    by (simp add: find_map_fun command_comp_def)
  show ?thesis
    unfolding next_of_def by (cases "find (\<lambda>s. command_name s = w) (c_Commands c)") (simp_all add: find_append subs flags args)
qed

lemma reduce_none: "reduce_comps cs [] = None \<or> reduce_comps cs [] = Some []"
  by (cases cs) auto

lemma reduce_node:
  "(case node_at c ps of
      Some node \<Rightarrow> reduce_comps (map command_comp ps) (next_of c) = Some (next_of node)
    | None \<Rightarrow> reduce_comps (map command_comp ps) (next_of c) \<in> {None, Some []})"
proof (induction ps arbitrary: c)
  case (Cons p ps)
  show ?case
  proof (cases "find (\<lambda>s. command_name s = p) (c_Commands c)")
    case None
    show ?thesis
    proof (cases "cmd_args c")
      case (Cons a as)
      then obtain d where "a = FileCandidate d" using cmd_args_files [of a c] by auto
      then show ?thesis using None reduce_none [of "map command_comp ps"] by (simp add: find_next Cons)
    qed (simp add: find_next None)
  next
    case (Some s)
    then have "reduce_comps (map command_comp (p # ps)) (next_of c) = reduce_comps (map command_comp ps) (next_of s)"
      by (simp add: find_next)
    then show ?thesis using Cons.IH [of s] Some by (simp only: node_at.simps option.case)
  qed
qed simp

section \<open>What is suggested\<close>

definition completions :: "fs_ops \<Rightarrow> string \<Rightarrow> cmd \<Rightarrow> (string \<Rightarrow> string option)" where
  "completions fs w node =
     fold (\<lambda>cand m. m ++ map_of (Suggest fs (command_comp w) cand)) (cmd_args node)
       (map_of (rev (map (\<lambda>s. (command_name s, c_Short s)) (filter (\<lambda>s. prefix w (command_name s)) (c_Commands node)))))"

lemma fold_subs:
  "cc_Type t \<noteq> cmdCompAll \<Longrightarrow> fold (\<lambda>cand m. m ++ map_of (Suggest fs t cand)) (map CmdCandidate subs) m =
    m ++ map_of (rev (map (\<lambda>s. (command_name s, c_Short s)) (filter (\<lambda>s. prefix (cc_Tag t) (command_name s)) subs)))"
proof (induction subs arbitrary: m)
  case (Cons s subs)
  then show ?case by (cases "prefix (cc_Tag t) (command_name s)") (simp_all add: map_of_append)
qed simp

lemma fold_flags_command:
  "\<not> prefix ''-'' w \<Longrightarrow> fold (\<lambda>cand m. m ++ map_of (Suggest fs (command_comp w) cand)) (map (\<lambda>(n, u). FlagCandidate n u) flags) m = m"
proof (induction flags arbitrary: m)
  case (Cons nu flags)
  have "\<not> prefix ''--'' w" using Cons.prems by (auto simp: prefix_def)
  then show ?case using Cons by (auto simp: command_comp_def split: prod.splits)
qed simp

lemma collect_node:
  assumes "\<not> prefix ''-'' w"
  shows "collect fs (command_comp w) (next_of node) = completions fs w node"
  using fold_subs [of "command_comp w" fs "c_Commands node" Map.empty] fold_flags_command [OF assms]
  by (simp add: collect_def completions_def next_of_def) (simp add: command_comp_def)

lemma root_candidates: "map CmdCandidate commands = next_of (Command [] [] [] commands)"
  by (simp add: next_of_def cmd_args_def)

text \<open>
  Completion of a command: for every tree, every path of command names and every beginning \<open>w\<close> of a word, empty
  or not, the suggestions are those subcommands of the node the path leads to whose names start with \<open>w\<close>, with their
  short texts, and the files its arguments ask for; no flag is suggested. When the path leads nowhere there are none.
\<close>

theorem command_completion:
  assumes "\<forall>p \<in> set ps. keyword p" and "w = [] \<or> keyword w" and "ps = [] \<longrightarrow> w \<noteq> []"
  shows "SuggestInputCommands fs (join_with (CHR '' '') (ps @ [w])) commands =
    (case node_at (Command [] [] [] commands) ps of None \<Rightarrow> Map.empty | Some node \<Rightarrow> completions fs w node)"
proof -
  have w: "\<not> prefix ''-'' w" using assms(2) keyword_props by auto
  have "SuggestInputCommands fs (join_with (CHR '' '') (ps @ [w])) commands =
      (case reduce_comps (map command_comp ps) (next_of (Command [] [] [] commands)) of
         None \<Rightarrow> Map.empty | Some cands \<Rightarrow> collect fs (command_comp w) cands)"
    unfolding SuggestInputCommands_def findCmdSuggestions_def parse_commands [OF assms] root_candidates
    by (simp split: option.split)
  then show ?thesis using reduce_node [where c = "Command [] [] [] commands" and ps = ps] collect_node [OF w]
    by (auto simp: collect_def [of _ _ "[]"] split: option.splits)
qed

text \<open>The file system of the examples is empty.\<close>

definition no_files :: fs_ops where
  "no_files = \<lparr>fs_Expand = \<lambda>p. Inl EOF, fs_IsDir = \<lambda>p. Inl EOF, fs_ReadDir = \<lambda>p. Inl EOF\<rparr>"

definition ref_commands :: "cmd list" where
  "ref_commands = [Command ''show'' ''show things'' []
     [Command ''segment'' ''show segment'' [(''collection'', ''collection id'')] [], Command ''session'' ''show session'' [] [],
      Command ''collections'' ''show collections'' [] []]]"

theorem command_completion_witness:
  "SuggestInputCommands no_files ''show seg'' ref_commands = [''segment'' \<mapsto> ''show segment'']"
proof -
  have k: "\<forall>p \<in> set [''show'']. keyword p" "''seg'' = [] \<or> keyword ''seg''" "[''show''] = [] \<longrightarrow> ''seg'' \<noteq> []"
    by (simp_all add: keyword_def)
  have "SuggestInputCommands no_files (join_with (CHR '' '') ([''show''] @ [''seg''])) ref_commands =
      completions no_files ''seg'' (hd ref_commands)"
    unfolding command_completion [OF k] by (simp add: ref_commands_def command_name_def)
  moreover have "completions no_files ''seg'' (hd ref_commands) = [''segment'' \<mapsto> ''show segment'']"
    by (simp add: completions_def ref_commands_def command_name_def cmd_args_def)
  ultimately show ?thesis by simp
qed

section \<open>Completing a flag\<close>

definition flag_comp :: "string \<Rightarrow> string \<Rightarrow> cComp" where
  "flag_comp fl v = \<lparr>cc_raw = ''--'' @ fl, cc_Tag = fl, cc_Value = v, cc_Type = cmdCompFlag\<rparr>"

definition flag_word :: "string \<Rightarrow> bool" where
  "flag_word fl \<longleftrightarrow> CHR '' '' \<notin> set fl \<and> CHR ''='' \<notin> set fl \<and> \<not> prefix ''-'' fl"

lemma input_flag: "flag_word fl \<Longrightarrow> input_step (''--'' @ fl) (comps, False) = (comps @ [flag_comp fl []], True)"
  by (cases fl) (auto simp: flag_word_def flag_comp_def Let_def)

lemma parse_words:
  assumes "\<forall>w \<in> set (ws @ [w]). w \<noteq> [] \<and> CHR '' '' \<notin> set w"
  shows "ir_parts (parseInput (join_with (CHR '' '') (ws @ [w]))) = fst (fold input_step (ws @ [w]) ([], False))"
proof -
  have split: "split_on (CHR '' '') (join_with (CHR '' '') (ws @ [w])) = ws @ [w]" using assms by (intro split_words) auto
  have "filter (\<lambda>part. part \<noteq> []) (ws @ [w]) = ws @ [w]" using assms by (auto simp: filter_id_conv)
  moreover have "\<not> HasSuffix (join_with (CHR '' '') (ws @ [w])) '' ''" using assms end_blank [of w ws] by simp
  ultimately show ?thesis unfolding parseInput_def split by (simp only: Let_def) (simp add: case_prod_unfold)
qed

lemma parse_flag:
  assumes "\<forall>p \<in> set ps. keyword p" and "flag_word fl"
  shows "ir_parts (parseInput (join_with (CHR '' '') (ps @ [''--'' @ fl]))) = map command_comp ps @ [flag_comp fl []]"
    and "v \<noteq> [] \<Longrightarrow> CHR '' '' \<notin> set v \<Longrightarrow>
      ir_parts (parseInput (join_with (CHR '' '') (ps @ [''--'' @ fl, v]))) = map command_comp ps @ [flag_comp fl v]"
proof -
  have words: "\<forall>w \<in> set (ps @ [''--'' @ fl]). w \<noteq> [] \<and> CHR '' '' \<notin> set w"
    using assms keyword_props by (auto simp: flag_word_def)
  have f: "fold input_step (ps @ [''--'' @ fl]) ([], False) = (map command_comp ps @ [flag_comp fl []], True)"
    using input_commands [OF assms(1)] input_flag [OF assms(2)] by simp
  show "ir_parts (parseInput (join_with (CHR '' '') (ps @ [''--'' @ fl]))) = map command_comp ps @ [flag_comp fl []]"
    unfolding parse_words [OF words] f by simp
  assume "v \<noteq> []" "CHR '' '' \<notin> set v"
  with words have "\<forall>w \<in> set ((ps @ [''--'' @ fl]) @ [v]). w \<noteq> [] \<and> CHR '' '' \<notin> set w" by auto
  from parse_words [OF this]
  have "ir_parts (parseInput (join_with (CHR '' '') ((ps @ [''--'' @ fl]) @ [v]))) =
      fst (input_step v (fold input_step (ps @ [''--'' @ fl]) ([], False)))" by simp
  then show "ir_parts (parseInput (join_with (CHR '' '') (ps @ [''--'' @ fl, v]))) = map command_comp ps @ [flag_comp fl v]"
    unfolding f by (simp add: flag_comp_def)
qed

lemma dom_collect: "dom (collect fs t cands) = fst ` (\<Union>c \<in> set cands. set (Suggest fs t c))"
proof -
  have "dom (fold (\<lambda>cand m. m ++ map_of (Suggest fs t cand)) cands m) = dom m \<union> fst ` (\<Union>c \<in> set cands. set (Suggest fs t c))" for m
    by (induction cands arbitrary: m) (auto simp: dom_map_of_conv_image_fst)
  then show ?thesis by (simp add: collect_def)
qed

lemma file_Suggest_cong:
  "cc_Tag t = cc_Tag t' \<Longrightarrow> cc_Type t = cc_Type t' \<Longrightarrow> fileCandidate_Suggest fs d t = fileCandidate_Suggest fs d t'"
  by (simp only: fileCandidate_Suggest_def)

lemma Suggest_value: "Suggest fs (flag_comp fl v) cand = Suggest fs (flag_comp fl []) cand"
proof (cases cand)
  case (FileCandidate d)
  then show ?thesis using file_Suggest_cong [of "flag_comp fl v" "flag_comp fl []" fs d] by (simp add: flag_comp_def)
qed (simp_all add: flag_comp_def)

text \<open>
  Completion of a flag: behind a path of command names that leads to a node without file arguments, a word
  \<^verbatim>\<open>--fl\<close> is completed to every flag of the node that starts with \<open>fl\<close>, but also to every subcommand that does, although
  no subcommand can stand there. A value behind the flag does not count: what is suggested are still completions
  of the flag.
\<close>

theorem flag_completion:
  assumes "\<forall>p \<in> set ps. keyword p" and "flag_word fl" and "node_at (Command [] [] [] commands) ps = Some node"
    and "cmd_args node = []"
  shows "dom (SuggestInputCommands fs (join_with (CHR '' '') (ps @ [''--'' @ fl])) commands) =
      {''--'' @ n | n. n \<in> fst ` set (c_Flags node) \<and> prefix fl n} \<union> {n. n \<in> command_name ` set (c_Commands node) \<and> prefix fl n} \<and>
    (\<forall>v. v \<noteq> [] \<longrightarrow> CHR '' '' \<notin> set v \<longrightarrow>
      SuggestInputCommands fs (join_with (CHR '' '') (ps @ [''--'' @ fl, v])) commands =
      SuggestInputCommands fs (join_with (CHR '' '') (ps @ [''--'' @ fl])) commands)"
proof -
  have red: "reduce_comps (map command_comp ps) (map CmdCandidate commands) = Some (next_of node)"
    using reduce_node [where c = "Command [] [] [] commands" and ps = ps] assms(3) by (simp add: root_candidates)
  have r: "SuggestInputCommands fs (join_with (CHR '' '') (ps @ [''--'' @ fl])) commands = collect fs (flag_comp fl []) (next_of node)"
    unfolding SuggestInputCommands_def parse_flag(1) [OF assms(1,2)] by (simp add: findCmdSuggestions_def red)
  have "SuggestInputCommands fs (join_with (CHR '' '') (ps @ [''--'' @ fl, v])) commands = collect fs (flag_comp fl []) (next_of node)"
    if "v \<noteq> []" "CHR '' '' \<notin> set v" for v
    unfolding SuggestInputCommands_def parse_flag(2) [OF assms(1,2) that]
    by (simp add: findCmdSuggestions_def red collect_def Suggest_value [of fs fl v])
  moreover have "dom (collect fs (flag_comp fl []) (next_of node)) =
      {''--'' @ n | n. n \<in> fst ` set (c_Flags node) \<and> prefix fl n} \<union> {n. n \<in> command_name ` set (c_Commands node) \<and> prefix fl n}"
    unfolding dom_collect next_of_def assms(4) by (auto simp: flag_comp_def image_iff) force+
  ultimately show ?thesis unfolding r by blast
qed

theorem flag_completion_witness:
  "dom (SuggestInputCommands no_files ''show --co'' [Command ''show'' [] [(''count'', [])] [Command ''collections'' [] [] []]]) =
     {''--count'', ''collections''}"
proof -
  let ?cs = "[Command ''show'' [] [(''count'', [])] [Command ''collections'' [] [] []]]"
  have k: "\<forall>p \<in> set [''show'']. keyword p" "flag_word ''co''" by (simp_all add: keyword_def flag_word_def)
  have n: "node_at (Command [] [] [] ?cs) [''show''] = Some (hd ?cs)" "cmd_args (hd ?cs) = []"
    by (simp_all add: command_name_def cmd_args_def)
  have sets: "{''--'' @ n | n. n \<in> fst ` set (c_Flags (hd ?cs)) \<and> prefix ''co'' n} = {''--count''}"
    "{n. n \<in> command_name ` set (c_Commands (hd ?cs)) \<and> prefix ''co'' n} = {''collections''}"
    by (auto simp: command_name_def)
  have j: "join_with (CHR '' '') ([''show''] @ [''--'' @ ''co'']) = ''show --co''" by simp
  from flag_completion [OF k n, of no_files, THEN conjunct1] show ?thesis
    unfolding sets j by (simp only: Un_insert_left Un_empty_left)
qed

end
