(* ===== verification/Wal_Compare.thy ===== *)
theory Wal_Compare
  imports Go_Strings
begin

text \<open>
  The comparison of the messages of several physical channels (\<^verbatim>\<open>states/consumev2_cmp.go\<close>): the loop that takes one message from every
  channel, compares them and goes on, as a step relation over everything the channels may deliver, and when. The message
  types of the messaging library are a type parameter, with the type that is compared by type alone and the test for
  messages of the log itself as arguments.
\<close>

section \<open>Messages\<close>

text \<open>Of a message: its type, id and time tick, and id and time tick of the message it replicates.\<close>

record 'ty cmp_message =
  cmp_Type :: 'ty
  cmp_MessageID :: string
  cmp_TimeTick :: u64
  cmp_ReplicateHeader :: "(string \<times> u64) option"

definition getMessageID :: "'ty cmp_message \<Rightarrow> string" where
  "getMessageID msg = (case cmp_ReplicateHeader msg of Some (i, _) \<Rightarrow> i | None \<Rightarrow> cmp_MessageID msg)"

definition same_message :: "'ty \<Rightarrow> 'ty cmp_message \<Rightarrow> 'ty cmp_message \<Rightarrow> bool" where
  "same_message alter reference msg \<longleftrightarrow>
     (if cmp_Type reference = alter then cmp_Type msg = alter
      else cmp_Type reference = cmp_Type msg \<and> getMessageID reference = getMessageID msg)"

fun compare_others :: "'ty \<Rightarrow> 'ty cmp_message \<Rightarrow> (string \<Rightarrow> 'ty cmp_message option) \<Rightarrow> string list \<Rightarrow> bool result" where
  "compare_others alter reference current [] = Inr True"
| "compare_others alter reference current (name # names) =
     (case current name of
        None \<Rightarrow> Inl (Panic ''nil pointer dereference'')
      | Some msg \<Rightarrow> if same_message alter reference msg then compare_others alter reference current names else Inr False)"

definition compareCurrentMessages :: "'ty \<Rightarrow> (string \<Rightarrow> 'ty cmp_message option) \<Rightarrow> string list \<Rightarrow> bool result" where
  "compareCurrentMessages alter current names =
     res_bind (go_index names 0) (\<lambda>name.
       case current name of
         None \<Rightarrow> Inl (Panic ''nil pointer dereference'')
       | Some reference \<Rightarrow> compare_others alter reference current (tl names))"

text \<open>What is shown of compared messages: ids, time ticks and the count of each channel.\<close>

definition getMessageInfo :: "string list \<Rightarrow> (string \<Rightarrow> 'ty cmp_message option) \<Rightarrow> (string \<Rightarrow> nat) \<Rightarrow> (string \<times> string \<times> nat) list" where
  "getMessageInfo names current counters =
     map (\<lambda>name. case current name of
         None \<Rightarrow> ([], [], counters name)
       | Some msg \<Rightarrow>
           (case cmp_ReplicateHeader msg of
              None \<Rightarrow> (cmp_MessageID msg, format_nat (unat (cmp_TimeTick msg)), counters name)
            | Some (i, t) \<Rightarrow> (cmp_MessageID msg @ ''(r:'' @ i @ '')'',
                format_nat (unat (cmp_TimeTick msg)) @ ''(r:'' @ format_nat (unat t) @ '')'', counters name))) names"

section \<open>The loop\<close>

datatype outcome = Comparing | Cancelled | Inconsistent | Crashed

text \<open>
  \<open>rest\<close> is what each channel still delivers; \<open>pc\<close> is the channel the round has come to. A map from names to flags is a function.
\<close>

record 'ty cmp_state =
  rest :: "'ty cmp_message list list"
  currentMessages :: "string \<Rightarrow> 'ty cmp_message option"
  messageCounters :: "string \<Rightarrow> nat"
  readyForComparison :: "string \<Rightarrow> bool"
  pc :: nat
  allReady :: bool
  shown :: "(string \<times> string \<times> nat) list list"
  out :: outcome

definition init_cmp :: "'ty cmp_message list list \<Rightarrow> 'ty cmp_state" where
  "init_cmp input = \<lparr>rest = input, currentMessages = (\<lambda>_. None), messageCounters = (\<lambda>_. 0), readyForComparison = (\<lambda>_. False),
     pc = 0, allReady = True, shown = [], out = Comparing\<rparr>"

definition take_message :: "('ty \<Rightarrow> bool) \<Rightarrow> string \<Rightarrow> 'ty cmp_message \<Rightarrow> 'ty cmp_state \<Rightarrow> 'ty cmp_state" where
  "take_message selfControlled name msg st =
     (let st1 = st\<lparr>rest := (rest st)[pc st := tl (rest st ! pc st)], pc := Suc (pc st)\<rparr>
      in if selfControlled (cmp_Type msg) then st1
         else st1\<lparr>currentMessages := (currentMessages st)(name \<mapsto> msg),
                messageCounters := (messageCounters st)(name := messageCounters st name + 1),
                readyForComparison := (readyForComparison st)(name := True)\<rparr>)"

definition next_round :: "'ty cmp_state \<Rightarrow> 'ty cmp_state" where
  "next_round st = st\<lparr>pc := 0, allReady := True\<rparr>"

definition reset_names :: "string list \<Rightarrow> 'ty cmp_state \<Rightarrow> 'ty cmp_state" where
  "reset_names names st = st\<lparr>readyForComparison := (\<lambda>n. if n \<in> set names then False else readyForComparison st n),
     currentMessages := (\<lambda>n. if n \<in> set names then None else currentMessages st n)\<rparr>"

definition finish_round :: "'ty \<Rightarrow> string list \<Rightarrow> 'ty cmp_state \<Rightarrow> 'ty cmp_state" where
  "finish_round alter names st =
     (if allReady st \<and> list_all (readyForComparison st) names then
        (case compareCurrentMessages alter (currentMessages st) names of
           Inl _ \<Rightarrow> st\<lparr>out := Crashed\<rparr>
         | Inr False \<Rightarrow> st\<lparr>out := Inconsistent\<rparr>
         | Inr True \<Rightarrow> next_round (reset_names names
             (st\<lparr>shown := shown st @ [getMessageInfo names (currentMessages st) (messageCounters st)]\<rparr>)))
      else next_round st)"

text \<open>
  One step of the loop. Whether a channel has its next message at hand is up to the environment; a closed channel is
  noticed only when everything was taken from it. Cancellation and signals are looked at between rounds.
\<close>

inductive cmp_step :: "'ty \<Rightarrow> ('ty \<Rightarrow> bool) \<Rightarrow> string list \<Rightarrow> (nat \<Rightarrow> bool) \<Rightarrow> 'ty cmp_state \<Rightarrow> 'ty cmp_state \<Rightarrow> bool"
  for alter selfControlled names closes where
  cancel: "out st = Comparing \<Longrightarrow> pc st = 0 \<Longrightarrow> cmp_step alter selfControlled names closes st (st\<lparr>out := Cancelled\<rparr>)"
| ready: "out st = Comparing \<Longrightarrow> pc st < length names \<Longrightarrow> readyForComparison st (names ! pc st) \<Longrightarrow>
    cmp_step alter selfControlled names closes st (st\<lparr>pc := Suc (pc st)\<rparr>)"
| receive: "out st = Comparing \<Longrightarrow> pc st < length names \<Longrightarrow> \<not> readyForComparison st (names ! pc st) \<Longrightarrow>
    rest st ! pc st = msg # msgs \<Longrightarrow>
    cmp_step alter selfControlled names closes st (take_message selfControlled (names ! pc st) msg st)"
| closed: "out st = Comparing \<Longrightarrow> pc st < length names \<Longrightarrow> \<not> readyForComparison st (names ! pc st) \<Longrightarrow>
    rest st ! pc st = [] \<Longrightarrow> closes (pc st) \<Longrightarrow> cmp_step alter selfControlled names closes st (st\<lparr>pc := Suc (pc st)\<rparr>)"
| no_message: "out st = Comparing \<Longrightarrow> pc st < length names \<Longrightarrow> \<not> readyForComparison st (names ! pc st) \<Longrightarrow>
    cmp_step alter selfControlled names closes st (st\<lparr>pc := Suc (pc st), allReady := False\<rparr>)"
| finish: "out st = Comparing \<Longrightarrow> pc st = length names \<Longrightarrow>
    cmp_step alter selfControlled names closes st (finish_round alter names st)"

inductive_cases cmp_stepE: "cmp_step alter selfControlled names closes st st'"

abbreviation cmp_reachable :: "'ty \<Rightarrow> ('ty \<Rightarrow> bool) \<Rightarrow> string list \<Rightarrow> (nat \<Rightarrow> bool) \<Rightarrow> 'ty cmp_message list list \<Rightarrow> 'ty cmp_state \<Rightarrow> bool" where
  "cmp_reachable alter selfControlled names closes input \<equiv> (cmp_step alter selfControlled names closes)\<^sup>*\<^sup>* (init_cmp input)"

text \<open>The command: at least two channels, a scanner for each, with the address given for it or none.\<close>

fun open_scanners :: "(string \<Rightarrow> string \<Rightarrow> 'sc result) \<Rightarrow> string list \<Rightarrow> string list \<Rightarrow> nat \<Rightarrow> 'sc list result" where
  "open_scanners newScanner [] addrs i = Inr []"
| "open_scanners newScanner (channel # channels) addrs i =
     res_bind (newScanner channel (if i < length addrs then addrs ! i else [])) (\<lambda>sc.
     res_bind (open_scanners newScanner channels addrs (Suc i)) (\<lambda>scs. Inr (sc # scs)))"

definition CmpPChannelsCommand :: "(string \<Rightarrow> string \<Rightarrow> 'sc result) \<Rightarrow> ('sc \<Rightarrow> 'ty cmp_message list) \<Rightarrow> string list \<Rightarrow> string list \<Rightarrow>
    'ty cmp_state result" where
  "CmpPChannelsCommand newScanner messages pchannels addrs =
     (if length pchannels < 2 then Inl (Failure ''at least 2 pchannels are required for comparison'')
      else res_bind (open_scanners newScanner pchannels addrs 0) (\<lambda>scanners. Inr (init_cmp (map messages scanners))))"

section \<open>What has been compared\<close>

text \<open>The messages of a channel that take part, and whether those with one number agree on all channels.\<close>

definition visible :: "('ty \<Rightarrow> bool) \<Rightarrow> 'ty cmp_message list \<Rightarrow> 'ty cmp_message list" where
  "visible selfControlled msgs = filter (\<lambda>m. \<not> selfControlled (cmp_Type m)) msgs"

definition agree :: "'ty \<Rightarrow> ('ty \<Rightarrow> bool) \<Rightarrow> 'ty cmp_message list list \<Rightarrow> nat \<Rightarrow> bool" where
  "agree alter selfControlled input k \<longleftrightarrow>
     (\<forall>i < length input. same_message alter (visible selfControlled (input ! 0) ! k) (visible selfControlled (input ! i) ! k))"

text \<open>Where a channel stands after a number of rounds.\<close>

definition channel_ok :: "('ty \<Rightarrow> bool) \<Rightarrow> 'ty cmp_message list \<Rightarrow> 'ty cmp_message list \<Rightarrow> nat \<Rightarrow> bool \<Rightarrow> 'ty cmp_message option \<Rightarrow> bool" where
  "channel_ok selfControlled whole left n rdy cur \<longleftrightarrow>
     (\<exists>used. whole = used @ left \<and>
       (if rdy then length (visible selfControlled used) = Suc n \<and> cur = Some (visible selfControlled used ! n)
        else length (visible selfControlled used) = n \<and> cur = None))"

definition cmp_inv :: "'ty \<Rightarrow> ('ty \<Rightarrow> bool) \<Rightarrow> string list \<Rightarrow> 'ty cmp_message list list \<Rightarrow> 'ty cmp_state \<Rightarrow> bool" where
  "cmp_inv alter selfControlled names input st \<longleftrightarrow>
     length (rest st) = length input \<and> pc st \<le> length names \<and>
     (\<forall>i < length names. channel_ok selfControlled (input ! i) (rest st ! i) (length (shown st))
        (readyForComparison st (names ! i)) (currentMessages st (names ! i))) \<and>
     (\<forall>k < length (shown st). agree alter selfControlled input k) \<and>
     out st \<noteq> Crashed \<and>
     (out st = Inconsistent \<longrightarrow> list_all (readyForComparison st) names \<and> \<not> agree alter selfControlled input (length (shown st)))"

lemma visible_Cons: "visible f (used @ m # ms) = visible f (used @ [m]) @ visible f ms"
  by (simp add: visible_def)

lemma channel_ok_receive:
  assumes "channel_ok f whole (msg # msgs) n False cur"
  shows "channel_ok f whole msgs n (\<not> f (cmp_Type msg)) (if f (cmp_Type msg) then cur else Some msg)"
proof -
  obtain used where used: "whole = used @ msg # msgs" "length (visible f used) = n" "cur = None"
    using assms by (auto simp: channel_ok_def)
  then show ?thesis
    unfolding channel_ok_def by (intro exI [of _ "used @ [msg]"]) (auto simp: visible_def nth_append)
qed

lemma channel_ok_next: "channel_ok f whole left n True cur \<Longrightarrow> channel_ok f whole left (Suc n) False None"
  by (auto simp: channel_ok_def)

lemma channel_ok_current:
  "channel_ok f whole left n True cur \<Longrightarrow> n < length (visible f whole) \<and> cur = Some (visible f whole ! n)"
  by (auto simp: channel_ok_def visible_def nth_append)

lemma same_message_refl [simp]: "same_message alter r r"
  by (simp add: same_message_def)

lemma compare_others_all:
  "\<forall>n \<in> set names. cur n = Some (g n) \<Longrightarrow> compare_others alter r cur names = Inr (\<forall>n \<in> set names. same_message alter r (g n))"
  by (induction names) auto

lemma compare_all:
  assumes "names \<noteq> []" and "\<forall>n \<in> set names. cur n = Some (g n)"
  shows "compareCurrentMessages alter cur names = Inr (\<forall>n \<in> set names. same_message alter (g (hd names)) (g n))"
proof -
  obtain n ns where names: "names = n # ns" using assms(1) by (cases names) auto
  then show ?thesis using assms(2) compare_others_all [of ns cur g alter "g n"]
    by (simp add: compareCurrentMessages_def go_index_def)
qed

lemma cmp_inv_compare:
  assumes inv: "cmp_inv alter f names input st" and len: "length input = length names" "names \<noteq> []"
    and ready: "list_all (readyForComparison st) names"
  shows "compareCurrentMessages alter (currentMessages st) names = Inr (agree alter f input (length (shown st)))"
proof -
  let ?k = "length (shown st)"
  have cur: "currentMessages st (names ! i) = Some (visible f (input ! i) ! ?k)" if "i < length names" for i
    using inv ready that channel_ok_current [of f "input ! i"] by (auto simp: cmp_inv_def list_all_length)
  then have "\<forall>n \<in> set names. currentMessages st n = Some (the (currentMessages st n))" by (auto simp: in_set_conv_nth)
  from compare_all [OF len(2) this]
  have "compareCurrentMessages alter (currentMessages st) names =
      Inr (\<forall>n \<in> set names. same_message alter (the (currentMessages st (hd names))) (the (currentMessages st n)))" .
  moreover have "hd names = names ! 0" using len(2) by (simp add: hd_conv_nth)
  ultimately show ?thesis using cur len by (auto simp: agree_def all_set_conv_all_nth)
qed

lemma cmp_inv_init: "length input = length names \<Longrightarrow> cmp_inv alter f names input (init_cmp input)"
  by (auto simp: cmp_inv_def init_cmp_def channel_ok_def visible_def)

lemma cmp_inv_receive:
  assumes inv: "cmp_inv alter f names input st" and len: "length input = length names" "distinct names"
    and "out st = Comparing" "pc st < length names" "\<not> readyForComparison st (names ! pc st)" "rest st ! pc st = msg # msgs"
  shows "cmp_inv alter f names input (take_message f (names ! pc st) msg st)"
proof -
  let ?st = "take_message f (names ! pc st) msg st"
  have fields: "shown ?st = shown st" "out ?st = out st" "pc ?st = Suc (pc st)" "rest ?st = (rest st)[pc st := msgs]"
    using assms(7) by (simp_all add: take_message_def Let_def)
  have "channel_ok f (input ! i) (rest ?st ! i) (length (shown ?st)) (readyForComparison ?st (names ! i)) (currentMessages ?st (names ! i))"
    if i: "i < length names" for i
  proof (cases "i = pc st")
    case True
    then have "channel_ok f (input ! i) (msg # msgs) (length (shown st)) False (currentMessages st (names ! i))"
      using inv i assms(6,7) by (auto simp: cmp_inv_def)
    from channel_ok_receive [OF this] show ?thesis
      using True i inv assms(6,7) len by (auto simp: take_message_def Let_def cmp_inv_def)
  next
    case False
    then have "names ! i \<noteq> names ! pc st" using len(2) i assms(5) by (simp add: nth_eq_iff_index_eq)
    then show ?thesis using inv i False fields by (auto simp: take_message_def Let_def cmp_inv_def)
  qed
  then show ?thesis using inv assms(4,5) fields by (auto simp: cmp_inv_def)
qed

lemma cmp_inv_finish:
  assumes inv: "cmp_inv alter f names input st" and len: "length input = length names" "names \<noteq> []" and "out st = Comparing"
  shows "cmp_inv alter f names input (finish_round alter names st)"
proof (cases "allReady st \<and> list_all (readyForComparison st) names")
  case False
  then show ?thesis using inv by (auto simp: finish_round_def next_round_def cmp_inv_def)
next
  case True
  note cmp = cmp_inv_compare [OF inv len conjunct2 [OF True]]
  show ?thesis
  proof (cases "agree alter f input (length (shown st))")
    case False
    then show ?thesis using inv True cmp by (simp add: finish_round_def cmp_inv_def)
  next
    case agree: True
    have "channel_ok f (input ! i) (rest st ! i) (Suc (length (shown st))) False None" if "i < length names" for i
      using inv True that channel_ok_next by (fastforce simp: cmp_inv_def list_all_length)
    then show ?thesis using inv True cmp agree assms(4)
      by (auto simp: finish_round_def cmp_inv_def next_round_def reset_names_def less_Suc_eq)
  qed
qed

lemma cmp_inv_step:
  assumes inv: "cmp_inv alter f names input st" and len: "length input = length names" "distinct names" "names \<noteq> []"
    and step: "cmp_step alter f names closes st st'"
  shows "cmp_inv alter f names input st'"
  using step
proof (cases rule: cmp_step.cases)
  case (receive msg msgs)
  then show ?thesis using cmp_inv_receive [OF inv len(1,2)] by blast
next
  case finish
  then show ?thesis using cmp_inv_finish [OF inv len(1,3)] by blast
qed (use inv in \<open>auto simp: cmp_inv_def\<close>)

lemma cmp_inv_reachable:
  assumes "cmp_reachable alter f names closes input st" "length input = length names" "distinct names" "names \<noteq> []"
  shows "cmp_inv alter f names input st"
  using assms(1)
proof (induction rule: rtranclp_induct)
  case base
  show ?case using assms(2) by (rule cmp_inv_init)
next
  case (step y z)
  show ?case by (rule cmp_inv_step [OF step.IH assms(2-4) step.hyps(2)])
qed


definition ref_cmp :: "nat \<Rightarrow> string \<Rightarrow> nat cmp_message" where
  "ref_cmp ty i = \<lparr>cmp_Type = ty, cmp_MessageID = i, cmp_TimeTick = 0, cmp_ReplicateHeader = None\<rparr>"

text \<open>Two channels whose first messages differ: three steps of the loop.\<close>

lemma ref_cmp_run:
  "\<exists>st. cmp_reachable 9 (\<lambda>_. False) [''a'', ''b''] (\<lambda>_. True) [[ref_cmp 1 ''x''], [ref_cmp 1 ''y'']] st \<and> out st = Inconsistent \<and> shown st = []"
proof -
  let ?names = "[''a'', ''b'']" and ?f = "\<lambda>_ :: nat. False" and ?x = "ref_cmp 1 ''x''" and ?y = "ref_cmp 1 ''y''"
  let ?step = "cmp_step (9 :: nat) ?f ?names (\<lambda>_. True)"
  define s0 where "s0 = init_cmp [[?x], [?y]]"
  define s1 where "s1 = take_message ?f ''a'' ?x s0"
  define s2 where "s2 = take_message ?f ''b'' ?y s1"
  note defs = s0_def s1_def s2_def init_cmp_def take_message_def
  have "?step s0 s1" using cmp_step.receive [of s0 ?names ?x "[]" 9 ?f "\<lambda>_. True"] by (simp add: s1_def) (simp add: defs)
  moreover have "?step s1 s2" using cmp_step.receive [of s1 ?names ?y "[]" 9 ?f "\<lambda>_. True"] by (simp add: s2_def) (simp add: defs)
  moreover have "?step s2 (finish_round 9 ?names s2)" by (rule cmp_step.finish) (simp_all add: defs)
  ultimately have "?step\<^sup>*\<^sup>* s0 (finish_round 9 ?names s2)" by (meson rtranclp.rtrancl_into_rtrancl rtranclp.rtrancl_refl)
  moreover have "out (finish_round 9 ?names s2) = Inconsistent \<and> shown (finish_round 9 ?names s2) = []"
    by (simp add: finish_round_def compareCurrentMessages_def go_index_def same_message_def getMessageID_def ref_cmp_def defs)
  ultimately show ?thesis unfolding s0_def by blast
qed


text \<open>While it compares, the loop always has a next step that is not a cancellation.\<close>

lemma cmp_goes_on:
  assumes "out st = Comparing" and "pc st \<le> length names"
  shows "\<exists>st'. cmp_step alter f names closes st st' \<and> out st' \<noteq> Cancelled"
proof (cases "pc st = length names")
  case True
  have "out (finish_round alter names st) \<noteq> Cancelled" using assms(1)
    by (auto simp: finish_round_def next_round_def reset_names_def split: sum.splits bool.splits)
  then show ?thesis using cmp_step.finish [OF assms(1) True] by blast
next
  case False
  then have pc: "pc st < length names" using assms(2) by simp
  show ?thesis
  proof (cases "readyForComparison st (names ! pc st)")
    case True
    from cmp_step.ready [OF assms(1) pc this] show ?thesis using assms(1) by fastforce
  next
    case False
    from cmp_step.no_message [OF assms(1) pc this] show ?thesis using assms(1) by fastforce
  qed
qed

text \<open>
  A channel that has no more messages, closed or not, is not reported. When all messages of some channel agree with the others, the
  loop neither ends by itself nor finds an inconsistency, whatever the other channels still deliver: in every state it can reach it was cancelled, or it
  goes on comparing.
\<close>

theorem compare_missing_tail:
  assumes "cmp_reachable alter selfControlled names closes input st"
    and "length input = length names" "distinct names"
    and "i < length names" "\<forall>k < length (visible selfControlled (input ! i)). agree alter selfControlled input k"
  shows "out st = Cancelled \<or> (out st = Comparing \<and>
    (\<exists>st'. cmp_step alter selfControlled names closes st st' \<and> out st' = Comparing))"
proof -
  have ne: "names \<noteq> []" using assms(4) by auto
  have quiet: "out s \<noteq> Inconsistent \<and> out s \<noteq> Crashed" if "cmp_reachable alter selfControlled names closes input s" for s
  proof -
    have inv: "cmp_inv alter selfControlled names input s" by (rule cmp_inv_reachable [OF that assms(2,3) ne])
    moreover have "length (shown s) < length (visible selfControlled (input ! i))" if "out s = Inconsistent"
      using inv that assms(4) channel_ok_current [of selfControlled "input ! i"] by (auto simp: cmp_inv_def list_all_length)
    ultimately show ?thesis using assms(5) by (auto simp: cmp_inv_def)
  qed
  show ?thesis
  proof (cases "out st")
    case Comparing
    have "pc st \<le> length names" using cmp_inv_reachable [OF assms(1-3) ne] by (simp add: cmp_inv_def)
    from cmp_goes_on [OF Comparing this] obtain st' where st': "cmp_step alter selfControlled names closes st st'" "out st' \<noteq> Cancelled"
      by blast
    moreover have "out st' \<noteq> Inconsistent \<and> out st' \<noteq> Crashed"
      by (rule quiet) (rule rtranclp.rtrancl_into_rtrancl [OF assms(1) st'(1)])
    ultimately show ?thesis using Comparing by (metis outcome.exhaust)
  qed (use quiet [OF assms(1)] in auto)
qed

theorem compare_missing_tail_witness:
  "\<exists>st'. cmp_step 9 (\<lambda>_. False) [''a'', ''b''] (\<lambda>_. True) (init_cmp [[], [ref_cmp 1 ''y'']]) st' \<and> out st' = Comparing"
  using compare_missing_tail [of 9 "\<lambda>_. False" "[''a'', ''b'']" "\<lambda>_. True" "[[], [ref_cmp 1 ''y'']]" "init_cmp [[], [ref_cmp 1 ''y'']]" 0]
  by (simp add: visible_def init_cmp_def)

text \<open>The same channel of two clusters has one name, under which one message is kept: it is compared with itself.\<close>

lemma compare_same_names:
  assumes "cmp_reachable alter f names closes input st" and "set names = {a}"
  shows "out st \<noteq> Inconsistent"
  using assms(1)
proof (induction rule: rtranclp_induct)
  case base
  show ?case by (simp add: init_cmp_def)
next
  case (step y z)
  obtain n ns where names: "names = n # ns" using assms(2) by (cases names) auto
  have same: "compareCurrentMessages alter cur names \<noteq> Inr False" for cur
  proof (cases "cur a")
    case None
    then show ?thesis using assms(2) by (auto simp: compareCurrentMessages_def go_index_def names)
  next
    case (Some m)
    then have "\<forall>x \<in> set names. cur x = Some m" using assms(2) by auto
    from compare_all [OF _ this] show ?thesis using names by simp
  qed
  from step.hyps(2) step.IH show ?case
    by (cases rule: cmp_step.cases)
      (use same in \<open>auto simp: take_message_def Let_def finish_round_def next_round_def reset_names_def split: sum.splits bool.splits\<close>)
qed

end
