(* ===== verification/Segment_Check.thy ===== *)
theory Segment_Check
  imports Etcd_Repair
begin

text \<open>
  Two commands that compare the segments of the metadata with the files in the object storage: the report of
  garbage (\<^verbatim>\<open>states/garbage_collect.go\<close>) and the verification of segments (\<^verbatim>\<open>states/verify_segment.go\<close>). The object storage is an argument:
  the files below a prefix, and the answer of a status request.
\<close>

section \<open>Programs that change only some keys\<close>

definition changes_within :: "('s \<Rightarrow> string \<Rightarrow> string option) \<Rightarrow> string set \<Rightarrow> ('s, 'a) prog \<Rightarrow> bool" where
  "changes_within view S m \<longleftrightarrow> (\<forall>s r s'. m s = Some (r, s') \<longrightarrow> (\<forall>k. k \<notin> S \<longrightarrow> view s' k = view s k))"

named_theorems changes_intros \<open>programs that change only some keys\<close>

lemma changes_withinD: "changes_within view S m \<Longrightarrow> m s = Some (r, s') \<Longrightarrow> k \<notin> S \<Longrightarrow> view s' k = view s k"
  by (auto simp: changes_within_def)

lemma changes_reads_only: "reads_only m \<Longrightarrow> changes_within view S m"
  by (auto simp: changes_within_def dest: reads_onlyD)

lemma changes_bind [changes_intros]:
  assumes "changes_within view S m" and "\<And>a. changes_within view S (f a)"
  shows "changes_within view S (prog_bind m f)"
  unfolding changes_within_def
proof (intro allI impI)
  fix s r s' k assume run: "prog_bind m f s = Some (r, s')" and k: "k \<notin> S"
  show "view s' k = view s k"
  proof (cases "m s")
    case None
    then show ?thesis using run by (simp add: prog_bind_def)
  next
    case (Some rs)
    obtain r1 s1 where rs: "rs = (r1, s1)" by force
    have "view s1 k = view s k" using changes_withinD [OF assms(1)] Some k rs by simp
    then show ?thesis using run Some k changes_withinD [OF assms(2)] by (cases r1) (auto simp: prog_bind_def rs)
  qed
qed

lemma changes_if [changes_intros]:
  "(b \<Longrightarrow> changes_within view S m) \<Longrightarrow> (\<not> b \<Longrightarrow> changes_within view S m') \<Longrightarrow> changes_within view S (if b then m else m')"
  by simp

lemma changes_prod [changes_intros]:
  "(\<And>a b. changes_within view S (f a b)) \<Longrightarrow> changes_within view S (case p of (a, b) \<Rightarrow> f a b)"
  by (cases p) simp

lemma changes_basic [changes_intros]:
  "changes_within view S (prog_return a)" "changes_within view S (prog_fail e)" "changes_within view S (prog_lift r)"
  by (simp_all add: changes_within_def)

lemma changes_tolerate [changes_intros]: "changes_within view S m \<Longrightarrow> changes_within view S (tolerate m)"
  by (auto simp: changes_within_def tolerate_def split: option.splits prod.splits sum.splits go_error.splits)

lemma changes_for [changes_intros]: "(\<And>x. x \<in> set xs \<Longrightarrow> changes_within view S (body x)) \<Longrightarrow> changes_within view S (prog_for xs body)"
  by (induction xs) (auto intro: changes_intros)

context meta_kv
begin

lemma changes_Remove [changes_intros]: "joinPath [[], key] \<in> S \<Longrightarrow> changes_within view S (prog_go (kv_Remove K key))"
  unfolding changes_within_def by (metis Remove_frame option.inject prog_unfold(3))

end

lemma reads_only_for [reads_only_intros]: "(\<And>x. x \<in> set xs \<Longrightarrow> reads_only (body x)) \<Longrightarrow> reads_only (prog_for xs body)"
  by (induction xs) (auto intro: reads_only_intros)

lemma reads_only_logs [reads_only_intros]:
  "reads_only (GetStatslogs (getSegmentLazyFunc K unb base info) m)" "reads_only (GetDeltalogs (getSegmentLazyFunc K unb base info) m)"
  unfolding GetStatslogs_def GetDeltalogs_def getSegmentLazyFunc_def lazy_list_def by (intro reads_only_intros)+

section \<open>Programs that return\<close>

definition returns :: "('s, 'a) prog \<Rightarrow> bool" where
  "returns m \<longleftrightarrow> (\<forall>s. m s \<noteq> None)"

named_theorems returns_intros \<open>programs that return\<close>

lemma returnsD: "returns m \<Longrightarrow> \<exists>r s'. m s = Some (r, s')"
  by (force simp: returns_def)

lemma returns_bind [returns_intros]: "returns m \<Longrightarrow> (\<And>a. returns (f a)) \<Longrightarrow> returns (prog_bind m f)"
  by (auto simp: returns_def prog_bind_def split: option.splits prod.splits sum.splits)

lemma returns_basic [returns_intros]:
  "returns (prog_return a)" "returns (prog_fail e)" "returns (prog_lift r)" "returns (prog_go g)"
  by (simp_all add: returns_def)

lemma returns_if [returns_intros]: "returns m \<Longrightarrow> returns m' \<Longrightarrow> returns (if b then m else m')"
  by simp

lemma returns_prod [returns_intros]: "(\<And>a b. returns (f a b)) \<Longrightarrow> returns (case p of (a, b) \<Rightarrow> f a b)"
  by (cases p) simp

lemma returns_for [returns_intros]: "(\<And>x. returns (body x)) \<Longrightarrow> returns (prog_for xs body)"
  by (induction xs) (auto intro: returns_intros)

lemma returns_tolerate [returns_intros]: "returns m \<Longrightarrow> returns (tolerate m)"
  by (auto simp: returns_def tolerate_def split: option.splits prod.splits sum.splits go_error.splits)

lemma returns_loadOnce [returns_intros]: "returns lazy \<Longrightarrow> returns (loadOnce lazy m)"
  by (auto simp: returns_def loadOnce_def split: option.splits prod.splits sum.splits go_error.splits)

lemma returns_ref [returns_intros]: "returns (prog_read (kv_LoadWithPrefix (ref_kv :: (_, unit) MetaKV) pre))"
  by (simp add: returns_def prog_read_def)

section \<open>Garbage\<close>

text \<open>\<open>path[len(root):]\<close> without its leading slashes has six parts.\<close>

definition ParseSegmentIDByBinlog :: "string \<Rightarrow> string \<Rightarrow> int result" where
  "ParseSegmentIDByBinlog root path =
     (if \<not> HasPrefix path root then Inl (Failure ''does not contains rootPath'')
      else let keyStr = split_on slash (dropWhile (\<lambda>c. c = slash) (drop (length root) path))
           in if length keyStr \<noteq> 6 then Inl (Failure ''not a valid binlog path'')
              else ParseInt 64 (keyStr ! 3))"

definition isSegmentHealthy :: "SegmentInfo option \<Rightarrow> bool" where
  "isSegmentHealthy seg \<longleftrightarrow>
     (case seg of None \<Rightarrow> False | Some info \<Rightarrow> si_State info \<noteq> SegmentStateNone \<and> si_State info \<noteq> NotExist \<and> si_State info \<noteq> Dropped)"

definition log_paths :: "FieldBinlog list \<Rightarrow> string set" where
  "log_paths logs = set (concat (map (\<lambda>f. map bl_LogPath (fb_Binlogs f)) logs))"

text \<open>The error of filling a segment is dropped; a panic is not.\<close>

fun fill_all :: "('s, 't) MetaKV \<Rightarrow> (string \<Rightarrow> FieldBinlog result) \<Rightarrow> string \<Rightarrow> SegmentModel list \<Rightarrow> ('s, SegmentInfo list) prog" where
  "fill_all K unb basePath [] s = Some (Inr [], s)"
| "fill_all K unb basePath (m # ms) s =
     (case FillFieldsIfV2 K unb basePath (sm_info m) s of
        None \<Rightarrow> None
      | Some (Inl (Panic msg), _, s') \<Rightarrow> Some (Inl (Panic msg), s')
      | Some (_, info, s') \<Rightarrow> prog_bind (fill_all K unb basePath ms) (\<lambda>infos. prog_return (info # infos)) s')"

datatype log_kind = InsertLog | StatsLog | DeltaLog

definition kind_dir :: "log_kind \<Rightarrow> string" where
  "kind_dir k = (case k of InsertLog \<Rightarrow> ''insert_log'' | StatsLog \<Rightarrow> ''stats_log'' | DeltaLog \<Rightarrow> ''delta_log'')"

definition kind_logs :: "log_kind \<Rightarrow> SegmentInfo \<Rightarrow> FieldBinlog list" where
  "kind_logs k = (case k of InsertLog \<Rightarrow> si_Binlogs | StatsLog \<Rightarrow> si_Statslogs | DeltaLog \<Rightarrow> si_Deltalogs)"

definition valid_logs :: "SegmentInfo list \<Rightarrow> log_kind \<Rightarrow> string set" where
  "valid_logs infos k = (\<Union>info \<in> set (filter (\<lambda>info. isSegmentHealthy (Some info)) infos). log_paths (kind_logs k info))"

datatype gc_verdict = ValidKey | ParseFailed go_error | WaitingForGC int | MaybeGarbage

definition gc_verdict_of :: "string \<Rightarrow> SegmentInfo list \<Rightarrow> log_kind \<Rightarrow> string \<Rightarrow> gc_verdict" where
  "gc_verdict_of root infos k key =
     (if key \<in> valid_logs infos k then ValidKey
      else case ParseSegmentIDByBinlog root key of
             Inl e \<Rightarrow> ParseFailed e
           | Inr segmentID \<Rightarrow>
               (case find (\<lambda>info. sint (si_ID info) = segmentID) (rev infos) of
                  Some info \<Rightarrow> if si_State info = Dropped then WaitingForGC segmentID else MaybeGarbage
                | None \<Rightarrow> MaybeGarbage))"

text \<open>\<open>files\<close> lists the objects below a prefix. The verdicts are written to the report in this order.\<close>

definition garbageCollect :: "('s, 't) MetaKV \<Rightarrow> (string \<Rightarrow> SegmentInfo result) \<Rightarrow> (string \<Rightarrow> FieldBinlog result) \<Rightarrow> (string \<Rightarrow> string list) \<Rightarrow>
    string \<Rightarrow> string \<Rightarrow> ('s, (string \<times> gc_verdict) list) prog" where
  "garbageCollect K un unb files basePath minioRootPath =
     or_empty (prog_bind (ListSegments K un basePath []) (\<lambda>segments.
       prog_bind (fill_all K unb basePath segments) (\<lambda>infos.
         prog_return (concat (map (\<lambda>k. map (\<lambda>key. (key, gc_verdict_of minioRootPath infos k key))
           (files (path_Join [minioRootPath, kind_dir k]))) [InsertLog, StatsLog, DeltaLog])))))"

section \<open>Verification\<close>

fun ReplaceFirst :: "string \<Rightarrow> string \<Rightarrow> string \<Rightarrow> string" where
  "ReplaceFirst [] old new = []"
| "ReplaceFirst (c # s) old new = (if prefix old (c # s) then new @ drop (length old) (c # s) else c # ReplaceFirst s old new)"

text \<open>The value \<open>strconv.ParseInt\<close> returns next to an error.\<close>

definition ParseInt_value :: "nat \<Rightarrow> string \<Rightarrow> int" where
  "ParseInt_value bits s =
     (case ParseInt bits s of
        Inr v \<Rightarrow> v
      | Inl e \<Rightarrow> if e = Failure ''value out of range'' then (if hd s = CHR ''-'' then - (2 ^ (bits - 1)) else 2 ^ (bits - 1) - 1) else 0)"

text \<open>The last \<open>n\<close> parts of a path as numbers, and whether the first of them, which is parsed last, is one.\<close>

definition path_ids :: "nat \<Rightarrow> string \<Rightarrow> (i64 list \<times> bool) result" where
  "path_ids n logPath =
     (let splits = split_on slash logPath
      in res_bind (res_map (\<lambda>j. go_index splits (int (length splits) - int j)) [1..<Suc n]) (\<lambda>parts.
           Inr (rev (map (\<lambda>p. of_int (ParseInt_value 64 p)) parts), \<not> isl (ParseInt 64 (last parts)))))"

definition remove_log :: "('s, 't) MetaKV \<Rightarrow> string \<Rightarrow> log_kind \<Rightarrow> i64 list \<Rightarrow> ('s, unit) prog" where
  "remove_log K basePath k ids =
     (case k of
        InsertLog \<Rightarrow> RemoveSegmentInsertLogPath K basePath ids
      | StatsLog \<Rightarrow> RemoveSegmentStatLogPath K basePath ids
      | DeltaLog \<Rightarrow> RemoveSegmentDeltaLogPath K basePath ids)"

text \<open>\<open>stat\<close> is the status request: nothing, or the code of the error.\<close>

definition verify_log :: "('s, 't) MetaKV \<Rightarrow> (string \<Rightarrow> string option) \<Rightarrow> string \<Rightarrow> string \<Rightarrow> bool \<Rightarrow> log_kind \<Rightarrow> Binlog \<Rightarrow> ('s, unit) prog" where
  "verify_log K stat basePath root mend k log =
     (let logPath = ReplaceFirst (bl_LogPath log) ''ROOT_PATH'' root
      in if stat logPath = Some ''NoSuchKey'' then
           prog_bind (prog_lift (path_ids (if k = DeltaLog then 4 else 5) logPath)) (\<lambda>(ids, ok).
             if mend \<and> ok then tolerate (remove_log K basePath k ids) else prog_return ())
         else prog_return ())"

definition verify_segment :: "('s, 't) MetaKV \<Rightarrow> (string \<Rightarrow> FieldBinlog result) \<Rightarrow> (string \<Rightarrow> string option) \<Rightarrow> string \<Rightarrow> string \<Rightarrow> bool \<Rightarrow>
    SegmentModel \<Rightarrow> ('s, unit) prog" where
  "verify_segment K unb stat basePath root mend m =
     (let lazy = getSegmentLazyFunc K unb basePath (sm_info m)
      in prog_bind (GetBinlogs lazy m) (\<lambda>(m1, binlogs).
         prog_bind (GetStatslogs lazy m1) (\<lambda>(m2, statslogs).
         prog_bind (GetDeltalogs lazy m2) (\<lambda>(m3, deltalogs).
           prog_for [(InsertLog, binlogs), (StatsLog, statslogs), (DeltaLog, deltalogs)] (\<lambda>(k, logs).
             prog_for logs (\<lambda>fbl. prog_for (fb_Binlogs fbl) (verify_log K stat basePath root mend k)))))))"

definition VerifySegmentCommnad :: "('s, 't) MetaKV \<Rightarrow> (string \<Rightarrow> SegmentInfo result) \<Rightarrow> (string \<Rightarrow> FieldBinlog result) \<Rightarrow>
    (string \<Rightarrow> string option) result \<Rightarrow> string \<Rightarrow> i64 \<Rightarrow> string \<Rightarrow> bool \<Rightarrow> ('s, unit) prog" where
  "VerifySegmentCommnad K un unb minio basePath collectionID root mend =
     prog_bind (ListSegments K un basePath [\<lambda>m. si_CollectionID (sm_info m) = collectionID \<and> si_State (sm_info m) = Flushed]) (\<lambda>segments.
     prog_bind (prog_lift minio) (\<lambda>stat.
       prog_for segments (verify_segment K unb stat basePath root mend)))"

section \<open>What a verification removes\<close>

definition log_dir :: "string \<Rightarrow> log_kind \<Rightarrow> string" where
  "log_dir base k = base @ ''/datacoord-meta/'' @ kind_dir k @ ''/''"

lemma remove_log_key:
  assumes "plain_path base" and "ids \<noteq> []"
  shows "joinPath [[], path_Join [base, ''datacoord-meta'', kind_dir k, ids_path ids]] = log_dir base k @ ids_path ids"
proof -
  have pp: "plain_path ''datacoord-meta''" "plain_path (kind_dir k)"
    by (cases k; simp add: kind_dir_def plain_path_def plain_part_def)+
  moreover have "plain_path (ids_path ids)" using assms(2) by (rule plain_ids)
  ultimately have "path_Join [base, ''datacoord-meta'', kind_dir k, ids_path ids] = log_dir base k @ ids_path ids"
    "plain_path (log_dir base k @ ids_path ids)"
    using path_Join_plain [of "[base, ''datacoord-meta'', kind_dir k, ids_path ids]"]
      plain_path_join [of "[base, ''datacoord-meta'', kind_dir k, ids_path ids]"] assms(1)
    by (simp_all add: log_dir_def)
  then show ?thesis using joinPath_plain(1) by simp
qed

definition log_keys :: "string \<Rightarrow> string set" where
  "log_keys base = {k. \<exists>kind. prefix (log_dir base kind) k}"

lemma path_ids_not_Nil: "0 < n \<Longrightarrow> path_ids n p = Inr (ids, ok) \<Longrightarrow> ids \<noteq> []"
proof -
  assume n: "0 < n" and "path_ids n p = Inr (ids, ok)"
  then obtain parts where "res_map (\<lambda>j. go_index (split_on slash p) (int (length (split_on slash p)) - int j)) [1..<Suc n] = Inr parts"
    "ids = rev (map (\<lambda>p. of_int (ParseInt_value 64 p)) parts)"
    by (auto simp: path_ids_def Let_def res_bind_Inr_iff)
  moreover have "res_map f xs = Inr ys \<Longrightarrow> length ys = length xs" for f :: "nat \<Rightarrow> string result" and xs ys
    by (induction xs arbitrary: ys) (auto simp: res_bind_Inr_iff)
  ultimately show "ids \<noteq> []" using n by fastforce
qed

context meta_kv
begin

lemma changes_remove_log:
  assumes "plain_path base" and "ids \<noteq> []"
  shows "changes_within view (log_keys base) (remove_log K base k ids)"
proof -
  have "log_dir base k @ ids_path ids \<in> log_keys base"
    unfolding log_keys_def by (intro CollectI exI [of _ k]) simp
  then have "joinPath [[], path_Join [base, ''datacoord-meta'', kind_dir k, ids_path ids]] \<in> log_keys base"
    unfolding remove_log_key [OF assms] .
  from changes_Remove [OF this] show ?thesis
    by (cases k) (simp_all add: remove_log_def RemoveSegmentInsertLogPath_def RemoveSegmentStatLogPath_def RemoveSegmentDeltaLogPath_def kind_dir_def)
qed

lemma changes_verify_log:
  assumes "plain_path base"
  shows "changes_within view (log_keys base) (verify_log K stat base root mend k log)"
proof -
  let ?p = "ReplaceFirst (bl_LogPath log) ''ROOT_PATH'' root" and ?n = "if k = DeltaLog then 4 else 5 :: nat"
  have "changes_within view (log_keys base) (prog_bind (prog_lift (path_ids ?n ?p)) (\<lambda>(ids, ok).
      if mend \<and> ok then tolerate (remove_log K base k ids) else prog_return ()))"
  proof (cases "path_ids ?n ?p")
    case (Inl e)
    then show ?thesis by (simp add: changes_within_def prog_bind_def)
  next
    case (Inr r)
    obtain ids ok where r: "r = (ids, ok)" by force
    have "ids \<noteq> []" by (rule path_ids_not_Nil [of ?n]) (use Inr r in auto)
    then have "changes_within view (log_keys base) (if mend \<and> ok then tolerate (remove_log K base k ids) else prog_return ())"
      using changes_remove_log [OF assms] by (auto intro: changes_intros)
    then show ?thesis by (simp add: Inr r changes_within_def prog_bind_def)
  qed
  then show ?thesis unfolding verify_log_def Let_def by (auto intro: changes_intros)
qed

lemma changes_verify_segment:
  assumes "plain_path base"
  shows "changes_within view (log_keys base) (verify_segment K unb stat base root mend m)"
proof -
  have "reads_only (GetBinlogs (getSegmentLazyFunc K unb base info) m)" "reads_only (GetStatslogs (getSegmentLazyFunc K unb base info) m)"
    "reads_only (GetDeltalogs (getSegmentLazyFunc K unb base info) m)" for info m
    unfolding GetBinlogs_def GetStatslogs_def GetDeltalogs_def getSegmentLazyFunc_def lazy_list_def by (intro reads_only_intros)+
  note reads = this [THEN changes_reads_only]
  show ?thesis unfolding verify_segment_def Let_def
    by (intro changes_intros reads changes_verify_log [OF assms])
qed

end

text \<open>The directories in which segments and their logs are stored.\<close>

definition stored_dir :: "string \<Rightarrow> string \<Rightarrow> string" where
  "stored_dir base d = base @ ''/datacoord-meta/'' @ d @ ''/''"

lemma stored_not_log:
  assumes "prefix (stored_dir base d) k" and "d \<in> {''s'', ''binlog'', ''statslog'', ''deltalog''}"
  shows "k \<notin> log_keys base"
proof
  assume "k \<in> log_keys base"
  then obtain kind where "prefix (log_dir base kind) k" by (auto simp: log_keys_def)
  then have "prefix (base @ ''/datacoord-meta/'' @ kind_dir kind @ ''/'') k" "prefix (base @ ''/datacoord-meta/'' @ d @ ''/'') k"
    using assms(1) by (simp_all add: log_dir_def stored_dir_def)
  then obtain t where "prefix (kind_dir kind @ ''/'') t" "prefix (d @ ''/'') t"
    by (auto simp: prefix_def)
  then show False using assms(2) by (cases kind) (auto simp: kind_dir_def prefix_def)
qed

text \<open>
  Property C37.
  \<^verbatim>\<open>verify-segment\<close> cannot repair anything: without \<open>Fix\<close> it writes nothing, and with it no entry of a segment and no
  entry of its insert, statistics or delta logs is changed, however it ends and whatever files are missing; the keys it removes lie in directories next to
  them.
\<close>

theorem VerifySegment_repairs_nothing:
  assumes "meta_kv K view" and "plain_path base"
    and "VerifySegmentCommnad K un unb minio base collectionID root mend s = Some (r, s')"
  shows "(\<not> mend \<longrightarrow> s' = s) \<and>
    (\<forall>d \<in> {''s'', ''binlog'', ''statslog'', ''deltalog''}. \<forall>k. prefix (stored_dir base d) k \<longrightarrow> view s' k = view s k)"
proof -
  have "reads_only (verify_log K stat base root False k log)" for stat k log
    unfolding verify_log_def Let_def by (simp add: reads_only_intros)
  then have "reads_only (verify_segment K unb stat base root False m)" for stat m
    unfolding verify_segment_def Let_def by (intro reads_only_intros)
  then have "reads_only (VerifySegmentCommnad K un unb minio base collectionID root False)"
    unfolding VerifySegmentCommnad_def by (intro reads_only_intros)
  then have "\<not> mend \<longrightarrow> s' = s" using assms(3) by (auto dest: reads_onlyD)
  moreover have within: "changes_within view (log_keys base) (VerifySegmentCommnad K un unb minio base collectionID root mend)"
    unfolding VerifySegmentCommnad_def
    by (intro changes_intros meta_kv.changes_verify_segment [OF assms(1,2)] changes_reads_only reads_only_ListSegments)
  have "view s' k = view s k" if "d \<in> {''s'', ''binlog'', ''statslog'', ''deltalog''}" "prefix (stored_dir base d) k" for d k
    by (rule changes_withinD [OF within assms(3) stored_not_log [OF that(2,1)]])
  ultimately show ?thesis by blast
qed

lemma ref_verify: "returns (VerifySegmentCommnad (ref_kv :: (_, unit) MetaKV) un unb minio base collectionID root mend)"
proof -
  have "returns (remove_log (ref_kv :: (_, unit) MetaKV) base k ids)" for k ids
    by (cases k) (simp_all add: remove_log_def RemoveSegmentInsertLogPath_def RemoveSegmentStatLogPath_def
        RemoveSegmentDeltaLogPath_def returns_intros)
  then show ?thesis
    unfolding VerifySegmentCommnad_def verify_segment_def verify_log_def ListSegments_def ListObj2Models_def ListProtoObjects_def
      GetBinlogs_def GetStatslogs_def GetDeltalogs_def getSegmentLazyFunc_def lazy_list_def Let_def
    by (intro returns_intros)
qed

theorem VerifySegment_repairs_nothing_witness:
  "\<exists>r s'. VerifySegmentCommnad (ref_kv :: (_, unit) MetaKV) ref_un_segment ref_unb (Inr (\<lambda>_. Some ''NoSuchKey'')) ''a'' 1 ''files'' True ref_mixed =
     Some (r, s') \<and> map_of s' ''a/datacoord-meta/binlog/1/1/1/100'' = Some ''field''"
proof -
  have base: "plain_path ''a''" by (simp add: plain_path_def plain_part_def)
  obtain r s' where run: "VerifySegmentCommnad (ref_kv :: (_, unit) MetaKV) ref_un_segment ref_unb (Inr (\<lambda>_. Some ''NoSuchKey'')) ''a'' 1 ''files'' True ref_mixed =
     Some (r, s')" using returnsD [OF ref_verify] by blast
  have "map_of s' ''a/datacoord-meta/binlog/1/1/1/100'' = map_of ref_mixed ''a/datacoord-meta/binlog/1/1/1/100''"
    using VerifySegment_repairs_nothing [OF ref_kv_meta base run] by (simp add: stored_dir_def)
  then show ?thesis using run by (auto simp: ref_mixed_def)
qed

section \<open>What is called garbage\<close>

text \<open>The segment id is found in the paths of insert and statistics logs; a path of a delta log has one part less.\<close>

lemma format_no_slash: "slash \<notin> set (format_int i)"
  using format_int_chars [of slash i] by (auto simp: is_digit_def)

lemma split_ids: "ids \<noteq> [] \<Longrightarrow> split_on slash (ids_path ids) = map (\<lambda>i. format_int (sint i)) ids"
  unfolding ids_path_def using format_no_slash by (intro split_join) auto

lemma split_log_path:
  assumes "slash \<notin> set dir" and "dir \<noteq> []" and "ids \<noteq> []"
  shows "split_on slash (dropWhile (\<lambda>c. c = slash) (drop (length root) (root @ slash # dir @ slash # ids_path ids))) =
    dir # map (\<lambda>i. format_int (sint i)) ids"
proof -
  have "dropWhile (\<lambda>c. c = slash) (slash # dir @ slash # ids_path ids) = dir @ slash # ids_path ids"
    using assms(1,2) by (cases dir) auto
  then show ?thesis using split_append_delim [OF assms(1)] split_ids [OF assms(3)] by simp
qed

lemma ParseSegmentID_insert:
  assumes "slash \<notin> set dir" and "dir \<noteq> []"
  shows "ParseSegmentIDByBinlog root (root @ slash # dir @ slash # ids_path [c, p, g, f, l]) = Inr (sint g)"
  using split_log_path [OF assms, of "[c, p, g, f, l]" root] ParseInt_format_int [of 64 "sint g"] sint_greater_eq [of g] sint_less [of g]
  by (simp add: ParseSegmentIDByBinlog_def Let_def)

lemma ParseSegmentID_delta:
  assumes "slash \<notin> set dir" and "dir \<noteq> []"
  shows "ParseSegmentIDByBinlog root (root @ slash # dir @ slash # ids_path [c, p, g, l]) = Inl (Failure ''not a valid binlog path'')"
  using split_log_path [OF assms, of "[c, p, g, l]" root] by (simp add: ParseSegmentIDByBinlog_def Let_def)

text \<open>Segments in the second format: neither the segment nor the entries of its logs carry paths.\<close>

definition v2_segments :: "(string \<Rightarrow> SegmentInfo result) \<Rightarrow> (string \<Rightarrow> FieldBinlog result) \<Rightarrow> bool" where
  "v2_segments un unb \<longleftrightarrow> (\<forall>v info. un v = Inr info \<longrightarrow> si_Statslogs info = []) \<and>
     (\<forall>v fb. unb v = Inr fb \<longrightarrow> (\<forall>b \<in> set (fb_Binlogs fb). bl_LogPath b = []))"

definition made_up :: "string \<Rightarrow> bool" where
  "made_up p \<longleftrightarrow> (\<exists>ids. ids \<noteq> [] \<and> p = ''files/statslog/'' @ ids_path ids)"

lemma made_up_parts: "made_up p \<Longrightarrow> ''stats_log'' \<notin> set (split_on slash p)"
proof -
  assume "made_up p"
  then obtain ids where ids: "ids \<noteq> []" "p = ''files'' @ slash # ''statslog'' @ slash # ids_path ids" by (auto simp: made_up_def)
  have "CHR ''_'' \<notin> set (format_int i)" for i using format_int_chars [of "CHR ''_''" i] by (auto simp: is_digit_def)
  then have "''stats_log'' \<noteq> format_int i" for i by (metis list.set_intros(1) list.set_intros(2))
  then show ?thesis using ids split_append_delim [of slash "''files''"] split_append_delim [of slash "''statslog''"] split_ids [OF ids(1)] by auto
qed

lemma list_loop_sub: "x \<in> set (list_loop un fs vs) \<Longrightarrow> \<exists>v. un v = Inr x"
  by (induction vs) (auto split: sum.splits if_splits)

lemma fill_stats_made_up:
  assumes "fill_logs K unb pre (\<lambda>f l. ''files/statslog/'' @ ids_path (ids @ [l])) [] s = Some (Inr logs, s')"
    and "\<forall>v fb. unb v = Inr fb \<longrightarrow> (\<forall>b \<in> set (fb_Binlogs fb). bl_LogPath b = [])" and "p \<in> log_paths logs"
  shows "made_up p"
proof -
  from assms(1) obtain fs where fs: "logs = map (copy_field (\<lambda>f l. ''files/statslog/'' @ ids_path (ids @ [l]))) fs"
    "\<forall>fb \<in> set fs. \<exists>v. unb v = Inr fb"
    by (auto simp: fill_logs_def ListProtoObjects_def prog_bind_Inr_iff split: if_splits dest: list_loop_sub)
  from assms(3) obtain fb b where "fb \<in> set fs" "b \<in> set (fb_Binlogs fb)"
    "p = bl_LogPath (copy_binlog (\<lambda>f l. ''files/statslog/'' @ ids_path (ids @ [l])) fb b)"
    by (auto simp: log_paths_def fs(1) copy_field_def)
  moreover from this fs(2) obtain v where "unb v = Inr fb" by blast
  then have "bl_LogPath b = []" using assms(2) \<open>b \<in> set (fb_Binlogs fb)\<close> by blast
  ultimately have "p = ''files/statslog/'' @ ids_path (ids @ [bl_LogID b])" by (simp add: copy_binlog_def)
  then show ?thesis unfolding made_up_def by blast
qed

lemma FillFields_stats:
  assumes "FillFieldsIfV2 K unb base seg s = Some (r, info, s')" and "si_Statslogs seg = []"
    and "\<forall>v fb. unb v = Inr fb \<longrightarrow> (\<forall>b \<in> set (fb_Binlogs fb). bl_LogPath b = [])" and "p \<in> log_paths (si_Statslogs info)"
  shows "made_up p"
proof -
  let ?ids = "[si_CollectionID seg, si_PartitionID seg, si_ID seg]"
  have none: "p \<notin> log_paths []" by (simp add: log_paths_def)
  have "\<exists>pre s1 s2 logs. fill_logs K unb pre (\<lambda>f l. ''files/statslog/'' @ ids_path (?ids @ [l])) [] s1 = Some (Inr logs, s2) \<and>
      p \<in> log_paths logs"
    using assms(1,2,4) none unfolding FillFieldsIfV2_def Let_def
    by (auto split: option.splits prod.splits sum.splits) blast+
  then show ?thesis by (elim exE conjE) (erule (1) fill_stats_made_up [OF _ assms(3)])
qed

lemma fill_all_stats:
  assumes "fill_all K unb base ms s = Some (Inr infos, s')" and "\<forall>m \<in> set ms. si_Statslogs (sm_info m) = []"
    and "\<forall>v fb. unb v = Inr fb \<longrightarrow> (\<forall>b \<in> set (fb_Binlogs fb). bl_LogPath b = [])"
    and "info \<in> set infos" and "p \<in> log_paths (si_Statslogs info)"
  shows "made_up p"
  using assms(1,2,4)
proof (induction ms arbitrary: s infos)
  case (Cons m ms)
  then obtain r info' s1 infos' where "FillFieldsIfV2 K unb base (sm_info m) s = Some (r, info', s1)"
    "fill_all K unb base ms s1 = Some (Inr infos', s')" "infos = info' # infos'"
    by (auto simp: prog_bind_Inr_iff split: option.splits prod.splits sum.splits go_error.splits)
  then show ?case using Cons FillFields_stats [OF _ _ assms(3,5)] by auto
qed simp

lemma listed_segment:
  assumes "ListSegments K un base fs s = Some (Inr ms, s')" and "m \<in> set ms"
  shows "\<exists>v. un v = Inr (sm_info m)"
  using assms list_loop_sub [of _ un]
  by (fastforce simp: ListSegments_def ListObj2Models_def ListProtoObjects_def prog_bind_Inr_iff NewSegment_def
      dest: set_zip_leftD split: if_splits)

lemma kind_path:
  assumes "plain_path root"
  shows "path_Join [root, kind_dir kind] = root @ slash # kind_dir kind"
proof -
  have "plain_path (kind_dir kind)" by (cases kind) (simp_all add: kind_dir_def plain_path_def plain_part_def)
  then show ?thesis using path_Join_plain [of "[root, kind_dir kind]"] assms by simp
qed

lemma garbageCollect_entry:
  assumes "garbageCollect K un unb files base root s = Some (Inr report, s')" and "(key, v) \<in> set report"
  obtains ms infos s1 s2 kind where "ListSegments K un base [] s = Some (Inr ms, s1)" "fill_all K unb base ms s1 = Some (Inr infos, s2)"
    "key \<in> set (files (path_Join [root, kind_dir kind]))" "v = gc_verdict_of root infos kind key"
proof -
  have "report \<noteq> []" using assms(2) by auto
  then have "(prog_bind (ListSegments K un base []) (\<lambda>segments. prog_bind (fill_all K unb base segments) (\<lambda>infos.
      prog_return (concat (map (\<lambda>k. map (\<lambda>key. (key, gc_verdict_of root infos k key))
        (files (path_Join [root, kind_dir k]))) [InsertLog, StatsLog, DeltaLog]))))) s = Some (Inr report, s')"
    using assms(1) by (auto simp: garbageCollect_def or_empty_def split: option.splits prod.splits sum.splits go_error.splits)
  then obtain ms s1 infos s2 where *: "ListSegments K un base [] s = Some (Inr ms, s1)" "fill_all K unb base ms s1 = Some (Inr infos, s2)"
    "report = concat (map (\<lambda>k. map (\<lambda>key. (key, gc_verdict_of root infos k key)) (files (path_Join [root, kind_dir k])))
       [InsertLog, StatsLog, DeltaLog])"
    by (auto simp: prog_bind_Inr_iff)
  then show thesis using that [OF *(1,2)] assms(2) by auto
qed

text \<open>
  Property C38.
  A live statistics file is reported as garbage: where segments and logs are stored without paths, as the second format has it, a file of the form
  \<open>stats_log/<collection>/<partition>/<segment>/<field>/<log>\<close> is never recognised as belonging to a segment, whatever segments and logs the
  metadata has. The scan calls it garbage, or waiting for collection when its segment is dropped.
\<close>

theorem gc_stats_never_valid:
  assumes "v2_segments un unb" and "plain_path root" and "\<forall>pre. \<forall>k \<in> set (files pre). prefix pre k"
    and "garbageCollect K un unb files base root s = Some (Inr report, s')"
    and "(root @ ''/stats_log/'' @ ids_path [c, p, g, f, l], v) \<in> set report"
  shows "v = MaybeGarbage \<or> v = WaitingForGC (sint g)"
proof -
  let ?key = "root @ slash # ''stats_log'' @ slash # ids_path [c, p, g, f, l]"
  have key: "root @ ''/stats_log/'' @ ids_path [c, p, g, f, l] = ?key" by simp
  obtain ms infos s1 s2 kind where ms: "ListSegments K un base [] s = Some (Inr ms, s1)" and fill: "fill_all K unb base ms s1 = Some (Inr infos, s2)"
    and listed: "?key \<in> set (files (path_Join [root, kind_dir kind]))" and v: "v = gc_verdict_of root infos kind ?key"
    by (rule garbageCollect_entry [OF assms(4,5) [unfolded key]])
  have "prefix (root @ slash # kind_dir kind) ?key" using assms(3) listed kind_path [OF assms(2)] by metis
  then have kind: "kind = StatsLog" by (cases kind) (simp_all add: kind_dir_def)
  have seg: "\<forall>m \<in> set ms. si_Statslogs (sm_info m) = []" using listed_segment [OF ms] assms(1) unfolding v2_segments_def by blast
  have bl: "\<forall>v fb. unb v = Inr fb \<longrightarrow> (\<forall>b \<in> set (fb_Binlogs fb). bl_LogPath b = [])" using assms(1) unfolding v2_segments_def by blast
  have "''stats_log'' \<in> set (split_on slash ?key)" using split_append [of slash root] split_append_delim [of slash "''stats_log''"] by simp
  then have "?key \<notin> valid_logs infos StatsLog"
    using made_up_parts fill_all_stats [OF fill seg bl] by (auto simp: valid_logs_def kind_logs_def)
  moreover have "ParseSegmentIDByBinlog root ?key = Inr (sint g)" by (rule ParseSegmentID_insert) auto
  ultimately show ?thesis unfolding v kind gc_verdict_of_def by (auto split: option.splits)
qed

definition ref_stats_file :: string where
  "ref_stats_file = ''files/stats_log/1/1/1/1/1''"

definition ref_stats_files :: "string \<Rightarrow> string list" where
  "ref_stats_files pre = filter (prefix pre) [ref_stats_file]"

lemma ref_fill: "\<exists>info. FillFieldsIfV2 (ref_kv :: (_, unit) MetaKV) ref_unb ''a'' (ref_segment 1) ref_mixed = Some (Inr (), info, ref_mixed)"
  unfolding FillFieldsIfV2_def fill_logs_def ref_segment_ids
  by (simp add: ref_run_simps Let_def del: ref_kv_ops)

lemma ref_gc:
  "\<exists>infos. garbageCollect (ref_kv :: (_, unit) MetaKV) ref_un_segment ref_unb ref_stats_files ''a'' ''files'' ref_mixed =
    Some (Inr [(ref_stats_file, gc_verdict_of ''files'' infos StatsLog ref_stats_file)], ref_mixed)"
proof -
  obtain info where "FillFieldsIfV2 (ref_kv :: (_, unit) MetaKV) ref_unb ''a'' (ref_segment 1) ref_mixed = Some (Inr (), info, ref_mixed)"
    using ref_fill by blast
  moreover have plain: "plain_path ''files''" by (simp add: plain_path_def plain_part_def)
  have "ref_stats_files (path_Join [''files'', kind_dir k]) = (if k = StatsLog then [ref_stats_file] else [])" for k
    unfolding kind_path [OF plain] by (cases k) (simp_all add: ref_stats_files_def ref_stats_file_def kind_dir_def)
  ultimately show ?thesis
    by (intro exI [of _ "[info]"]) (simp add: garbageCollect_def or_empty_def prog_bind_def ref_segments NewSegment_def)
qed

theorem gc_stats_never_valid_witness:
  "\<exists>report s' v. garbageCollect (ref_kv :: (_, unit) MetaKV) ref_un_segment ref_unb ref_stats_files ''a'' ''files'' ref_mixed = Some (Inr report, s') \<and>
     (ref_stats_file, v) \<in> set report \<and> (v = MaybeGarbage \<or> v = WaitingForGC 1)"
proof -
  have v2: "v2_segments ref_un_segment ref_unb"
    by (auto simp: v2_segments_def ref_un_segment_def ref_unb_def ref_segment_def split: if_splits)
  have plain: "plain_path ''files''" by (simp add: plain_path_def plain_part_def)
  have listing: "\<forall>pre. \<forall>k \<in> set (ref_stats_files pre). prefix pre k" by (simp add: ref_stats_files_def)
  obtain infos where run: "garbageCollect (ref_kv :: (_, unit) MetaKV) ref_un_segment ref_unb ref_stats_files ''a'' ''files'' ref_mixed =
    Some (Inr [(ref_stats_file, gc_verdict_of ''files'' infos StatsLog ref_stats_file)], ref_mixed)"
    using ref_gc by blast
  have "ref_stats_file = ''files'' @ ''/stats_log/'' @ ids_path [1, 1, 1, 1, 1]"
    by (simp add: ref_stats_file_def ids_path_def format_int_def)
  then have "(''files'' @ ''/stats_log/'' @ ids_path [1, 1, 1, 1, 1], gc_verdict_of ''files'' infos StatsLog ref_stats_file)
    \<in> set [(ref_stats_file, gc_verdict_of ''files'' infos StatsLog ref_stats_file)]" by simp
  from gc_stats_never_valid [OF v2 plain listing run this] show ?thesis using run by (simp add: exI)
qed

end
