(* ===== verification/State_Util.thy ===== *)
theory State_Util
  imports Etcd_Objects Etcd_Segment "HOL-Library.Signed_Division"
begin

text \<open>
  The helpers of \<^verbatim>\<open>states/util.go\<close>: hybrid timestamps (\<open>ParseTS\<close>, \<open>ComposeTS\<close> and the command \<^verbatim>\<open>parse-ts\<close>), the
  upgrade of a channel description, the parts of a path, and the listings grouped by collection. An instant is the
  number of nanoseconds since 1970; the numbers keep the width they have in the program.
\<close>

section \<open>Hybrid timestamps\<close>

definition logicalBits :: nat where
  "logicalBits = 18"

definition logicalBitsMask :: u64 where
  "logicalBitsMask = push_bit logicalBits 1 - 1"

text \<open>\<open>time.Unix(sec, nsec)\<close>, as nanoseconds since the epoch.\<close>

definition time_Unix :: "i64 \<Rightarrow> i64 \<Rightarrow> int" where
  "time_Unix sec nsec = sint sec * 1000000000 + sint nsec"

definition ParseTS :: "u64 \<Rightarrow> int \<times> u64" where
  "ParseTS ts =
     (let logical = ts AND logicalBitsMask;
          physical = drop_bit logicalBits ts;
          physicalTime = time_Unix (physical div 1000) (word_of_int (sint physical smod 1000) * 1000000)
      in (physicalTime, logical))"

definition ComposeTS :: "i64 \<Rightarrow> i64 \<Rightarrow> u64" where
  "ComposeTS physical logical = push_bit logicalBits physical + logical"

text \<open>\<open>strconv.ParseUint(s, 10, 64)\<close>.\<close>

definition ParseUint_ts :: "string \<Rightarrow> u64 result" where
  "ParseUint_ts s =
     (if s = [] \<or> \<not> list_all is_digit s then Inl (Failure ''invalid syntax'')
      else if 2 ^ 64 \<le> digits_value s then Inl (Failure ''value out of range'')
      else Inr (of_nat (digits_value s)))"

text \<open>What is printed for the arguments: that there are none, or for each the error, or the number with its instant.\<close>

datatype ts_line = NoTS | BadTS string go_error | ParsedTS u64 int

definition ParseTSCommand :: "string list \<Rightarrow> ts_line list" where
  "ParseTSCommand args =
     (if length args = 0 then [NoTS] else []) @
     map (\<lambda>arg. case ParseUint_ts arg of Inl e \<Rightarrow> BadTS arg e | Inr ts \<Rightarrow> ParsedTS ts (fst (ParseTS ts))) args"

section \<open>Sessions\<close>

definition listSessionsByPrefix :: "('s, 't) MetaKV \<Rightarrow> (string \<Rightarrow> Session result) \<Rightarrow> string \<Rightarrow> ('s, Session list) prog" where
  "listSessionsByPrefix K un pre =
     prog_bind (prog_read (kv_LoadWithPrefix K pre)) (\<lambda>(_, vals). prog_return (list_loop un [] vals))"

section \<open>Channel descriptions\<close>

record datapb_VchannelInfo =
  FlushedSegments :: "SegmentInfo list"
  FlushedSegmentIds :: "i64 list"
  UnflushedSegments :: "SegmentInfo list"
  UnflushedSegmentIds :: "i64 list"
  DroppedSegments :: "SegmentInfo list"
  DroppedSegmentIds :: "i64 list"

text \<open>The loop over the ids, with the ids seen so far.\<close>

fun removeDuplicateSegmentIDFn :: "i64 list \<Rightarrow> i64 set \<Rightarrow> i64 list" where
  "removeDuplicateSegmentIDFn [] existDict = []"
| "removeDuplicateSegmentIDFn (i # ids) existDict =
     (if i \<in> existDict then removeDuplicateSegmentIDFn ids existDict
      else i # removeDuplicateSegmentIDFn ids (insert i existDict))"

definition revise_ids :: "SegmentInfo list \<Rightarrow> i64 list \<Rightarrow> i64 list" where
  "revise_ids segments ids = removeDuplicateSegmentIDFn (if length segments > 0 then ids @ map si_ID segments else ids) {}"

definition reviseVChannelInfo :: "datapb_VchannelInfo option \<Rightarrow> datapb_VchannelInfo option" where
  "reviseVChannelInfo vChannel =
     (case vChannel of
        None \<Rightarrow> None
      | Some c \<Rightarrow> Some
          \<lparr>FlushedSegments = [], FlushedSegmentIds = revise_ids (FlushedSegments c) (FlushedSegmentIds c),
           UnflushedSegments = [], UnflushedSegmentIds = revise_ids (UnflushedSegments c) (UnflushedSegmentIds c),
           DroppedSegments = [], DroppedSegmentIds = revise_ids (DroppedSegments c) (DroppedSegmentIds c)\<rparr>)"

section \<open>Listings and paths\<close>

text \<open>The infos as pairs of collection id and text; the result is what is printed.\<close>

definition printInfoWithCollectionID :: "(i64 \<times> string) list \<Rightarrow> string list" where
  "printInfoWithCollectionID infos =
     (let collectionIDs = sort_key sint (map fst infos);
          collectionMap = (\<lambda>colID. filter (\<lambda>info. fst info = colID) infos)
      in concat (map (\<lambda>colID. map snd (collectionMap colID)) collectionIDs))"

fun getKVPair :: "(string \<times> string) list \<Rightarrow> string \<Rightarrow> string" where
  "getKVPair [] key = []"
| "getKVPair ((k, v) # pairs) key = (if k = key then v else getKVPair pairs key)"

definition pathPart :: "string \<Rightarrow> int \<Rightarrow> string result" where
  "pathPart p idx =
     (let parts = split_on slash p;
          idx' = (if idx < 0 then int (length parts) + idx else idx)
      in if idx' < 0 \<and> idx' \<ge> int (length parts) then Inl (Failure ''out of index'')
         else go_index parts idx')"

definition pathPartInt64 :: "string \<Rightarrow> int \<Rightarrow> int result" where
  "pathPartInt64 p idx = res_bind (pathPart p idx) (\<lambda>part. ParseInt 64 part)"

section \<open>What timestamps mean\<close>

lemma ParseTS_eq:
  "fst (ParseTS ts) = uint ts div 2 ^ 18 * 1000000"
  "uint (snd (ParseTS ts)) = uint ts mod 2 ^ 18"
proof -
  define p where "p = uint ts div 2 ^ 18"
  have "uint ts < 2 ^ 64" using uint_lt2p [of ts] by simp
  then have p: "0 \<le> p" "p < 2 ^ 46" unfolding p_def by (simp_all add: div_less_iff_less_mult pos_imp_zdiv_nonneg_iff)
  have up: "uint (drop_bit 18 ts) = p" by (simp add: p_def drop_bit_eq_div uint_div_distrib)
  then have sp: "sint (drop_bit 18 ts) = p" using p by (simp add: sint_uint signed_take_bit_int_eq_self)
  have "uint (drop_bit 18 ts div 1000) = p div 1000" by (simp add: uint_div_distrib up)
  then have sec: "sint (drop_bit 18 ts div 1000) = p div 1000"
    using p by (simp add: sint_uint signed_take_bit_int_eq_self)
  define r where "r = p mod 1000 * 1000000"
  have r: "0 \<le> r" "r < 2 ^ 40" unfolding r_def by (auto intro: order.strict_trans2 [of _ "1000 * 1000000"])
  have "p smod 1000 = p mod 1000" using p(1) by (cases "p = 0") (simp_all add: signed_modulo_int_def sgn_if)
  then have "word_of_int (p smod 1000) * 1000000 = (word_of_int r :: i64)" by (simp add: r_def)
  then have nsec: "sint (word_of_int (p smod 1000) * 1000000 :: i64) = r"
    using r by (simp add: sint_sbintrunc' signed_take_bit_int_eq_self)
  have "p div 1000 * 1000000000 + r = p * 1000000" using div_mult_mod_eq [of p 1000] unfolding r_def by presburger
  then show "fst (ParseTS ts) = uint ts div 2 ^ 18 * 1000000"
    unfolding p_def [symmetric] by (simp add: ParseTS_def Let_def time_Unix_def logicalBits_def sp sec nsec)
  have "logicalBitsMask = mask 18" by (simp add: logicalBitsMask_def logicalBits_def mask_eq_exp_minus_1)
  then have "snd (ParseTS ts) = take_bit 18 ts" by (simp add: ParseTS_def Let_def take_bit_eq_mask)
  then show "uint (snd (ParseTS ts)) = uint ts mod 2 ^ 18" by (simp add: take_bit_eq_mod uint_mod_distrib)
qed

lemma ComposeTS_uint:
  assumes "0 \<le> sint p" and "sint p < 2 ^ 46" and "0 \<le> sint l" and "sint l < 2 ^ 18"
  shows "uint (ComposeTS p l) = sint p * 2 ^ 18 + sint l"
proof -
  define x where "x = sint p * 2 ^ 18 + sint l"
  have "ComposeTS p l = word_of_int x"
    by (simp add: x_def ComposeTS_def logicalBits_def push_bit_eq_mult)
  moreover have "x < 2 ^ 64" using assms(2,4) by (simp add: x_def)
  moreover have "0 \<le> x" using assms(1,3) by (simp add: x_def)
  ultimately show ?thesis unfolding x_def [symmetric] by (simp add: uint_word_of_int)
qed

lemma quotient_order: "(a :: int) \<le> b \<longleftrightarrow> a div 2 ^ 18 < b div 2 ^ 18 \<or> a div 2 ^ 18 = b div 2 ^ 18 \<and> a mod 2 ^ 18 \<le> b mod 2 ^ 18"
proof -
  have "262144 * q + r \<le> 262144 * q' + r' \<longleftrightarrow> q < q' \<or> q = q' \<and> r \<le> r'"
    if "0 \<le> r" "r < 262144" "0 \<le> r'" "r' < 262144" for q r q' r' :: int using that by (cases q q' rule: linorder_cases) auto
  from this [of "a mod 2 ^ 18" "b mod 2 ^ 18" "a div 2 ^ 18" "b div 2 ^ 18"] show ?thesis by simp
qed

text \<open>
  Property C39.
  Hybrid timestamps: a physical time below 2^46 milliseconds and a logical counter below 2^18 are read back from the timestamp composed of them,
  the time as the same instant; and timestamps are ordered as the pairs of instant and counter read from them are.
\<close>

theorem ParseTS_ComposeTS:
  assumes "0 \<le> sint p" and "sint p < 2 ^ 46" and "0 \<le> sint l" and "sint l < 2 ^ 18"
  shows "ParseTS (ComposeTS p l) = (sint p * 1000000, l) \<and>
    (\<forall>a b. a \<le> b \<longleftrightarrow> (fst (ParseTS a) < fst (ParseTS b) \<or> fst (ParseTS a) = fst (ParseTS b) \<and> snd (ParseTS a) \<le> snd (ParseTS b)))"
proof -
  let ?c = "ComposeTS p l"
  have ms: "x * 1000000 < y * 1000000 \<longleftrightarrow> x < y" "x * 1000000 = y * 1000000 \<longleftrightarrow> x = y" for x y :: int by simp_all
  have c: "uint ?c = sint p * 2 ^ 18 + sint l" using assms by (rule ComposeTS_uint)
  have "uint l = sint l" using assms(3,4) by (simp add: uint_sint take_bit_int_eq_self)
  moreover have "uint (snd (ParseTS ?c)) = (sint p * 2 ^ 18 + sint l) mod 2 ^ 18" using ParseTS_eq(2) [of ?c] c by metis
  ultimately have "uint (snd (ParseTS ?c)) = uint l" using assms(3,4) by simp
  then have "snd (ParseTS ?c) = l" by (simp add: word_uint_eq_iff)
  moreover have "fst (ParseTS ?c) = sint p * 1000000" unfolding ParseTS_eq c using assms(3,4) by simp
  ultimately have "ParseTS ?c = (sint p * 1000000, l)" by (simp add: prod_eq_iff)
  moreover have "a \<le> b \<longleftrightarrow> (fst (ParseTS a) < fst (ParseTS b) \<or> fst (ParseTS a) = fst (ParseTS b) \<and> snd (ParseTS a) \<le> snd (ParseTS b))" for a b
    unfolding word_le_def ParseTS_eq by (simp only: quotient_order [of "uint a"] ms)
  ultimately show ?thesis by blast
qed

theorem ParseTS_ComposeTS_witness: "ParseTS (ComposeTS 1700000000000 5) = (1700000000000000000, 5)"
proof -
  have "sint (1700000000000 :: i64) = 1700000000000" "sint (5 :: i64) = 5" by simp_all
  then show ?thesis using ParseTS_ComposeTS [of 1700000000000 5] by simp
qed

section \<open>What the helpers do\<close>

lemma removeDuplicate_props:
  "distinct (removeDuplicateSegmentIDFn ids seen)"
  "set (removeDuplicateSegmentIDFn ids seen) = set ids - seen"
  by (induction ids arbitrary: seen) auto

lemma removeDuplicate_id: "distinct ids \<Longrightarrow> set ids \<inter> seen = {} \<Longrightarrow> removeDuplicateSegmentIDFn ids seen = ids"
  by (induction ids arbitrary: seen) auto

lemma removeDuplicate_prefix: "distinct ids \<Longrightarrow> set ids \<inter> seen = {} \<Longrightarrow> prefix ids (removeDuplicateSegmentIDFn (ids @ others) seen)"
  by (induction ids arbitrary: seen) auto

lemma revise_ids_props: "distinct (revise_ids segs ids)" "set (revise_ids segs ids) = set ids \<union> si_ID ` set segs"
  by (auto simp: revise_ids_def removeDuplicate_props)

text \<open>
  Upgrading a channel description: the ids of each kind are the ids it had and those of the segments it listed, each once and those it had first, the
  segments are gone, and doing it again changes nothing.
\<close>

lemma reviseVChannelInfo_spec:
  assumes "reviseVChannelInfo (Some c) = Some c'"
  shows "(FlushedSegments c' = [] \<and> UnflushedSegments c' = [] \<and> DroppedSegments c' = []) \<and>
    (distinct (FlushedSegmentIds c') \<and> set (FlushedSegmentIds c') = set (FlushedSegmentIds c) \<union> si_ID ` set (FlushedSegments c)) \<and>
    (distinct (UnflushedSegmentIds c') \<and> set (UnflushedSegmentIds c') = set (UnflushedSegmentIds c) \<union> si_ID ` set (UnflushedSegments c)) \<and>
    (distinct (DroppedSegmentIds c') \<and> set (DroppedSegmentIds c') = set (DroppedSegmentIds c) \<union> si_ID ` set (DroppedSegments c)) \<and>
    (distinct (FlushedSegmentIds c) \<longrightarrow> prefix (FlushedSegmentIds c) (FlushedSegmentIds c')) \<and>
    reviseVChannelInfo (Some c') = Some c'"
proof -
  have c': "c' = \<lparr>FlushedSegments = [], FlushedSegmentIds = revise_ids (FlushedSegments c) (FlushedSegmentIds c),
       UnflushedSegments = [], UnflushedSegmentIds = revise_ids (UnflushedSegments c) (UnflushedSegmentIds c),
       DroppedSegments = [], DroppedSegmentIds = revise_ids (DroppedSegments c) (DroppedSegmentIds c)\<rparr>"
    using assms by (simp add: reviseVChannelInfo_def)
  have "revise_ids [] (revise_ids segs ids) = revise_ids segs ids" for segs ids
    unfolding revise_ids_def by (simp add: removeDuplicate_id removeDuplicate_props)
  moreover have "distinct ids \<Longrightarrow> prefix ids (revise_ids segs ids)" for segs ids
    by (simp add: revise_ids_def removeDuplicate_prefix removeDuplicate_id)
  ultimately show ?thesis unfolding c' by (simp add: revise_ids_props reviseVChannelInfo_def)
qed

text \<open>An index below the first part is meant to be an error; the test never holds, so it is a panic, as one past the last part is.\<close>

lemma pathPart_never_fails:
  "pathPart p idx \<noteq> Inl (Failure msg)"
  "pathPart p idx = Inl (Panic msg) \<Longrightarrow> idx < - int (length (split_on slash p)) \<or> int (length (split_on slash p)) \<le> idx"
  by (auto simp: pathPart_def Let_def go_index_def split: if_splits)

text \<open>The listing by collection prints the infos of a collection once for every info of that collection.\<close>

lemma printInfo_repeats:
  "mset (printInfoWithCollectionID infos) = (\<Sum>info \<in># mset infos. mset (map snd (filter (\<lambda>i. fst i = fst info) infos)))"
proof -
  have "mset (concat (map f xs)) = (\<Sum>x \<in># mset xs. mset (f x))" for f :: "i64 \<Rightarrow> string list" and xs by (induction xs) auto
  then show ?thesis by (simp add: printInfoWithCollectionID_def Let_def image_mset.compositionality comp_def)
qed

end
