(* ===== verification/Key_Tree.thy ===== *)
theory Key_Tree
  imports Etcd_List
begin

text \<open>
  The command \<^verbatim>\<open>show etcd-kv-tree\<close> (\<^verbatim>\<open>states/etcd/show/etcd_kv_tree.go\<close>): the keys below a prefix counted by their first parts,
  level by level, and the prefixes with most keys of every level. The order in which a Go map is iterated is an
  argument: it gives the entries of a map as a list. \<open>sort.Slice\<close> does not keep the order of equal elements; every order
  it may leave them in is the stable sort of some order of iteration.
\<close>

section \<open>Prefixes of keys\<close>

text \<open>\<open>strings.Trim(s, "/")\<close>.\<close>

definition Trim_slash :: "string \<Rightarrow> string" where
  "Trim_slash s = List.rev (dropWhile (\<lambda>c. c = slash) (List.rev (dropWhile (\<lambda>c. c = slash) s)))"

definition getNthLevelPrefix :: "string \<Rightarrow> string \<Rightarrow> int \<Rightarrow> string" where
  "getNthLevelPrefix key basePrefix level =
     (if level \<le> 0 \<or> \<not> HasPrefix key basePrefix then []
      else let parts = split_on slash (TrimPrefix key basePrefix)
           in if int (length parts) < level then []
              else Trim_slash basePrefix @
                concat (map (\<lambda>p. let part = Trim_slash p in if part \<noteq> [] then slash # part else []) (take (nat level) parts)))"

section \<open>Counting\<close>

type_synonym level_stats = "int \<rightharpoonup> (string \<rightharpoonup> int)"

definition count_prefix :: "int \<Rightarrow> string \<Rightarrow> level_stats \<Rightarrow> level_stats" where
  "count_prefix level p levelStats =
     (let m = (case levelStats level of None \<Rightarrow> Map.empty | Some m \<Rightarrow> m)
      in levelStats(level \<mapsto> m(p \<mapsto> (case m p of None \<Rightarrow> 0 | Some c \<Rightarrow> c) + 1)))"

text \<open>The inner loop, over the levels that are left.\<close>

fun count_levels :: "string \<Rightarrow> string \<Rightarrow> int list \<Rightarrow> level_stats \<Rightarrow> level_stats" where
  "count_levels key basePrefix [] levelStats = levelStats"
| "count_levels key basePrefix (level # levels) levelStats =
     (let p = getNthLevelPrefix key basePrefix level
      in if p = [] then levelStats else count_levels key basePrefix levels (count_prefix level p levelStats))"

definition countKeysAtEachLevel :: "string list \<Rightarrow> string \<Rightarrow> int \<Rightarrow> level_stats" where
  "countKeysAtEachLevel ks basePrefix maxLevel =
     foldl (\<lambda>levelStats key. if \<not> HasPrefix key basePrefix then levelStats else count_levels key basePrefix [1..maxLevel] levelStats)
       Map.empty ks"

section \<open>Printing\<close>

definition printTopKPrefixes :: "((string \<rightharpoonup> int) \<Rightarrow> (string \<times> int) list) \<Rightarrow> int \<Rightarrow> (string \<rightharpoonup> int) \<Rightarrow> int \<Rightarrow>
    (int \<times> (string \<times> int) list) result" where
  "printTopKPrefixes entries level counts topK =
     (let sortedPrefixes = sort_key (\<lambda>e. - snd e) (entries counts)
      in if int (length sortedPrefixes) > topK \<and> topK < 0 then Inl (Panic ''slice bounds out of range'')
         else let shown = (if int (length sortedPrefixes) > topK then take (nat topK) sortedPrefixes else sortedPrefixes)
              in Inr (level, map (\<lambda>(p, c). (TrimPrefix p ''/'', c)) shown))"

text \<open>What is printed: the levels in order, each with its lines.\<close>

definition printLevelsInOrder :: "((string \<rightharpoonup> int) \<Rightarrow> (string \<times> int) list) \<Rightarrow> level_stats \<Rightarrow> int \<Rightarrow>
    (int \<times> (string \<times> int) list) list result" where
  "printLevelsInOrder entries stats topK =
     res_fold (\<lambda>level out.
         case stats level of
           None \<Rightarrow> Inr out
         | Some counts \<Rightarrow> res_bind (printTopKPrefixes entries level counts topK) (\<lambda>l. Inr (out @ [l])))
       [1..int (card (dom stats))] []"

definition EtcdKVTreeCommand :: "('s, 't) MetaKV \<Rightarrow> ((string \<rightharpoonup> int) \<Rightarrow> (string \<times> int) list) \<Rightarrow> string \<Rightarrow> int \<Rightarrow> int \<Rightarrow>
    ('s, (int \<times> (string \<times> int) list) list) prog" where
  "EtcdKVTreeCommand K entries pre level topK =
     prog_bind (prog_read (kv_LoadWithPrefix K pre)) (\<lambda>(ks, _).
       prog_lift (printLevelsInOrder entries (countKeysAtEachLevel ks pre level) topK))"

section \<open>What is counted\<close>

definition reaches :: "string \<Rightarrow> string \<Rightarrow> int \<Rightarrow> bool" where
  "reaches key base L \<longleftrightarrow> HasPrefix key base \<and> (\<forall>i \<in> {1..L}. getNthLevelPrefix key base i \<noteq> [])"

definition level_count :: "string list \<Rightarrow> string \<Rightarrow> int \<Rightarrow> string \<Rightarrow> nat" where
  "level_count ks base L p = length (filter (\<lambda>k. reaches k base L \<and> getNthLevelPrefix k base L = p) ks)"

definition tree_of :: "string list \<Rightarrow> string \<Rightarrow> int \<Rightarrow> level_stats" where
  "tree_of ks base n L =
     (if 1 \<le> L \<and> L \<le> n \<and> (\<exists>k \<in> set ks. reaches k base L)
      then Some (\<lambda>p. if level_count ks base L p = 0 then None else Some (int (level_count ks base L p))) else None)"

lemma count_levels_at:
  "count_levels key base [a..b] st L =
    (if a \<le> L \<and> L \<le> b \<and> (\<forall>i \<in> {a..L}. getNthLevelPrefix key base i \<noteq> [])
     then count_prefix L (getNthLevelPrefix key base L) st L else st L)"
proof (induction "nat (b - a + 1)" arbitrary: a st)
  case (Suc n)
  then have ab: "a \<le> b" "[a..b] = a # [a + 1..b]" by (simp_all add: upto.simps [of a])
  let ?p = "getNthLevelPrefix key base a"
  have IH: "count_levels key base [a + 1..b] st' L = (if a + 1 \<le> L \<and> L \<le> b \<and> (\<forall>i \<in> {a + 1..L}. getNthLevelPrefix key base i \<noteq> [])
     then count_prefix L (getNthLevelPrefix key base L) st' L else st' L)" for st'
    using Suc.hyps(1) [of "a + 1" st'] Suc.hyps(2) by simp
  have other: "count_prefix a q st L = st L" "count_prefix L q' (count_prefix a q st) L = count_prefix L q' st L" if "L \<noteq> a" for q q'
    using that by (simp_all add: count_prefix_def Let_def)
  have iv: "a \<le> L \<Longrightarrow> {a..L} = insert a {a + 1..L}" by auto
  consider "L < a" | "L = a" | "a < L" by linarith
  then show ?case using ab iv IH other by cases (auto simp: Let_def)
qed auto

lemma tree_of_snoc:
  "(if HasPrefix k base then count_levels k base [1..n] (tree_of ks base n) else tree_of ks base n) = tree_of (ks @ [k]) base n"
proof
  fix L
  show "(if HasPrefix k base then count_levels k base [1..n] (tree_of ks base n) else tree_of ks base n) L = tree_of (ks @ [k]) base n L"
  proof (cases "1 \<le> L \<and> L \<le> n \<and> reaches k base L")
    case True
    have none: "\<forall>x \<in> set ks. \<not> reaches x base L \<Longrightarrow> level_count ks base L p = 0" for p by (simp add: level_count_def)
    show ?thesis using True none
      by (auto simp: count_levels_at count_prefix_def Let_def tree_of_def reaches_def [of k] level_count_def fun_eq_iff)
  next
    case False
    show ?thesis
    proof (cases "reaches k base L")
      case True
      then show ?thesis using False by (auto simp: count_levels_at tree_of_def)
    next
      case False
      then have "level_count (ks @ [k]) base L = level_count ks base L" by (simp add: level_count_def fun_eq_iff)
      then show ?thesis using False by (auto simp: count_levels_at tree_of_def reaches_def [of k])
    qed
  qed
qed

lemma countKeys_tree: "countKeysAtEachLevel ks base n = tree_of ks base n"
proof (induction ks rule: rev_induct)
  case Nil
  then show ?case by (simp add: countKeysAtEachLevel_def tree_of_def fun_eq_iff)
next
  case (snoc k ks)
  then show ?case using tree_of_snoc [of k base n ks] by (simp add: countKeysAtEachLevel_def split: if_splits)
qed

section \<open>What a prefix stands for\<close>

text \<open>The prefix to show ends at a part: it is empty, or ends with a slash. A key lies at or below a path.\<close>

definition tree_base :: "string \<Rightarrow> bool" where
  "tree_base base \<longleftrightarrow> base = [] \<or> (\<exists>b. plain_path b \<and> base = b @ ''/'')"

definition at_or_below :: "string \<Rightarrow> string \<Rightarrow> bool" where
  "at_or_below p k \<longleftrightarrow> k = p \<or> prefix (p @ ''/'') k"

definition rest_parts :: "string \<Rightarrow> string \<Rightarrow> string list" where
  "rest_parts base k = split_on slash (drop (length base) k)"

lemma Trim_part: "slash \<notin> set p \<Longrightarrow> Trim_slash p = p"
proof -
  assume p: "slash \<notin> set p"
  have "dropWhile (\<lambda>c. c = slash) q = q" if "slash \<notin> set q" for q using that by (cases q) auto
  then show ?thesis using p by (simp add: Trim_slash_def)
qed

lemma plain_hd: "plain_path b \<Longrightarrow> b \<noteq> [] \<and> hd b \<noteq> slash \<and> last b \<noteq> slash"
proof -
  assume b: "plain_path b"
  then have "b \<noteq> []" "last b \<noteq> slash" by (simp_all add: plain_path_not_Nil plain_path_last)
  moreover have "hd b \<noteq> slash" using b \<open>b \<noteq> []\<close> by (cases b) (auto simp: plain_path_def plain_part_def split: if_splits)
  ultimately show ?thesis by blast
qed

lemma Trim_base: "tree_base base \<Longrightarrow> base \<noteq> [] \<Longrightarrow> Trim_slash base @ ''/'' = base"
proof -
  assume "tree_base base" "base \<noteq> []"
  then obtain b where b: "plain_path b" "base = b @ ''/''" by (auto simp: tree_base_def)
  have "dropWhile (\<lambda>c. c = slash) q = q" if "q \<noteq> [] \<longrightarrow> hd q \<noteq> slash" for q using that by (cases q) auto
  from this [of base] this [of "List.rev b"] have "dropWhile (\<lambda>c. c = slash) base = base"
    "dropWhile (\<lambda>c. c = slash) (slash # List.rev b) = List.rev b"
    using plain_hd [OF b(1)] b(2) by (simp_all add: hd_rev)
  then have "Trim_slash base = b" unfolding Trim_slash_def b(2) by simp
  then show ?thesis by (simp add: b(2))
qed

lemma concat_slash: "ps \<noteq> [] \<Longrightarrow> concat (map (\<lambda>p. slash # p) ps) = slash # join_with slash ps"
  by (induction slash ps rule: join_with.induct) auto

lemma rest_plain:
  assumes "tree_base base" and "plain_path k" and "prefix base k"
  shows "list_all plain_part (rest_parts base k)" and "k = base @ join_with slash (rest_parts base k)"
proof -
  from assms(3) obtain r where k: "k = base @ r" by (auto simp: prefix_def)
  then have r: "rest_parts base k = split_on slash r" by (simp add: rest_parts_def)
  then show "k = base @ join_with slash (rest_parts base k)" by (simp add: k)
  show "list_all plain_part (rest_parts base k)" 
    using assms(1,2) unfolding r by (auto simp: k tree_base_def simp flip: plain_path_def)
qed

lemma getNth_plain:
  assumes "tree_base base" and "plain_path k" and "prefix base k" and "1 \<le> L"
  shows "getNthLevelPrefix k base L =
    (if int (length (rest_parts base k)) < L then []
     else Trim_slash base @ slash # join_with slash (take (nat L) (rest_parts base k)))"
proof -
  let ?ps = "take (nat L) (rest_parts base k)"
  have "\<forall>p \<in> set (rest_parts base k). plain_part p" using rest_plain(1) [OF assms(1-3)] by (simp add: list_all_iff)
  then have plain: "\<forall>p \<in> set ?ps. plain_part p" by (meson in_set_takeD)
  then have "concat (map (\<lambda>p. let part = Trim_slash p in if part \<noteq> [] then slash # part else []) ?ps) = concat (map (\<lambda>p. slash # p) ?ps)"
    by (intro arg_cong [of _ _ concat] map_cong) (auto simp: plain_part_def Trim_part Let_def)
  moreover have "?ps \<noteq> []" using assms(4) by (simp add: rest_parts_def)
  moreover have "split_on slash (TrimPrefix k base) = rest_parts base k"
    using assms(3) by (auto simp: TrimPrefix_def rest_parts_def prefix_def)
  ultimately show ?thesis using assms(3,4) concat_slash [of ?ps] by (simp add: getNthLevelPrefix_def Let_def)
qed

lemma join_append:
  "ps \<noteq> [] \<Longrightarrow> join_with d (ps @ qs) = join_with d ps @ (if qs = [] then [] else d # join_with d qs)"
  by (induction d ps rule: join_with.induct) (auto simp: neq_Nil_conv)

lemma at_or_below_iff:
  assumes "tree_base base" and "plain_path k" and "prefix base k" and "plain_path k'" and "0 < n" and "n \<le> length (rest_parts base k)"
  shows "at_or_below (base @ join_with slash (take n (rest_parts base k))) k' \<longleftrightarrow>
    prefix base k' \<and> n \<le> length (rest_parts base k') \<and> take n (rest_parts base k') = take n (rest_parts base k)"
proof -
  let ?ps = "take n (rest_parts base k)"
  have ps: "?ps \<noteq> []" "length ?ps = n" "\<forall>p \<in> set ?ps. slash \<notin> set p"
    using assms(5,6) rest_plain(1) [OF assms(1-3)] by (auto simp: rest_parts_def list_all_iff plain_part_def dest!: in_set_takeD)
  show ?thesis
  proof
    assume below: "at_or_below (base @ join_with slash ?ps) k'"
    then obtain r where r: "k' = base @ join_with slash ?ps @ r" "r = [] \<or> (\<exists>q. r = slash # q)"
      by (auto simp: at_or_below_def prefix_def)
    then have "rest_parts base k' = ?ps @ (case r of [] \<Rightarrow> [] | _ # q \<Rightarrow> split_on slash q)"
      using split_join [OF ps(1,3)] by (auto simp: rest_parts_def split_append)
    then show "prefix base k' \<and> n \<le> length (rest_parts base k') \<and> take n (rest_parts base k') = ?ps"
      using r(1) ps(2) by simp
  next
    assume "prefix base k' \<and> n \<le> length (rest_parts base k') \<and> take n (rest_parts base k') = ?ps"
    then obtain qs where "k' = base @ join_with slash (?ps @ qs)"
      using rest_plain(2) [OF assms(1,4)] by (metis append_take_drop_id)
    with join_append [OF ps(1)] show "at_or_below (base @ join_with slash ?ps) k'" by (auto simp: at_or_below_def)
  qed
qed

definition tree_prefix :: "string \<Rightarrow> string \<Rightarrow> int \<Rightarrow> string" where
  "tree_prefix base k L = base @ join_with slash (take (nat L) (rest_parts base k))"

lemma reaches_plain:
  assumes "tree_base base" and "plain_path k" and "1 \<le> L"
  shows "reaches k base L \<longleftrightarrow> prefix base k \<and> L \<le> int (length (rest_parts base k))"
proof (cases "prefix base k")
  case True
  have "getNthLevelPrefix k base i \<noteq> [] \<longleftrightarrow> i \<le> int (length (rest_parts base k))" if "1 \<le> i" for i
    using getNth_plain [OF assms(1,2) True that] by auto
  then show ?thesis using True assms(3) by (auto simp: reaches_def)
qed (simp add: reaches_def)

lemma shown_prefix:
  assumes "tree_base base" and "plain_path k" and "1 \<le> L" and "reaches k base L"
  shows "TrimPrefix (getNthLevelPrefix k base L) ''/'' = tree_prefix base k L"
proof -
  have k: "prefix base k" "L \<le> int (length (rest_parts base k))" using reaches_plain [OF assms(1-3)] assms(4) by simp_all
  then have p: "getNthLevelPrefix k base L = Trim_slash base @ slash # join_with slash (take (nat L) (rest_parts base k))"
    using getNth_plain [OF assms(1,2) k(1) assms(3)] by simp
  show ?thesis
  proof (cases "base = []")
    case True
    then show ?thesis unfolding p by (simp add: tree_prefix_def TrimPrefix_def Trim_slash_def)
  next
    case False
    then obtain b where b: "plain_path b" "base = b @ ''/''" using assms(1) by (auto simp: tree_base_def)
    have t: "Trim_slash base = b" using Trim_base [OF assms(1) False] b(2) by simp
    have "TrimPrefix (b @ q) ''/'' = b @ q" for q using plain_hd [OF b(1)] by (cases b) (auto simp: TrimPrefix_def)
    then show ?thesis unfolding p unfolding t tree_prefix_def by (simp add: b(2))
  qed
qed

lemma level_count_plain:
  assumes "tree_base base" and "\<forall>k \<in> set ks. plain_path k" and "k \<in> set ks" and "1 \<le> L" and "reaches k base L"
  shows "level_count ks base L (getNthLevelPrefix k base L) = length (filter (at_or_below (tree_prefix base k L)) ks)"
proof -
  have plain: "plain_path k" using assms(2,3) by blast
  then have k: "prefix base k" "L \<le> int (length (rest_parts base k))" using reaches_plain [OF assms(1) _ assms(4)] assms(5) by simp_all
  have "reaches k' base L \<and> getNthLevelPrefix k' base L = getNthLevelPrefix k base L \<longleftrightarrow> at_or_below (tree_prefix base k L) k'"
    if "k' \<in> set ks" for k'
  proof -
    have k': "plain_path k'" using assms(2) that by blast
    have ne: "take (nat L) (rest_parts base x) \<noteq> []" for x using assms(4) by (simp add: rest_parts_def)
    have "\<forall>p \<in> set (take (nat L) (rest_parts base x)). slash \<notin> set p" for x
      using split_no_delim by (auto simp: rest_parts_def dest!: in_set_takeD)
    then have inj: "join_with slash (take (nat L) (rest_parts base k')) = join_with slash (take (nat L) (rest_parts base k)) \<longleftrightarrow>
        take (nat L) (rest_parts base k') = take (nat L) (rest_parts base k)"
      using split_join [OF ne] by metis
    show ?thesis
      using at_or_below_iff [OF assms(1) plain k(1) k', of "nat L"] reaches_plain [OF assms(1) k' assms(4)]
        getNth_plain [OF assms(1) plain k(1) assms(4)] getNth_plain [OF assms(1) k' _ assms(4)] assms(4) k(2) inj
      by (auto simp: tree_prefix_def nat_le_iff)
  qed
  then show ?thesis unfolding level_count_def by (intro arg_cong [of _ _ length] filter_cong) auto
qed

section \<open>What is printed\<close>

text \<open>An order of iteration lists the entries of a finite map, each once.\<close>

definition iterates :: "((string \<rightharpoonup> int) \<Rightarrow> (string \<times> int) list) \<Rightarrow> bool" where
  "iterates entries \<longleftrightarrow> (\<forall>m. finite (dom m) \<longrightarrow> distinct (entries m) \<and> set (entries m) = {(p, c). m p = Some c})"

lemma finite_level: "tree_of ks base n L = Some m \<Longrightarrow> finite (dom m)"
proof -
  assume "tree_of ks base n L = Some m"
  then have "dom m = {p. level_count ks base L p \<noteq> 0}" by (auto simp: tree_of_def split: if_splits)
  also have "\<dots> \<subseteq> (\<lambda>k. getNthLevelPrefix k base L) ` set ks" by (auto simp: level_count_def filter_empty_conv)
  finally show ?thesis by (rule finite_subset) simp
qed

lemma dom_tree: "\<exists>M. dom (tree_of ks base n) = {1..int M}"
proof -
  have down: "i \<in> dom (tree_of ks base n)" if d: "j \<in> dom (tree_of ks base n)" "1 \<le> i" "i \<le> j" for i j
  proof -
    obtain k where "k \<in> set ks" "reaches k base j" "j \<le> n" using d(1) by (auto simp: tree_of_def split: if_splits)
    moreover from this have "reaches k base i" using d(3) by (auto simp: reaches_def)
    ultimately show ?thesis using d by (auto simp: tree_of_def)
  qed
  have sub: "dom (tree_of ks base n) \<subseteq> {1..n}" by (auto simp: tree_of_def split: if_splits)
  show ?thesis
  proof (cases "dom (tree_of ks base n) = {}")
    case False
    define M where "M = Max (dom (tree_of ks base n))"
    have fin: "finite (dom (tree_of ks base n))" by (rule finite_subset [OF sub]) simp
    then have "M \<in> dom (tree_of ks base n)" "\<forall>i \<in> dom (tree_of ks base n). i \<le> M" using False by (simp_all add: M_def)
    then have "dom (tree_of ks base n) = {1..int (nat M)}" using sub down by force
    then show ?thesis by blast
  qed (auto intro: exI [of _ 0])
qed

lemma res_fold_levels:
  assumes "\<forall>L \<in> set Ls. \<exists>m. st L = Some m"
  shows "res_fold (\<lambda>level out. case st level of None \<Rightarrow> Inr out
      | Some m \<Rightarrow> res_bind (Inr (f level m)) (\<lambda>l. Inr (out @ [l]))) Ls acc = Inr (acc @ map (\<lambda>L. f L (the (st L))) Ls)"
  using assms by (induction Ls arbitrary: acc) (auto simp: res_bind_def)

definition top_lines :: "((string \<rightharpoonup> int) \<Rightarrow> (string \<times> int) list) \<Rightarrow> (string \<rightharpoonup> int) \<Rightarrow> nat \<Rightarrow> (string \<times> int) list" where
  "top_lines entries m n = take n (sort_key (\<lambda>e. - snd e) (entries m))"

lemma printTopK_eq:
  "0 \<le> topK \<Longrightarrow> printTopKPrefixes entries level m topK =
    Inr (level, map (\<lambda>(p, c). (TrimPrefix p ''/'', c)) (top_lines entries m (nat topK)))"
  by (auto simp: printTopKPrefixes_def top_lines_def Let_def)

lemma printLevels_eq:
  assumes "0 \<le> topK"
  shows "\<exists>M. dom (tree_of ks base n) = {1..int M} \<and>
    printLevelsInOrder entries (tree_of ks base n) topK =
      Inr (map (\<lambda>L. (L, map (\<lambda>(p, c). (TrimPrefix p ''/'', c)) (top_lines entries (the (tree_of ks base n L)) (nat topK)))) [1..int M])"
proof -
  obtain M where M: "dom (tree_of ks base n) = {1..int M}" using dom_tree by blast
  then have "\<forall>L \<in> set [1..int M]. \<exists>m. tree_of ks base n L = Some m" by auto
  from res_fold_levels [OF this, of "\<lambda>L m. (L, map (\<lambda>(p, c). (TrimPrefix p ''/'', c)) (top_lines entries m (nat topK)))" "[]"]
  show ?thesis using M unfolding printLevelsInOrder_def printTopK_eq [OF assms] by (intro exI [of _ M]) simp
qed

lemma top_lines_props:
  assumes "iterates entries" and "finite (dom m)"
  shows "sorted_wrt (\<lambda>a b. snd b \<le> snd a) (top_lines entries m n)"
    and "set (top_lines entries m n) \<subseteq> {(p, c). m p = Some c}"
    and "m p = Some c \<Longrightarrow> (p, c) \<in> set (top_lines entries m n) \<or> length (top_lines entries m n) = n \<and> (\<forall>e \<in> set (top_lines entries m n). c \<le> snd e)"
proof -
  let ?s = "sort_key (\<lambda>e. - snd e) (entries m)"
  have set_s: "set ?s = {(p, c). m p = Some c}" using assms by (simp add: iterates_def)
  have "sorted (map (\<lambda>e. - snd e) ?s)" by simp
  then have sorted: "sorted_wrt (\<lambda>a b. snd b \<le> snd a) ?s" by (simp add: sorted_map del: sorted_sort_key)
  have split: "?s = take n ?s @ drop n ?s" by simp
  show "sorted_wrt (\<lambda>a b. snd b \<le> snd a) (top_lines entries m n)" using sorted unfolding top_lines_def by (rule sorted_wrt_take)
  show "set (top_lines entries m n) \<subseteq> {(p, c). m p = Some c}" using set_s set_take_subset unfolding top_lines_def by fastforce
  show "(p, c) \<in> set (top_lines entries m n) \<or> length (top_lines entries m n) = n \<and> (\<forall>e \<in> set (top_lines entries m n). c \<le> snd e)"
    if "m p = Some c"
  proof (cases "(p, c) \<in> set (take n ?s)")
    case False
    have "(p, c) \<in> set (take n ?s @ drop n ?s)" using that set_s by simp
    then have "(p, c) \<in> set (drop n ?s)" using False unfolding set_append by blast
    moreover from this have "n < length ?s" by (metis drop_all empty_iff empty_set not_le)
    moreover have "\<forall>a \<in> set (take n ?s). \<forall>b \<in> set (drop n ?s). snd b \<le> snd a"
      using sorted split sorted_wrt_append [of _ "take n ?s" "drop n ?s"] by metis
    ultimately have "length (take n ?s) = n \<and> (\<forall>e \<in> set (take n ?s). c \<le> snd e)" by fastforce
    then show ?thesis unfolding top_lines_def ..
  qed (simp add: top_lines_def)
qed

text \<open>The lines of a level, as they should be.\<close>

definition level_exact :: "string list \<Rightarrow> string \<Rightarrow> nat \<Rightarrow> int \<Rightarrow> (string \<times> int) list \<Rightarrow> bool" where
  "level_exact ks base n L lines \<longleftrightarrow>
     (\<forall>(p, c) \<in> set lines. c = int (length (filter (at_or_below p) ks)) \<and> 0 < c) \<and>
     sorted_wrt (\<lambda>a b. snd b \<le> snd a) lines \<and>
     (\<forall>k \<in> set ks. prefix base k \<and> L \<le> int (length (rest_parts base k)) \<longrightarrow>
        (let p = tree_prefix base k L; c = int (length (filter (at_or_below p) ks))
         in (p, c) \<in> set lines \<or> length lines = n \<and> (\<forall>e \<in> set lines. c \<le> snd e)))"

lemma tree_entry:
  assumes "tree_of ks base n L = Some m" and "tree_base base" and "\<forall>k \<in> set ks. plain_path k"
  shows "m p = Some c \<Longrightarrow> \<exists>k \<in> set ks. TrimPrefix p ''/'' = tree_prefix base k L \<and> c = int (length (filter (at_or_below (tree_prefix base k L)) ks)) \<and> 0 < c"
    and "k \<in> set ks \<Longrightarrow> prefix base k \<Longrightarrow> L \<le> int (length (rest_parts base k)) \<Longrightarrow>
      TrimPrefix (getNthLevelPrefix k base L) ''/'' = tree_prefix base k L \<and>
      m (getNthLevelPrefix k base L) = Some (int (length (filter (at_or_below (tree_prefix base k L)) ks)))"
proof -
  have L: "1 \<le> L" and m: "m = (\<lambda>p. if level_count ks base L p = 0 then None else Some (int (level_count ks base L p)))"
    using assms(1) by (auto simp: tree_of_def split: if_splits)
  have at: "TrimPrefix (getNthLevelPrefix k base L) ''/'' = tree_prefix base k L"
    "level_count ks base L (getNthLevelPrefix k base L) = length (filter (at_or_below (tree_prefix base k L)) ks)"
    if "k \<in> set ks" "reaches k base L" for k
    using shown_prefix [OF assms(2) _ L that(2)] level_count_plain [OF assms(2,3) that(1) L that(2)] assms(3) that(1) by blast+
  show "\<exists>k \<in> set ks. TrimPrefix p ''/'' = tree_prefix base k L \<and> c = int (length (filter (at_or_below (tree_prefix base k L)) ks)) \<and> 0 < c"
    if "m p = Some c"
  proof -
    from that have c: "c = int (level_count ks base L p)" "level_count ks base L p \<noteq> 0" by (auto simp: m split: if_splits)
    then obtain k where "k \<in> set ks" "reaches k base L" "getNthLevelPrefix k base L = p"
      by (auto simp: level_count_def filter_empty_conv)
    then show ?thesis using at [of k] c by (intro bexI [of _ k]) auto
  qed
  show "TrimPrefix (getNthLevelPrefix k base L) ''/'' = tree_prefix base k L \<and>
      m (getNthLevelPrefix k base L) = Some (int (length (filter (at_or_below (tree_prefix base k L)) ks)))"
    if "k \<in> set ks" "prefix base k" "L \<le> int (length (rest_parts base k))"
  proof -
    have r: "reaches k base L" using reaches_plain [OF assms(2) _ L] assms(3) that by blast
    then have "level_count ks base L (getNthLevelPrefix k base L) \<noteq> 0" using that(1) by (auto simp: level_count_def filter_empty_conv)
    then show ?thesis using at [OF that(1) r] by (simp add: m)
  qed
qed

lemma level_exact_lines:
  assumes "tree_of ks base n L = Some m" and "tree_base base" and "\<forall>k \<in> set ks. plain_path k" and "iterates entries"
  shows "level_exact ks base N L (map (\<lambda>(p, c). (TrimPrefix p ''/'', c)) (top_lines entries m N))"
    (is "level_exact ks base N L (map ?show ?top)")
proof -
  note top = top_lines_props [OF assms(4) finite_level [OF assms(1)], where n = N]
  have "\<forall>(p, c) \<in> set (map ?show ?top). c = int (length (filter (at_or_below p) ks)) \<and> 0 < c"
    using top(2) tree_entry(1) [OF assms(1-3)] by fastforce
  moreover have "sorted_wrt (\<lambda>a b. snd b \<le> snd a) (map ?show ?top)" using top(1) by (simp add: sorted_wrt_map case_prod_beta)
  moreover have "(p, c) \<in> set (map ?show ?top) \<or> length (map ?show ?top) = N \<and> (\<forall>e \<in> set (map ?show ?top). c \<le> snd e)"
    if "k \<in> set ks" "prefix base k" "L \<le> int (length (rest_parts base k))" "p = tree_prefix base k L" "c = int (length (filter (at_or_below p) ks))"
    for k p c
  proof -
    have e: "TrimPrefix (getNthLevelPrefix k base L) ''/'' = p" "m (getNthLevelPrefix k base L) = Some c"
      using tree_entry(2) [OF assms(1-3) that(1-3)] that(4,5) by simp_all
    from top(3) [OF e(2)] show ?thesis using e(1) by force
  qed
  ultimately show ?thesis unfolding level_exact_def Let_def by blast
qed


definition ref_entries :: "(string \<rightharpoonup> int) \<Rightarrow> (string \<times> int) list" where
  "ref_entries m = map (\<lambda>p. (p, the (m p))) (sorted_list_of_set (dom m))"

lemma ref_entries: "iterates ref_entries"
proof -
  have "distinct (ref_entries m) \<and> set (ref_entries m) = {(p, c). m p = Some c}" if "finite (dom m)" for m
    using that by (auto simp: ref_entries_def distinct_map inj_on_def)
  then show ?thesis by (simp add: iterates_def)
qed


text \<open>A prefix that does not end at a part counts keys below a path that no key has: those of the instance \<open>by-dev2\<close> below \<open>by-dev/2\<close>.\<close>

lemma foreign_prefix: "getNthLevelPrefix ''by-dev2/meta'' ''by-dev'' 1 = ''by-dev/2''"
  by (simp add: getNthLevelPrefix_def TrimPrefix_def Trim_slash_def)

text \<open>Keys that begin with a slash are not counted when everything is to be shown.\<close>

lemma rooted_not_counted:
  assumes "\<forall>k \<in> set ks. prefix ''/'' k"
  shows "countKeysAtEachLevel ks [] maxLevel = Map.empty"
proof -
  have "getNthLevelPrefix k [] 1 = []" if "prefix ''/'' k" for k
    using that by (auto simp: getNthLevelPrefix_def TrimPrefix_def Trim_slash_def prefix_def)
  then have "\<not> reaches k [] L" if "k \<in> set ks" "1 \<le> L" for k L using that assms by (auto simp: reaches_def intro!: bexI [of _ 1])
  then show ?thesis unfolding countKeys_tree by (auto simp: tree_of_def fun_eq_iff)
qed

end
