(* ===== verification/Instance_Commands.thy ===== *)
theory Instance_Commands
  imports Segment_Check
begin

text \<open>
  Commands of a connected instance that change its metadata: \<^verbatim>\<open>force-release\<close> and \<^verbatim>\<open>release-dropped-collection\<close>
  (\<^verbatim>\<open>states/force_release.go\<close>) and \<^verbatim>\<open>kill\<close> (\<^verbatim>\<open>states/kill.go\<close>). The decoders of load infos and sessions are arguments.
\<close>

section \<open>force-release\<close>

record CollectionLoadInfo =
  cli_CollectionID :: i64

record PartitionLoadInfo =
  pli_CollectionID :: i64
  pli_PartitionID :: i64

text \<open>A removal whose error is printed.\<close>

definition release_keys :: "('s, 't) MetaKV \<Rightarrow> string list \<Rightarrow> ('s, unit) prog" where
  "release_keys K ks = prog_for ks (\<lambda>key. tolerate (prog_go (kv_Remove K key)))"

definition ForceReleaseCommand :: "('s, 't) MetaKV \<Rightarrow> (string \<Rightarrow> CollectionLoadInfo result) \<Rightarrow> (string \<Rightarrow> PartitionLoadInfo result) \<Rightarrow>
    string \<Rightarrow> i64 \<Rightarrow> bool \<Rightarrow> ('s, unit) prog" where
  "ForceReleaseCommand K un_cl un_pl basePath collectionID all =
     (if all then
        prog_bind (tolerate (prog_go (kv_RemoveWithPrefix K ''queryCoord-''))) (\<lambda>_.
          tolerate (prog_go (kv_RemoveWithPrefix K ''querycoord-'')))
      else
        prog_bind (ListCollectionLoadedInfo K un_cl basePath [\<lambda>cl. cli_CollectionID (wrapped_proto cl) = collectionID]) (\<lambda>collections.
        prog_bind (ListPartitionLoadedInfo K un_pl basePath [\<lambda>pl. collectionID = pli_CollectionID (wrapped_proto pl)]) (\<lambda>partitions.
          if length collections = 0 \<and> length partitions = 0 then prog_return ()
          else prog_bind (release_keys K (map wrapped_key collections)) (\<lambda>_. release_keys K (map wrapped_key partitions)))))"

section \<open>release-dropped-collection\<close>

definition CollectionLoadPrefix :: string where
  "CollectionLoadPrefix = ''queryCoord-collectionMeta''"

definition releaseQueryCoordLoadMeta :: "('s, 't) MetaKV \<Rightarrow> string \<Rightarrow> i64 \<Rightarrow> ('s, unit) prog" where
  "releaseQueryCoordLoadMeta K basePath collectionID =
     prog_go (kv_Remove K (path_Join [basePath, CollectionLoadPrefix, format_int (sint collectionID)]))"

text \<open>Every error of the lookup counts as a missing collection; a panic is not recovered.\<close>

definition lookup_fails :: "('s, 'a) prog \<Rightarrow> ('s, bool) prog" where
  "lookup_fails m s =
     (case m s of
        None \<Rightarrow> None
      | Some (Inl (Panic msg), s') \<Rightarrow> Some (Inl (Panic msg), s')
      | Some (Inl _, s') \<Rightarrow> Some (Inr True, s')
      | Some (Inr _, s') \<Rightarrow> Some (Inr False, s'))"

fun missing_collections :: "('s, 't) MetaKV \<Rightarrow> collection_codec \<Rightarrow> string \<Rightarrow> CollectionLoadInfo ProtoWrapper list \<Rightarrow> ('s, i64 list) prog" where
  "missing_collections K M basePath [] = prog_return []"
| "missing_collections K M basePath (info # infos) =
     (let i = cli_CollectionID (wrapped_proto info)
      in prog_bind (lookup_fails (GetCollectionByIDVersion K M basePath i)) (\<lambda>missing.
         prog_bind (missing_collections K M basePath infos) (\<lambda>rest. prog_return (if missing then i # rest else rest))))"

text \<open>The result is the list of missing collections that is printed; \<open>lte21\<close> is the test of the configured version.\<close>

definition getReleaseDroppedCollectionCmd :: "('s, 't) MetaKV \<Rightarrow> collection_codec \<Rightarrow> (string \<Rightarrow> CollectionLoadInfo result) \<Rightarrow> string \<Rightarrow>
    bool \<Rightarrow> bool \<Rightarrow> ('s, i64 list) prog" where
  "getReleaseDroppedCollectionCmd K M un_cl basePath lte21 run =
     (if \<not> lte21 then prog_return []
      else or_empty (prog_bind (ListCollectionLoadedInfo K un_cl basePath []) (\<lambda>infos.
        prog_bind (missing_collections K M basePath infos) (\<lambda>missing.
        prog_bind (if run then prog_for missing (\<lambda>i. tolerate (releaseQueryCoordLoadMeta K basePath i)) else prog_return ()) (\<lambda>_.
          prog_return missing)))))"

section \<open>kill\<close>

definition kill_key :: "string \<Rightarrow> string \<Rightarrow> i64 \<Rightarrow> string result" where
  "kill_key basePath component nodeID =
     (if ToUpper component \<in> {''QUERYCOORD'', ''DATACOORD'', ''INDEXCOORD'', ''ROOTCOORD'', ''MIXCOORD''} then
        Inr (path_Join [basePath, ''session'', ToLower component])
      else if ToUpper component \<in> {''QUERYNODE'', ''DATANODE'', ''PROXY''} then
        Inr (path_Join [basePath, ''session'', ToLower component @ ''-'' @ format_int (sint nodeID)])
      else Inl (Failure ''need to specify component type for killing''))"

definition etcdKillComponent :: "('s, 't) MetaKV \<Rightarrow> (string \<Rightarrow> Session result) \<Rightarrow> string \<Rightarrow> i64 \<Rightarrow> ('s, unit) prog" where
  "etcdKillComponent K un key i =
     prog_bind (prog_go (kv_Load K key)) (\<lambda>val.
       case un val of
         Inl _ \<Rightarrow> prog_fail (Failure (''faild to parse session for key '' @ key))
       | Inr session \<Rightarrow>
           if ServerID session \<noteq> i then prog_fail (Failure ''session id no match'') else prog_go (kv_Remove K key))"

definition KillCommand :: "('s, 't) MetaKV \<Rightarrow> (string \<Rightarrow> Session result) \<Rightarrow> string \<Rightarrow> string \<Rightarrow> i64 \<Rightarrow> bool \<Rightarrow> ('s, unit) prog" where
  "KillCommand K un basePath component nodeID run =
     prog_bind (prog_lift (kill_key basePath component nodeID)) (\<lambda>key.
       if run then etcdKillComponent K un key nodeID else prog_return ())"

section \<open>What a release removes\<close>

definition load_dir :: "string \<Rightarrow> string \<Rightarrow> string" where
  "load_dir base d = base @ ''/'' @ d"

lemma load_path:
  assumes "plain_path base" and "d \<in> {''querycoord-collection-loadinfo'', ''querycoord-partition-loadinfo''}"
  shows "joinPath [[], path_Join [base, d]] = load_dir base d" and "ends_plain (load_dir base d)"
proof -
  have d: "plain_path d" using assms(2) by (auto simp: plain_path_def plain_part_def)
  then have "path_Join [base, d] = load_dir base d" "plain_path (load_dir base d)"
    using path_Join_plain [of "[base, d]"] assms(1) by (simp_all add: load_dir_def)
  then show "joinPath [[], path_Join [base, d]] = load_dir base d" using joinPath_plain(1) by simp
  show "ends_plain (load_dir base d)" using assms(2) by (auto simp: load_dir_def ends_plain_def)
qed

context meta_kv
begin

lemma release_keys_view:
  assumes "release_keys K ks s = Some (Inr (), s')" and "\<forall>key s. fst (kv_Remove K key s) = Inr ()" and "\<forall>k \<in> set ks. joinPath [[], k] = k"
  shows "view s' = view s |` (- set ks)"
  using assms(1,3)
proof (induction ks arbitrary: s)
  case Nil
  then show ?case by (simp add: release_keys_def restrict_map_def fun_eq_iff)
next
  case (Cons k ks)
  obtain s1 where s1: "kv_Remove K k s = (Inr (), s1)" using assms(2) by (metis prod.collapse)
  then have "release_keys K ks s1 = Some (Inr (), s')"
    using Cons.prems(1) by (simp add: release_keys_def prog_bind_def tolerate_def)
  then have "view s' = view s1 |` (- set ks)" using Cons by simp
  moreover have "view s1 = (view s)(k := None)" using Remove [OF s1] Cons.prems(2) by simp
  ultimately show ?case by (auto simp: restrict_map_def fun_eq_iff)
qed

lemma listed_keys:
  assumes "ListObj2Models K un pre NewProtoWrapper [\<lambda>w. P (wrapped_proto w)] s = Some (Inr ms, s')" and "joinPath [[], pre] = p" and "ends_plain p"
    and "\<forall>k v. prefix p k \<and> view s k = Some v \<longrightarrow> decodes un v"
  shows "s' = s" and "set (map wrapped_key ms) = {k. \<exists>v o'. prefix p k \<and> view s k = Some v \<and> un v = Inr o' \<and> P o'}"
proof -
  show "s' = s" by (rule reads_onlyD [OF reads_only_lists(2) assms(1)])
  obtain r where r: "kv_LoadWithPrefix K pre s = Some (Inr r)"
    using assms(1) by (auto simp: ListObj2Models_def ListProtoObjects_def prog_bind_Inr_iff)
  define es where "es = sorted_kvs (view s) (prefix p)"
  have es: "kv_LoadWithPrefix K pre s = Some (Inr (map fst es, map snd es))"
    using load_entries [OF r] assms(2,3) r by (simp add: es_def)
  have mem: "(k, v) \<in> set es \<longleftrightarrow> view s k = Some v \<and> prefix p k" for k v by (simp add: es_def set_sorted_kvs view_finite)
  have "\<forall>(k, v) \<in> set es. decodes un v" using assms(4) mem by auto
  from zip_decoded_all [OF this] ListObj2Models_result [OF es, of un NewProtoWrapper "[\<lambda>w. P (wrapped_proto w)]"]
  have ms: "ms = filter (\<lambda>w. P (wrapped_proto w)) (map (\<lambda>e. NewProtoWrapper (decoded un (snd e)) (fst e)) es)"
    unfolding assms(1) by (simp add: case_prod_beta comp_def)
  have un: "(k, v) \<in> set es \<Longrightarrow> un v = Inr (decoded un v)" for k v
    using \<open>\<forall>(k, v) \<in> set es. decodes un v\<close> by (auto simp: decodes_def decoded_def)
  have "set (map wrapped_key ms) = fst ` {e \<in> set es. P (decoded un (snd e))}"
    by (simp add: ms filter_map comp_def NewProtoWrapper_def image_image)
  also have "\<dots> = {k. \<exists>v. (k, v) \<in> set es \<and> P (decoded un v)}" by (auto simp: image_iff)
  also have "\<dots> = {k. \<exists>v o'. prefix p k \<and> view s k = Some v \<and> un v = Inr o' \<and> P o'}"
  proof (intro Collect_cong iffI; elim exE conjE)
    fix k v assume "(k, v) \<in> set es" "P (decoded un v)"
    then show "\<exists>v o'. prefix p k \<and> view s k = Some v \<and> un v = Inr o' \<and> P o'" using mem un by blast
  next
    fix k v o' assume "prefix p k" "view s k = Some v" "un v = Inr o'" "P o'"
    then show "\<exists>v. (k, v) \<in> set es \<and> P (decoded un v)" using mem by (intro exI [of _ v]) (simp add: decoded_def)
  qed
  finally show "set (map wrapped_key ms) = {k. \<exists>v o'. prefix p k \<and> view s k = Some v \<and> un v = Inr o' \<and> P o'}" .
qed

end

definition released :: "(string \<rightharpoonup> string) \<Rightarrow> (string \<Rightarrow> CollectionLoadInfo result) \<Rightarrow> (string \<Rightarrow> PartitionLoadInfo result) \<Rightarrow> string \<Rightarrow> i64 \<Rightarrow>
    string set" where
  "released m un_cl un_pl base i =
     {k. \<exists>v cl. prefix (load_dir base ''querycoord-collection-loadinfo'') k \<and> m k = Some v \<and> un_cl v = Inr cl \<and> cli_CollectionID cl = i} \<union>
     {k. \<exists>v pl. prefix (load_dir base ''querycoord-partition-loadinfo'') k \<and> m k = Some v \<and> un_pl v = Inr pl \<and> i = pli_CollectionID pl}"

text \<open>
  Property C35.
  Releasing a collection: where the load infos decode, their keys are in the form the program writes and removals succeed,
  \<^verbatim>\<open>force-release\<close> removes the load info of the collection and of its partitions and nothing else.
\<close>

theorem ForceRelease_exact:
  assumes "meta_kv K view" and "plain_path base" and "\<forall>key s. fst (kv_Remove K key s) = Inr ()"
    and "\<forall>k v. prefix (load_dir base ''querycoord-collection-loadinfo'') k \<and> view s k = Some v \<longrightarrow> decodes un_cl v \<and> plain_path k"
    and "\<forall>k v. prefix (load_dir base ''querycoord-partition-loadinfo'') k \<and> view s k = Some v \<longrightarrow> decodes un_pl v \<and> plain_path k"
    and "ForceReleaseCommand K un_cl un_pl base i False s = Some (Inr (), s')"
  shows "view s' = view s |` (- released (view s) un_cl un_pl base i)"
proof -
  from assms(6) obtain cs ps s1 s2 where cs: "ListCollectionLoadedInfo K un_cl base [\<lambda>cl. cli_CollectionID (wrapped_proto cl) = i] s = Some (Inr cs, s1)"
    and ps: "ListPartitionLoadedInfo K un_pl base [\<lambda>pl. i = pli_CollectionID (wrapped_proto pl)] s1 = Some (Inr ps, s2)"
    and rest: "(if length cs = 0 \<and> length ps = 0 then prog_return ()
      else prog_bind (release_keys K (map wrapped_key cs)) (\<lambda>_. release_keys K (map wrapped_key ps))) s2 = Some (Inr (), s')"
    by (auto simp: ForceReleaseCommand_def prog_bind_Inr_iff)
  note dirs = load_path [OF assms(2)]
  from meta_kv.listed_keys [OF assms(1) cs [unfolded ListCollectionLoadedInfo_def] dirs] assms(4)
  have s1: "s1 = s" and ck: "set (map wrapped_key cs) = {k. \<exists>v cl. prefix (load_dir base ''querycoord-collection-loadinfo'') k \<and> view s k = Some v \<and>
      un_cl v = Inr cl \<and> cli_CollectionID cl = i}" by simp_all
  from meta_kv.listed_keys [OF assms(1) ps [unfolded ListPartitionLoadedInfo_def s1] dirs] assms(5)
  have s2: "s2 = s" and pk: "set (map wrapped_key ps) = {k. \<exists>v pl. prefix (load_dir base ''querycoord-partition-loadinfo'') k \<and> view s k = Some v \<and>
      un_pl v = Inr pl \<and> i = pli_CollectionID pl}" by simp_all
  have gone: "released (view s) un_cl un_pl base i = set (map wrapped_key cs) \<union> set (map wrapped_key ps)"
    unfolding ck pk released_def ..
  have "release_keys K [] x = Some (Inr (), x)" for x by (simp add: release_keys_def)
  then have "prog_bind (release_keys K (map wrapped_key cs)) (\<lambda>_. release_keys K (map wrapped_key ps)) s = Some (Inr (), s')"
    using rest s2 by (auto simp: prog_bind_def split: if_splits)
  then obtain s3 where "release_keys K (map wrapped_key cs) s = Some (Inr (), s3)" "release_keys K (map wrapped_key ps) s3 = Some (Inr (), s')"
    by (auto simp: prog_bind_Inr_iff)
  moreover have "\<forall>k \<in> set (map wrapped_key cs). joinPath [[], k] = k" unfolding ck using assms(4) joinPath_plain(1) by blast
  moreover have "\<forall>k \<in> set (map wrapped_key ps). joinPath [[], k] = k" unfolding pk using assms(5) joinPath_plain(1) by blast
  ultimately have "view s' = view s |` (- set (map wrapped_key cs)) |` (- set (map wrapped_key ps))"
    using meta_kv.release_keys_view [OF assms(1) _ assms(3)] by metis
  then show ?thesis unfolding gone by (simp add: restrict_map_def fun_eq_iff)
qed

lemma not_query_key:
  assumes "prefix (base @ ''/'') k" and "p \<in> {''queryCoord-'', ''querycoord-''}" and "\<not> prefix p base"
  shows "\<not> prefix p k"
proof
  assume "prefix p k"
  then have "prefix p (base @ ''/'') \<or> prefix (base @ ''/'') p" using assms(1) by (metis prefix_same_cases)
  moreover have "slash \<notin> set p" "last p = CHR ''-''" "p \<noteq> []" using assms(2) by auto
  ultimately show False using assms(3) by (auto simp: prefix_def append_eq_append_conv2 Cons_eq_append_conv)
qed

text \<open>
  \<^verbatim>\<open>force-release --all\<close> releases nothing: the prefixes it removes lack the path of the instance, so every key of the instance is as before.
\<close>

theorem ForceRelease_all_misses:
  assumes "meta_kv K view" and "\<not> prefix ''queryCoord-'' base" and "\<not> prefix ''querycoord-'' base"
    and "kv_RemoveWithPrefix K ''queryCoord-'' s = (Inr (), s1)" and "kv_RemoveWithPrefix K ''querycoord-'' s1 = (Inr (), s2)"
  shows "ForceReleaseCommand K un_cl un_pl base i True s = Some (Inr (), s2) \<and> (\<forall>k. prefix (base @ ''/'') k \<longrightarrow> view s2 k = view s k)"
proof -
  have keep: "view b k = view a k"
    if run: "kv_RemoveWithPrefix K p a = (Inr (), b)" "p \<in> {''queryCoord-'', ''querycoord-''}" "prefix (base @ ''/'') k" "\<not> prefix p base" for a b p k
  proof -
    have "plain_path p" "ends_plain p" using run(2) by (auto simp: plain_path_def plain_part_def ends_plain_def)
    then have "joinPath [[], p] = p" by (simp add: joinPath_plain)
    then obtain P where "view b = view a |` {k. \<not> P k}" "\<forall>k. P k \<longrightarrow> prefix p k"
      using meta_kv.RemoveWithPrefix [OF assms(1) run(1)] \<open>ends_plain p\<close> by auto
    then show ?thesis using not_query_key [OF run(3,2,4)] by (auto simp: restrict_map_def)
  qed
  have "view s2 k = view s k" if "prefix (base @ ''/'') k" for k
    using keep [OF assms(4) _ that assms(2)] keep [OF assms(5) _ that assms(3)] by simp
  then show ?thesis using assms(4,5) by (simp add: ForceReleaseCommand_def prog_bind_def tolerate_def)
qed

text \<open>
  Releasing dropped collections removes keys of version 2.1 only, while the load infos it went through are those of version 2.2:
  these stay, and so does everything else.
\<close>

lemma reads_only_lookup [reads_only_intros]: "reads_only m \<Longrightarrow> reads_only (lookup_fails m)"
  by (auto simp: reads_only_def lookup_fails_def split: option.splits prod.splits sum.splits go_error.splits)

lemma reads_only_missing [reads_only_intros]: "reads_only (missing_collections K M base infos)"
  by (induction infos) (auto simp: Let_def intro!: reads_only_intros)

lemma changes_or_empty [changes_intros]: "changes_within view S m \<Longrightarrow> changes_within view S (or_empty m)"
  by (auto simp: changes_within_def or_empty_def split: option.splits prod.splits sum.splits go_error.splits)

lemma release_dropped_misses:
  assumes "meta_kv K view" and "plain_path base"
    and "getReleaseDroppedCollectionCmd K M un_cl base lte21 run s = Some (r, s')"
    and "\<not> prefix (base @ ''/'' @ CollectionLoadPrefix @ ''/'') k"
  shows "view s' k = view s k"
proof -
  let ?S = "{k. prefix (base @ ''/'' @ CollectionLoadPrefix @ ''/'') k}"
  have "joinPath [[], path_Join [base, CollectionLoadPrefix, format_int (sint i)]] \<in> ?S" for i :: i64
  proof -
    have "plain_path CollectionLoadPrefix" by (simp add: CollectionLoadPrefix_def plain_path_def plain_part_def)
    then have "path_Join [base, CollectionLoadPrefix, format_int (sint i)] = base @ ''/'' @ CollectionLoadPrefix @ ''/'' @ format_int (sint i)"
      "plain_path (base @ ''/'' @ CollectionLoadPrefix @ ''/'' @ format_int (sint i))"
      using path_Join_plain [of "[base, CollectionLoadPrefix, format_int (sint i)]"] assms(2) by simp_all
    then show ?thesis using joinPath_plain(1) by (simp add: prefix_def)
  qed
  then have "changes_within view ?S (releaseQueryCoordLoadMeta K base i)" for i
    unfolding releaseQueryCoordLoadMeta_def by (rule meta_kv.changes_Remove [OF assms(1)])
  moreover have "reads_only (ListCollectionLoadedInfo K un_cl base [])"
    unfolding ListCollectionLoadedInfo_def by (rule reads_only_lists)
  ultimately have within: "changes_within view ?S (getReleaseDroppedCollectionCmd K M un_cl base lte21 run)"
    unfolding getReleaseDroppedCollectionCmd_def
    by (intro changes_intros changes_reads_only [OF reads_only_missing] changes_reads_only [of "ListCollectionLoadedInfo K un_cl base []"]) auto
  show ?thesis by (rule changes_withinD [OF within assms(3)]) (use assms(4) in simp)
qed

text \<open>
  \<^verbatim>\<open>kill\<close> removes a session only when it was asked to run, and then only the entry of that component, after it found there a session with the id
  that was asked for. Everything else is as before.
\<close>

theorem Kill_exact:
  assumes "meta_kv K view" and "KillCommand K un base component nodeID run s = Some (Inr (), s')"
  shows "\<exists>key. kill_key base component nodeID = Inr key \<and>
    (if run then \<exists>val session. view s (joinPath [[], key]) = Some val \<and> un val = Inr session \<and> ServerID session = nodeID \<and>
       view s' = (view s)(joinPath [[], key] := None) else s' = s)"
proof -
  from assms(2) obtain key where key: "kill_key base component nodeID = Inr key"
    "(if run then etcdKillComponent K un key nodeID else prog_return ()) s = Some (Inr (), s')"
    by (auto simp: KillCommand_def prog_bind_Inr_iff)
  show ?thesis
  proof (cases run)
    case True
    then obtain val s1 where load: "kv_Load K key s = (Inr val, s1)"
      and found: "(case un val of Inl _ \<Rightarrow> prog_fail (Failure (''faild to parse session for key '' @ key))
       | Inr session \<Rightarrow> if ServerID session \<noteq> nodeID then prog_fail (Failure ''session id no match'') else prog_go (kv_Remove K key)) s1 = Some (Inr (), s')"
      using key(2) by (auto simp: etcdKillComponent_def prog_bind_Inr_iff simp del: prog_unfold(1,2) split del: if_split)
    from found obtain session where dec: "un val = Inr session" "ServerID session = nodeID" and rem: "kv_Remove K key s1 = (Inr (), s')"
      by (cases "un val") (auto split: if_splits)
    then show ?thesis using meta_kv.Load [OF assms(1) load] meta_kv.Remove [OF assms(1) rem] key(1) True by auto
  next
    case False
    then show ?thesis using key by auto
  qed
qed

section \<open>Concrete runs\<close>

definition ref_loads :: "(string \<times> string) list" where
  "ref_loads = [(''a/querycoord-collection-loadinfo/1'', ''c1''), (''a/querycoord-collection-loadinfo/2'', ''c2''), (''a/session/querynode-1'', ''ses'')]"

definition ref_un_cl :: "string \<Rightarrow> CollectionLoadInfo result" where
  "ref_un_cl v = (if v = ''c1'' then Inr \<lparr>cli_CollectionID = 1\<rparr> else Inr \<lparr>cli_CollectionID = 2\<rparr>)"

definition ref_un_pl :: "string \<Rightarrow> PartitionLoadInfo result" where
  "ref_un_pl v = Inr \<lparr>pli_CollectionID = 1, pli_PartitionID = 1\<rparr>"

definition ref_un_ses :: "string \<Rightarrow> Session result" where
  "ref_un_ses v = Inr \<lparr>ServerID = 1, ServerName = ''querynode'', Address = [], Exclusive = False, ses_Version = [], HostName = [],
     LeaseID = 0, ses_key = []\<rparr>"

lemma ref_plain: "plain_path ''a''"
  by (simp add: plain_path_def plain_part_def)

theorem ForceRelease_exact_witness:
  "\<exists>s'. ForceReleaseCommand (ref_kv :: (_, unit) MetaKV) ref_un_cl ref_un_pl ''a'' 1 False ref_loads = Some (Inr (), s') \<and>
     map_of s' ''a/querycoord-collection-loadinfo/1'' = None \<and> map_of s' ''a/querycoord-collection-loadinfo/2'' = Some ''c2''"
proof -
  let ?run = "ForceReleaseCommand (ref_kv :: (_, unit) MetaKV) ref_un_cl ref_un_pl ''a'' 1 False ref_loads"
  have lists: "\<exists>ms. ListObj2Models (ref_kv :: (_, unit) MetaKV) un pre conv fs s = Some (Inr ms, s)" for un pre conv fs s
    by (simp add: ListObj2Models_def ListProtoObjects_def prog_bind_def prog_read_def)
  have rel: "\<exists>s'. release_keys (ref_kv :: (_, unit) MetaKV) ks s = Some (Inr (), s')" for ks s
    by (induction ks arbitrary: s) (auto simp: release_keys_def prog_bind_def tolerate_def)
  obtain cs where cs: "ListCollectionLoadedInfo (ref_kv :: (_, unit) MetaKV) ref_un_cl ''a'' [\<lambda>cl. cli_CollectionID (wrapped_proto cl) = 1] ref_loads =
    Some (Inr cs, ref_loads)" using lists unfolding ListCollectionLoadedInfo_def by blast
  obtain ps where ps: "ListPartitionLoadedInfo (ref_kv :: (_, unit) MetaKV) ref_un_pl ''a'' [\<lambda>pl. 1 = pli_CollectionID (wrapped_proto pl)] ref_loads =
    Some (Inr ps, ref_loads)" using lists unfolding ListPartitionLoadedInfo_def by blast
  obtain s1 where s1: "release_keys (ref_kv :: (_, unit) MetaKV) (map wrapped_key cs) ref_loads = Some (Inr (), s1)" using rel by blast
  obtain s2 where s2: "release_keys (ref_kv :: (_, unit) MetaKV) (map wrapped_key ps) s1 = Some (Inr (), s2)" using rel by blast
  obtain s' where run: "?run = Some (Inr (), s')"
    using cs ps s1 s2 by (cases "cs = [] \<and> ps = []") (auto simp: ForceReleaseCommand_def prog_bind_def)
  have removes: "\<forall>key s. fst (kv_Remove (ref_kv :: (_, unit) MetaKV) key s) = Inr ()" by simp
  have dec: "\<forall>k v. prefix (load_dir ''a'' ''querycoord-collection-loadinfo'') k \<and> map_of ref_loads k = Some v \<longrightarrow> decodes ref_un_cl v \<and> plain_path k"
    "\<forall>k v. prefix (load_dir ''a'' ''querycoord-partition-loadinfo'') k \<and> map_of ref_loads k = Some v \<longrightarrow> decodes ref_un_pl v \<and> plain_path k"
    by (auto simp: ref_loads_def load_dir_def decodes_def ref_un_cl_def ref_un_pl_def plain_path_def plain_part_def split: if_splits)
  have "map_of s' = map_of ref_loads |` (- released (map_of ref_loads) ref_un_cl ref_un_pl ''a'' 1)"
    by (rule ForceRelease_exact [OF ref_kv_meta ref_plain removes dec run])
  moreover have "''a/querycoord-collection-loadinfo/1'' \<in> released (map_of ref_loads) ref_un_cl ref_un_pl ''a'' 1"
    "''a/querycoord-collection-loadinfo/2'' \<notin> released (map_of ref_loads) ref_un_cl ref_un_pl ''a'' 1"
    by (simp_all add: released_def ref_loads_def load_dir_def ref_un_cl_def)
  ultimately show ?thesis using run by (simp add: ref_loads_def)
qed

theorem ForceRelease_all_misses_witness:
  "\<exists>s'. ForceReleaseCommand (ref_kv :: (_, unit) MetaKV) ref_un_cl ref_un_pl ''a'' 0 True ref_loads = Some (Inr (), s') \<and>
     map_of s' ''a/querycoord-collection-loadinfo/1'' = Some ''c1''"
proof -
  have "\<exists>s'. kv_RemoveWithPrefix (ref_kv :: (_, unit) MetaKV) pre s = (Inr (), s')" for pre s
    by (simp add: ref_kv_def etcd_MetaKV_def etcdKV_RemoveWithPrefix_def ref_client_def go_bind_def go_return_def Let_def)
  then obtain s1 s2 where s: "kv_RemoveWithPrefix (ref_kv :: (_, unit) MetaKV) ''queryCoord-'' ref_loads = (Inr (), s1)"
    "kv_RemoveWithPrefix (ref_kv :: (_, unit) MetaKV) ''querycoord-'' s1 = (Inr (), s2)" by meson
  have "map_of s2 ''a/querycoord-collection-loadinfo/1'' = map_of ref_loads ''a/querycoord-collection-loadinfo/1''"
    "ForceReleaseCommand (ref_kv :: (_, unit) MetaKV) ref_un_cl ref_un_pl ''a'' 0 True ref_loads = Some (Inr (), s2)"
    using ForceRelease_all_misses [OF ref_kv_meta _ _ s, of "''a''" ref_un_cl ref_un_pl 0] by simp_all
  then show ?thesis by (auto simp: ref_loads_def)
qed

theorem Kill_exact_witness:
  "\<exists>s'. KillCommand (ref_kv :: (_, unit) MetaKV) ref_un_ses ''a'' ''querynode'' 1 True ref_loads = Some (Inr (), s') \<and>
     map_of s' ''a/session/querynode-1'' = None"
proof -
  have up: "ToUpper ''querynode'' = ''QUERYNODE''" "ToLower ''querynode'' = ''querynode''" by code_simp+
  have "path_Join [''a'', ''session'', ''querynode-1''] = ''a/session/querynode-1''" "plain_path ''a/session/querynode-1''"
    using path_Join_plain [of "[''a'', ''session'', ''querynode-1'']"] by (simp_all add: plain_path_def plain_part_def)
  moreover have "''querynode'' @ ''-'' @ format_int (sint (1 :: i64)) = ''querynode-1''" unfolding ref_format by simp
  ultimately have key: "kill_key ''a'' ''querynode'' 1 = Inr ''a/session/querynode-1''"
    "joinPath [[], ''a/session/querynode-1''] = ''a/session/querynode-1''"
    unfolding kill_key_def up using joinPath_plain(1) by simp_all
  obtain s' where run: "KillCommand (ref_kv :: (_, unit) MetaKV) ref_un_ses ''a'' ''querynode'' 1 True ref_loads = Some (Inr (), s')"
    by (simp add: KillCommand_def etcdKillComponent_def prog_bind_def key ref_un_ses_def ref_loads_def read_result_def)
  from Kill_exact [OF ref_kv_meta run] have "map_of s' = (map_of ref_loads)(''a/session/querynode-1'' := None)" using key by auto
  then show ?thesis using run by simp
qed

end
