(* ===== verification/Health_Check.thy ===== *)
theory Health_Check
  imports Segment_Check
begin

text \<open>
  Checks of a running instance: connecting to its components (\<^verbatim>\<open>states/mgrpc/connect.go\<close>), the items of \<^verbatim>\<open>healthz-check\<close>
  (\<^verbatim>\<open>states/healthz\<close>, \<^verbatim>\<open>states/healthz.go\<close>) and the listing of loaded segments (\<^verbatim>\<open>states/distribution.go\<close>). The components answer
  through \<open>services\<close>, an argument, as do the decoders of stored values. Where the code starts a goroutine per node and reads a channel, or
  ranges over a map, the order is an argument: it rearranges a list. The check for collections left on query nodes
  (\<^verbatim>\<open>states/etcd/repair/check_qn_collection_leak.go\<close>) is here, too.
\<close>

section \<open>Services\<close>

record SegmentVersionInfo =
  svi_ID :: i64
  svi_Collection :: i64
  svi_Channel :: string
  svi_IndexInfo :: "i64 list"

text \<open>A leader view: its channel and collection, the ids of growing segments, and the keys of the map of growing segments.\<close>

record LeaderView =
  lv_Channel :: string
  lv_Collection :: i64
  lv_GrowingSegmentIDs :: "i64 list"
  lv_GrowingSegments :: "i64 list"

record GetDataDistributionResponse =
  dist_NodeID :: i64
  dist_Segments :: "SegmentVersionInfo list"
  dist_Channels :: "(string \<times> i64) list"
  dist_LeaderViews :: "LeaderView list"

record services =
  DialContext :: "string \<Rightarrow> unit result"
  ShowCollections :: "string \<Rightarrow> string \<Rightarrow> (i64 list \<times> string list) result"
  GetDataDistribution :: "string \<Rightarrow> GetDataDistributionResponse result"

text \<open>Of databases: id and name. Of partitions: the collection. Of segment indexes: segment and index.\<close>

record health_codec =
  hc_segment :: "string \<Rightarrow> SegmentInfo result"
  hc_binlog :: "string \<Rightarrow> FieldBinlog result"
  hc_collection :: collection_codec
  hc_database :: "string \<Rightarrow> (i64 \<times> string) result"
  hc_partition :: "string \<Rightarrow> i64 result"
  hc_segment_index :: "string \<Rightarrow> (i64 \<times> i64) result"
  hc_session :: "string \<Rightarrow> Session result"
  hc_EnableDynamicField :: "Collection \<Rightarrow> bool"
  hc_IsDynamic :: "FieldSchema \<Rightarrow> bool"

definition SessionMatch :: "Session \<Rightarrow> string \<Rightarrow> bool" where
  "SessionMatch session sessionType \<longleftrightarrow>
     (if ServerName session = sessionType then True
      else if HasSuffix sessionType ''coord'' then ServerName session = ''mixcoord'' else False)"

fun dial_sessions :: "services \<Rightarrow> string \<Rightarrow> i64 \<Rightarrow> Session list \<Rightarrow> Session list result" where
  "dial_sessions svc sessionType i [] = Inr []"
| "dial_sessions svc sessionType i (session # sessions) =
     (if SessionMatch session sessionType \<and> \<not> (i \<noteq> 0 \<and> ServerID session \<noteq> i) then
        res_bind (DialContext svc (Address session)) (\<lambda>_.
        res_bind (dial_sessions svc sessionType i sessions) (\<lambda>rest. Inr (session # rest)))
      else dial_sessions svc sessionType i sessions)"

definition GetSessionConnection :: "('s, 't) MetaKV \<Rightarrow> health_codec \<Rightarrow> services \<Rightarrow> string \<Rightarrow> string \<Rightarrow> i64 \<Rightarrow> ('s, Session list) prog" where
  "GetSessionConnection K H svc basePath sessionType i =
     prog_bind (ListSessions K (hc_session H) basePath) (\<lambda>allSessions.
     prog_bind (prog_lift (dial_sessions svc sessionType i allSessions)) (\<lambda>sessions.
       if length sessions = 0 then prog_fail (Failure (''session of '' @ sessionType @ '' not found'')) else prog_return sessions))"

definition ConnectRootCoord :: "('s, 't) MetaKV \<Rightarrow> health_codec \<Rightarrow> services \<Rightarrow> string \<Rightarrow> i64 \<Rightarrow> ('s, Session) prog" where
  "ConnectRootCoord K H svc basePath i =
     prog_bind (GetSessionConnection K H svc basePath ''rootcoord'' i) (\<lambda>sessions.
       case sessions of [] \<Rightarrow> prog_fail (Failure ''rootcoord session not found'') | session # _ \<Rightarrow> prog_return session)"

definition ConnectQueryNodes :: "('s, 't) MetaKV \<Rightarrow> health_codec \<Rightarrow> services \<Rightarrow> string \<Rightarrow> i64 \<Rightarrow> ('s, Session list) prog" where
  "ConnectQueryNodes K H svc basePath i =
     prog_bind (GetSessionConnection K H svc basePath ''querynode'' i) (\<lambda>sessions.
       if length sessions = 0 then prog_fail (Failure ''querynode session not found'') else prog_return sessions)"

section \<open>Reports\<close>

datatype extra_value = XInt i64 | XText string | XInts "i64 list" | XIntSet "i64 set"

record HealthzCheckReport =
  Item :: string
  Msg :: string
  Extra :: "(string \<times> extra_value) list"

definition d64 :: "i64 \<Rightarrow> string" where
  "d64 i = format_int (sint i)"

section \<open>Lost collections\<close>

definition lost_in_db :: "i64 set \<Rightarrow> (i64 \<times> string) \<Rightarrow> i64 list \<times> string list \<Rightarrow> HealthzCheckReport list result" where
  "lost_in_db inMeta db resp =
     res_fold (\<lambda>(idx, i) results.
       if i \<in> inMeta then Inr results
       else res_bind (go_index (snd resp) (int idx)) (\<lambda>name.
         Inr (results @ [\<lparr>Item = ''ISS43407'', Msg = ''Collection '' @ d64 i @ '' not found in meta but returned from rootcoord'',
           Extra = [(''collection_id'', XInt i), (''collection_name'', XText name), (''database_id'', XInt (fst db)),
             (''database_name'', XText (snd db))]\<rparr>])))
       (zip [0..<length (fst resp)] (fst resp)) []"

definition iss43407_Check :: "('s, 't) MetaKV \<Rightarrow> health_codec \<Rightarrow> services \<Rightarrow> string \<Rightarrow> ('s, HealthzCheckReport list) prog" where
  "iss43407_Check K H svc basePath =
     prog_bind (ListCollectionWithoutFields K (hc_collection H) basePath []) (\<lambda>collections.
     prog_bind (ConnectRootCoord K H svc basePath 0) (\<lambda>session.
     let inMeta = set (map (\<lambda>c. coll_ID (cm_proto c)) collections)
     in prog_bind (ListDatabase K (hc_database H) basePath []) (\<lambda>dbs.
       prog_lift (res_fold (\<lambda>db results.
         res_bind (ShowCollections svc (Address session) (snd (wrapped_proto db))) (\<lambda>resp.
         res_bind (lost_in_db inMeta (wrapped_proto db) resp) (\<lambda>rs. Inr (results @ rs)))) dbs []))))"

definition issue43407PostRestart_Check :: "('s, 't) MetaKV \<Rightarrow> health_codec \<Rightarrow> (i64 list \<Rightarrow> i64 list) \<Rightarrow> string \<Rightarrow>
    ('s, HealthzCheckReport list) prog" where
  "issue43407PostRestart_Check K H order basePath =
     prog_bind (ListCollectionWithoutFields K (hc_collection H) basePath []) (\<lambda>collections.
     prog_bind (ListPartitions K (hc_partition H) basePath []) (\<lambda>partitions.
       let collectionIDs = set (map (\<lambda>c. coll_ID (cm_proto c)) collections);
           groups = order (remdups (map wrapped_proto partitions))
       in prog_return (map (\<lambda>i. \<lparr>Item = ''ISS43407PostRestart'', Msg = ''Collection '' @ d64 i @ '' not found in meta but referenced by partition'',
            Extra = [(''collection_id'', XInt i)]\<rparr>) (filter (\<lambda>i. i \<notin> collectionIDs) groups))))"

section \<open>Segments and indexes\<close>

text \<open>\<open>lo.Uniq\<close> keeps the first occurrence.\<close>

definition lo_Uniq :: "'a list \<Rightarrow> 'a list" where
  "lo_Uniq xs = List.rev (remdups (List.rev xs))"

definition gone_report :: "string \<Rightarrow> i64 \<Rightarrow> HealthzCheckReport" where
  "gone_report state i = \<lparr>Item = ''QUERYVIEW_LAG'', Msg = ''Sealed segment '' @ d64 i @ '' still loaded while meta gc-ed'',
     Extra = [(''segment_id'', XInt i), (''segment_state'', XText state)]\<rparr>"

definition view_lag :: "i64 set \<Rightarrow> GetDataDistributionResponse \<Rightarrow> HealthzCheckReport list" where
  "view_lag validIDs resp =
     map (gone_report ''sealed'') (filter (\<lambda>i. i \<notin> validIDs) (map svi_ID (dist_Segments resp))) @
     concat (map (\<lambda>lv. map (gone_report ''growing'') (filter (\<lambda>i. i \<notin> validIDs)
       (lo_Uniq (lo_Uniq (lv_GrowingSegmentIDs lv @ lv_GrowingSegments lv))))) (dist_LeaderViews resp))"

definition QueryViewLag_Check :: "('s, 't) MetaKV \<Rightarrow> health_codec \<Rightarrow> services \<Rightarrow> string \<Rightarrow> ('s, HealthzCheckReport list) prog" where
  "QueryViewLag_Check K H svc basePath =
     prog_bind (ListSegments K (hc_segment H) basePath []) (\<lambda>segments.
     prog_bind (ConnectQueryNodes K H svc basePath 0) (\<lambda>sessions.
       prog_return (concat (map (\<lambda>session.
         case GetDataDistribution svc (Address session) of
           Inl _ \<Rightarrow> []
         | Inr resp \<Rightarrow> view_lag (set (map (\<lambda>m. si_ID (sm_info m)) segments)) resp) sessions))))"

definition dynamic_report :: "Collection \<Rightarrow> FieldSchema \<Rightarrow> HealthzCheckReport" where
  "dynamic_report c f = \<lparr>Item = ''DYNAMIC_ATTR_MISMATCH'', Msg = ''Dynamic attribute mismatch'',
     Extra = [(''collection'', XInt (coll_ID c)), (''dynamic_field'', XText (fs_Name f)), (''dynamic_field_id'', XInt (fs_FieldID f))]\<rparr>"

text \<open>A nil schema has no fields.\<close>

definition dynamicAttrMismatch_Check :: "('s, 't) MetaKV \<Rightarrow> health_codec \<Rightarrow> string \<Rightarrow> ('s, HealthzCheckReport list) prog" where
  "dynamicAttrMismatch_Check K H basePath =
     prog_bind (ListCollections K (hc_collection H) basePath []) (\<lambda>collections.
       prog_return (concat (map (\<lambda>c.
         let flds = (case coll_Schema (cm_proto c) of None \<Rightarrow> [] | Some sch \<Rightarrow> sch_Fields sch)
         in case find (\<lambda>f. hc_IsDynamic H f \<and> \<not> hc_EnableDynamicField H (cm_proto c)) flds of
              None \<Rightarrow> []
            | Some f \<Rightarrow> [dynamic_report (cm_proto c) f]) collections)))"

definition mixed_fields :: "FieldBinlog list \<Rightarrow> i64 set" where
  "mixed_fields logs =
     (let v1 = set (map fb_FieldID (filter (\<lambda>b. length (fb_ChildFields b) = 0) logs));
          v2 = set (concat (map fb_ChildFields (filter (\<lambda>b. length (fb_ChildFields b) > 0) logs)))
      in v1 \<inter> v2)"

fun mixed_segments :: "('s, 't) MetaKV \<Rightarrow> health_codec \<Rightarrow> string \<Rightarrow> SegmentModel list \<Rightarrow> ('s, HealthzCheckReport list) prog" where
  "mixed_segments K H basePath [] = prog_return []"
| "mixed_segments K H basePath (m # ms) =
     prog_bind (GetBinlogs (getSegmentLazyFunc K (hc_binlog H) basePath (sm_info m)) m) (\<lambda>(_, logs).
     prog_bind (mixed_segments K H basePath ms) (\<lambda>rest.
       prog_return ((if mixed_fields logs \<noteq> {} then
         [\<lparr>Item = ''MIXED_BINLOGS'', Msg = ''Segment '' @ d64 (si_ID (sm_info m)) @ '' has both v1 & v2 binlog records'',
           Extra = [(''segment_id'', XInt (si_ID (sm_info m))), (''duplicated_fields'', XIntSet (mixed_fields logs))]\<rparr>] else []) @ rest)))"

definition MixedBinlogs_Check :: "('s, 't) MetaKV \<Rightarrow> health_codec \<Rightarrow> string \<Rightarrow> ('s, HealthzCheckReport list) prog" where
  "MixedBinlogs_Check K H basePath =
     prog_bind (ListSegments K (hc_segment H) basePath []) (mixed_segments K H basePath)"

section \<open>Asking every node\<close>

text \<open>
  One goroutine per node dials it and puts the client into a channel, which is closed when all are done; then one per
  client asks it and puts the answer into another. \<open>arrive\<close> gives the order in which they get there.
\<close>

definition ask_nodes :: "services \<Rightarrow> (Session list \<Rightarrow> Session list) \<Rightarrow> (Session \<Rightarrow> bool) \<Rightarrow> Session list \<Rightarrow>
    (i64 \<times> GetDataDistributionResponse result) list" where
  "ask_nodes svc arrive asked qnSessions =
     (let clients = arrive (filter (\<lambda>session. asked session \<and> \<not> isl (DialContext svc (Address session))) qnSessions)
      in map (\<lambda>session. (ServerID session, GetDataDistribution svc (Address session))) (arrive clients))"

definition index_reports :: "(i64 \<Rightarrow> SegmentInfo option) \<Rightarrow> (i64 \<Rightarrow> i64 list) \<Rightarrow> i64 \<times> GetDataDistributionResponse result \<Rightarrow>
    HealthzCheckReport list" where
  "index_reports id2Segment seg2Idx answer =
     (case snd answer of
        Inl _ \<Rightarrow> []
      | Inr resp \<Rightarrow> concat (map (\<lambda>info.
          case id2Segment (svi_ID info) of
            None \<Rightarrow> []
          | Some segment \<Rightarrow>
              if sint (si_NumOfRows segment) < 2048 then []
              else let idxes = seg2Idx (svi_ID info)
                   in if length idxes \<noteq> length (svi_IndexInfo info) then
                        [\<lparr>Item = ''LOADED_INDEX_MISSING'',
                          Msg = ''segment '' @ d64 (svi_ID info) @ '' has '' @ format_int (int (length idxes)) @ '' index, but querynode('' @
                            d64 (fst answer) @ '') reports '' @ format_int (int (length (svi_IndexInfo info))),
                          Extra = [(''segment_id'', XInt (svi_ID info)), (''loaded_indexes'', XInts (svi_IndexInfo info)),
                            (''expected_indexes'', XInts idxes)]\<rparr>] else []) (dist_Segments resp)))"

text \<open>\<open>lo.SliceToMap\<close> keeps the last segment with an id.\<close>

definition segment_of :: "SegmentModel list \<Rightarrow> i64 \<Rightarrow> SegmentInfo option" where
  "segment_of segments i = find (\<lambda>info. si_ID info = i) (List.rev (map sm_info segments))"

definition LoadedIndexMissing_Check :: "('s, 't) MetaKV \<Rightarrow> health_codec \<Rightarrow> services \<Rightarrow> (Session list \<Rightarrow> Session list) \<Rightarrow> string \<Rightarrow>
    ('s, HealthzCheckReport list) prog" where
  "LoadedIndexMissing_Check K H svc arrive basePath =
     prog_bind (ListSegments K (hc_segment H) basePath []) (\<lambda>segments.
     prog_bind (ListSegmentIndex K (hc_segment_index H) basePath []) (\<lambda>segmentIndexes.
     prog_bind (ListSessions K (hc_session H) basePath) (\<lambda>sessions.
       let seg2Idx = (\<lambda>i. map snd (filter (\<lambda>si. fst si = i) (map wrapped_proto segmentIndexes)));
           qnSessions = filter (\<lambda>sess. ServerName sess = ''querynode'') sessions
       in prog_return (concat (map (index_reports (segment_of segments) seg2Idx) (ask_nodes svc arrive (\<lambda>_. True) qnSessions))))))"

section \<open>The command\<close>

record health_orders =
  order_groups :: "i64 list \<Rightarrow> i64 list"
  order_arrival :: "Session list \<Rightarrow> Session list"

definition GetHealthzCheckItem :: "('s, 't) MetaKV \<Rightarrow> health_codec \<Rightarrow> services \<Rightarrow> health_orders \<Rightarrow> string \<Rightarrow> string \<Rightarrow>
    ('s, HealthzCheckReport list) prog option" where
  "GetHealthzCheckItem K H svc ord basePath name =
     map_of [(''ISS43407'', iss43407_Check K H svc basePath), (''ISS43407PostRestart'', issue43407PostRestart_Check K H (order_groups ord) basePath),
       (''QUERYVIEW_LAG'', QueryViewLag_Check K H svc basePath), (''DYNAMIC_ATTR_MISMATCH'', dynamicAttrMismatch_Check K H basePath),
       (''LOADED_INDEX_MISSING'', LoadedIndexMissing_Check K H svc (order_arrival ord) basePath),
       (''MIXED_BINLOGS'', MixedBinlogs_Check K H basePath)] name"

definition defaultList :: "string list" where
  "defaultList = [''ISS43407'', ''ISS43407PostRestart'']"

fun find_items :: "(string \<Rightarrow> 'i option) \<Rightarrow> string list \<Rightarrow> 'i list result" where
  "find_items table [] = Inr []"
| "find_items table (name # names) =
     (case table name of
        None \<Rightarrow> Inl (Failure (''unknown healthz check item: '' @ name))
      | Some item \<Rightarrow> res_bind (find_items table names) (\<lambda>rest. Inr (item # rest)))"

fun run_items :: "('s, HealthzCheckReport list) prog list \<Rightarrow> ('s, HealthzCheckReport list) prog" where
  "run_items [] = prog_return []"
| "run_items (item # items) =
     prog_bind item (\<lambda>itemResults. prog_bind (run_items items) (\<lambda>rest. prog_return (itemResults @ rest)))"

definition HealthzCheckCommand :: "('s, 't) MetaKV \<Rightarrow> health_codec \<Rightarrow> services \<Rightarrow> health_orders \<Rightarrow> string \<Rightarrow> string list \<Rightarrow>
    ('s, HealthzCheckReport list) prog" where
  "HealthzCheckCommand K H svc ord basePath items =
     prog_bind (prog_lift (find_items (GetHealthzCheckItem K H svc ord basePath) (if length items = 0 then defaultList else items))) run_items"

section \<open>Loaded segments\<close>

datatype dist_line = DistServer i64 | DistError go_error | DistChannel string i64 | DistLeader string "i64 list" | DistCollection i64
  | DistSegment i64 i64 string i64 | DistCollectionRows i64 | DistSealed nat i64 | DistTotal nat i64

definition loaded_rows :: "(i64 \<Rightarrow> SegmentInfo option) \<Rightarrow> SegmentVersionInfo \<Rightarrow> i64" where
  "loaded_rows id2Segment segment = (case id2Segment (svi_ID segment) of None \<Rightarrow> 0 | Some info \<Rightarrow> si_NumOfRows info)"

text \<open>Every part prints lines and counts segments and rows.\<close>

definition collection_lines :: "(i64 \<Rightarrow> SegmentInfo option) \<Rightarrow> SegmentVersionInfo list \<Rightarrow> i64 \<Rightarrow> dist_line list \<times> nat \<times> i64" where
  "collection_lines id2Segment segments collection =
     (let rows = sum_list (map (loaded_rows id2Segment) segments)
      in (DistCollection collection # map (\<lambda>g. DistSegment (svi_ID g) (svi_Collection g) (svi_Channel g) (loaded_rows id2Segment g)) segments @
           [DistCollectionRows rows], length segments, rows))"

definition node_lines :: "(i64 \<Rightarrow> SegmentInfo option) \<Rightarrow> (i64 list \<Rightarrow> i64 list) \<Rightarrow> i64 \<Rightarrow> i64 \<times> GetDataDistributionResponse result \<Rightarrow>
    dist_line list \<times> nat \<times> i64" where
  "node_lines id2Segment order collectionID answer =
     (case snd answer of
        Inl e \<Rightarrow> ([DistServer (fst answer), DistError e], 0, 0)
      | Inr resp \<Rightarrow>
          let here = (\<lambda>c. \<not> (collectionID \<noteq> 0 \<and> c \<noteq> collectionID));
              collections = filter here (order (remdups (map svi_Collection (dist_Segments resp))));
              parts = map (\<lambda>c. collection_lines id2Segment (filter (\<lambda>g. svi_Collection g = c) (dist_Segments resp)) c) collections;
              sealedNum = sum_list (map (\<lambda>p. fst (snd p)) parts);
              sealedRowCount = sum_list (map (\<lambda>p. snd (snd p)) parts)
          in (DistServer (fst answer) # map (\<lambda>(n, c). DistChannel n c) (filter (\<lambda>(_, c). here c) (dist_Channels resp)) @
                map (\<lambda>lv. DistLeader (lv_Channel lv) (lo_Uniq (lo_Uniq (lv_GrowingSegmentIDs lv @ lv_GrowingSegments lv))))
                  (filter (\<lambda>lv. here (lv_Collection lv)) (dist_LeaderViews resp)) @
                concat (map fst parts) @ [DistSealed sealedNum sealedRowCount], sealedNum, sealedRowCount))"

definition GetDistributionCommand :: "('s, 't) MetaKV \<Rightarrow> health_codec \<Rightarrow> services \<Rightarrow> (Session list \<Rightarrow> Session list) \<Rightarrow> (i64 list \<Rightarrow> i64 list) \<Rightarrow>
    string \<Rightarrow> i64 \<Rightarrow> i64 \<Rightarrow> ('s, dist_line list) prog" where
  "GetDistributionCommand K H svc arrive order basePath collectionID nodeID =
     prog_bind (ListSegments K (hc_segment H) basePath [\<lambda>m. collectionID = 0 \<or> collectionID = si_CollectionID (sm_info m)]) (\<lambda>segments.
     prog_bind (ListSessions K (hc_session H) basePath) (\<lambda>sessions.
       let qnSessions = filter (\<lambda>sess. ServerName sess = ''querynode'') sessions;
           answers = ask_nodes svc arrive (\<lambda>session. \<not> (nodeID \<noteq> 0 \<and> ServerID session \<noteq> nodeID)) qnSessions;
           parts = map (node_lines (segment_of segments) order collectionID) answers
       in prog_return (concat (map fst parts) @ [DistTotal (sum_list (map (\<lambda>p. fst (snd p)) parts)) (sum_list (map (\<lambda>p. snd (snd p)) parts))])))"

section \<open>Collections left on query nodes\<close>

text \<open>The first session with the name that can be dialled; both functions report a missing session with the same message.\<close>

fun first_client :: "services \<Rightarrow> string \<Rightarrow> Session list \<Rightarrow> Session result" where
  "first_client svc name [] = Inl (Failure ''querycoord session not found'')"
| "first_client svc name (session # sessions) =
     (if ToLower (ServerName session) \<noteq> name \<or> isl (DialContext svc (Address session)) then first_client svc name sessions
      else Inr session)"

definition getQueryCoordClient :: "services \<Rightarrow> Session list \<Rightarrow> Session result" where
  "getQueryCoordClient svc sessions = first_client svc ''querycoord'' sessions"

definition getRootCoordClient :: "services \<Rightarrow> Session list \<Rightarrow> Session result" where
  "getRootCoordClient svc sessions = first_client svc ''rootcoord'' sessions"

text \<open>The request, as a value of its only attribute; \<open>metrics\<close> answers it, \<open>topology\<close> decodes the nodes with their collections.\<close>

definition ConstructRequestByMetricType :: "string \<Rightarrow> (string \<times> string) list" where
  "ConstructRequestByMetricType metricType = [(''metric_type'', metricType)]"

definition CheckQNCollectionLeak :: "('s, 't) MetaKV \<Rightarrow> health_codec \<Rightarrow> services \<Rightarrow> (string \<Rightarrow> (string \<times> string) list \<Rightarrow> string result) \<Rightarrow>
    (string \<Rightarrow> (i64 \<times> i64 list) list result) \<Rightarrow> string \<Rightarrow> ('s, (i64 \<times> i64 list) list) prog" where
  "CheckQNCollectionLeak K H svc metrics topology basePath =
     prog_bind (ListSessions K (hc_session H) basePath) (\<lambda>sessions.
     prog_bind (prog_lift (getRootCoordClient svc sessions)) (\<lambda>rc.
     prog_bind (prog_lift (ShowCollections svc (Address rc) [])) (\<lambda>(collectionsOnRC, _).
     prog_bind (prog_lift (getQueryCoordClient svc sessions)) (\<lambda>qc.
     prog_bind (prog_lift (metrics (Address qc) (ConstructRequestByMetricType ''system_info''))) (\<lambda>resp.
     prog_bind (prog_lift (topology resp)) (\<lambda>nodes.
       prog_return (filter (\<lambda>(_, leaked). length leaked > 0)
         (map (\<lambda>(node, collectionsOnQN). (node, filter (\<lambda>i. i \<notin> set collectionsOnRC) collectionsOnQN)) nodes))))))))"

section \<open>What the checks do\<close>

lemma reads_only_sessions [reads_only_intros]: "reads_only (ListSessions K un base)"
  unfolding ListSessions_def ListSessionsByPrefix_def by (intro reads_only_intros)

lemma reads_only_connect [reads_only_intros]:
  "reads_only (GetSessionConnection K H svc base ty i)" "reads_only (ConnectRootCoord K H svc base i)" "reads_only (ConnectQueryNodes K H svc base i)"
proof -
  show conn: "reads_only (GetSessionConnection K H svc base ty i)" for ty unfolding GetSessionConnection_def by (intro reads_only_intros)
  have "reads_only (case ss of [] \<Rightarrow> prog_fail e | x # _ \<Rightarrow> prog_return x)" for ss :: "Session list" and e :: go_error
    by (cases ss) (auto intro: reads_only_intros)
  then show "reads_only (ConnectRootCoord K H svc base i)" unfolding ConnectRootCoord_def by (intro reads_only_intros conn)
  show "reads_only (ConnectQueryNodes K H svc base i)" unfolding ConnectQueryNodes_def by (intro reads_only_intros conn)
qed

lemma reads_only_WithoutFields [reads_only_intros]: "reads_only (ListCollectionWithoutFields K M base fs)"
  unfolding ListCollectionWithoutFields_def by (intro reads_only_intros)

lemma reads_only_mixed_segments [reads_only_intros]: "reads_only (mixed_segments K H base ms)"
  by (induction ms) (auto intro!: reads_only_intros)

lemma reads_only_item: "GetHealthzCheckItem K H svc ord base name = Some check \<Longrightarrow> reads_only check"
  by (auto simp: GetHealthzCheckItem_def iss43407_Check_def issue43407PostRestart_Check_def QueryViewLag_Check_def dynamicAttrMismatch_Check_def
      LoadedIndexMissing_Check_def MixedBinlogs_Check_def ListDatabase_def ListPartitions_def ListSegmentIndex_def Let_def
      intro!: reads_only_intros split: if_splits)

lemma find_items_Inr: "find_items table names = Inr items \<Longrightarrow> \<forall>item \<in> set items. \<exists>name. table name = Some item"
  by (induction names arbitrary: items) (auto simp: res_bind_Inr_iff split: option.splits)

lemma find_items_unknown: "\<exists>name \<in> set names. table name = None \<Longrightarrow>
    \<exists>name \<in> set names. table name = None \<and> find_items table names = Inl (Failure (''unknown healthz check item: '' @ name))"
proof (induction names)
  case (Cons n names)
  then show ?case by (cases "table n") (auto simp: res_bind_def)
qed simp

lemma reads_only_items: "\<forall>item \<in> set items. reads_only item \<Longrightarrow> reads_only (run_items items)"
  by (induction items) (auto intro!: reads_only_intros)

lemma HealthzCheck_reads_only: "reads_only (HealthzCheckCommand K H svc ord base items)"
proof -
  let ?names = "if length items = 0 then defaultList else items"
  show ?thesis
  proof (cases "find_items (GetHealthzCheckItem K H svc ord base) ?names")
    case (Inr checks)
    then have "reads_only (run_items checks)" by (metis find_items_Inr reads_only_item reads_only_items)
    then show ?thesis unfolding HealthzCheckCommand_def Inr by (auto simp: reads_only_def prog_bind_def)
  qed (simp add: HealthzCheckCommand_def reads_only_def prog_bind_def)
qed

lemma arrivals_mset:
  assumes "\<And>xs. mset (arrive xs) = mset xs"
  shows "mset (concat (map f (ask_nodes svc arrive asked ss))) =
    mset (concat (map (\<lambda>s. f (ServerID s, GetDataDistribution svc (Address s)))
      (filter (\<lambda>s. asked s \<and> \<not> isl (DialContext svc (Address s))) ss)))"
proof -
  have "mset (concat (map g xs)) = (\<Sum>x \<in># mset xs. mset (g x))" for g :: "Session \<Rightarrow> 'a list" and xs by (induction xs) auto
  then show ?thesis unfolding ask_nodes_def Let_def by (simp add: comp_def assms)
qed


definition ref_nodes :: "(string \<times> string) list" where
  "ref_nodes = [(''a/datacoord-meta/s/1/1/1'', ''seg''), (''a/session/querynode-1'', ''one''), (''a/session/querynode-2'', ''two'')]"

definition ref_health :: health_codec where
  "ref_health = \<lparr>hc_segment = (\<lambda>_. Inr ((ref_segment 1)\<lparr>si_NumOfRows := 4096\<rparr>)), hc_binlog = ref_unb, hc_collection = ref_coll_codec [],
     hc_database = (\<lambda>_. Inr (1, [])), hc_partition = (\<lambda>_. Inr 1), hc_segment_index = (\<lambda>_. Inr (1, 7)),
     hc_session = (\<lambda>v. Inr \<lparr>ServerID = (if v = ''one'' then 1 else 2), ServerName = ''querynode'', Address = v, Exclusive = False, ses_Version = [],
       HostName = [], LeaseID = 0, ses_key = []\<rparr>), hc_EnableDynamicField = (\<lambda>_. True), hc_IsDynamic = (\<lambda>_. False)\<rparr>"

definition ref_services :: services where
  "ref_services = \<lparr>DialContext = (\<lambda>_. Inr ()), ShowCollections = (\<lambda>_ _. Inr ([], [])),
     GetDataDistribution = (\<lambda>address. Inr \<lparr>dist_NodeID = (if address = ''one'' then 1 else 2), dist_Segments = [\<lparr>svi_ID = 1, svi_Collection = 1, svi_Channel = address,
       svi_IndexInfo = (if address = ''one'' then [] else [7])\<rparr>], dist_Channels = [], dist_LeaderViews = []\<rparr>)\<rparr>"


text \<open>What the check after a restart reports: every collection that a partition refers to and that is not there, once.\<close>

lemma PostRestart_exact:
  assumes "\<And>xs. mset (order xs) = mset xs" and "issue43407PostRestart_Check K H order base s = Some (Inr reports, s')"
  shows "\<exists>cs ps ids. ListCollectionWithoutFields K (hc_collection H) base [] s = Some (Inr cs, s) \<and>
    ListPartitions K (hc_partition H) base [] s = Some (Inr ps, s) \<and>
    map Extra reports = map (\<lambda>i. [(''collection_id'', XInt i)]) ids \<and> distinct ids \<and>
    set ids = wrapped_proto ` set ps - (\<lambda>c. coll_ID (cm_proto c)) ` set cs"
proof -
  from assms(2) obtain cs s1 ps where cs: "ListCollectionWithoutFields K (hc_collection H) base [] s = Some (Inr cs, s1)"
    and ps: "ListPartitions K (hc_partition H) base [] s1 = Some (Inr ps, s')"
    and reports: "map Extra reports = map (\<lambda>i. [(''collection_id'', XInt i)])
      (filter (\<lambda>i. i \<notin> (\<lambda>c. coll_ID (cm_proto c)) ` set cs) (order (remdups (map wrapped_proto ps))))"
    by (auto simp: issue43407PostRestart_Check_def prog_bind_Inr_iff Let_def)
  have s1: "s1 = s" by (rule reads_onlyD [OF reads_only_WithoutFields cs])
  have s': "s' = s1" using ps unfolding ListPartitions_def by (rule reads_onlyD [OF reads_only_lists(2)])
  have o: "set (order xs) = set xs" "distinct (order xs) = distinct xs" for xs
    using assms(1) [of xs] by (metis set_mset_mset, metis mset_eq_imp_distinct_iff)
  show ?thesis
    by (intro exI [of _ cs] exI [of _ ps] exI [of _ "filter (\<lambda>i. i \<notin> (\<lambda>c. coll_ID (cm_proto c)) ` set cs) (order (remdups (map wrapped_proto ps)))"])
      (use cs ps reports s1 s' o in auto)
qed

text \<open>The numbers of a node: the segments of the collection it has loaded, each counted once, whatever the order of the collections.\<close>

lemma sum_by_collection:
  fixes f :: "SegmentVersionInfo \<Rightarrow> 'n :: comm_monoid_add"
  assumes "distinct cs"
  shows "sum_list (map (\<lambda>c. sum_list (map f (filter (\<lambda>g. svi_Collection g = c) gs))) cs) = sum_list (map f (filter (\<lambda>g. svi_Collection g \<in> set cs) gs))"
proof (induction gs)
  case (Cons g gs)
  have "sum_list (map (\<lambda>c. if svi_Collection g = c then f g + h c else h c) cs) = (if svi_Collection g \<in> set cs then f g else 0) + sum_list (map h cs)" for h
    using assms by (induction cs) (auto simp: ac_simps)
  from this [of "\<lambda>c. sum_list (map f (filter (\<lambda>g. svi_Collection g = c) gs))"] Cons show ?case
    by (simp add: if_distrib [of "\<lambda>xs. sum_list (map f xs)"] cong: if_cong)
qed simp

lemma node_totals:
  fixes collectionID :: i64
  assumes "\<And>xs. mset (order xs) = mset xs" and "snd answer = Inr resp"
  defines "gs \<equiv> filter (\<lambda>g. collectionID = 0 \<or> svi_Collection g = collectionID) (dist_Segments resp)"
  shows "snd (node_lines id2Segment order collectionID answer) = (length gs, sum_list (map (loaded_rows id2Segment) gs))"
proof -
  let ?cs = "filter (\<lambda>c. \<not> (collectionID \<noteq> 0 \<and> c \<noteq> collectionID)) (order (remdups (map svi_Collection (dist_Segments resp))))"
  have "distinct (order (remdups xs))" "set (order xs) = set xs" for xs
    using assms(1) by (metis distinct_remdups mset_eq_imp_distinct_iff, metis assms(1) set_mset_mset)
  then have cs: "distinct ?cs" "filter (\<lambda>g. svi_Collection g \<in> set ?cs) (dist_Segments resp) = gs"
    unfolding gs_def by (auto intro!: filter_cong)
  show ?thesis
    using sum_by_collection [OF cs(1), of "\<lambda>_. 1 :: nat" "dist_Segments resp"]
      sum_by_collection [OF cs(1), of "loaded_rows id2Segment" "dist_Segments resp"] cs(2)
    by (simp add: node_lines_def assms(2) Let_def collection_lines_def comp_def sum_list_triv)
qed

text \<open>A leak is reported exactly for nodes with a collection that the root coordinator does not know; a component of a mixed deployment is not found.\<close>

lemma first_client_name: "first_client svc name sessions = Inr session \<Longrightarrow> ToLower (ServerName session) = name \<and> session \<in> set sessions"
  by (induction sessions) (auto split: if_splits)

lemma leak_needs_own_coordinator:
  assumes "CheckQNCollectionLeak K H svc metrics topology base s = Some (Inr reports, s')"
  shows "s' = s \<and> (\<exists>sessions. ListSessions K (hc_session H) base s = Some (Inr sessions, s) \<and>
    (\<exists>x \<in> set sessions. ToLower (ServerName x) = ''rootcoord'') \<and> (\<exists>x \<in> set sessions. ToLower (ServerName x) = ''querycoord''))"
proof -
  from assms obtain sessions s1 rc qc where l: "ListSessions K (hc_session H) base s = Some (Inr sessions, s1)" and s': "s' = s1"
    and rc: "getRootCoordClient svc sessions = Inr rc" and qc: "getQueryCoordClient svc sessions = Inr qc"
    by (auto simp: CheckQNCollectionLeak_def prog_bind_Inr_iff)
  have "s1 = s" by (rule reads_onlyD [OF reads_only_sessions l])
  moreover note first_client_name [OF rc [unfolded getRootCoordClient_def]] first_client_name [OF qc [unfolded getQueryCoordClient_def]]
  ultimately show ?thesis using l s' by blast
qed

end
