(* ===== verification/Balance_Explain.thy ===== *)
theory Balance_Explain
  imports Health_Check
begin

text \<open>
  The command \<^verbatim>\<open>explain-balance\<close> (\<^verbatim>\<open>states/balance_explain.go\<close>): what the score based balancer would do with every replica. The
  operations on \<open>float64\<close> are an argument. Every order \<open>sort.Slice\<close> may leave is the stable sort of some rearrangement of the list,
  which is an argument too; a list out of a decoded answer has no nil elements.
\<close>

section \<open>Data\<close>

record 'f float_ops =
  f_of_int :: "i64 \<Rightarrow> 'f"
  f_mul :: "'f \<Rightarrow> 'f \<Rightarrow> 'f"
  f_less :: "'f \<Rightarrow> 'f \<Rightarrow> bool"
  f_to_int :: "'f \<Rightarrow> i64"

record SegmentItem =
  it_segmentID :: i64
  it_rowNum :: i64

record NodeItem =
  it_nodeID :: i64
  it_priority :: i64
  it_nodeCollectionSegments :: "SegmentItem list"
  it_nodeRowSum :: i64
  it_nodeCollectionRowSum :: i64

record 'f ScoreBalanceParam =
  globalRowCountFactor :: 'f
  UnbalanceTolerationFactor :: 'f
  ReverseUnbalanceTolerationFactor :: 'f

record Replica =
  rep_ID :: i64
  rep_CollectionID :: i64
  rep_Nodes :: "i64 list"

text \<open>What is said of a replica: the nodes with their priorities, and a verdict.\<close>

datatype balance_verdict = Balanced i64 i64
  | ShouldMove i64 i64 i64 i64 i64 i64
  | BiggerUnbalance i64 i64 i64 i64 i64 i64 i64 i64
  | SmallerUnbalance i64 i64 i64 i64 i64 i64 i64 i64

datatype replica_report = WrongDist
  | NoSegments i64 "NodeItem list" "balance_verdict option"
  | Explained "NodeItem list" balance_verdict

section \<open>Distribution\<close>

definition getAllQueryNodeDistributions :: "services \<Rightarrow> Session list \<Rightarrow> GetDataDistributionResponse list" where
  "getAllQueryNodeDistributions svc queryNodes =
     concat (map (\<lambda>n. case DialContext svc (Address n) of
         Inl _ \<Rightarrow> []
       | Inr _ \<Rightarrow> (case GetDataDistribution svc (Address n) of Inl _ \<Rightarrow> [] | Inr resp \<Rightarrow> [resp])) queryNodes)"

text \<open>A later answer of the same node replaces an earlier one.\<close>

definition buildUpNodeSegmentsView :: "GetDataDistributionResponse list \<Rightarrow> i64 \<Rightarrow> SegmentVersionInfo list" where
  "buildUpNodeSegmentsView distResps =
     foldl (\<lambda>distView distResp. distView(dist_NodeID distResp := dist_Segments distResp)) (\<lambda>_. []) distResps"

section \<open>A replica\<close>

fun sum_node :: "(i64 \<Rightarrow> SegmentInfo option) \<Rightarrow> i64 \<Rightarrow> SegmentVersionInfo list \<Rightarrow> i64 \<Rightarrow> i64 \<Rightarrow> SegmentItem list \<Rightarrow>
    (i64 \<times> i64 \<times> SegmentItem list) option" where
  "sum_node infos collectionID [] nodeRowSum collRowSum items = Some (nodeRowSum, collRowSum, items)"
| "sum_node infos collectionID (segment # segments) nodeRowSum collRowSum items =
     (case infos (svi_ID segment) of
        None \<Rightarrow> None
      | Some info \<Rightarrow>
          if svi_Collection segment = collectionID then
            sum_node infos collectionID segments (nodeRowSum + si_NumOfRows info) (collRowSum + si_NumOfRows info)
              (items @ [\<lparr>it_segmentID = svi_ID segment, it_rowNum = si_NumOfRows info\<rparr>])
          else sum_node infos collectionID segments (nodeRowSum + si_NumOfRows info) collRowSum items)"

fun node_items :: "'f float_ops \<Rightarrow> 'f ScoreBalanceParam \<Rightarrow> (i64 \<Rightarrow> SegmentVersionInfo list) \<Rightarrow> (i64 \<Rightarrow> SegmentInfo option) \<Rightarrow> i64 \<Rightarrow> i64 list \<Rightarrow>
    NodeItem list option" where
  "node_items F param dist infos collectionID [] = Some []"
| "node_items F param dist infos collectionID (nodeID # nodes) =
     (case sum_node infos collectionID (dist nodeID) 0 0 [] of
        None \<Rightarrow> None
      | Some (nodeRowSum, collRowSum, items) \<Rightarrow>
          map_option ((#) \<lparr>it_nodeID = nodeID,
            it_priority = f_to_int F (f_mul F (globalRowCountFactor param) (f_of_int F nodeRowSum)) + collRowSum,
            it_nodeCollectionSegments = items, it_nodeRowSum = nodeRowSum, it_nodeCollectionRowSum = collRowSum\<rparr>)
            (node_items F param dist infos collectionID nodes))"

text \<open>The move of one segment, judged.\<close>

definition judge_move :: "'f float_ops \<Rightarrow> 'f ScoreBalanceParam \<Rightarrow> i64 \<Rightarrow> NodeItem \<Rightarrow> NodeItem \<Rightarrow> SegmentItem \<Rightarrow> balance_verdict" where
  "judge_move F param unbalanceDiff fromNode toNode moved =
     (let rows = it_rowNum moved;
          nextFrom = f_to_int F (f_mul F (f_of_int F (it_nodeRowSum fromNode - rows)) (globalRowCountFactor param)) + (it_nodeCollectionRowSum fromNode - rows);
          nextTo = f_to_int F (f_mul F (f_of_int F (it_nodeRowSum toNode + rows)) (globalRowCountFactor param)) + (it_nodeCollectionRowSum toNode + rows)
      in if sint nextFrom \<ge> sint nextTo then
           ShouldMove (it_segmentID moved) rows (it_nodeID fromNode) (it_nodeID toNode) nextFrom nextTo
         else let nextUnbalance = nextTo - nextFrom
              in if f_less F (f_of_int F unbalanceDiff) (f_mul F (f_of_int F nextUnbalance) (ReverseUnbalanceTolerationFactor param)) then
                   BiggerUnbalance (it_segmentID moved) rows (it_nodeID fromNode) (it_nodeID toNode) nextFrom nextTo unbalanceDiff nextUnbalance
                 else SmallerUnbalance (it_segmentID moved) rows (it_nodeID fromNode) (it_nodeID toNode) nextFrom nextTo unbalanceDiff nextUnbalance)"

definition sort_nodes :: "(NodeItem list \<Rightarrow> NodeItem list) \<Rightarrow> NodeItem list \<Rightarrow> NodeItem list" where
  "sort_nodes arrange items = sort_key (\<lambda>n. sint (it_priority n)) (arrange items)"

definition sort_segments :: "(SegmentItem list \<Rightarrow> SegmentItem list) \<Rightarrow> SegmentItem list \<Rightarrow> SegmentItem list" where
  "sort_segments arrange items = sort_key (\<lambda>g. sint (it_rowNum g)) (arrange items)"

text \<open>The first and the last node are read only where there are nodes.\<close>

definition explainReplica :: "'f float_ops \<Rightarrow> 'f ScoreBalanceParam \<Rightarrow> (NodeItem list \<Rightarrow> NodeItem list) \<Rightarrow> (SegmentItem list \<Rightarrow> SegmentItem list) \<Rightarrow>
    (i64 \<Rightarrow> SegmentVersionInfo list) \<Rightarrow> (i64 \<Rightarrow> SegmentInfo option) \<Rightarrow> Replica \<Rightarrow> replica_report result" where
  "explainReplica F param arrange arrange_segs dist infos replica =
     (case node_items F param dist infos (rep_CollectionID replica) (rep_Nodes replica) of
        None \<Rightarrow> Inr WrongDist
      | Some items \<Rightarrow>
          let nodeItems = sort_nodes arrange items
          in res_bind (go_index nodeItems 0) (\<lambda>toNode.
             res_bind (go_index nodeItems (int (length nodeItems) - 1)) (\<lambda>fromNode.
               let unbalanceDiff = it_priority fromNode - it_priority toNode;
                   stop = f_less F (f_of_int F unbalanceDiff) (f_mul F (f_of_int F (it_priority toNode)) (UnbalanceTolerationFactor param));
                   balanced = Balanced unbalanceDiff (it_priority toNode)
               in case sort_segments arrange_segs (it_nodeCollectionSegments fromNode) of
                    [] \<Rightarrow> Inr (NoSegments (it_nodeID fromNode) nodeItems (if stop then Some balanced else None))
                  | moved # _ \<Rightarrow> Inr (Explained nodeItems (if stop then balanced else judge_move F param unbalanceDiff fromNode toNode moved)))))"

section \<open>All replicas\<close>

text \<open>The reports, and the replicas that are skipped for they have no nodes.\<close>

definition scoreBasedBalanceExplain :: "'f float_ops \<Rightarrow> 'f ScoreBalanceParam \<Rightarrow> (Replica list \<Rightarrow> Replica list) \<Rightarrow> (NodeItem list \<Rightarrow> NodeItem list) \<Rightarrow>
    (SegmentItem list \<Rightarrow> SegmentItem list) \<Rightarrow> (i64 \<Rightarrow> SegmentVersionInfo list) \<Rightarrow> Replica list \<Rightarrow> SegmentModel list \<Rightarrow> replica_report list result" where
  "scoreBasedBalanceExplain F param arrange_reps arrange arrange_segs dist replicas segmentInfos =
     res_fold (\<lambda>replica reports.
         if length (rep_Nodes replica) > 0 then
           res_bind (explainReplica F param arrange arrange_segs dist (segment_of segmentInfos) replica) (\<lambda>r. Inr (reports @ [r]))
         else Inr reports)
       (sort_key (\<lambda>r. sint (rep_ID r)) (arrange_reps replicas)) []"

definition ExplainBalanceCommand :: "('s, 't) MetaKV \<Rightarrow> health_codec \<Rightarrow> (string \<Rightarrow> Replica result) \<Rightarrow> services \<Rightarrow>
    'f float_ops \<Rightarrow> 'f ScoreBalanceParam \<Rightarrow> (Replica list \<Rightarrow> Replica list) \<Rightarrow> (NodeItem list \<Rightarrow> NodeItem list) \<Rightarrow> (SegmentItem list \<Rightarrow> SegmentItem list) \<Rightarrow>
    string \<Rightarrow> i64 \<Rightarrow> string \<Rightarrow> ('s, replica_report list) prog" where
  "ExplainBalanceCommand K H un_replica svc F param arrange_reps arrange arrange_segs basePath collectionID policyName =
     prog_bind (ListServers K (hc_session H) basePath ''querynode'') (\<lambda>sessions.
     let distView = buildUpNodeSegmentsView (getAllQueryNodeDistributions svc sessions)
     in prog_bind (ListReplicas K un_replica basePath [\<lambda>r. collectionID = 0 \<or> collectionID = rep_CollectionID (wrapped_proto r)]) (\<lambda>replicas.
       if length replicas = 0 then prog_return []
       else prog_bind (or_empty (ListSegments K (hc_segment H) basePath [])) (\<lambda>segmentsInfos.
         if policyName = ''score'' then
           prog_lift (scoreBasedBalanceExplain F param arrange_reps arrange arrange_segs distView (map wrapped_proto replicas) segmentsInfos)
         else prog_fail (Panic ''nil function call''))))"

section \<open>What a recommended move does\<close>

lemma sint_of: "- (2 ^ 63) \<le> x \<Longrightarrow> x < 2 ^ 63 \<Longrightarrow> sint (word_of_int x :: i64) = x"
  by (simp add: sint_sbintrunc' signed_take_bit_int_eq_self)

lemma sint_add: "- (2 ^ 63) \<le> sint a + sint b \<Longrightarrow> sint a + sint b < 2 ^ 63 \<Longrightarrow> sint (a + b) = sint a + sint b" for a b :: i64
  using sint_of [of "sint a + sint b"] by simp

lemma sint_diff: "- (2 ^ 63) \<le> sint a - sint b \<Longrightarrow> sint a - sint b < 2 ^ 63 \<Longrightarrow> sint (a - b) = sint a - sint b" for a b :: i64
  using sint_of [of "sint a - sint b"] by simp

text \<open>Truncated products with the global factor: symmetric, monotone in the number of rows, and of moderate size for a moderate number.\<close>

definition scaled :: "'f float_ops \<Rightarrow> 'f ScoreBalanceParam \<Rightarrow> i64 \<Rightarrow> int" where
  "scaled F param n = sint (f_to_int F (f_mul F (globalRowCountFactor param) (f_of_int F n)))"

definition scales :: "'f float_ops \<Rightarrow> 'f ScoreBalanceParam \<Rightarrow> bool" where
  "scales F param \<longleftrightarrow> (\<forall>a b. f_mul F a b = f_mul F b a) \<and>
     (\<forall>m n. sint m \<le> sint n \<longrightarrow> scaled F param m \<le> scaled F param n) \<and> (\<forall>n. \<bar>sint n\<bar> \<le> 2 ^ 61 \<longrightarrow> \<bar>scaled F param n\<bar> \<le> 2 ^ 61)"

text \<open>A node that was summed up without an overflow.\<close>

definition moderate :: "'f float_ops \<Rightarrow> 'f ScoreBalanceParam \<Rightarrow> NodeItem \<Rightarrow> bool" where
  "moderate F param n \<longleftrightarrow> 0 \<le> sint (it_nodeRowSum n) \<and> sint (it_nodeRowSum n) \<le> 2 ^ 60 \<and>
     0 \<le> sint (it_nodeCollectionRowSum n) \<and> sint (it_nodeCollectionRowSum n) \<le> 2 ^ 60 \<and>
     (\<forall>g \<in> set (it_nodeCollectionSegments n). 0 \<le> sint (it_rowNum g) \<and> sint (it_rowNum g) \<le> sint (it_nodeCollectionRowSum n))"

lemma node_items_priority:
  "node_items F param dist infos c ns = Some items \<Longrightarrow> n \<in> set items \<Longrightarrow>
    it_priority n = f_to_int F (f_mul F (globalRowCountFactor param) (f_of_int F (it_nodeRowSum n))) + it_nodeCollectionRowSum n"
  by (induction ns arbitrary: items) (auto split: option.splits)

lemma judge_move_narrows:
  assumes "scales F param" and "moderate F param a" and "moderate F param b" and "g \<in> set (it_nodeCollectionSegments a)"
    and "\<And>n. n \<in> {a, b} \<Longrightarrow> it_priority n = f_to_int F (f_mul F (globalRowCountFactor param) (f_of_int F (it_nodeRowSum n))) + it_nodeCollectionRowSum n"
    and "judge_move F param d a b g = ShouldMove i rows x y nf nt"
  shows "0 \<le> sint nf - sint nt \<and> sint nf - sint nt \<le> sint (it_priority a) - sint (it_priority b) - 2 * sint rows"
proof -
  let ?r = "sint (it_rowNum g)"
  have comm: "f_mul F u v = f_mul F v u" and mono: "sint m \<le> sint n \<Longrightarrow> scaled F param m \<le> scaled F param n"
    and bound: "\<bar>sint n\<bar> \<le> 2 ^ 61 \<Longrightarrow> \<bar>scaled F param n\<bar> \<le> 2 ^ 61" for u v m n using assms(1) by (auto simp: scales_def)
  have r: "0 \<le> ?r" "?r \<le> sint (it_nodeCollectionRowSum a)" using assms(2,4) by (auto simp: moderate_def)
  have ma: "0 \<le> sint (it_nodeRowSum a)" "sint (it_nodeRowSum a) \<le> 2 ^ 60" "sint (it_nodeCollectionRowSum a) \<le> 2 ^ 60"
    using assms(2) by (auto simp: moderate_def)
  have mb: "0 \<le> sint (it_nodeRowSum b)" "sint (it_nodeRowSum b) \<le> 2 ^ 60" "0 \<le> sint (it_nodeCollectionRowSum b)" "sint (it_nodeCollectionRowSum b) \<le> 2 ^ 60"
    using assms(3) by (auto simp: moderate_def)
  have rows: "sint (it_nodeRowSum a - it_rowNum g) = sint (it_nodeRowSum a) - ?r" "sint (it_nodeRowSum b + it_rowNum g) = sint (it_nodeRowSum b) + ?r"
    "sint (it_nodeCollectionRowSum a - it_rowNum g) = sint (it_nodeCollectionRowSum a) - ?r"
    "sint (it_nodeCollectionRowSum b + it_rowNum g) = sint (it_nodeCollectionRowSum b) + ?r"
    using r ma mb by (intro sint_add sint_diff; simp)+
  have pa: "sint (it_priority n) = scaled F param (it_nodeRowSum n) + sint (it_nodeCollectionRowSum n)" if "n \<in> {a, b}" for n
    using assms(5) [OF that] bound [of "it_nodeRowSum n"] that ma mb r by (auto simp: scaled_def intro!: sint_add)
  have eqs: "nf = f_to_int F (f_mul F (f_of_int F (it_nodeRowSum a - it_rowNum g)) (globalRowCountFactor param)) + (it_nodeCollectionRowSum a - it_rowNum g)"
    "nt = f_to_int F (f_mul F (f_of_int F (it_nodeRowSum b + it_rowNum g)) (globalRowCountFactor param)) + (it_nodeCollectionRowSum b + it_rowNum g)"
    "sint nt \<le> sint nf" "rows = it_rowNum g"
    using assms(6) by (auto simp: judge_move_def Let_def split: if_splits)
  have sc: "sint (f_to_int F (f_mul F (f_of_int F n) (globalRowCountFactor param))) = scaled F param n" for n
    by (simp add: scaled_def comm [of "f_of_int F n"])
  have "\<bar>scaled F param (it_nodeRowSum a - it_rowNum g)\<bar> \<le> 2 ^ 61" "\<bar>scaled F param (it_nodeRowSum b + it_rowNum g)\<bar> \<le> 2 ^ 61"
    using rows ma mb r by (intro bound; simp add: abs_le_iff)+
  then have small: "- (2 ^ 61) \<le> scaled F param (it_nodeRowSum a - it_rowNum g)" "scaled F param (it_nodeRowSum a - it_rowNum g) \<le> 2 ^ 61"
    "- (2 ^ 61) \<le> scaled F param (it_nodeRowSum b + it_rowNum g)" "scaled F param (it_nodeRowSum b + it_rowNum g) \<le> 2 ^ 61" by auto
  have nf: "sint nf = scaled F param (it_nodeRowSum a - it_rowNum g) + (sint (it_nodeCollectionRowSum a) - ?r)"
    unfolding eqs(1) rows(3) [symmetric] sc [symmetric] by (rule sint_add; use small rows ma r in \<open>simp add: sc\<close>)
  have nt: "sint nt = scaled F param (it_nodeRowSum b + it_rowNum g) + (sint (it_nodeCollectionRowSum b) + ?r)"
    unfolding eqs(2) rows(4) [symmetric] sc [symmetric] by (rule sint_add; use small rows ma mb r in \<open>simp add: sc\<close>)
  have "scaled F param (it_nodeRowSum a - it_rowNum g) \<le> scaled F param (it_nodeRowSum a)" using mono rows(1) r(1) by simp
  moreover have "scaled F param (it_nodeRowSum b) \<le> scaled F param (it_nodeRowSum b + it_rowNum g)" using mono rows(2) r(1) by simp
  ultimately show ?thesis using pa [of a] pa [of b] nf nt eqs(3,4) by simp
qed

lemma sorted_last: "sorted (map f ys) \<Longrightarrow> x \<in> set ys \<Longrightarrow> f x \<le> f (last ys)"
  by (induction ys rule: rev_induct) (auto simp: sorted_append)

lemma sort_key_ends:
  assumes "mset (arrange xs) = mset xs" and "ys = sort_key f (arrange xs)"
  shows "set ys = set xs" and "x \<in> set ys \<Longrightarrow> f (hd ys) \<le> f x" and "x \<in> set ys \<Longrightarrow> f x \<le> f (last ys)"
proof -
  show "set ys = set xs" unfolding assms(2) using assms(1) by (metis set_mset_mset set_sort)
  have sorted: "sorted (map f ys)" unfolding assms(2) by simp
  show "f (hd ys) \<le> f x" if "x \<in> set ys" using sorted that by (cases ys) auto
  show "f x \<le> f (last ys)" if "x \<in> set ys" using sorted that by (rule sorted_last)
qed

lemma go_index_ends: "xs \<noteq> [] \<Longrightarrow> go_index xs 0 = Inr (hd xs) \<and> go_index xs (int (length xs) - 1) = Inr (last xs)"
  by (auto simp: go_index_def hd_conv_nth last_conv_nth nat_diff_distrib' Suc_le_eq)

lemma explainReplica_verdict:
  assumes "explainReplica F param arrange arrange_segs dist infos replica = Inr (Explained items (ShouldMove i rows x y nf nt))"
  obtains its g gs where "node_items F param dist infos (rep_CollectionID replica) (rep_Nodes replica) = Some its"
    "items = sort_nodes arrange its" "items \<noteq> []" "sort_segments arrange_segs (it_nodeCollectionSegments (last items)) = g # gs"
    "judge_move F param (it_priority (last items) - it_priority (hd items)) (last items) (hd items) g = ShouldMove i rows x y nf nt"
proof -
  obtain its where its: "node_items F param dist infos (rep_CollectionID replica) (rep_Nodes replica) = Some its"
    using assms by (auto simp: explainReplica_def split: option.splits)
  let ?items = "sort_nodes arrange its"
  have "?items \<noteq> []" using assms its by (auto simp: explainReplica_def go_index_def res_bind_def Let_def)
  note ends = go_index_ends [OF this]
  show thesis
  proof (cases "sort_segments arrange_segs (it_nodeCollectionSegments (last ?items))")
    case Nil
    then show ?thesis using assms its ends by (simp add: explainReplica_def res_bind_def Let_def)
  next
    case (Cons g gs)
    define d where "d = it_priority (last ?items) - it_priority (hd ?items)"
    have items: "items = ?items" and "ShouldMove i rows x y nf nt =
        (if f_less F (f_of_int F d) (f_mul F (f_of_int F (it_priority (hd ?items))) (UnbalanceTolerationFactor param))
         then Balanced d (it_priority (hd ?items)) else judge_move F param d (last ?items) (hd ?items) g)"
      using assms its ends Cons unfolding d_def by (auto simp: explainReplica_def res_bind_def Let_def)
    then have "judge_move F param d (last ?items) (hd ?items) g = ShouldMove i rows x y nf nt" by (simp split: if_splits)
    then show ?thesis using that [OF its items] Cons \<open>?items \<noteq> []\<close> unfolding items d_def by blast
  qed
qed

text \<open>
  Property C33.
  The move that \<^verbatim>\<open>explain-balance\<close> recommends: it takes the segment with fewest rows of the collection from the node with the highest priority to the one
  with the lowest, and narrows the gap between these two by at least twice the rows of the segment without turning it round. This
  needs that multiplying with the global factor is monotone and that nothing overflows.
\<close>

theorem explain_move_narrows:
  assumes "\<And>xs. mset (arrange xs) = mset xs" and "\<And>xs. mset (arrange_segs xs) = mset xs" and "scales F param"
    and "explainReplica F param arrange arrange_segs dist infos replica = Inr (Explained items (ShouldMove i rows x y nf nt))"
    and "\<forall>n \<in> set items. moderate F param n"
  shows "\<exists>a \<in> set items. \<exists>b \<in> set items. \<exists>g \<in> set (it_nodeCollectionSegments a).
    it_nodeID a = x \<and> it_nodeID b = y \<and> it_segmentID g = i \<and> it_rowNum g = rows \<and>
    (\<forall>n \<in> set items. sint (it_priority b) \<le> sint (it_priority n) \<and> sint (it_priority n) \<le> sint (it_priority a)) \<and>
    (\<forall>g' \<in> set (it_nodeCollectionSegments a). sint rows \<le> sint (it_rowNum g')) \<and>
    0 \<le> sint nf - sint nt \<and> sint nf - sint nt \<le> sint (it_priority a) - sint (it_priority b) - 2 * sint rows"
proof -
  obtain its g gs where its: "node_items F param dist infos (rep_CollectionID replica) (rep_Nodes replica) = Some its"
    and items: "items = sort_nodes arrange its" and ne: "items \<noteq> []"
    and g: "sort_segments arrange_segs (it_nodeCollectionSegments (last items)) = g # gs"
    and judged: "judge_move F param (it_priority (last items) - it_priority (hd items)) (last items) (hd items) g = ShouldMove i rows x y nf nt"
    by (rule explainReplica_verdict [OF assms(4)])
  let ?a = "last items" and ?b = "hd items"
  note nodes = sort_key_ends [of arrange its, OF assms(1) items [unfolded sort_nodes_def]]
  note segs = sort_key_ends [of arrange_segs "it_nodeCollectionSegments ?a", OF assms(2) g [unfolded sort_segments_def, symmetric]]
  have g_in: "g \<in> set (it_nodeCollectionSegments ?a)" using segs(1) by auto
  have ids: "it_nodeID ?a = x" "it_nodeID ?b = y" "it_segmentID g = i" "it_rowNum g = rows"
    using judged by (auto simp: judge_move_def Let_def split: if_splits)
  have ab: "?a \<in> set items" "?b \<in> set items" using ne by simp_all
  have least: "\<forall>g' \<in> set (it_nodeCollectionSegments ?a). sint rows \<le> sint (it_rowNum g')"
    using segs(2) segs(1) ids(4) by auto
  have prio: "it_priority n = f_to_int F (f_mul F (globalRowCountFactor param) (f_of_int F (it_nodeRowSum n))) + it_nodeCollectionRowSum n" if "n \<in> {?a, ?b}" for n
    using node_items_priority [OF its] nodes(1) ab that by blast
  have "0 \<le> sint nf - sint nt \<and> sint nf - sint nt \<le> sint (it_priority ?a) - sint (it_priority ?b) - 2 * sint rows"
    using assms(5) ab by (intro judge_move_narrows [OF assms(3) _ _ g_in prio judged]) auto
  then show ?thesis using nodes(2,3) ab g_in ids least by blast
qed

definition ref_floats :: "int float_ops" where
  "ref_floats = \<lparr>f_of_int = sint, f_mul = (*), f_less = (<), f_to_int = word_of_int\<rparr>"

definition ref_score :: "int ScoreBalanceParam" where
  "ref_score = \<lparr>globalRowCountFactor = 1, UnbalanceTolerationFactor = 0, ReverseUnbalanceTolerationFactor = 1\<rparr>"

definition ref_dist :: "i64 \<Rightarrow> SegmentVersionInfo list" where
  "ref_dist n = (if n = 1 then [\<lparr>svi_ID = 7, svi_Collection = 1, svi_Channel = [], svi_IndexInfo = []\<rparr>,
     \<lparr>svi_ID = 8, svi_Collection = 1, svi_Channel = [], svi_IndexInfo = []\<rparr>] else [])"

definition ref_rows :: "i64 \<Rightarrow> SegmentInfo option" where
  "ref_rows i = Some ((ref_segment i)\<lparr>si_NumOfRows := 100\<rparr>)"

definition ref_items :: "NodeItem list" where
  "ref_items = [\<lparr>it_nodeID = 2, it_priority = 0, it_nodeCollectionSegments = [], it_nodeRowSum = 0, it_nodeCollectionRowSum = 0\<rparr>,
     \<lparr>it_nodeID = 1, it_priority = 400, it_nodeCollectionSegments = [\<lparr>it_segmentID = 7, it_rowNum = 100\<rparr>, \<lparr>it_segmentID = 8, it_rowNum = 100\<rparr>],
      it_nodeRowSum = 200, it_nodeCollectionRowSum = 200\<rparr>]"

lemma ref_scaled: "scaled ref_floats ref_score n = sint n"
  by (simp add: scaled_def ref_floats_def ref_score_def)

theorem explain_move_narrows_witness:
  "\<exists>a \<in> set ref_items. \<exists>b \<in> set ref_items.
     explainReplica ref_floats ref_score (\<lambda>xs. xs) (\<lambda>xs. xs) ref_dist ref_rows \<lparr>rep_ID = 1, rep_CollectionID = 1, rep_Nodes = [1, 2]\<rparr> =
       Inr (Explained ref_items (ShouldMove 7 100 1 2 200 200)) \<and>
     it_nodeID a = 1 \<and> it_nodeID b = 2 \<and> sint (200 :: i64) - sint (200 :: i64) \<le> sint (it_priority a) - sint (it_priority b) - 2 * sint (100 :: i64)"
proof -
  have run: "explainReplica ref_floats ref_score (\<lambda>xs. xs) (\<lambda>xs. xs) ref_dist ref_rows \<lparr>rep_ID = 1, rep_CollectionID = 1, rep_Nodes = [1, 2]\<rparr> =
      Inr (Explained ref_items (ShouldMove 7 100 1 2 200 200))"
    by (simp add: explainReplica_def ref_dist_def ref_rows_def ref_items_def ref_floats_def ref_score_def sort_nodes_def sort_segments_def go_index_def
        res_bind_def judge_move_def Let_def)
  have scales: "scales ref_floats ref_score" by (simp add: scales_def ref_scaled) (simp add: ref_floats_def)
  have mod: "\<forall>n \<in> set ref_items. moderate ref_floats ref_score n" by (simp add: ref_items_def moderate_def)
  have "\<exists>a \<in> set ref_items. \<exists>b \<in> set ref_items. \<exists>g \<in> set (it_nodeCollectionSegments a).
    it_nodeID a = 1 \<and> it_nodeID b = 2 \<and> it_segmentID g = 7 \<and> it_rowNum g = 100 \<and>
    (\<forall>n \<in> set ref_items. sint (it_priority b) \<le> sint (it_priority n) \<and> sint (it_priority n) \<le> sint (it_priority a)) \<and>
    (\<forall>g' \<in> set (it_nodeCollectionSegments a). sint (100 :: i64) \<le> sint (it_rowNum g')) \<and>
    0 \<le> sint (200 :: i64) - sint (200 :: i64) \<and> sint (200 :: i64) - sint (200 :: i64) \<le> sint (it_priority a) - sint (it_priority b) - 2 * sint (100 :: i64)"
    by (rule explain_move_narrows [OF _ _ scales run mod]) simp_all
  then show ?thesis using run by blast
qed

end
