(* ===== verification/Spec2Isabelle.thy ===== *)
theory Spec2Isabelle
  imports Go_Prelude Go_Strings Primary_Key Delta_Data Wal_Heap Wal_Reorder Wal_Txn Wal_Scanner
    Binlog_Event Binlog_Reader Storage_Select Storage_Serde Storage_Scan
    Kv_Path Kv_Etcd Kv_Tikv Kv_Audit
    Etcd_List Etcd_Objects Etcd_Segment Etcd_Collection Etcd_Remove Etcd_Repair Etcd_Repair_Meta
    Backup_File Backup_Restore
    Cli_Framework Cli_Autocomplete Mq_Message
    Wal_Compare Segment_Check State_Util Key_Tree Instance_Commands Health_Check Balance_Explain
begin

text \<open>
  A verification library for birdwatcher, the command-line tool that inspects, backs up and repairs the metadata,
  the binlog files and the write-ahead log of a Milvus cluster. All file names below are relative to the root of
  the repository.

  \<^bold>\<open>The parts of the program and how they interact.\<close> A command reads parameters and works on a metadata store
  behind the interface \<open>MetaKV\<close> (\<^verbatim>\<open>states/kv\<close>), which is etcd or TiKV, perhaps wrapped in an audit log. The functions of
  \<^verbatim>\<open>states/etcd/common\<close> list, update and remove typed objects in it; the commands of \<^verbatim>\<open>states/etcd/remove\<close>, \<^verbatim>\<open>set\<close> and
  \<^verbatim>\<open>repair\<close> are built on them. \<^verbatim>\<open>states/etcd_backup.go\<close> writes the store to a file, \<^verbatim>\<open>states/etcd_restore.go\<close> and
  \<^verbatim>\<open>load_backup.go\<close> read it back. \<^verbatim>\<open>storage\<close> reads binlog files: events, columns, batches of files, delete records and scans
  of rows. \<^verbatim>\<open>wal\<close> reads the write-ahead log through a reorder buffer and a transaction buffer. \<^verbatim>\<open>framework\<close> turns the methods of a
  state into the commands of the shell, and \<^verbatim>\<open>mq\<close> decodes the messages of the older message queues. The remaining commands of a connected instance
  (\<^verbatim>\<open>states\<close>) check it: they compare metadata with files, with logs and with what its components answer over \<^verbatim>\<open>states/mgrpc\<close>.

  \<^bold>\<open>Theories and what they model.\<close>

  \<^item> \<open>Go_Prelude\<close>, \<open>Go_Strings\<close>: Go integers as words, errors and panics as values of \<open>go_error\<close>, \<open>'a result\<close> for functions that
    return an error, the monads \<open>go\<close> (state and error) and \<open>prog\<close> (the same, with \<open>None\<close> for a loop that has not returned),
    little-endian codecs, byte readers, and the parts of \<open>strings\<close> and \<open>strconv\<close> the program calls.
  \<^item> \<open>Primary_Key\<close>, \<open>Delta_Data\<close>: \<^verbatim>\<open>storage/common/primary_key.go\<close>, \<^verbatim>\<open>primary_keys.go\<close>, \<^verbatim>\<open>storage/delta_data.go\<close>. One linear order behind the
    ten comparison methods; the contents of a column as a list; a delete log gives back what was appended.
  \<^item> \<open>Wal_Heap\<close>, \<open>Wal_Reorder\<close>, \<open>Wal_Txn\<close>, \<open>Wal_Scanner\<close>: \<^verbatim>\<open>wal/utility\<close> and \<^verbatim>\<open>wal/adaptor\<close>. The heap keeps its order and its multiset; the
    reorder buffer pops in time-tick order; transactions are delivered whole at their commit or not at all; the two goroutines of
    the scanner refine a sequential pipeline under every interleaving and drain their log.
  \<^item> \<open>Binlog_Event\<close>, \<open>Binlog_Reader\<close>: \<^verbatim>\<open>storage/binlog/v1\<close>. Byte layouts that are written and read back, truncation, and the reading of
    payload columns.
  \<^item> \<open>Storage_Select\<close>, \<open>Storage_Serde\<close>, \<open>Storage_Scan\<close>: \<^verbatim>\<open>storage/common\<close>, \<^verbatim>\<open>storage\<close>, \<^verbatim>\<open>storage/tasks\<close>, \<^verbatim>\<open>states/scan_binlog.go\<close>. Which files form a
    batch, the conversion of columns, filters, tasks and the row loop.
  \<^item> \<open>Kv_Path\<close>, \<open>Kv_Etcd\<close>, \<open>Kv_Tikv\<close>, \<open>Kv_Audit\<close>: \<^verbatim>\<open>states/kv\<close>. Both stores refine a map from cleaned paths to values; walks and backups
    are complete or shown not to end; what the audit log keeps of a change.
  \<^item> \<open>Etcd_List\<close>, \<open>Etcd_Objects\<close>, \<open>Etcd_Segment\<close>, \<open>Etcd_Collection\<close>: \<^verbatim>\<open>states/etcd/common\<close>, \<^verbatim>\<open>models\<close>, \<^verbatim>\<open>states/etcd/set\<close>. The generic
    listings with the pairing of objects and keys, and every typed listing, update and removal on top of them.
  \<^item> \<open>Etcd_Remove\<close>: \<^verbatim>\<open>states/etcd/remove\<close> and \<^verbatim>\<open>states/etcd/repair/segment_empty.go\<close>. Which keys a command may change, what a dry run leaves,
    and that a removed binlog can be restored.
  \<^item> \<open>Etcd_Repair\<close>, \<open>Etcd_Repair_Meta\<close>: \<^verbatim>\<open>states/etcd/repair\<close> and \<^verbatim>\<open>states/etcd/common/wal_recovery_storage.go\<close>. Repairs of indexes, mixed binlogs, checkpoints,
    collections, channels and the recovery storage of the log: index repairs settle, binlogs are moved away only when others hold their
    fields, a rebuilt collection has its channels in order, lost schemas come back and nothing else changes.
  \<^item> \<open>Backup_File\<close>, \<open>Backup_Restore\<close>: \<^verbatim>\<open>states/etcd_backup.go\<close>, \<^verbatim>\<open>backup_mock_connect.go\<close>, \<^verbatim>\<open>etcd_restore.go\<close>, \<^verbatim>\<open>load_backup.go\<close>. \<open>bufio\<close> with its
    buffers, and the goroutines of a restore as a step relation: every schedule ends, with the result of a sequential read, but a
    read error can be lost.
  \<^item> \<open>Cli_Framework\<close>, \<open>Cli_Autocomplete\<close>: \<^verbatim>\<open>framework\<close>, \<^verbatim>\<open>bapps/olc.go\<close>, \<^verbatim>\<open>states/autocomplete\<close>. Methods become commands with typed flags and are merged
    into one tree; a line is processed; what is suggested for a started line.
  \<^item> \<open>Mq_Message\<close>: \<^verbatim>\<open>mq\<close>. Decoding of queue messages, their time range, the alignment check that makes the division into rows safe, and
    the order of message ids.
  \<^item> \<open>Wal_Compare\<close>: \<^verbatim>\<open>states/consumev2_cmp.go\<close>. The comparison of physical channels as a step relation: what it shows as compared agrees in all channels,
    what it reports differs, and a channel that lacks messages is never reported.
  \<^item> \<open>Segment_Check\<close>: \<^verbatim>\<open>states/garbage_collect.go\<close>, \<^verbatim>\<open>states/verify_segment.go\<close>. Which files are called garbage, and that a verification repairs nothing.
    It also has the reasoning about programs that change only some keys (\<open>changes_within\<close>).
  \<^item> \<open>State_Util\<close>, \<open>Key_Tree\<close>: \<^verbatim>\<open>states/util.go\<close>, \<^verbatim>\<open>states/etcd/show/etcd_kv_tree.go\<close>. Hybrid timestamps as pairs of an instant and a counter, and the counts of keys
    below the prefixes of every level.
  \<^item> \<open>Instance_Commands\<close>: \<^verbatim>\<open>states/force_release.go\<close>, \<^verbatim>\<open>states/kill.go\<close>. Exactly which keys are removed.
  \<^item> \<open>Health_Check\<close>, \<open>Balance_Explain\<close>: \<^verbatim>\<open>states/healthz\<close>, \<^verbatim>\<open>states/mgrpc/connect.go\<close>, \<^verbatim>\<open>states/distribution.go\<close>, \<^verbatim>\<open>states/balance_explain.go\<close> and
    \<^verbatim>\<open>states/etcd/repair/check_qn_collection_leak.go\<close>. The checks only read and do not depend on the order of goroutines; a recommended move narrows the gap
    between two nodes. The answers of the components, the order of goroutines and maps, and the operations on floating point numbers are arguments.

  \<^bold>\<open>Interfaces.\<close> \<open>fixed_codec\<close> (byte layouts), \<open>pk_order\<close> and \<open>pk_column\<close> (keys and columns of keys), \<open>msg_heap\<close> (the priority queue),
  \<open>binlog_selector\<close> (the selectors), \<open>etcd_server\<close> and \<open>tikv_server\<close> (what the client libraries document), \<open>meta_kv\<close> and \<open>bulk_kv\<close>
  (what the callers of \<open>MetaKV\<close> rely on), \<open>index_mend\<close> (the repair of one index), \<open>flag_set\<close> and \<open>cobra_find\<close> (flags and the search for a command) are locales, interpreted on the code's definitions; \<open>etcd_server\<close> and \<open>tikv_server\<close>, which
  are about code outside the repository, have reference servers and are sublocales of \<open>meta_kv\<close>.

  \<^bold>\<open>Bounds and fuel.\<close> Loops that may not end (walks and backups of a store) take fuel and answer \<open>None\<close> when it is used up. The
  theorems show that more fuel than there are stored keys is enough, or that no fuel is. All other recursion is structural or has a
  measure.

  \<^bold>\<open>Not modelled.\<close> Printing and table layouts (\<^verbatim>\<open>states/etcd/show\<close> but for the key tree, the presenters of \<^verbatim>\<open>framework\<close>); commands that forward their flags to a remote
  call and client connections (\<^verbatim>\<open>states/mgrpc\<close> but for \<^verbatim>\<open>connect.go\<close>, \<^verbatim>\<open>states/probe.go\<close>, \<^verbatim>\<open>oss\<close>, \<^verbatim>\<open>states/etcd_connect.go\<close>); downloads
  (\<^verbatim>\<open>states/download_segment.go\<close>, \<^verbatim>\<open>states/parse_file.go\<close>, \<^verbatim>\<open>states/check_partition_key.go\<close>); the lint rules of \<^verbatim>\<open>rules.go\<close>; generated code; the protobuf, JSON, Parquet, Arrow and
  gzip libraries, which are parameters with named laws; \<^verbatim>\<open>MarshalJSON\<close> methods; file names and time stamps of output files.
\<close>

end
